(* ===== verification/Prelude.thy ===== *)
theory Prelude
  imports Main "HOL-Library.Word" "HOL-Library.Product_Lexorder" "HOL-Library.Multiset"
begin

text \<open>
  Shared vocabulary of the development: the widths of Go's unsigned integers, the loops that
  several components write the same way (in-place update of the first match, removal by index,
  first-occurrence deduplication), and the list facts the component proofs rest on.
\<close>

section \<open>Machine integers\<close>

type_synonym u64 = "64 word"
type_synonym u32 = "32 word"
type_synonym i64 = int

abbreviation maxu64 :: u64 where
  "maxu64 \<equiv> - 1"

section \<open>Collections of facts\<close>

named_theorems list_loops \<open>characterisations of the list loops of the prelude\<close>

section \<open>Loops the Go sources share\<close>

text \<open>A Go loop that takes a pointer to the first matching element and writes its fields.\<close>

fun update_first :: "('a \<Rightarrow> bool) \<Rightarrow> ('a \<Rightarrow> 'a) \<Rightarrow> 'a list \<Rightarrow> 'a list" where
  "update_first p f [] = []"
| "update_first p f (x # xs) = (if p x then f x # xs else x # update_first p f xs)"

text \<open>\<open>append(xs[:i:i], xs[i+1:]...)\<close>: the slice without position \<open>i\<close>.\<close>

definition remove_at :: "nat \<Rightarrow> 'a list \<Rightarrow> 'a list" where
  "remove_at i xs = take i xs @ drop (Suc i) xs"

text \<open>Keep the first occurrence of every element that satisfies \<open>p\<close>, in order.\<close>

fun first_seen :: "('a \<Rightarrow> bool) \<Rightarrow> 'a list \<Rightarrow> 'a list \<Rightarrow> 'a list" where
  "first_seen p seen [] = []"
| "first_seen p seen (x # xs) =
     (if \<not> p x \<or> x \<in> set seen then first_seen p seen xs
      else x # first_seen p (x # seen) xs)"

section \<open>Facts about these loops\<close>

lemma length_update_first [simp]: "length (update_first p f xs) = length xs"
  by (induction xs) auto

lemma map_update_first [simp]:
  "(\<And>x. p x \<Longrightarrow> g (f x) = g x) \<Longrightarrow> map g (update_first p f xs) = map g xs"
  by (induction xs) auto

lemma set_update_first: "set (update_first p f xs) \<subseteq> set xs \<union> f ` {x \<in> set xs. p x}"
  by (induction xs) auto

lemma length_remove_at: "i < length xs \<Longrightarrow> length (remove_at i xs) = length xs - 1"
  by (simp add: remove_at_def)

lemma set_remove_at_subset: "set (remove_at i xs) \<subseteq> set xs"
  using set_take_subset [of i xs] set_drop_subset [of "Suc i" xs] by (auto simp: remove_at_def)

lemma map_remove_at: "map f (remove_at i xs) = remove_at i (map f xs)"
  by (simp add: remove_at_def take_map drop_map)

lemma mset_remove_at: "i < length xs \<Longrightarrow> mset (remove_at i xs) = mset xs - {#xs ! i#}"
  by (subst (2) id_take_nth_drop [of i xs]) (simp_all add: remove_at_def)

lemma distinct_remove_at: "distinct xs \<Longrightarrow> distinct (remove_at i xs)"
  using set_take_disj_set_drop_if_distinct [of xs i "Suc i"] by (simp add: remove_at_def)

lemma remove_at_keeps: "x \<in> set xs \<Longrightarrow> i < length xs \<Longrightarrow> x \<noteq> xs ! i \<Longrightarrow> x \<in> set (remove_at i xs)"
proof -
  assume x: "x \<in> set xs" and i: "i < length xs" and neq: "x \<noteq> xs ! i"
  from id_take_nth_drop [OF i] have "set xs = set (take i xs @ xs ! i # drop (Suc i) xs)" by simp
  with x neq show ?thesis by (auto simp: remove_at_def)
qed

lemma set_first_seen [list_loops]:
  "set (first_seen p seen xs) = {x \<in> set xs. p x} - set seen"
  by (induction p seen xs rule: first_seen.induct) auto

lemma distinct_first_seen [list_loops]: "distinct (first_seen p seen xs)"
  by (induction p seen xs rule: first_seen.induct) (auto simp: set_first_seen)

lemma map_sort_key_perm: "mset (map f (sort_key k xs)) = mset (map f xs)"
  by simp

lemma distinct_map_sort_key [simp]: "distinct (map f (sort_key k xs)) = distinct (map f xs)"
  by (metis map_sort_key_perm mset_eq_imp_distinct_iff)

lemma find_SomeD: "find P xs = Some x \<Longrightarrow> x \<in> set xs \<and> P x"
  by (induction xs) (auto split: if_splits)

lemma distinct_map_filter: "distinct (map f xs) \<Longrightarrow> distinct (map f (filter P xs))"
  by (induction xs) auto

lemma unat_ucast_up:
  assumes "LENGTH('a :: len) \<le> LENGTH('b :: len)"
  shows "unat (ucast (x :: 'a word) :: 'b word) = unat x"
proof -
  have "unat x < 2 ^ LENGTH('a)" by (rule unsigned_less)
  also have "(2 :: nat) ^ LENGTH('a) \<le> 2 ^ LENGTH('b)" using assms by simp
  finally show ?thesis by (simp add: unsigned_ucast_eq take_bit_nat_eq_self)
qed

end
