(* ===== verification/Placement.thy ===== *)
theory Placement
  imports Prelude
begin

text \<open>
  Alias merging of zones (\<^verbatim>\<open>src/go/shared/placement/merged_zone.go\<close>): the chain resolution
  \<open>resolveMergedZone\<close>, the immutable snapshot \<open>MergedZones\<close> with \<open>Final\<close> and \<open>Members\<close>, and the
  in-process cache that replaces the snapshot as a whole.  A Go map argument that the code ranges
  over is the association list of its entries in iteration order (distinct keys); lookups are
  \<open>map_of\<close>.
\<close>

section \<open>Model\<close>

datatype placement_error =
    ErrMergedZoneUnresolvable
  | ErrNoReader
  | ErrNegativeInterval
  | ErrReadFailed

definition MaxMergedZoneHops :: nat where
  "MaxMergedZoneHops = 16"

text \<open>The loop of \<open>resolveMergedZone\<close>; \<open>left\<close> is \<open>MaxMergedZoneHops - hops\<close>.\<close>

fun resolve_hops :: "(u32 \<rightharpoonup> u32) \<Rightarrow> nat \<Rightarrow> u32 \<Rightarrow> placement_error + u32" where
  "resolve_hops merges left cur =
     (case merges cur of
        None \<Rightarrow> Inr cur
      | Some nxt \<Rightarrow>
          (if nxt = 0 then Inl ErrMergedZoneUnresolvable
           else (case left of
                   0 \<Rightarrow> Inl ErrMergedZoneUnresolvable
                 | Suc l \<Rightarrow> resolve_hops merges l nxt)))"

declare resolve_hops.simps [simp del]

definition resolveMergedZone :: "(u32 \<rightharpoonup> u32) \<Rightarrow> u32 \<Rightarrow> placement_error + u32" where
  "resolveMergedZone merges zone = resolve_hops merges MaxMergedZoneHops zone"

record merged_zones =
  mz_merges :: "(u32 \<times> u32) list"
  mz_final :: "u32 \<rightharpoonup> u32"
  mz_members :: "u32 \<rightharpoonup> u32 list"

text \<open>The first loop of \<open>NewMergedZones\<close>: resolve every source zone and collect it under its
  final zone.\<close>

fun collect_merged ::
  "(u32 \<rightharpoonup> u32) \<Rightarrow> u32 list \<Rightarrow> (u32 \<rightharpoonup> u32) \<Rightarrow> (u32 \<rightharpoonup> u32 list)
     \<Rightarrow> placement_error + (u32 \<rightharpoonup> u32) \<times> (u32 \<rightharpoonup> u32 list)" where
  "collect_merged merges [] final members = Inr (final, members)"
| "collect_merged merges (src # srcs) final members =
     (case resolveMergedZone merges src of
        Inl e \<Rightarrow> Inl e
      | Inr f \<Rightarrow>
          collect_merged merges srcs (final(src \<mapsto> f))
            (members(f \<mapsto> (case members f of None \<Rightarrow> [] | Some g \<Rightarrow> g) @ [src])))"

definition NewMergedZones :: "(u32 \<times> u32) list \<Rightarrow> placement_error + merged_zones" where
  "NewMergedZones merges =
     (case collect_merged (map_of merges) (map fst merges) Map.empty Map.empty of
        Inl e \<Rightarrow> Inl e
      | Inr (final, members) \<Rightarrow>
          Inr \<lparr>mz_merges = merges, mz_final = final,
               mz_members = (\<lambda>f. map_option (\<lambda>g. sort (g @ [f])) (members f))\<rparr>)"

text \<open>A nil receiver is \<open>None\<close>: no merged zones at all.\<close>

definition Final :: "merged_zones option \<Rightarrow> u32 \<Rightarrow> u32" where
  "Final m zone =
     (case m of
        None \<Rightarrow> zone
      | Some z \<Rightarrow> (case mz_final z zone of Some f \<Rightarrow> f | None \<Rightarrow> zone))"

definition Members :: "merged_zones option \<Rightarrow> u32 \<Rightarrow> u32 list" where
  "Members m zone =
     (let final = Final m zone in
      case m of
        None \<Rightarrow> [final]
      | Some z \<Rightarrow> (case mz_members z final of Some grp \<Rightarrow> grp | None \<Rightarrow> [final]))"

definition Merges :: "merged_zones option \<Rightarrow> (u32 \<times> u32) list option" where
  "Merges m = map_option mz_merges m"

text \<open>The cache.  \<open>refresh\<close> reports its error, and whether \<open>onChange\<close> was called with the new
  snapshot; the reader's answer is its argument.\<close>

record merged_zone_cache =
  mzc_current :: "merged_zones option"
  mzc_interval :: int

definition maps_equal :: "(u32 \<times> u32) list \<Rightarrow> (u32 \<times> u32) list \<Rightarrow> bool" where
  "maps_equal a b = (length a = length b \<and> list_all (\<lambda>(k, v). map_of b k = Some v) a)"

definition cache_refresh ::
  "merged_zone_cache \<Rightarrow> placement_error + (u32 \<times> u32) list
     \<Rightarrow> placement_error option \<times> merged_zone_cache \<times> bool" where
  "cache_refresh c answer =
     (case answer of
        Inl e \<Rightarrow> (Some ErrReadFailed, c, False)
      | Inr merges \<Rightarrow>
          (if (case mzc_current c of None \<Rightarrow> False | Some cur \<Rightarrow> maps_equal (mz_merges cur) merges)
           then (None, c, False)
           else (case NewMergedZones merges of
                   Inl e \<Rightarrow> (Some e, c, False)
                 | Inr nxt \<Rightarrow> (None, c\<lparr>mzc_current := Some nxt\<rparr>, True))))"

definition DefaultMergedZoneRefreshInterval :: int where
  "DefaultMergedZoneRefreshInterval = 5000000000"

text \<open>The reader is \<open>None\<close> for a nil function, otherwise its first answer.\<close>

definition NewMergedZoneCache ::
  "(placement_error + (u32 \<times> u32) list) option \<Rightarrow> int \<Rightarrow> placement_error + merged_zone_cache" where
  "NewMergedZoneCache read interval =
     (case read of
        None \<Rightarrow> Inl ErrNoReader
      | Some answer \<Rightarrow>
          (if interval < 0 then Inl ErrNegativeInterval
           else (let iv = (if interval = 0 then DefaultMergedZoneRefreshInterval else interval) in
                 case cache_refresh \<lparr>mzc_current = None, mzc_interval = iv\<rparr> answer of
                   (Some e, _, _) \<Rightarrow> Inl e
                 | (None, c, _) \<Rightarrow> Inr c)))"

definition Snapshot :: "merged_zone_cache option \<Rightarrow> merged_zones option" where
  "Snapshot c = (case c of None \<Rightarrow> None | Some x \<Rightarrow> mzc_current x)"

section \<open>Resolution follows the chain and stops outside the map\<close>

inductive merge_chain :: "(u32 \<rightharpoonup> u32) \<Rightarrow> nat \<Rightarrow> u32 \<Rightarrow> u32 \<Rightarrow> bool" for m where
  chain_stop: "m z = None \<Longrightarrow> merge_chain m 0 z z"
| chain_hop: "m z = Some y \<Longrightarrow> y \<noteq> 0 \<Longrightarrow> merge_chain m n y f \<Longrightarrow> merge_chain m (Suc n) z f"

inductive_cases chain_0E: "merge_chain m 0 z f"
inductive_cases chain_SucE: "merge_chain m (Suc n) z f"

lemma chain_end: "merge_chain m n z f \<Longrightarrow> m f = None"
  by (induction rule: merge_chain.induct) auto

lemma chain_det: "merge_chain m n z f \<Longrightarrow> merge_chain m k z g \<Longrightarrow> f = g \<and> n = k"
proof (induction arbitrary: k g rule: merge_chain.induct)
  case (chain_stop z)
  then show ?case by (cases k) (auto elim: chain_0E chain_SucE)
next
  case (chain_hop z y n f)
  from chain_hop.prems chain_hop.hyps(1) show ?case
    by (cases rule: merge_chain.cases) (auto dest: chain_hop.IH)
qed

lemma resolve_hops_iff:
  "resolve_hops m left z = Inr f \<longleftrightarrow> (\<exists>n \<le> left. merge_chain m n z f)"
proof (induction m left z rule: resolve_hops.induct)
  case (1 m left z)
  show ?case
  proof (cases "m z")
    case None
    then show ?thesis
      by (auto simp: resolve_hops.simps [of m left z] intro: chain_stop elim: merge_chain.cases)
  next
    case (Some y)
    have "(\<exists>n \<le> left. merge_chain m n z f)
        \<longleftrightarrow> y \<noteq> 0 \<and> (\<exists>l n. left = Suc l \<and> n \<le> l \<and> merge_chain m n y f)"
      using Some by (auto elim!: merge_chain.cases [of m _ z f] intro: chain_hop split: nat.splits
          simp: less_eq_nat.simps(2))
    with Some 1 show ?thesis
      by (auto simp: resolve_hops.simps [of m left z] split: nat.splits)
  qed
qed

lemma resolve_iff:
  "resolveMergedZone m z = Inr f \<longleftrightarrow> (\<exists>n \<le> MaxMergedZoneHops. merge_chain m n z f)"
  by (simp add: resolveMergedZone_def resolve_hops_iff)

lemma resolve_outside: "m z = None \<Longrightarrow> resolveMergedZone m z = Inr z"
  by (auto simp: resolve_iff intro: chain_stop)

lemma resolve_final: "resolveMergedZone m z = Inr f \<Longrightarrow> m f = None"
  by (auto simp: resolve_iff dest: chain_end)

section \<open>The snapshot\<close>

lemma collect_merged_result:
  assumes "collect_merged m srcs fin mem = Inr (fin', mem')"
  shows "(\<forall>z \<in> set srcs. \<exists>f. resolveMergedZone m z = Inr f)
    \<and> (\<forall>z. fin' z = (if z \<in> set srcs then Some (projr (resolveMergedZone m z)) else fin z))
    \<and> (\<forall>f. mem' f = (let new = filter (\<lambda>s. resolveMergedZone m s = Inr f) srcs in
          if new = [] then mem f else Some ((case mem f of None \<Rightarrow> [] | Some g \<Rightarrow> g) @ new)))"
  using assms
proof (induction srcs arbitrary: fin mem)
  case Nil
  then show ?case by simp
next
  case (Cons src srcs)
  from Cons.prems obtain f where f: "resolveMergedZone m src = Inr f"
    by (auto split: sum.splits)
  note IH = Cons.IH [OF Cons.prems [simplified f collect_merged.simps sum.case]]
  show ?case
    using IH f by (auto simp: Let_def split: if_splits option.splits)
qed

lemma NewMergedZones_Inr:
  assumes "NewMergedZones ms = Inr z"
  shows "mz_merges z = ms
    \<and> (\<forall>s \<in> set (map fst ms). \<exists>f. resolveMergedZone (map_of ms) s = Inr f)
    \<and> mz_final z = (\<lambda>s. if s \<in> set (map fst ms)
          then Some (projr (resolveMergedZone (map_of ms) s)) else None)
    \<and> mz_members z = (\<lambda>f. let grp = filter (\<lambda>s. resolveMergedZone (map_of ms) s = Inr f) (map fst ms)
          in if grp = [] then None else Some (sort (grp @ [f])))"
proof -
  from assms obtain fin mem
    where c: "collect_merged (map_of ms) (map fst ms) Map.empty Map.empty = Inr (fin, mem)"
      and z: "z = \<lparr>mz_merges = ms, mz_final = fin,
               mz_members = (\<lambda>f. map_option (\<lambda>g. sort (g @ [f])) (mem f))\<rparr>"
    by (auto simp: NewMergedZones_def split: sum.splits)
  from collect_merged_result [OF c] show ?thesis
    unfolding z by (auto simp: Let_def fun_eq_iff)
qed

lemma Final_not_source:
  assumes "NewMergedZones ms = Inr z" and "zone \<notin> set (map fst ms)"
  shows "Final (Some z) zone = zone"
  using assms(2) NewMergedZones_Inr [OF assms(1)] by (simp add: Final_def)

text \<open>Under a built snapshot, \<open>Final\<close> is the resolution of the source's chain for every zone.\<close>

lemma Final_resolves:
  assumes "NewMergedZones ms = Inr z"
  shows "resolveMergedZone (map_of ms) zone = Inr (Final (Some z) zone)"
proof (cases "zone \<in> set (map fst ms)")
  case True
  with NewMergedZones_Inr [OF assms] obtain f where "resolveMergedZone (map_of ms) zone = Inr f"
    by blast
  with True NewMergedZones_Inr [OF assms] show ?thesis by (simp add: Final_def)
next
  case False
  then have "map_of ms zone = None" by (simp add: map_of_eq_None_iff)
  with False Final_not_source [OF assms] show ?thesis by (simp add: resolve_outside)
qed

lemma Final_None [simp]: "Final None z = z"
  by (simp add: Final_def)

lemma Final_outside:
  assumes "NewMergedZones ms = Inr z"
  shows "Final (Some z) zone \<notin> set (map fst ms)"
  using resolve_final [OF Final_resolves [OF assms]] by (simp add: map_of_eq_None_iff)

lemma Final_idem:
  assumes "NewMergedZones ms = Inr z"
  shows "Final (Some z) (Final (Some z) zone) = Final (Some z) zone"
proof -
  have "resolveMergedZone (map_of ms) (Final (Some z) zone) = Inr (Final (Some z) zone)"
    using Final_outside [OF assms] by (simp add: resolve_outside map_of_eq_None_iff)
  with Final_resolves [OF assms, of "Final (Some z) zone"] show ?thesis by simp
qed

text \<open>C37: a snapshot that \<open>NewMergedZones\<close> accepts answers \<open>Final\<close> by following the source's own
  chain to its end within the hop limit, the end is never itself merged away, and resolving
  twice changes nothing.\<close>

theorem merged_zone_final_correct:
  assumes "NewMergedZones ms = Inr z"
  shows "(\<exists>n \<le> MaxMergedZoneHops. merge_chain (map_of ms) n zone (Final (Some z) zone))
    \<and> Final (Some z) zone \<notin> set (map fst ms)
    \<and> Final (Some z) (Final (Some z) zone) = Final (Some z) zone"
  using Final_resolves [OF assms, of zone] Final_outside [OF assms] Final_idem [OF assms]
  by (auto simp: resolve_iff)

theorem merged_zone_final_correct_witness:
  "\<not> isl (NewMergedZones [(5, 6), (6, 7)])
   \<and> (\<exists>n \<le> MaxMergedZoneHops. merge_chain (map_of [(5, 6), (6, 7)]) n 5 7)"
proof -
  let ?ms = "[(5, 6), (6, 7)] :: (u32 \<times> u32) list"
  have ok: "\<not> isl (NewMergedZones ?ms)" by code_simp
  then have z: "NewMergedZones ?ms = Inr (projr (NewMergedZones ?ms))" by (simp add: sum.collapse)
  have "Final (Some (projr (NewMergedZones ?ms))) 5 = 7" by code_simp
  with merged_zone_final_correct [OF z, of 5] ok show ?thesis by simp
qed

text \<open>\<open>Members\<close> is exactly the class of zones with the same final zone, each listed once and in
  ascending order, whichever zone of the class is asked for and in whatever order the runtime
  walks the map.\<close>

theorem merged_zone_members_partition:
  assumes "NewMergedZones ms = Inr z" and "distinct (map fst ms)"
  shows "set (Members (Some z) zone) = {x. Final (Some z) x = Final (Some z) zone}
    \<and> sorted (Members (Some z) zone) \<and> distinct (Members (Some z) zone)"
proof -
  let ?f = "Final (Some z) zone"
  let ?grp = "filter (\<lambda>s. resolveMergedZone (map_of ms) s = Inr ?f) (map fst ms)"
  have mem: "Members (Some z) zone = sort (?grp @ [?f])"
    using NewMergedZones_Inr [OF assms(1)] by (simp add: Members_def Let_def)
  have other: "x \<in> set (map fst ms)" if "Final (Some z) x \<noteq> x" for x
    using that Final_not_source [OF assms(1)] by blast
  have "x \<in> set (Members (Some z) zone) \<longleftrightarrow> Final (Some z) x = ?f" for x
    using Final_idem [OF assms(1), of zone] other [of x]
    by (auto simp: mem Final_resolves [OF assms(1)])
  then have "set (Members (Some z) zone) = {x. Final (Some z) x = ?f}" by blast
  moreover have "distinct (Members (Some z) zone)"
    using assms(2) Final_outside [OF assms(1), of zone] by (auto simp: mem)
  ultimately show ?thesis by (simp add: mem)
qed

theorem merged_zone_members_partition_witness:
  "Members (Some (projr (NewMergedZones [(6, 7), (5, 6)]))) 6 = [5, 6, 7]
   \<and> set (Members (Some (projr (NewMergedZones [(6, 7), (5, 6)]))) 6)
     = {x. Final (Some (projr (NewMergedZones [(6, 7), (5, 6)]))) x = 7}"
proof -
  let ?ms = "[(6, 7), (5, 6)] :: (u32 \<times> u32) list"
  have "\<not> isl (NewMergedZones ?ms)" by code_simp
  then have z: "NewMergedZones ?ms = Inr (projr (NewMergedZones ?ms))" by (simp add: sum.collapse)
  have f: "Final (Some (projr (NewMergedZones ?ms))) 6 = 7" by code_simp
  have m: "Members (Some (projr (NewMergedZones ?ms))) 6 = [5, 6, 7]" by code_simp
  have d: "distinct (map fst ?ms)" by code_simp
  show ?thesis using merged_zone_members_partition [OF z d, of 6] unfolding f m by simp
qed

section \<open>The cache\<close>

text \<open>A snapshot is valid when it is what \<open>NewMergedZones\<close> builds from its own entries.\<close>

definition valid_snapshot :: "merged_zones \<Rightarrow> bool" where
  "valid_snapshot z \<longleftrightarrow> NewMergedZones (mz_merges z) = Inr z"

lemma NewMergedZones_valid: "NewMergedZones ms = Inr z \<Longrightarrow> valid_snapshot z"
  using NewMergedZones_Inr [of ms z] by (simp add: valid_snapshot_def)

lemma maps_equal_refl: "distinct (map fst ms) \<Longrightarrow> maps_equal ms ms"
  by (auto simp: maps_equal_def list_all_iff)

text \<open>Whatever the reader answers, a refresh never installs a broken map and never loses the
  snapshot it had: a failed refresh leaves the cache as it was, and after a successful one the
  snapshot is valid and has exactly the entries read.\<close>

theorem cache_refresh_fail_safe:
  assumes "mzc_current c = Some old" and "valid_snapshot old"
    and "\<And>ms. answer = Inr ms \<Longrightarrow> distinct (map fst ms)"
    and "cache_refresh c answer = (err, c', changed)"
  shows "(err \<noteq> None \<longrightarrow> c' = c \<and> \<not> changed)
    \<and> (\<exists>new. mzc_current c' = Some new \<and> valid_snapshot new
        \<and> (err = None \<longrightarrow> (\<exists>ms. answer = Inr ms \<and> maps_equal (mz_merges new) ms)))"
proof (cases answer)
  case (Inl e)
  with assms show ?thesis by (auto simp: cache_refresh_def)
next
  case (Inr ms)
  with assms(3) have "maps_equal ms ms" by (simp add: maps_equal_refl)
  with assms Inr show ?thesis
    by (auto simp: cache_refresh_def NewMergedZones_valid dest: NewMergedZones_Inr
        split: if_splits sum.splits)
qed

theorem cache_refresh_fail_safe_witness:
  "fst (cache_refresh \<lparr>mzc_current = Some (projr (NewMergedZones [(5, 6)])), mzc_interval = 1\<rparr>
      (Inr [(5, 6), (6, 5)])) = Some ErrMergedZoneUnresolvable
   \<and> fst (snd (cache_refresh \<lparr>mzc_current = Some (projr (NewMergedZones [(5, 6)])), mzc_interval = 1\<rparr>
      (Inr [(5, 6), (6, 5)])))
     = \<lparr>mzc_current = Some (projr (NewMergedZones [(5, 6)])), mzc_interval = 1\<rparr>"
proof -
  let ?old = "projr (NewMergedZones [(5, 6)])"
  let ?c = "\<lparr>mzc_current = Some ?old, mzc_interval = 1\<rparr>"
  let ?a = "Inr [(5, 6), (6, 5)] :: placement_error + (u32 \<times> u32) list"
  have "\<not> isl (NewMergedZones [(5, 6)])" by code_simp
  then have v: "valid_snapshot ?old" by (intro NewMergedZones_valid) (simp add: sum.collapse)
  have d: "distinct (map fst ms)" if "?a = Inr ms" for ms
    using that by auto
  have e: "fst (cache_refresh ?c ?a) = Some ErrMergedZoneUnresolvable" by code_simp
  obtain err c' ch where r: "cache_refresh ?c ?a = (err, c', ch)" by (metis prod.exhaust)
  from cache_refresh_fail_safe [OF _ v d r] e r show ?thesis by auto
qed

end
