(* ===== verification/TeamRules.thy ===== *)
theory TeamRules
  imports Prelude Placement
begin

text \<open>
  The roster rules of the team service (\<^verbatim>\<open>src/go/match/internal/team/rules.go\<close>): the record of a team,
  the operations on it, and \<open>Apply\<close>, \<open>LockMatch\<close> and their helpers as the pure functions they
  are in the source.  A nil \<open>*TeamRecord\<close> is \<open>None\<close>; the work copy that Go clones and mutates is
  the record threaded through \<open>rule_ctx\<close>; player ids are 64-bit and join sequence numbers 32-bit
  words with Go's wrap-around.
\<close>

section \<open>Data\<close>

definition Capacity :: nat where "Capacity = 5"
definition ApplicationTTLMs :: u64 where "ApplicationTTLMs = 120000"
definition MaxApplications :: nat where "MaxApplications = 10"
definition InviteTTLMs :: u64 where "InviteTTLMs = 60000"
definition MaxInvitesPerTeam :: nat where "MaxInvitesPerTeam = 10"
definition MaxPendingInvitesPerInvitee :: nat where "MaxPendingInvitesPerInvitee = 10"

text \<open>The tip codes of \<^verbatim>\<open>errors.go\<close>; \<open>TeamOK\<close> is the code 0.\<close>

datatype team_code =
    TeamOK
  | ErrPlayerId | ErrMembersFull | ErrMemberInTeam | ErrMemberNotInTeam | ErrKickSelf
  | ErrKickNotLeader | ErrAppointSelf | ErrAppointNotLeader | ErrApplicationNotFound | ErrNoTeam
  | ErrDisbandNotLeader | ErrTargetOffline | ErrNotLeader | ErrHomeZoneUnknown
  | ErrCrossZoneDenied | ErrInviteNotFound | ErrInviteLimit | ErrInMatch | ErrMemberOffline
  | ErrMemberInBattle | ErrMemberNotReady | ErrDungeonNotOpen | ErrSizeExceeded
  | ErrStateChanged | ErrInternal | ErrPvpPartySize | ErrRatingGapTooLarge

datatype session_state = SessionUnknown | SessionAbsent | SessionPresent | SessionOnline

text \<open>A Go map with a default for absent keys.\<close>

type_synonym sessions = "u64 \<Rightarrow> session_state"

datatype op_kind =
    OpCreate | OpRefresh | OpApply | OpHandleApplication | OpInvite | OpRespondInvite
  | OpLeave | OpKick | OpTransferLeader | OpDisband | OpUnknown

datatype team_change_reason =
    REASON_UNSPECIFIED | REASON_CREATED | REASON_MEMBER_JOINED | REASON_MEMBER_LEFT
  | REASON_MEMBER_KICKED | REASON_LEADER_TRANSFERRED | REASON_LEADER_OFFLINE_TRANSFERRED
  | REASON_DISBANDED | REASON_APPLICATION_CHANGED | REASON_INVITE_CHANGED
  | REASON_MATCH_STARTED | REASON_MATCH_QUEUED | REASON_MATCH_ENDED | REASON_MATCH_FAILED

record team_member_record =
  tm_player_id :: u64
  tm_zone_id :: u32
  tm_joined_at_ms :: u64
  tm_join_seq :: u32

record team_application_record =
  ta_player_id :: u64
  ta_zone_id :: u32
  ta_applied_at_ms :: u64
  ta_expire_at_ms :: u64

record team_invite_record =
  ti_invitee_id :: u64
  ti_inviter_id :: u64
  ti_zone_id :: u32
  ti_invited_at_ms :: u64
  ti_expire_at_ms :: u64

record team_record =
  tr_team_id :: u64
  tr_leader_id :: u64
  tr_zone_id :: u32
  tr_created_at_ms :: u64
  tr_members :: "team_member_record list"
  tr_applications :: "team_application_record list"
  tr_invites :: "team_invite_record list"
  tr_next_join_seq :: u32
  tr_match_lock_token :: string
  tr_match_lock_expire_at_ms :: u64
  tr_match_lock_roster :: "u64 list"

record rule_config =
  cfg_AllowCrossZone :: bool
  cfg_Zones :: "merged_zones option"

record team_op =
  op_Kind :: op_kind
  op_Caller :: u64
  op_CallerTeamId :: u64
  op_CallerZone :: u32
  op_Target :: u64
  op_TargetZone :: u32
  op_NewTeamId :: u64
  op_Accept :: bool

definition zero_op :: team_op where
  "zero_op = \<lparr>op_Kind = OpUnknown, op_Caller = 0, op_CallerTeamId = 0, op_CallerZone = 0,
     op_Target = 0, op_TargetZone = 0, op_NewTeamId = 0, op_Accept = False\<rparr>"

definition CreateOp :: "u64 \<Rightarrow> u64 \<Rightarrow> u32 \<Rightarrow> team_op" where
  "CreateOp caller teamId zone =
     zero_op\<lparr>op_Kind := OpCreate, op_Caller := caller, op_NewTeamId := teamId, op_CallerZone := zone\<rparr>"

definition RefreshOp :: "u64 \<Rightarrow> team_op" where
  "RefreshOp caller = zero_op\<lparr>op_Kind := OpRefresh, op_Caller := caller\<rparr>"

definition ApplyOp :: "u64 \<Rightarrow> u32 \<Rightarrow> team_op" where
  "ApplyOp caller callerZone =
     zero_op\<lparr>op_Kind := OpApply, op_Caller := caller, op_CallerZone := callerZone\<rparr>"

definition HandleApplicationOp :: "u64 \<Rightarrow> u64 \<Rightarrow> bool \<Rightarrow> team_op" where
  "HandleApplicationOp caller applicant approve =
     zero_op\<lparr>op_Kind := OpHandleApplication, op_Caller := caller, op_Target := applicant,
       op_Accept := approve\<rparr>"

definition InviteOp :: "u64 \<Rightarrow> u64 \<Rightarrow> u32 \<Rightarrow> team_op" where
  "InviteOp caller target targetZone =
     zero_op\<lparr>op_Kind := OpInvite, op_Caller := caller, op_Target := target,
       op_TargetZone := targetZone\<rparr>"

definition RespondInviteOp :: "u64 \<Rightarrow> bool \<Rightarrow> team_op" where
  "RespondInviteOp caller accept =
     zero_op\<lparr>op_Kind := OpRespondInvite, op_Caller := caller, op_Accept := accept\<rparr>"

definition LeaveOp :: "u64 \<Rightarrow> team_op" where
  "LeaveOp caller = zero_op\<lparr>op_Kind := OpLeave, op_Caller := caller\<rparr>"

definition KickOp :: "u64 \<Rightarrow> u64 \<Rightarrow> team_op" where
  "KickOp caller target = zero_op\<lparr>op_Kind := OpKick, op_Caller := caller, op_Target := target\<rparr>"

definition TransferLeaderOp :: "u64 \<Rightarrow> u64 \<Rightarrow> team_op" where
  "TransferLeaderOp caller target =
     zero_op\<lparr>op_Kind := OpTransferLeader, op_Caller := caller, op_Target := target\<rparr>"

definition DisbandOp :: "u64 \<Rightarrow> team_op" where
  "DisbandOp caller = zero_op\<lparr>op_Kind := OpDisband, op_Caller := caller\<rparr>"

record invite_index_add =
  ia_InviteeId :: u64
  ia_ExpireAtMs :: u64

record decision =
  dec_Code :: team_code
  dec_CodeParam :: u64
  dec_Changed :: bool
  dec_Record :: "team_record option"
  dec_Joined :: "u64 list"
  dec_Kept :: "u64 list"
  dec_Left :: "u64 list"
  dec_InvitesAdded :: "invite_index_add list"
  dec_InvitesRemoved :: "u64 list"
  dec_InvitesExpired :: "u64 list"
  dec_ExpiryOnly :: bool
  dec_Reason :: team_change_reason
  dec_Actor :: u64
  dec_LeaderOfflineTransferred :: bool
  dec_LeaderChanged :: bool
  dec_Disbanded :: bool
  dec_RevokedInvitees :: "u64 list"
  dec_RejectedApplicant :: u64
  dec_InvitedPlayer :: u64

definition zero_decision :: decision where
  "zero_decision = \<lparr>dec_Code = TeamOK, dec_CodeParam = 0, dec_Changed = False, dec_Record = None,
     dec_Joined = [], dec_Kept = [], dec_Left = [], dec_InvitesAdded = [], dec_InvitesRemoved = [],
     dec_InvitesExpired = [], dec_ExpiryOnly = False, dec_Reason = REASON_UNSPECIFIED,
     dec_Actor = 0, dec_LeaderOfflineTransferred = False, dec_LeaderChanged = False,
     dec_Disbanded = False, dec_RevokedInvitees = [], dec_RejectedApplicant = 0,
     dec_InvitedPlayer = 0\<rparr>"

definition reject :: "team_code \<Rightarrow> u64 \<Rightarrow> decision" where
  "reject code param = zero_decision\<lparr>dec_Code := code, dec_CodeParam := param\<rparr>"

section \<open>Readers\<close>

definition MatchLockActive :: "team_record option \<Rightarrow> u64 \<Rightarrow> bool" where
  "MatchLockActive rec nowMs =
     (case rec of
        None \<Rightarrow> False
      | Some r \<Rightarrow> tr_match_lock_token r \<noteq> [] \<and>
          (tr_match_lock_expire_at_ms r = 0 \<or> nowMs < tr_match_lock_expire_at_ms r))"

definition FindMember :: "team_record \<Rightarrow> u64 \<Rightarrow> team_member_record option" where
  "FindMember rec playerId = find (\<lambda>m. tm_player_id m = playerId) (tr_members rec)"

definition member_key :: "team_member_record \<Rightarrow> u32 \<times> u64" where
  "member_key m = (tm_join_seq m, tm_player_id m)"

definition sortMembers :: "team_member_record list \<Rightarrow> team_member_record list" where
  "sortMembers ms = sort_key member_key ms"

definition MemberIds :: "team_record \<Rightarrow> u64 list" where
  "MemberIds rec = map tm_player_id (sortMembers (tr_members rec))"

text \<open>A Go \<open>map[uint64]bool\<close> built once and only read is the set of its keys.\<close>

definition memberSet :: "team_record \<Rightarrow> u64 set" where
  "memberSet rec = set (map tm_player_id (tr_members rec))"

definition findApplication :: "team_record \<Rightarrow> u64 \<Rightarrow> team_application_record option" where
  "findApplication rec playerId = find (\<lambda>a. ta_player_id a = playerId) (tr_applications rec)"

definition removeApplication :: "team_record \<Rightarrow> u64 \<Rightarrow> team_record" where
  "removeApplication rec playerId =
     rec\<lparr>tr_applications := filter (\<lambda>a. ta_player_id a \<noteq> playerId) (tr_applications rec)\<rparr>"

definition findInvite :: "team_record \<Rightarrow> u64 \<Rightarrow> team_invite_record option" where
  "findInvite rec inviteeId = find (\<lambda>i. ti_invitee_id i = inviteeId) (tr_invites rec)"

definition removeInvite :: "team_record \<Rightarrow> u64 \<Rightarrow> team_record" where
  "removeInvite rec inviteeId =
     rec\<lparr>tr_invites := filter (\<lambda>i. ti_invitee_id i \<noteq> inviteeId) (tr_invites rec)\<rparr>"

section \<open>Eviction\<close>

text \<open>One pass of the eviction loop: the position of the oldest entry that is not \<open>keep\<close>.\<close>

fun scan_oldest ::
  "('a \<Rightarrow> bool) \<Rightarrow> ('a \<Rightarrow> 'a \<Rightarrow> bool) \<Rightarrow> nat \<Rightarrow> 'a list \<Rightarrow> (nat \<times> 'a) option \<Rightarrow> (nat \<times> 'a) option" where
  "scan_oldest keep older i [] oldest = oldest"
| "scan_oldest keep older i (a # as) oldest =
     (if keep a then scan_oldest keep older (Suc i) as oldest
      else (case oldest of
              None \<Rightarrow> scan_oldest keep older (Suc i) as (Some (i, a))
            | Some (j, b) \<Rightarrow>
                scan_oldest keep older (Suc i) as (if older a b then Some (i, a) else oldest)))"

lemma scan_oldest_result:
  "scan_oldest keep older i as oldest = Some (k, x) \<Longrightarrow>
     oldest = Some (k, x)
     \<or> (i \<le> k \<and> k < i + length as \<and> as ! (k - i) = x \<and> \<not> keep x)"
proof (induction as arbitrary: i oldest)
  case Nil
  then show ?case by simp
next
  case (Cons a as)
  have shift: "(a # as) ! (k - i) = as ! (k - Suc i)" if "Suc i \<le> k"
    using that by (simp add: nth_Cons')
  from Cons.prems show ?case
    by (auto split: if_splits option.splits prod.splits dest!: Cons.IH simp: shift)
qed

lemma scan_oldest_nth:
  "scan_oldest keep older 0 xs None = Some (k, x) \<Longrightarrow> k < length xs \<and> xs ! k = x \<and> \<not> keep x"
  by (drule scan_oldest_result) simp

function evict_loop :: "nat \<Rightarrow> ('a \<Rightarrow> bool) \<Rightarrow> ('a \<Rightarrow> 'a \<Rightarrow> bool) \<Rightarrow> 'a list \<Rightarrow> 'a list" where
  "evict_loop limit keep older xs =
     (if length xs > limit then
        (case scan_oldest keep older 0 xs None of
           None \<Rightarrow> xs
         | Some (oldest, _) \<Rightarrow> evict_loop limit keep older (remove_at oldest xs))
      else xs)"
  by pat_completeness auto
termination
proof (relation "measure (\<lambda>(limit, keep, older, xs). length xs)", goal_cases)
  case 1
  show ?case by simp
next
  case (2 limit keep older xs p oldest x)
  then have "oldest < length xs" using scan_oldest_nth [of keep older xs oldest x] by simp
  then show ?case by (cases xs) (simp_all add: length_remove_at)
qed

declare evict_loop.simps [simp del]

definition application_older :: "team_application_record \<Rightarrow> team_application_record \<Rightarrow> bool" where
  "application_older a o' =
     (ta_applied_at_ms a < ta_applied_at_ms o'
      \<or> (ta_applied_at_ms a = ta_applied_at_ms o' \<and> ta_player_id a < ta_player_id o'))"

definition evictOldestApplications :: "team_record \<Rightarrow> u64 \<Rightarrow> team_record" where
  "evictOldestApplications rec keep =
     rec\<lparr>tr_applications :=
       evict_loop MaxApplications (\<lambda>a. ta_player_id a = keep) application_older (tr_applications rec)\<rparr>"

definition invite_older :: "team_invite_record \<Rightarrow> team_invite_record \<Rightarrow> bool" where
  "invite_older i o' =
     (ti_invited_at_ms i < ti_invited_at_ms o'
      \<or> (ti_invited_at_ms i = ti_invited_at_ms o' \<and> ti_invitee_id i < ti_invitee_id o'))"

definition evictOldestInvites :: "team_record \<Rightarrow> u64 \<Rightarrow> team_record" where
  "evictOldestInvites rec keep =
     rec\<lparr>tr_invites :=
       evict_loop MaxInvitesPerTeam (\<lambda>i. ti_invitee_id i = keep) invite_older (tr_invites rec)\<rparr>"

section \<open>Housekeeping\<close>

definition pruneExpired :: "team_record \<Rightarrow> u64 \<Rightarrow> team_record \<times> bool \<times> bool" where
  "pruneExpired rec nowMs =
     (rec\<lparr>tr_applications := filter (\<lambda>a. ta_expire_at_ms a > nowMs) (tr_applications rec),
          tr_invites := filter (\<lambda>i. ti_expire_at_ms i > nowMs) (tr_invites rec)\<rparr>,
      list_ex (\<lambda>a. \<not> ta_expire_at_ms a > nowMs) (tr_applications rec),
      list_ex (\<lambda>i. \<not> ti_expire_at_ms i > nowMs) (tr_invites rec))"

definition PruneExpired :: "team_record option \<Rightarrow> u64 \<Rightarrow> team_record option" where
  "PruneExpired rec nowMs = map_option (\<lambda>r. fst (pruneExpired r nowMs)) rec"

definition pickLeader :: "team_member_record list \<Rightarrow> sessions \<Rightarrow> bool \<Rightarrow> u64" where
  "pickLeader candidates sessions onlineOnly =
     (let sorted = sortMembers candidates in
      case find (\<lambda>m. sessions (tm_player_id m) = SessionOnline) sorted of
        Some m \<Rightarrow> tm_player_id m
      | None \<Rightarrow> (if onlineOnly \<or> sorted = [] then 0 else tm_player_id (hd sorted)))"

definition lazyTransferLeader :: "team_record \<Rightarrow> sessions \<Rightarrow> team_record \<times> bool" where
  "lazyTransferLeader rec sessions =
     (let leader = tr_leader_id rec in
      if FindMember rec leader = None \<or> sessions leader \<noteq> SessionAbsent then (rec, False)
      else (let others = filter (\<lambda>m. tm_player_id m \<noteq> leader) (tr_members rec);
                nxt = pickLeader others sessions True in
            if nxt = 0 then (rec, False) else (rec\<lparr>tr_leader_id := nxt\<rparr>, True)))"

end
