(* ===== verification/TeamOps.thy ===== *)
theory TeamOps
  imports TeamRules
begin

text \<open>
  The operations of \<^verbatim>\<open>src/go/match/internal/team/rules.go\<close> as steps on the rule context, the
  summary \<open>finish\<close> that turns a context into a decision, and the two entry points \<open>Apply\<close> and
  \<open>LockMatch\<close>; then the commit-set check of \<^verbatim>\<open>store.go\<close>, the party-size rule of
  \<^verbatim>\<open>pvp_party_rules.go\<close> and the digest targets of \<^verbatim>\<open>syncdigest.go\<close>.
\<close>

section \<open>The rule context\<close>

record rule_ctx =
  rc_op :: team_op
  rc_rec :: team_record
  rc_now :: u64
  rc_sessions :: sessions
  rc_cfg :: rule_config
  rc_code :: team_code
  rc_codeParam :: u64
  rc_appsExpired :: bool
  rc_invitesExpired :: bool
  rc_transferred :: bool
  rc_opChanged :: bool
  rc_reason :: team_change_reason
  rc_actor :: u64
  rc_disbanded :: bool
  rc_revoked :: "u64 list"
  rc_extraLeft :: "u64 list"
  rc_added :: "invite_index_add list"
  rc_rejected :: u64
  rc_invited :: u64

definition new_ctx :: "team_op \<Rightarrow> team_record \<Rightarrow> u64 \<Rightarrow> sessions \<Rightarrow> rule_config \<Rightarrow> rule_ctx" where
  "new_ctx op rec nowMs sessions cfg =
     \<lparr>rc_op = op, rc_rec = rec, rc_now = nowMs, rc_sessions = sessions, rc_cfg = cfg,
      rc_code = TeamOK, rc_codeParam = 0, rc_appsExpired = False, rc_invitesExpired = False,
      rc_transferred = False, rc_opChanged = False, rc_reason = REASON_UNSPECIFIED, rc_actor = 0,
      rc_disbanded = False, rc_revoked = [], rc_extraLeft = [], rc_added = [], rc_rejected = 0,
      rc_invited = 0\<rparr>"

definition fail :: "rule_ctx \<Rightarrow> team_code \<Rightarrow> u64 \<Rightarrow> rule_ctx" where
  "fail c code param =
     (if rc_code c = TeamOK then c\<lparr>rc_code := code, rc_codeParam := param\<rparr> else c)"

definition markOp :: "rule_ctx \<Rightarrow> team_change_reason \<Rightarrow> u64 \<Rightarrow> rule_ctx" where
  "markOp c reason actor = c\<lparr>rc_opChanged := True, rc_reason := reason, rc_actor := actor\<rparr>"

definition isLeader :: "rule_ctx \<Rightarrow> u64 \<Rightarrow> bool" where
  "isLeader c playerId = (playerId \<noteq> 0 \<and> tr_leader_id (rc_rec c) = playerId)"

definition full :: "rule_ctx \<Rightarrow> bool" where
  "full c = (length (tr_members (rc_rec c)) \<ge> Capacity)"

definition locked :: "rule_ctx \<Rightarrow> bool" where
  "locked c = MatchLockActive (Some (rc_rec c)) (rc_now c)"

definition zoneCheck :: "rule_ctx \<Rightarrow> u32 \<Rightarrow> rule_ctx \<times> bool" where
  "zoneCheck c zone =
     (if zone = 0 then (fail c ErrHomeZoneUnknown 0, False)
      else if \<not> cfg_AllowCrossZone (rc_cfg c)
           \<and> Final (cfg_Zones (rc_cfg c)) zone \<noteq> Final (cfg_Zones (rc_cfg c)) (tr_zone_id (rc_rec c))
      then (fail c ErrCrossZoneDenied 0, False)
      else (c, True))"

section \<open>Membership changes\<close>

definition next_seq :: "team_record \<Rightarrow> u32" where
  "next_seq rec =
     (let seq = fold (\<lambda>m seq. if tm_join_seq m \<ge> seq then tm_join_seq m + 1 else seq)
          (tr_members rec) (tr_next_join_seq rec)
      in if seq = 0 then 1 else seq)"

definition addMember :: "rule_ctx \<Rightarrow> u64 \<Rightarrow> u32 \<Rightarrow> rule_ctx" where
  "addMember c playerId zone =
     (let rec = rc_rec c; seq = next_seq rec;
          rec1 = rec\<lparr>tr_members := sortMembers (tr_members rec @
              [\<lparr>tm_player_id = playerId, tm_zone_id = zone, tm_joined_at_ms = rc_now c,
                tm_join_seq = seq\<rparr>]),
            tr_next_join_seq := seq + 1\<rparr>
      in c\<lparr>rc_rec := removeInvite (removeApplication rec1 playerId) playerId\<rparr>)"

definition dissolve :: "rule_ctx \<Rightarrow> rule_ctx" where
  "dissolve c =
     c\<lparr>rc_disbanded := True,
       rc_revoked := rc_revoked c @ map ti_invitee_id (tr_invites (rc_rec c)),
       rc_rec := (rc_rec c)\<lparr>tr_invites := [], tr_applications := []\<rparr>\<rparr>"

definition removeMember :: "rule_ctx \<Rightarrow> u64 \<Rightarrow> rule_ctx" where
  "removeMember c playerId =
     (let kept = filter (\<lambda>m. tm_player_id m \<noteq> playerId) (tr_members (rc_rec c));
          c1 = c\<lparr>rc_rec := (rc_rec c)\<lparr>tr_members := kept\<rparr>\<rparr>
      in if kept = [] then dissolve c1
         else if tr_leader_id (rc_rec c1) = playerId
         then c1\<lparr>rc_rec := (rc_rec c1)\<lparr>tr_leader_id := pickLeader kept (rc_sessions c) False\<rparr>\<rparr>
         else c1)"

section \<open>The operations\<close>

definition op_apply :: "rule_ctx \<Rightarrow> rule_ctx" where
  "op_apply c =
     (let caller = op_Caller (rc_op c); zone = op_CallerZone (rc_op c) in
      if FindMember (rc_rec c) caller \<noteq> None \<or> op_CallerTeamId (rc_op c) \<noteq> 0
      then fail c ErrMemberInTeam 0
      else (case zoneCheck c zone of (c, ok) \<Rightarrow>
        if \<not> ok then c
        else if full c then fail c ErrMembersFull 0
        else markOp
          (case findApplication (rc_rec c) caller of
             Some _ \<Rightarrow>
               c\<lparr>rc_rec := (rc_rec c)\<lparr>tr_applications :=
                 update_first (\<lambda>a. ta_player_id a = caller)
                   (\<lambda>a. a\<lparr>ta_expire_at_ms := rc_now c + ApplicationTTLMs, ta_zone_id := zone\<rparr>)
                   (tr_applications (rc_rec c))\<rparr>\<rparr>
           | None \<Rightarrow>
               c\<lparr>rc_rec := evictOldestApplications
                 ((rc_rec c)\<lparr>tr_applications := tr_applications (rc_rec c) @
                   [\<lparr>ta_player_id = caller, ta_zone_id = zone, ta_applied_at_ms = rc_now c,
                     ta_expire_at_ms = rc_now c + ApplicationTTLMs\<rparr>]\<rparr>) caller\<rparr>)
          REASON_APPLICATION_CHANGED caller))"

definition handleApplication :: "rule_ctx \<Rightarrow> rule_ctx" where
  "handleApplication c =
     (let applicant = op_Target (rc_op c) in
      if \<not> isLeader c (op_Caller (rc_op c)) then fail c ErrNotLeader 0
      else (let app = findApplication (rc_rec c) applicant in
        if \<not> op_Accept (rc_op c) then
          (if app = None then c
           else markOp (c\<lparr>rc_rec := removeApplication (rc_rec c) applicant, rc_rejected := applicant\<rparr>)
                  REASON_APPLICATION_CHANGED applicant)
        else if FindMember (rc_rec c) applicant \<noteq> None then c
        else (case app of
            None \<Rightarrow> fail c ErrApplicationNotFound 0
          | Some a \<Rightarrow>
              if locked c then fail c ErrInMatch 0
              else if full c then fail c ErrMembersFull 0
              else (case zoneCheck c (ta_zone_id a) of (c, ok) \<Rightarrow>
                if \<not> ok then c
                else markOp (addMember c applicant (ta_zone_id a)) REASON_MEMBER_JOINED applicant))))"

definition op_invite :: "rule_ctx \<Rightarrow> rule_ctx" where
  "op_invite c =
     (let target = op_Target (rc_op c); caller = op_Caller (rc_op c);
          zone = op_TargetZone (rc_op c) in
      if \<not> isLeader c caller then fail c ErrNotLeader 0
      else if target = 0 \<or> target = caller then fail c ErrPlayerId 0
      else if FindMember (rc_rec c) target \<noteq> None then fail c ErrMemberInTeam target
      else (case zoneCheck c zone of (c, ok) \<Rightarrow>
        if \<not> ok then c
        else if full c then fail c ErrMembersFull 0
        else (let expire = rc_now c + InviteTTLMs;
                  rec1 = (case findInvite (rc_rec c) target of
                     Some _ \<Rightarrow>
                       (rc_rec c)\<lparr>tr_invites :=
                         update_first (\<lambda>i. ti_invitee_id i = target)
                           (\<lambda>i. i\<lparr>ti_expire_at_ms := expire, ti_inviter_id := caller,
                                ti_zone_id := zone\<rparr>)
                           (tr_invites (rc_rec c))\<rparr>
                   | None \<Rightarrow>
                       evictOldestInvites
                         ((rc_rec c)\<lparr>tr_invites := tr_invites (rc_rec c) @
                           [\<lparr>ti_invitee_id = target, ti_inviter_id = caller, ti_zone_id = zone,
                             ti_invited_at_ms = rc_now c, ti_expire_at_ms = expire\<rparr>]\<rparr>) target)
              in markOp
                   (c\<lparr>rc_rec := rec1,
                      rc_added := rc_added c @ [\<lparr>ia_InviteeId = target, ia_ExpireAtMs = expire\<rparr>],
                      rc_invited := target\<rparr>)
                   REASON_INVITE_CHANGED target)))"

definition respondInvite :: "rule_ctx \<Rightarrow> rule_ctx" where
  "respondInvite c =
     (let caller = op_Caller (rc_op c); invitation = findInvite (rc_rec c) caller in
      if \<not> op_Accept (rc_op c) then
        (if invitation = None then c
         else markOp (c\<lparr>rc_rec := removeInvite (rc_rec c) caller\<rparr>) REASON_INVITE_CHANGED caller)
      else if FindMember (rc_rec c) caller \<noteq> None then c
      else (case invitation of
          None \<Rightarrow> fail c ErrInviteNotFound 0
        | Some i \<Rightarrow>
            if locked c then fail c ErrInMatch 0
            else if op_CallerTeamId (rc_op c) \<noteq> 0
                 \<and> op_CallerTeamId (rc_op c) \<noteq> tr_team_id (rc_rec c) then fail c ErrMemberInTeam 0
            else if full c then fail c ErrMembersFull 0
            else (case zoneCheck c (ti_zone_id i) of (c, ok) \<Rightarrow>
              if \<not> ok then c
              else markOp (addMember c caller (ti_zone_id i)) REASON_MEMBER_JOINED caller)))"

definition op_leave :: "rule_ctx \<Rightarrow> rule_ctx" where
  "op_leave c =
     (let caller = op_Caller (rc_op c) in
      if FindMember (rc_rec c) caller = None then
        (if op_CallerTeamId (rc_op c) = tr_team_id (rc_rec c)
         then markOp (c\<lparr>rc_extraLeft := rc_extraLeft c @ [caller]\<rparr>) REASON_MEMBER_LEFT caller
         else c)
      else if locked c then fail c ErrInMatch 0
      else markOp (removeMember c caller) REASON_MEMBER_LEFT caller)"

definition op_kick :: "rule_ctx \<Rightarrow> rule_ctx" where
  "op_kick c =
     (let target = op_Target (rc_op c) in
      if \<not> isLeader c (op_Caller (rc_op c)) then fail c ErrKickNotLeader 0
      else if target = op_Caller (rc_op c) then fail c ErrKickSelf 0
      else if FindMember (rc_rec c) target = None then fail c ErrMemberNotInTeam target
      else if locked c then fail c ErrInMatch 0
      else markOp (removeMember c target) REASON_MEMBER_KICKED target)"

definition transferLeader :: "rule_ctx \<Rightarrow> rule_ctx" where
  "transferLeader c =
     (let target = op_Target (rc_op c) in
      if target = 0 then fail c ErrPlayerId 0
      else if target = op_Caller (rc_op c) then fail c ErrAppointSelf 0
      else if isLeader c target then c
      else if \<not> isLeader c (op_Caller (rc_op c)) then fail c ErrAppointNotLeader 0
      else if FindMember (rc_rec c) target = None then fail c ErrMemberNotInTeam target
      else if rc_sessions c target \<noteq> SessionOnline then fail c ErrMemberOffline target
      else if locked c then fail c ErrInMatch 0
      else markOp (c\<lparr>rc_rec := (rc_rec c)\<lparr>tr_leader_id := target\<rparr>\<rparr>)
             REASON_LEADER_TRANSFERRED target)"

definition op_disband :: "rule_ctx \<Rightarrow> rule_ctx" where
  "op_disband c =
     (if \<not> isLeader c (op_Caller (rc_op c)) then fail c ErrDisbandNotLeader 0
      else if locked c then fail c ErrInMatch 0
      else markOp (dissolve (c\<lparr>rc_rec := (rc_rec c)\<lparr>tr_members := []\<rparr>\<rparr>))
             REASON_DISBANDED (op_Caller (rc_op c)))"

section \<open>Summary and entry points\<close>

definition finish_reason :: "rule_ctx \<Rightarrow> team_change_reason \<times> u64" where
  "finish_reason c =
     (if rc_opChanged c then (rc_reason c, rc_actor c)
      else if rc_transferred c
      then (REASON_LEADER_OFFLINE_TRANSFERRED, tr_leader_id (rc_rec c))
      else if rc_appsExpired c then (REASON_APPLICATION_CHANGED, 0)
      else (REASON_INVITE_CHANGED, 0))"

definition finish :: "rule_ctx \<Rightarrow> team_record \<Rightarrow> decision" where
  "finish c orig =
     (if rc_code c \<noteq> TeamOK then reject (rc_code c) (rc_codeParam c)
      else (let d = zero_decision\<lparr>dec_LeaderOfflineTransferred := rc_transferred c,
                  dec_RejectedApplicant := rc_rejected c, dec_InvitedPlayer := rc_invited c\<rparr>;
                housekeeping = (rc_appsExpired c \<or> rc_invitesExpired c \<or> rc_transferred c) in
        if \<not> rc_opChanged c \<and> \<not> housekeeping then d
        else (let
            rec = (if rc_disbanded c then rc_rec c
                   else (rc_rec c)\<lparr>tr_members := sortMembers (tr_members (rc_rec c))\<rparr>);
            oldMembers = memberSet orig;
            newMembers = (if rc_disbanded c then {} else memberSet rec);
            addedSet = set (map ia_InviteeId (rc_added c));
            newInvitees = set (map ti_invitee_id (tr_invites rec));
            liveBefore = set (map ti_invitee_id
              (filter (\<lambda>i. ti_expire_at_ms i > rc_now c) (tr_invites orig)));
            removed = first_seen (\<lambda>id. id \<notin> newInvitees \<and> id \<notin> addedSet) []
              (map ti_invitee_id (tr_invites orig))
          in d\<lparr>dec_Changed := True,
               dec_ExpiryOnly := \<not> rc_opChanged c \<and> \<not> rc_transferred c,
               dec_Reason := fst (finish_reason c), dec_Actor := snd (finish_reason c),
               dec_Disbanded := rc_disbanded c,
               dec_RevokedInvitees := (if rc_disbanded c then rc_revoked c else []),
               dec_Record := (if rc_disbanded c then None else Some rec),
               dec_LeaderChanged := (\<not> rc_disbanded c \<and> tr_leader_id orig \<noteq> 0
                  \<and> tr_leader_id orig \<noteq> tr_leader_id rec),
               dec_Kept := filter (\<lambda>id. id \<in> oldMembers) (MemberIds rec),
               dec_Joined := filter (\<lambda>id. id \<notin> oldMembers) (MemberIds rec),
               dec_Left := filter (\<lambda>id. id \<notin> newMembers) (MemberIds orig)
                  @ filter (\<lambda>id. id \<notin> newMembers \<and> id \<notin> oldMembers) (rc_extraLeft c),
               dec_InvitesAdded := rc_added c,
               dec_InvitesRemoved := removed,
               dec_InvitesExpired := filter (\<lambda>id. id \<notin> liveBefore) removed\<rparr>)))"

definition applyCreate :: "team_op \<Rightarrow> team_record option \<Rightarrow> u64 \<Rightarrow> decision" where
  "applyCreate op rec nowMs =
     (if rec \<noteq> None \<or> op_NewTeamId op = 0 \<or> op_Caller op = 0 then reject ErrInternal 0
      else if op_CallerZone op = 0 then reject ErrHomeZoneUnknown 0
      else if op_CallerTeamId op \<noteq> 0 then reject ErrMemberInTeam 0
      else zero_decision\<lparr>dec_Changed := True,
             dec_Record := Some \<lparr>tr_team_id = op_NewTeamId op, tr_leader_id = op_Caller op,
               tr_zone_id = op_CallerZone op, tr_created_at_ms = nowMs,
               tr_members = [\<lparr>tm_player_id = op_Caller op, tm_zone_id = op_CallerZone op,
                 tm_joined_at_ms = nowMs, tm_join_seq = 1\<rparr>],
               tr_applications = [], tr_invites = [], tr_next_join_seq = 2,
               tr_match_lock_token = [], tr_match_lock_expire_at_ms = 0,
               tr_match_lock_roster = []\<rparr>,
             dec_Joined := [op_Caller op], dec_Reason := REASON_CREATED,
             dec_Actor := op_Caller op\<rparr>)"

definition housekeep :: "rule_ctx \<Rightarrow> rule_ctx" where
  "housekeep c =
     (case pruneExpired (rc_rec c) (rc_now c) of (rec1, appsExpired, invitesExpired) \<Rightarrow>
      case lazyTransferLeader rec1 (rc_sessions c) of (rec2, transferred) \<Rightarrow>
        c\<lparr>rc_rec := rec2, rc_appsExpired := appsExpired, rc_invitesExpired := invitesExpired,
          rc_transferred := transferred\<rparr>)"

definition run_op :: "op_kind \<Rightarrow> (rule_ctx \<Rightarrow> rule_ctx) option" where
  "run_op kind = (case kind of
      OpRefresh \<Rightarrow> Some (\<lambda>c. c)
    | OpApply \<Rightarrow> Some op_apply
    | OpHandleApplication \<Rightarrow> Some handleApplication
    | OpInvite \<Rightarrow> Some op_invite
    | OpRespondInvite \<Rightarrow> Some respondInvite
    | OpLeave \<Rightarrow> Some op_leave
    | OpKick \<Rightarrow> Some op_kick
    | OpTransferLeader \<Rightarrow> Some transferLeader
    | OpDisband \<Rightarrow> Some op_disband
    | _ \<Rightarrow> None)"

definition Apply ::
  "team_op \<Rightarrow> team_record option \<Rightarrow> u64 \<Rightarrow> sessions \<Rightarrow> rule_config \<Rightarrow> decision" where
  "Apply op rec nowMs sessions cfg =
     (if op_Kind op = OpCreate then applyCreate op rec nowMs
      else (case rec of
          None \<Rightarrow> reject ErrNoTeam 0
        | Some orig \<Rightarrow>
            (let c = housekeep (new_ctx op orig nowMs sessions cfg) in
             case run_op (op_Kind op) of
               None \<Rightarrow> reject ErrInternal 0
             | Some step \<Rightarrow> finish (step c) orig)))"

definition CheckMatchStart :: "team_record option \<Rightarrow> u64 \<Rightarrow> u64 \<Rightarrow> team_code" where
  "CheckMatchStart rec caller nowMs =
     (case rec of
        None \<Rightarrow> ErrNoTeam
      | Some r \<Rightarrow>
          (if caller = 0 \<or> tr_leader_id r \<noteq> caller then ErrNotLeader
           else if MatchLockActive rec nowMs then ErrInMatch
           else TeamOK))"

definition CheckMatchTeamSize :: "team_record option \<Rightarrow> u32 \<Rightarrow> team_code" where
  "CheckMatchTeamSize rec required =
     (if required = 0 then ErrDungeonNotOpen
      else if (of_nat (case rec of None \<Rightarrow> 0 | Some r \<Rightarrow> length (tr_members r)) :: u32) > required then ErrSizeExceeded
      else TeamOK)"

definition MatchRoster :: "team_record \<Rightarrow> u64 list" where
  "MatchRoster rec =
     (let leader = tr_leader_id rec in
      (if FindMember rec leader \<noteq> None then [leader] else [])
      @ filter (\<lambda>pid. pid \<noteq> leader) (MemberIds rec))"

text \<open>The counting loop of \<open>sameIdSet\<close> over the second list; the Go map of counters is a function
  that is 0 outside its keys.\<close>

fun consume_ids :: "(u64 \<Rightarrow> nat) \<Rightarrow> u64 list \<Rightarrow> bool" where
  "consume_ids cnt [] = True"
| "consume_ids cnt (x # xs) = (if cnt x = 0 then False else consume_ids (cnt(x := cnt x - 1)) xs)"

definition sameIdSet :: "u64 list \<Rightarrow> u64 list \<Rightarrow> bool" where
  "sameIdSet a b =
     (if length a \<noteq> length b then False
      else consume_ids (fold (\<lambda>x cnt. cnt(x := cnt x + 1)) a (\<lambda>_. 0)) b)"

definition LockMatch ::
  "team_record option \<Rightarrow> u64 \<Rightarrow> string \<Rightarrow> u64 list \<Rightarrow> u64 \<Rightarrow> u64 \<Rightarrow> decision" where
  "LockMatch rec caller token roster expireAtMs nowMs =
     (case CheckMatchStart rec caller nowMs of
        TeamOK \<Rightarrow>
          (case rec of
             None \<Rightarrow> reject ErrNoTeam 0
           | Some orig \<Rightarrow>
               (if token = [] \<or> expireAtMs \<le> nowMs then reject ErrInternal 0
                else if \<not> sameIdSet roster (MemberIds orig) then reject ErrStateChanged 0
                else (case pruneExpired orig nowMs of (work, appsExpired, invitesExpired) \<Rightarrow>
                  finish (markOp
                    ((new_ctx (zero_op\<lparr>op_Caller := caller\<rparr>) work nowMs (\<lambda>_. SessionUnknown)
                        \<lparr>cfg_AllowCrossZone = False, cfg_Zones = None\<rparr>)
                      \<lparr>rc_appsExpired := appsExpired, rc_invitesExpired := invitesExpired,
                       rc_rec := work\<lparr>tr_match_lock_token := token,
                         tr_match_lock_expire_at_ms := expireAtMs, tr_match_lock_roster := roster\<rparr>\<rparr>)
                    REASON_MATCH_STARTED caller) orig)))
      | code \<Rightarrow> reject code 0)"

text \<open>The commit-set check of \<^verbatim>\<open>store.go\<close>.  Go walks the three groups in map order, which only
  decides which of two violations is reported; the model walks Joined, Kept, Left.\<close>

datatype commit_error =
    TeamIdZero | ZeroPlayer | DuplicatePlayer | DisbandWithMembers | TeamIdMismatch
  | RosterMismatch | LeaderNotMember | OverCapacity | BadInviteAdded | BadInviteRemoved

fun check_players :: "u64 list \<Rightarrow> u64 list \<Rightarrow> commit_error option" where
  "check_players seen [] = None"
| "check_players seen (pid # pids) =
     (if pid = 0 then Some ZeroPlayer
      else if pid \<in> set seen then Some DuplicatePlayer
      else check_players (pid # seen) pids)"

fun check_added :: "u64 list \<Rightarrow> u64 list \<Rightarrow> commit_error option" where
  "check_added added [] = None"
| "check_added added (pid # pids) =
     (if pid = 0 \<or> pid \<in> set added then Some BadInviteAdded else check_added (pid # added) pids)"

fun check_removed :: "u64 set \<Rightarrow> u64 list \<Rightarrow> u64 list \<Rightarrow> commit_error option" where
  "check_removed added removed [] = None"
| "check_removed added removed (pid # pids) =
     (if pid = 0 \<or> pid \<in> added \<or> pid \<in> set removed then Some BadInviteRemoved
      else check_removed added (pid # removed) pids)"

definition check_record :: "u64 \<Rightarrow> decision \<Rightarrow> commit_error option" where
  "check_record teamId d =
     (case dec_Record d of
        None \<Rightarrow> (if length (dec_Joined d) + length (dec_Kept d) \<noteq> 0 then Some DisbandWithMembers else None)
      | Some rec \<Rightarrow>
          (if tr_team_id rec \<noteq> teamId then Some TeamIdMismatch
           else if \<not> sameIdSet (MemberIds rec) (dec_Joined d @ dec_Kept d) then Some RosterMismatch
           else if FindMember rec (tr_leader_id rec) = None then Some LeaderNotMember
           else if length (tr_members rec) > Capacity then Some OverCapacity
           else None))"

definition validateCommitSets :: "u64 \<Rightarrow> decision \<Rightarrow> commit_error option" where
  "validateCommitSets teamId d =
     (if teamId = 0 then Some TeamIdZero
      else (case check_players [] (dec_Joined d @ dec_Kept d @ dec_Left d) of
          Some e \<Rightarrow> Some e
        | None \<Rightarrow>
            (case check_record teamId d of
               Some e \<Rightarrow> Some e
             | None \<Rightarrow>
                 (case check_added [] (map ia_InviteeId (dec_InvitesAdded d)) of
                    Some e \<Rightarrow> Some e
                  | None \<Rightarrow>
                      check_removed (set (map ia_InviteeId (dec_InvitesAdded d))) []
                        (dec_InvitesRemoved d)))))"

text \<open>\<^verbatim>\<open>pvp_party_rules.go\<close>.\<close>

datatype match_mode = MATCH_MODE_PVP_TEAM | MATCH_MODE_OTHER

definition CheckPvpPartySize :: "match_mode \<Rightarrow> u32 \<Rightarrow> u32 \<Rightarrow> team_code" where
  "CheckPvpPartySize mode perSide members =
     (if mode = MATCH_MODE_PVP_TEAM \<and> perSide = 5 \<and> members = 4 then ErrPvpPartySize else TeamOK)"

text \<open>\<^verbatim>\<open>syncdigest.go\<close>: who has to be told to pull again.  \<open>uniqueIds\<close> (\<^verbatim>\<open>presence.go\<close>) keeps the first
  occurrence of every non-zero id.\<close>

definition uniqueIds :: "u64 list \<Rightarrow> u64 list" where
  "uniqueIds ids = first_seen (\<lambda>id. id \<noteq> 0) [] ids"

definition digest_team :: "decision \<Rightarrow> u64 list" where
  "digest_team d = (if dec_ExpiryOnly d then [] else dec_Joined d @ dec_Kept d @ dec_Left d)"

definition digest_invite :: "decision \<Rightarrow> u64 list" where
  "digest_invite d = map ia_InviteeId (dec_InvitesAdded d)
     @ filter (\<lambda>id. id \<notin> set (dec_InvitesExpired d)) (dec_InvitesRemoved d)"

definition syncDigestTargets :: "u64 \<Rightarrow> decision option list \<Rightarrow> u64 list \<times> u64 list" where
  "syncDigestTargets caller commits =
     (let ds = List.map_filter id commits;
          callerAffected = list_ex (\<lambda>d. \<not> dec_ExpiryOnly d) ds
      in (uniqueIds (concat (map digest_team ds) @ (if callerAffected then [caller] else [])),
          uniqueIds (concat (map digest_invite ds))))"

end
