(* ===== verification/TeamInv.thy ===== *)
theory TeamInv
  imports TeamOps
begin

text \<open>
  The library of facts about the team rules: what the commit-set check accepts, the readers, the
  eviction loop (the locale \<open>eviction_order\<close>, interpreted on both eviction orders of the source),
  and the roster invariant \<open>wf_team\<close> with its preservation by housekeeping.
\<close>

section \<open>What the commit-set check accepts\<close>

lemma check_players_None [simp]:
  "check_players seen xs = None \<longleftrightarrow> 0 \<notin> set xs \<and> distinct xs \<and> set xs \<inter> set seen = {}"
  by (induction seen xs rule: check_players.induct) auto

lemma check_added_None [simp]:
  "check_added seen xs = None \<longleftrightarrow> 0 \<notin> set xs \<and> distinct xs \<and> set xs \<inter> set seen = {}"
  by (induction seen xs rule: check_added.induct) auto

lemma check_removed_None [simp]:
  "check_removed added seen xs = None
     \<longleftrightarrow> 0 \<notin> set xs \<and> distinct xs \<and> set xs \<inter> set seen = {} \<and> set xs \<inter> added = {}"
  by (induction added seen xs rule: check_removed.induct) auto

lemma consume_ids_iff: "consume_ids cnt xs \<longleftrightarrow> (\<forall>x. count (mset xs) x \<le> cnt x)"
proof (induction xs arbitrary: cnt)
  case (Cons y ys)
  show ?case
  proof (cases "cnt y = 0")
    case True
    then show ?thesis by (auto intro: exI [of _ y])
  next
    case False
    then show ?thesis by (auto simp: Cons.IH split: if_splits)
  qed
qed simp

lemma count_fold: "fold (\<lambda>x cnt. cnt(x := Suc (cnt x))) xs cnt = (\<lambda>x. cnt x + count (mset xs) x)"
  by (induction xs arbitrary: cnt) auto

lemma sameIdSet_iff: "sameIdSet a b \<longleftrightarrow> mset a = mset b"
proof -
  have "mset b \<subseteq># mset a \<Longrightarrow> length a = length b \<Longrightarrow> mset a = mset b"
    by (metis size_mset mset_subset_size subset_mset.le_neq_trans less_irrefl)
  then show ?thesis
    by (auto simp: sameIdSet_def consume_ids_iff count_fold subseteq_mset_def
        dest: mset_eq_length)
qed

section \<open>Readers\<close>

lemma set_sortMembers [simp]: "set (sortMembers ms) = set ms"
  by (simp add: sortMembers_def)

lemma mset_sortMembers [simp]: "mset (sortMembers ms) = mset ms"
  by (simp add: sortMembers_def)

lemma length_sortMembers [simp]: "length (sortMembers ms) = length ms"
  by (simp add: sortMembers_def)

lemma distinct_sortMembers [simp]:
  "distinct (map tm_player_id (sortMembers ms)) = distinct (map tm_player_id ms)"
  by (simp add: sortMembers_def)

lemma sortMembers_Nil [simp]: "sortMembers [] = []" "sortMembers ms = [] \<longleftrightarrow> ms = []"
  by (auto simp: sortMembers_def) (metis length_0_conv length_sort)

lemma sortMembers_idem [simp]: "sortMembers (sortMembers ms) = sortMembers ms"
  by (simp add: sortMembers_def sort_key_id_if_sorted)

lemma set_MemberIds [simp]: "set (MemberIds r) = memberSet r"
  by (simp add: MemberIds_def memberSet_def)

lemma distinct_MemberIds [simp]: "distinct (MemberIds r) = distinct (map tm_player_id (tr_members r))"
  by (simp add: MemberIds_def)

lemma FindMember_None [simp]: "FindMember r p = None \<longleftrightarrow> p \<notin> memberSet r"
  by (auto simp: FindMember_def memberSet_def find_None_iff)

lemma FindMember_ex: "(\<exists>m. FindMember r p = Some m) \<longleftrightarrow> p \<in> memberSet r"
  by (metis FindMember_None not_None_eq)

lemma findApplication_None: "findApplication r p = None \<longleftrightarrow> p \<notin> ta_player_id ` set (tr_applications r)"
  by (auto simp: findApplication_def find_None_iff)

lemma findInvite_None: "findInvite r p = None \<longleftrightarrow> p \<notin> ti_invitee_id ` set (tr_invites r)"
  by (auto simp: findInvite_def find_None_iff)

section \<open>Eviction keeps the newest\<close>

lemma scan_oldest_None: "scan_oldest keep older i as oldest = None \<longleftrightarrow> oldest = None \<and> (\<forall>a \<in> set as. keep a)"
  by (induction keep older i as oldest rule: scan_oldest.induct) (auto split: option.splits)

lemma evict_loop_stop:
  "length xs \<le> limit \<or> scan_oldest keep older 0 xs None = None \<Longrightarrow> evict_loop limit keep older xs = xs"
  by (subst evict_loop.simps) auto

lemma evict_loop_step:
  "limit < length xs \<Longrightarrow> scan_oldest keep older 0 xs None = Some (k, x)
     \<Longrightarrow> evict_loop limit keep older xs = evict_loop limit keep older (remove_at k xs)"
  by (subst evict_loop.simps) simp

lemma evict_loop_cases [case_names stop drop]:
  assumes "length xs \<le> limit \<or> scan_oldest keep older 0 xs None = None \<Longrightarrow> Q xs"
    and "\<And>k. limit < length xs \<Longrightarrow> k < length xs \<Longrightarrow> \<not> keep (xs ! k)
           \<Longrightarrow> scan_oldest keep older 0 xs None = Some (k, xs ! k)
           \<Longrightarrow> Q (evict_loop limit keep older (remove_at k xs))"
  shows "Q (evict_loop limit keep older xs)"
proof (cases "length xs \<le> limit \<or> scan_oldest keep older 0 xs None = None")
  case True
  then show ?thesis using assms(1) by (simp add: evict_loop_stop)
next
  case False
  then obtain k x where scan: "scan_oldest keep older 0 xs None = Some (k, x)" and lim: "limit < length xs"
    by auto
  from scan_oldest_nth [OF scan] have k: "k < length xs" "xs ! k = x" "\<not> keep x" by auto
  have "Q (evict_loop limit keep older (remove_at k xs))"
    by (rule assms(2)) (use lim k scan in simp_all)
  then show ?thesis by (simp only: evict_loop_step [OF lim scan])
qed

lemma evict_loop_invariant [consumes 1, case_names remove]:
  assumes "P xs"
    and "\<And>ys k. P ys \<Longrightarrow> limit < length ys \<Longrightarrow> k < length ys \<Longrightarrow> \<not> keep (ys ! k)
           \<Longrightarrow> scan_oldest keep older 0 ys None = Some (k, ys ! k) \<Longrightarrow> P (remove_at k ys)"
  shows "P (evict_loop limit keep older xs)"
  using assms(1)
proof (induction "length xs" arbitrary: xs rule: less_induct)
  case less
  show ?case
  proof (rule evict_loop_cases)
    show "P xs" by (rule less.prems)
  next
    fix k
    assume a: "limit < length xs" "k < length xs" "\<not> keep (xs ! k)"
      "scan_oldest keep older 0 xs None = Some (k, xs ! k)"
    then have "length (remove_at k xs) < length xs" by (simp add: length_remove_at)
    then show "P (evict_loop limit keep older (remove_at k xs))"
      by (rule less.hyps) (rule assms(2) [OF less.prems a])
  qed
qed

lemma evict_loop_exit:
  "length (evict_loop limit keep older xs) \<le> limit \<or> (\<forall>x \<in> set (evict_loop limit keep older xs). keep x)"
proof (induction "length xs" arbitrary: xs rule: less_induct)
  case less
  show ?case
  proof (rule evict_loop_cases)
    assume "length xs \<le> limit \<or> scan_oldest keep older 0 xs None = None"
    then show "length xs \<le> limit \<or> (\<forall>x \<in> set xs. keep x)" by (simp add: scan_oldest_None)
  next
    fix k
    assume "k < length xs"
    then have "length (remove_at k xs) < length xs" by (simp add: length_remove_at)
    then show "length (evict_loop limit keep older (remove_at k xs)) \<le> limit
        \<or> (\<forall>x \<in> set (evict_loop limit keep older (remove_at k xs)). keep x)"
      by (rule less.hyps)
  qed
qed

lemma evict_loop_subset: "set (evict_loop limit keep older xs) \<subseteq> set xs"
proof (rule evict_loop_invariant)
  fix ys k
  assume "set ys \<subseteq> set xs"
  with set_remove_at_subset show "set (remove_at k ys) \<subseteq> set xs" by (rule subset_trans)
qed simp

lemma evict_loop_distinct:
  "distinct (map f xs) \<Longrightarrow> distinct (map f (evict_loop limit keep older xs))"
  by (rule evict_loop_invariant) (simp_all add: map_remove_at distinct_remove_at)

lemma evict_loop_keeps:
  assumes "x \<in> set xs" and "keep x"
  shows "x \<in> set (evict_loop limit keep older xs)"
  using assms(1)
proof (rule evict_loop_invariant)
  fix ys k
  assume "x \<in> set ys" "k < length ys" "\<not> keep (ys ! k)"
  with assms(2) show "x \<in> set (remove_at k ys)" by (metis remove_at_keeps)
qed

text \<open>With at most one entry to keep, the loop always gets down to the limit.\<close>

lemma evict_loop_length:
  assumes "distinct (map f xs)" and "\<And>x. keep x \<longleftrightarrow> f x = k" and "0 < limit"
  shows "length (evict_loop limit keep older xs) \<le> limit"
proof (rule ccontr)
  let ?r = "evict_loop limit keep older xs"
  assume "\<not> length ?r \<le> limit"
  then have all: "\<forall>x \<in> set ?r. f x = k" and len: "2 \<le> length ?r"
    using evict_loop_exit [of limit keep older xs] assms by auto
  from len obtain x y zs where r: "?r = x # y # zs"
    by (cases ?r; cases "tl ?r") auto
  with evict_loop_distinct [OF assms(1), of limit keep older] all show False by simp
qed

locale eviction_order =
  fixes older :: "'a \<Rightarrow> 'a \<Rightarrow> bool"
  assumes older_asym: "older x y \<Longrightarrow> \<not> older y x"
    and older_weak: "older x y \<Longrightarrow> older x z \<or> older z y"
begin

lemma older_irrefl: "\<not> older x x"
  using older_asym by blast

lemma scan_oldest_least:
  assumes "scan_oldest keep older i as oldest = Some (k, x)"
  shows "(\<forall>y \<in> set as. \<not> keep y \<longrightarrow> \<not> older y x) \<and> (\<forall>j b. oldest = Some (j, b) \<longrightarrow> \<not> older b x)"
  using assms
proof (induction as arbitrary: i oldest)
  case Nil
  then show ?case using older_irrefl by auto
next
  case (Cons a as)
  show ?case
  proof (cases "keep a")
    case True
    with Cons.prems Cons.IH show ?thesis by simp
  next
    case drop: False
    show ?thesis
    proof (cases oldest)
      case None
      with Cons.prems drop have "scan_oldest keep older (Suc i) as (Some (i, a)) = Some (k, x)" by simp
      from Cons.IH [OF this] None drop show ?thesis by simp
    next
      case (Some p)
      obtain j b where p: "p = (j, b)" by (cases p)
      with Cons.prems drop Some have
        "scan_oldest keep older (Suc i) as (if older a b then Some (i, a) else Some (j, b)) = Some (k, x)"
        by simp
      from Cons.IH [OF this] Some p drop show ?thesis
        using older_weak [of a b x] older_weak [of a x b] older_asym [of a b] older_asym [of b x] by (cases "older a b") auto
    qed
  qed
qed

text \<open>What the loop drops is at least as old as everything it leaves.\<close>

lemma evict_loop_drops_oldest:
  assumes "x \<in> set xs" and "x \<notin> set (evict_loop limit keep older xs)"
    and "y \<in> set (evict_loop limit keep older xs)" and "\<not> keep y"
  shows "\<not> older y x"
proof -
  have "x \<in> set (evict_loop limit keep older xs)
      \<or> (\<forall>y \<in> set (evict_loop limit keep older xs). \<not> keep y \<longrightarrow> \<not> older y x)"
    using assms(1)
  proof (intro evict_loop_invariant [where P = "\<lambda>r. x \<in> set r \<or> (\<forall>y \<in> set r. \<not> keep y \<longrightarrow> \<not> older y x)"])
    fix ys k
    assume P: "x \<in> set ys \<or> (\<forall>y \<in> set ys. \<not> keep y \<longrightarrow> \<not> older y x)" and k: "k < length ys"
      and scan: "scan_oldest keep older 0 ys None = Some (k, ys ! k)"
    from scan_oldest_least [OF scan] have least: "\<forall>y \<in> set ys. \<not> keep y \<longrightarrow> \<not> older y (ys ! k)" by simp
    show "x \<in> set (remove_at k ys) \<or> (\<forall>y \<in> set (remove_at k ys). \<not> keep y \<longrightarrow> \<not> older y x)"
      using P least k remove_at_keeps [of x ys k] set_remove_at_subset [of k ys] by fastforce
  qed simp
  with assms show ?thesis by blast
qed

end

interpretation app: eviction_order application_older
  by unfold_locales (auto simp: application_older_def)

interpretation invite: eviction_order invite_older
  by unfold_locales (auto simp: invite_older_def)


section \<open>The roster invariant\<close>

definition wf_team :: "team_record \<Rightarrow> bool" where
  "wf_team r \<longleftrightarrow>
     tr_team_id r \<noteq> 0
     \<and> distinct (map tm_player_id (tr_members r)) \<and> 0 \<notin> memberSet r
     \<and> tr_leader_id r \<in> memberSet r \<and> length (tr_members r) \<le> Capacity
     \<and> distinct (map ta_player_id (tr_applications r)) \<and> 0 \<notin> ta_player_id ` set (tr_applications r)
     \<and> length (tr_applications r) \<le> MaxApplications
     \<and> distinct (map ti_invitee_id (tr_invites r)) \<and> 0 \<notin> ti_invitee_id ` set (tr_invites r)
     \<and> length (tr_invites r) \<le> MaxInvitesPerTeam"

text \<open>The context an operation starts from, and what \<open>finish\<close> needs of the one it leaves.\<close>

definition fresh_ctx :: "rule_ctx \<Rightarrow> bool" where
  "fresh_ctx c \<longleftrightarrow>
     wf_team (rc_rec c) \<and> op_Caller (rc_op c) \<noteq> 0 \<and> rc_code c = TeamOK \<and> \<not> rc_disbanded c
     \<and> rc_added c = [] \<and> rc_extraLeft c = []"

definition good_ctx :: "u64 \<Rightarrow> rule_ctx \<Rightarrow> bool" where
  "good_ctx t c \<longleftrightarrow>
     tr_team_id (rc_rec c) = t
     \<and> (if rc_disbanded c then tr_members (rc_rec c) = [] \<and> tr_invites (rc_rec c) = []
        else wf_team (rc_rec c))
     \<and> distinct (map ia_InviteeId (rc_added c)) \<and> 0 \<notin> ia_InviteeId ` set (rc_added c)
     \<and> distinct (rc_extraLeft c) \<and> 0 \<notin> set (rc_extraLeft c)"

lemmas ctx_defs = fresh_ctx_def good_ctx_def fail_def markOp_def

lemma memberSet_code: "memberSet r = tm_player_id ` set (tr_members r)"
  by (simp add: memberSet_def)

lemma memberSet_cong: "tr_members r = tr_members s \<Longrightarrow> memberSet r = memberSet s"
  by (simp add: memberSet_def)

lemma hd_sortMembers: "ms \<noteq> [] \<Longrightarrow> hd (sortMembers ms) \<in> set ms"
  by (metis hd_in_set set_sortMembers sortMembers_Nil(2))

lemma pickLeader_member:
  "ms \<noteq> [] \<Longrightarrow> pickLeader ms sessions False \<in> tm_player_id ` set ms"
  by (auto simp: pickLeader_def Let_def hd_sortMembers split: option.splits dest!: find_SomeD)

lemma pickLeader_online:
  "pickLeader ms sessions True = 0
   \<or> (pickLeader ms sessions True \<in> tm_player_id ` set ms
      \<and> sessions (pickLeader ms sessions True) = SessionOnline)"
  by (auto simp: pickLeader_def Let_def split: option.splits dest!: find_SomeD)

lemma wf_pruneExpired: "wf_team r \<Longrightarrow> wf_team (fst (pruneExpired r now))"
  by (auto simp: wf_team_def pruneExpired_def memberSet_code distinct_map_filter
      intro: le_trans [OF length_filter_le])

lemma wf_lazyTransferLeader: "wf_team r \<Longrightarrow> wf_team (fst (lazyTransferLeader r sessions))"
  using pickLeader_online [of "filter (\<lambda>m. tm_player_id m \<noteq> tr_leader_id r) (tr_members r)" sessions]
  by (auto simp: wf_team_def lazyTransferLeader_def Let_def memberSet_code)

lemma wf_sortMembers: "wf_team r \<Longrightarrow> wf_team (r\<lparr>tr_members := sortMembers (tr_members r)\<rparr>)"
  by (simp add: wf_team_def memberSet_code)

lemma housekeep_simps [simp]:
  "rc_op (housekeep c) = rc_op c" "rc_now (housekeep c) = rc_now c"
  "rc_sessions (housekeep c) = rc_sessions c" "rc_code (housekeep c) = rc_code c"
  "rc_disbanded (housekeep c) = rc_disbanded c" "rc_added (housekeep c) = rc_added c"
  "rc_extraLeft (housekeep c) = rc_extraLeft c" "rc_opChanged (housekeep c) = rc_opChanged c"
  by (simp_all add: housekeep_def split: prod.splits)

lemma rc_rec_housekeep:
  "rc_rec (housekeep c) =
     fst (lazyTransferLeader (fst (pruneExpired (rc_rec c) (rc_now c))) (rc_sessions c))"
  by (simp add: housekeep_def split: prod.splits)

lemma pruneExpired_simps [simp]:
  "tr_members (fst (pruneExpired r now)) = tr_members r"
  "tr_team_id (fst (pruneExpired r now)) = tr_team_id r"
  "tr_leader_id (fst (pruneExpired r now)) = tr_leader_id r"
  "MatchLockActive (Some (fst (pruneExpired r now))) t = MatchLockActive (Some r) t"
  by (simp_all add: pruneExpired_def MatchLockActive_def)

lemma lazyTransferLeader_simps [simp]:
  "tr_members (fst (lazyTransferLeader r s)) = tr_members r"
  "tr_team_id (fst (lazyTransferLeader r s)) = tr_team_id r"
  "MatchLockActive (Some (fst (lazyTransferLeader r s))) t = MatchLockActive (Some r) t"
  by (simp_all add: lazyTransferLeader_def MatchLockActive_def Let_def)

lemma new_ctx_simps [simp]:
  "rc_rec (new_ctx op r now s cfg) = r" "rc_op (new_ctx op r now s cfg) = op"
  "rc_now (new_ctx op r now s cfg) = now" "rc_sessions (new_ctx op r now s cfg) = s"
  by (simp_all add: new_ctx_def)

lemma fresh_housekeep:
  "wf_team orig \<Longrightarrow> op_Caller op \<noteq> 0 \<Longrightarrow> fresh_ctx (housekeep (new_ctx op orig now sessions cfg))"
  by (simp add: fresh_ctx_def rc_rec_housekeep wf_lazyTransferLeader wf_pruneExpired)
     (simp add: new_ctx_def)

end
