(* ===== verification/TeamContract.thy ===== *)
theory TeamContract
  imports TeamInv
begin

text \<open>
  The contract of a roster operation.  \<open>lawful\<close> says what the step an operation takes on the rule
  context owes the roster; the locale \<open>roster_operation\<close> derives from it what \<open>finish\<close> commits, and
  is interpreted on each of the nine operations of \<^verbatim>\<open>rules.go\<close>.
\<close>

section \<open>Membership changes keep the invariant\<close>

lemma findApplication_SomeD:
  "findApplication r p = Some a \<Longrightarrow> a \<in> set (tr_applications r) \<and> ta_player_id a = p"
  unfolding findApplication_def by (drule find_SomeD) simp

lemma findInvite_SomeD:
  "findInvite r p = Some i \<Longrightarrow> i \<in> set (tr_invites r) \<and> ti_invitee_id i = p"
  unfolding findInvite_def by (drule find_SomeD) simp

lemma rc_rec_addMember_simps [simp]:
  "tr_team_id (rc_rec (addMember c p z)) = tr_team_id (rc_rec c)"
  "tr_leader_id (rc_rec (addMember c p z)) = tr_leader_id (rc_rec c)"
  "memberSet (rc_rec (addMember c p z)) = insert p (memberSet (rc_rec c))"
  "rc_disbanded (addMember c p z) = rc_disbanded c" "rc_added (addMember c p z) = rc_added c"
  "rc_extraLeft (addMember c p z) = rc_extraLeft c" "rc_now (addMember c p z) = rc_now c"
  "rc_code (addMember c p z) = rc_code c"
  by (simp_all add: addMember_def removeInvite_def removeApplication_def Let_def memberSet_code)

lemma wf_removeApplication: "wf_team r \<Longrightarrow> wf_team (removeApplication r p)"
  by (auto simp: wf_team_def removeApplication_def memberSet_code distinct_map_filter
      intro: le_trans [OF length_filter_le])

lemma wf_removeInvite: "wf_team r \<Longrightarrow> wf_team (removeInvite r p)"
  by (auto simp: wf_team_def removeInvite_def memberSet_code distinct_map_filter
      intro: le_trans [OF length_filter_le])

lemma wf_insert_member:
  assumes "wf_team r" and "tm_player_id m \<notin> memberSet r" and "tm_player_id m \<noteq> 0"
    and "length (tr_members r) < Capacity"
  shows "wf_team (r\<lparr>tr_members := sortMembers (tr_members r @ [m]), tr_next_join_seq := s\<rparr>)"
  using assms by (auto simp: wf_team_def memberSet_code)

lemma wf_addMember:
  assumes "wf_team (rc_rec c)" and "p \<notin> memberSet (rc_rec c)" and "p \<noteq> 0" and "\<not> full c"
  shows "wf_team (rc_rec (addMember c p z))"
  using assms unfolding addMember_def Let_def
  by (simp add: wf_removeApplication wf_removeInvite wf_insert_member full_def)

lemma removeMember_simps [simp]:
  "tr_team_id (rc_rec (removeMember c p)) = tr_team_id (rc_rec c)"
  "memberSet (rc_rec (removeMember c p)) = memberSet (rc_rec c) - {p}"
  "rc_added (removeMember c p) = rc_added c"
  "rc_extraLeft (removeMember c p) = rc_extraLeft c" "rc_now (removeMember c p) = rc_now c"
  "rc_code (removeMember c p) = rc_code c"
  by (auto simp: removeMember_def dissolve_def Let_def memberSet_code filter_empty_conv)

lemma leader_removeMember:
  "p \<noteq> tr_leader_id (rc_rec c) \<Longrightarrow> tr_leader_id (rc_rec (removeMember c p)) = tr_leader_id (rc_rec c)"
  by (simp add: removeMember_def dissolve_def Let_def)

lemma removeMember_disbanded:
  "\<not> rc_disbanded c \<Longrightarrow> rc_disbanded (removeMember c p) \<longleftrightarrow> memberSet (rc_rec c) \<subseteq> {p}"
  by (auto simp: removeMember_def dissolve_def Let_def memberSet_code filter_empty_conv)

lemma wf_removeMember_rec:
  assumes "wf_team (rc_rec c)" and "\<not> rc_disbanded c"
  shows "if rc_disbanded (removeMember c p)
         then tr_members (rc_rec (removeMember c p)) = [] \<and> tr_invites (rc_rec (removeMember c p)) = []
         else wf_team (rc_rec (removeMember c p))"
proof (cases "filter (\<lambda>m. tm_player_id m \<noteq> p) (tr_members (rc_rec c)) = []")
  case True
  then show ?thesis by (simp add: removeMember_def dissolve_def Let_def)
next
  case False
  let ?kept = "filter (\<lambda>m. tm_player_id m \<noteq> p) (tr_members (rc_rec c))"
  have "length ?kept \<le> Capacity"
    using assms(1) le_trans [OF length_filter_le] by (auto simp: wf_team_def)
  with False assms pickLeader_member [OF False, of "rc_sessions c"] show ?thesis
    by (auto simp: removeMember_def Let_def wf_team_def memberSet_code distinct_map_filter)
qed

section \<open>Pending lists keep the invariant\<close>

lemma wf_renew_application:
  "wf_team r \<Longrightarrow> wf_team (r\<lparr>tr_applications := update_first (\<lambda>a. ta_player_id a = p)
      (\<lambda>a. a\<lparr>ta_expire_at_ms := e, ta_zone_id := z\<rparr>) (tr_applications r)\<rparr>)"
proof -
  let ?u = "update_first (\<lambda>a. ta_player_id a = p)
      (\<lambda>a. a\<lparr>ta_expire_at_ms := e, ta_zone_id := z\<rparr>) (tr_applications r)"
  have ids: "map ta_player_id ?u = map ta_player_id (tr_applications r)" by simp
  from arg_cong [OF ids, of set] have "ta_player_id ` set ?u = ta_player_id ` set (tr_applications r)"
    by (simp only: set_map)
  with ids show "wf_team r \<Longrightarrow> ?thesis" by (simp add: wf_team_def memberSet_code)
qed

lemma wf_renew_invite:
  "wf_team r \<Longrightarrow> wf_team (r\<lparr>tr_invites := update_first (\<lambda>i. ti_invitee_id i = p)
      (\<lambda>i. i\<lparr>ti_expire_at_ms := e, ti_inviter_id := q, ti_zone_id := z\<rparr>) (tr_invites r)\<rparr>)"
proof -
  let ?u = "update_first (\<lambda>i. ti_invitee_id i = p)
      (\<lambda>i. i\<lparr>ti_expire_at_ms := e, ti_inviter_id := q, ti_zone_id := z\<rparr>) (tr_invites r)"
  have ids: "map ti_invitee_id ?u = map ti_invitee_id (tr_invites r)" by simp
  from arg_cong [OF ids, of set] have "ti_invitee_id ` set ?u = ti_invitee_id ` set (tr_invites r)"
    by (simp only: set_map)
  with ids show "wf_team r \<Longrightarrow> ?thesis" by (simp add: wf_team_def memberSet_code)
qed

text \<open>Appending one new entry and evicting leaves a bounded list of distinct entries.\<close>

lemma evict_append:
  fixes older :: "'a \<Rightarrow> 'a \<Rightarrow> bool"
  assumes "distinct (map f xs)" and "f x \<notin> f ` set xs" and "0 < limit" and "f x \<noteq> z" and "z \<notin> f ` set xs"
  defines "r \<equiv> evict_loop limit (\<lambda>y. f y = f x) older (xs @ [x])"
  shows "distinct (map f r)" and "length r \<le> limit" and "z \<notin> f ` set r" and "x \<in> set r"
proof -
  have d: "distinct (map f (xs @ [x]))" using assms(1,2) by auto
  then show "distinct (map f r)" unfolding r_def by (rule evict_loop_distinct)
  show "length r \<le> limit" unfolding r_def by (rule evict_loop_length [OF d]) (simp_all add: assms)
  show "z \<notin> f ` set r"
    using evict_loop_subset [of limit "\<lambda>y. f y = f x" older "xs @ [x]"] assms by auto
  show "x \<in> set r" unfolding r_def by (rule evict_loop_keeps) simp_all
qed

lemma wf_new_application:
  assumes "wf_team r" and "ta_player_id a \<notin> ta_player_id ` set (tr_applications r)" and "ta_player_id a \<noteq> 0"
  shows "wf_team (evictOldestApplications (r\<lparr>tr_applications := tr_applications r @ [a]\<rparr>) (ta_player_id a))"
  using evict_append [where f = ta_player_id and xs = "tr_applications r" and x = a and limit = MaxApplications
      and z = 0 and older = application_older] assms
  by (auto simp: wf_team_def evictOldestApplications_def memberSet_code MaxApplications_def)

lemma wf_new_invite:
  assumes "wf_team r" and "ti_invitee_id i \<notin> ti_invitee_id ` set (tr_invites r)" and "ti_invitee_id i \<noteq> 0"
  shows "wf_team (evictOldestInvites (r\<lparr>tr_invites := tr_invites r @ [i]\<rparr>) (ti_invitee_id i))"
  using evict_append [where f = ti_invitee_id and xs = "tr_invites r" and x = i and limit = MaxInvitesPerTeam
      and z = 0 and older = invite_older] assms
  by (auto simp: wf_team_def evictOldestInvites_def memberSet_code MaxInvitesPerTeam_def)

section \<open>The contract of an operation\<close>

text \<open>What the step from a fresh context \<open>c\<close> to \<open>d\<close> owes the roster: \<open>finish\<close> can commit it, a
  match lock freezes the members, only the leader takes others out, somebody comes in only with
  consent of both sides, and only the leader gives the leadership away.\<close>

definition lawful :: "rule_ctx \<Rightarrow> rule_ctx \<Rightarrow> bool" where
  "lawful c d \<longleftrightarrow>
     good_ctx (tr_team_id (rc_rec c)) d \<and> rc_now d = rc_now c
     \<and> (locked c \<longrightarrow> tr_members (rc_rec d) = tr_members (rc_rec c)
          \<and> tr_leader_id (rc_rec d) = tr_leader_id (rc_rec c) \<and> \<not> rc_disbanded d)
     \<and> (\<forall>p. p \<in> memberSet (rc_rec c) \<and> p \<notin> memberSet (rc_rec d)
          \<longrightarrow> p = op_Caller (rc_op c) \<or> isLeader c (op_Caller (rc_op c)))
     \<and> (\<forall>p. p \<notin> memberSet (rc_rec c) \<and> p \<in> memberSet (rc_rec d)
          \<longrightarrow> (p = op_Caller (rc_op c) \<and> findInvite (rc_rec c) p \<noteq> None)
            \<or> (isLeader c (op_Caller (rc_op c)) \<and> findApplication (rc_rec c) p \<noteq> None))
     \<and> (tr_leader_id (rc_rec d) \<noteq> tr_leader_id (rc_rec c) \<longrightarrow> isLeader c (op_Caller (rc_op c)))"

lemma lawful_refl: "fresh_ctx c \<Longrightarrow> lawful c c"
  by (simp add: lawful_def fresh_ctx_def good_ctx_def)

lemma lawful_fail: "fresh_ctx c \<Longrightarrow> lawful c (fail c code param)"
  by (simp add: lawful_def fresh_ctx_def good_ctx_def fail_def)

lemma lawful_markOp [simp]: "lawful c (markOp d reason actor) = lawful c d"
  by (simp add: lawful_def good_ctx_def markOp_def)

lemma lawful_addMember:
  assumes "fresh_ctx c" and "p \<notin> memberSet (rc_rec c)" and "\<not> full c" and "\<not> locked c" and "p \<noteq> 0"
    and "(p = op_Caller (rc_op c) \<and> findInvite (rc_rec c) p \<noteq> None)
      \<or> (isLeader c (op_Caller (rc_op c)) \<and> findApplication (rc_rec c) p \<noteq> None)"
  shows "lawful c (addMember c p z)"
  using assms wf_addMember [of c p z] by (auto simp: lawful_def fresh_ctx_def good_ctx_def)

lemma lawful_removeMember:
  assumes "fresh_ctx c" and "\<not> locked c"
    and "p = op_Caller (rc_op c) \<or> (isLeader c (op_Caller (rc_op c)) \<and> p \<noteq> op_Caller (rc_op c))"
  shows "lawful c (removeMember c p)"
proof -
  have "tr_leader_id (rc_rec (removeMember c p)) \<noteq> tr_leader_id (rc_rec c)
      \<longrightarrow> isLeader c (op_Caller (rc_op c))"
    using assms leader_removeMember [of p c] by (cases "p = tr_leader_id (rc_rec c)") (auto simp: fresh_ctx_def isLeader_def)
  with assms wf_removeMember_rec [of c p] show ?thesis
    by (auto simp: lawful_def fresh_ctx_def good_ctx_def)
qed

text \<open>A step that only touches the pending lists.\<close>

lemma lawful_pending:
  assumes "fresh_ctx c" and "wf_team r" and "tr_members r = tr_members (rc_rec c)"
    and "tr_leader_id r = tr_leader_id (rc_rec c)" and "tr_team_id r = tr_team_id (rc_rec c)"
    and "rc_rec d = r" and "rc_now d = rc_now c" and "\<not> rc_disbanded d" and "rc_extraLeft d = []"
    and "distinct (map ia_InviteeId (rc_added d))" and "0 \<notin> ia_InviteeId ` set (rc_added d)"
  shows "lawful c d"
  using assms by (auto simp: lawful_def fresh_ctx_def good_ctx_def memberSet_code)

lemma zoneCheck_lawful:
  "fresh_ctx c \<Longrightarrow> lawful c (fst (zoneCheck c z))"
  by (simp add: zoneCheck_def lawful_refl lawful_fail)

lemma zoneCheck_ok: "zoneCheck c z = (d, True) \<Longrightarrow> d = c"
  by (auto simp: zoneCheck_def split: if_splits)

lemma zoneCheck_denied: "fresh_ctx c \<Longrightarrow> zoneCheck c z = (d, False) \<Longrightarrow> lawful c d"
  using zoneCheck_lawful [of c z] by simp

section \<open>What the summary commits\<close>

lemma finish_changed_iff:
  "dec_Changed (finish c orig) \<longleftrightarrow>
     rc_code c = TeamOK \<and> (rc_opChanged c \<or> rc_appsExpired c \<or> rc_invitesExpired c \<or> rc_transferred c)"
  by (simp add: finish_def Let_def reject_def zero_decision_def)

lemma finish_rejected: "rc_code c \<noteq> TeamOK \<Longrightarrow> finish c orig = reject (rc_code c) (rc_codeParam c)"
  by (simp add: finish_def)

text \<open>The record written back and the three groups of players, once something changed.\<close>

lemma finish_fields:
  assumes "dec_Changed (finish c orig)"
  shows "dec_Record (finish c orig) = (if rc_disbanded c then None
           else Some ((rc_rec c)\<lparr>tr_members := sortMembers (tr_members (rc_rec c))\<rparr>))" (is ?a)
    and "dec_Joined (finish c orig) = filter (\<lambda>p. p \<notin> memberSet orig) (MemberIds (rc_rec c))" (is ?b)
    and "dec_Kept (finish c orig) = filter (\<lambda>p. p \<in> memberSet orig) (MemberIds (rc_rec c))" (is ?c)
    and "dec_Left (finish c orig) =
           (let new = (if rc_disbanded c then {} else memberSet (rc_rec c)) in
            filter (\<lambda>p. p \<notin> new) (MemberIds orig)
            @ filter (\<lambda>p. p \<notin> new \<and> p \<notin> memberSet orig) (rc_extraLeft c))" (is ?d)
    and "dec_InvitesAdded (finish c orig) = rc_added c" (is ?e)
    and "dec_InvitesRemoved (finish c orig) =
           first_seen (\<lambda>p. p \<notin> ti_invitee_id ` set (tr_invites (rc_rec c))
               \<and> p \<notin> ia_InviteeId ` set (rc_added c)) [] (map ti_invitee_id (tr_invites orig))" (is ?f)
proof -
  have ok: "rc_code c = TeamOK" and ch: "(\<not> rc_opChanged c \<and> \<not> (rc_appsExpired c \<or> rc_invitesExpired c \<or> rc_transferred c)) = False"
    using assms by (auto simp: finish_changed_iff)
  show ?a and ?b and ?c and ?d and ?e and ?f
    unfolding finish_def Let_def ch by (simp_all add: ok MemberIds_def memberSet_code)
qed

lemma check_record_None:
  "check_record t d = None \<longleftrightarrow>
     (case dec_Record d of
        None \<Rightarrow> dec_Joined d = [] \<and> dec_Kept d = []
      | Some r \<Rightarrow> tr_team_id r = t \<and> mset (MemberIds r) = mset (dec_Joined d @ dec_Kept d)
          \<and> tr_leader_id r \<in> memberSet r \<and> length (tr_members r) \<le> Capacity)"
  by (auto simp: check_record_def sameIdSet_iff not_le split: option.splits)

lemma validateCommitSets_None:
  "validateCommitSets t d = None \<longleftrightarrow>
     t \<noteq> 0 \<and> check_players [] (dec_Joined d @ dec_Kept d @ dec_Left d) = None
     \<and> check_record t d = None \<and> check_added [] (map ia_InviteeId (dec_InvitesAdded d)) = None
     \<and> check_removed (set (map ia_InviteeId (dec_InvitesAdded d))) [] (dec_InvitesRemoved d) = None"
  by (auto simp: validateCommitSets_def simp del: check_players_None check_added_None check_removed_None
      split: option.splits)

lemma mset_filter_partition: "mset (filter (\<lambda>x. \<not> P x) xs) + mset (filter P xs) = mset xs"
  by (induction xs) auto

lemma MemberIds_sorted: "MemberIds (r\<lparr>tr_members := sortMembers (tr_members r)\<rparr>) = MemberIds r"
  by (simp add: MemberIds_def)

text \<open>The roster the summary talks about: empty for a disbanded team.\<close>

lemma good_ctx_members:
  assumes "good_ctx t c"
  shows "distinct (MemberIds (rc_rec c))" and "0 \<notin> memberSet (rc_rec c)"
    and "rc_disbanded c \<Longrightarrow> memberSet (rc_rec c) = {} \<and> MemberIds (rc_rec c) = []"
  using assms by (auto simp: good_ctx_def wf_team_def memberSet_code MemberIds_def split: if_splits)

lemma finish_valid:
  assumes good: "good_ctx (tr_team_id orig) c" and orig: "wf_team orig"
    and changed: "dec_Changed (finish c orig)"
  shows "validateCommitSets (tr_team_id orig) (finish c orig) = None"
proof -
  note m = good_ctx_members [OF good] and f = finish_fields [OF changed]
  from orig have o: "distinct (MemberIds orig)" "0 \<notin> memberSet orig" "tr_team_id orig \<noteq> 0"
    "0 \<notin> ti_invitee_id ` set (tr_invites orig)"
    by (simp_all add: wf_team_def)
  have e: "distinct (rc_extraLeft c)" "0 \<notin> set (rc_extraLeft c)"
    "distinct (map ia_InviteeId (rc_added c))" "0 \<notin> ia_InviteeId ` set (rc_added c)"
    using good by (simp_all add: good_ctx_def)
  have players: "check_players [] (dec_Joined (finish c orig) @ dec_Kept (finish c orig) @ dec_Left (finish c orig)) = None"
    using m o e by (auto simp: f Let_def)
  have "check_record (tr_team_id orig) (finish c orig) = None"
  proof (cases "rc_disbanded c")
    case True
    then show ?thesis using m by (simp add: check_record_None f)
  next
    case False
    with good have "wf_team (rc_rec c)" and "tr_team_id (rc_rec c) = tr_team_id orig"
      by (simp_all add: good_ctx_def)
    with False show ?thesis
      by (simp add: check_record_None f MemberIds_sorted mset_filter_partition wf_team_def memberSet_code
          del: mset_filter)
  qed
  moreover have "check_removed (set (map ia_InviteeId (rc_added c))) [] (dec_InvitesRemoved (finish c orig)) = None"
    using o by (auto simp: f list_loops)
  ultimately show ?thesis using players o e by (simp add: validateCommitSets_None f(5))
qed

lemma finish_wf:
  assumes "good_ctx t c" and "dec_Record (finish c orig) = Some r" and "dec_Changed (finish c orig)"
  shows "wf_team r"
  using assms wf_sortMembers [of "rc_rec c"]
  by (auto simp: finish_fields(1) good_ctx_def split: if_splits)

abbreviation started :: "team_op \<Rightarrow> team_record \<Rightarrow> u64 \<Rightarrow> sessions \<Rightarrow> rule_config \<Rightarrow> rule_ctx" where
  "started op orig now sessions cfg \<equiv> housekeep (new_ctx op orig now sessions cfg)"

lemma leader_started:
  "tr_leader_id (rc_rec (started op orig now s cfg)) = tr_leader_id (fst (lazyTransferLeader orig s))"
  by (simp add: rc_rec_housekeep pruneExpired_def lazyTransferLeader_def FindMember_def Let_def)

lemma memberSet_started [simp]: "memberSet (rc_rec (started op orig now s cfg)) = memberSet orig"
  by (simp add: rc_rec_housekeep memberSet_code)

lemma pending_started:
  "tr_applications (rc_rec (started op orig now s cfg)) =
     filter (\<lambda>a. ta_expire_at_ms a > now) (tr_applications orig)"
  "tr_invites (rc_rec (started op orig now s cfg)) =
     filter (\<lambda>i. ti_expire_at_ms i > now) (tr_invites orig)"
  by (simp_all add: rc_rec_housekeep pruneExpired_def lazyTransferLeader_def Let_def)

lemma team_id_started [simp]: "tr_team_id (rc_rec (started op orig now s cfg)) = tr_team_id orig"
  by (simp add: rc_rec_housekeep)

lemma locked_started [simp]: "locked (started op orig now s cfg) = MatchLockActive (Some orig) now"
  by (simp add: locked_def rc_rec_housekeep)

locale roster_operation =
  fixes step :: "rule_ctx \<Rightarrow> rule_ctx"
  assumes step_lawful: "fresh_ctx c \<Longrightarrow> lawful c (step c)"
begin

lemma started_lawful:
  assumes "wf_team orig" and "op_Caller op \<noteq> 0"
  shows "lawful (started op orig now s cfg) (step (started op orig now s cfg))"
  by (rule step_lawful) (rule fresh_housekeep [OF assms])

lemma commit_valid:
  assumes "wf_team orig" and "op_Caller op \<noteq> 0"
    and "dec_Changed (finish (step (started op orig now s cfg)) orig)"
  shows "validateCommitSets (tr_team_id orig) (finish (step (started op orig now s cfg)) orig) = None"
    and "dec_Record (finish (step (started op orig now s cfg)) orig) = Some r \<Longrightarrow> wf_team r"
proof -
  from started_lawful [OF assms(1,2)]
  have good: "good_ctx (tr_team_id orig) (step (started op orig now s cfg))"
    by (simp add: lawful_def)
  from finish_valid [OF this assms(1,3)]
  show "validateCommitSets (tr_team_id orig) (finish (step (started op orig now s cfg)) orig) = None" .
  from good assms(3) show "dec_Record (finish (step (started op orig now s cfg)) orig) = Some r \<Longrightarrow> wf_team r"
    using finish_wf by blast
qed

lemma locked_frozen:
  assumes "wf_team orig" and "op_Caller op \<noteq> 0" and "MatchLockActive (Some orig) now"
    and "dec_Changed (finish (step (started op orig now s cfg)) orig)"
  shows "\<exists>r. dec_Record (finish (step (started op orig now s cfg)) orig) = Some r
      \<and> MemberIds r = MemberIds orig \<and> tr_leader_id r = tr_leader_id (fst (lazyTransferLeader orig s))"
    and "dec_Joined (finish (step (started op orig now s cfg)) orig) = []"
    and "set (dec_Left (finish (step (started op orig now s cfg)) orig)) \<inter> memberSet orig = {}"
proof -
  let ?c = "started op orig now s cfg"
  from started_lawful [OF assms(1,2), of now s cfg] assms(3)
  have ms: "tr_members (rc_rec (step ?c)) = tr_members orig" and nd: "\<not> rc_disbanded (step ?c)"
    and ld: "tr_leader_id (rc_rec (step ?c)) = tr_leader_id (fst (lazyTransferLeader orig s))"
    by (simp_all add: lawful_def leader_started) (simp add: rc_rec_housekeep)
  then have ids: "MemberIds (rc_rec (step ?c)) = MemberIds orig" "memberSet (rc_rec (step ?c)) = memberSet orig"
    by (simp_all add: MemberIds_def memberSet_code)
  show "\<exists>r. dec_Record (finish (step ?c) orig) = Some r
      \<and> MemberIds r = MemberIds orig \<and> tr_leader_id r = tr_leader_id (fst (lazyTransferLeader orig s))"
    using nd ids ld by (simp add: finish_fields(1) [OF assms(4)] MemberIds_sorted)
  show "dec_Joined (finish (step ?c) orig) = []"
    by (simp add: finish_fields(2) [OF assms(4)] ids filter_empty_conv)
  show "set (dec_Left (finish (step ?c) orig)) \<inter> memberSet orig = {}"
    using nd by (auto simp: finish_fields(4) [OF assms(4)] ids)
qed

lemma leave_authority:
  assumes "wf_team orig" and "op_Caller op \<noteq> 0"
    and "dec_Changed (finish (step (started op orig now s cfg)) orig)"
    and "p \<in> set (dec_Left (finish (step (started op orig now s cfg)) orig))" and "p \<in> memberSet orig"
  shows "p = op_Caller op \<or> tr_leader_id (fst (lazyTransferLeader orig s)) = op_Caller op"
proof -
  let ?c = "started op orig now s cfg"
  note law = started_lawful [OF assms(1,2), of now s cfg]
  then have good: "good_ctx (tr_team_id orig) (step ?c)" by (simp add: lawful_def)
  from assms(4,5) good_ctx_members(3) [OF good] have "p \<notin> memberSet (rc_rec (step ?c))"
    by (auto simp: finish_fields(4) [OF assms(3)] Let_def split: if_splits)
  with law assms(5) show ?thesis
    by (auto simp: lawful_def isLeader_def leader_started)
qed

lemma join_consent:
  assumes "wf_team orig" and "op_Caller op \<noteq> 0"
    and "dec_Changed (finish (step (started op orig now s cfg)) orig)"
    and "p \<in> set (dec_Joined (finish (step (started op orig now s cfg)) orig))"
  shows "(p = op_Caller op \<and> (\<exists>i \<in> set (tr_invites orig). ti_invitee_id i = p \<and> ti_expire_at_ms i > now))
    \<or> (tr_leader_id (fst (lazyTransferLeader orig s)) = op_Caller op
       \<and> (\<exists>a \<in> set (tr_applications orig). ta_player_id a = p \<and> ta_expire_at_ms a > now))"
proof -
  let ?c = "started op orig now s cfg"
  note law = started_lawful [OF assms(1,2), of now s cfg]
  from assms(4) have "p \<notin> memberSet orig" "p \<in> memberSet (rc_rec (step ?c))"
    by (simp_all add: finish_fields(2) [OF assms(3)])
  with law have "(p = op_Caller op \<and> findInvite (rc_rec ?c) p \<noteq> None)
      \<or> (isLeader ?c (op_Caller op) \<and> findApplication (rc_rec ?c) p \<noteq> None)"
    by (auto simp: lawful_def)
  then show ?thesis
    by (auto simp: findInvite_None findApplication_None isLeader_def leader_started pending_started)
qed

end

lemmas lawful_base = lawful_refl lawful_fail

lemma lawful_application:
  assumes c: "fresh_ctx c"
  shows "lawful c (case findApplication (rc_rec c) (op_Caller (rc_op c)) of
             Some _ \<Rightarrow> c\<lparr>rc_rec := (rc_rec c)\<lparr>tr_applications :=
                 update_first (\<lambda>a. ta_player_id a = op_Caller (rc_op c))
                   (\<lambda>a. a\<lparr>ta_expire_at_ms := e, ta_zone_id := z\<rparr>) (tr_applications (rc_rec c))\<rparr>\<rparr>
           | None \<Rightarrow> c\<lparr>rc_rec := evictOldestApplications
                 ((rc_rec c)\<lparr>tr_applications := tr_applications (rc_rec c) @
                   [\<lparr>ta_player_id = op_Caller (rc_op c), ta_zone_id = z, ta_applied_at_ms = n,
                     ta_expire_at_ms = e\<rparr>]\<rparr>) (op_Caller (rc_op c))\<rparr>)"
proof (cases "findApplication (rc_rec c) (op_Caller (rc_op c))")
  case None
  let ?a = "\<lparr>ta_player_id = op_Caller (rc_op c), ta_zone_id = z, ta_applied_at_ms = n, ta_expire_at_ms = e\<rparr>"
  from None c have "wf_team (evictOldestApplications
      ((rc_rec c)\<lparr>tr_applications := tr_applications (rc_rec c) @ [?a]\<rparr>) (ta_player_id ?a))"
    by (intro wf_new_application) (simp_all add: fresh_ctx_def findApplication_None)
  then show ?thesis unfolding None option.case
    by (rule lawful_pending [OF c])
       (use c in \<open>simp_all add: evictOldestApplications_def fresh_ctx_def\<close>)
next
  case (Some a)
  from c have "wf_team (rc_rec c)" by (simp add: fresh_ctx_def)
  from wf_renew_application [OF this] show ?thesis unfolding Some option.case
    by (intro lawful_pending [OF c]) (use c in \<open>simp_all add: fresh_ctx_def\<close>)
qed

lemma lawful_invite:
  assumes c: "fresh_ctx c" and t: "t \<noteq> 0"
  shows "lawful c (c\<lparr>rc_rec := (case findInvite (rc_rec c) t of
             Some _ \<Rightarrow> (rc_rec c)\<lparr>tr_invites :=
                 update_first (\<lambda>i. ti_invitee_id i = t)
                   (\<lambda>i. i\<lparr>ti_expire_at_ms := e, ti_inviter_id := q, ti_zone_id := z\<rparr>) (tr_invites (rc_rec c))\<rparr>
           | None \<Rightarrow> evictOldestInvites
                 ((rc_rec c)\<lparr>tr_invites := tr_invites (rc_rec c) @
                   [\<lparr>ti_invitee_id = t, ti_inviter_id = q, ti_zone_id = z, ti_invited_at_ms = n,
                     ti_expire_at_ms = e\<rparr>]\<rparr>) t),
      rc_added := rc_added c @ [\<lparr>ia_InviteeId = t, ia_ExpireAtMs = e\<rparr>], rc_invited := t\<rparr>)"
proof (cases "findInvite (rc_rec c) t")
  case None
  let ?i = "\<lparr>ti_invitee_id = t, ti_inviter_id = q, ti_zone_id = z, ti_invited_at_ms = n, ti_expire_at_ms = e\<rparr>"
  from None c t have "wf_team (evictOldestInvites
      ((rc_rec c)\<lparr>tr_invites := tr_invites (rc_rec c) @ [?i]\<rparr>) (ti_invitee_id ?i))"
    by (intro wf_new_invite) (simp_all add: fresh_ctx_def findInvite_None)
  then show ?thesis unfolding None option.case
    by (rule lawful_pending [OF c]) (use c t in \<open>simp_all add: evictOldestInvites_def fresh_ctx_def\<close>)
next
  case (Some i)
  from c have "wf_team (rc_rec c)" by (simp add: fresh_ctx_def)
  from wf_renew_invite [OF this] show ?thesis unfolding Some option.case
    by (intro lawful_pending [OF c]) (use c t in \<open>simp_all add: fresh_ctx_def\<close>)
qed

lemma lawful_case_zoneCheck:
  assumes "fresh_ctx c" and "lawful c (f c)"
  shows "lawful c (case zoneCheck c z of (d, ok) \<Rightarrow> if \<not> ok then d else f d)"
  using assms by (simp add: zoneCheck_def lawful_base)

interpretation refresh: roster_operation "\<lambda>c. c"
  by unfold_locales (rule lawful_refl)

interpretation apply_op: roster_operation op_apply
proof
  fix c
  assume c: "fresh_ctx c"
  show "lawful c (op_apply c)"
    unfolding op_apply_def Let_def
    by (simp add: c lawful_base lawful_application lawful_case_zoneCheck)
qed

interpretation handle: roster_operation handleApplication
proof
  fix c
  assume c: "fresh_ctx c"
  have rm: "lawful c (c\<lparr>rc_rec := removeApplication (rc_rec c) p, rc_rejected := p\<rparr>)" for p
    by (rule lawful_pending [OF c, of "removeApplication (rc_rec c) p"])
       (use c wf_removeApplication in \<open>simp_all add: fresh_ctx_def removeApplication_def\<close>)
  have app: False if "findApplication (rc_rec c) 0 = Some a" for a
    using findApplication_SomeD [OF that] c by (auto simp: fresh_ctx_def wf_team_def)
  have "lawful c (addMember c p z)" if "findApplication (rc_rec c) p = Some a" "p \<notin> memberSet (rc_rec c)"
      "\<not> locked c" "\<not> full c" "isLeader c (op_Caller (rc_op c))" for p a z
    by (rule lawful_addMember) (use c that app in auto)
  then show "lawful c (handleApplication c)"
    unfolding handleApplication_def Let_def
    by (auto simp: c lawful_base rm split: option.split
        intro!: lawful_case_zoneCheck lawful_addMember)
qed

interpretation invite_op: roster_operation op_invite
proof
  fix c
  assume c: "fresh_ctx c"
  show "lawful c (op_invite c)"
    unfolding op_invite_def Let_def
    by (auto simp: c lawful_base lawful_invite intro!: lawful_case_zoneCheck)
qed

interpretation respond: roster_operation respondInvite
proof
  fix c
  assume c: "fresh_ctx c"
  have rm: "lawful c (c\<lparr>rc_rec := removeInvite (rc_rec c) p\<rparr>)" for p
    by (rule lawful_pending [OF c, of "removeInvite (rc_rec c) p"])
       (use c wf_removeInvite in \<open>simp_all add: fresh_ctx_def removeInvite_def\<close>)
  from c have "op_Caller (rc_op c) \<noteq> 0" by (simp add: fresh_ctx_def)
  then show "lawful c (respondInvite c)"
    unfolding respondInvite_def Let_def
    by (auto simp: c lawful_base rm split: option.split
        intro!: lawful_case_zoneCheck lawful_addMember)
qed

interpretation leave: roster_operation op_leave
proof
  fix c
  assume c: "fresh_ctx c"
  then have "lawful c (c\<lparr>rc_extraLeft := rc_extraLeft c @ [op_Caller (rc_op c)]\<rparr>)"
    by (simp add: lawful_def fresh_ctx_def good_ctx_def)
  with c show "lawful c (op_leave c)"
    by (simp add: op_leave_def Let_def lawful_base lawful_removeMember)
qed

interpretation kick: roster_operation op_kick
  by unfold_locales (simp add: op_kick_def Let_def lawful_base lawful_removeMember)

interpretation transfer: roster_operation transferLeader
proof
  fix c
  assume c: "fresh_ctx c"
  have "lawful c (c\<lparr>rc_rec := (rc_rec c)\<lparr>tr_leader_id := t\<rparr>\<rparr>)"
    if "t \<in> memberSet (rc_rec c)" "isLeader c (op_Caller (rc_op c))" "\<not> locked c" for t
    using c that by (auto simp: lawful_def fresh_ctx_def good_ctx_def wf_team_def memberSet_code)
  then show "lawful c (transferLeader c)"
    unfolding transferLeader_def Let_def by (simp add: c lawful_base)
qed

interpretation disband: roster_operation op_disband
proof
  fix c
  assume c: "fresh_ctx c"
  have "lawful c (dissolve (c\<lparr>rc_rec := (rc_rec c)\<lparr>tr_members := []\<rparr>\<rparr>))"
    if "isLeader c (op_Caller (rc_op c))" "\<not> locked c"
    using c that by (simp add: lawful_def fresh_ctx_def good_ctx_def dissolve_def memberSet_code)
  with c show "lawful c (op_disband c)"
    unfolding op_disband_def by (simp add: lawful_base)
qed

lemma run_op_operation: "run_op kind = Some step \<Longrightarrow> roster_operation step"
  using refresh.roster_operation_axioms apply_op.roster_operation_axioms handle.roster_operation_axioms
    invite_op.roster_operation_axioms respond.roster_operation_axioms leave.roster_operation_axioms
    kick.roster_operation_axioms transfer.roster_operation_axioms disband.roster_operation_axioms
  by (auto simp: run_op_def split: op_kind.splits)

text \<open>A changed decision on an existing team is the summary of one of the nine operations.\<close>

lemma Apply_changed:
  assumes "dec_Changed (Apply op (Some orig) now s cfg)"
  obtains step where "roster_operation step"
    and "Apply op (Some orig) now s cfg = finish (step (started op orig now s cfg)) orig"
  using assms run_op_operation
  by (auto simp: Apply_def applyCreate_def Let_def reject_def zero_decision_def
      split: if_splits option.splits)

end
