(* ===== verification/TeamProps.thy ===== *)
theory TeamProps
  imports TeamContract
begin

text \<open>
  The properties of the team rules: committed decisions are valid, rejections write nothing, the
  match lock freezes the roster, who may remove or admit whom, the succession order, the eviction
  of pending entries, and whom a commit wakes.
\<close>

section \<open>A sample team\<close>

definition sample_member :: "u64 \<Rightarrow> u32 \<Rightarrow> team_member_record" where
  "sample_member p s = \<lparr>tm_player_id = p, tm_zone_id = 1, tm_joined_at_ms = 0, tm_join_seq = s\<rparr>"

definition sample_team :: team_record where
  "sample_team = \<lparr>tr_team_id = 7, tr_leader_id = 10, tr_zone_id = 1, tr_created_at_ms = 0,
     tr_members = [sample_member 10 1, sample_member 11 2],
     tr_applications = [\<lparr>ta_player_id = 12, ta_zone_id = 1, ta_applied_at_ms = 5, ta_expire_at_ms = 100\<rparr>],
     tr_invites = [\<lparr>ti_invitee_id = 13, ti_inviter_id = 10, ti_zone_id = 1, ti_invited_at_ms = 5,
       ti_expire_at_ms = 100\<rparr>],
     tr_next_join_seq = 3, tr_match_lock_token = [], tr_match_lock_expire_at_ms = 0,
     tr_match_lock_roster = []\<rparr>"

definition open_cfg :: rule_config where
  "open_cfg = \<lparr>cfg_AllowCrossZone = True, cfg_Zones = None\<rparr>"

abbreviation all_online :: sessions where
  "all_online \<equiv> \<lambda>_. SessionOnline"

lemma wf_sample [simp]: "wf_team sample_team"
  by (simp add: sample_team_def sample_member_def wf_team_def memberSet_def Capacity_def
      MaxApplications_def MaxInvitesPerTeam_def)

section \<open>Every committed decision is valid\<close>

text \<open>C1: whatever operation a caller sends, on an existing well-formed team or to create one, a
  decision that \<open>Apply\<close> marks as changed passes the store's own commit-set check, and the record
  it writes is well-formed again: members, applicants and invitees are distinct and non-zero, the
  leader is a member, and the three lists respect their limits.\<close>

theorem Apply_commits_valid:
  assumes "op_Caller op \<noteq> 0" and "\<And>r. rec = Some r \<Longrightarrow> wf_team r"
    and "dec_Changed (Apply op rec now s cfg)"
    and "t = (case rec of None \<Rightarrow> op_NewTeamId op | Some r \<Rightarrow> tr_team_id r)"
  shows "validateCommitSets t (Apply op rec now s cfg) = None
    \<and> (\<forall>r. dec_Record (Apply op rec now s cfg) = Some r \<longrightarrow> wf_team r \<and> tr_team_id r = t)"
proof (cases rec)
  case None
  have "validateCommitSets t (Apply op rec now s cfg) = None" and "\<forall>r. dec_Record (Apply op rec now s cfg) = Some r \<longrightarrow> wf_team r"
    using assms None
    by (auto simp: Apply_def applyCreate_def reject_def zero_decision_def validateCommitSets_None
        check_record_None MemberIds_def sortMembers_def wf_team_def memberSet_code Capacity_def
        split: if_splits)
  then show ?thesis by (auto simp: validateCommitSets_None check_record_None)
next
  case (Some orig)
  with assms have wf: "wf_team orig" and t: "t = tr_team_id orig" by auto
  from assms(3) Some obtain step where op: "roster_operation step"
    and eq: "Apply op rec now s cfg = finish (step (started op orig now s cfg)) orig"
    by (metis Apply_changed)
  from assms(3) have ch: "dec_Changed (finish (step (started op orig now s cfg)) orig)" by (simp add: eq)
  have valid: "validateCommitSets t (Apply op rec now s cfg) = None"
    unfolding eq t by (rule roster_operation.commit_valid(1) [OF op wf assms(1) ch])
  moreover have "wf_team r" if "dec_Record (Apply op rec now s cfg) = Some r" for r
    using roster_operation.commit_valid(2) [OF op wf assms(1) ch] that by (simp add: eq)
  ultimately show ?thesis by (auto simp: validateCommitSets_None check_record_None)
qed

theorem Apply_commits_valid_witness:
  "dec_Joined (Apply (HandleApplicationOp 10 12 True) (Some sample_team) 50 all_online open_cfg) = [12]
   \<and> validateCommitSets 7
       (Apply (HandleApplicationOp 10 12 True) (Some sample_team) 50 all_online open_cfg) = None"
proof -
  let ?op = "HandleApplicationOp 10 12 True"
  have caller: "op_Caller ?op \<noteq> 0" and ch: "dec_Changed (Apply ?op (Some sample_team) 50 all_online open_cfg)"
    and j: "dec_Joined (Apply ?op (Some sample_team) 50 all_online open_cfg) = [12]"
    and t: "7 = (case Some sample_team of None \<Rightarrow> op_NewTeamId ?op | Some r \<Rightarrow> tr_team_id r)"
    by code_simp+
  have wf: "\<And>r. Some sample_team = Some r \<Longrightarrow> wf_team r" using wf_sample by blast
  show ?thesis by (intro conjI j Apply_commits_valid [OF caller wf ch t, THEN conjunct1])
qed

section \<open>Rejections write nothing\<close>

text \<open>a decision with an error code is exactly \<open>reject\<close> of that code: nothing of the work copy,
  housekeeping included, leaks into it; and no decision asks for a write without being marked
  changed.\<close>

theorem Apply_rejects_clean:
  "(dec_Code (Apply op rec now s cfg) \<noteq> TeamOK \<longrightarrow>
      Apply op rec now s cfg =
        reject (dec_Code (Apply op rec now s cfg)) (dec_CodeParam (Apply op rec now s cfg)))
   \<and> (\<not> dec_Changed (Apply op rec now s cfg) \<longrightarrow>
      dec_Record (Apply op rec now s cfg) = None \<and> dec_Joined (Apply op rec now s cfg) = []
      \<and> dec_Kept (Apply op rec now s cfg) = [] \<and> dec_Left (Apply op rec now s cfg) = []
      \<and> dec_InvitesAdded (Apply op rec now s cfg) = [] \<and> dec_InvitesRemoved (Apply op rec now s cfg) = [])"
proof -
  have f: "(dec_Code (finish c orig) \<noteq> TeamOK \<longrightarrow>
      finish c orig = reject (dec_Code (finish c orig)) (dec_CodeParam (finish c orig)))
    \<and> (\<not> dec_Changed (finish c orig) \<longrightarrow> dec_Record (finish c orig) = None
      \<and> dec_Joined (finish c orig) = [] \<and> dec_Kept (finish c orig) = [] \<and> dec_Left (finish c orig) = []
      \<and> dec_InvitesAdded (finish c orig) = [] \<and> dec_InvitesRemoved (finish c orig) = [])" for c orig
    by (cases "rc_code c = TeamOK") (simp_all add: finish_def Let_def reject_def zero_decision_def)
  have r: "dec_Code (reject x y) = x" "dec_CodeParam (reject x y) = y" "\<not> dec_Changed (reject x y)"
    "dec_Record (reject x y) = None" "dec_Joined (reject x y) = []" "dec_Kept (reject x y) = []"
    "dec_Left (reject x y) = []" "dec_InvitesAdded (reject x y) = []" "dec_InvitesRemoved (reject x y) = []" for x y
    by (simp_all add: reject_def zero_decision_def)
  show ?thesis
  proof (cases "op_Kind op = OpCreate")
    case True
    then show ?thesis by (simp add: Apply_def applyCreate_def r) (simp add: zero_decision_def)
  next
    case False
    then show ?thesis using f by (auto simp: Apply_def Let_def r split: option.split)
  qed
qed

theorem Apply_rejects_clean_witness:
  "dec_Code (Apply (KickOp 11 10) (Some sample_team) 200 all_online open_cfg) = ErrKickNotLeader
   \<and> Apply (KickOp 11 10) (Some sample_team) 200 all_online open_cfg = reject ErrKickNotLeader 0"
proof -
  have "dec_Code (Apply (KickOp 11 10) (Some sample_team) 200 all_online open_cfg) = ErrKickNotLeader"
    and "dec_CodeParam (Apply (KickOp 11 10) (Some sample_team) 200 all_online open_cfg) = 0"
    by code_simp+
  then show ?thesis
    using Apply_rejects_clean [of "KickOp 11 10" "Some sample_team" 200 all_online open_cfg] by simp
qed

section \<open>The match lock\<close>

text \<open>C3: while a team's match lock is active no operation changes who is in the team: a committed
  decision keeps the record, its member list is the old one, nobody joins, no member leaves, and
  the leader only changes by the offline transfer.\<close>

theorem Apply_lock_freezes:
  assumes "wf_team orig" and "op_Caller op \<noteq> 0" and "MatchLockActive (Some orig) now"
    and "dec_Changed (Apply op (Some orig) now s cfg)"
  shows "(\<exists>r. dec_Record (Apply op (Some orig) now s cfg) = Some r \<and> MemberIds r = MemberIds orig
        \<and> tr_leader_id r = tr_leader_id (fst (lazyTransferLeader orig s)))
    \<and> dec_Joined (Apply op (Some orig) now s cfg) = []
    \<and> set (dec_Left (Apply op (Some orig) now s cfg)) \<inter> memberSet orig = {}"
proof -
  from assms(4) obtain step where op: "roster_operation step"
    and eq: "Apply op (Some orig) now s cfg = finish (step (started op orig now s cfg)) orig"
    by (rule Apply_changed)
  from assms(4) have ch: "dec_Changed (finish (step (started op orig now s cfg)) orig)" by (simp add: eq)
  show ?thesis
    unfolding eq using roster_operation.locked_frozen [OF op assms(1-3) ch] by blast
qed

theorem Apply_lock_freezes_witness:
  "dec_Changed (Apply (RefreshOp 11) (Some (sample_team\<lparr>tr_match_lock_token := ''m''\<rparr>)) 200 all_online open_cfg)
   \<and> dec_Joined (Apply (RefreshOp 11) (Some (sample_team\<lparr>tr_match_lock_token := ''m''\<rparr>)) 200 all_online open_cfg) = []"
proof -
  let ?t = "sample_team\<lparr>tr_match_lock_token := ''m''\<rparr>"
  have wf: "wf_team ?t" using wf_sample by (simp add: wf_team_def memberSet_code)
  have caller: "op_Caller (RefreshOp 11) \<noteq> 0" and lock: "MatchLockActive (Some ?t) 200"
    and ch: "dec_Changed (Apply (RefreshOp 11) (Some ?t) 200 all_online open_cfg)"
    by code_simp+
  from Apply_lock_freezes [OF wf caller lock ch] ch show ?thesis by simp
qed

section \<open>Authority\<close>

text \<open>C6: a member leaves a team only by his own request or by the request of the leader in office
  after the offline transfer.\<close>

theorem Apply_leave_authority:
  assumes "wf_team orig" and "op_Caller op \<noteq> 0" and "dec_Changed (Apply op (Some orig) now s cfg)"
    and "p \<in> set (dec_Left (Apply op (Some orig) now s cfg))" and "p \<in> memberSet orig"
  shows "p = op_Caller op \<or> tr_leader_id (fst (lazyTransferLeader orig s)) = op_Caller op"
proof -
  from assms(3) obtain step where op: "roster_operation step"
    and eq: "Apply op (Some orig) now s cfg = finish (step (started op orig now s cfg)) orig"
    by (rule Apply_changed)
  show ?thesis
    by (rule roster_operation.leave_authority [OF op assms(1,2)]) (use assms(3-5) in \<open>simp_all add: eq\<close>)
qed

theorem Apply_leave_authority_witness:
  "dec_Left (Apply (KickOp 10 11) (Some sample_team) 50 all_online open_cfg) = [11]
   \<and> tr_leader_id (fst (lazyTransferLeader sample_team all_online)) = 10"
proof -
  let ?d = "Apply (KickOp 10 11) (Some sample_team) 50 all_online open_cfg"
  have caller: "op_Caller (KickOp 10 11) \<noteq> 0" and ch: "dec_Changed ?d" and l: "dec_Left ?d = [11]"
    and m: "11 \<in> memberSet sample_team" and c: "op_Caller (KickOp 10 11) = 10"
    by code_simp+
  from l have "11 \<in> set (dec_Left ?d)" by simp
  from Apply_leave_authority [OF wf_sample caller ch this m] l c show ?thesis by simp
qed



section \<open>Succession\<close>

lemma find_sorted_least:
  "sorted (map f xs) \<Longrightarrow> find P xs = Some x \<Longrightarrow> y \<in> set xs \<Longrightarrow> P y \<Longrightarrow> f x \<le> f y"
  by (induction xs) (auto split: if_splits)

lemma sorted_sortMembers: "sorted (map member_key (sortMembers ms))"
  by (simp add: sortMembers_def)

text \<open>The member found by the online scan is the one with the least key among those online.\<close>

lemma pickLeader_online_least:
  assumes "0 \<notin> tm_player_id ` set ms"
  shows "pickLeader ms s True \<noteq> 0 \<longleftrightarrow> (\<exists>m \<in> set ms. s (tm_player_id m) = SessionOnline)"
    and "pickLeader ms s True \<noteq> 0 \<Longrightarrow> \<exists>m \<in> set ms. tm_player_id m = pickLeader ms s True
      \<and> s (tm_player_id m) = SessionOnline
      \<and> (\<forall>m' \<in> set ms. s (tm_player_id m') = SessionOnline \<longrightarrow> member_key m \<le> member_key m')"
proof -
  let ?f = "find (\<lambda>m. s (tm_player_id m) = SessionOnline) (sortMembers ms)"
  show "pickLeader ms s True \<noteq> 0 \<longleftrightarrow> (\<exists>m \<in> set ms. s (tm_player_id m) = SessionOnline)"
  proof (cases ?f)
    case None
    then have "\<forall>m \<in> set ms. s (tm_player_id m) \<noteq> SessionOnline" by (simp add: find_None_iff)
    with None show ?thesis by (simp add: pickLeader_def)
  next
    case (Some m)
    from find_SomeD [OF Some] assms Some show ?thesis by (auto simp: pickLeader_def)
  qed
  assume "pickLeader ms s True \<noteq> 0"
  then obtain m where m: "?f = Some m" by (auto simp: pickLeader_def Let_def split: option.splits)
  with find_SomeD [OF m] find_sorted_least [OF sorted_sortMembers m]
  show "\<exists>m \<in> set ms. tm_player_id m = pickLeader ms s True
      \<and> s (tm_player_id m) = SessionOnline
      \<and> (\<forall>m' \<in> set ms. s (tm_player_id m') = SessionOnline \<longrightarrow> member_key m \<le> member_key m')"
    by (intro bexI [of _ m]) (auto simp: pickLeader_def)
qed

text \<open>Leadership moves by itself exactly when the leader's session is gone and some other
  member is online; it then goes to the online member with the least join sequence number (ties by
  id), and nothing else of the record changes.\<close>

theorem lazyTransferLeader_spec:
  assumes "wf_team r" and "lazyTransferLeader r s = (r', moved)"
  shows "(moved \<longleftrightarrow> s (tr_leader_id r) = SessionAbsent
        \<and> (\<exists>m \<in> set (tr_members r). tm_player_id m \<noteq> tr_leader_id r \<and> s (tm_player_id m) = SessionOnline))
    \<and> r' = r\<lparr>tr_leader_id := tr_leader_id r'\<rparr> \<and> (\<not> moved \<longrightarrow> r' = r)
    \<and> (moved \<longrightarrow> (\<exists>m \<in> set (tr_members r). tm_player_id m = tr_leader_id r' \<and> tr_leader_id r' \<noteq> tr_leader_id r
        \<and> s (tr_leader_id r') = SessionOnline
        \<and> (\<forall>m' \<in> set (tr_members r). tm_player_id m' \<noteq> tr_leader_id r \<and> s (tm_player_id m') = SessionOnline
             \<longrightarrow> member_key m \<le> member_key m')))"
proof -
  let ?o = "filter (\<lambda>m. tm_player_id m \<noteq> tr_leader_id r) (tr_members r)"
  have z: "0 \<notin> tm_player_id ` set ?o" using assms(1) by (auto simp: wf_team_def memberSet_code)
  have l: "tr_leader_id r \<in> memberSet r" using assms(1) by (simp add: wf_team_def)
  have eq: "moved \<longleftrightarrow> s (tr_leader_id r) = SessionAbsent \<and> pickLeader ?o s True \<noteq> 0"
    "r' = (if moved then r\<lparr>tr_leader_id := pickLeader ?o s True\<rparr> else r)"
    using assms(2) l by (auto simp: lazyTransferLeader_def Let_def split: if_splits)
  show ?thesis
  proof (cases moved)
    case True
    with eq pickLeader_online_least(2) [OF z, of s] obtain m where
      "m \<in> set ?o" "tm_player_id m = pickLeader ?o s True" "s (tm_player_id m) = SessionOnline"
      "\<forall>m' \<in> set ?o. s (tm_player_id m') = SessionOnline \<longrightarrow> member_key m \<le> member_key m'"
      by blast
    then have "(\<exists>m \<in> set (tr_members r). tm_player_id m = tr_leader_id r' \<and> tr_leader_id r' \<noteq> tr_leader_id r
        \<and> s (tr_leader_id r') = SessionOnline
        \<and> (\<forall>m' \<in> set (tr_members r). tm_player_id m' \<noteq> tr_leader_id r \<and> s (tm_player_id m') = SessionOnline
             \<longrightarrow> member_key m \<le> member_key m'))"
      using True eq(2) by (intro bexI [of _ m]) auto
    with True eq pickLeader_online_least(1) [OF z, of s] show ?thesis by auto
  next
    case False
    with eq pickLeader_online_least(1) [OF z, of s] show ?thesis by auto
  qed
qed

section \<open>Joining order\<close>

definition raise_seq :: "team_member_record \<Rightarrow> u32 \<Rightarrow> u32" where
  "raise_seq m seq = (if tm_join_seq m \<ge> seq then tm_join_seq m + 1 else seq)"

lemma raise_seq_grows: "tm_join_seq m \<noteq> - 1 \<Longrightarrow> n \<le> raise_seq m n \<and> tm_join_seq m < raise_seq m n"
proof -
  assume m: "tm_join_seq m \<noteq> - 1"
  then have "1 + tm_join_seq m \<noteq> 0" by (metis add.commute eq_neg_iff_add_eq_0)
  then have "tm_join_seq m < tm_join_seq m + 1"
    by (simp add: word_less_nat_alt unatSuc add.commute [of _ 1])
  then show ?thesis by (auto simp: raise_seq_def)
qed

lemma fold_raise_seq:
  "\<forall>m \<in> set ms. tm_join_seq m \<noteq> - 1 \<Longrightarrow>
     n \<le> fold raise_seq ms n \<and> (\<forall>m \<in> set ms. tm_join_seq m < fold raise_seq ms n)"
proof (induction ms arbitrary: n)
  case (Cons a ms)
  from Cons.prems raise_seq_grows [of a n] Cons.IH [of "raise_seq a n"] show ?case
    by (auto intro: less_le_trans)
qed simp

lemma next_seq_above:
  assumes "\<forall>m \<in> set (tr_members r). tm_join_seq m \<noteq> - 1" and "m \<in> set (tr_members r)"
  shows "tm_join_seq m < next_seq r"
proof -
  have "next_seq r = (let seq = fold raise_seq (tr_members r) (tr_next_join_seq r) in if seq = 0 then 1 else seq)"
    by (simp add: next_seq_def raise_seq_def [abs_def])
  with fold_raise_seq [OF assms(1), of "tr_next_join_seq r"] assms(2) show ?thesis
    by (auto simp: Let_def)
qed

lemma sort_key_last:
  assumes "\<And>x. x \<in> set xs \<Longrightarrow> f x < f y"
  shows "sort_key f (xs @ [y]) = sort_key f xs @ [y]"
proof (rule properties_for_sort_key)
  show "mset (sort_key f xs @ [y]) = mset (xs @ [y])" by simp
  show "sorted (map f (sort_key f xs @ [y]))" using assms by (auto simp: sorted_append less_imp_le)
  show "filter (\<lambda>x. f k = f x) (sort_key f xs @ [y]) = filter (\<lambda>x. f k = f x) (xs @ [y])"
    if "k \<in> set (sort_key f xs @ [y])" for k
    by (simp add: sort_key_stable eq_commute [of "f k"])
qed

text \<open>Unless a join sequence number has reached the end of its 32 bits, whoever is added comes
  after every present member in the succession order.\<close>

theorem addMember_goes_last:
  assumes "\<forall>m \<in> set (tr_members (rc_rec c)). tm_join_seq m \<noteq> - 1"
  shows "MemberIds (rc_rec (addMember c p z)) = MemberIds (rc_rec c) @ [p]"
proof -
  let ?r = "rc_rec c"
  let ?m = "\<lparr>tm_player_id = p, tm_zone_id = z, tm_joined_at_ms = rc_now c, tm_join_seq = next_seq ?r\<rparr>"
  have "sortMembers (tr_members ?r @ [?m]) = sortMembers (tr_members ?r) @ [?m]"
    unfolding sortMembers_def
    by (rule sort_key_last) (use next_seq_above [OF assms] in \<open>simp add: member_key_def\<close>)
  moreover have "MemberIds (rc_rec (addMember c p z)) = map tm_player_id (sortMembers (tr_members ?r @ [?m]))"
    by (simp add: addMember_def Let_def removeInvite_def removeApplication_def MemberIds_def)
  ultimately show ?thesis by (simp add: MemberIds_def)
qed

section \<open>Starting a match\<close>

lemma mset_extract: "distinct xs \<Longrightarrow> x \<in> set xs \<Longrightarrow> mset (x # filter (\<lambda>y. y \<noteq> x) xs) = mset xs"
proof (induction xs)
  case (Cons a xs)
  then show ?case
  proof (cases "x = a")
    case True
    with Cons.prems have "filter (\<lambda>y. y \<noteq> x) xs = xs" by (auto simp: filter_id_conv)
    with True show ?thesis by (simp del: mset_filter)
  next
    case False
    with Cons show ?thesis by (simp add: add_mset_commute)
  qed
qed simp

lemma MatchRoster_wf:
  assumes "wf_team r"
  shows "MatchRoster r = tr_leader_id r # filter (\<lambda>p. p \<noteq> tr_leader_id r) (MemberIds r)"
    and "mset (MatchRoster r) = mset (MemberIds r)"
proof -
  show eq: "MatchRoster r = tr_leader_id r # filter (\<lambda>p. p \<noteq> tr_leader_id r) (MemberIds r)"
    using assms by (simp add: MatchRoster_def Let_def wf_team_def)
  show "mset (MatchRoster r) = mset (MemberIds r)"
    unfolding eq by (rule mset_extract) (use assms in \<open>simp_all add: wf_team_def\<close>)
qed

text \<open>The context \<open>LockMatch\<close> summarises.\<close>

definition lock_ctx :: "team_record \<Rightarrow> u64 \<Rightarrow> string \<Rightarrow> u64 list \<Rightarrow> u64 \<Rightarrow> u64 \<Rightarrow> rule_ctx" where
  "lock_ctx orig caller token roster e now =
     markOp ((new_ctx (zero_op\<lparr>op_Caller := caller\<rparr>) (fst (pruneExpired orig now)) now (\<lambda>_. SessionUnknown)
                \<lparr>cfg_AllowCrossZone = False, cfg_Zones = None\<rparr>)
       \<lparr>rc_appsExpired := fst (snd (pruneExpired orig now)), rc_invitesExpired := snd (snd (pruneExpired orig now)),
        rc_rec := (fst (pruneExpired orig now))\<lparr>tr_match_lock_token := token,
          tr_match_lock_expire_at_ms := e, tr_match_lock_roster := roster\<rparr>\<rparr>)
     REASON_MATCH_STARTED caller"

lemma CheckMatchStart_OK:
  "CheckMatchStart rec caller now = TeamOK \<longleftrightarrow>
     (\<exists>r. rec = Some r \<and> caller \<noteq> 0 \<and> tr_leader_id r = caller \<and> \<not> MatchLockActive rec now)"
  by (simp add: CheckMatchStart_def split: option.split)

lemma LockMatch_eq:
  "LockMatch rec caller token roster e now =
     (if CheckMatchStart rec caller now \<noteq> TeamOK then reject (CheckMatchStart rec caller now) 0
      else if token = [] \<or> e \<le> now then reject ErrInternal 0
      else if mset roster \<noteq> mset (MemberIds (the rec)) then reject ErrStateChanged 0
      else finish (lock_ctx (the rec) caller token roster e now) (the rec))"
proof (cases "CheckMatchStart rec caller now = TeamOK")
  case True
  then obtain orig where "rec = Some orig" by (auto simp: CheckMatchStart_OK)
  with True show ?thesis
    by (simp add: LockMatch_def lock_ctx_def sameIdSet_iff split: prod.split)
next
  case False
  then show ?thesis by (cases "CheckMatchStart rec caller now") (simp_all add: LockMatch_def)
qed

lemma lock_ctx_simps [simp]:
  "rc_code (lock_ctx orig caller token roster e now) = TeamOK"
  "rc_disbanded (lock_ctx orig caller token roster e now) = False"
  "rc_opChanged (lock_ctx orig caller token roster e now) = True"
  "tr_members (rc_rec (lock_ctx orig caller token roster e now)) = tr_members orig"
  "tr_leader_id (rc_rec (lock_ctx orig caller token roster e now)) = tr_leader_id orig"
  "tr_match_lock_token (rc_rec (lock_ctx orig caller token roster e now)) = token"
  "tr_match_lock_expire_at_ms (rc_rec (lock_ctx orig caller token roster e now)) = e"
  "tr_match_lock_roster (rc_rec (lock_ctx orig caller token roster e now)) = roster"
  by (simp_all add: lock_ctx_def markOp_def new_ctx_def)

lemma lock_ctx_good: "wf_team orig \<Longrightarrow> good_ctx (tr_team_id orig) (lock_ctx orig caller token roster e now)"
  using wf_pruneExpired [of orig now]
  by (simp add: lock_ctx_def markOp_def new_ctx_def good_ctx_def wf_team_def memberSet_code)



text \<open>The roster a leader submits, \<open>MatchRoster\<close>, starts with the leader and lists every member
  once, so that locking with it never fails on the roster: with a free lock, a token and an expiry
  in the future the lock is always taken.\<close>

theorem MatchRoster_locks:
  assumes "wf_team r" and "\<not> MatchLockActive (Some r) now" and "token \<noteq> []" and "now < e"
  shows "hd (MatchRoster r) = tr_leader_id r \<and> distinct (MatchRoster r) \<and> set (MatchRoster r) = memberSet r
    \<and> dec_Code (LockMatch (Some r) (tr_leader_id r) token (MatchRoster r) e now) = TeamOK
    \<and> dec_Changed (LockMatch (Some r) (tr_leader_id r) token (MatchRoster r) e now)"
proof -
  note ros = MatchRoster_wf [OF assms(1)]
  have "tr_leader_id r \<noteq> 0" using assms(1) by (auto simp: wf_team_def)
  then have lock: "LockMatch (Some r) (tr_leader_id r) token (MatchRoster r) e now =
      finish (lock_ctx r (tr_leader_id r) token (MatchRoster r) e now) r"
    using assms ros(2) by (simp add: LockMatch_eq CheckMatchStart_OK not_le)
  have "distinct (MemberIds r)" using assms(1) by (simp add: wf_team_def)
  with ros(2) have "distinct (MatchRoster r)" and "set (MatchRoster r) = memberSet r"
    by (metis mset_eq_imp_distinct_iff, metis set_MemberIds set_mset_mset)
  moreover have "dec_Code (finish (lock_ctx r (tr_leader_id r) token (MatchRoster r) e now) r) = TeamOK"
    by (simp add: finish_def Let_def zero_decision_def)
  moreover have "hd (MatchRoster r) = tr_leader_id r" by (simp add: ros(1))
  ultimately show ?thesis by (simp add: lock finish_changed_iff)
qed

section \<open>Pending lists\<close>

text \<open>Eviction brings both pending lists down to their limit, never drops the entry it was
  called for, and drops only entries that are not newer than any other it leaves; a list within
  its limit is left alone.\<close>

theorem eviction_keeps_newest:
  assumes "distinct (map ta_player_id (tr_applications r))" and "distinct (map ti_invitee_id (tr_invites r))"
  shows "length (tr_applications (evictOldestApplications r k)) \<le> MaxApplications
    \<and> length (tr_invites (evictOldestInvites r k)) \<le> MaxInvitesPerTeam
    \<and> (\<forall>a \<in> set (tr_applications r). a \<notin> set (tr_applications (evictOldestApplications r k)) \<longrightarrow>
         ta_player_id a \<noteq> k \<and> (\<forall>b \<in> set (tr_applications (evictOldestApplications r k)).
           ta_player_id b = k \<or> ta_applied_at_ms a \<le> ta_applied_at_ms b))
    \<and> (\<forall>a \<in> set (tr_invites r). a \<notin> set (tr_invites (evictOldestInvites r k)) \<longrightarrow>
         ti_invitee_id a \<noteq> k \<and> (\<forall>b \<in> set (tr_invites (evictOldestInvites r k)).
           ti_invitee_id b = k \<or> ti_invited_at_ms a \<le> ti_invited_at_ms b))
    \<and> (length (tr_applications r) \<le> MaxApplications \<longrightarrow> evictOldestApplications r k = r)
    \<and> (length (tr_invites r) \<le> MaxInvitesPerTeam \<longrightarrow> evictOldestInvites r k = r)"
proof -
  have "length (tr_applications (evictOldestApplications r k)) \<le> MaxApplications"
    using evict_loop_length [OF assms(1), where limit = MaxApplications and k = k]
    by (simp add: evictOldestApplications_def MaxApplications_def)
  moreover have "length (tr_invites (evictOldestInvites r k)) \<le> MaxInvitesPerTeam"
    using evict_loop_length [OF assms(2), where limit = MaxInvitesPerTeam and k = k]
    by (simp add: evictOldestInvites_def MaxInvitesPerTeam_def)
  moreover have "ta_player_id a \<noteq> k" if "a \<in> set (tr_applications r)"
      "a \<notin> set (tr_applications (evictOldestApplications r k))" for a
    using that evict_loop_keeps [of a "tr_applications r" "\<lambda>a. ta_player_id a = k"]
    by (auto simp: evictOldestApplications_def)
  moreover have "ti_invitee_id a \<noteq> k" if "a \<in> set (tr_invites r)"
      "a \<notin> set (tr_invites (evictOldestInvites r k))" for a
    using that evict_loop_keeps [of a "tr_invites r" "\<lambda>i. ti_invitee_id i = k"]
    by (auto simp: evictOldestInvites_def)
  moreover have "ta_player_id b = k \<or> ta_applied_at_ms a \<le> ta_applied_at_ms b" if "a \<in> set (tr_applications r)"
      "a \<notin> set (tr_applications (evictOldestApplications r k))"
      "b \<in> set (tr_applications (evictOldestApplications r k))" for a b
    using that app.evict_loop_drops_oldest [of a "tr_applications r" MaxApplications "\<lambda>a. ta_player_id a = k" b]
    by (auto simp: evictOldestApplications_def application_older_def not_less)
  moreover have "ti_invitee_id b = k \<or> ti_invited_at_ms a \<le> ti_invited_at_ms b" if "a \<in> set (tr_invites r)"
      "a \<notin> set (tr_invites (evictOldestInvites r k))"
      "b \<in> set (tr_invites (evictOldestInvites r k))" for a b
    using that invite.evict_loop_drops_oldest [of a "tr_invites r" MaxInvitesPerTeam "\<lambda>i. ti_invitee_id i = k" b]
    by (auto simp: evictOldestInvites_def invite_older_def not_less)
  moreover have "length (tr_applications r) \<le> MaxApplications \<Longrightarrow> evictOldestApplications r k = r"
    and "length (tr_invites r) \<le> MaxInvitesPerTeam \<Longrightarrow> evictOldestInvites r k = r"
    by (simp_all add: evictOldestApplications_def evictOldestInvites_def evict_loop_stop)
  ultimately show ?thesis by blast
qed

section \<open>Whom a commit wakes\<close>

lemma set_map_filter_id: "set (List.map_filter id xs) = {x. Some x \<in> set xs}"
  by (induction xs) (auto simp: List.map_filter_simps split: option.split)

text \<open>After a batch of commits exactly the players a real change touches are told to pull the
  team, the caller among them, and exactly the players with an invitation added, or withdrawn
  before it expired, to pull their invitations; nobody is told twice and a commit that only dropped
  expired entries tells nobody about the team.\<close>

theorem syncDigestTargets_exact:
  "distinct (fst (syncDigestTargets caller commits)) \<and> distinct (snd (syncDigestTargets caller commits))
   \<and> set (fst (syncDigestTargets caller commits)) =
       {p. p \<noteq> 0 \<and> (\<exists>d. Some d \<in> set commits \<and> \<not> dec_ExpiryOnly d
          \<and> p \<in> insert caller (set (dec_Joined d) \<union> set (dec_Kept d) \<union> set (dec_Left d)))}
   \<and> set (snd (syncDigestTargets caller commits)) =
       {p. p \<noteq> 0 \<and> (\<exists>d. Some d \<in> set commits
          \<and> (p \<in> ia_InviteeId ` set (dec_InvitesAdded d)
             \<or> p \<in> set (dec_InvitesRemoved d) - set (dec_InvitesExpired d)))}"
  by (auto simp: syncDigestTargets_def Let_def uniqueIds_def list_loops set_map_filter_id digest_team_def
      digest_invite_def list_ex_iff split: if_splits)


section \<open>Witnesses\<close>

theorem lazyTransferLeader_spec_witness:
  "\<exists>m \<in> set (tr_members sample_team). tm_player_id m = 11
     \<and> tr_leader_id (fst (lazyTransferLeader sample_team ((\<lambda>_. SessionOnline)(10 := SessionAbsent)))) = 11"
proof -
  let ?s = "(\<lambda>_. SessionOnline)(10 := SessionAbsent) :: sessions"
  have m: "snd (lazyTransferLeader sample_team ?s)" "tr_leader_id (fst (lazyTransferLeader sample_team ?s)) = 11"
    by code_simp+
  from lazyTransferLeader_spec [OF wf_sample prod.collapse [symmetric], of ?s] m show ?thesis by auto
qed

theorem addMember_goes_last_witness:
  "MemberIds (rc_rec (addMember (new_ctx (HandleApplicationOp 10 12 True) sample_team 50 all_online open_cfg) 12 1))
     = MemberIds sample_team @ [12]"
proof -
  have "\<forall>m \<in> set (tr_members sample_team). tm_join_seq m \<noteq> - 1" by code_simp
  with addMember_goes_last [of "new_ctx (HandleApplicationOp 10 12 True) sample_team 50 all_online open_cfg" 12 1]
  show ?thesis by simp
qed


theorem MatchRoster_locks_witness:
  "dec_Changed (LockMatch (Some sample_team) (tr_leader_id sample_team) ''m'' (MatchRoster sample_team) 900 50)"
proof -
  have l: "\<not> MatchLockActive (Some sample_team) 50" by code_simp
  have e: "(50 :: u64) < 900" and m: "''m'' \<noteq> []" by simp_all
  from MatchRoster_locks [OF wf_sample l m e] show ?thesis by blast
qed

definition crowded_team :: team_record where
  "crowded_team = sample_team\<lparr>tr_applications :=
     map (\<lambda>p. \<lparr>ta_player_id = p, ta_zone_id = 1, ta_applied_at_ms = p, ta_expire_at_ms = 100\<rparr>)
       [30, 21, 22, 23, 24, 25, 26, 27, 28, 29, 20]\<rparr>"

theorem eviction_keeps_newest_witness:
  "length (tr_applications crowded_team) = 11
   \<and> length (tr_applications (evictOldestApplications crowded_team 20)) \<le> MaxApplications
   \<and> map ta_player_id (tr_applications (evictOldestApplications crowded_team 20))
       = [30, 22, 23, 24, 25, 26, 27, 28, 29, 20]"
proof -
  have d: "distinct (map ta_player_id (tr_applications crowded_team))"
    and i: "distinct (map ti_invitee_id (tr_invites crowded_team))"
    and l: "length (tr_applications crowded_team) = 11"
    and e: "map ta_player_id (tr_applications (evictOldestApplications crowded_team 20))
       = [30, 22, 23, 24, 25, 26, 27, 28, 29, 20]" by code_simp+
  show ?thesis by (intro conjI l e eviction_keeps_newest [OF d i, THEN conjunct1])
qed

end
