(* ===== verification/TeamStore.thy ===== *)
theory TeamStore
  imports TeamContract "HOL-Library.AList"
begin

text \<open>
  The team store on SQL (\<^verbatim>\<open>sql_store.go\<close>, \<^verbatim>\<open>sql_mutate.go\<close>, \<^verbatim>\<open>sql_action.go\<close>, \<^verbatim>\<open>sql_maintenance.go\<close>,
  \<^verbatim>\<open>sql_recovery.go\<close>).  A database state is a record of its tables; a transaction is a function
  from the state it starts on to a result and the state it commits, and an error rolls back.  The
  identity checks of the authority package (which roles the transaction may lock, and the home-zone checks) come in as the
  argument \<open>captured\<close>, the rendering of a reply as the argument \<open>respond\<close>.
\<close>

section \<open>Tables\<close>

record team_original_role =
  or_player_id :: u64
  or_owner_account :: string
  or_owner_revision :: u64

record team_consent_original =
  co_player_id :: u64
  co_initiator :: "team_original_role option"
  co_recipient :: "team_original_role option"

record team_authority_data =
  ad_record :: "team_record option"
  ad_members :: "team_original_role list"
  ad_applications :: "team_consent_original list"
  ad_invites :: "team_consent_original list"

definition empty_data :: team_authority_data where
  "empty_data = \<lparr>ad_record = None, ad_members = [], ad_applications = [], ad_invites = []\<rparr>"

record sql_team_row =
  row_version :: u64
  row_idleExpires :: u64
  row_state :: u32
  row_data :: team_authority_data

record index_entry =
  ie_TeamId :: u64
  ie_Epoch :: u64

record sql_action =
  act_actor :: team_original_role
  act_high :: u64
  act_low :: u64
  act_method :: u32
  act_payload :: "8 word list"

record 'r team_receipt =
  rcp_method :: u32
  rcp_payload :: "8 word list"
  rcp_owner_account :: string
  rcp_owner_revision :: u64
  rcp_result :: 'r

record 'r team_db =
  db_authority :: "u64 \<Rightarrow> sql_team_row option"
  db_membership :: "u64 \<Rightarrow> index_entry option"
  db_invite_index :: "((u64 \<times> u64) \<times> u64) list"
  db_application_index :: "((u64 \<times> u64) \<times> u64) list"
  db_receipt :: "u64 \<times> u64 \<times> u64 \<Rightarrow> 'r team_receipt option"
  db_queue_cancels :: "u64 list"

datatype store_error =
    TeamRowCorrupt | MembershipMismatch | VersionExhausted | EpochExhausted | OriginalMissing
  | OriginalMismatch | ConsentMissing | TeamIntentConflict | DuplicateReceipt | IdentityRefused
  | CommitSets commit_error | CommitConflict | MissingIntent

definition TeamIdleTTLSeconds :: u64 where "TeamIdleTTLSeconds = 86400"
definition TouchThresholdSeconds :: int where "TouchThresholdSeconds = 43200"
definition CommitRetries :: nat where "CommitRetries = 3"

section \<open>Reading\<close>

definition loadSQLTeam :: "'r team_db \<Rightarrow> u64 \<Rightarrow> store_error + sql_team_row" where
  "loadSQLTeam db teamID =
     (case db_authority db teamID of
        None \<Rightarrow> Inr \<lparr>row_version = 0, row_idleExpires = 0, row_state = 0, row_data = empty_data\<rparr>
      | Some row \<Rightarrow>
          (if row_version row = 0 \<or> row_state row < 1 \<or> row_state row > 2
              \<or> (row_state row = 1
                 \<and> (case ad_record (row_data row) of None \<Rightarrow> 0 | Some r \<Rightarrow> tr_team_id r) \<noteq> teamID)
           then Inl TeamRowCorrupt
           else if row_state row = 2 then Inr (row\<lparr>row_data := empty_data\<rparr>)
           else Inr row))"

definition loadSQLMembership :: "'r team_db \<Rightarrow> u64 \<Rightarrow> index_entry" where
  "loadSQLMembership db player =
     (case db_membership db player of None \<Rightarrow> \<lparr>ie_TeamId = 0, ie_Epoch = 0\<rparr> | Some e \<Rightarrow> e)"

record snapshot =
  sn_PlayerId :: u64
  sn_PlayerTeamId :: u64
  sn_PlayerEpoch :: u64
  sn_TeamId :: u64
  sn_Version :: u64
  sn_Record :: "team_record option"
  sn_RecordTTLSeconds :: int
  sn_NowMs :: u64

definition sqlTeamSnapshot :: "u64 \<Rightarrow> u64 \<Rightarrow> u64 \<Rightarrow> index_entry \<Rightarrow> sql_team_row \<Rightarrow> snapshot" where
  "sqlTeamSnapshot player teamID stamp index row =
     \<lparr>sn_PlayerId = player, sn_PlayerTeamId = ie_TeamId index, sn_PlayerEpoch = ie_Epoch index,
      sn_TeamId = teamID, sn_Version = row_version row,
      sn_Record = (if row_state row = 1 then ad_record (row_data row) else None),
      sn_RecordTTLSeconds =
        (if row_state row = 1
         then (if row_idleExpires row > stamp then uint ((row_idleExpires row - stamp) div 1000) else 0)
         else - 2),
      sn_NowMs = stamp\<rparr>"

definition NeedsTouch :: "snapshot option \<Rightarrow> bool" where
  "NeedsTouch snap =
     (case snap of None \<Rightarrow> False
      | Some s \<Rightarrow> sn_Record s \<noteq> None \<and> sn_RecordTTLSeconds s < TouchThresholdSeconds)"

definition consentByPlayer :: "team_consent_original list \<Rightarrow> u64 \<Rightarrow> team_consent_original option" where
  "consentByPlayer consents player = find (\<lambda>c. co_player_id c = player) consents"

text \<open>The originals list may hold nil pointers, whose \<open>GetPlayerId\<close> is 0.\<close>

definition originalByPlayer :: "team_original_role option list \<Rightarrow> u64 \<Rightarrow> team_original_role option" where
  "originalByPlayer originals player =
     (case find (\<lambda>o'. (case o' of None \<Rightarrow> 0 | Some x \<Rightarrow> or_player_id x) = player) originals of
        None \<Rightarrow> None | Some o' \<Rightarrow> o')"

text \<open>\<open>readOnce\<close>: \<open>actor\<close> is the caller's own role when the read is free.\<close>

definition readOnce ::
  "'r team_db \<Rightarrow> u64 \<Rightarrow> u64 \<Rightarrow> team_original_role option \<Rightarrow> u64 \<Rightarrow> store_error + snapshot" where
  "readOnce db player teamID actor stamp =
     (let index = loadSQLMembership db player;
          tid = (if actor \<noteq> None then ie_TeamId index else teamID) in
      case loadSQLTeam db tid of
        Inl e \<Rightarrow> Inl e
      | Inr row \<Rightarrow>
          (let snap = sqlTeamSnapshot player tid stamp index row in
           if ie_TeamId index = tid \<and> tid \<noteq> 0
              \<and> (case sn_Record snap of None \<Rightarrow> True | Some r \<Rightarrow> FindMember r player = None)
           then Inl MembershipMismatch
           else if actor \<noteq> None \<and> tid \<noteq> 0
              \<and> originalByPlayer (map Some (ad_members (row_data row))) player \<noteq> actor
           then Inl OriginalMismatch
           else Inr snap))"

definition readMembers ::
  "'r team_db \<Rightarrow> u64 \<Rightarrow> store_error + (u64 \<times> team_record option \<times> (u64 \<times> index_entry) list)" where
  "readMembers db teamID =
     (case loadSQLTeam db teamID of
        Inl e \<Rightarrow> Inl e
      | Inr row \<Rightarrow>
          (if row_state row \<noteq> 1 then Inr (row_version row, None, [])
           else (case ad_record (row_data row) of
               None \<Rightarrow> Inr (row_version row, None, [])
             | Some r \<Rightarrow>
                 (if list_ex (\<lambda>p. ie_TeamId (loadSQLMembership db p) \<noteq> teamID) (MemberIds r)
                  then Inl MembershipMismatch
                  else Inr (row_version row, Some r,
                         map (\<lambda>p. (p, loadSQLMembership db p)) (MemberIds r))))))"

section \<open>Committing a decision\<close>

text \<open>The loop over the people of a decision: every index entry after the commit, or the reason
  it cannot be written.\<close>

fun plan_indexes ::
  "'r team_db \<Rightarrow> u64 \<Rightarrow> u64 list \<Rightarrow> u64 list \<Rightarrow> u64 \<Rightarrow> u64 list
     \<Rightarrow> store_error + ((team_code \<times> u64) + (u64 \<times> index_entry) list)" where
  "plan_indexes db teamID joined left stamp [] = Inr (Inr [])"
| "plan_indexes db teamID joined left stamp (player # people) =
     (let index = loadSQLMembership db player in
      if player \<in> set joined \<and> ie_TeamId index \<noteq> 0 \<and> ie_TeamId index \<noteq> teamID
      then Inr (Inl (ErrMemberInTeam, player))
      else if player \<notin> set joined \<and> ie_TeamId index \<noteq> teamID then Inl MembershipMismatch
      else if (player \<in> set joined \<or> player \<in> set left) \<and> ie_Epoch index = maxu64
      then Inl EpochExhausted
      else (let epoch = ie_Epoch index + 1;
                index' = (if player \<in> set joined \<or> player \<in> set left
                  then \<lparr>ie_TeamId = (if player \<in> set left then 0 else teamID),
                        ie_Epoch = (if epoch < stamp then stamp else epoch)\<rparr>
                  else index) in
            case plan_indexes db teamID joined left stamp people of
              Inr (Inr indexes) \<Rightarrow> Inr (Inr ((player, index') # indexes))
            | other \<Rightarrow> other))"

definition pending_invites :: "'r team_db \<Rightarrow> u64 \<Rightarrow> u64 \<Rightarrow> u64 \<Rightarrow> nat" where
  "pending_invites db invitee stamp teamID =
     length (filter (\<lambda>((i, t), e). i = invitee \<and> e > stamp \<and> t \<noteq> teamID) (db_invite_index db))"

definition put_index :: "(u64 \<times> index_entry) \<Rightarrow> (u64 \<Rightarrow> index_entry option) \<Rightarrow> (u64 \<Rightarrow> index_entry option)" where
  "put_index entry m = m(fst entry \<mapsto> snd entry)"

record commit_result =
  cr_TeamId :: u64
  cr_Version :: u64
  cr_Decision :: decision
  cr_Indexes :: "(u64 \<times> index_entry) list"
  cr_NowMs :: u64

definition record_applications :: "team_record option \<Rightarrow> team_application_record list" where
  "record_applications rec = (case rec of None \<Rightarrow> [] | Some r \<Rightarrow> tr_applications r)"

definition record_leader :: "team_record option \<Rightarrow> u64" where
  "record_leader rec = (case rec of None \<Rightarrow> 0 | Some r \<Rightarrow> tr_leader_id r)"

definition write_commit ::
  "'r team_db \<Rightarrow> u64 \<Rightarrow> sql_team_row \<Rightarrow> team_authority_data \<Rightarrow> decision \<Rightarrow> u64
     \<Rightarrow> (u64 \<times> index_entry) list \<Rightarrow> 'r team_db" where
  "write_commit db teamID old data d stamp indexes =
     (let apps = record_applications (dec_Record d);
          gone = filter (\<lambda>a. ta_player_id a \<notin> set (map ta_player_id apps))
            (record_applications (ad_record (row_data old))) in
      db\<lparr>db_authority := (db_authority db)(teamID \<mapsto>
           \<lparr>row_version = row_version old + 1, row_idleExpires = stamp + TeamIdleTTLSeconds * 1000,
            row_state = (if dec_Record d = None then 2 else 1), row_data = data\<rparr>),
         db_membership := fold put_index indexes (db_membership db),
         db_invite_index :=
           fold (\<lambda>a. AList.update (ia_InviteeId a, teamID) (ia_ExpireAtMs a)) (dec_InvitesAdded d)
             (fold (\<lambda>p. AList.delete (p, teamID)) (dec_InvitesRemoved d) (db_invite_index db)),
         db_application_index :=
           fold (\<lambda>a. AList.update (ta_player_id a, teamID) (ta_expire_at_ms a)) apps
             (fold (\<lambda>a. AList.delete (ta_player_id a, teamID)) gone (db_application_index db)),
         db_queue_cancels := db_queue_cancels db @
           (if row_state old = 1
               \<and> (length (dec_Joined d) + length (dec_Left d) \<noteq> 0
                  \<or> record_leader (ad_record (row_data old)) \<noteq> record_leader (dec_Record d))
            then [teamID] else [])\<rparr>)"

definition commitDecision ::
  "'r team_db \<Rightarrow> u64 \<Rightarrow> sql_team_row \<Rightarrow> team_authority_data \<Rightarrow> decision \<Rightarrow> u64
     \<Rightarrow> store_error + ((team_code \<times> u64) + (commit_result \<times> 'r team_db))" where
  "commitDecision db teamID old data d stamp =
     (case validateCommitSets teamID d of
        Some e \<Rightarrow> Inl (CommitSets e)
      | None \<Rightarrow>
          (if row_version old = maxu64 then Inl VersionExhausted
           else (case plan_indexes db teamID (dec_Joined d) (dec_Left d) stamp
                   (sort (dec_Joined d @ dec_Kept d @ dec_Left d)) of
               Inl e \<Rightarrow> Inl e
             | Inr (Inl refusal) \<Rightarrow> Inr (Inl refusal)
             | Inr (Inr indexes) \<Rightarrow>
                 (case find (\<lambda>a. pending_invites db (ia_InviteeId a) stamp teamID
                             \<ge> MaxPendingInvitesPerInvitee) (dec_InvitesAdded d) of
                    Some a \<Rightarrow> Inr (Inl (ErrInviteLimit, ia_InviteeId a))
                  | None \<Rightarrow>
                      Inr (Inr (\<lparr>cr_TeamId = teamID, cr_Version = row_version old + 1, cr_Decision = d,
                          cr_Indexes = indexes, cr_NowMs = stamp\<rparr>,
                        write_commit db teamID old data d stamp indexes))))))"

section \<open>The mutation transaction\<close>

definition mutationOriginals ::
  "team_authority_data \<Rightarrow> team_op \<Rightarrow> store_error + team_original_role option list" where
  "mutationOriginals data op =
     (let originals = map Some (ad_members data);
          members = (case ad_record data of None \<Rightarrow> [] | Some r \<Rightarrow> tr_members r) in
      if length originals \<noteq> length members then Inl OriginalMissing
      else if list_ex (\<lambda>m. originalByPlayer originals (tm_player_id m) = None) members
      then Inl OriginalMismatch
      else (let consent =
              (if op_Kind op = OpHandleApplication then consentByPlayer (ad_applications data) (op_Target op)
               else if op_Kind op = OpRespondInvite then consentByPlayer (ad_invites data) (op_Caller op)
               else None) in
            Inr (originals @ (case consent of None \<Rightarrow> [] | Some c \<Rightarrow> [co_initiator c, co_recipient c]))))"

text \<open>One entry of the new consent lists: the stored one, or a fresh one for the pair that acts now;
  an entry without both roles is an error.\<close>

definition complete_consent :: "team_consent_original option \<Rightarrow> team_consent_original option" where
  "complete_consent consent =
     (case consent of None \<Rightarrow> None
      | Some c \<Rightarrow> if co_initiator c = None \<or> co_recipient c = None then None else Some c)"

definition application_consent ::
  "team_authority_data \<Rightarrow> team_record \<Rightarrow> team_op \<Rightarrow> team_original_role option list
     \<Rightarrow> team_application_record \<Rightarrow> team_consent_original option" where
  "application_consent old rec op originals a =
     complete_consent
       (if op_Kind op = OpApply \<and> ta_player_id a = op_Caller op
        then Some \<lparr>co_player_id = op_Caller op, co_initiator = originalByPlayer originals (op_Caller op),
                   co_recipient = originalByPlayer originals (tr_leader_id rec)\<rparr>
        else consentByPlayer (ad_applications old) (ta_player_id a))"

definition invite_consent ::
  "team_authority_data \<Rightarrow> team_op \<Rightarrow> team_original_role option list \<Rightarrow> team_invite_record
     \<Rightarrow> team_consent_original option" where
  "invite_consent old op originals i =
     complete_consent
       (if op_Kind op = OpInvite \<and> ti_invitee_id i = op_Target op
        then Some \<lparr>co_player_id = op_Target op, co_initiator = originalByPlayer originals (op_Caller op),
                   co_recipient = originalByPlayer originals (op_Target op)\<rparr>
        else consentByPlayer (ad_invites old) (ti_invitee_id i))"

definition nextSQLTeamData ::
  "team_authority_data \<Rightarrow> decision \<Rightarrow> team_op \<Rightarrow> team_original_role option list
     \<Rightarrow> store_error + team_authority_data" where
  "nextSQLTeamData old d op originals =
     (case dec_Record d of
        None \<Rightarrow> Inr empty_data
      | Some rec \<Rightarrow>
          (case those (map (\<lambda>m. originalByPlayer originals (tm_player_id m)) (tr_members rec)) of
             None \<Rightarrow> Inl OriginalMissing
           | Some members \<Rightarrow>
               (case those (map (application_consent old rec op originals) (tr_applications rec)) of
                  None \<Rightarrow> Inl ConsentMissing
                | Some applications \<Rightarrow>
                    (case those (map (invite_consent old op originals) (tr_invites rec)) of
                       None \<Rightarrow> Inl ConsentMissing
                     | Some invites \<Rightarrow>
                         Inr \<lparr>ad_record = Some rec, ad_members = members,
                              ad_applications = applications, ad_invites = invites\<rparr>))))"

datatype bind_mode = BindCaller | BindTarget | BindCreate

record binding =
  bd_mode :: bind_mode
  bd_playerId :: u64
  bd_teamId :: u64

datatype outcome =
  OutcomeCommitted | OutcomeUnchanged | OutcomeRejected | OutcomeNotBound | OutcomeRecordMissing

record mutate_result =
  mr_Outcome :: outcome
  mr_Code :: team_code
  mr_CodeParam :: u64
  mr_Snapshot :: "snapshot option"
  mr_Decision :: "decision option"
  mr_Commit :: "commit_result option"
  mr_Conflicts :: nat

definition result_of :: "outcome \<Rightarrow> team_code \<Rightarrow> u64 \<Rightarrow> mutate_result" where
  "result_of outcome code param =
     \<lparr>mr_Outcome = outcome, mr_Code = code, mr_CodeParam = param, mr_Snapshot = None,
      mr_Decision = None, mr_Commit = None, mr_Conflicts = 0\<rparr>"

definition action_key :: "sql_action \<Rightarrow> u64 \<times> u64 \<times> u64" where
  "action_key a = (or_player_id (act_actor a), act_high a, act_low a)"

text \<open>\<open>None\<close> when there is no receipt yet.\<close>

definition loadSQLAction :: "'r team_db \<Rightarrow> sql_action \<Rightarrow> store_error + 'r option" where
  "loadSQLAction db a =
     (case db_receipt db (action_key a) of
        None \<Rightarrow> Inr None
      | Some r \<Rightarrow>
          (if rcp_method r \<noteq> act_method a \<or> rcp_payload r \<noteq> act_payload a
              \<or> rcp_owner_account r \<noteq> or_owner_account (act_actor a)
              \<or> rcp_owner_revision r \<noteq> or_owner_revision (act_actor a)
           then Inl TeamIntentConflict else Inr (Some (rcp_result r))))"

definition writeSQLAction :: "'r team_db \<Rightarrow> sql_action option \<Rightarrow> 'r \<Rightarrow> store_error + 'r team_db" where
  "writeSQLAction db action response =
     (case action of
        None \<Rightarrow> Inr db
      | Some a \<Rightarrow>
          (if db_receipt db (action_key a) \<noteq> None then Inl DuplicateReceipt
           else Inr (db\<lparr>db_receipt := (db_receipt db)(action_key a \<mapsto>
             \<lparr>rcp_method = act_method a, rcp_payload = act_payload a,
              rcp_owner_account = or_owner_account (act_actor a),
              rcp_owner_revision = or_owner_revision (act_actor a), rcp_result = response\<rparr>)\<rparr>)))"

text \<open>The \<open>switch\<close> of \<open>mutateTx\<close>: binding checks, the rule, and the commit.\<close>

definition decide_and_commit ::
  "'r team_db \<Rightarrow> binding \<Rightarrow> team_op \<Rightarrow> team_original_role option list \<Rightarrow> sessions \<Rightarrow> rule_config
     \<Rightarrow> u64 \<Rightarrow> index_entry \<Rightarrow> sql_team_row \<Rightarrow> store_error + (mutate_result \<times> 'r team_db)" where
  "decide_and_commit db bind op roles sessions cfg stamp index row =
     (if bd_mode bind = BindCaller \<and> (bd_teamId bind = 0 \<or> ie_TeamId index \<noteq> bd_teamId bind)
      then Inr (result_of OutcomeNotBound TeamOK 0, db)
      else if bd_mode bind = BindCreate \<and> row_version row \<noteq> 0
      then Inr (result_of OutcomeRejected ErrStateChanged 0, db)
      else if bd_mode bind \<noteq> BindCreate \<and> row_state row \<noteq> 1
      then Inr (result_of OutcomeRecordMissing TeamOK 0, db)
      else if op_Kind op = OpInvite \<and> ie_TeamId (loadSQLMembership db (op_Target op)) \<noteq> 0
      then Inr (result_of OutcomeRejected ErrMemberInTeam (op_Target op), db)
      else (let op' = op\<lparr>op_CallerTeamId := ie_TeamId index\<rparr>;
                d = Apply op' (ad_record (row_data row)) stamp sessions cfg in
        if dec_Code d \<noteq> TeamOK
        then Inr ((result_of OutcomeRejected (dec_Code d) (dec_CodeParam d))\<lparr>mr_Decision := Some d\<rparr>, db)
        else if \<not> dec_Changed d
        then Inr ((result_of OutcomeUnchanged TeamOK 0)\<lparr>mr_Decision := Some d\<rparr>, db)
        else (case nextSQLTeamData (row_data row) d op' roles of
            Inl e \<Rightarrow> Inl e
          | Inr data \<Rightarrow>
              (case commitDecision db (bd_teamId bind) row data d stamp of
                 Inl e \<Rightarrow> Inl e
               | Inr (Inl (code, param)) \<Rightarrow>
                   Inr ((result_of OutcomeRejected code param)\<lparr>mr_Decision := Some d\<rparr>, db)
               | Inr (Inr (commit, db')) \<Rightarrow>
                   Inr ((result_of OutcomeCommitted TeamOK 0)
                          \<lparr>mr_Decision := Some d, mr_Commit := Some commit\<rparr>, db')))))"

text \<open>\<open>mutateTx\<close>.  The result is \<open>None\<close> for a retry; \<open>replay\<close> is the stored response of an action
  that already has its receipt.\<close>

definition mutateTx ::
  "(u64 \<Rightarrow> op_kind \<Rightarrow> mutate_result \<Rightarrow> 'r) \<Rightarrow> 'r team_db \<Rightarrow> binding \<Rightarrow> team_op \<Rightarrow> sql_team_row
     \<Rightarrow> store_error + team_original_role option list \<Rightarrow> sessions \<Rightarrow> rule_config \<Rightarrow> sql_action option \<Rightarrow> u64
     \<Rightarrow> store_error + (mutate_result \<times> 'r option \<times> 'r team_db) option" where
  "mutateTx respond db bind op observed captured sessions cfg action stamp =
     (case captured of
        Inl e \<Rightarrow> Inl e
      | Inr roles \<Rightarrow>
          (case (case action of None \<Rightarrow> Inr None | Some a \<Rightarrow> loadSQLAction db a) of
             Inl e \<Rightarrow> Inl e
           | Inr (Some previous) \<Rightarrow> Inr (Some (result_of OutcomeUnchanged TeamOK 0, Some previous, db))
           | Inr None \<Rightarrow>
               (case loadSQLTeam db (bd_teamId bind) of
                  Inl e \<Rightarrow> Inl e
                | Inr row \<Rightarrow>
                    (if \<not> (row_version observed = row_version row \<and> row_state observed = row_state row
                          \<and> row_data observed = row_data row) then Inr None
                     else (let index = loadSQLMembership db (bd_playerId bind);
                               snap = sqlTeamSnapshot (bd_playerId bind) (bd_teamId bind) stamp index row in
                       case decide_and_commit db bind op roles sessions cfg stamp index row of
                         Inl e \<Rightarrow> Inl e
                       | Inr (result, db1) \<Rightarrow>
                           (let result' = result\<lparr>mr_Snapshot := Some snap\<rparr>;
                                response = respond (bd_playerId bind) (op_Kind op) result' in
                            case writeSQLAction db1 action response of
                              Inl e \<Rightarrow> Inl e
                            | Inr db2 \<Rightarrow> Inr (Some (result', Some response, db2))))))))"

text \<open>\<open>mutateOnce\<close>: the attempts, each with the database its observation reads, the one its
  transaction runs on, and what the surroundings answer.\<close>

record 'r attempt =
  at_observe :: "'r team_db"
  at_tx :: "'r team_db"
  at_capture :: "team_original_role option list \<Rightarrow> store_error + team_original_role option list"
  at_sessions :: sessions
  at_stamp :: u64

fun mutate_attempts ::
  "(u64 \<Rightarrow> op_kind \<Rightarrow> mutate_result \<Rightarrow> 'r) \<Rightarrow> binding \<Rightarrow> team_op \<Rightarrow> rule_config \<Rightarrow> sql_action option
     \<Rightarrow> nat \<Rightarrow> 'r attempt list \<Rightarrow> store_error + (mutate_result \<times> 'r team_db option)" where
  "mutate_attempts respond bind op cfg action n [] =
     Inr ((result_of OutcomeRejected ErrStateChanged 0)\<lparr>mr_Conflicts := CommitRetries\<rparr>, None)"
| "mutate_attempts respond bind op cfg action n (a # as) =
     (case loadSQLTeam (at_observe a) (bd_teamId bind) of
        Inl e \<Rightarrow> Inl e
      | Inr observed \<Rightarrow>
          (case mutationOriginals (row_data observed) op of
             Inl e \<Rightarrow> Inl e
           | Inr originals \<Rightarrow>
               (case mutateTx respond (at_tx a) bind op observed (at_capture a originals) (at_sessions a) cfg
                       action (at_stamp a) of
                  Inl e \<Rightarrow> Inl e
                | Inr None \<Rightarrow> mutate_attempts respond bind op cfg action (Suc n) as
                | Inr (Some (result, _, db)) \<Rightarrow> Inr (result\<lparr>mr_Conflicts := n\<rparr>, Some db))))"

definition method_code :: "op_kind \<Rightarrow> u32" where
  "method_code kind = (case kind of
      OpCreate \<Rightarrow> 1 | OpRefresh \<Rightarrow> 2 | OpApply \<Rightarrow> 3 | OpHandleApplication \<Rightarrow> 4 | OpInvite \<Rightarrow> 5
    | OpRespondInvite \<Rightarrow> 6 | OpLeave \<Rightarrow> 7 | OpKick \<Rightarrow> 8 | OpTransferLeader \<Rightarrow> 9 | OpDisband \<Rightarrow> 10
    | OpUnknown \<Rightarrow> 0)"

definition mutateOnce ::
  "(u64 \<Rightarrow> op_kind \<Rightarrow> mutate_result \<Rightarrow> 'r) \<Rightarrow> binding \<Rightarrow> team_op \<Rightarrow> rule_config \<Rightarrow> sql_action option
     \<Rightarrow> 'r attempt list \<Rightarrow> store_error + (mutate_result \<times> 'r team_db option)" where
  "mutateOnce respond bind op cfg action attempts =
     (if op_Kind op \<noteq> OpRefresh
         \<and> (case action of None \<Rightarrow> True
            | Some a \<Rightarrow> act_method a \<noteq> method_code (op_Kind op) \<or> or_player_id (act_actor a) \<noteq> op_Caller op)
      then Inl MissingIntent
      else mutate_attempts respond bind op cfg action 0 (take CommitRetries attempts))"

section \<open>Maintenance\<close>

definition touchOnce ::
  "'r team_db \<Rightarrow> snapshot option \<Rightarrow> sql_team_row \<Rightarrow> u64 \<Rightarrow> store_error + (bool \<times> 'r team_db)" where
  "touchOnce db snap observed stamp =
     (case snap of
        None \<Rightarrow> Inr (False, db)
      | Some sn \<Rightarrow>
          (if sn_Record sn = None then Inr (False, db)
           else (case loadSQLTeam db (sn_TeamId sn) of
               Inl e \<Rightarrow> Inl e
             | Inr current \<Rightarrow>
                 (if row_state current \<noteq> 1 \<or> row_version current \<noteq> sn_Version sn
                     \<or> \<not> (row_version observed = row_version current \<and> row_state observed = row_state current
                          \<and> row_data observed = row_data current)
                  then Inr (False, db)
                  else if row_idleExpires current \<le> stamp then Inr (False, db)
                  else Inr (True, db\<lparr>db_authority := (db_authority db)(sn_TeamId sn \<mapsto>
                         current\<lparr>row_idleExpires := stamp + TeamIdleTTLSeconds * 1000\<rparr>)\<rparr>)))))"

definition pruneInviteOnce ::
  "'r team_db \<Rightarrow> u64 \<Rightarrow> u64 \<Rightarrow> u64 \<Rightarrow> u64 \<Rightarrow> store_error + (bool \<times> 'r team_db)" where
  "pruneInviteOnce db player teamID expectedExpiry stamp =
     (case loadSQLTeam db teamID of
        Inl e \<Rightarrow> Inl e
      | Inr row \<Rightarrow>
          (if row_state row = 1
              \<and> (case ad_record (row_data row) of
                   None \<Rightarrow> False
                 | Some r \<Rightarrow> (case findInvite r player of None \<Rightarrow> False | Some i \<Rightarrow> ti_expire_at_ms i > stamp))
           then Inr (False, db)
           else (let rows = db_invite_index db;
                     kept = filter (\<lambda>((i, t), e). \<not> (i = player \<and> t = teamID \<and> e = expectedExpiry)) rows in
                 Inr (length kept \<noteq> length rows, db\<lparr>db_invite_index := kept\<rparr>))))"

definition idle_decision :: "team_record \<Rightarrow> u64 \<Rightarrow> decision" where
  "idle_decision r stamp =
     zero_decision\<lparr>dec_Changed := True, dec_Left := MemberIds r, dec_Disbanded := True,
       dec_Reason := REASON_DISBANDED, dec_InvitesRemoved := map ti_invitee_id (tr_invites r),
       dec_RevokedInvitees := map ti_invitee_id (filter (\<lambda>i. ti_expire_at_ms i > stamp) (tr_invites r))\<rparr>"

definition expireIdleOnce ::
  "'r team_db \<Rightarrow> u64 \<Rightarrow> sql_team_row \<Rightarrow> u64 \<Rightarrow> store_error + (commit_result option \<times> 'r team_db)" where
  "expireIdleOnce db teamID observed stamp =
     (if row_state observed \<noteq> 1 then Inr (None, db)
      else (case loadSQLTeam db teamID of
          Inl e \<Rightarrow> Inl e
        | Inr current \<Rightarrow>
            (if \<not> (row_version current = row_version observed \<and> row_state current = row_state observed
                  \<and> row_data current = row_data observed) then Inr (None, db)
             else (case ad_record (row_data current) of
                 None \<Rightarrow> Inr (None, db)
               | Some r \<Rightarrow>
                   (if row_state current \<noteq> 1 \<or> row_idleExpires current > stamp \<or> tr_match_lock_token r \<noteq> []
                    then Inr (None, db)
                    else (case commitDecision db teamID current empty_data (idle_decision r stamp) stamp of
                        Inl e \<Rightarrow> Inl e
                      | Inr (Inl _) \<Rightarrow> Inl CommitConflict
                      | Inr (Inr (commit, db')) \<Rightarrow> Inr (Some commit, db')))))))"

section \<open>Starting and ending a match\<close>

definition clear_match_lock :: "team_record \<Rightarrow> team_record" where
  "clear_match_lock r =
     r\<lparr>tr_match_lock_token := [], tr_match_lock_expire_at_ms := 0, tr_match_lock_roster := []\<rparr>"

text \<open>\<open>createLaunchOnce\<close> from the rule to the commit: a unit that still waits for others, with nobody
  to be taken out of a spectated match first, is queued without a lock; every other launch keeps
  the lock without an expiry.\<close>

definition launch_decision :: "decision \<Rightarrow> bool \<Rightarrow> bool \<Rightarrow> decision" where
  "launch_decision d queued exits =
     (if queued \<and> \<not> exits
      then d\<lparr>dec_Record := map_option clear_match_lock (dec_Record d), dec_Reason := REASON_MATCH_QUEUED\<rparr>
      else d\<lparr>dec_Record := map_option (\<lambda>r. r\<lparr>tr_match_lock_expire_at_ms := 0\<rparr>) (dec_Record d)\<rparr>)"

definition launch_queued :: "match_mode \<Rightarrow> u32 \<Rightarrow> u64 list \<Rightarrow> bool" where
  "launch_queued mode sz roster = (mode = MATCH_MODE_PVP_TEAM \<or> sz > of_nat (length roster))"

definition createLaunchOnce ::
  "'r team_db \<Rightarrow> u64 \<Rightarrow> u64 \<Rightarrow> sql_team_row \<Rightarrow> u64 \<Rightarrow> match_mode \<Rightarrow> u32 \<Rightarrow> string \<Rightarrow> u64 list \<Rightarrow> u32 \<Rightarrow> bool
     \<Rightarrow> team_original_role option list \<Rightarrow> u64
     \<Rightarrow> store_error + ((team_code \<times> u64) + (commit_result \<times> 'r team_db)) option" where
  "createLaunchOnce db teamID version observed caller mode targetSize token roster ttl exits roles stamp =
     (case loadSQLTeam db teamID of
        Inl e \<Rightarrow> Inl e
      | Inr current \<Rightarrow>
          (if \<not> (row_version current = row_version observed \<and> row_state current = row_state observed
                \<and> row_data current = row_data observed) \<or> row_version current \<noteq> version then Inr None
           else (let sz = (if targetSize = 0 then of_nat (length roster) else targetSize);
                     d = LockMatch (ad_record (row_data current)) caller token roster
                           (stamp + ucast ttl * 1000) stamp in
             if dec_Code d \<noteq> TeamOK then Inr (Some (Inl (dec_Code d, dec_CodeParam d)))
             else if CheckPvpPartySize mode sz (of_nat (length roster)) \<noteq> TeamOK
             then Inr (Some (Inl (CheckPvpPartySize mode sz (of_nat (length roster)), 0)))
             else (let d' = launch_decision d (launch_queued mode sz roster) exits in
               case nextSQLTeamData (row_data current) d' (RefreshOp caller) roles of
                 Inl e \<Rightarrow> Inl e
               | Inr data \<Rightarrow>
                   (case commitDecision db teamID current data d' stamp of
                      Inl e \<Rightarrow> Inl e
                    | Inr r \<Rightarrow> Inr (Some r))))))"

text \<open>\<open>endMatchOnce\<close> from the locked launch on: \<open>version\<close> and \<open>data\<close> are what the launch lock read.\<close>

definition end_match_decision :: "team_record \<Rightarrow> bool \<Rightarrow> decision" where
  "end_match_decision record ended =
     zero_decision\<lparr>dec_Changed := True, dec_Record := Some record, dec_Kept := MemberIds record,
       dec_Reason := (if ended then REASON_MATCH_ENDED else REASON_MATCH_FAILED)\<rparr>"

definition endMatchOnce ::
  "'r team_db \<Rightarrow> u64 \<Rightarrow> u64 \<Rightarrow> team_authority_data \<Rightarrow> bool \<Rightarrow> u64
     \<Rightarrow> store_error + (commit_result \<times> 'r team_db)" where
  "endMatchOnce db teamID version data ended stamp =
     (case ad_record data of
        None \<Rightarrow> Inl TeamRowCorrupt
      | Some r \<Rightarrow>
          (let record = clear_match_lock r in
           case commitDecision db teamID
                  \<lparr>row_version = version, row_idleExpires = 0, row_state = 1, row_data = data\<rparr>
                  (data\<lparr>ad_record := Some record\<rparr>) (end_match_decision record ended) stamp of
             Inl e \<Rightarrow> Inl e
           | Inr (Inl _) \<Rightarrow> Inl CommitConflict
           | Inr (Inr (commit, db')) \<Rightarrow> Inr (commit, db')))"

end
