(* ===== verification/TeamStoreInv.thy ===== *)
theory TeamStoreInv
  imports TeamStore TeamProps
begin

text \<open>
  What the transactions of the team store keep: the membership index and the live records agree,
  so a player is in at most one team; membership epochs only grow.  The transactions are the steps
  of a transition system, and its reachable states satisfy the invariant by rule induction.
\<close>

section \<open>The invariant of the tables\<close>

definition live :: "'r team_db \<Rightarrow> u64 \<Rightarrow> team_record option" where
  "live db t = (case db_authority db t of
      None \<Rightarrow> None
    | Some row \<Rightarrow> if row_state row = 1 then ad_record (row_data row) else None)"

definition row_ok :: "u64 \<Rightarrow> sql_team_row \<Rightarrow> bool" where
  "row_ok t row \<longleftrightarrow> row_version row \<noteq> 0 \<and> (row_state row = 1 \<or> row_state row = 2)
     \<and> (row_state row = 1 \<longrightarrow> (\<exists>r. ad_record (row_data row) = Some r \<and> tr_team_id r = t \<and> wf_team r))"

text \<open>Every row is sound, and the membership index says of a player exactly the one live team that
  lists him.\<close>

definition store_inv :: "'r team_db \<Rightarrow> bool" where
  "store_inv db \<longleftrightarrow>
     (\<forall>t row. db_authority db t = Some row \<longrightarrow> row_ok t row)
     \<and> (\<forall>p t. t \<noteq> 0 \<longrightarrow>
          (ie_TeamId (loadSQLMembership db p) = t \<longleftrightarrow> (\<exists>r. live db t = Some r \<and> p \<in> memberSet r)))"

lemma store_inv_row: "store_inv db \<Longrightarrow> db_authority db t = Some row \<Longrightarrow> row_ok t row"
  by (simp add: store_inv_def)

lemma store_inv_index:
  "store_inv db \<Longrightarrow> t \<noteq> 0 \<Longrightarrow>
     ie_TeamId (loadSQLMembership db p) = t \<longleftrightarrow> (\<exists>r. live db t = Some r \<and> p \<in> memberSet r)"
  by (simp add: store_inv_def)

lemma live_wf: "store_inv db \<Longrightarrow> live db t = Some r \<Longrightarrow> wf_team r \<and> tr_team_id r = t \<and> t \<noteq> 0"
proof -
  assume inv: "store_inv db" and l: "live db t = Some r"
  from l obtain row where "db_authority db t = Some row" "row_state row = 1" "ad_record (row_data row) = Some r"
    by (auto simp: live_def split: option.splits if_splits)
  with store_inv_row [OF inv] have "wf_team r \<and> tr_team_id r = t" by (fastforce simp: row_ok_def)
  then show ?thesis by (auto simp: wf_team_def)
qed

text \<open>Under the invariant a row loads without error and shows the live record.\<close>

lemma loadSQLTeam_ok:
  assumes "store_inv db"
  obtains row where "loadSQLTeam db t = Inr row" and "ad_record (row_data row) = live db t"
    and "row_state row = 1 \<longleftrightarrow> live db t \<noteq> None"
    and "row_version row = (case db_authority db t of None \<Rightarrow> 0 | Some r \<Rightarrow> row_version r)"
proof (cases "db_authority db t")
  case None
  let ?row = "\<lparr>row_version = 0, row_idleExpires = 0, row_state = 0, row_data = empty_data\<rparr>"
  from None show ?thesis by (intro that [of ?row]) (simp_all add: loadSQLTeam_def live_def empty_data_def)
next
  case (Some row)
  from store_inv_row [OF assms Some] have ok: "row_ok t row" .
  show ?thesis
  proof (cases "row_state row = 1")
    case True
    with ok Some show ?thesis
      by (intro that [of row]) (auto simp: loadSQLTeam_def live_def row_ok_def)
  next
    case False
    with ok have "row_state row = 2" by (simp add: row_ok_def)
    with ok Some show ?thesis
      by (intro that [of "row\<lparr>row_data := empty_data\<rparr>"])
         (auto simp: loadSQLTeam_def live_def row_ok_def empty_data_def)
  qed
qed

lemma loadSQLTeam_inv:
  assumes "store_inv db" and "loadSQLTeam db t = Inr row"
  shows "ad_record (row_data row) = live db t" and "row_state row = 1 \<longleftrightarrow> live db t \<noteq> None"
    and "row_version row = (case db_authority db t of None \<Rightarrow> 0 | Some r \<Rightarrow> row_version r)"
  using loadSQLTeam_ok [OF assms(1), of t] assms(2) by fastforce+

section \<open>Planning the index entries\<close>

definition entry_ok :: "'r team_db \<Rightarrow> u64 \<Rightarrow> u64 list \<Rightarrow> u64 list \<Rightarrow> u64 \<Rightarrow> u64 \<Rightarrow> index_entry \<Rightarrow> bool" where
  "entry_ok db t joined left stamp p e \<longleftrightarrow>
     (if p \<in> set joined then ie_TeamId (loadSQLMembership db p) \<in> {0, t}
      else ie_TeamId (loadSQLMembership db p) = t)
     \<and> ie_TeamId e = (if p \<in> set left then 0 else t)
     \<and> (if p \<in> set joined \<union> set left
        then ie_Epoch (loadSQLMembership db p) < ie_Epoch e \<and> stamp \<le> ie_Epoch e
        else e = loadSQLMembership db p)"

lemma less_incr: "x \<noteq> maxu64 \<Longrightarrow> x < x + 1"
  by (metis add.commute eq_neg_iff_add_eq_0 unatSuc lessI word_less_nat_alt)

lemma plan_indexes_ok:
  "plan_indexes db t joined left stamp people = Inr (Inr idx) \<Longrightarrow>
     map fst idx = people \<and> (\<forall>(p, e) \<in> set idx. entry_ok db t joined left stamp p e)"
proof (induction people arbitrary: idx)
  case Nil
  then show ?case by simp
next
  case (Cons p people)
  let ?i = "loadSQLMembership db p"
  let ?e = "ie_Epoch ?i + 1"
  let ?new = "if p \<in> set joined \<or> p \<in> set left
                  then \<lparr>ie_TeamId = (if p \<in> set left then 0 else t), ie_Epoch = (if ?e < stamp then stamp else ?e)\<rparr>
                  else ?i"
  have ok: "p \<in> set joined \<longrightarrow> ie_TeamId ?i = 0 \<or> ie_TeamId ?i = t" "p \<notin> set joined \<longrightarrow> ie_TeamId ?i = t"
      "p \<in> set joined \<or> p \<in> set left \<longrightarrow> ie_Epoch ?i \<noteq> maxu64"
    and step: "(case plan_indexes db t joined left stamp people of
        Inr (Inr indexes) \<Rightarrow> Inr (Inr ((p, ?new) # indexes)) | other \<Rightarrow> other) = Inr (Inr idx)"
    using Cons.prems by (auto simp: Let_def split: if_split_asm)
  from step obtain rest where idx: "idx = (p, ?new) # rest"
    and rest: "plan_indexes db t joined left stamp people = Inr (Inr rest)"
    by (cases "plan_indexes db t joined left stamp people") (auto split: sum.splits)
  have "entry_ok db t joined left stamp p ?new"
    using ok less_incr [of "ie_Epoch ?i"] by (auto simp: entry_ok_def not_less intro: less_trans)
  with Cons.IH [OF rest] idx show ?case by simp
qed

lemma fold_put_index:
  "distinct (map fst idx) \<Longrightarrow>
     fold put_index idx m p = (case map_of idx p of Some e \<Rightarrow> Some e | None \<Rightarrow> m p)"
proof (induction idx arbitrary: m)
  case (Cons a idx)
  then show ?case
    by (cases a) (auto simp: put_index_def map_of_eq_None_iff split: option.splits
        dest: map_of_SomeD intro: rev_image_eqI)
qed simp

section \<open>What a commit does\<close>

lemma commitDecision_Inr:
  assumes "commitDecision db t old data d stamp = Inr (Inr (commit, db'))"
  obtains idx where "validateCommitSets t d = None" and "row_version old \<noteq> maxu64"
    and "map fst idx = sort (dec_Joined d @ dec_Kept d @ dec_Left d)"
    and "\<forall>(p, e) \<in> set idx. entry_ok db t (dec_Joined d) (dec_Left d) stamp p e"
    and "db' = write_commit db t old data d stamp idx"
    and "\<forall>a \<in> set (dec_InvitesAdded d). pending_invites db (ia_InviteeId a) stamp t < MaxPendingInvitesPerInvitee"
    and "commit = \<lparr>cr_TeamId = t, cr_Version = row_version old + 1, cr_Decision = d, cr_Indexes = idx, cr_NowMs = stamp\<rparr>"
  using assms
  by (auto simp: commitDecision_def find_None_iff not_le dest!: plan_indexes_ok
      split: option.splits if_splits sum.splits prod.splits)


lemma memberSet_commit:
  "check_record t d = None \<Longrightarrow> dec_Record d = Some r \<Longrightarrow> memberSet r = set (dec_Joined d) \<union> set (dec_Kept d)"
proof -
  assume "check_record t d = None" and "dec_Record d = Some r"
  then have "mset (MemberIds r) = mset (dec_Joined d @ dec_Kept d)" by (simp add: check_record_None)
  from arg_cong [OF this, of set_mset] show ?thesis by (simp only: set_mset_mset set_MemberIds set_append)
qed

text \<open>The index after a commit: who left is in no team, who joined or stayed is in this one, and
  nobody else is touched.\<close>

lemma commit_index:
  assumes "commitDecision db t old data d stamp = Inr (Inr (commit, db'))"
  shows "ie_TeamId (loadSQLMembership db' p) =
      (if p \<in> set (dec_Left d) then 0
       else if p \<in> set (dec_Joined d) \<union> set (dec_Kept d) then t
       else ie_TeamId (loadSQLMembership db p))"
    and "p \<in> set (dec_Joined d @ dec_Kept d @ dec_Left d) \<Longrightarrow> ie_TeamId (loadSQLMembership db p) \<in> {0, t}"
    and "p \<in> set (dec_Joined d) \<union> set (dec_Left d) \<Longrightarrow>
      ie_Epoch (loadSQLMembership db p) < ie_Epoch (loadSQLMembership db' p)
      \<and> stamp \<le> ie_Epoch (loadSQLMembership db' p)"
    and "p \<notin> set (dec_Joined d) \<union> set (dec_Left d) \<Longrightarrow> loadSQLMembership db' p = loadSQLMembership db p"
proof -
  let ?people = "dec_Joined d @ dec_Kept d @ dec_Left d"
  from assms obtain idx where v: "validateCommitSets t d = None" and keys: "map fst idx = sort ?people"
    and ok: "\<forall>(p, e) \<in> set idx. entry_ok db t (dec_Joined d) (dec_Left d) stamp p e"
    and db': "db' = write_commit db t old data d stamp idx"
    by (rule commitDecision_Inr)
  from v have "distinct ?people" by (simp add: validateCommitSets_None)
  with keys have d: "distinct (map fst idx)" by simp
  have in': "p \<in> set ?people \<longleftrightarrow> p \<in> fst ` set idx" 
    using arg_cong [OF keys, of set] by simp
  have cases: "(\<exists>e. entry_ok db t (dec_Joined d) (dec_Left d) stamp p e \<and> loadSQLMembership db' p = e
        \<and> p \<in> set ?people) \<or> (p \<notin> set ?people \<and> loadSQLMembership db' p = loadSQLMembership db p)"
  proof (cases "map_of idx p")
    case None
    then have "p \<notin> set ?people" unfolding in' by (simp add: map_of_eq_None_iff)
    with None d show ?thesis
      by (simp add: db' write_commit_def Let_def loadSQLMembership_def fold_put_index)
  next
    case (Some e)
    from map_of_SomeD [OF Some] have "(p, e) \<in> set idx" .
    then have "p \<in> set ?people" and "entry_ok db t (dec_Joined d) (dec_Left d) stamp p e"
      unfolding in' using ok by force+
    moreover from Some d have "loadSQLMembership db' p = e"
      by (simp add: db' write_commit_def Let_def loadSQLMembership_def fold_put_index)
    ultimately show ?thesis by blast
  qed
  from v have disj: "set (dec_Left d) \<inter> (set (dec_Joined d) \<union> set (dec_Kept d)) = {}"
    by (auto simp: validateCommitSets_None)
  show "ie_TeamId (loadSQLMembership db' p) =
      (if p \<in> set (dec_Left d) then 0
       else if p \<in> set (dec_Joined d) \<union> set (dec_Kept d) then t
       else ie_TeamId (loadSQLMembership db p))"
    using cases by (auto simp: entry_ok_def)
  show "p \<in> set ?people \<Longrightarrow> ie_TeamId (loadSQLMembership db p) \<in> {0, t}"
    using cases by (auto simp: entry_ok_def split: if_splits)
  show "p \<in> set (dec_Joined d) \<union> set (dec_Left d) \<Longrightarrow>
      ie_Epoch (loadSQLMembership db p) < ie_Epoch (loadSQLMembership db' p)
      \<and> stamp \<le> ie_Epoch (loadSQLMembership db' p)"
    using cases by (auto simp: entry_ok_def)
  show "p \<notin> set (dec_Joined d) \<union> set (dec_Left d) \<Longrightarrow> loadSQLMembership db' p = loadSQLMembership db p"
    using cases by (auto simp: entry_ok_def)
qed

lemma commit_live:
  assumes "commitDecision db t old data d stamp = Inr (Inr (commit, db'))"
    and "ad_record data = dec_Record d"
  shows "live db' t = dec_Record d" and "t' \<noteq> t \<Longrightarrow> live db' t' = live db t'"
proof -
  from assms(1) obtain idx where db': "db' = write_commit db t old data d stamp idx"
    by (rule commitDecision_Inr)
  show "live db' t = dec_Record d"
    using assms(2) by (simp add: live_def db' write_commit_def Let_def)
  show "t' \<noteq> t \<Longrightarrow> live db' t' = live db t'"
    by (simp add: live_def db' write_commit_def Let_def)
qed

text \<open>Committing a decision that names everybody of the old roster keeps the tables in step.\<close>

lemma commit_store_inv:
  assumes inv: "store_inv db" and commit: "commitDecision db t old data d stamp = Inr (Inr (commit, db'))"
    and data: "ad_record data = dec_Record d" and wf: "\<And>r. dec_Record d = Some r \<Longrightarrow> wf_team r"
    and all: "\<And>r. live db t = Some r \<Longrightarrow> memberSet r \<subseteq> set (dec_Joined d @ dec_Kept d @ dec_Left d)"
  shows "store_inv db'"
proof -
  let ?ppl = "set (dec_Joined d @ dec_Kept d @ dec_Left d)"
  from commit obtain idx where v: "validateCommitSets t d = None" and ver: "row_version old \<noteq> maxu64"
    and db': "db' = write_commit db t old data d stamp idx"
    by (rule commitDecision_Inr)
  from v have t: "t \<noteq> 0" and rec: "check_record t d = None"
    and disj: "set (dec_Left d) \<inter> (set (dec_Joined d) \<union> set (dec_Kept d)) = {}"
    by (auto simp: validateCommitSets_None)
  note idx' = commit_index(1) [OF commit] and from_t = commit_index(2) [OF commit]
  note lv = commit_live [OF commit data]
  have mem: "(\<exists>r. dec_Record d = Some r \<and> p \<in> memberSet r) \<longleftrightarrow> p \<in> set (dec_Joined d) \<union> set (dec_Kept d)" for p
    using memberSet_commit [OF rec] rec by (cases "dec_Record d") (auto simp: check_record_None)
  have "row_ok t' row" if "db_authority db' t' = Some row" for t' row
  proof (cases "t' = t")
    case True
    have "row_version old + 1 \<noteq> 0" using ver by (metis add.commute eq_neg_iff_add_eq_0)
    with True that wf rec data show ?thesis
      by (auto simp: db' write_commit_def Let_def row_ok_def check_record_None split: option.splits)
  next
    case False
    with that store_inv_row [OF inv] show ?thesis by (simp add: db' write_commit_def Let_def)
  qed
  moreover have "ie_TeamId (loadSQLMembership db' p) = t' \<longleftrightarrow> (\<exists>r. live db' t' = Some r \<and> p \<in> memberSet r)"
    if t': "t' \<noteq> 0" for p t'
  proof (cases "t' = t")
    case True
    have "p \<notin> ?ppl \<Longrightarrow> ie_TeamId (loadSQLMembership db p) \<noteq> t"
      using store_inv_index [OF inv t] all by blast
    with True t disj show ?thesis unfolding True lv(1) mem by (auto simp: idx')
  next
    case False
    have "p \<in> ?ppl \<Longrightarrow> ie_TeamId (loadSQLMembership db p) \<noteq> t'" using from_t [of p] False t' by auto
    with False t' store_inv_index [OF inv t', of p] show ?thesis
      by (auto simp: idx' lv(2) [OF False])
  qed
  ultimately show ?thesis by (simp add: store_inv_def)
qed

section \<open>The decisions that are committed\<close>

text \<open>A decision that may be committed over the record \<open>old\<close>: it writes a well-formed record and
  names everybody who was in the team.\<close>

definition complete_decision :: "team_record option \<Rightarrow> decision \<Rightarrow> bool" where
  "complete_decision old d \<longleftrightarrow>
     (\<forall>r. dec_Record d = Some r \<longrightarrow> wf_team r)
     \<and> (\<forall>r. old = Some r \<longrightarrow> memberSet r \<subseteq> set (dec_Joined d @ dec_Kept d @ dec_Left d))"

lemma finish_names_everybody:
  assumes "dec_Changed (finish c orig)" and "good_ctx t c"
  shows "memberSet orig \<subseteq> set (dec_Joined (finish c orig) @ dec_Kept (finish c orig) @ dec_Left (finish c orig))"
  using good_ctx_members(3) [OF assms(2)] by (auto simp: finish_fields [OF assms(1)] Let_def)

lemma Apply_complete:
  assumes "\<And>r. rec = Some r \<Longrightarrow> wf_team r" and "op_Caller op \<noteq> 0" and "dec_Changed (Apply op rec now s cfg)"
  shows "complete_decision rec (Apply op rec now s cfg)"
proof (cases rec)
  case None
  with assms(2,3) show ?thesis
    by (auto simp: complete_decision_def Apply_def applyCreate_def reject_def zero_decision_def
        wf_team_def memberSet_code Capacity_def split: if_splits)
next
  case (Some orig)
  with assms(1) have wf: "wf_team orig" by simp
  from assms(3) Some obtain step where op: "roster_operation step"
    and eq: "Apply op rec now s cfg = finish (step (started op orig now s cfg)) orig"
    by (metis Apply_changed)
  from assms(3) have ch: "dec_Changed (finish (step (started op orig now s cfg)) orig)" by (simp add: eq)
  from roster_operation.started_lawful [OF op wf assms(2), of now s cfg]
  have good: "good_ctx (tr_team_id orig) (step (started op orig now s cfg))" by (simp add: lawful_def)
  show ?thesis unfolding complete_decision_def eq
    using finish_names_everybody [OF ch good] finish_wf [OF good _ ch] Some by simp
qed

lemma LockMatch_complete:
  assumes "\<And>r. rec = Some r \<Longrightarrow> wf_team r" and "dec_Code (LockMatch rec caller token roster e now) = TeamOK"
  shows "complete_decision rec (LockMatch rec caller token roster e now)"
proof -
  have r: "dec_Code (reject x y) = x" for x y by (simp add: reject_def)
  from assms(2) have ok: "CheckMatchStart rec caller now = TeamOK"
    and eq: "LockMatch rec caller token roster e now = finish (lock_ctx (the rec) caller token roster e now) (the rec)"
    by (auto simp: LockMatch_eq r split: if_splits)
  from ok obtain orig where rec: "rec = Some orig" by (auto simp: CheckMatchStart_OK)
  with assms(1) have wf: "wf_team orig" by simp
  have ch: "dec_Changed (finish (lock_ctx orig caller token roster e now) orig)"
    by (simp add: finish_changed_iff)
  note good = lock_ctx_good [OF wf, of caller token roster e now]
  show ?thesis unfolding complete_decision_def eq
    using finish_names_everybody [OF ch good] finish_wf [OF good _ ch] rec by simp
qed

lemma wf_lock_fields:
  "wf_team r \<Longrightarrow> wf_team (clear_match_lock r)"
  "wf_team r \<Longrightarrow> wf_team (r\<lparr>tr_match_lock_expire_at_ms := e\<rparr>)"
  by (simp_all add: wf_team_def clear_match_lock_def memberSet_code)

lemma launch_complete: "complete_decision rec d \<Longrightarrow> complete_decision rec (launch_decision d queued exits)"
  by (auto simp: complete_decision_def launch_decision_def wf_lock_fields)

lemma nextSQLTeamData_record: "nextSQLTeamData old d op roles = Inr data \<Longrightarrow> ad_record data = dec_Record d"
  by (auto simp: nextSQLTeamData_def empty_data_def split: option.splits)

section \<open>The transition system\<close>

definition empty_db :: "'r team_db" where
  "empty_db = \<lparr>db_authority = (\<lambda>_. None), db_membership = (\<lambda>_. None), db_invite_index = [],
     db_application_index = [], db_receipt = (\<lambda>_. None), db_queue_cancels = []\<rparr>"

inductive store_step :: "(u64 \<Rightarrow> op_kind \<Rightarrow> mutate_result \<Rightarrow> 'r) \<Rightarrow> 'r team_db \<Rightarrow> 'r team_db \<Rightarrow> bool"
  for respond where
  mutate: "op_Caller op \<noteq> 0 \<Longrightarrow>
    mutateTx respond db bind op observed captured sessions cfg action stamp = Inr (Some (res, reply, db'))
    \<Longrightarrow> store_step respond db db'"
| launch: "createLaunchOnce db t version observed caller mode sz token roster ttl exits roles stamp
      = Inr (Some (Inr (commit, db'))) \<Longrightarrow> store_step respond db db'"
| end_match: "loadSQLTeam db t = Inr row \<Longrightarrow> row_state row = 1 \<Longrightarrow>
    endMatchOnce db t (row_version row) (row_data row) ended stamp = Inr (commit, db')
    \<Longrightarrow> store_step respond db db'"
| touch: "touchOnce db snap observed stamp = Inr (touched, db') \<Longrightarrow> store_step respond db db'"
| prune: "pruneInviteOnce db player t expiry stamp = Inr (changed, db') \<Longrightarrow> store_step respond db db'"
| expire: "expireIdleOnce db t observed stamp = Inr (result, db') \<Longrightarrow> store_step respond db db'"

inductive store_reachable :: "(u64 \<Rightarrow> op_kind \<Rightarrow> mutate_result \<Rightarrow> 'r) \<Rightarrow> 'r team_db \<Rightarrow> bool"
  for respond where
  init: "store_reachable respond empty_db"
| step: "store_reachable respond db \<Longrightarrow> store_step respond db db' \<Longrightarrow> store_reachable respond db'"

text \<open>What a step can do to the two tables of the invariant: nothing, or the commit of a complete
  decision.\<close>

definition same_roster :: "'r team_db \<Rightarrow> 'r team_db \<Rightarrow> bool" where
  "same_roster db db' \<longleftrightarrow> db_membership db' = db_membership db
     \<and> (\<forall>t. live db' t = live db t) \<and> (\<forall>t row. db_authority db' t = Some row \<longrightarrow> row_ok t row)"

definition commits :: "'r team_db \<Rightarrow> u64 \<Rightarrow> decision \<Rightarrow> u64 \<Rightarrow> 'r team_db \<Rightarrow> bool" where
  "commits db t d stamp db' \<longleftrightarrow> (\<exists>old data commit db1.
     commitDecision db t old data d stamp = Inr (Inr (commit, db1))
     \<and> complete_decision (live db t) d \<and> ad_record data = dec_Record d
     \<and> db_authority db' = db_authority db1 \<and> db_membership db' = db_membership db1)"

lemma commitsI:
  "commitDecision db t old data d stamp = Inr (Inr (commit, db')) \<Longrightarrow> complete_decision (live db t) d
     \<Longrightarrow> ad_record data = dec_Record d \<Longrightarrow> commits db t d stamp db'"
  unfolding commits_def by blast

lemma commits_tables:
  "commits db t d stamp db1 \<Longrightarrow> db_authority db' = db_authority db1 \<Longrightarrow> db_membership db' = db_membership db1
     \<Longrightarrow> commits db t d stamp db'"
  unfolding commits_def by metis

lemma same_roster_refl: "store_inv db \<Longrightarrow> same_roster db db"
  by (simp add: same_roster_def store_inv_def)

lemma same_roster_inv: "store_inv db \<Longrightarrow> same_roster db db' \<Longrightarrow> store_inv db'"
  by (simp add: same_roster_def store_inv_def loadSQLMembership_def)

lemma store_inv_cong:
  "db_authority db' = db_authority db \<Longrightarrow> db_membership db' = db_membership db \<Longrightarrow> store_inv db' = store_inv db"
  by (simp add: store_inv_def loadSQLMembership_def live_def)

lemma commits_inv: "store_inv db \<Longrightarrow> commits db t d stamp db' \<Longrightarrow> store_inv db'"
proof -
  assume inv: "store_inv db" and "commits db t d stamp db'"
  then obtain old data commit db1 where c: "commitDecision db t old data d stamp = Inr (Inr (commit, db1))"
    and d: "complete_decision (live db t) d" "ad_record data = dec_Record d"
    and db': "db_authority db' = db_authority db1" "db_membership db' = db_membership db1"
    unfolding commits_def by blast
  have "store_inv db1"
    by (rule commit_store_inv [OF inv c]) (use d in \<open>auto simp: complete_decision_def\<close>)
  then show ?thesis using store_inv_cong [OF db'] by simp
qed

lemma writeSQLAction_tables:
  "writeSQLAction db action r = Inr db' \<Longrightarrow> db_authority db' = db_authority db \<and> db_membership db' = db_membership db"
  by (auto simp: writeSQLAction_def split: option.splits if_splits)

lemma decide_and_commit_cases:
  assumes "decide_and_commit db bind op roles sessions cfg stamp index row = Inr (res, db')"
    and "store_inv db" and "loadSQLTeam db (bd_teamId bind) = Inr row" and "op_Caller op \<noteq> 0"
  shows "db' = db \<or> (\<exists>d. commits db (bd_teamId bind) d stamp db')"
proof (cases "mr_Outcome res = OutcomeCommitted")
  case False
  with assms(1) show ?thesis
    by (auto simp: decide_and_commit_def Let_def result_of_def split: if_splits sum.splits prod.splits)
next
  case True
  let ?op = "op\<lparr>op_CallerTeamId := ie_TeamId index\<rparr>"
  let ?d = "Apply ?op (ad_record (row_data row)) stamp sessions cfg"
  from True assms(1) obtain data commit where ch: "dec_Changed ?d"
    and next': "nextSQLTeamData (row_data row) ?d ?op roles = Inr data"
    and c: "commitDecision db (bd_teamId bind) row data ?d stamp = Inr (Inr (commit, db'))"
    by (auto simp: decide_and_commit_def Let_def result_of_def split: if_splits sum.splits prod.splits)
  note rec = loadSQLTeam_inv(1) [OF assms(2,3)]
  have "complete_decision (ad_record (row_data row)) ?d"
    by (rule Apply_complete) (use live_wf [OF assms(2)] rec assms(4) ch in auto)
  with commitsI [OF c _ nextSQLTeamData_record [OF next']] rec show ?thesis by auto
qed

lemma mutate_cases:
  assumes "mutateTx respond db bind op observed captured sessions cfg action stamp = Inr (Some (res, reply, db'))"
    and "store_inv db" and "op_Caller op \<noteq> 0"
  shows "same_roster db db' \<or> (\<exists>t d stamp. commits db t d stamp db')"
proof (cases "db' = db")
  case True
  then show ?thesis using same_roster_refl [OF assms(2)] by simp
next
  case False
  with assms(1) obtain roles row index res1 db1 r where
    load: "loadSQLTeam db (bd_teamId bind) = Inr row"
    and dc: "decide_and_commit db bind op roles sessions cfg stamp index row = Inr (res1, db1)"
    and w: "writeSQLAction db1 action r = Inr db'"
    by (auto simp: mutateTx_def Let_def split: sum.splits option.splits if_splits prod.splits)
  note tabs = writeSQLAction_tables [OF w]
  from decide_and_commit_cases [OF dc assms(2) load assms(3)] show ?thesis
  proof
    assume "db1 = db"
    with tabs store_inv_cong [of db' db] assms(2) show ?thesis
      by (auto simp: same_roster_def store_inv_def live_def)
  next
    assume "\<exists>d. commits db (bd_teamId bind) d stamp db1"
    with tabs show ?thesis using commits_tables by blast
  qed
qed

lemma launch_cases:
  assumes "createLaunchOnce db t version observed caller mode sz token roster ttl exits roles stamp
      = Inr (Some (Inr (commit, db')))" and "store_inv db"
  shows "\<exists>d. commits db t d stamp db'"
proof -
  from assms(1) obtain row d q data where load: "loadSQLTeam db t = Inr row"
    and d: "d = LockMatch (ad_record (row_data row)) caller token roster (stamp + ucast ttl * 1000) stamp"
    and ok: "dec_Code d = TeamOK"
    and n: "nextSQLTeamData (row_data row) (launch_decision d q exits) (RefreshOp caller) roles = Inr data"
    and c: "commitDecision db t row data (launch_decision d q exits) stamp = Inr (Inr (commit, db'))"
    by (auto simp: createLaunchOnce_def Let_def split: sum.splits if_splits)
  note rec = loadSQLTeam_inv(1) [OF assms(2) load]
  have "complete_decision (ad_record (row_data row)) d"
    unfolding d by (rule LockMatch_complete) (use live_wf [OF assms(2)] rec ok d in auto)
  then have "complete_decision (live db t) (launch_decision d q exits)"
    by (simp add: launch_complete rec)
  from commitsI [OF c this nextSQLTeamData_record [OF n]] show ?thesis by blast
qed

lemma end_match_cases:
  assumes "loadSQLTeam db t = Inr row"
    and "endMatchOnce db t (row_version row) (row_data row) ended stamp = Inr (commit, db')" and "store_inv db"
  shows "\<exists>d. commits db t d stamp db'"
proof -
  let ?row = "row\<lparr>row_idleExpires := 0, row_state := 1\<rparr>"
  from assms(2) obtain r old where r: "ad_record (row_data row) = Some r"
    and c: "commitDecision db t old (row_data row\<lparr>ad_record := Some (clear_match_lock r)\<rparr>)
        (end_match_decision (clear_match_lock r) ended) stamp = Inr (Inr (commit, db'))"
    by (auto simp: endMatchOnce_def Let_def split: option.splits sum.splits prod.splits)
  from r loadSQLTeam_inv(1) [OF assms(3,1)] have l: "live db t = Some r" by simp
  with live_wf [OF assms(3)] have "wf_team r" by blast
  then have "complete_decision (live db t) (end_match_decision (clear_match_lock r) ended)"
    by (simp add: complete_decision_def end_match_decision_def l wf_lock_fields)
       (auto simp: clear_match_lock_def memberSet_code)
  from commitsI [OF c this] show ?thesis by (auto simp: end_match_decision_def)
qed

lemma touch_cases:
  assumes "touchOnce db snap observed stamp = Inr (touched, db')" and "store_inv db"
  shows "same_roster db db'"
proof (cases "db' = db")
  case False
  with assms(1) obtain sn where snap: "snap = Some sn" by (cases snap) (simp_all add: touchOnce_def)
  with False assms(1) obtain row where load: "loadSQLTeam db (sn_TeamId sn) = Inr row" and st: "row_state row = 1"
    and db': "db' = db\<lparr>db_authority := (db_authority db)(sn_TeamId sn \<mapsto>
          row\<lparr>row_idleExpires := stamp + TeamIdleTTLSeconds * 1000\<rparr>)\<rparr>"
    by (cases "loadSQLTeam db (sn_TeamId sn)") (auto simp: touchOnce_def split: if_splits)
  from load st have a: "db_authority db (sn_TeamId sn) = Some row"
    by (auto simp: loadSQLTeam_def split: option.splits if_splits)
  with store_inv_row [OF assms(2)] show ?thesis
    by (auto simp: same_roster_def db' live_def row_ok_def)
qed (use same_roster_refl [OF assms(2)] in simp)

lemma prune_cases:
  assumes "pruneInviteOnce db player t expiry stamp = Inr (changed, db')" and "store_inv db"
  shows "same_roster db db'"
  using assms same_roster_refl [OF assms(2)]
  by (auto simp: pruneInviteOnce_def Let_def same_roster_def live_def split: sum.splits if_splits)

lemma expire_cases:
  assumes "expireIdleOnce db t observed stamp = Inr (result, db')" and "store_inv db"
  shows "same_roster db db' \<or> (\<exists>d. commits db t d stamp db')"
proof (cases "db' = db")
  case False
  with assms(1) obtain row r commit where load: "loadSQLTeam db t = Inr row"
    and r: "ad_record (row_data row) = Some r"
    and c: "commitDecision db t row empty_data (idle_decision r stamp) stamp = Inr (Inr (commit, db'))"
    by (auto simp: expireIdleOnce_def split: sum.splits option.splits if_splits prod.splits)
  from r loadSQLTeam_inv(1) [OF assms(2) load] have "live db t = Some r" by simp
  then have "complete_decision (live db t) (idle_decision r stamp)"
    by (simp add: complete_decision_def idle_decision_def zero_decision_def)
  from commitsI [OF c this] show ?thesis by (auto simp: idle_decision_def zero_decision_def empty_data_def)
qed (use same_roster_refl [OF assms(2)] in simp)

lemma store_step_cases:
  assumes "store_step respond db db'" and "store_inv db"
  shows "same_roster db db' \<or> (\<exists>t d stamp. commits db t d stamp db')"
  using assms(1)
proof cases
  case mutate
  from mutate_cases [OF mutate(2) assms(2) mutate(1)] show ?thesis .
next
  case launch
  from launch_cases [OF launch assms(2)] show ?thesis by blast
next
  case end_match
  from end_match_cases [OF end_match(1,3) assms(2)] show ?thesis by blast
next
  case touch
  from touch_cases [OF touch assms(2)] show ?thesis by blast
next
  case prune
  from prune_cases [OF prune assms(2)] show ?thesis by blast
next
  case expire
  from expire_cases [OF expire assms(2)] show ?thesis by blast
qed

lemma store_reachable_inv: "store_reachable respond db \<Longrightarrow> store_inv db"
proof (induction rule: store_reachable.induct)
  case init
  show ?case by (simp add: store_inv_def empty_db_def live_def loadSQLMembership_def)
next
  case (step db db')
  then show ?case using store_step_cases same_roster_inv commits_inv by blast
qed

end
