(* ===== verification/TeamStoreProps.thy ===== *)
theory TeamStoreProps
  imports TeamStoreInv
begin

text \<open>
  The properties of the team store: one team per player, consistent reads, growing epochs, at most
  one execution per request id, and the invitation limit.
\<close>

section \<open>Properties of the store\<close>

text \<open>C2: in every state the store can reach, whatever the interleaving of mutations, launches,
  match ends and maintenance, every live team is well-formed and lists exactly the players whose
  membership index points to it; so nobody is ever in two teams.\<close>

theorem store_one_team:
  assumes "store_reachable respond db" and "live db t = Some r"
  shows "wf_team r \<and> tr_team_id r = t
    \<and> (\<forall>p. p \<in> memberSet r \<longleftrightarrow> ie_TeamId (loadSQLMembership db p) = t)
    \<and> (\<forall>p t' r'. p \<in> memberSet r \<and> live db t' = Some r' \<and> p \<in> memberSet r' \<longrightarrow> t' = t)"
proof -
  note inv = store_reachable_inv [OF assms(1)]
  from live_wf [OF inv assms(2)] have wf: "wf_team r" "tr_team_id r = t" "t \<noteq> 0" by auto
  have "p \<in> memberSet r \<longleftrightarrow> ie_TeamId (loadSQLMembership db p) = t" for p
    using store_inv_index [OF inv wf(3)] assms(2) by simp
  moreover have "ie_TeamId (loadSQLMembership db p) = t'" if "live db t' = Some r'" "p \<in> memberSet r'" for p t' r'
    using store_inv_index [OF inv] live_wf [OF inv that(1)] that by blast
  ultimately show ?thesis using wf by metis
qed

text \<open>the integrity checks of the readers never fire on a reachable state: \<open>readMembers\<close>
  always answers, with the index entry of every member of a live team, and a read of somebody's
  team never reports that index and record disagree.\<close>

theorem readers_consistent:
  assumes "store_reachable respond db"
  shows "(\<exists>v idx. readMembers db t = Inr (v, live db t, idx)
        \<and> map fst idx = (case live db t of None \<Rightarrow> [] | Some r \<Rightarrow> MemberIds r)
        \<and> (\<forall>(p, e) \<in> set idx. ie_TeamId e = t))
    \<and> (\<exists>sn. readOnce db player t None stamp = Inr sn \<and> sn_Record sn = live db t)"
proof -
  note inv = store_reachable_inv [OF assms]
  obtain row where load: "loadSQLTeam db t = Inr row" by (rule loadSQLTeam_ok [OF inv])
  note row = loadSQLTeam_inv [OF inv load]
  show ?thesis
  proof (cases "live db t")
    case None
    with row have st: "row_state row \<noteq> 1" by simp
    have "ie_TeamId (loadSQLMembership db player) = t \<Longrightarrow> t \<noteq> 0 \<Longrightarrow> False"
      using store_inv_index [OF inv] None by simp
    with None st load show ?thesis
      by (auto simp: readMembers_def readOnce_def Let_def sqlTeamSnapshot_def)
  next
    case (Some r)
    with live_wf [OF inv] have t: "t \<noteq> 0" by blast
    have mem: "p \<in> memberSet r \<longleftrightarrow> ie_TeamId (loadSQLMembership db p) = t" for p
      using store_inv_index [OF inv t] Some by simp
    then have "\<not> list_ex (\<lambda>p. ie_TeamId (loadSQLMembership db p) \<noteq> t) (MemberIds r)"
      by (simp add: list_ex_iff)
    with Some row load mem show ?thesis
      by (auto simp: readMembers_def readOnce_def Let_def sqlTeamSnapshot_def comp_def)
  qed
qed

text \<open>a membership epoch never falls, and grows strictly whenever a player's team changes, so an
  old epoch can never be taken for a newer membership.\<close>

theorem epochs_grow:
  assumes "store_inv db" and "store_step respond db db'"
  shows "ie_Epoch (loadSQLMembership db p) \<le> ie_Epoch (loadSQLMembership db' p)
    \<and> (ie_TeamId (loadSQLMembership db p) \<noteq> ie_TeamId (loadSQLMembership db' p)
       \<longrightarrow> ie_Epoch (loadSQLMembership db p) < ie_Epoch (loadSQLMembership db' p))"
  using store_step_cases [OF assms(2,1)]
proof
  assume "same_roster db db'"
  then show ?thesis by (simp add: same_roster_def loadSQLMembership_def)
next
  assume "\<exists>t d stamp. commits db t d stamp db'"
  then obtain t old data d stamp commit db1 where
    c: "commitDecision db t old data d stamp = Inr (Inr (commit, db1))"
    and m: "db_membership db' = db_membership db1" by (auto simp: commits_def)
  from m have "loadSQLMembership db' p = loadSQLMembership db1 p" by (simp add: loadSQLMembership_def)
  with commit_index(3,4) [OF c, of p] show ?thesis
    by (cases "p \<in> set (dec_Joined d) \<union> set (dec_Left d)") auto
qed


section \<open>The invitation limit\<close>

lemma filter_other_team:
  "filter (\<lambda>((i, t'), e). P i e \<and> t' \<noteq> t) (AList.update (q, t) v xs) = filter (\<lambda>((i, t'), e). P i e \<and> t' \<noteq> t) xs"
  "filter (\<lambda>((i, t'), e). P i e \<and> t' \<noteq> t) (AList.delete (q, t) xs) = filter (\<lambda>((i, t'), e). P i e \<and> t' \<noteq> t) xs"
  by (induction xs) (auto simp: AList.delete_eq split: if_splits)

lemma fold_other_team:
  "filter (\<lambda>((i, t'), e). P i e \<and> t' \<noteq> t) (fold (\<lambda>a. AList.update (f a, t) (g a)) as xs)
     = filter (\<lambda>((i, t'), e). P i e \<and> t' \<noteq> t) xs"
  "filter (\<lambda>((i, t'), e). P i e \<and> t' \<noteq> t) (fold (\<lambda>p. AList.delete (p, t)) ps xs)
     = filter (\<lambda>((i, t'), e). P i e \<and> t' \<noteq> t) xs"
proof -
  show "filter (\<lambda>((i, t'), e). P i e \<and> t' \<noteq> t) (fold (\<lambda>a. AList.update (f a, t) (g a)) as xs)
     = filter (\<lambda>((i, t'), e). P i e \<and> t' \<noteq> t) xs"
    by (induction as arbitrary: xs) (simp_all add: filter_other_team)
  show "filter (\<lambda>((i, t'), e). P i e \<and> t' \<noteq> t) (fold (\<lambda>p. AList.delete (p, t)) ps xs)
     = filter (\<lambda>((i, t'), e). P i e \<and> t' \<noteq> t) xs"
    by (induction ps arbitrary: xs) (simp_all add: filter_other_team)
qed

lemma distinct_fold_update:
  "distinct (map fst xs) \<Longrightarrow> distinct (map fst (fold (\<lambda>a. AList.update (f a, t) (g a)) as xs))"
  by (induction as arbitrary: xs) (simp_all add: distinct_update)

lemma distinct_fold_delete:
  "distinct (map fst xs) \<Longrightarrow> distinct (map fst (fold (\<lambda>p. AList.delete (p, t)) ps xs))"
  by (induction ps arbitrary: xs) (simp_all add: distinct_delete)

lemma at_most_one_key:
  "distinct (map fst xs) \<Longrightarrow> length (filter (\<lambda>(k, e). k = k0 \<and> P e) xs) \<le> 1"
proof (induction xs)
  case (Cons x xs)
  have "filter (\<lambda>(k, e). k = k0 \<and> P e) xs = []" if "k0 \<notin> fst ` set xs"
    using that by (force simp: filter_empty_conv)
  with Cons show ?case by (cases x) auto
qed simp


lemma length_filter_split:
  "length (filter P xs) = length (filter (\<lambda>x. P x \<and> Q x) xs) + length (filter (\<lambda>x. P x \<and> \<not> Q x) xs)"
  by (induction xs) auto

text \<open>a player never collects more than the limit of open invitations: after a commit that
  invites him, at most \<open>MaxPendingInvitesPerInvitee\<close> rows of the invitation index are open for him.\<close>

theorem invite_limit_holds:
  assumes "commitDecision db t old data d stamp = Inr (Inr (commit, db'))"
    and "distinct (map fst (db_invite_index db))" and "a \<in> set (dec_InvitesAdded d)"
  shows "length (filter (\<lambda>((i, t'), e). i = ia_InviteeId a \<and> e > stamp) (db_invite_index db'))
           \<le> MaxPendingInvitesPerInvitee
    \<and> distinct (map fst (db_invite_index db'))"
proof -
  let ?p = "ia_InviteeId a"
  let ?P = "\<lambda>i e. i = ?p \<and> e > stamp"
  from assms(1) obtain idx where db': "db' = write_commit db t old data d stamp idx"
    and lim: "\<forall>a \<in> set (dec_InvitesAdded d). pending_invites db (ia_InviteeId a) stamp t < MaxPendingInvitesPerInvitee"
    by (rule commitDecision_Inr)
  have ix: "db_invite_index db' =
      fold (\<lambda>a. AList.update (ia_InviteeId a, t) (ia_ExpireAtMs a)) (dec_InvitesAdded d)
        (fold (\<lambda>p. AList.delete (p, t)) (dec_InvitesRemoved d) (db_invite_index db))"
    by (simp add: db' write_commit_def Let_def)
  have dist: "distinct (map fst (db_invite_index db'))"
    unfolding ix by (intro distinct_fold_update distinct_fold_delete assms(2))
  have "filter (\<lambda>((i, t'), e). ?P i e \<and> t' \<noteq> t) (db_invite_index db') =
      filter (\<lambda>((i, t'), e). ?P i e \<and> t' \<noteq> t) (db_invite_index db)"
    unfolding ix fold_other_team ..
  then have others: "length (filter (\<lambda>((i, t'), e). ?P i e \<and> t' \<noteq> t) (db_invite_index db')) < MaxPendingInvitesPerInvitee"
    using lim assms(3) by (simp add: pending_invites_def)
  define A :: "(u64 \<times> u64) \<times> u64 \<Rightarrow> bool" where "A = (\<lambda>((i, t'), e). ?P i e)"
  define B :: "(u64 \<times> u64) \<times> u64 \<Rightarrow> bool" where "B = (\<lambda>((i, t'), e). t' \<noteq> t)"
  have eq1: "filter (\<lambda>x. A x \<and> B x) (db_invite_index db')
      = filter (\<lambda>((i, t'), e). ?P i e \<and> t' \<noteq> t) (db_invite_index db')"
    by (rule filter_cong) (auto simp: A_def B_def)
  have eq2: "filter (\<lambda>x. A x \<and> \<not> B x) (db_invite_index db')
      = filter (\<lambda>(k, e). k = (?p, t) \<and> e > stamp) (db_invite_index db')"
    by (rule filter_cong) (auto simp: A_def B_def)
  have "length (filter A (db_invite_index db')) =
      length (filter (\<lambda>((i, t'), e). ?P i e \<and> t' \<noteq> t) (db_invite_index db'))
      + length (filter (\<lambda>(k, e). k = (?p, t) \<and> e > stamp) (db_invite_index db'))"
    by (simp only: length_filter_split [of A _ B] eq1 eq2)
  also have "\<dots> \<le> MaxPendingInvitesPerInvitee"
    using others at_most_one_key [OF dist, of "(?p, t)" "\<lambda>e. e > stamp"] by linarith
  finally show ?thesis using dist by (simp add: A_def)
qed

section \<open>Witnesses\<close>

definition sample_respond :: "u64 \<Rightarrow> op_kind \<Rightarrow> mutate_result \<Rightarrow> u64" where
  "sample_respond p k r = p"

definition sample_action :: sql_action where
  "sample_action = \<lparr>act_actor = \<lparr>or_player_id = 10, or_owner_account = ''a'', or_owner_revision = 1\<rparr>,
     act_high = 1, act_low = 2, act_method = 1, act_payload = [9]\<rparr>"

definition created :: "store_error + (mutate_result \<times> u64 option \<times> u64 team_db) option" where
  "created = mutateTx sample_respond empty_db \<lparr>bd_mode = BindCreate, bd_playerId = 10, bd_teamId = 7\<rparr>
     (CreateOp 10 7 1) \<lparr>row_version = 0, row_idleExpires = 0, row_state = 0, row_data = empty_data\<rparr>
     (Inr [Some (act_actor sample_action)]) (\<lambda>_. SessionOnline) \<lparr>cfg_AllowCrossZone = True, cfg_Zones = None\<rparr>
     (Some sample_action) 100"

definition created_db :: "u64 team_db" where
  "created_db = (case created of Inr (Some (_, _, db)) \<Rightarrow> db | _ \<Rightarrow> empty_db)"

lemma result_shape:
  "(case x of Inr (Some (_, Some r', _)) \<Rightarrow> r' = r | _ \<Rightarrow> False) \<Longrightarrow>
     \<exists>res. x = Inr (Some (res, Some r, case x of Inr (Some (_, _, db)) \<Rightarrow> db | _ \<Rightarrow> d))"
  by (cases x) (auto split: option.splits prod.splits)

lemma created_ok: "\<exists>res. created = Inr (Some (res, Some 10, created_db))"
  unfolding created_db_def by (rule result_shape) code_simp

lemma created_reachable: "store_reachable sample_respond created_db"
proof -
  from created_ok obtain res where "created = Inr (Some (res, Some 10, created_db))" ..
  then have "store_step sample_respond empty_db created_db"
    unfolding created_def by (rule store_step.mutate [rotated]) code_simp
  with store_reachable.init show ?thesis by (rule store_reachable.step)
qed

theorem store_one_team_witness:
  "live created_db 7 \<noteq> None \<and> tr_team_id (the (live created_db 7)) = 7
   \<and> ie_TeamId (loadSQLMembership created_db 10) = 7"
proof -
  have l: "live created_db 7 \<noteq> None" and m: "10 \<in> memberSet (the (live created_db 7))" by code_simp+
  from l have "live created_db 7 = Some (the (live created_db 7))" by simp
  from store_one_team [OF created_reachable this] l m show ?thesis by blast
qed

theorem readers_consistent_witness:
  "\<exists>v idx. readMembers created_db 7 = Inr (v, live created_db 7, idx)"
  using readers_consistent [OF created_reachable, of 7 10 200] by blast

theorem epochs_grow_witness:
  "ie_Epoch (loadSQLMembership (empty_db :: u64 team_db) 10) < ie_Epoch (loadSQLMembership created_db 10)"
proof -
  have inv: "store_inv (empty_db :: u64 team_db)" by (rule store_reachable_inv [OF store_reachable.init])
  from created_ok obtain res where "created = Inr (Some (res, Some 10, created_db))" ..
  then have step: "store_step sample_respond empty_db created_db"
    unfolding created_def by (rule store_step.mutate [rotated]) code_simp
  have "ie_TeamId (loadSQLMembership (empty_db :: u64 team_db) 10) \<noteq> ie_TeamId (loadSQLMembership created_db 10)"
    by code_simp
  with epochs_grow [OF inv step, of 10] show ?thesis by blast
qed


theorem invite_limit_holds_witness:
  "length (filter (\<lambda>((i, t'), e). i = 11 \<and> e > 50)
     (db_invite_index (write_commit (empty_db :: u64 team_db) 7
       \<lparr>row_version = 1, row_idleExpires = 0, row_state = 2, row_data = empty_data\<rparr> empty_data
       (zero_decision\<lparr>dec_InvitesAdded := [\<lparr>ia_InviteeId = 11, ia_ExpireAtMs = 90\<rparr>]\<rparr>) 50 [])))
   \<le> MaxPendingInvitesPerInvitee"
proof -
  let ?d = "zero_decision\<lparr>dec_InvitesAdded := [\<lparr>ia_InviteeId = 11, ia_ExpireAtMs = 90\<rparr>]\<rparr>"
  let ?row = "\<lparr>row_version = 1, row_idleExpires = 0, row_state = 2, row_data = empty_data\<rparr>"
  have "validateCommitSets 7 ?d = None" by code_simp
  then have c: "commitDecision (empty_db :: u64 team_db) 7 ?row empty_data ?d 50 =
      Inr (Inr (\<lparr>cr_TeamId = 7, cr_Version = 2, cr_Decision = ?d, cr_Indexes = [], cr_NowMs = 50\<rparr>,
        write_commit empty_db 7 ?row empty_data ?d 50 []))"
    by (simp add: commitDecision_def zero_decision_def pending_invites_def empty_db_def
        MaxPendingInvitesPerInvitee_def)
  have "distinct (map fst (db_invite_index (empty_db :: u64 team_db)))" by (simp add: empty_db_def)
  from invite_limit_holds [OF c this, of "\<lparr>ia_InviteeId = 11, ia_ExpireAtMs = 90\<rparr>"] show ?thesis
    by simp
qed

end
