(* ===== verification/AssetLedger.thy ===== *)
theory AssetLedger
  imports Prelude
begin

unbundle bit_operations_syntax

text \<open>
  The asset-operation ledger a player carries: the read-only classification of
  \<^verbatim>\<open>src/go/shared/assetop/classify.go\<close> and, as the other end of the same bytes, the single writer
  \<open>RecordAssetOpOutcome\<close> of \<^verbatim>\<open>asset_op_ledger.cpp\<close> with its sliding bitmaps.  A nil ledger pointer is
  \<open>None\<close>; bitmaps are lists of 64-bit words.
\<close>

section \<open>Data\<close>

datatype asset_stream =
    STREAM_UNSPECIFIED | STREAM_GUILD_DEBIT | STREAM_GUILD_CREDIT | STREAM_TRADE_DEBIT
  | STREAM_TRADE_CREDIT | STREAM_SYSTEM_CREDIT | STREAM_GM_RECALL | STREAM_OTHER

datatype asset_outcome =
  OUTCOME_UNKNOWN | OUTCOME_APPLIED | OUTCOME_REJECTED | OUTCOME_RETRY | OUTCOME_NOT_HERE | OUTCOME_OTHER

type_synonym bytes = "8 word list"

record recall_line =
  rl_config_id :: u32
  rl_currency_type :: u32
  rl_requested :: u64
  rl_taken :: u64
  rl_debt :: u64
  rl_shortfall :: u64

record asset_snapshot =
  as_items :: "(u64 \<times> bytes) list"
  as_pet :: "(u64 \<times> bytes) option"
  as_recall_lines :: "recall_line list"

record asset_receipt =
  rp_seq :: u64
  rp_correlation_id :: u64
  rp_request_digest :: bytes
  rp_snapshot :: "asset_snapshot option"

record stream_ledger =
  sl_stream :: asset_stream
  sl_epoch :: u64
  sl_watermark :: u64
  sl_max_seq :: u64
  sl_seen :: "u64 list"
  sl_applied :: "u64 list"
  sl_rejections :: "(u64 \<times> u32) list"
  sl_partial_seqs :: "u64 list"
  sl_receipts :: "asset_receipt list"

type_synonym player_ledger = "stream_ledger list"

definition WindowBits :: u64 where "WindowBits = 1024"
definition WindowWords :: nat where "WindowWords = 16"
definition MaxSeqJump :: u64 where "MaxSeqJump = 1024"

datatype seq_state =
    SeqInvalid | SeqStaleEpoch | SeqBehindWindow | SeqUnseen | SeqAheadOfWindow | SeqJumpTooFar
  | SeqApplied | SeqRejected

section \<open>Classification\<close>

definition FindStream :: "player_ledger option \<Rightarrow> asset_stream \<Rightarrow> stream_ledger option" where
  "FindStream l s = (case l of None \<Rightarrow> None | Some streams \<Rightarrow> find (\<lambda>st. sl_stream st = s) streams)"

definition bitAt :: "u64 list \<Rightarrow> u64 \<Rightarrow> bool" where
  "bitAt words i =
     (let word = i div 64 in
      if word \<ge> of_nat (length words) then False
      else (words ! unat word) AND push_bit (unat (i mod 64)) 1 \<noteq> 0)"

definition ClassifySeq :: "stream_ledger option \<Rightarrow> u64 \<Rightarrow> u64 \<Rightarrow> seq_state" where
  "ClassifySeq ledger epoch seq =
     (if seq = 0 \<or> epoch = 0 then SeqInvalid
      else (let ledgerEpoch = (case ledger of None \<Rightarrow> 0 | Some l \<Rightarrow> sl_epoch l) in
        if epoch < ledgerEpoch then SeqStaleEpoch
        else if epoch > ledgerEpoch then (if seq \<le> WindowBits then SeqUnseen else SeqJumpTooFar)
        else (case ledger of
            None \<Rightarrow> SeqInvalid
          | Some l \<Rightarrow>
              (if length (sl_seen l) \<noteq> WindowWords \<or> length (sl_applied l) \<noteq> WindowWords then SeqInvalid
               else if sl_watermark l > maxu64 - WindowBits then SeqInvalid
               else if seq \<le> sl_watermark l then SeqBehindWindow
               else if sl_max_seq l \<le> maxu64 - MaxSeqJump \<and> seq > sl_max_seq l + MaxSeqJump
               then SeqJumpTooFar
               else if seq > sl_watermark l + WindowBits then SeqAheadOfWindow
               else (let i = seq - sl_watermark l - 1 in
                 if \<not> bitAt (sl_seen l) i then SeqUnseen
                 else if bitAt (sl_applied l) i then SeqApplied
                 else SeqRejected)))))"

definition rejectionReason :: "stream_ledger option \<Rightarrow> u64 \<Rightarrow> u32" where
  "rejectionReason ledger seq =
     (case ledger of None \<Rightarrow> 0
      | Some l \<Rightarrow> (case find (\<lambda>r. fst r = seq) (sl_rejections l) of None \<Rightarrow> 0 | Some r \<Rightarrow> snd r))"

definition isPartialSeq :: "stream_ledger option \<Rightarrow> u64 \<Rightarrow> bool" where
  "isPartialSeq ledger seq = (case ledger of None \<Rightarrow> False | Some l \<Rightarrow> seq \<in> set (sl_partial_seqs l))"

text \<open>The tip code of a partial grant, \<^verbatim>\<open>kAssetPartialApplied\<close>.\<close>

definition ReasonPartialApplied :: u32 where "ReasonPartialApplied = 27007"

definition ClassifyPersisted ::
  "player_ledger option \<Rightarrow> asset_stream \<Rightarrow> u64 \<Rightarrow> u64 \<Rightarrow> asset_outcome \<times> bool \<times> u32" where
  "ClassifyPersisted l s epoch seq =
     (let stream = FindStream l s in
      case ClassifySeq stream epoch seq of
        SeqApplied \<Rightarrow>
          (if isPartialSeq stream seq then (OUTCOME_APPLIED, True, ReasonPartialApplied)
           else (OUTCOME_APPLIED, False, 0))
      | SeqRejected \<Rightarrow> (OUTCOME_REJECTED, False, rejectionReason stream seq)
      | _ \<Rightarrow> (OUTCOME_UNKNOWN, False, 0))"

section \<open>The single writer\<close>

datatype record_kind = KindApplied | KindAppliedPartial | KindRejected

definition kAssetOpMaxRejections :: nat where "kAssetOpMaxRejections = 64"
definition kAssetOpMaxPartialSeqs :: nat where "kAssetOpMaxPartialSeqs = 1024"

definition readWord :: "u64 list \<Rightarrow> nat \<Rightarrow> u64" where
  "readWord words w = (if w < length words then words ! w else 0)"

definition setBit :: "u64 list \<Rightarrow> nat \<Rightarrow> u64 list" where
  "setBit words i =
     (let w = i div 64 in
      if w < length words then words[w := readWord words w OR push_bit (i mod 64) 1] else words)"

definition EnsureWords :: "u64 list \<Rightarrow> u64 list" where
  "EnsureWords words = words @ replicate (WindowWords - length words) 0"

definition shiftGroupRight :: "u64 list \<Rightarrow> nat \<Rightarrow> u64 list" where
  "shiftGroupRight words shift =
     (let wordShift = shift div 64; bitShift = shift mod 64 in
      map (\<lambda>word.
        (let src = word + wordShift;
             low = drop_bit bitShift (if src < WindowWords then readWord words src else 0) in
         if bitShift \<noteq> 0 \<and> src + 1 < WindowWords
         then low OR push_bit (64 - bitShift) (readWord words (src + 1)) else low)) [0..<WindowWords])"

definition insertAscending :: "('a \<Rightarrow> u64) \<Rightarrow> nat \<Rightarrow> 'a \<Rightarrow> 'a list \<Rightarrow> 'a list" where
  "insertAscending key limit x xs =
     (let ys = takeWhile (\<lambda>y. \<not> key y > key x) xs @ x # dropWhile (\<lambda>y. \<not> key y > key x) xs in
      drop (length ys - limit) ys)"

definition pruneBelow :: "u64 \<Rightarrow> stream_ledger \<Rightarrow> stream_ledger" where
  "pruneBelow watermark l =
     l\<lparr>sl_rejections := dropWhile (\<lambda>r. fst r \<le> watermark) (sl_rejections l),
       sl_partial_seqs := dropWhile (\<lambda>q. q \<le> watermark) (sl_partial_seqs l),
       sl_receipts := dropWhile (\<lambda>r. rp_seq r \<le> watermark) (sl_receipts l)\<rparr>"

definition ResetStreamForEpoch :: "stream_ledger \<Rightarrow> u64 \<Rightarrow> stream_ledger" where
  "ResetStreamForEpoch l epoch =
     \<lparr>sl_stream = sl_stream l, sl_epoch = epoch, sl_watermark = 0, sl_max_seq = 0,
      sl_seen = EnsureWords [], sl_applied = EnsureWords [], sl_rejections = [],
      sl_partial_seqs = [], sl_receipts = []\<rparr>"

definition slideWindow :: "stream_ledger \<Rightarrow> u64 \<Rightarrow> stream_ledger" where
  "slideWindow l seq =
     (if seq > sl_watermark l + WindowBits then
        (let shift = seq - (sl_watermark l + WindowBits);
             l1 = (if shift \<ge> WindowBits
                   then l\<lparr>sl_seen := replicate WindowWords 0, sl_applied := replicate WindowWords 0\<rparr>
                   else l\<lparr>sl_seen := shiftGroupRight (sl_seen l) (unat shift),
                          sl_applied := shiftGroupRight (sl_applied l) (unat shift)\<rparr>) in
         pruneBelow (sl_watermark l + shift) (l1\<lparr>sl_watermark := sl_watermark l + shift\<rparr>))
      else l)"

definition markSeq :: "stream_ledger \<Rightarrow> u64 \<Rightarrow> record_kind \<Rightarrow> u32 \<Rightarrow> stream_ledger" where
  "markSeq l seq kind reason =
     (let index = unat (seq - sl_watermark l - 1);
          l1 = l\<lparr>sl_seen := setBit (sl_seen l) index\<rparr>;
          l2 = (if kind \<noteq> KindRejected then l1\<lparr>sl_applied := setBit (sl_applied l1) index\<rparr> else l1);
          l3 = (if kind = KindAppliedPartial
                then l2\<lparr>sl_partial_seqs :=
                       insertAscending (\<lambda>q. q) kAssetOpMaxPartialSeqs seq (sl_partial_seqs l2)\<rparr>
                else l2);
          l4 = (if kind = KindRejected \<and> reason \<noteq> 0
                then l3\<lparr>sl_rejections :=
                       insertAscending fst kAssetOpMaxRejections (seq, reason) (sl_rejections l3)\<rparr>
                else l3)
      in if seq > sl_max_seq l4 then l4\<lparr>sl_max_seq := seq\<rparr> else l4)"

definition RecordAssetOpOutcome ::
  "stream_ledger \<Rightarrow> u64 \<Rightarrow> u64 \<Rightarrow> record_kind \<Rightarrow> u32 \<Rightarrow> stream_ledger option" where
  "RecordAssetOpOutcome l epoch seq kind reason =
     (if ClassifySeq (Some l) epoch seq \<notin> {SeqUnseen, SeqAheadOfWindow} then None
      else (let l0 = (if epoch > sl_epoch l then ResetStreamForEpoch l epoch else l);
                l1 = l0\<lparr>sl_seen := EnsureWords (sl_seen l0), sl_applied := EnsureWords (sl_applied l0)\<rparr>
            in Some (markSeq (slideWindow l1 seq) seq kind reason)))"

end
