(* ===== verification/AssetLedgerInv.thy ===== *)
theory AssetLedgerInv
  imports AssetLedger
begin

unbundle bit_operations_syntax

text \<open>
  The bitmaps of the asset ledger as sets of positions, the ledger invariant, and what one
  recording does to the verdict on every number.
\<close>

section \<open>Bitmaps as sets of positions\<close>

definition wbit :: "u64 list \<Rightarrow> nat \<Rightarrow> bool" where
  "wbit words n \<longleftrightarrow> n div 64 < length words \<and> bit (words ! (n div 64)) (n mod 64)"

lemma bitAt_wbit:
  assumes "length words = WindowWords"
  shows "bitAt words i = wbit words (unat i)"
proof -
  have d: "unat (i div 64) = unat i div 64" "unat (i mod 64) = unat i mod 64"
    by (simp_all add: unat_div unat_mod)
  have "i div 64 \<ge> of_nat (length words) \<longleftrightarrow> unat i div 64 \<ge> length words"
    using assms by (simp add: word_le_nat_alt d WindowWords_def)
  then show ?thesis
    by (simp add: bitAt_def wbit_def Let_def d bit_iff_and_push_bit_not_eq_0 not_le)
qed

lemma length_setBit [simp]: "length (setBit words i) = length words"
  by (simp add: setBit_def Let_def)

lemma wbit_setBit:
  "i div 64 < length words \<Longrightarrow> wbit (setBit words i) j \<longleftrightarrow> j = i \<or> wbit words j"
proof -
  assume i: "i div 64 < length words"
  have eq: "j = i \<longleftrightarrow> j div 64 = i div 64 \<and> j mod 64 = i mod 64"
    by (metis div_mult_mod_eq)
  have "i mod 64 < 64" "j mod 64 < 64" by simp_all
  with i show ?thesis
    unfolding eq by (auto simp: wbit_def setBit_def Let_def readWord_def nth_list_update bit_simps)
qed

lemma length_shiftGroupRight [simp]: "length (shiftGroupRight words s) = WindowWords"
  by (simp add: shiftGroupRight_def Let_def)

lemma wbit_shiftGroupRight:
  assumes len: "length words = WindowWords"
  shows "wbit (shiftGroupRight words s) j \<longleftrightarrow> wbit words (j + s) \<and> j div 64 < WindowWords"
proof (cases "j div 64 < WindowWords")
  case False
  then show ?thesis by (simp add: wbit_def)
next
  case True
  define w b ws bs where defs: "w = j div 64" "b = j mod 64" "ws = s div 64" "bs = s mod 64"
  have b: "b < 64" "bs < 64" by (simp_all add: defs)
  have split: "(j + s) div 64 = w + ws + (b + bs) div 64" "(j + s) mod 64 = (b + bs) mod 64"
    using div_add1_eq [of j s 64] mod_add_eq [of j 64 s] by (simp_all only: defs)
  have L: "wbit (shiftGroupRight words s) j \<longleftrightarrow>
      bit (if bs \<noteq> 0 \<and> w + ws + 1 < WindowWords
           then drop_bit bs (if w + ws < WindowWords then readWord words (w + ws) else 0)
             OR push_bit (64 - bs) (readWord words (w + ws + 1))
           else drop_bit bs (if w + ws < WindowWords then readWord words (w + ws) else 0)) b"
    using True by (simp add: wbit_def shiftGroupRight_def Let_def flip: defs)
  show ?thesis
  proof (cases "b + bs < 64")
    case low: True
    then have "(j + s) div 64 = w + ws" "(j + s) mod 64 = b + bs" using split by simp_all
    with low b len True show ?thesis unfolding L
      by (auto simp: wbit_def bit_simps readWord_def add.commute)
  next
    case high: False
    with b have "(b + bs) div 64 = 1" "(b + bs) mod 64 = b + bs - 64"
      by (simp_all add: div_if mod_if)
    with split have "(j + s) div 64 = w + ws + 1" "(j + s) mod 64 = b + bs - 64" by simp_all
    moreover have "\<not> bit (drop_bit bs x) b" for x :: u64
      using high by (simp add: bit_simps impossible_bit)
    ultimately show ?thesis using high b len True unfolding L
      by (auto simp: wbit_def bit_simps readWord_def)
  qed
qed

lemma wbit_replicate_0 [simp]: "\<not> wbit (replicate n 0) j"
  by (simp add: wbit_def)

lemma EnsureWords_id [simp]: "length words = WindowWords \<Longrightarrow> EnsureWords words = words"
  by (simp add: EnsureWords_def)

lemma EnsureWords_Nil: "EnsureWords [] = replicate WindowWords 0"
  by (simp add: EnsureWords_def)

section \<open>The ledger invariant\<close>

definition wf_ledger :: "stream_ledger \<Rightarrow> bool" where
  "wf_ledger l \<longleftrightarrow> length (sl_seen l) = WindowWords \<and> length (sl_applied l) = WindowWords
     \<and> unat (sl_watermark l) + 1024 < 2 ^ 64 \<and> unat (sl_max_seq l) \<le> unat (sl_watermark l) + 1024
     \<and> (\<forall>j. wbit (sl_applied l) j \<longrightarrow> wbit (sl_seen l) j)"

text \<open>The position of a number in the window and the verdict on it, over the naturals.\<close>

definition verdict :: "stream_ledger \<Rightarrow> nat \<Rightarrow> seq_state option" where
  "verdict l n =
     (let w = unat (sl_watermark l) in
      if w < n \<and> n \<le> w + 1024 \<and> wbit (sl_seen l) (n - w - 1)
      then Some (if wbit (sl_applied l) (n - w - 1) then SeqApplied else SeqRejected) else None)"

lemma unat_watermark_window:
  "wf_ledger l \<Longrightarrow> unat (sl_watermark l + WindowBits) = unat (sl_watermark l) + 1024"
  by (simp add: wf_ledger_def WindowBits_def unat_plus_if' )

lemma ClassifySeq_current:
  assumes "wf_ledger l" and "sl_epoch l = epoch" and "epoch \<noteq> 0"
  shows "ClassifySeq (Some l) epoch seq =
    (if seq = 0 then SeqInvalid
     else if unat seq \<le> unat (sl_watermark l) then SeqBehindWindow
     else if sl_max_seq l \<le> maxu64 - MaxSeqJump \<and> seq > sl_max_seq l + MaxSeqJump then SeqJumpTooFar
     else if unat seq > unat (sl_watermark l) + 1024 then SeqAheadOfWindow
     else (case verdict l (unat seq) of None \<Rightarrow> SeqUnseen | Some v \<Rightarrow> v))"
proof -
  have w: "\<not> sl_watermark l > maxu64 - WindowBits"
  proof -
    have "unat (maxu64 - WindowBits) = 2 ^ 64 - 1025" by (simp add: WindowBits_def)
    with assms(1) show ?thesis by (simp add: wf_ledger_def word_less_nat_alt)
  qed
  have i: "unat (seq - sl_watermark l - 1) = unat seq - unat (sl_watermark l) - 1"
    if "unat seq > unat (sl_watermark l)"
  proof -
    have "unat (seq - sl_watermark l) = unat seq - unat (sl_watermark l)"
      using that by (simp add: unat_sub word_le_nat_alt)
    moreover from this that have "unat (seq - sl_watermark l) \<ge> 1" by simp
    ultimately show ?thesis by (simp add: unat_sub word_le_nat_alt)
  qed
  show ?thesis
    using assms w i unat_watermark_window [OF assms(1)]
    by (auto simp: ClassifySeq_def Let_def verdict_def bitAt_wbit word_le_nat_alt word_less_nat_alt wf_ledger_def
        not_le)
qed


section \<open>What a recording does\<close>

lemma slideWindow_wf:
  assumes wf: "wf_ledger l" and seq: "unat (sl_watermark l) < unat seq"
  defines "l' \<equiv> slideWindow l seq"
  shows "unat (sl_watermark l') = max (unat (sl_watermark l)) (unat seq - 1024)"
    and "wf_ledger l'" and "verdict l' n = (if n \<le> unat (sl_watermark l') then None else verdict l n)"
    and "sl_max_seq l' = sl_max_seq l" and "sl_epoch l' = sl_epoch l"
proof -
  let ?w = "unat (sl_watermark l)"
  note win = unat_watermark_window [OF wf]
  have wb: "unat WindowBits = 1024" by (simp add: WindowBits_def)
  have len: "length (sl_seen l) = WindowWords" "length (sl_applied l) = WindowWords"
    using wf by (simp_all add: wf_ledger_def)
  show "sl_max_seq l' = sl_max_seq l" and "sl_epoch l' = sl_epoch l"
    by (simp_all add: l'_def slideWindow_def Let_def pruneBelow_def)
  show wm: "unat (sl_watermark l') = max ?w (unat seq - 1024)"
  proof (cases "unat seq > ?w + 1024")
    case False
    then show ?thesis by (simp add: l'_def slideWindow_def word_less_nat_alt win)
  next
    case True
    have "sl_watermark l + (seq - (sl_watermark l + WindowBits)) = seq - WindowBits" by simp
    then have "sl_watermark l' = seq - WindowBits"
      using True by (simp add: l'_def slideWindow_def word_less_nat_alt win Let_def pruneBelow_def)
    with True show ?thesis by (simp add: unat_sub word_le_nat_alt WindowBits_def)
  qed
  have bits: "wbit (sl_seen l') j = wbit (sl_seen l) (j + (unat (sl_watermark l') - ?w)) \<and>
      wbit (sl_applied l') j = wbit (sl_applied l) (j + (unat (sl_watermark l') - ?w))" if "j div 64 < WindowWords" for j
  proof (cases "unat seq > ?w + 1024")
    case False
    with wm have "l' = l" and "unat (sl_watermark l') = ?w"
      by (simp_all add: l'_def slideWindow_def word_less_nat_alt win)
    then show ?thesis by simp
  next
    case True
    have sh: "unat (seq - (sl_watermark l + WindowBits)) = unat seq - (?w + 1024)"
      using True by (simp add: unat_sub word_le_nat_alt win)
    with wm True have d: "unat (sl_watermark l') - ?w = unat seq - (?w + 1024)" by simp
    show ?thesis
    proof (cases "unat seq - (?w + 1024) \<ge> 1024")
      case big: True
      then have "\<not> (j + (unat (sl_watermark l') - ?w)) div 64 < WindowWords"
        by (simp add: d WindowWords_def)
      then have "\<not> wbit (sl_seen l) (j + (unat (sl_watermark l') - ?w))" "\<not> wbit (sl_applied l) (j + (unat (sl_watermark l') - ?w))"
        by (simp_all add: wbit_def len)
      moreover have "sl_seen l' = replicate WindowWords 0" "sl_applied l' = replicate WindowWords 0"
        using big True sh
        by (simp_all add: l'_def slideWindow_def word_less_nat_alt win Let_def pruneBelow_def word_le_nat_alt wb)
      ultimately show ?thesis by simp
    next
      case small: False
      have "sl_seen l' = shiftGroupRight (sl_seen l) (unat seq - (?w + 1024))"
        "sl_applied l' = shiftGroupRight (sl_applied l) (unat seq - (?w + 1024))"
        using small True sh
        by (simp_all add: l'_def slideWindow_def word_less_nat_alt win Let_def pruneBelow_def word_le_nat_alt wb)
      with d that show ?thesis by (simp add: wbit_shiftGroupRight len)
    qed
  qed
  have len': "length (sl_seen l') = WindowWords" "length (sl_applied l') = WindowWords"
    using len by (simp_all add: l'_def slideWindow_def Let_def pruneBelow_def)
  have s64: "unat seq < 2 ^ 64" using unsigned_less [of seq, where 'a = nat] by simp
  show "wf_ledger l'"
    using wf len' bits wm s64 \<open>sl_max_seq l' = sl_max_seq l\<close>
    by (auto simp: wf_ledger_def wbit_def [of "sl_applied l'"])
  show "verdict l' n = (if n \<le> unat (sl_watermark l') then None else verdict l n)"
  proof (cases "n \<le> unat (sl_watermark l')")
    case True
    then show ?thesis by (simp add: verdict_def Let_def)
  next
    case False
    let ?j = "n - unat (sl_watermark l') - 1"
    have j: "?j + (unat (sl_watermark l') - ?w) = n - ?w - 1" using False wm by simp
    show ?thesis
    proof (cases "n \<le> unat (sl_watermark l') + 1024")
      case True
      with False have "?j div 64 < WindowWords" by (simp add: WindowWords_def)
      from bits [OF this] have b: "wbit (sl_seen l') ?j = wbit (sl_seen l) (n - ?w - 1)"
        "wbit (sl_applied l') ?j = wbit (sl_applied l) (n - ?w - 1)" by (simp_all only: j)
      have "wbit (sl_seen l) (n - ?w - 1) \<Longrightarrow> n - ?w - 1 < 1024" by (simp add: wbit_def len WindowWords_def div_less_iff_less_mult)
      with True False wm b show ?thesis by (auto simp: verdict_def Let_def)
    next
      case far: False
      with wm have "\<not> n \<le> ?w + 1024" by simp
      with far show ?thesis by (auto simp: verdict_def Let_def)
    qed
  qed
qed

lemma markSeq_wf:
  fixes kind :: record_kind and reason :: u32
  assumes wf: "wf_ledger l" and seq: "unat (sl_watermark l) < unat seq" "unat seq \<le> unat (sl_watermark l) + 1024"
    and unseen: "verdict l (unat seq) = None"
  defines "l' \<equiv> markSeq l seq kind reason"
  shows "wf_ledger l'" and "sl_watermark l' = sl_watermark l" and "sl_epoch l' = sl_epoch l"
    and "unat (sl_max_seq l') = max (unat (sl_max_seq l)) (unat seq)"
    and "verdict l' n = (if n = unat seq then Some (if kind = KindRejected then SeqRejected else SeqApplied)
           else verdict l n)"
proof -
  let ?w = "unat (sl_watermark l)"
  let ?i = "unat (seq - sl_watermark l - 1)"
  have "unat (seq - sl_watermark l) = unat seq - ?w" using seq by (simp add: unat_sub word_le_nat_alt)
  moreover from this seq have "unat (seq - sl_watermark l) \<ge> 1" by simp
  ultimately have i: "?i = unat seq - ?w - 1" by (simp add: unat_sub word_le_nat_alt)
  with seq have i64: "?i div 64 < WindowWords" by (simp add: WindowWords_def)
  have len: "length (sl_seen l) = WindowWords" "length (sl_applied l) = WindowWords"
    using wf by (simp_all add: wf_ledger_def)
  have flds: "sl_watermark l' = sl_watermark l" "sl_epoch l' = sl_epoch l"
    "sl_seen l' = setBit (sl_seen l) ?i"
    "sl_applied l' = (if kind = KindRejected then sl_applied l else setBit (sl_applied l) ?i)"
    "sl_max_seq l' = (if seq > sl_max_seq l then seq else sl_max_seq l)"
    by (simp_all add: l'_def markSeq_def Let_def)
  show "sl_watermark l' = sl_watermark l" and "sl_epoch l' = sl_epoch l" by (fact flds)+
  show mx: "unat (sl_max_seq l') = max (unat (sl_max_seq l)) (unat seq)"
    by (simp add: flds word_less_nat_alt)
  have seen': "wbit (sl_seen l') j \<longleftrightarrow> j = ?i \<or> wbit (sl_seen l) j" for j
    by (simp add: flds wbit_setBit len i64)
  have app': "wbit (sl_applied l') j \<longleftrightarrow> (j = ?i \<and> kind \<noteq> KindRejected) \<or> wbit (sl_applied l) j" for j
    by (simp add: flds wbit_setBit len i64)
  show "wf_ledger l'"
    using wf seq mx seen' app' by (auto simp: wf_ledger_def flds(1) flds(3,4))
  have no: "\<not> wbit (sl_seen l) ?i" "\<not> wbit (sl_applied l) ?i"
    using unseen seq wf by (auto simp: verdict_def Let_def i wf_ledger_def split: if_splits)
  have ni: "n - ?w - 1 = ?i \<longleftrightarrow> n = unat seq" if "?w < n" for n using that seq i by auto
  show "verdict l' n = (if n = unat seq then Some (if kind = KindRejected then SeqRejected else SeqApplied)
           else verdict l n)"
    using seq no ni [of n] i by (auto simp: verdict_def Let_def flds(1) seen' app')
qed


lemma reset_wf:
  "wf_ledger (ResetStreamForEpoch l epoch)" "verdict (ResetStreamForEpoch l epoch) n = None"
  "sl_watermark (ResetStreamForEpoch l epoch) = 0" "sl_epoch (ResetStreamForEpoch l epoch) = epoch"
  "sl_max_seq (ResetStreamForEpoch l epoch) = 0"
  by (simp_all add: ResetStreamForEpoch_def wf_ledger_def verdict_def EnsureWords_Nil)

text \<open>The ledger a recording starts from: reset for a newer epoch.\<close>

definition base_ledger :: "stream_ledger \<Rightarrow> u64 \<Rightarrow> stream_ledger" where
  "base_ledger l epoch = (if epoch > sl_epoch l then ResetStreamForEpoch l epoch else l)"

lemma Record_cases:
  assumes wf: "wf_ledger l" and rec: "RecordAssetOpOutcome l epoch seq kind reason = Some l'"
  shows "epoch \<noteq> 0" "wf_ledger (base_ledger l epoch)" "sl_epoch (base_ledger l epoch) = epoch"
    and "unat (sl_watermark (base_ledger l epoch)) < unat seq" "verdict (base_ledger l epoch) (unat seq) = None"
    and "l' = markSeq (slideWindow (base_ledger l epoch) seq) seq kind reason"
proof -
  let ?b = "base_ledger l epoch"
  have cl: "ClassifySeq (Some l) epoch seq \<in> {SeqUnseen, SeqAheadOfWindow}"
    using rec by (simp add: RecordAssetOpOutcome_def split: if_splits)
  then show e: "epoch \<noteq> 0" and "wf_ledger ?b"
    using wf reset_wf by (auto simp: ClassifySeq_def base_ledger_def)
  from cl have s0: "seq \<noteq> 0" by (auto simp: ClassifySeq_def)
  from cl have "\<not> epoch < sl_epoch l" by (auto simp: ClassifySeq_def split: if_splits)
  then have "epoch > sl_epoch l \<or> sl_epoch l = epoch" by auto
  then have "sl_epoch ?b = epoch \<and> unat (sl_watermark ?b) < unat seq \<and> verdict ?b (unat seq) = None"
  proof
    assume "epoch > sl_epoch l"
    with s0 show ?thesis by (simp add: base_ledger_def reset_wf unat_gt_0)
  next
    assume eq: "sl_epoch l = epoch"
    with cl e ClassifySeq_current [OF wf eq e, of seq] show ?thesis
      by (auto simp: base_ledger_def verdict_def Let_def split: if_splits option.splits)
  qed
  then show "sl_epoch ?b = epoch" "unat (sl_watermark ?b) < unat seq" "verdict ?b (unat seq) = None" by auto
  have "length (sl_seen ?b) = WindowWords" "length (sl_applied ?b) = WindowWords"
    using \<open>wf_ledger ?b\<close> by (simp_all add: wf_ledger_def)
  then have "?b\<lparr>sl_seen := EnsureWords (sl_seen ?b), sl_applied := EnsureWords (sl_applied ?b)\<rparr> = ?b" by simp
  with rec show "l' = markSeq (slideWindow ?b seq) seq kind reason"
    by (simp add: RecordAssetOpOutcome_def base_ledger_def Let_def split: if_splits)
qed

lemma Record_verdict:
  assumes wf: "wf_ledger l" and rec: "RecordAssetOpOutcome l epoch seq kind reason = Some l'"
  shows "wf_ledger l'" and "sl_epoch l' = epoch"
    and "unat (sl_watermark l') = max (unat (sl_watermark (base_ledger l epoch))) (unat seq - 1024)"
    and "unat (sl_max_seq l') = max (unat (sl_max_seq (base_ledger l epoch))) (unat seq)"
    and "verdict l' n = (if n = unat seq then Some (if kind = KindRejected then SeqRejected else SeqApplied)
           else if n \<le> unat (sl_watermark l') then None else verdict (base_ledger l epoch) n)"
proof -
  let ?b = "base_ledger l epoch"
  let ?s = "slideWindow ?b seq"
  note c = Record_cases [OF wf rec]
  note s = slideWindow_wf [OF c(2,4)]
  have in': "unat (sl_watermark ?s) < unat seq" "unat seq \<le> unat (sl_watermark ?s) + 1024"
    using c(4) by (simp_all add: s(1))
  have none: "verdict ?s (unat seq) = None" using c(5) by (simp add: s(3))
  note m = markSeq_wf [OF s(2) in' none, of kind reason]
  show "wf_ledger l'" "sl_epoch l' = epoch" using m s(5) c(3) by (simp_all add: c(6))
  show "unat (sl_watermark l') = max (unat (sl_watermark ?b)) (unat seq - 1024)"
    by (simp add: c(6) m(2) s(1))
  show "unat (sl_max_seq l') = max (unat (sl_max_seq ?b)) (unat seq)"
    by (simp add: c(6) m(4) s(4))
  show "verdict l' n = (if n = unat seq then Some (if kind = KindRejected then SeqRejected else SeqApplied)
           else if n \<le> unat (sl_watermark l') then None else verdict ?b n)"
    unfolding c(6) m(5) by (simp add: m(2) s(3))
qed

lemma no_jump:
  assumes mx: "unat seq \<le> unat (m :: u64) + 1024"
  shows "\<not> (m \<le> maxu64 - MaxSeqJump \<and> seq > m + MaxSeqJump)"
proof
  assume a: "m \<le> maxu64 - MaxSeqJump \<and> seq > m + MaxSeqJump"
  have "unat (maxu64 - MaxSeqJump) = 2 ^ 64 - 1025" by (simp add: MaxSeqJump_def)
  with a have "unat m + 1024 < 2 ^ 64" by (simp add: word_le_nat_alt)
  then have "unat (m + MaxSeqJump) = unat m + 1024" by (simp add: MaxSeqJump_def unat_plus_if')
  with a mx show False by (simp add: word_less_nat_alt)
qed

lemma verdict_classify:
  assumes "wf_ledger l" and "sl_epoch l = epoch" and "epoch \<noteq> 0" and "v \<in> {SeqApplied, SeqRejected}"
  shows "ClassifySeq (Some l) epoch seq = v \<Longrightarrow> verdict l (unat seq) = Some v"
    and "verdict l (unat seq) = Some v \<Longrightarrow> unat seq \<le> unat (sl_max_seq l) + 1024 \<Longrightarrow> ClassifySeq (Some l) epoch seq = v"
proof -
  note cl = ClassifySeq_current [OF assms(1-3), of seq]
  show "ClassifySeq (Some l) epoch seq = v \<Longrightarrow> verdict l (unat seq) = Some v"
    using assms(4) unfolding cl by (auto split: if_splits option.splits)
  assume v: "verdict l (unat seq) = Some v" and mx: "unat seq \<le> unat (sl_max_seq l) + 1024"
  from no_jump [OF mx] have "\<not> (sl_max_seq l \<le> maxu64 - MaxSeqJump \<and> seq > sl_max_seq l + MaxSeqJump)" .
  moreover from v have "unat (sl_watermark l) < unat seq" "unat seq \<le> unat (sl_watermark l) + 1024"
    by (auto simp: verdict_def Let_def split: if_splits)
  ultimately show "ClassifySeq (Some l) epoch seq = v" using v unfolding cl by auto
qed

text \<open>Everything with a verdict was recorded, so it is at most the largest number seen.\<close>

definition seen_below_max :: "stream_ledger \<Rightarrow> bool" where
  "seen_below_max l \<longleftrightarrow> (\<forall>n. verdict l n \<noteq> None \<longrightarrow> n \<le> unat (sl_max_seq l))"

lemma Record_seen_below_max:
  assumes "wf_ledger l" and "seen_below_max l" and "RecordAssetOpOutcome l epoch seq kind reason = Some l'"
  shows "seen_below_max l'"
proof -
  have "seen_below_max (base_ledger l epoch)"
    using assms(2) by (simp add: base_ledger_def seen_below_max_def reset_wf)
  then show ?thesis
    unfolding seen_below_max_def Record_verdict(4,5) [OF assms(1,3)] by (auto split: if_splits)
qed

section \<open>Outcomes are fixed\<close>

text \<open>the writer and the reader of the ledger agree: recording an outcome makes exactly that
  number classify as recorded; every outcome already recorded in the epoch stays the same for as
  long as the number is inside the window, and no other number acquires an outcome.\<close>

theorem ledger_outcome_fixed:
  assumes wf: "wf_ledger l" and mx: "seen_below_max l"
    and rec: "RecordAssetOpOutcome l epoch seq kind reason = Some l'"
  shows "ClassifySeq (Some l') epoch seq = (if kind = KindRejected then SeqRejected else SeqApplied)
    \<and> (\<forall>s. sl_epoch l = epoch \<and> ClassifySeq (Some l) epoch s \<in> {SeqApplied, SeqRejected} \<longrightarrow>
         ClassifySeq (Some l') epoch s \<in> {ClassifySeq (Some l) epoch s, SeqBehindWindow})
    \<and> (\<forall>s. s \<noteq> seq \<and> ClassifySeq (Some l') epoch s \<in> {SeqApplied, SeqRejected} \<longrightarrow>
         sl_epoch l = epoch \<and> ClassifySeq (Some l) epoch s = ClassifySeq (Some l') epoch s)"
proof -
  note c = Record_cases [OF wf rec] and v = Record_verdict [OF wf rec]
  note mx' = Record_seen_below_max [OF wf mx rec]
  note vc = verdict_classify [OF wf _ c(1)] and vc' = verdict_classify [OF v(1,2) c(1)]
  have below: "unat s \<le> unat (sl_max_seq m)" if "seen_below_max m" "verdict m (unat s) = Some x" for m x and s :: u64
    using that by (auto simp: seen_below_max_def)
  have "ClassifySeq (Some l') epoch seq = (if kind = KindRejected then SeqRejected else SeqApplied)"
    by (rule vc'(2)) (simp_all add: v(4,5))
  moreover have "ClassifySeq (Some l') epoch s \<in> {ClassifySeq (Some l) epoch s, SeqBehindWindow}"
    if e: "sl_epoch l = epoch" and o: "ClassifySeq (Some l) epoch s \<in> {SeqApplied, SeqRejected}" for s
  proof (cases "unat s \<le> unat (sl_watermark l')")
    case True
    have "s \<noteq> 0" using o by (auto simp: ClassifySeq_def)
    with True show ?thesis by (simp add: ClassifySeq_current [OF v(1,2) c(1)])
  next
    case False
    have b: "base_ledger l epoch = l" using e by (simp add: base_ledger_def)
    from vc(1) [OF e o refl] have vl: "verdict l (unat s) = Some (ClassifySeq (Some l) epoch s)" .
    with c(5) b have "unat s \<noteq> unat seq" by auto
    with False vl have vl': "verdict l' (unat s) = Some (ClassifySeq (Some l) epoch s)" by (simp add: v(5) b)
    from vc'(2) [OF o vl'] below [OF mx' vl'] show ?thesis by simp
  qed
  moreover have "sl_epoch l = epoch \<and> ClassifySeq (Some l) epoch s = ClassifySeq (Some l') epoch s"
    if ne: "s \<noteq> seq" and o: "ClassifySeq (Some l') epoch s \<in> {SeqApplied, SeqRejected}" for s
  proof -
    have "unat s \<noteq> unat seq" using ne by (simp add: word_unat_eq_iff)
    with vc'(1) [OF o refl] have vb: "verdict (base_ledger l epoch) (unat s) = Some (ClassifySeq (Some l') epoch s)"
      by (simp add: v(5) split: if_splits)
    then have b: "base_ledger l epoch = l" by (auto simp: base_ledger_def reset_wf)
    with c(3) have e: "sl_epoch l = epoch" by simp
    from vb b have vl: "verdict l (unat s) = Some (ClassifySeq (Some l') epoch s)" by simp
    from vc(2) [OF e o vl] below [OF mx vl] e show ?thesis by simp
  qed
  ultimately show ?thesis by blast
qed

definition fresh_ledger :: stream_ledger where
  "fresh_ledger = \<lparr>sl_stream = STREAM_GUILD_DEBIT, sl_epoch = 0, sl_watermark = 0, sl_max_seq = 0,
     sl_seen = replicate WindowWords 0, sl_applied = replicate WindowWords 0, sl_rejections = [],
     sl_partial_seqs = [], sl_receipts = []\<rparr>"

lemma fresh_ledger_wf: "wf_ledger fresh_ledger" "seen_below_max fresh_ledger"
  by (simp_all add: fresh_ledger_def wf_ledger_def seen_below_max_def verdict_def)

theorem ledger_outcome_fixed_witness:
  "ClassifySeq (Some (the (RecordAssetOpOutcome fresh_ledger 5 3 KindApplied 0))) 5 3 = SeqApplied"
proof -
  have "RecordAssetOpOutcome fresh_ledger 5 3 KindApplied 0 \<noteq> None" by code_simp
  then have "RecordAssetOpOutcome fresh_ledger 5 3 KindApplied 0
      = Some (the (RecordAssetOpOutcome fresh_ledger 5 3 KindApplied 0))" by simp
  from ledger_outcome_fixed [OF fresh_ledger_wf this] show ?thesis by simp
qed

end
