(* ===== verification/AssetOp.thy ===== *)
theory AssetOp
  imports AssetLedgerInv
begin

text \<open>
  The decisions of the asset channel's caller (\<^verbatim>\<open>src/go/shared/assetop\<close>): what one delivery means for
  its outbox row (\<^verbatim>\<open>decide.go\<close>, \<^verbatim>\<open>reconcile.go\<close>), which evidence a committed ledger gives
  (\<^verbatim>\<open>receipt_identity.go\<close>) and when a row may be abandoned (\<^verbatim>\<open>abandon.go\<close>).  The delivery, the ledger
  reader and the digest of a request are arguments; durations are signed 64-bit nanoseconds.
\<close>

section \<open>Data\<close>

datatype op_status =
    StatusInvalid | StatusPending | StatusApplied | StatusRejected | StatusAborted
  | StatusAppliedPartial | StatusAbandoned

datatype asset_rpc = RPCInvalid | RPCDebit | RPCCredit | RPCAbort | RPCAckReceipt

definition ApplyRPCOf :: "asset_stream \<Rightarrow> asset_rpc option" where
  "ApplyRPCOf stream = (case stream of
      STREAM_GUILD_DEBIT \<Rightarrow> Some RPCDebit | STREAM_TRADE_DEBIT \<Rightarrow> Some RPCDebit
    | STREAM_GM_RECALL \<Rightarrow> Some RPCDebit | STREAM_GUILD_CREDIT \<Rightarrow> Some RPCCredit
    | STREAM_TRADE_CREDIT \<Rightarrow> Some RPCCredit | STREAM_SYSTEM_CREDIT \<Rightarrow> Some RPCCredit
    | _ \<Rightarrow> None)"

record asset_result =
  res_Outcome :: asset_outcome
  res_Reason :: u32
  res_Durable :: bool
  res_SQLCommitted :: bool
  res_Partial :: bool
  res_Snapshot :: "asset_snapshot option"
  res_Local :: bool
  res_Absent :: bool

definition zero_result :: asset_result where
  "zero_result = \<lparr>res_Outcome = OUTCOME_UNKNOWN, res_Reason = 0, res_Durable = False,
     res_SQLCommitted = False, res_Partial = False, res_Snapshot = None, res_Local = False,
     res_Absent = False\<rparr>"

definition Terminal :: "asset_result \<Rightarrow> bool" where
  "Terminal r = (if \<not> res_Durable r then False
     else res_Outcome r = OUTCOME_APPLIED \<or> res_Outcome r = OUTCOME_REJECTED)"

record asset_bundle =
  ab_currencies :: "(u32 \<times> u64) list"
  ab_items :: "(u32 \<times> u32) list"
  ab_item_uuids :: "u64 list"
  ab_pet_id :: u64

record asset_op =
  ao_OpID :: u64
  ao_PlayerID :: u64
  ao_Stream :: asset_stream
  ao_Seq :: u64
  ao_StreamEpoch :: u64
  ao_CorrelationID :: u64
  ao_TxType :: u32
  ao_Bundle :: asset_bundle
  ao_Attempts :: u32
  ao_DeadlineMs :: u64
  ao_LeaseToken :: u64
  ao_LastReason :: u32
  ao_CreatedMs :: u64
  ao_LastSendMs :: u64

datatype delivery_error = ErrOutcomeFlip | ErrTransport

section \<open>The verdict on one delivery\<close>

datatype row_action = ActionFinalize | ActionAwaitDurable | ActionRetry | ActionAlert

definition Decide :: "asset_result \<Rightarrow> delivery_error option \<Rightarrow> row_action" where
  "Decide res err = (case err of
      Some e \<Rightarrow> (if e = ErrOutcomeFlip then ActionAlert else ActionRetry)
    | None \<Rightarrow> (case res_Outcome res of
        OUTCOME_UNKNOWN \<Rightarrow> ActionAlert
      | OUTCOME_APPLIED \<Rightarrow> (if res_Durable res then ActionFinalize else ActionAwaitDurable)
      | OUTCOME_REJECTED \<Rightarrow> (if res_Durable res then ActionFinalize else ActionAwaitDurable)
      | OUTCOME_RETRY \<Rightarrow> ActionRetry
      | OUTCOME_NOT_HERE \<Rightarrow> ActionRetry
      | OUTCOME_OTHER \<Rightarrow> ActionAlert))"

definition FinalStatus :: "asset_rpc \<Rightarrow> asset_result \<Rightarrow> asset_op \<Rightarrow> op_status" where
  "FinalStatus rpc res op = (case res_Outcome res of
      OUTCOME_APPLIED \<Rightarrow>
        (if res_Partial res \<or> ao_LastReason op = ReasonPartialApplied \<or> res_Reason res = ReasonPartialApplied
         then StatusAppliedPartial else StatusApplied)
    | OUTCOME_REJECTED \<Rightarrow> (if rpc = RPCAbort \<and> res_Reason res = 0 then StatusAborted else StatusRejected)
    | _ \<Rightarrow> StatusPending)"

text \<open>The delay of \<open>NextAttemptMs\<close> before jitter; \<open>int64(base) << shift\<close> wraps.\<close>

definition backoffDelay :: "u32 \<Rightarrow> u64 \<Rightarrow> u64 \<Rightarrow> u64" where
  "backoffDelay attempts base mx =
     (let base' = (if sint base \<le> 0 then 1000000000 else base);
          mx' = (if sint mx < sint base' then base' else mx);
          shift = (if attempts > 16 then 16 else unat attempts);
          shifted = push_bit shift base' in
      if sint shifted > 0 \<and> sint shifted \<le> sint mx' then shifted else mx')"

definition NextAttemptMs :: "(u64 \<Rightarrow> u64) \<Rightarrow> u64 \<Rightarrow> u32 \<Rightarrow> u64 \<Rightarrow> u64 \<Rightarrow> u64" where
  "NextAttemptMs jitteredMs nowMs attempts base mx = nowMs + jitteredMs (backoffDelay attempts base mx)"

record offline_parking =
  op_AfterAttempts :: u32
  op_Backoff :: u64

definition Parks :: "offline_parking \<Rightarrow> asset_result \<Rightarrow> u32 \<Rightarrow> bool" where
  "Parks p res attempts =
     (op_AfterAttempts p > 0 \<and> sint (op_Backoff p) > 0 \<and> res_Local res \<and> res_Absent res
      \<and> res_Outcome res = OUTCOME_NOT_HERE \<and> attempts \<ge> op_AfterAttempts p)"

definition NextRetryMs ::
  "(u64 \<Rightarrow> u64) \<Rightarrow> u64 \<Rightarrow> u32 \<Rightarrow> asset_result \<Rightarrow> u64 \<Rightarrow> u64 \<Rightarrow> offline_parking \<Rightarrow> u64" where
  "NextRetryMs jitteredMs nowMs attempts res base mx park =
     (if Parks park res attempts then nowMs + jitteredMs (op_Backoff park)
      else NextAttemptMs jitteredMs nowMs attempts base mx)"

section \<open>Evidence\<close>

definition stream_caller :: "asset_stream \<Rightarrow> string option" where
  "stream_caller s = (case s of
      STREAM_GUILD_DEBIT \<Rightarrow> Some ''guild'' | STREAM_GUILD_CREDIT \<Rightarrow> Some ''guild''
    | STREAM_TRADE_DEBIT \<Rightarrow> Some ''trade'' | STREAM_TRADE_CREDIT \<Rightarrow> Some ''trade''
    | STREAM_SYSTEM_CREDIT \<Rightarrow> Some ''mail'' | STREAM_GM_RECALL \<Rightarrow> Some ''data_service''
    | _ \<Rightarrow> None)"

text \<open>\<open>digest\<close> is the SHA-256 of the canonical request of that caller.\<close>

definition ReceiptDigest :: "(string \<Rightarrow> asset_op \<Rightarrow> bytes) \<Rightarrow> asset_op \<Rightarrow> bytes option" where
  "ReceiptDigest digest op = (case stream_caller (ao_Stream op) of
      None \<Rightarrow> None
    | Some caller \<Rightarrow>
        (if ao_PlayerID op = 0 \<or> ao_StreamEpoch op = 0 \<or> ao_Seq op = 0 \<or> ao_CorrelationID op = 0
         then None else Some (digest caller op)))"

text \<open>The loop that accepts at most one stream, and that one only in the operation's epoch: \<open>None\<close>
  is the early return, \<open>Some None\<close> no such stream.\<close>

fun select_stream ::
  "asset_op \<Rightarrow> stream_ledger option \<Rightarrow> stream_ledger list \<Rightarrow> stream_ledger option option" where
  "select_stream op sel [] = Some sel"
| "select_stream op sel (st # sts) =
     (if sl_stream st \<noteq> ao_Stream op then select_stream op sel sts
      else if sel \<noteq> None \<or> sl_epoch st \<noteq> ao_StreamEpoch op then None
      else select_stream op (Some st) sts)"

fun select_receipt ::
  "bytes \<Rightarrow> asset_op \<Rightarrow> asset_receipt option \<Rightarrow> asset_receipt list \<Rightarrow> asset_receipt option option" where
  "select_receipt dig op found [] = Some found"
| "select_receipt dig op found (r # rs) =
     (if rp_seq r \<noteq> ao_Seq op then select_receipt dig op found rs
      else if found \<noteq> None \<or> rp_correlation_id r \<noteq> ao_CorrelationID op
           \<or> length (rp_request_digest r) \<noteq> 32 \<or> rp_request_digest r \<noteq> dig then None
      else select_receipt dig op (Some r) rs)"

definition matchingReceipt ::
  "(string \<Rightarrow> asset_op \<Rightarrow> bytes) \<Rightarrow> player_ledger option \<Rightarrow> asset_op \<Rightarrow> asset_receipt option" where
  "matchingReceipt digest ledger op =
     (case ReceiptDigest digest op of
        None \<Rightarrow> None
      | Some dig \<Rightarrow>
          (case select_stream op None (case ledger of None \<Rightarrow> [] | Some l \<Rightarrow> l) of
             None \<Rightarrow> None
           | Some selected \<Rightarrow>
               (case select_receipt dig op None (case selected of None \<Rightarrow> [] | Some st \<Rightarrow> sl_receipts st) of
                  None \<Rightarrow> None
                | Some found \<Rightarrow> found)))"

definition snapshotHasInstances :: "asset_snapshot option \<Rightarrow> bool" where
  "snapshotHasInstances snapshot =
     (case snapshot of None \<Rightarrow> False | Some s \<Rightarrow> as_items s \<noteq> [] \<or> as_pet s \<noteq> None)"

definition RecallLineOf :: "asset_op \<Rightarrow> asset_snapshot option \<Rightarrow> recall_line option" where
  "RecallLineOf op snapshot =
     (case snapshot of
        None \<Rightarrow> None
      | Some s \<Rightarrow>
          (if length (as_recall_lines s) \<noteq> 1 \<or> snapshotHasInstances snapshot then None
           else (let line = hd (as_recall_lines s); requested = rl_requested line; b = ao_Bundle op in
             if rl_taken line > requested \<or> rl_debt line > requested - rl_taken line
                \<or> rl_shortfall line \<noteq> requested - rl_taken line - rl_debt line then None
             else (case (ab_currencies b, ab_items b) of
                 ([(ctype, amount)], []) \<Rightarrow>
                   (if rl_config_id line \<noteq> 0 \<or> rl_currency_type line \<noteq> ctype \<or> requested \<noteq> amount
                    then None else Some line)
               | ([], [(config, n)]) \<Rightarrow>
                   (if rl_config_id line \<noteq> config \<or> requested \<noteq> ucast n \<or> rl_debt line \<noteq> 0
                    then None else Some line)
               | _ \<Rightarrow> None))))"

definition escrowsInstances :: "asset_op \<Rightarrow> bool" where
  "escrowsInstances op = (ab_item_uuids (ao_Bundle op) \<noteq> [] \<or> ab_pet_id (ao_Bundle op) \<noteq> 0)"

text \<open>The loop that consumes the set of expected item ids.\<close>

fun consume_items :: "u64 set \<Rightarrow> (u64 \<times> bytes) list \<Rightarrow> u64 set option" where
  "consume_items identities [] = Some identities"
| "consume_items identities ((uuid, inst) # items) =
     (if uuid = 0 \<or> uuid \<notin> identities \<or> inst = [] then None
      else consume_items (identities - {uuid}) items)"

definition receiptSnapshotMatches :: "asset_op \<Rightarrow> asset_snapshot option \<Rightarrow> bool" where
  "receiptSnapshotMatches op snapshot =
     (case snapshot of
        None \<Rightarrow> False
      | Some s \<Rightarrow>
          (if ao_Stream op \<noteq> STREAM_TRADE_DEBIT \<or> length (as_items s) \<noteq> length (ab_item_uuids (ao_Bundle op))
              \<or> (as_pet s \<noteq> None) \<noteq> (ab_pet_id (ao_Bundle op) \<noteq> 0) then False
           else (case consume_items (set (ab_item_uuids (ao_Bundle op))) (as_items s) of
               None \<Rightarrow> False
             | Some rest \<Rightarrow> rest = {} \<and>
                 (case as_pet s of None \<Rightarrow> True
                  | Some (pet, inst) \<Rightarrow> pet = ab_pet_id (ao_Bundle op) \<and> inst \<noteq> []))))"

definition resultWithReceipt ::
  "(string \<Rightarrow> asset_op \<Rightarrow> bytes) \<Rightarrow> player_ledger option \<Rightarrow> asset_op \<Rightarrow> asset_result \<Rightarrow> asset_result" where
  "resultWithReceipt digest ledger op res0 =
     (let res = res0\<lparr>res_Snapshot := None\<rparr> in
      case matchingReceipt digest ledger op of
        None \<Rightarrow> zero_result
      | Some receipt \<Rightarrow>
          (if ao_Stream op = STREAM_GM_RECALL then
             (if res_Outcome res = OUTCOME_APPLIED then
                (if RecallLineOf op (rp_snapshot receipt) = None then zero_result
                 else res\<lparr>res_Snapshot := rp_snapshot receipt\<rparr>)
              else res)
           else if res_Outcome res = OUTCOME_APPLIED \<and> escrowsInstances op then
             (if \<not> receiptSnapshotMatches op (rp_snapshot receipt) then zero_result
              else res\<lparr>res_Snapshot := rp_snapshot receipt\<rparr>)
           else if snapshotHasInstances (rp_snapshot receipt) then zero_result
           else res))"

definition isSceneTerminal :: "asset_outcome \<Rightarrow> bool" where
  "isSceneTerminal o' = (o' = OUTCOME_APPLIED \<or> o' = OUTCOME_REJECTED)"

text \<open>What the committed ledger proves about an operation: \<open>None\<close> when it has no outcome for it.\<close>

definition persisted_result ::
  "(string \<Rightarrow> asset_op \<Rightarrow> bytes) \<Rightarrow> player_ledger option \<Rightarrow> asset_op \<Rightarrow> asset_result option" where
  "persisted_result digest ledger op =
     (case ClassifyPersisted ledger (ao_Stream op) (ao_StreamEpoch op) (ao_Seq op) of
        (outcome, partial, reason) \<Rightarrow>
          if \<not> isSceneTerminal outcome then None
          else Some (resultWithReceipt digest ledger op
            (zero_result\<lparr>res_Outcome := outcome, res_Reason := reason, res_Durable := True,
              res_SQLCommitted := True, res_Partial := partial\<rparr>)))"

text \<open>A read of the committed ledger: failed, or the ledger if the player has one.\<close>

type_synonym ledger_read = "player_ledger option option"

definition tryPersistedLedger ::
  "(string \<Rightarrow> asset_op \<Rightarrow> bytes) \<Rightarrow> u32 \<Rightarrow> ledger_read \<Rightarrow> asset_op \<Rightarrow> asset_result \<Rightarrow> asset_result" where
  "tryPersistedLedger digest minAttempts read op res =
     (if ao_Attempts op < minAttempts then res
      else (case read of
          Some (Some ledger) \<Rightarrow>
            (case persisted_result digest (Some ledger) op of None \<Rightarrow> res | Some proved \<Rightarrow> proved)
        | _ \<Rightarrow> res))"

definition verifySQLCommit ::
  "(string \<Rightarrow> asset_op \<Rightarrow> bytes) \<Rightarrow> ledger_read \<Rightarrow> asset_op \<Rightarrow> asset_result
     \<Rightarrow> asset_result \<times> delivery_error option" where
  "verifySQLCommit digest read op res0 =
     (let res = res0\<lparr>res_Durable := False, res_Snapshot := None\<rparr> in
      case read of
        Some (Some ledger) \<Rightarrow>
          (case persisted_result digest (Some ledger) op of
             None \<Rightarrow> (res, None)
           | Some proved \<Rightarrow>
               (if \<not> Terminal proved then (proved, None)
                else if fst (ClassifyPersisted (Some ledger) (ao_Stream op) (ao_StreamEpoch op) (ao_Seq op))
                        \<noteq> res_Outcome res then (res, Some ErrOutcomeFlip)
                else (proved\<lparr>res_Partial := res_Partial proved \<or> res_Partial res,
                             res_Reason := (if res_Reason proved = 0 then res_Reason res else res_Reason proved)\<rparr>,
                      None)))
      | _ \<Rightarrow> (res, None))"

definition CommittedOutcomeOf ::
  "(string \<Rightarrow> asset_op \<Rightarrow> bytes) \<Rightarrow> player_ledger option \<Rightarrow> asset_op \<Rightarrow> asset_outcome \<times> bool \<times> bool" where
  "CommittedOutcomeOf digest ledger op =
     (case persisted_result digest ledger op of
        None \<Rightarrow> (OUTCOME_UNKNOWN, False, False)
      | Some res \<Rightarrow> (if res_Outcome res = OUTCOME_UNKNOWN then (OUTCOME_UNKNOWN, False, False)
                     else (res_Outcome res, res_Partial res, True)))"

section \<open>Acknowledging a receipt\<close>

datatype ack_error = ErrAckIncomplete | ErrAckDelivery delivery_error | ErrAckRead

text \<open>The loop over the streams of the ledger: the first stream of the request's epoch decides.\<close>

definition ack_stream ::
  "(string \<Rightarrow> asset_op \<Rightarrow> bytes) \<Rightarrow> player_ledger \<Rightarrow> asset_op \<Rightarrow> bool" where
  "ack_stream digest ledger req =
     (case find (\<lambda>st. sl_stream st = ao_Stream req \<and> sl_epoch st = ao_StreamEpoch req) ledger of
        None \<Rightarrow> False
      | Some stream \<Rightarrow>
          (if ao_Seq req \<le> sl_watermark stream
           then \<not> (\<exists>r \<in> set (sl_receipts stream). rp_seq r = ao_Seq req)
           else (case matchingReceipt digest (Some ledger) req of
               None \<Rightarrow> False
             | Some receipt \<Rightarrow>
                 (if snapshotHasInstances (rp_snapshot receipt) then False
                  else (case ClassifyPersisted (Some ledger) (ao_Stream req) (ao_StreamEpoch req) (ao_Seq req) of
                      (outcome, partial, _) \<Rightarrow> outcome = OUTCOME_APPLIED \<and> \<not> partial)))))"

definition AcknowledgeReceipt ::
  "(string \<Rightarrow> asset_op \<Rightarrow> bytes) \<Rightarrow> (asset_rpc \<Rightarrow> delivery_error + asset_result) \<Rightarrow> ledger_read \<Rightarrow> asset_op
     \<Rightarrow> ack_error + bool" where
  "AcknowledgeReceipt digest deliver read req =
     (if ao_Seq req = 0 \<or> ao_CorrelationID req = 0 then Inl ErrAckIncomplete
      else (case deliver RPCAckReceipt of
          Inl e \<Rightarrow> Inl (ErrAckDelivery e)
        | Inr res \<Rightarrow>
            (if res_Outcome res \<noteq> OUTCOME_APPLIED then Inr False
             else (case read of
                 None \<Rightarrow> Inl ErrAckRead
               | Some None \<Rightarrow> Inr False
               | Some (Some ledger) \<Rightarrow> Inr (ack_stream digest ledger req)))))"

section \<open>Processing one row\<close>

record loop_config =
  lc_BaseBackoff :: u64
  lc_MaxBackoff :: u64
  lc_AwaitDurableDelay :: u64
  lc_LedgerReadMinAttempts :: u32
  lc_AbandonSafetyGap :: u64
  lc_Parking :: offline_parking

definition msOf :: "u64 \<Rightarrow> u64" where
  "msOf duration = of_int (sint duration div 1000000)"

definition rpcFor :: "asset_op \<Rightarrow> u64 \<Rightarrow> asset_rpc option" where
  "rpcFor op nowMs =
     (if ao_DeadlineMs op \<noteq> 0 \<and> nowMs \<ge> ao_DeadlineMs op then Some RPCAbort else ApplyRPCOf (ao_Stream op))"

definition alertNextMs :: "loop_config \<Rightarrow> u64 \<Rightarrow> u64" where
  "alertNextMs cfg nowMs = nowMs + msOf (lc_MaxBackoff cfg)"

definition carryPartialReason :: "asset_op \<Rightarrow> asset_result \<Rightarrow> asset_result" where
  "carryPartialReason op res =
     (if ao_LastReason op = ReasonPartialApplied \<and> res_Reason res \<noteq> ReasonPartialApplied
      then res\<lparr>res_Reason := ReasonPartialApplied\<rparr> else res)"

text \<open>What is written to the row: its final status, or the next attempt with the result kept on it.\<close>

datatype settlement =
  Finalized op_status asset_result | Rescheduled u64 asset_result

definition reschedule :: "asset_op \<Rightarrow> u64 \<Rightarrow> asset_result \<Rightarrow> settlement" where
  "reschedule op nextAttemptMs res = Rescheduled nextAttemptMs (carryPartialReason op res)"

definition finalize :: "loop_config \<Rightarrow> asset_op \<Rightarrow> asset_rpc \<Rightarrow> asset_result \<Rightarrow> u64 \<Rightarrow> settlement" where
  "finalize cfg op rpc res nowMs =
     (let status = FinalStatus rpc res op in
      if status = StatusPending then reschedule op (alertNextMs cfg nowMs) res else Finalized status res)"

text \<open>The two reads of the committed ledger are separate: \<open>localRead\<close> answers the shortcut for a player
  that is not online, \<open>read\<close> the check before a row is settled.\<close>

definition deliver_verdict ::
  "(string \<Rightarrow> asset_op \<Rightarrow> bytes) \<Rightarrow> loop_config \<Rightarrow> ledger_read \<Rightarrow> ledger_read \<Rightarrow> asset_op
     \<Rightarrow> delivery_error + asset_result \<Rightarrow> asset_result \<times> delivery_error option" where
  "deliver_verdict digest cfg localRead read op answer =
     (case answer of
        Inl e \<Rightarrow> (zero_result, Some e)
      | Inr res0 \<Rightarrow>
          (let res = (if res_Local res0
                      then tryPersistedLedger digest (lc_LedgerReadMinAttempts cfg) localRead op res0 else res0) in
           if \<not> res_SQLCommitted res \<and> isSceneTerminal (res_Outcome res)
           then verifySQLCommit digest read op res else (res, None)))"

definition processOne ::
  "(string \<Rightarrow> asset_op \<Rightarrow> bytes) \<Rightarrow> (u64 \<Rightarrow> u64) \<Rightarrow> loop_config \<Rightarrow> ledger_read \<Rightarrow> ledger_read \<Rightarrow> u64 \<Rightarrow> asset_op
     \<Rightarrow> (asset_rpc \<Rightarrow> delivery_error + asset_result) \<Rightarrow> settlement" where
  "processOne digest jitteredMs cfg localRead read nowMs op deliver =
     (case rpcFor op nowMs of
        None \<Rightarrow> reschedule op (alertNextMs cfg nowMs) zero_result
      | Some rpc \<Rightarrow>
          (case deliver_verdict digest cfg localRead read op (deliver rpc) of (res, err) \<Rightarrow>
             (case Decide res err of
                ActionFinalize \<Rightarrow> finalize cfg op rpc res nowMs
              | ActionAwaitDurable \<Rightarrow> reschedule op (nowMs + msOf (lc_AwaitDurableDelay cfg)) res
              | ActionRetry \<Rightarrow>
                  reschedule op
                    (NextRetryMs jitteredMs nowMs (ao_Attempts op) res (lc_BaseBackoff cfg)
                       (lc_MaxBackoff cfg) (lc_Parking cfg))
                    (if err \<noteq> None then zero_result\<lparr>res_Outcome := OUTCOME_RETRY\<rparr> else res)
              | ActionAlert \<Rightarrow> reschedule op (alertNextMs cfg nowMs) res)))"

section \<open>Abandoning a row\<close>

record store_ledger =
  sg_Found :: bool
  sg_Released :: bool
  sg_Ledger :: "player_ledger option"

datatype abandon_skip =
    SkipLocated | SkipRecent | SkipLedgerSeen | SkipLedgerError | SkipLedgerUnknown | SkipNotCandidate

datatype ledger_verdict = LedgerUnknown | LedgerUnseen | LedgerSeen

definition abandonVerdict :: "player_ledger option \<Rightarrow> asset_op \<Rightarrow> ledger_verdict" where
  "abandonVerdict ledger op = (case ledger of
      None \<Rightarrow> LedgerUnknown
    | Some _ \<Rightarrow> (case ClassifySeq (FindStream ledger (ao_Stream op)) (ao_StreamEpoch op) (ao_Seq op) of
        SeqUnseen \<Rightarrow> LedgerUnseen | SeqAheadOfWindow \<Rightarrow> LedgerUnseen
      | SeqApplied \<Rightarrow> LedgerSeen | SeqRejected \<Rightarrow> LedgerSeen
      | _ \<Rightarrow> LedgerUnknown))"

definition seenForFinalize ::
  "(string \<Rightarrow> asset_op \<Rightarrow> bytes) \<Rightarrow> player_ledger option \<Rightarrow> asset_op \<Rightarrow> abandon_skip \<times> asset_result" where
  "seenForFinalize digest ledger op =
     (case ClassifyPersisted ledger (ao_Stream op) (ao_StreamEpoch op) (ao_Seq op) of
        (outcome, partial, reason) \<Rightarrow>
          let res = resultWithReceipt digest ledger op
            (zero_result\<lparr>res_Outcome := outcome, res_Reason := reason, res_Durable := True,
              res_SQLCommitted := True, res_Partial := partial\<rparr>) in
          if \<not> res_Durable res then (SkipLedgerUnknown, zero_result) else (SkipLedgerSeen, res))"

text \<open>\<open>None\<close> in the first component: every condition holds and the row may be abandoned.\<close>

definition judgeAbandon ::
  "(string \<Rightarrow> asset_op \<Rightarrow> bytes) \<Rightarrow> loop_config \<Rightarrow> store_ledger option \<Rightarrow> asset_op \<Rightarrow> u64 \<Rightarrow> u64
     \<Rightarrow> abandon_skip option \<times> asset_result" where
  "judgeAbandon digest cfg read op cutoffMs nowMs =
     (if ApplyRPCOf (ao_Stream op) = None \<or> ao_CreatedMs op = 0 \<or> ao_LastSendMs op = 0
      then (Some SkipNotCandidate, zero_result)
      else if ao_CreatedMs op \<ge> cutoffMs then (Some SkipNotCandidate, zero_result)
      else (case read of
          None \<Rightarrow> (Some SkipLedgerError, zero_result)
        | Some snapshot \<Rightarrow>
            (if \<not> sg_Found snapshot then (Some SkipLedgerUnknown, zero_result)
             else if \<not> sg_Released snapshot then (Some SkipLocated, zero_result)
             else if ao_LastSendMs op \<ge> nowMs \<or> nowMs - ao_LastSendMs op < msOf (lc_AbandonSafetyGap cfg)
             then (Some SkipRecent, zero_result)
             else (case abandonVerdict (sg_Ledger snapshot) op of
                 LedgerUnseen \<Rightarrow> (None, zero_result)
               | LedgerSeen \<Rightarrow>
                   (case seenForFinalize digest (sg_Ledger snapshot) op of (skip, res) \<Rightarrow> (Some skip, res))
               | LedgerUnknown \<Rightarrow> (Some SkipLedgerUnknown, zero_result)))))"

definition abandonCutoffMs :: "u64 \<Rightarrow> u64 \<Rightarrow> u64" where
  "abandonCutoffMs abandonAfter nowMs =
     (if sint abandonAfter \<le> 0 then 0
      else (let after = msOf abandonAfter in if nowMs \<le> after then 0 else nowMs - after))"

end
