(* ===== verification/AssetSeq.thy ===== *)
theory AssetSeq
  imports AssetLedgerInv
begin

text \<open>
  The allocation of operation numbers (\<^verbatim>\<open>AllocateSeq\<close> of \<^verbatim>\<open>src/go/shared/assetop/seq.go\<close>, \<open>Limits\<close> of
  \<^verbatim>\<open>types.go\<close>) and the channel it forms with the scene's ledger: allocations, recordings and
  settlements as the steps of a transition system.
\<close>

section \<open>The number allocator\<close>

record limits =
  MaxPending :: u32
  MaxSpan :: u64

definition DefaultLimits :: limits where
  "DefaultLimits = \<lparr>MaxPending = 16, MaxSpan = 512\<rparr>"

definition limits_validate :: "limits \<Rightarrow> bool" where
  "limits_validate l = (\<not> MaxSpan l > 512 \<and> \<not> (MaxPending l = 0 \<or> MaxSpan l = 0))"

datatype alloc_error =
  ErrLimits | ErrSeqRowMissing | ErrSeqRowCorrupt | ErrTooManyPending | ErrSeqExhausted

text \<open>\<open>row\<close> is the locked \<open>(next_seq, epoch)\<close>, \<open>pendingSeqs\<close> the numbers of the rows of that epoch
  still pending.  The result is the allocation and the row written back; the column is unsigned, so
  the last number cannot be allocated.\<close>

definition AllocateSeq ::
  "limits \<Rightarrow> (u64 \<times> u64) option \<Rightarrow> u64 list \<Rightarrow> alloc_error + ((u64 \<times> u64) \<times> (u64 \<times> u64))" where
  "AllocateSeq lim row pendingSeqs =
     (if \<not> limits_validate lim then Inl ErrLimits
      else (case row of
          None \<Rightarrow> Inl ErrSeqRowMissing
        | Some (nextSeq, epoch) \<Rightarrow>
            (if epoch = 0 then Inl ErrSeqRowCorrupt
             else (let pending = take (unat (MaxPending lim) + 1) (sort pendingSeqs) in
               if of_nat (length pending) \<ge> MaxPending lim then Inl ErrTooManyPending
               else if pending \<noteq> [] \<and> nextSeq - hd pending \<ge> MaxSpan lim then Inl ErrTooManyPending
               else if nextSeq = maxu64 then Inl ErrSeqExhausted
               else Inr ((epoch, nextSeq), (nextSeq + 1, epoch))))))"

section \<open>The channel of one player and stream\<close>

record channel =
  ch_next :: u64
  ch_pending :: "u64 list"
  ch_ledger :: stream_ledger

text \<open>The allocator hands out a number, the scene records an outcome for a number that is still
  pending, and the service retires a pending number: after it has read the recorded outcome, or
  without one (abandoned or settled by hand) when \<open>blind\<close> allows that.\<close>

inductive channel_step :: "bool \<Rightarrow> limits \<Rightarrow> u64 \<Rightarrow> channel \<Rightarrow> channel \<Rightarrow> bool" for blind lim epoch where
  allocate: "AllocateSeq lim (Some (ch_next c, epoch)) (ch_pending c) = Inr ((epoch, seq), (nxt, epoch))
    \<Longrightarrow> channel_step blind lim epoch c (c\<lparr>ch_next := nxt, ch_pending := seq # ch_pending c\<rparr>)"
| recorded: "seq \<in> set (ch_pending c) \<Longrightarrow> RecordAssetOpOutcome (ch_ledger c) epoch seq kind reason = Some l
    \<Longrightarrow> channel_step blind lim epoch c (c\<lparr>ch_ledger := l\<rparr>)"
| settle: "seq \<in> set (ch_pending c)
    \<Longrightarrow> blind \<or> ClassifySeq (Some (ch_ledger c)) epoch seq \<in> {SeqApplied, SeqRejected}
    \<Longrightarrow> channel_step blind lim epoch c (c\<lparr>ch_pending := removeAll seq (ch_pending c)\<rparr>)"

inductive channel_reachable :: "bool \<Rightarrow> limits \<Rightarrow> u64 \<Rightarrow> channel \<Rightarrow> bool" for blind lim epoch where
  init: "wf_ledger l \<Longrightarrow> seen_below_max l \<Longrightarrow> sl_epoch l < epoch
    \<Longrightarrow> channel_reachable blind lim epoch \<lparr>ch_next = 1, ch_pending = [], ch_ledger = l\<rparr>"
| step: "channel_reachable blind lim epoch c \<Longrightarrow> channel_step blind lim epoch c c'
    \<Longrightarrow> channel_reachable blind lim epoch c'"

inductive_cases channel_stepE: "channel_step blind lim epoch c c'"

text \<open>The largest number recorded and the lower edge of the window, in this epoch.\<close>

definition recorded_max :: "u64 \<Rightarrow> channel \<Rightarrow> nat" where
  "recorded_max epoch c = (if sl_epoch (ch_ledger c) = epoch then unat (sl_max_seq (ch_ledger c)) else 0)"

definition low_edge :: "u64 \<Rightarrow> channel \<Rightarrow> nat" where
  "low_edge epoch c = (if sl_epoch (ch_ledger c) = epoch then unat (sl_watermark (ch_ledger c)) else 0)"

definition channel_inv :: "bool \<Rightarrow> u64 \<Rightarrow> channel \<Rightarrow> bool" where
  "channel_inv blind epoch c \<longleftrightarrow>
     wf_ledger (ch_ledger c) \<and> seen_below_max (ch_ledger c) \<and> sl_epoch (ch_ledger c) \<le> epoch
     \<and> 0 < unat (ch_next c) \<and> recorded_max epoch c < unat (ch_next c)
     \<and> low_edge epoch c \<le> recorded_max epoch c - 1024
     \<and> (\<forall>p \<in> set (ch_pending c). 0 < unat p \<and> unat p < unat (ch_next c) \<and> unat (ch_next c) \<le> unat p + 512)
     \<and> (\<not> blind \<longrightarrow> (\<forall>n. 0 < n \<and> n < unat (ch_next c) \<and> n \<notin> unat ` set (ch_pending c) \<longrightarrow> n \<le> recorded_max epoch c))"

lemma AllocateSeq_Inr:
  assumes "AllocateSeq lim (Some (nextSeq, epoch)) pendingSeqs = Inr ((e, seq), (nxt, e'))"
  shows "seq = nextSeq" and "unat nxt = unat nextSeq + 1"
    and "p \<in> set pendingSeqs \<Longrightarrow> p \<le> nextSeq \<Longrightarrow> unat nextSeq < unat p + 512"
proof -
  let ?pend = "take (unat (MaxPending lim) + 1) (sort pendingSeqs)"
  from assms have v: "limits_validate lim" and few: "\<not> (of_nat (length ?pend) \<ge> MaxPending lim)"
    and span: "\<not> (?pend \<noteq> [] \<and> nextSeq - hd ?pend \<ge> MaxSpan lim)" and nm: "nextSeq \<noteq> maxu64"
    and r: "seq = nextSeq" "nxt = nextSeq + 1"
    by (auto simp: AllocateSeq_def Let_def split: if_splits)
  show "seq = nextSeq" by (fact r)
  have "1 + nextSeq \<noteq> 0" using nm by (metis add.commute eq_neg_iff_add_eq_0)
  then show "unat nxt = unat nextSeq + 1" using r(2) by (simp add: unatSuc add.commute [of _ 1])
  assume p: "p \<in> set pendingSeqs" and le: "p \<le> nextSeq"
  then have ne: "sort pendingSeqs \<noteq> []" by (metis empty_iff list.set(1) set_sort)
  then have hd: "hd ?pend = hd (sort pendingSeqs)" and "?pend \<noteq> []" by simp_all
  have "hd (sort pendingSeqs) \<le> p"
  proof (cases "sort pendingSeqs")
    case (Cons a as)
    then have "sorted (a # as)" and "p \<in> set (a # as)" using p by (metis sorted_sort, metis set_sort)
    with Cons show ?thesis by auto
  qed (use ne in simp)
  with span \<open>?pend \<noteq> []\<close> hd v le have "unat (nextSeq - hd (sort pendingSeqs)) < 512"
    and hle: "hd (sort pendingSeqs) \<le> nextSeq"
    by (auto simp: limits_validate_def word_le_nat_alt word_less_nat_alt)
  then have "unat nextSeq - unat (hd (sort pendingSeqs)) < 512" by (simp add: unat_sub)
  with \<open>hd (sort pendingSeqs) \<le> p\<close> show "unat nextSeq < unat p + 512"
    by (simp add: word_le_nat_alt)
qed

lemma ClassifySeq_newer:
  "sl_epoch l < epoch \<Longrightarrow> ClassifySeq (Some l) epoch seq =
     (if seq = 0 \<or> epoch = 0 then SeqInvalid else if seq \<le> WindowBits then SeqUnseen else SeqJumpTooFar)"
  by (auto simp: ClassifySeq_def Let_def)

lemma channel_inv_step:
  assumes inv: "channel_inv blind epoch c" and e: "epoch \<noteq> 0" and step: "channel_step blind lim epoch c c'"
  shows "channel_inv blind epoch c'"
  using step
proof (cases rule: channel_step.cases)
  case (allocate seq nxt)
  note al = AllocateSeq_Inr [OF allocate(2)]
  have old: "unat (ch_next c) \<le> 511 + unat p" if "p \<in> set (ch_pending c)" for p
    using that al(3) [OF that] inv by (auto simp: channel_inv_def word_le_nat_alt)
  have same: "recorded_max epoch c' = recorded_max epoch c" "low_edge epoch c' = low_edge epoch c"
    by (simp_all add: allocate(1) recorded_max_def low_edge_def)
  show ?thesis
    using inv old al(1,2) unfolding channel_inv_def same by (auto simp: allocate(1) less_Suc_eq)
next
  case (recorded seq kind reason l)
  from inv have wf: "wf_ledger (ch_ledger c)" and sm: "seen_below_max (ch_ledger c)" by (simp_all add: channel_inv_def)
  note rv = Record_verdict [OF wf recorded(3)]
  let ?b = "base_ledger (ch_ledger c) epoch"
  have b: "unat (sl_max_seq ?b) = recorded_max epoch c" "unat (sl_watermark ?b) = low_edge epoch c"
    using inv by (auto simp: base_ledger_def recorded_max_def low_edge_def reset_wf channel_inv_def)
  have new: "recorded_max epoch c' = max (recorded_max epoch c) (unat seq)"
    "low_edge epoch c' = max (low_edge epoch c) (unat seq - 1024)"
    using rv by (simp_all add: recorded(1) recorded_max_def low_edge_def b)
  show ?thesis
    using inv recorded(2) rv(1,2) Record_seen_below_max [OF wf sm recorded(3)]
    unfolding channel_inv_def new by (auto simp: recorded(1))
next
  case (settle seq)
  have same: "recorded_max epoch c' = recorded_max epoch c" "low_edge epoch c' = low_edge epoch c"
    by (simp_all add: settle(1) recorded_max_def low_edge_def)
  have "unat seq \<le> recorded_max epoch c" if nb: "\<not> blind"
  proof -
    from nb settle(3) have o: "ClassifySeq (Some (ch_ledger c)) epoch seq \<in> {SeqApplied, SeqRejected}" by simp
    have wf: "wf_ledger (ch_ledger c)" using inv by (simp add: channel_inv_def)
    have ep: "sl_epoch (ch_ledger c) = epoch"
      using o inv ClassifySeq_newer [of "ch_ledger c" epoch seq]
      by (cases "sl_epoch (ch_ledger c) = epoch") (auto simp: channel_inv_def order_le_less split: if_splits)
    from verdict_classify(1) [OF wf ep e o refl] inv ep show ?thesis
      by (auto simp: channel_inv_def seen_below_max_def recorded_max_def)
  qed
  then show ?thesis
    using inv unfolding channel_inv_def same by (auto simp: settle(1))
qed

lemma channel_reachable_inv:
  "channel_reachable blind lim epoch c \<Longrightarrow> epoch \<noteq> 0 \<Longrightarrow> channel_inv blind epoch c"
proof (induction rule: channel_reachable.induct)
  case (init l)
  then show ?case by (auto simp: channel_inv_def recorded_max_def low_edge_def)
next
  case (step c c')
  then show ?case using channel_inv_step by blast
qed


lemma channel_epoch:
  "channel_inv blind epoch c \<Longrightarrow> sl_epoch (ch_ledger c) \<noteq> epoch \<Longrightarrow> sl_epoch (ch_ledger c) < epoch"
  by (auto simp: channel_inv_def order_le_less)

lemma pending_classes:
  assumes inv: "channel_inv blind epoch c" and "epoch \<noteq> 0" and "p \<in> set (ch_pending c)"
  shows "ClassifySeq (Some (ch_ledger c)) epoch p
      \<in> {SeqUnseen, SeqAheadOfWindow, SeqJumpTooFar, SeqApplied, SeqRejected}"
proof -
  from inv assms(3) have p: "0 < unat p" "unat (ch_next c) \<le> unat p + 512" "unat p < unat (ch_next c)"
    by (auto simp: channel_inv_def)
  then have p0: "p \<noteq> 0" by auto
  have wf: "wf_ledger (ch_ledger c)" using inv by (simp add: channel_inv_def)
  show ?thesis
  proof (cases "sl_epoch (ch_ledger c) = epoch")
    case False
    with channel_epoch [OF inv] have "sl_epoch (ch_ledger c) < epoch" .
    with p0 assms(2) show ?thesis by (simp add: ClassifySeq_newer)
  next
    case True
    with inv p have "\<not> unat p \<le> unat (sl_watermark (ch_ledger c))"
      by (auto simp: channel_inv_def recorded_max_def low_edge_def)
    then show ?thesis using p0
      by (auto simp: ClassifySeq_current [OF wf True assms(2)] verdict_def Let_def split: option.split if_splits)
  qed
qed


text \<open>as long as numbers are only retired after their outcome was read, the channel never jams:
  no pending number is too far ahead of what the scene has recorded, so the scene never refuses a
  delivery for its number.\<close>

theorem pending_never_too_far:
  assumes "channel_reachable False lim epoch c" and "epoch \<noteq> 0" and "p \<in> set (ch_pending c)"
  shows "ClassifySeq (Some (ch_ledger c)) epoch p \<in> {SeqUnseen, SeqAheadOfWindow, SeqApplied, SeqRejected}"
proof -
  note inv = channel_reachable_inv [OF assms(1,2)]
  from inv assms(3) have p: "0 < unat p" "unat p < unat (ch_next c)" by (auto simp: channel_inv_def)
  have close: "unat p \<le> recorded_max epoch c + 1024"
  proof (rule ccontr)
    assume a: "\<not> unat p \<le> recorded_max epoch c + 1024"
    let ?n = "unat (ch_next c) - 513"
    from a p have n: "0 < ?n" "?n < unat (ch_next c)" "recorded_max epoch c < ?n" by linarith+
    have imp: "\<forall>n. 0 < n \<and> n < unat (ch_next c) \<and> n \<notin> unat ` set (ch_pending c) \<longrightarrow> n \<le> recorded_max epoch c"
      using inv by (simp add: channel_inv_def)
    have "?n \<in> unat ` set (ch_pending c)"
    proof (rule ccontr)
      assume "?n \<notin> unat ` set (ch_pending c)"
      with imp n(1,2) have "?n \<le> recorded_max epoch c" by blast
      with n(3) show False by linarith
    qed
    then obtain q where q: "q \<in> set (ch_pending c)" "unat q = ?n" by (metis imageE)
    from inv q(1) have "unat (ch_next c) \<le> unat q + 512" by (simp add: channel_inv_def)
    with q(2) n(1) show False by simp
  qed
  have wf: "wf_ledger (ch_ledger c)" using inv by (simp add: channel_inv_def)
  have "ClassifySeq (Some (ch_ledger c)) epoch p \<noteq> SeqJumpTooFar"
  proof (cases "sl_epoch (ch_ledger c) = epoch")
    case False
    then have "sl_epoch (ch_ledger c) < epoch" "recorded_max epoch c = 0"
      using channel_epoch [OF inv] by (auto simp: recorded_max_def)
    with close show ?thesis by (simp add: ClassifySeq_newer word_le_nat_alt WindowBits_def)
  next
    case True
    have "\<not> (sl_max_seq (ch_ledger c) \<le> maxu64 - MaxSeqJump \<and> p > sl_max_seq (ch_ledger c) + MaxSeqJump)"
      using close True by (intro no_jump) (simp add: recorded_max_def)
    then show ?thesis
      by (auto simp: ClassifySeq_current [OF wf True assms(2)] verdict_def Let_def split: option.split)
  qed
  with pending_classes [OF inv assms(2,3)] show ?thesis by auto
qed

section \<open>Witnesses\<close>

definition sample_channel :: channel where
  "sample_channel = \<lparr>ch_next = 2, ch_pending = [1], ch_ledger = fresh_ledger\<rparr>"

lemma sample_channel_reachable: "channel_reachable blind DefaultLimits 5 sample_channel"
proof -
  let ?c = "\<lparr>ch_next = 1, ch_pending = [], ch_ledger = fresh_ledger\<rparr>"
  have "sl_epoch fresh_ledger < 5" by code_simp
  then have init: "channel_reachable blind DefaultLimits 5 ?c"
    by (intro channel_reachable.init fresh_ledger_wf)
  have "AllocateSeq DefaultLimits (Some (ch_next ?c, 5)) (ch_pending ?c) = Inr ((5, 1), (2, 5))" by code_simp
  from channel_step.allocate [OF this] have "channel_step blind DefaultLimits 5 ?c sample_channel"
    by (simp add: sample_channel_def)
  with init show ?thesis by (rule channel_reachable.step)
qed


theorem pending_never_too_far_witness:
  "ClassifySeq (Some (ch_ledger sample_channel)) 5 1 \<in> {SeqUnseen, SeqAheadOfWindow, SeqApplied, SeqRejected}"
proof -
  have "(1 :: u64) \<in> set (ch_pending sample_channel)" by code_simp
  from pending_never_too_far [OF sample_channel_reachable _ this] show ?thesis by simp
qed

end
