(* ===== verification/AssetOpProps.thy ===== *)
theory AssetOpProps
  imports AssetOp AssetSeq
begin

text \<open>
  What the asset channel promises its services: a row is settled only on the committed ledger's own
  evidence, evidence of a partial grant survives every retry, a row is abandoned only when the ledger
  proves the operation was never recorded, and retry delays stay within their bounds.
\<close>

section \<open>Evidence\<close>

lemma select_stream_Some:
  "select_stream op sel sts = Some (Some st) \<Longrightarrow>
     sel = Some st \<or> (sel = None \<and> st \<in> set sts \<and> sl_stream st = ao_Stream op \<and> sl_epoch st = ao_StreamEpoch op)"
  by (induction sts arbitrary: sel) (fastforce split: if_splits)+

lemma select_stream_only:
  "select_stream op sel sts = Some (Some st) \<Longrightarrow> st' \<in> set sts \<Longrightarrow> sl_stream st' = ao_Stream op \<Longrightarrow> st' = st"
proof (induction sts arbitrary: sel)
  case (Cons a sts)
  have fixed: "select_stream op (Some x) ys = Some (Some st) \<Longrightarrow> x = st" for x ys
    using select_stream_Some by fastforce
  from Cons show ?case by (auto split: if_splits dest: fixed)
qed simp

lemma select_receipt_Some:
  "select_receipt dig op found rs = Some (Some r) \<Longrightarrow>
     found = Some r \<or> (found = None \<and> r \<in> set rs \<and> rp_seq r = ao_Seq op
       \<and> rp_correlation_id r = ao_CorrelationID op \<and> rp_request_digest r = dig)"
  by (induction rs arbitrary: found) (fastforce split: if_splits)+

lemma select_receipt_only:
  "select_receipt dig op found rs = Some (Some r) \<Longrightarrow> r' \<in> set rs \<Longrightarrow> rp_seq r' = ao_Seq op \<Longrightarrow> r' = r"
proof (induction rs arbitrary: found)
  case (Cons a rs)
  have fixed: "select_receipt d op (Some x) ys = Some (Some r) \<Longrightarrow> x = r" for d x ys
    using select_receipt_Some by fastforce
  from Cons show ?case by (auto split: if_splits dest: fixed)
qed simp

lemma matchingReceipt_unfold:
  assumes "matchingReceipt digest (Some l) op = Some r"
  obtains dig st where "ReceiptDigest digest op = Some dig" "select_stream op None l = Some (Some st)"
    "select_receipt dig op None (sl_receipts st) = Some (Some r)"
  using assms by (auto simp: matchingReceipt_def split: option.splits)

lemma matchingReceipt_Some:
  assumes "matchingReceipt digest (Some l) op = Some r"
  shows "\<exists>st \<in> set l. sl_stream st = ao_Stream op \<and> sl_epoch st = ao_StreamEpoch op \<and> r \<in> set (sl_receipts st)"
    and "rp_seq r = ao_Seq op" and "rp_correlation_id r = ao_CorrelationID op"
    and "ReceiptDigest digest op = Some (rp_request_digest r)"
    and "st \<in> set l \<Longrightarrow> sl_stream st = ao_Stream op \<Longrightarrow> r' \<in> set (sl_receipts st) \<Longrightarrow> rp_seq r' = ao_Seq op
      \<Longrightarrow> r' = r"
proof -
  obtain dig s where d: "ReceiptDigest digest op = Some dig" and s: "select_stream op None l = Some (Some s)"
    and r: "select_receipt dig op None (sl_receipts s) = Some (Some r)"
    using assms by (rule matchingReceipt_unfold)
  from select_stream_Some [OF s] select_receipt_Some [OF r]
  show "\<exists>st \<in> set l. sl_stream st = ao_Stream op \<and> sl_epoch st = ao_StreamEpoch op \<and> r \<in> set (sl_receipts st)"
    and "rp_seq r = ao_Seq op" and "rp_correlation_id r = ao_CorrelationID op"
    and "ReceiptDigest digest op = Some (rp_request_digest r)" by (auto simp: d)
  assume "st \<in> set l" "sl_stream st = ao_Stream op" "r' \<in> set (sl_receipts st)" "rp_seq r' = ao_Seq op"
  with select_stream_only [OF s] select_receipt_only [OF r] show "r' = r" by blast
qed

text \<open>What a row may be settled on: the ledger classified this very number, and the one receipt
  under that number is of this very request.\<close>

definition evidence ::
  "(string \<Rightarrow> asset_op \<Rightarrow> bytes) \<Rightarrow> player_ledger \<Rightarrow> asset_op \<Rightarrow> asset_outcome \<Rightarrow> bool" where
  "evidence digest l op outcome \<longleftrightarrow>
     isSceneTerminal outcome
     \<and> fst (ClassifyPersisted (Some l) (ao_Stream op) (ao_StreamEpoch op) (ao_Seq op)) = outcome
     \<and> (\<exists>st \<in> set l. \<exists>r \<in> set (sl_receipts st).
          sl_stream st = ao_Stream op \<and> sl_epoch st = ao_StreamEpoch op \<and> rp_seq r = ao_Seq op
          \<and> rp_correlation_id r = ao_CorrelationID op \<and> ReceiptDigest digest op = Some (rp_request_digest r)
          \<and> (outcome = OUTCOME_APPLIED \<and> ao_Stream op = STREAM_GM_RECALL \<longrightarrow> RecallLineOf op (rp_snapshot r) \<noteq> None)
          \<and> (outcome = OUTCOME_APPLIED \<and> ao_Stream op \<noteq> STREAM_GM_RECALL \<and> escrowsInstances op
               \<longrightarrow> receiptSnapshotMatches op (rp_snapshot r)))"

lemma resultWithReceipt_durable:
  assumes "res_Durable (resultWithReceipt digest l op res)"
  obtains r where "matchingReceipt digest l op = Some r"
    and "resultWithReceipt digest l op res
      = res\<lparr>res_Snapshot := res_Snapshot (resultWithReceipt digest l op res)\<rparr>"
    and "res_Outcome res = OUTCOME_APPLIED \<Longrightarrow> ao_Stream op = STREAM_GM_RECALL \<Longrightarrow> RecallLineOf op (rp_snapshot r) \<noteq> None"
    and "res_Outcome res = OUTCOME_APPLIED \<Longrightarrow> ao_Stream op \<noteq> STREAM_GM_RECALL \<Longrightarrow> escrowsInstances op
      \<Longrightarrow> receiptSnapshotMatches op (rp_snapshot r)"
proof -
  from assms obtain r where "matchingReceipt digest l op = Some r"
    by (auto simp: resultWithReceipt_def zero_result_def Let_def split: option.splits)
  with assms that show thesis
    by (auto simp: resultWithReceipt_def zero_result_def Let_def split: if_splits)
qed

lemma zero_result_simps [simp]:
  "res_Outcome zero_result = OUTCOME_UNKNOWN" "\<not> res_Durable zero_result" "\<not> res_SQLCommitted zero_result"
  "res_Reason zero_result = 0" "\<not> res_Partial zero_result" "\<not> res_Local zero_result" "\<not> Terminal zero_result"
  by (simp_all add: zero_result_def Terminal_def)

lemma resultWithReceipt_cases:
  "resultWithReceipt digest l op res = zero_result \<or> resultWithReceipt digest l op res
      = res\<lparr>res_Snapshot := res_Snapshot (resultWithReceipt digest l op res)\<rparr>"
  by (auto simp: resultWithReceipt_def Let_def split: option.splits)

lemma persisted_result_durable:
  assumes "persisted_result digest (Some l) op = Some proved" and "res_Durable proved"
  shows "evidence digest l op (res_Outcome proved)" and "res_SQLCommitted proved" and "\<not> res_Local proved"
    and "ClassifyPersisted (Some l) (ao_Stream op) (ao_StreamEpoch op) (ao_Seq op)
      = (res_Outcome proved, res_Partial proved, res_Reason proved)"
proof -
  obtain out part reas where c: "ClassifyPersisted (Some l) (ao_Stream op) (ao_StreamEpoch op) (ao_Seq op) = (out, part, reas)"
    by (metis prod_cases3)
  let ?res = "zero_result\<lparr>res_Outcome := out, res_Reason := reas, res_Durable := True,
      res_SQLCommitted := True, res_Partial := part\<rparr>"
  from assms(1) c have t: "isSceneTerminal out" and p: "proved = resultWithReceipt digest (Some l) op ?res"
    by (auto simp: persisted_result_def split: if_splits)
  obtain r where r: "matchingReceipt digest (Some l) op = Some r"
    and eq: "proved = ?res\<lparr>res_Snapshot := res_Snapshot proved\<rparr>"
    and g: "out = OUTCOME_APPLIED \<Longrightarrow> ao_Stream op = STREAM_GM_RECALL \<Longrightarrow> RecallLineOf op (rp_snapshot r) \<noteq> None"
    and e: "out = OUTCOME_APPLIED \<Longrightarrow> ao_Stream op \<noteq> STREAM_GM_RECALL \<Longrightarrow> escrowsInstances op
      \<Longrightarrow> receiptSnapshotMatches op (rp_snapshot r)"
    using assms(2) unfolding p by (rule resultWithReceipt_durable) (simp add: p)
  have f: "res_Outcome proved = out" "res_SQLCommitted proved" "res_Partial proved = part" "res_Reason proved = reas"
    "\<not> res_Local proved"
    using arg_cong [OF eq, of res_Outcome] arg_cong [OF eq, of res_SQLCommitted] arg_cong [OF eq, of res_Partial]
      arg_cong [OF eq, of res_Reason] arg_cong [OF eq, of res_Local] by simp_all
  then show "res_SQLCommitted proved" "\<not> res_Local proved" by blast+
  show "ClassifyPersisted (Some l) (ao_Stream op) (ao_StreamEpoch op) (ao_Seq op)
      = (res_Outcome proved, res_Partial proved, res_Reason proved)" by (simp only: c f)
  show "evidence digest l op (res_Outcome proved)"
  proof -
    from matchingReceipt_Some(1) [OF r] obtain st where st: "st \<in> set l" "sl_stream st = ao_Stream op"
      "sl_epoch st = ao_StreamEpoch op" "r \<in> set (sl_receipts st)" by blast
    show ?thesis
      unfolding evidence_def f(1)
      by (intro conjI bexI [OF _ st(1)] bexI [OF _ st(4)] impI)
        (use t c g e st matchingReceipt_Some(2-4) [OF r] in \<open>simp_all\<close>)
  qed
qed

section \<open>Settling a row\<close>

lemma Decide_Finalize: "Decide res err = ActionFinalize \<longleftrightarrow> err = None \<and> Terminal res"
  by (cases "res_Outcome res") (auto simp: Decide_def Terminal_def split: option.splits)

lemma processOne_Finalized:
  assumes "processOne digest jit cfg localRead read nowMs op deliver = Finalized status res"
  obtains rpc where "rpcFor op nowMs = Some rpc"
    and "deliver_verdict digest cfg localRead read op (deliver rpc) = (res, None)" and "Terminal res"
    and "status = FinalStatus rpc res op"
  using assms
  by (auto simp: processOne_def reschedule_def finalize_def Let_def Decide_Finalize
      split: option.splits prod.splits row_action.splits if_splits)

text \<open>The scene's own answers never carry the mark of a verified commit.\<close>

definition unverified_answers :: "(asset_rpc \<Rightarrow> delivery_error + asset_result) \<Rightarrow> bool" where
  "unverified_answers deliver \<longleftrightarrow> (\<forall>rpc res. deliver rpc = Inr res \<longrightarrow> \<not> res_SQLCommitted res)"

lemma try_proved:
  assumes "\<not> res_SQLCommitted res0" and "res = tryPersistedLedger digest n localRead op res0"
  shows "res = res0 \<or> (\<exists>l. localRead = Some (Some l) \<and> persisted_result digest (Some l) op = Some res)"
  using assms by (auto simp: tryPersistedLedger_def split: option.splits)

lemma verify_proved:
  assumes "verifySQLCommit digest read op res0 = (res, None)" and "Terminal res"
  obtains l proved where "read = Some (Some l)" "persisted_result digest (Some l) op = Some proved" "Terminal proved"
    "res = proved\<lparr>res_Partial := res_Partial proved \<or> res_Partial res0,
                  res_Reason := (if res_Reason proved = 0 then res_Reason res0 else res_Reason proved)\<rparr>"
    "fst (ClassifyPersisted (Some l) (ao_Stream op) (ao_StreamEpoch op) (ao_Seq op)) = res_Outcome res0"
  using assms by (auto simp: verifySQLCommit_def Let_def Terminal_def split: option.splits if_splits)

lemma Terminal_Durable: "Terminal res \<Longrightarrow> res_Durable res"
  by (simp add: Terminal_def split: if_splits)

text \<open>What a settled verdict rests on: the ledger read, and which classification it gave.\<close>

lemma settled_verdict:
  assumes v: "deliver_verdict digest cfg localRead read op (Inr res0) = (res, None)"
    and t: "Terminal res" and un: "\<not> res_SQLCommitted res0"
  obtains l partial reason where "localRead = Some (Some l) \<or> read = Some (Some l)"
    and "evidence digest l op (res_Outcome res)"
    and "ClassifyPersisted (Some l) (ao_Stream op) (ao_StreamEpoch op) (ao_Seq op) = (res_Outcome res, partial, reason)"
    and "partial \<Longrightarrow> res_Partial res" and "\<not> res_Local res0 \<Longrightarrow> res_Outcome res = res_Outcome res0"
    and "\<not> res_Local res0 \<Longrightarrow> res_Partial res0 \<Longrightarrow> res_Partial res"
proof -
  define res1 where "res1 = (if res_Local res0
      then tryPersistedLedger digest (lc_LedgerReadMinAttempts cfg) localRead op res0 else res0)"
  have v': "(if \<not> res_SQLCommitted res1 \<and> isSceneTerminal (res_Outcome res1)
      then verifySQLCommit digest read op res1 else (res1, None)) = (res, None)"
    using v by (simp only: deliver_verdict_def Let_def res1_def sum.case)
  show thesis
  proof (cases "\<not> res_SQLCommitted res1 \<and> isSceneTerminal (res_Outcome res1)")
    case True
    with v' have "verifySQLCommit digest read op res1 = (res, None)" by simp
    then obtain l proved where l: "read = Some (Some l)" "persisted_result digest (Some l) op = Some proved"
      "Terminal proved"
      and r: "res = proved\<lparr>res_Partial := res_Partial proved \<or> res_Partial res1,
                  res_Reason := (if res_Reason proved = 0 then res_Reason res1 else res_Reason proved)\<rparr>"
      and o: "fst (ClassifyPersisted (Some l) (ao_Stream op) (ao_StreamEpoch op) (ao_Seq op)) = res_Outcome res1"
      using t by (rule verify_proved)
    note p = persisted_result_durable [OF l(2) Terminal_Durable [OF l(3)]]
    show thesis
      by (rule that [of l "res_Partial proved" "res_Reason proved"]) (use l p r o in \<open>auto simp: res1_def\<close>)
  next
    case False
    with v' have r: "res1 = res" by (simp split: if_splits)
    with False t have c: "res_SQLCommitted res1" by (auto simp: Terminal_def isSceneTerminal_def split: if_splits)
    with un have loc: "res_Local res0" by (auto simp: res1_def split: if_splits)
    have "res1 = tryPersistedLedger digest (lc_LedgerReadMinAttempts cfg) localRead op res0" by (simp add: res1_def loc)
    from try_proved [OF un this] c un obtain l where
      l: "localRead = Some (Some l)" "persisted_result digest (Some l) op = Some res1"
      by auto
    note p = persisted_result_durable [OF l(2)] 
    show thesis
      by (rule that [of l "res_Partial res" "res_Reason res"])
        (use l p Terminal_Durable [OF t] loc in \<open>auto simp: r\<close>)
  qed
qed


text \<open>The scene cannot change its mind: when it answered online with an outcome, the row is only ever
  settled with that same outcome; a contradiction with the committed ledger leaves the row pending.\<close>

theorem processOne_no_flip:
  assumes "processOne digest jitteredMs cfg localRead read nowMs op deliver = Finalized status res"
    and "unverified_answers deliver" and "rpcFor op nowMs = Some rpc" and "deliver rpc = Inr answer"
    and "\<not> res_Local answer"
  shows "res_Outcome res = res_Outcome answer"
proof -
  obtain rpc' where "rpcFor op nowMs = Some rpc'"
    and "deliver_verdict digest cfg localRead read op (deliver rpc') = (res, None)" and t: "Terminal res"
    using assms(1) by (rule processOne_Finalized)
  with assms(3,4) have v: "deliver_verdict digest cfg localRead read op (Inr answer) = (res, None)" by simp
  have "\<not> res_SQLCommitted answer" using assms(2,4) by (auto simp: unverified_answers_def)
  with v t show ?thesis by (rule settled_verdict) (use assms(5) in blast)
qed

text \<open>whatever was delivered, once the ledger read before settling proves an outcome for this operation
  and the scene's answer agrees, the row is settled: evidence is never left unused.\<close>

theorem processOne_settles_proved:
  assumes "rpcFor op nowMs = Some rpc" and "deliver rpc = Inr answer" and "\<not> res_Local answer"
    and "\<not> res_SQLCommitted answer" and "read = Some (Some l)"
    and "persisted_result digest (Some l) op = Some proved" and "Terminal proved"
    and "res_Outcome proved = res_Outcome answer"
  shows "\<exists>status res. processOne digest jitteredMs cfg localRead read nowMs op deliver = Finalized status res
    \<and> res_Outcome res = res_Outcome proved"
proof -
  note p = persisted_result_durable [OF assms(6) Terminal_Durable [OF assms(7)]]
  let ?res = "proved\<lparr>res_Partial := res_Partial proved \<or> res_Partial answer,
      res_Reason := (if res_Reason proved = 0 then res_Reason answer else res_Reason proved)\<rparr>"
  have st: "isSceneTerminal (res_Outcome answer)" using p(1) assms(8) by (simp add: evidence_def)
  have "deliver_verdict digest cfg localRead read op (deliver rpc) = (?res, None)"
    using st assms(2-8) p(4) by (auto simp: deliver_verdict_def verifySQLCommit_def Let_def)
  moreover have "Terminal ?res" using assms(7) by (simp add: Terminal_def split: if_splits)
  moreover from this have "FinalStatus rpc ?res op \<noteq> StatusPending"
    by (auto simp: FinalStatus_def Terminal_def split: asset_outcome.splits if_splits)
  ultimately show ?thesis using assms(1) by (simp add: processOne_def Decide_Finalize [THEN iffD2] finalize_def Let_def)
qed

section \<open>Partial grants\<close>

text \<open>Half a grant is never booked as a whole one: a row is settled as fully applied only when the
  committed ledger does not list the number as partial, the scene did not answer online that it was,
  and no earlier answer kept on the row said so; and a reschedule keeps that mark on the row.\<close>

theorem partial_never_full:
  assumes "unverified_answers deliver"
  shows "case processOne digest jitteredMs cfg localRead read nowMs op deliver of
      Finalized status res \<Rightarrow> status = StatusApplied \<longrightarrow>
        ao_LastReason op \<noteq> ReasonPartialApplied \<and> res_Reason res \<noteq> ReasonPartialApplied
        \<and> (\<exists>l reason. (localRead = Some (Some l) \<or> read = Some (Some l))
             \<and> ClassifyPersisted (Some l) (ao_Stream op) (ao_StreamEpoch op) (ao_Seq op)
                 = (OUTCOME_APPLIED, False, reason))
        \<and> (\<forall>rpc answer. rpcFor op nowMs = Some rpc \<and> deliver rpc = Inr answer \<and> \<not> res_Local answer
             \<longrightarrow> \<not> res_Partial answer)
    | Rescheduled _ kept \<Rightarrow> ao_LastReason op = ReasonPartialApplied \<longrightarrow> res_Reason kept = ReasonPartialApplied"
proof (cases "processOne digest jitteredMs cfg localRead read nowMs op deliver")
  case (Rescheduled nxt kept)
  then have "\<exists>res. kept = carryPartialReason op res"
    by (auto simp: processOne_def reschedule_def finalize_def Let_def
        split: option.splits prod.splits row_action.splits if_splits)
  then show ?thesis by (auto simp: Rescheduled carryPartialReason_def)
next
  case (Finalized status res)
  have "ao_LastReason op \<noteq> ReasonPartialApplied \<and> res_Reason res \<noteq> ReasonPartialApplied
        \<and> (\<exists>l reason. (localRead = Some (Some l) \<or> read = Some (Some l))
             \<and> ClassifyPersisted (Some l) (ao_Stream op) (ao_StreamEpoch op) (ao_Seq op)
                 = (OUTCOME_APPLIED, False, reason))
        \<and> (\<forall>rpc answer. rpcFor op nowMs = Some rpc \<and> deliver rpc = Inr answer \<and> \<not> res_Local answer
             \<longrightarrow> \<not> res_Partial answer)" if st: "status = StatusApplied"
  proof -
    obtain rpc where rpc: "rpcFor op nowMs = Some rpc"
      and v: "deliver_verdict digest cfg localRead read op (deliver rpc) = (res, None)" and t: "Terminal res"
      and s: "status = FinalStatus rpc res op"
      using Finalized by (rule processOne_Finalized)
    from s st have np: "\<not> res_Partial res" "ao_LastReason op \<noteq> ReasonPartialApplied"
      "res_Reason res \<noteq> ReasonPartialApplied" "res_Outcome res = OUTCOME_APPLIED"
      by (auto simp: FinalStatus_def split: asset_outcome.splits if_splits)
    from v obtain res0 where d: "deliver rpc = Inr res0" by (auto simp: deliver_verdict_def split: sum.splits)
    with assms have un: "\<not> res_SQLCommitted res0" by (auto simp: unverified_answers_def)
    obtain l partial reason where l: "localRead = Some (Some l) \<or> read = Some (Some l)"
      and _: "evidence digest l op (res_Outcome res)"
      and l2: "ClassifyPersisted (Some l) (ao_Stream op) (ao_StreamEpoch op) (ao_Seq op) = (res_Outcome res, partial, reason)"
      and l3: "partial \<Longrightarrow> res_Partial res" and _: "\<not> res_Local res0 \<Longrightarrow> res_Outcome res = res_Outcome res0"
      and l4: "\<not> res_Local res0 \<Longrightarrow> res_Partial res0 \<Longrightarrow> res_Partial res"
      using v t un unfolding d by (rule settled_verdict) (rule that)
    from np l2 l3 have c: "ClassifyPersisted (Some l) (ao_Stream op) (ao_StreamEpoch op) (ao_Seq op)
        = (OUTCOME_APPLIED, False, reason)" by auto
    show ?thesis using np l l4 c rpc d by auto
  qed
  then show ?thesis unfolding Finalized settlement.case by (rule impI)
qed

section \<open>Recall receipts\<close>

text \<open>An accepted recall line adds up exactly: what was requested is what was taken, owed and missed, it
  is for the one asset and the amount of the request, and it is the receipt's only line.\<close>

theorem recall_line_adds_up:
  assumes "RecallLineOf op snapshot = Some line"
  shows "unat (rl_requested line) = unat (rl_taken line) + unat (rl_debt line) + unat (rl_shortfall line)
    \<and> (\<exists>s. snapshot = Some s \<and> as_recall_lines s = [line] \<and> as_items s = [] \<and> as_pet s = None)
    \<and> (ab_currencies (ao_Bundle op) = [(rl_currency_type line, rl_requested line)] \<and> ab_items (ao_Bundle op) = []
         \<and> rl_config_id line = 0
       \<or> ab_currencies (ao_Bundle op) = [] \<and> rl_debt line = 0
         \<and> (\<exists>n. ab_items (ao_Bundle op) = [(rl_config_id line, n)] \<and> rl_requested line = ucast n))"
proof -
  from assms obtain s where s: "snapshot = Some s" "length (as_recall_lines s) = 1" "\<not> snapshotHasInstances snapshot"
    by (auto simp: RecallLineOf_def split: option.splits if_splits)
  then obtain l where l: "as_recall_lines s = [l]" by (cases "as_recall_lines s") auto
  from assms s l have r: "line = l" "rl_taken l \<le> rl_requested l" "rl_debt l \<le> rl_requested l - rl_taken l"
      "rl_shortfall l = rl_requested l - rl_taken l - rl_debt l"
    by (auto simp: RecallLineOf_def Let_def not_less split: list.splits if_splits prod.splits)
  then have "unat (rl_requested l) = unat (rl_taken l) + unat (rl_debt l) + unat (rl_shortfall l)"
    by (simp add: unat_sub word_le_nat_alt)
  moreover have "as_items s = []" "as_pet s = None" using s by (cases "as_pet s"; simp add: snapshotHasInstances_def)+
  moreover have "ab_currencies (ao_Bundle op) = [(rl_currency_type l, rl_requested l)] \<and> ab_items (ao_Bundle op) = []
         \<and> rl_config_id l = 0
       \<or> ab_currencies (ao_Bundle op) = [] \<and> rl_debt l = 0
         \<and> (\<exists>n. ab_items (ao_Bundle op) = [(rl_config_id l, n)] \<and> rl_requested l = ucast n)"
    using assms s l by (auto simp: RecallLineOf_def Let_def split: list.splits if_splits prod.splits)
  ultimately show ?thesis using r(1) s l by simp
qed

section \<open>Acknowledging and abandoning\<close>

text \<open>An acknowledgement is only reported done when the scene confirmed it and the committed ledger no
  longer holds an escrowed original under that number.\<close>

theorem acknowledge_released:
  assumes "AcknowledgeReceipt digest deliver read req = Inr True"
  shows "(\<exists>res. deliver RPCAckReceipt = Inr res \<and> res_Outcome res = OUTCOME_APPLIED)
    \<and> (\<exists>l st. read = Some (Some l) \<and> st \<in> set l \<and> sl_stream st = ao_Stream req \<and> sl_epoch st = ao_StreamEpoch req
         \<and> (\<forall>r \<in> set (sl_receipts st). rp_seq r = ao_Seq req \<longrightarrow> \<not> snapshotHasInstances (rp_snapshot r)))"
proof -
  from assms obtain l where d: "\<exists>res. deliver RPCAckReceipt = Inr res \<and> res_Outcome res = OUTCOME_APPLIED"
    and l: "read = Some (Some l)" and a: "ack_stream digest l req"
    by (auto simp: AcknowledgeReceipt_def split: if_splits sum.splits option.splits)
  from a obtain st where f: "find (\<lambda>st. sl_stream st = ao_Stream req \<and> sl_epoch st = ao_StreamEpoch req) l = Some st"
    by (auto simp: ack_stream_def split: option.splits)
  then have st: "st \<in> set l" "sl_stream st = ao_Stream req" "sl_epoch st = ao_StreamEpoch req"
    by (auto simp: find_Some_iff)
  have "\<not> snapshotHasInstances (rp_snapshot r)" if r: "r \<in> set (sl_receipts st)" "rp_seq r = ao_Seq req" for r
  proof (cases "ao_Seq req \<le> sl_watermark st")
    case True
    with a f r show ?thesis by (auto simp: ack_stream_def)
  next
    case False
    with a f obtain receipt where m: "matchingReceipt digest (Some l) req = Some receipt"
      "\<not> snapshotHasInstances (rp_snapshot receipt)"
      by (auto simp: ack_stream_def split: option.splits if_splits)
    from matchingReceipt_Some(5) [OF m(1) st(1,2) r] m(2) show ?thesis by simp
  qed
  with d l st show ?thesis by blast
qed

text \<open>C32: a row is given up only on proof: its player is held by no scene, it is older than the cutoff,
  the last possible delivery is at least the safety gap ago, and the ledger read with it shows that
  the number was never recorded, so no outcome could have been booked for it.\<close>

theorem abandon_only_unseen:
  assumes "judgeAbandon digest cfg read op cutoffMs nowMs = (None, res)"
  shows "\<exists>s l. read = Some s \<and> sg_Found s \<and> sg_Released s \<and> sg_Ledger s = Some l
    \<and> ClassifySeq (FindStream (Some l) (ao_Stream op)) (ao_StreamEpoch op) (ao_Seq op) \<in> {SeqUnseen, SeqAheadOfWindow}
    \<and> persisted_result digest (Some l) op = None \<and> ao_CreatedMs op < cutoffMs
    \<and> unat (ao_LastSendMs op) + unat (msOf (lc_AbandonSafetyGap cfg)) \<le> unat nowMs \<and> ApplyRPCOf (ao_Stream op) \<noteq> None"
proof -
  from assms obtain s where s: "read = Some s" "sg_Found s" "sg_Released s"
    and v: "abandonVerdict (sg_Ledger s) op = LedgerUnseen"
    and c: "ao_CreatedMs op < cutoffMs" "ApplyRPCOf (ao_Stream op) \<noteq> None"
    and g: "ao_LastSendMs op < nowMs" "msOf (lc_AbandonSafetyGap cfg) \<le> nowMs - ao_LastSendMs op"
    by (auto simp: judgeAbandon_def not_le not_less split: if_splits option.splits ledger_verdict.splits prod.splits)
  from v obtain l where l: "sg_Ledger s = Some l"
    "ClassifySeq (FindStream (Some l) (ao_Stream op)) (ao_StreamEpoch op) (ao_Seq op) \<in> {SeqUnseen, SeqAheadOfWindow}"
    by (auto simp: abandonVerdict_def split: option.splits seq_state.splits)
  from l(2) have "persisted_result digest (Some l) op = None"
    by (auto simp: persisted_result_def ClassifyPersisted_def Let_def isSceneTerminal_def)
  moreover have "unat (nowMs - ao_LastSendMs op) = unat nowMs - unat (ao_LastSendMs op)"
    using g(1) by (simp add: unat_sub)
  ultimately show ?thesis using s l c g by (auto simp: word_le_nat_alt word_less_nat_alt)
qed

section \<open>Retry delays\<close>

text \<open>The delay before jitter is exactly the capped exponential: for a base below 2 to the 47 nanoseconds
  (39 hours) the shift cannot overflow, and the delay never falls below the base nor exceeds the cap.\<close>

theorem backoff_exact:
  assumes "0 < sint base" and "sint base < 2 ^ 47" and "sint base \<le> sint mx"
  shows "sint (backoffDelay attempts base mx) = min (sint base * 2 ^ min (unat attempts) 16) (sint mx)"
proof -
  let ?s = "min (unat attempts) 16"
  have s: "(if attempts > 16 then 16 else unat attempts) = ?s" by (simp add: word_less_nat_alt)
  have "(2 :: int) ^ ?s \<le> 2 ^ 16" by (rule power_increasing) simp_all
  with assms(1,2) have "sint base * 2 ^ ?s < 2 ^ 47 * 2 ^ 16" by (intro mult_less_le_imp_less) simp_all
  then have b: "sint base * 2 ^ ?s < 2 ^ 63" by simp
  have low: "- (2 ^ 63) \<le> sint base * 2 ^ ?s" using assms(1) by (smt (verit) mult_nonneg_nonneg zero_le_power)
  have "push_bit ?s base = word_of_int (sint base * 2 ^ ?s)"
    by (simp add: push_bit_eq_mult)
  then have "sint (push_bit ?s base) = signed_take_bit 63 (sint base * 2 ^ ?s)"
    by (simp only: sint_sbintrunc' ) simp
  also have "\<dots> = sint base * 2 ^ ?s" using b low by (simp add: signed_take_bit_int_eq_self)
  finally have p: "sint (push_bit ?s base) = sint base * 2 ^ ?s" .
  have "0 < sint base * 2 ^ ?s" using assms(1) by simp
  with assms(1,3) p show ?thesis unfolding backoffDelay_def Let_def s by (simp add: not_less min_def)
qed

section \<open>Witnesses\<close>

definition sample_digest :: "string \<Rightarrow> asset_op \<Rightarrow> bytes" where
  "sample_digest caller op = replicate 32 7"

definition sample_asset_op :: asset_op where
  "sample_asset_op = \<lparr>ao_OpID = 1, ao_PlayerID = 10, ao_Stream = STREAM_GUILD_DEBIT, ao_Seq = 3,
     ao_StreamEpoch = 5, ao_CorrelationID = 77, ao_TxType = 2,
     ao_Bundle = \<lparr>ab_currencies = [(1, 100)], ab_items = [], ab_item_uuids = [], ab_pet_id = 0\<rparr>,
     ao_Attempts = 2, ao_DeadlineMs = 0, ao_LeaseToken = 9, ao_LastReason = 0, ao_CreatedMs = 1000,
     ao_LastSendMs = 2000\<rparr>"

definition sample_receipt :: "asset_snapshot option \<Rightarrow> asset_receipt" where
  "sample_receipt snapshot = \<lparr>rp_seq = 3, rp_correlation_id = 77, rp_request_digest = replicate 32 7,
     rp_snapshot = snapshot\<rparr>"

definition sample_ledger :: player_ledger where
  "sample_ledger = [(the (RecordAssetOpOutcome fresh_ledger 5 3 KindApplied 0))\<lparr>sl_receipts := [sample_receipt None]\<rparr>]"

definition sample_config :: loop_config where
  "sample_config = \<lparr>lc_BaseBackoff = 1000000000, lc_MaxBackoff = 60000000000, lc_AwaitDurableDelay = 500000000,
     lc_LedgerReadMinAttempts = 3, lc_AbandonSafetyGap = 600000000000,
     lc_Parking = \<lparr>op_AfterAttempts = 0, op_Backoff = 0\<rparr>\<rparr>"

definition sample_answer :: asset_result where
  "sample_answer = zero_result\<lparr>res_Outcome := OUTCOME_APPLIED\<rparr>"

definition sample_settlement :: settlement where
  "sample_settlement = processOne sample_digest (\<lambda>d. d) sample_config (Some None) (Some (Some sample_ledger)) 5000
     sample_asset_op (\<lambda>_. Inr sample_answer)"

lemma sample_settled:
  "\<exists>res. sample_settlement = Finalized StatusApplied res"
proof -
  have "case sample_settlement of Finalized st _ \<Rightarrow> st = StatusApplied | _ \<Rightarrow> False" by code_simp
  then show ?thesis by (auto split: settlement.splits)
qed

lemma sample_unverified: "unverified_answers (\<lambda>_. Inr sample_answer)"
  by (simp add: unverified_answers_def sample_answer_def)


theorem processOne_no_flip_witness:
  "\<exists>res. sample_settlement = Finalized StatusApplied res \<and> res_Outcome res = OUTCOME_APPLIED"
proof -
  obtain res where r: "sample_settlement = Finalized StatusApplied res" using sample_settled by blast
  have rpc: "rpcFor sample_asset_op 5000 = Some RPCDebit" by code_simp
  have "\<not> res_Local sample_answer" by code_simp
  from processOne_no_flip [OF r [unfolded sample_settlement_def] sample_unverified rpc refl this] r
  show ?thesis by (auto simp: sample_answer_def)
qed

theorem processOne_settles_proved_witness:
  "\<exists>status res. sample_settlement = Finalized status res"
proof -
  have rpc: "rpcFor sample_asset_op 5000 = Some RPCDebit" by code_simp
  let ?p = "the (persisted_result sample_digest (Some sample_ledger) sample_asset_op)"
  have "persisted_result sample_digest (Some sample_ledger) sample_asset_op \<noteq> None" by code_simp
  then have p: "persisted_result sample_digest (Some sample_ledger) sample_asset_op = Some ?p" by simp
  have "\<not> res_Local sample_answer" "\<not> res_SQLCommitted sample_answer" "Terminal ?p"
    "res_Outcome ?p = res_Outcome sample_answer" by code_simp+
  from processOne_settles_proved [OF rpc, of "\<lambda>_. Inr sample_answer", OF refl this(1,2) refl p this(3,4)]
  show ?thesis unfolding sample_settlement_def by blast
qed

theorem partial_never_full_witness:
  "case sample_settlement of Finalized status res \<Rightarrow> status = StatusApplied \<and> res_Reason res \<noteq> ReasonPartialApplied
   | Rescheduled _ _ \<Rightarrow> False"
proof -
  obtain res where r: "sample_settlement = Finalized StatusApplied res" using sample_settled by blast
  from partial_never_full [OF sample_unverified, where digest = sample_digest and jitteredMs = "\<lambda>d. d"
      and cfg = sample_config and localRead = "Some None" and read = "Some (Some sample_ledger)" and nowMs = 5000
      and op = sample_asset_op] r
  show ?thesis by (simp add: sample_settlement_def)
qed

definition sample_recall :: recall_line where
  "sample_recall = \<lparr>rl_config_id = 0, rl_currency_type = 1, rl_requested = 100, rl_taken = 60, rl_debt = 30, rl_shortfall = 10\<rparr>"

theorem recall_line_adds_up_witness:
  "unat (rl_requested sample_recall)
     = unat (rl_taken sample_recall) + unat (rl_debt sample_recall) + unat (rl_shortfall sample_recall)"
proof -
  have "RecallLineOf sample_asset_op (Some \<lparr>as_items = [], as_pet = None, as_recall_lines = [sample_recall]\<rparr>)
      = Some sample_recall" by code_simp
  from recall_line_adds_up [OF this] show ?thesis by blast
qed

theorem acknowledge_released_witness:
  "\<exists>st \<in> set sample_ledger. \<forall>r \<in> set (sl_receipts st). rp_seq r = 3 \<longrightarrow> \<not> snapshotHasInstances (rp_snapshot r)"
proof -
  have "AcknowledgeReceipt sample_digest (\<lambda>_. Inr sample_answer) (Some (Some sample_ledger)) sample_asset_op = Inr True"
    by code_simp
  from acknowledge_released [OF this] show ?thesis by (auto simp: sample_asset_op_def)
qed

theorem abandon_only_unseen_witness:
  "persisted_result sample_digest (Some [fresh_ledger]) sample_asset_op = None"
proof -
  let ?s = "\<lparr>sg_Found = True, sg_Released = True, sg_Ledger = Some [fresh_ledger]\<rparr>"
  have "fst (judgeAbandon sample_digest sample_config (Some ?s) sample_asset_op 5000 1000000) = None" by code_simp
  then have "judgeAbandon sample_digest sample_config (Some ?s) sample_asset_op 5000 1000000
      = (None, snd (judgeAbandon sample_digest sample_config (Some ?s) sample_asset_op 5000 1000000))"
    by (metis prod.collapse)
  from abandon_only_unseen [OF this] show ?thesis by auto
qed

theorem backoff_exact_witness: "sint (backoffDelay 4 1000000000 60000000000) = 16000000000"
proof -
  have "sint (1000000000 :: u64) = 1000000000" "sint (60000000000 :: u64) = 60000000000" by simp_all
  with backoff_exact [of 1000000000 60000000000 4] show ?thesis by simp
qed

end
