(* ===== verification/GuildOutbox.thy ===== *)
theory GuildOutbox
  imports AssetOp AssetSeq "HOL-Library.AList"
begin

text \<open>
  The guild service's outbox of asset operations and the money it moves
  (\<^verbatim>\<open>src/go/guild/internal/data/asset_store.go\<close>, \<^verbatim>\<open>economy_repo.go\<close>): the tables as one database record,
  every statement that changes an operation row as a compare-and-set on that row, the transactions
  that reserve a donation or a shop order, the settlement with its counterparty ledger and the guild
  upgrade.  A transaction that returns an error leaves the database as it was.
\<close>

section \<open>Tables\<close>

datatype guild_op_kind = KIND_DONATE | KIND_SHOP | KIND_ACTIVITY_REWARD | KIND_OTHER

datatype counter_kind = COUNTER_DONATE | COUNTER_SHOP | COUNTER_ACTIVITY

record guild_op_row =
  ar_op_id :: u64
  ar_player_id :: u64
  ar_stream :: asset_stream
  ar_seq :: u64
  ar_guild_id :: u64
  ar_kind :: guild_op_kind
  ar_status :: op_status
  ar_durable :: bool
  ar_attempts :: u32
  ar_next_attempt_ms :: u64
  ar_deadline_ms :: u64
  ar_payload :: bytes
  ar_ref_id :: u32
  ar_ref_count :: u32
  ar_period_key :: u32
  ar_contribution_delta :: u64
  ar_funds_delta :: u64
  ar_reason_tip_id :: u32
  ar_created_ms :: u64
  ar_updated_ms :: u64
  ar_lease_until_ms :: u64
  ar_lease_token :: u64
  ar_tx_type :: u32
  ar_last_outcome :: asset_outcome
  ar_last_reason :: u32
  ar_stream_epoch :: u64
  ar_resolved_by :: string
  ar_resolve_reason :: string
  ar_last_send_ms :: u64

record guild_row =
  gu_name :: string
  gu_name_norm :: string
  gu_leader_id :: u64
  gu_level :: u32
  gu_announcement :: string
  gu_create_time_ms :: u64
  gu_max_members :: u32
  gu_zone_id :: u32
  gu_score :: i64
  gu_funds :: u64

record member_row =
  gm_role :: u32
  gm_join_time_ms :: u64
  gm_last_active_ms :: u64
  gm_total :: u64
  gm_balance :: u64

type_synonym counter_key = "u64 \<times> counter_kind \<times> u32 \<times> u32"

record guild_db =
  gd_guilds :: "(u64 \<times> guild_row) list"
  gd_members :: "((u64 \<times> u64) \<times> member_row) list"
  gd_op :: "guild_op_row list"
  gd_seq :: "u64 \<times> asset_stream \<rightharpoonup> u64 \<times> u64"
  gd_counter :: "counter_key \<rightharpoonup> u32"
  gd_request :: "u64 \<times> u64 \<rightharpoonup> u64"

text \<open>The guild and member tables are the lists of their rows under their primary keys; a point access is
  the lookup.\<close>

abbreviation gd_guild :: "guild_db \<Rightarrow> u64 \<rightharpoonup> guild_row" where
  "gd_guild db \<equiv> map_of (gd_guilds db)"

abbreviation gd_member :: "guild_db \<Rightarrow> u64 \<times> u64 \<rightharpoonup> member_row" where
  "gd_member db \<equiv> map_of (gd_members db)"

declare AList.update_conv' [simp] AList.delete_conv' [simp]

datatype economy_error =
    ErrInvalidReserve | ErrGuildGone | ErrGuildLevelTooLow | ErrNotGuildMember | ErrClientRequestReplayed
  | ErrSeqEpochZero | ErrAllocate alloc_error | ErrDuplicateKey | ErrOutOfRange | ErrDonateLimit | ErrShopLimit
  | ErrContributionInsufficient | ErrNotTerminal | ErrManualAudit | ErrLeaseLost | ErrLeaseNotHeld
  | ErrRowVanished | ErrPoisonRow | ErrRankTooLow | ErrGuildLevelConfigMissing | ErrGuildMaxLevel
  | ErrFundsInsufficient | ErrExactlyOneRow
  | ErrGuildFull | ErrPlayerAlreadyInGuild | ErrGuildNameTaken | ErrGuildZoneMismatch | ErrAnnouncementForbidden
  | ErrTargetNotMember | ErrOfficerLimit | ErrLeaderCantLeave | ErrLeaderMismatch | ErrApplicationNotFound
  | ErrApplicationLimit | ErrApplicationQueueFull | ErrWriteConflict | ErrPlayerStateRowMissing | ErrBadRequest

text \<open>\<open>UPDATE ... WHERE op_id = ? AND cond\<close>: \<open>None\<close> when no row is affected.  The driver counts changed
  rows, so a matched row that keeps all its values is not affected either.\<close>

definition cas_op ::
  "u64 \<Rightarrow> (guild_op_row \<Rightarrow> bool) \<Rightarrow> (guild_op_row \<Rightarrow> guild_op_row) \<Rightarrow> guild_db \<Rightarrow> guild_db option" where
  "cas_op opID cond f db =
     (case find (\<lambda>r. ar_op_id r = opID) (gd_op db) of
        None \<Rightarrow> None
      | Some r \<Rightarrow> (if cond r \<and> f r \<noteq> r
                   then Some (db\<lparr>gd_op := update_first (\<lambda>r. ar_op_id r = opID) f (gd_op db)\<rparr>) else None))"

definition find_op :: "guild_db \<Rightarrow> u64 \<Rightarrow> guild_op_row option" where
  "find_op db opID = find (\<lambda>r. ar_op_id r = opID) (gd_op db)"

section \<open>Statements on an operation row\<close>

definition claim_cond :: "u64 \<Rightarrow> guild_op_row \<Rightarrow> bool" where
  "claim_cond nowMs r = (ar_status r = StatusPending \<and> ar_lease_until_ms r < nowMs)"

definition claim_set :: "u64 \<Rightarrow> u64 \<Rightarrow> u64 \<Rightarrow> guild_op_row \<Rightarrow> guild_op_row" where
  "claim_set nowMs leaseUntilMs token r =
     r\<lparr>ar_last_send_ms := max (if ar_last_send_ms r = 0 then max (ar_created_ms r) (ar_updated_ms r)
                               else ar_last_send_ms r) (ar_lease_until_ms r),
       ar_lease_until_ms := leaseUntilMs, ar_lease_token := token, ar_updated_ms := nowMs\<rparr>"

definition held_cond :: "u64 \<Rightarrow> guild_op_row \<Rightarrow> bool" where
  "held_cond token r = (ar_status r = StatusPending \<and> ar_lease_token r = token)"

definition poison_set :: "u64 \<Rightarrow> u64 \<Rightarrow> guild_op_row \<Rightarrow> guild_op_row" where
  "poison_set poisonUntilMs nowMs r =
     r\<lparr>ar_last_outcome := OUTCOME_UNKNOWN, ar_next_attempt_ms := poisonUntilMs, ar_lease_until_ms := 0,
       ar_updated_ms := nowMs\<rparr>"

definition reschedule_set :: "u64 \<Rightarrow> asset_result \<Rightarrow> u64 \<Rightarrow> guild_op_row \<Rightarrow> guild_op_row" where
  "reschedule_set nextAttemptMs res nowMs r =
     r\<lparr>ar_attempts := ar_attempts r + 1, ar_next_attempt_ms := nextAttemptMs, ar_lease_until_ms := 0,
       ar_durable := res_Durable res, ar_last_outcome := res_Outcome res, ar_last_reason := res_Reason res,
       ar_updated_ms := nowMs,
       ar_last_send_ms := (if res_Local res then ar_last_send_ms r else max (ar_last_send_ms r) nowMs)\<rparr>"

definition finalize_set :: "op_status \<Rightarrow> asset_result \<Rightarrow> u64 \<Rightarrow> guild_op_row \<Rightarrow> guild_op_row" where
  "finalize_set status res nowMs r =
     r\<lparr>ar_status := status, ar_durable := True, ar_last_outcome := res_Outcome res, ar_last_reason := res_Reason res,
       ar_reason_tip_id := (if status = StatusRejected then res_Reason res else 0),
       ar_lease_until_ms := 0, ar_next_attempt_ms := nowMs, ar_updated_ms := nowMs\<rparr>"

definition resolve_set :: "op_status \<Rightarrow> string \<Rightarrow> string \<Rightarrow> u64 \<Rightarrow> guild_op_row \<Rightarrow> guild_op_row" where
  "resolve_set final operator reason nowMs r =
     r\<lparr>ar_status := final, ar_resolved_by := operator, ar_resolve_reason := reason, ar_lease_until_ms := 0,
       ar_next_attempt_ms := nowMs, ar_updated_ms := nowMs\<rparr>"

definition abandon_set :: "u64 \<Rightarrow> guild_op_row \<Rightarrow> guild_op_row" where
  "abandon_set nowMs r =
     r\<lparr>ar_status := StatusAbandoned, ar_lease_until_ms := 0, ar_next_attempt_ms := nowMs, ar_updated_ms := nowMs\<rparr>"

definition release_set :: "u64 \<Rightarrow> guild_op_row \<Rightarrow> guild_op_row" where
  "release_set nowMs r = r\<lparr>ar_lease_until_ms := 0, ar_updated_ms := nowMs\<rparr>"

definition accelerate_set :: "u64 \<Rightarrow> guild_op_row \<Rightarrow> guild_op_row" where
  "accelerate_set now r =
     r\<lparr>ar_deadline_ms := now, ar_next_attempt_ms := min (ar_next_attempt_ms r) now, ar_updated_ms := now\<rparr>"

section \<open>Leases\<close>

definition FreshAttemptLimit :: u32 where "FreshAttemptLimit = 3"

definition due_key :: "guild_op_row \<Rightarrow> u64 \<times> u64" where
  "due_key r = (ar_next_attempt_ms r, ar_op_id r)"

definition listDueSegment :: "bool \<Rightarrow> guild_db \<Rightarrow> u64 \<Rightarrow> nat \<Rightarrow> u64 list" where
  "listDueSegment fresh db nowMs limit =
     take limit (map ar_op_id (sort_key due_key (filter (\<lambda>r.
        ar_status r = StatusPending \<and> ar_next_attempt_ms r \<le> nowMs \<and> ar_lease_until_ms r < nowMs
        \<and> (if fresh then ar_attempts r < FreshAttemptLimit else ar_attempts r \<ge> FreshAttemptLimit)) (gd_op db))))"

text \<open>The two segments are two reads: \<open>db2\<close> is the database the second one sees.\<close>

definition ListDue :: "guild_db \<Rightarrow> guild_db \<Rightarrow> u64 \<Rightarrow> int \<Rightarrow> u64 list" where
  "ListDue db db2 nowMs limit =
     (if limit \<le> 0 then []
      else (let fresh = listDueSegment True db nowMs (nat limit) in
        if length fresh \<ge> nat limit then fresh
        else fresh @ filter (\<lambda>i. i \<notin> set fresh) (listDueSegment False db2 nowMs (nat limit - length fresh))))"

definition assetOpOf :: "guild_op_row \<Rightarrow> asset_bundle \<Rightarrow> asset_op" where
  "assetOpOf r bundle =
     \<lparr>ao_OpID = ar_op_id r, ao_PlayerID = ar_player_id r, ao_Stream = ar_stream r, ao_Seq = ar_seq r,
      ao_StreamEpoch = ar_stream_epoch r, ao_CorrelationID = ar_op_id r, ao_TxType = ar_tx_type r,
      ao_Bundle = bundle, ao_Attempts = ar_attempts r, ao_DeadlineMs = ar_deadline_ms r, ao_LeaseToken = 0,
      ao_LastReason = ar_last_reason r, ao_CreatedMs = ar_created_ms r, ao_LastSendMs = ar_last_send_ms r\<rparr>"

definition markPoison :: "guild_db \<Rightarrow> u64 \<Rightarrow> u64 \<Rightarrow> u64 \<Rightarrow> u64 \<Rightarrow> guild_db" where
  "markPoison db opID token nowMs poisonUntilMs =
     (case cas_op opID (held_cond token) (poison_set poisonUntilMs nowMs) db of None \<Rightarrow> db | Some db' \<Rightarrow> db')"

text \<open>The claim and the read of the claimed row are two statements; \<open>others\<close> is what other sessions do in
  between.  \<open>decode\<close> is the decoding of the payload.\<close>

definition Claim ::
  "(bytes \<Rightarrow> asset_bundle option) \<Rightarrow> (guild_db \<Rightarrow> guild_db) \<Rightarrow> guild_db \<Rightarrow> u64 \<Rightarrow> u64 \<Rightarrow> u64 \<Rightarrow> u64 \<Rightarrow> u64
     \<Rightarrow> guild_db \<times> (economy_error + asset_op option)" where
  "Claim decode others db opID nowMs leaseUntilMs poisonUntilMs token =
     (case cas_op opID (claim_cond nowMs) (claim_set nowMs leaseUntilMs token) db of
        None \<Rightarrow> (db, Inr None)
      | Some db1 \<Rightarrow>
          (let db2 = others db1 in
           case find_op db2 opID of
             None \<Rightarrow> (db2, Inl ErrRowVanished)
           | Some r \<Rightarrow>
               (if ar_status r \<noteq> StatusPending \<or> ar_lease_token r \<noteq> token then (db2, Inr None)
                else (case (if ar_payload r = [] then None else decode (ar_payload r)) of
                    None \<Rightarrow> (markPoison db2 opID token nowMs poisonUntilMs, Inl ErrPoisonRow)
                  | Some bundle \<Rightarrow> (db2, Inr (Some ((assetOpOf r bundle)\<lparr>ao_LeaseToken := token\<rparr>)))))))"

definition Reschedule ::
  "guild_db \<Rightarrow> asset_op \<Rightarrow> u64 \<Rightarrow> asset_result \<Rightarrow> u64 \<Rightarrow> economy_error + guild_db" where
  "Reschedule db op nextAttemptMs res nowMs =
     (case find_op db (ao_OpID op) of
        None \<Rightarrow> Inl ErrLeaseLost
      | Some r \<Rightarrow>
          (if held_cond (ao_LeaseToken op) r \<and> ar_attempts r = - 1 then Inl ErrOutOfRange
           else (case cas_op (ao_OpID op) (held_cond (ao_LeaseToken op)) (reschedule_set nextAttemptMs res nowMs) db of
               None \<Rightarrow> Inl ErrLeaseLost
             | Some db' \<Rightarrow> Inr db')))"

definition ReleaseLease :: "guild_db \<Rightarrow> asset_op \<Rightarrow> u64 \<Rightarrow> economy_error + guild_db" where
  "ReleaseLease db op nowMs =
     (if ao_LeaseToken op = 0 then Inl ErrLeaseNotHeld
      else (case cas_op (ao_OpID op) (held_cond (ao_LeaseToken op)) (release_set nowMs) db of
          None \<Rightarrow> Inl ErrLeaseLost
        | Some db' \<Rightarrow> Inr db'))"

section \<open>The counterparty ledger\<close>

definition isTerminalRecord :: "op_status \<Rightarrow> bool" where
  "isTerminalRecord st = (st \<in> {StatusApplied, StatusRejected, StatusAborted, StatusAppliedPartial})"

definition refundsCounterparty :: "op_status \<Rightarrow> bool" where
  "refundsCounterparty status = (status \<in> {StatusRejected, StatusAborted, StatusAbandoned})"

definition counterRefund :: "guild_op_row \<Rightarrow> op_status \<Rightarrow> (counter_kind \<times> u32) option" where
  "counterRefund row status =
     (if \<not> refundsCounterparty status \<or> ar_period_key row = 0 then None
      else (case ar_kind row of
          KIND_DONATE \<Rightarrow> Some (COUNTER_DONATE, 1)
        | KIND_SHOP \<Rightarrow> (if ar_ref_count row > 0 then Some (COUNTER_SHOP, ar_ref_count row) else None)
        | _ \<Rightarrow> None))"

record counterparty_locks =
  cl_guildOK :: bool
  cl_memberOK :: bool

definition lockCounterparty :: "guild_db \<Rightarrow> guild_op_row \<Rightarrow> op_status \<Rightarrow> counterparty_locks" where
  "lockCounterparty db row status =
     (let member = gd_member db (ar_guild_id row, ar_player_id row) \<noteq> None in
      if ar_kind row = KIND_DONATE \<and> status = StatusApplied then
        (if gd_guild db (ar_guild_id row) = None then \<lparr>cl_guildOK = False, cl_memberOK = False\<rparr>
         else \<lparr>cl_guildOK = True, cl_memberOK = member\<rparr>)
      else if ar_kind row = KIND_SHOP \<and> refundsCounterparty status then
        \<lparr>cl_guildOK = False, cl_memberOK = member\<rparr>
      else \<lparr>cl_guildOK = False, cl_memberOK = False\<rparr>)"

text \<open>Unsigned columns: adding past the width is an error of the statement, never a wrap.\<close>

definition add_checked :: "u64 \<Rightarrow> u64 \<Rightarrow> u64 option" where
  "add_checked a b = (if a + b < a then None else Some (a + b))"

definition creditFunds :: "guild_db \<Rightarrow> u64 \<Rightarrow> u64 \<Rightarrow> economy_error + guild_db" where
  "creditFunds db guild n =
     (case gd_guild db guild of
        None \<Rightarrow> Inl ErrExactlyOneRow
      | Some g \<Rightarrow> (case add_checked (gu_funds g) n of
          None \<Rightarrow> Inl ErrOutOfRange
        | Some f \<Rightarrow> Inr (db\<lparr>gd_guilds := AList.update guild (g\<lparr>gu_funds := f\<rparr>) (gd_guilds db)\<rparr>)))"

definition creditContribution :: "bool \<Rightarrow> guild_db \<Rightarrow> u64 \<Rightarrow> u64 \<Rightarrow> u64 \<Rightarrow> economy_error + guild_db" where
  "creditContribution withTotal db guild player n =
     (case gd_member db (guild, player) of
        None \<Rightarrow> Inl ErrExactlyOneRow
      | Some m \<Rightarrow>
          (case (if withTotal then add_checked (gm_total m) n else Some (gm_total m), add_checked (gm_balance m) n) of
             (Some t, Some b) \<Rightarrow>
               Inr (db\<lparr>gd_members := AList.update (guild, player) (m\<lparr>gm_total := t, gm_balance := b\<rparr>) (gd_members db)\<rparr>)
           | _ \<Rightarrow> Inl ErrOutOfRange))"

definition refundCounter :: "guild_db \<Rightarrow> guild_op_row \<Rightarrow> counter_kind \<Rightarrow> u32 \<Rightarrow> guild_db" where
  "refundCounter db row kind n =
     (if ar_period_key row = 0 \<or> n = 0 then db
      else (let key = (ar_player_id row, kind, ar_ref_id row, ar_period_key row) in
        case gd_counter db key of
          None \<Rightarrow> db
        | Some used \<Rightarrow> db\<lparr>gd_counter := (gd_counter db)(key \<mapsto> (if used \<ge> n then used - n else 0))\<rparr>))"

datatype orphan = NoOrphan | GuildGone | MemberGone | RefundMemberGone

definition applyCounterparty ::
  "guild_db \<Rightarrow> guild_op_row \<Rightarrow> op_status \<Rightarrow> counterparty_locks \<Rightarrow> economy_error + guild_db \<times> orphan" where
  "applyCounterparty db row status locks =
     (if status = StatusAppliedPartial then Inr (db, NoOrphan)
      else (let booked = (case ar_kind row of
            KIND_DONATE \<Rightarrow>
              (if status = StatusApplied then
                 (if \<not> cl_guildOK locks then Inr (db, GuildGone)
                  else (case (if ar_funds_delta row > 0 then creditFunds db (ar_guild_id row) (ar_funds_delta row)
                              else Inr db) of
                      Inl e \<Rightarrow> Inl e
                    | Inr db1 \<Rightarrow>
                        (if \<not> cl_memberOK locks then Inr (db1, MemberGone)
                         else (case (if ar_contribution_delta row > 0
                                     then creditContribution True db1 (ar_guild_id row) (ar_player_id row)
                                            (ar_contribution_delta row)
                                     else Inr db1) of
                             Inl e \<Rightarrow> Inl e | Inr db2 \<Rightarrow> Inr (db2, NoOrphan)))))
               else Inr (db, NoOrphan))
          | KIND_SHOP \<Rightarrow>
              (if refundsCounterparty status then
                 (if \<not> cl_memberOK locks then Inr (db, RefundMemberGone)
                  else if ar_contribution_delta row > 0 then
                    (case creditContribution False db (ar_guild_id row) (ar_player_id row)
                            (ar_contribution_delta row) of
                       Inl e \<Rightarrow> Inl e | Inr db1 \<Rightarrow> Inr (db1, NoOrphan))
                  else Inr (db, NoOrphan))
               else Inr (db, NoOrphan))
          | _ \<Rightarrow> Inr (db, NoOrphan))
        in case booked of
             Inl e \<Rightarrow> Inl e
           | Inr (db', orphan) \<Rightarrow>
               Inr (case counterRefund row status of
                      None \<Rightarrow> db' | Some (kind, n) \<Rightarrow> refundCounter db' row kind n, orphan)))"

text \<open>\<open>db0\<close> is the database of the read before the transaction, \<open>db\<close> the one the transaction runs on.
  The answer is whether this call settled the row.\<close>

definition terminate ::
  "guild_db \<Rightarrow> guild_db \<Rightarrow> u64 \<Rightarrow> op_status \<Rightarrow> (guild_op_row \<Rightarrow> bool) \<Rightarrow> (guild_op_row \<Rightarrow> guild_op_row)
     \<Rightarrow> economy_error + guild_db \<times> bool" where
  "terminate db0 db opID status cond f =
     (case find_op db0 opID of
        None \<Rightarrow> Inr (db, False)
      | Some row \<Rightarrow>
          (let locks = lockCounterparty db row status in
           case cas_op opID cond f db of
             None \<Rightarrow> Inr (db, False)
           | Some db1 \<Rightarrow>
               (case applyCounterparty db1 row status locks of
                  Inl e \<Rightarrow> Inl e
                | Inr (db2, _) \<Rightarrow> Inr (db2, True))))"

definition pending_cond :: "guild_op_row \<Rightarrow> bool" where
  "pending_cond r = (ar_status r = StatusPending)"

definition Finalize ::
  "guild_db \<Rightarrow> guild_db \<Rightarrow> asset_op \<Rightarrow> op_status \<Rightarrow> asset_result \<Rightarrow> u64 \<Rightarrow> economy_error + guild_db \<times> bool" where
  "Finalize db0 db op status res nowMs =
     (if \<not> isTerminalRecord status then Inl ErrNotTerminal
      else terminate db0 db (ao_OpID op) status pending_cond (finalize_set status res nowMs))"

record manual_resolution =
  mr_OpID :: u64
  mr_Final :: op_status
  mr_Operator :: string
  mr_Reason :: string

definition validateManualAudit :: "manual_resolution \<Rightarrow> bool" where
  "validateManualAudit r =
     (mr_Operator r \<noteq> [] \<and> \<not> length (mr_Operator r) > 64 \<and> \<not> length (mr_Reason r) > 191)"

definition manualFinalRecord :: "manual_resolution \<Rightarrow> economy_error option" where
  "manualFinalRecord r = (if \<not> isTerminalRecord (mr_Final r) then Some ErrNotTerminal
     else if \<not> validateManualAudit r then Some ErrManualAudit else None)"

definition ResolveManually ::
  "guild_db \<Rightarrow> guild_db \<Rightarrow> manual_resolution \<Rightarrow> u64 \<Rightarrow> economy_error + guild_db \<times> bool" where
  "ResolveManually db0 db r nowMs =
     (case manualFinalRecord r of
        Some e \<Rightarrow> Inl e
      | None \<Rightarrow> terminate db0 db (mr_OpID r) (mr_Final r) pending_cond
                  (resolve_set (mr_Final r) (mr_Operator r) (mr_Reason r) nowMs))"

definition quiet_cond :: "u64 \<Rightarrow> u64 \<Rightarrow> guild_op_row \<Rightarrow> bool" where
  "quiet_cond leaseUntilMs lastSendMs r =
     (ar_status r = StatusPending \<and> ar_lease_until_ms r = leaseUntilMs \<and> ar_last_send_ms r = lastSendMs)"

definition ResolveManuallyIfQuiet ::
  "guild_db \<Rightarrow> guild_db \<Rightarrow> manual_resolution \<Rightarrow> u64 \<Rightarrow> u64 \<Rightarrow> u64 \<Rightarrow> economy_error + guild_db \<times> bool" where
  "ResolveManuallyIfQuiet db0 db r leaseUntilMs lastSendMs nowMs =
     (case manualFinalRecord r of
        Some e \<Rightarrow> Inl e
      | None \<Rightarrow> terminate db0 db (mr_OpID r) (mr_Final r) (quiet_cond leaseUntilMs lastSendMs)
                  (resolve_set (mr_Final r) (mr_Operator r) (mr_Reason r) nowMs))"

definition Abandon :: "guild_db \<Rightarrow> guild_db \<Rightarrow> asset_op \<Rightarrow> u64 \<Rightarrow> economy_error + guild_db" where
  "Abandon db0 db op nowMs =
     (if ao_LeaseToken op = 0 then Inl ErrLeaseNotHeld
      else (case terminate db0 db (ao_OpID op) StatusAbandoned (held_cond (ao_LeaseToken op)) (abandon_set nowMs) of
          Inl e \<Rightarrow> Inl e
        | Inr (db', abandoned) \<Rightarrow> (if \<not> abandoned then Inl ErrLeaseLost else Inr db')))"

section \<open>Reservations\<close>

definition checkClientRequestTx :: "guild_db \<Rightarrow> u64 \<Rightarrow> u64 \<Rightarrow> bool" where
  "checkClientRequestTx db player request = (request = 0 \<or> gd_request db (player, request) = None)"

definition insertClientRequestTx :: "guild_db \<Rightarrow> u64 \<Rightarrow> u64 \<Rightarrow> u64 \<Rightarrow> economy_error + guild_db" where
  "insertClientRequestTx db player request opID =
     (if request = 0 then Inr db
      else if gd_request db (player, request) \<noteq> None then Inl ErrClientRequestReplayed
      else Inr (db\<lparr>gd_request := (gd_request db)((player, request) \<mapsto> opID)\<rparr>))"

definition ensureSeqRowTx :: "guild_db \<Rightarrow> u64 \<Rightarrow> asset_stream \<Rightarrow> u64 \<Rightarrow> economy_error + guild_db" where
  "ensureSeqRowTx db player stream nowMs =
     (if gd_seq db (player, stream) \<noteq> None then Inr db
      else if nowMs = 0 then Inl ErrSeqEpochZero
      else Inr (db\<lparr>gd_seq := (gd_seq db)((player, stream) \<mapsto> (1, nowMs))\<rparr>))"

definition pendingSeqs :: "guild_db \<Rightarrow> u64 \<Rightarrow> asset_stream \<Rightarrow> u64 \<Rightarrow> u64 list" where
  "pendingSeqs db player stream epoch =
     map ar_seq (filter (\<lambda>r. ar_player_id r = player \<and> ar_stream r = stream \<and> ar_stream_epoch r = epoch
       \<and> ar_status r = StatusPending) (gd_op db))"

definition allocateTx ::
  "guild_db \<Rightarrow> u64 \<Rightarrow> asset_stream \<Rightarrow> economy_error + (u64 \<times> u64) \<times> guild_db" where
  "allocateTx db player stream =
     (let row = gd_seq db (player, stream);
          epoch = (case row of None \<Rightarrow> 0 | Some (_, e) \<Rightarrow> e) in
      case AllocateSeq DefaultLimits row (pendingSeqs db player stream epoch) of
        Inl e \<Rightarrow> Inl (ErrAllocate e)
      | Inr (alloc, row') \<Rightarrow> Inr (alloc, db\<lparr>gd_seq := (gd_seq db)((player, stream) \<mapsto> row')\<rparr>))"

definition lastSendMsOnInsert :: "guild_op_row \<Rightarrow> u64" where
  "lastSendMsOnInsert rec = max (ar_last_send_ms rec) (ar_created_ms rec)"

text \<open>The table has a primary key and a unique key on player, stream, epoch and number.\<close>

definition insertAssetOp :: "guild_db \<Rightarrow> guild_op_row \<Rightarrow> economy_error + guild_db" where
  "insertAssetOp db rec =
     (if (\<exists>r \<in> set (gd_op db). ar_op_id r = ar_op_id rec
          \<or> ar_player_id r = ar_player_id rec \<and> ar_stream r = ar_stream rec
            \<and> ar_stream_epoch r = ar_stream_epoch rec \<and> ar_seq r = ar_seq rec) then Inl ErrDuplicateKey
      else Inr (db\<lparr>gd_op := gd_op db @ [rec\<lparr>ar_last_send_ms := lastSendMsOnInsert rec\<rparr>]\<rparr>))"

text \<open>\<open>None\<close>: the limit would be exceeded and nothing changed.\<close>

definition upsertCounterWithLimit :: "guild_db \<Rightarrow> counter_key \<Rightarrow> u32 \<Rightarrow> u32 \<Rightarrow> guild_db option" where
  "upsertCounterWithLimit db key n limit =
     (case gd_counter db key of
        None \<Rightarrow> Some (db\<lparr>gd_counter := (gd_counter db)(key \<mapsto> n)\<rparr>)
      | Some used \<Rightarrow>
          (if unat used + unat n \<le> unat limit
           then Some (db\<lparr>gd_counter := (gd_counter db)(key \<mapsto> used + n)\<rparr>) else None))"

record donation_reserve =
  dr_OpID :: u64
  dr_PlayerID :: u64
  dr_GuildID :: u64
  dr_DonateID :: u32
  dr_MinGuildLevel :: u32
  dr_ContributionGain :: u64
  dr_FundsGain :: u64
  dr_DailyLimit :: u32
  dr_PeriodKey :: u32
  dr_DeadlineMs :: u64
  dr_LeaseUntilMs :: u64
  dr_LeaseToken :: u64
  dr_NowMs :: u64
  dr_Payload :: bytes
  dr_ClientRequestID :: u64

definition donation_validate :: "donation_reserve \<Rightarrow> bool" where
  "donation_validate i =
     (\<not> (dr_OpID i = 0 \<or> dr_PlayerID i = 0 \<or> dr_GuildID i = 0) \<and> \<not> (dr_NowMs i = 0 \<or> dr_LeaseToken i = 0)
      \<and> \<not> (dr_LeaseUntilMs i \<le> dr_NowMs i \<or> dr_DeadlineMs i \<le> dr_NowMs i)
      \<and> \<not> (dr_DailyLimit i = 0 \<or> dr_PeriodKey i = 0) \<and> dr_Payload i \<noteq> [])"

text \<open>The row a reservation inserts; the transaction types are the generated constants of the rollback
  protocol.\<close>

definition TX_GUILD_DONATE :: u32 where "TX_GUILD_DONATE = 24"
definition TX_GUILD_SHOP :: u32 where "TX_GUILD_SHOP = 25"

definition donation_row :: "donation_reserve \<Rightarrow> u64 \<times> u64 \<Rightarrow> guild_op_row" where
  "donation_row i alloc =
     \<lparr>ar_op_id = dr_OpID i, ar_player_id = dr_PlayerID i, ar_stream = STREAM_GUILD_DEBIT, ar_seq = snd alloc,
      ar_guild_id = dr_GuildID i, ar_kind = KIND_DONATE, ar_status = StatusPending, ar_durable = False,
      ar_attempts = 0, ar_next_attempt_ms = dr_LeaseUntilMs i, ar_deadline_ms = dr_DeadlineMs i,
      ar_payload = dr_Payload i, ar_ref_id = dr_DonateID i, ar_ref_count = 1, ar_period_key = dr_PeriodKey i,
      ar_contribution_delta = dr_ContributionGain i, ar_funds_delta = dr_FundsGain i, ar_reason_tip_id = 0,
      ar_created_ms = dr_NowMs i, ar_updated_ms = dr_NowMs i, ar_lease_until_ms = dr_LeaseUntilMs i,
      ar_lease_token = dr_LeaseToken i, ar_tx_type = TX_GUILD_DONATE, ar_last_outcome = OUTCOME_UNKNOWN,
      ar_last_reason = 0, ar_stream_epoch = fst alloc, ar_resolved_by = [], ar_resolve_reason = [],
      ar_last_send_ms = 0\<rparr>"

definition ReserveDonation :: "guild_db \<Rightarrow> donation_reserve \<Rightarrow> economy_error + guild_db \<times> (u64 \<times> u64)" where
  "ReserveDonation db i =
     (if \<not> donation_validate i then Inl ErrInvalidReserve
      else (case gd_guild db (dr_GuildID i) of
          None \<Rightarrow> Inl ErrGuildGone
        | Some g \<Rightarrow>
            (if gu_level g < dr_MinGuildLevel i then Inl ErrGuildLevelTooLow
             else if gd_member db (dr_GuildID i, dr_PlayerID i) = None then Inl ErrNotGuildMember
             else if \<not> checkClientRequestTx db (dr_PlayerID i) (dr_ClientRequestID i) then Inl ErrClientRequestReplayed
             else (case ensureSeqRowTx db (dr_PlayerID i) STREAM_GUILD_DEBIT (dr_NowMs i) of
                 Inl e \<Rightarrow> Inl e
               | Inr db1 \<Rightarrow>
                   (case allocateTx db1 (dr_PlayerID i) STREAM_GUILD_DEBIT of
                      Inl e \<Rightarrow> Inl e
                    | Inr (alloc, db2) \<Rightarrow>
                        (case insertAssetOp db2 (donation_row i alloc) of
                           Inl e \<Rightarrow> Inl e
                         | Inr db3 \<Rightarrow>
                             (case upsertCounterWithLimit db3
                                     (dr_PlayerID i, COUNTER_DONATE, dr_DonateID i, dr_PeriodKey i) 1 (dr_DailyLimit i) of
                                None \<Rightarrow> Inl ErrDonateLimit
                              | Some db4 \<Rightarrow>
                                  (case insertClientRequestTx db4 (dr_PlayerID i) (dr_ClientRequestID i) (dr_OpID i) of
                                     Inl e \<Rightarrow> Inl e
                                   | Inr db5 \<Rightarrow> Inr (db5, alloc)))))))))"

record shop_reserve =
  sr_OpID :: u64
  sr_PlayerID :: u64
  sr_GuildID :: u64
  sr_GoodsID :: u32
  sr_Count :: u32
  sr_RequiredGuildLevel :: u32
  sr_Cost :: u64
  sr_LimitCount :: u32
  sr_PeriodKey :: u32
  sr_LeaseUntilMs :: u64
  sr_LeaseToken :: u64
  sr_NowMs :: u64
  sr_Payload :: bytes
  sr_ClientRequestID :: u64

definition shop_validate :: "shop_reserve \<Rightarrow> bool" where
  "shop_validate i =
     (\<not> (sr_OpID i = 0 \<or> sr_PlayerID i = 0 \<or> sr_GuildID i = 0)
      \<and> \<not> (sr_NowMs i = 0 \<or> sr_LeaseToken i = 0 \<or> sr_LeaseUntilMs i \<le> sr_NowMs i)
      \<and> \<not> (sr_Count i = 0 \<or> sr_Cost i = 0) \<and> \<not> ((sr_LimitCount i = 0) \<noteq> (sr_PeriodKey i = 0)) \<and> sr_Payload i \<noteq> [])"

definition shop_row :: "shop_reserve \<Rightarrow> u64 \<times> u64 \<Rightarrow> guild_op_row" where
  "shop_row i alloc =
     \<lparr>ar_op_id = sr_OpID i, ar_player_id = sr_PlayerID i, ar_stream = STREAM_GUILD_CREDIT, ar_seq = snd alloc,
      ar_guild_id = sr_GuildID i, ar_kind = KIND_SHOP, ar_status = StatusPending, ar_durable = False,
      ar_attempts = 0, ar_next_attempt_ms = sr_LeaseUntilMs i, ar_deadline_ms = 0,
      ar_payload = sr_Payload i, ar_ref_id = sr_GoodsID i, ar_ref_count = sr_Count i, ar_period_key = sr_PeriodKey i,
      ar_contribution_delta = sr_Cost i, ar_funds_delta = 0, ar_reason_tip_id = 0,
      ar_created_ms = sr_NowMs i, ar_updated_ms = sr_NowMs i, ar_lease_until_ms = sr_LeaseUntilMs i,
      ar_lease_token = sr_LeaseToken i, ar_tx_type = TX_GUILD_SHOP, ar_last_outcome = OUTCOME_UNKNOWN,
      ar_last_reason = 0, ar_stream_epoch = fst alloc, ar_resolved_by = [], ar_resolve_reason = [],
      ar_last_send_ms = 0\<rparr>"

definition debitContribution :: "guild_db \<Rightarrow> u64 \<Rightarrow> u64 \<Rightarrow> u64 \<Rightarrow> guild_db option" where
  "debitContribution db guild player cost =
     (case gd_member db (guild, player) of
        None \<Rightarrow> None
      | Some m \<Rightarrow>
          (if gm_balance m \<ge> cost \<and> cost \<noteq> 0
           then Some (db\<lparr>gd_members := AList.update (guild, player) (m\<lparr>gm_balance := gm_balance m - cost\<rparr>) (gd_members db)\<rparr>)
           else None))"

definition ReserveShopOrder ::
  "guild_db \<Rightarrow> shop_reserve \<Rightarrow> economy_error + guild_db \<times> (u64 \<times> u64) \<times> u64" where
  "ReserveShopOrder db i =
     (if \<not> shop_validate i then Inl ErrInvalidReserve
      else if sr_LimitCount i > 0 \<and> sr_Count i > sr_LimitCount i then Inl ErrShopLimit
      else (case gd_guild db (sr_GuildID i) of
          None \<Rightarrow> Inl ErrGuildGone
        | Some g \<Rightarrow>
            (if gu_level g < sr_RequiredGuildLevel i then Inl ErrGuildLevelTooLow
             else (case gd_member db (sr_GuildID i, sr_PlayerID i) of
                 None \<Rightarrow> Inl ErrNotGuildMember
               | Some m \<Rightarrow>
                   (if \<not> checkClientRequestTx db (sr_PlayerID i) (sr_ClientRequestID i) then Inl ErrClientRequestReplayed
                    else if gm_balance m < sr_Cost i then Inl ErrContributionInsufficient
                    else (case ensureSeqRowTx db (sr_PlayerID i) STREAM_GUILD_CREDIT (sr_NowMs i) of
                        Inl e \<Rightarrow> Inl e
                      | Inr db1 \<Rightarrow>
                          (case allocateTx db1 (sr_PlayerID i) STREAM_GUILD_CREDIT of
                             Inl e \<Rightarrow> Inl e
                           | Inr (alloc, db2) \<Rightarrow>
                               (case insertAssetOp db2 (shop_row i alloc) of
                                  Inl e \<Rightarrow> Inl e
                                | Inr db3 \<Rightarrow>
                                    (case (if sr_LimitCount i > 0
                                           then upsertCounterWithLimit db3
                                                  (sr_PlayerID i, COUNTER_SHOP, sr_GoodsID i, sr_PeriodKey i)
                                                  (sr_Count i) (sr_LimitCount i)
                                           else Some db3) of
                                       None \<Rightarrow> Inl ErrShopLimit
                                     | Some db4 \<Rightarrow>
                                         (case debitContribution db4 (sr_GuildID i) (sr_PlayerID i) (sr_Cost i) of
                                            None \<Rightarrow> Inl ErrContributionInsufficient
                                          | Some db5 \<Rightarrow>
                                              (case insertClientRequestTx db5 (sr_PlayerID i) (sr_ClientRequestID i)
                                                      (sr_OpID i) of
                                                 Inl e \<Rightarrow> Inl e
                                               | Inr db6 \<Rightarrow> Inr (db6, alloc, gm_balance m - sr_Cost i))))))))))))"

section \<open>Deadlines and upgrades\<close>

definition accelerate_candidate :: "u64 \<Rightarrow> u64 list \<Rightarrow> u64 \<Rightarrow> guild_op_row \<Rightarrow> bool" where
  "accelerate_candidate guild players now r =
     (ar_player_id r \<in> set players \<and> ar_stream r = STREAM_GUILD_DEBIT \<and> ar_status r = StatusPending
      \<and> ar_guild_id r = guild \<and> ar_kind r = KIND_DONATE \<and> ar_deadline_ms r > now)"

definition accelerate_cond :: "u64 \<Rightarrow> guild_op_row \<Rightarrow> bool" where
  "accelerate_cond now r = (ar_status r = StatusPending \<and> ar_deadline_ms r > now)"

definition accelerateDonationDeadlines :: "guild_db \<Rightarrow> u64 \<Rightarrow> u64 list \<Rightarrow> u64 \<Rightarrow> guild_db option" where
  "accelerateDonationDeadlines db guild players now =
     (if now = 0 then None
      else Some (fold (\<lambda>opID d. case cas_op opID (accelerate_cond now) (accelerate_set now) d of None \<Rightarrow> d | Some d' \<Rightarrow> d')
        (remdups (sort (map ar_op_id (filter (accelerate_candidate guild players now) (gd_op db))))) db))"

definition Rank :: "u32 \<Rightarrow> nat" where
  "Rank role = (if role = 0 then 1 else if role = 1 then 2 else if role = 3 then 3 else 0)"

definition UpgradeGuild ::
  "(u32 \<Rightarrow> (u64 \<times> u32) option) \<Rightarrow> guild_db \<Rightarrow> u64 \<Rightarrow> u64 \<Rightarrow> u32 \<Rightarrow> economy_error + guild_db \<times> bool \<times> u32" where
  "UpgradeGuild levels db guild player expectedLevel =
     (case gd_guild db guild of
        None \<Rightarrow> Inl ErrGuildGone
      | Some g \<Rightarrow>
          (case gd_member db (guild, player) of
             None \<Rightarrow> Inl ErrNotGuildMember
           | Some m \<Rightarrow>
               (if Rank (gm_role m) < 2 then Inl ErrRankTooLow
                else if expectedLevel \<noteq> 0 \<and> expectedLevel \<noteq> gu_level g then Inr (db, False, gu_level g)
                else (case levels (gu_level g) of
                    None \<Rightarrow> Inl ErrGuildLevelConfigMissing
                  | Some (cost, _) \<Rightarrow>
                      (if cost = 0 then Inl ErrGuildMaxLevel
                       else (case levels (gu_level g + 1) of
                           None \<Rightarrow> Inl ErrGuildLevelConfigMissing
                         | Some (_, nextMaxMembers) \<Rightarrow>
                             (if gu_funds g < cost then Inl ErrFundsInsufficient
                              else Inr (db\<lparr>gd_guilds := AList.update guild
                                     (g\<lparr>gu_level := gu_level g + 1, gu_funds := gu_funds g - cost,
                                        gu_max_members := nextMaxMembers\<rparr>) (gd_guilds db)\<rparr>,
                                   True, gu_level g + 1))))))))"

end
