(* ===== verification/GuildOutboxInv.thy ===== *)
theory GuildOutboxInv
  imports GuildOutbox
begin

text \<open>
  The invariant of the guild economy: the daily counters equal the reservations that still count, guild
  funds equal the donations booked minus what upgrades spent, and settled rows never change.
\<close>

section \<open>Statements on operation rows\<close>

definition immutable_cols ::
  "guild_op_row \<Rightarrow> u64 \<times> u64 \<times> u64 \<times> asset_stream \<times> guild_op_kind \<times> u32 \<times> u32 \<times> u32 \<times> u64 \<times> u64" where
  "immutable_cols r = (ar_op_id r, ar_player_id r, ar_guild_id r, ar_stream r, ar_kind r, ar_ref_id r,
     ar_ref_count r, ar_period_key r, ar_contribution_delta r, ar_funds_delta r)"

definition status_of :: "guild_db \<Rightarrow> u64 \<Rightarrow> op_status option" where
  "status_of db opID = map_option ar_status (find_op db opID)"

lemma find_update_first:
  "(\<And>r. p (f r) = p r) \<Longrightarrow> find p (update_first p f xs) = map_option f (find p xs)"
  by (induction xs) auto

lemma find_update_first_other:
  "(\<And>r. p r \<Longrightarrow> \<not> q r) \<Longrightarrow> (\<And>r. p r \<Longrightarrow> \<not> q (f r)) \<Longrightarrow> find q (update_first p f xs) = find q xs"
  by (induction xs) auto

lemma sum_update_first:
  fixes h :: "'a \<Rightarrow> nat"
  shows "find p xs = Some r \<Longrightarrow> sum_list (map h (update_first p f xs)) + h r = sum_list (map h xs) + h (f r)"
  by (induction xs) (auto split: if_splits)

lemma cas_op_Some:
  assumes "cas_op opID cond f db = Some db'"
  obtains r where "find_op db opID = Some r" "cond r" "f r \<noteq> r"
    "db' = db\<lparr>gd_op := update_first (\<lambda>r. ar_op_id r = opID) f (gd_op db)\<rparr>"
  using assms by (auto simp: cas_op_def find_op_def split: option.splits if_splits)

text \<open>A statement that only ever touches pending rows and leaves their immutable columns alone.\<close>

locale pending_statement =
  fixes cond :: "guild_op_row \<Rightarrow> bool" and f :: "guild_op_row \<Rightarrow> guild_op_row"
  assumes only_pending: "cond r \<Longrightarrow> ar_status r = StatusPending"
    and keeps_immutable: "immutable_cols (f r) = immutable_cols r"
begin

lemma keeps_id: "ar_op_id (f r) = ar_op_id r"
  using keeps_immutable [of r] by (simp add: immutable_cols_def)

lemma cas_find:
  assumes "cas_op opID cond f db = Some db'"
  shows "find_op db' other = (if other = opID then map_option f (find_op db opID) else find_op db other)"
proof -
  from assms obtain r where "db' = db\<lparr>gd_op := update_first (\<lambda>r. ar_op_id r = opID) f (gd_op db)\<rparr>"
    by (rule cas_op_Some)
  then show ?thesis
    by (auto simp: find_op_def keeps_id intro!: find_update_first find_update_first_other)
qed

lemma cas_settled:
  assumes "cas_op opID cond f db = Some db'" and "find_op db other = Some r" and "ar_status r \<noteq> StatusPending"
  shows "find_op db' other = Some r"
proof -
  from assms(1) obtain r' where "find_op db opID = Some r'" "cond r'" by (rule cas_op_Some)
  with only_pending assms(2,3) have "other \<noteq> opID" by auto
  with cas_find [OF assms(1)] assms(2) show ?thesis by simp
qed

end

locale lease_statement = pending_statement +
  assumes keeps_status: "ar_status (f r) = ar_status r"
begin

lemma cas_sum:
  fixes h :: "guild_op_row \<Rightarrow> nat"
  assumes "cas_op opID cond f db = Some db'"
    and "\<And>r r'. immutable_cols r = immutable_cols r' \<Longrightarrow> ar_status r = ar_status r' \<Longrightarrow> h r = h r'"
  shows "sum_list (map h (gd_op db')) = sum_list (map h (gd_op db))"
proof -
  from assms(1) obtain r where r: "find_op db opID = Some r"
    "db' = db\<lparr>gd_op := update_first (\<lambda>r. ar_op_id r = opID) f (gd_op db)\<rparr>" by (rule cas_op_Some)
  have "h (f r) = h r" by (rule assms(2)) (simp_all add: keeps_immutable keeps_status)
  with sum_update_first [of "\<lambda>r. ar_op_id r = opID" "gd_op db" r h f] r show ?thesis
    by (simp add: find_op_def)
qed

end

locale settle_statement = pending_statement +
  fixes status :: op_status
  assumes sets_status: "ar_status (f r) = status"
begin

lemma cas_sum_settle:
  fixes h :: "guild_op_row \<Rightarrow> nat"
  assumes "cas_op opID cond f db = Some db'" and "find_op db opID = Some r"
  shows "sum_list (map h (gd_op db')) + h r = sum_list (map h (gd_op db)) + h (f r)"
proof -
  from assms(1) obtain "db' = db\<lparr>gd_op := update_first (\<lambda>r. ar_op_id r = opID) f (gd_op db)\<rparr>"
    by (rule cas_op_Some)
  with sum_update_first [of "\<lambda>r. ar_op_id r = opID" "gd_op db" r h f] assms(2) show ?thesis
    by (simp add: find_op_def)
qed

end

lemmas row_statements =
  claim_cond_def claim_set_def held_cond_def poison_set_def reschedule_set_def release_set_def
  accelerate_cond_def accelerate_set_def finalize_set_def resolve_set_def abandon_set_def pending_cond_def
  quiet_cond_def immutable_cols_def

interpretation claim: lease_statement "claim_cond nowMs" "claim_set nowMs leaseUntilMs token"
  for nowMs leaseUntilMs token by unfold_locales (auto simp: row_statements)

interpretation poison: lease_statement "held_cond token" "poison_set poisonUntilMs nowMs"
  for token poisonUntilMs nowMs by unfold_locales (auto simp: row_statements)

interpretation resched: lease_statement "held_cond token" "reschedule_set nextAttemptMs res nowMs"
  for token nextAttemptMs res nowMs by unfold_locales (auto simp: row_statements)

interpretation release: lease_statement "held_cond token" "release_set nowMs"
  for token nowMs by unfold_locales (auto simp: row_statements)

interpretation accel: lease_statement "accelerate_cond now" "accelerate_set now"
  for now by unfold_locales (auto simp: row_statements)


interpretation fin: settle_statement pending_cond "finalize_set status res nowMs" status
  for status res nowMs by unfold_locales (auto simp: row_statements)

interpretation man: settle_statement pending_cond "resolve_set status operator reason nowMs" status
  for status operator reason nowMs by unfold_locales (auto simp: row_statements)

interpretation quiet: settle_statement "quiet_cond until sent" "resolve_set status operator reason nowMs" status
  for until sent status operator reason nowMs by unfold_locales (auto simp: row_statements)

interpretation aband: settle_statement "held_cond token" "abandon_set nowMs" StatusAbandoned
  for token nowMs by unfold_locales (auto simp: row_statements)

section \<open>The counterparty ledger\<close>

definition row_key :: "guild_op_row \<Rightarrow> counter_key option" where
  "row_key r = (if ar_period_key r = 0 then None
     else (case ar_kind r of
         KIND_DONATE \<Rightarrow> Some (ar_player_id r, COUNTER_DONATE, ar_ref_id r, ar_period_key r)
       | KIND_SHOP \<Rightarrow> Some (ar_player_id r, COUNTER_SHOP, ar_ref_id r, ar_period_key r)
       | _ \<Rightarrow> None))"

definition row_uses :: "counter_key \<Rightarrow> guild_op_row \<Rightarrow> nat" where
  "row_uses key r = (if row_key r = Some key \<and> \<not> refundsCounterparty (ar_status r)
     then (if ar_kind r = KIND_DONATE then 1 else unat (ar_ref_count r)) else 0)"

definition row_donates :: "u64 \<Rightarrow> guild_op_row \<Rightarrow> nat" where
  "row_donates guild r = (if ar_guild_id r = guild \<and> ar_kind r = KIND_DONATE \<and> ar_status r = StatusApplied
     then unat (ar_funds_delta r) else 0)"

text \<open>The reservations of a counter that still count, and the donations booked to a guild.\<close>

definition used_by_rows :: "guild_db \<Rightarrow> counter_key \<Rightarrow> nat" where
  "used_by_rows db key = sum_list (map (row_uses key) (gd_op db))"

definition donated :: "guild_db \<Rightarrow> u64 \<Rightarrow> nat" where
  "donated db guild = sum_list (map (row_donates guild) (gd_op db))"

definition counted :: "guild_db \<Rightarrow> counter_key \<Rightarrow> nat" where
  "counted db key = (case gd_counter db key of None \<Rightarrow> 0 | Some used \<Rightarrow> unat used)"

definition guild_funds :: "guild_db \<Rightarrow> u64 \<Rightarrow> nat option" where
  "guild_funds db guild = map_option (\<lambda>g. unat (gu_funds g)) (gd_guild db guild)"

lemma row_sums_immutable:
  "immutable_cols r = immutable_cols r' \<Longrightarrow> ar_status r = ar_status r' \<Longrightarrow> row_uses key r = row_uses key r'"
  "immutable_cols r = immutable_cols r' \<Longrightarrow> ar_status r = ar_status r' \<Longrightarrow> row_donates guild r = row_donates guild r'"
  by (cases "ar_kind r'"; simp add: immutable_cols_def row_uses_def row_key_def row_donates_def)+

lemma add_checked_unat: "add_checked a b = Some c \<Longrightarrow> unat c = unat a + unat b"
  using unsigned_less [of b, where 'a = nat]
  by (auto simp: add_checked_def word_less_nat_alt unat_plus_if' split: if_splits)

lemma creditFunds_Inr:
  "creditFunds db guild n = Inr db' \<Longrightarrow>
     guild_funds db' g = (if g = guild then map_option (\<lambda>x. x + unat n) (guild_funds db g) else guild_funds db g)
     \<and> gd_op db' = gd_op db \<and> gd_counter db' = gd_counter db \<and> gd_member db' = gd_member db"
  by (auto simp: creditFunds_def guild_funds_def add_checked_unat split: option.splits)

lemma creditContribution_Inr:
  "creditContribution t db guild player n = Inr db' \<Longrightarrow>
     gd_op db' = gd_op db \<and> gd_counter db' = gd_counter db \<and> gd_guild db' = gd_guild db"
  by (auto simp: creditContribution_def split: option.splits)

lemma refundCounter_frame:
  "gd_op (refundCounter db row kind n) = gd_op db" "gd_guild (refundCounter db row kind n) = gd_guild db"
  "gd_member (refundCounter db row kind n) = gd_member db"
  by (auto simp: refundCounter_def Let_def split: option.splits)

lemma counted_refundCounter:
  "counted (refundCounter db row kind n) key =
     (if key = (ar_player_id row, kind, ar_ref_id row, ar_period_key row) \<and> ar_period_key row \<noteq> 0
      then counted db key - unat n else counted db key)"
  by (auto simp: refundCounter_def counted_def Let_def unat_sub word_le_nat_alt not_le split: option.splits)

definition booked_funds :: "guild_op_row \<Rightarrow> op_status \<Rightarrow> u64 \<Rightarrow> nat" where
  "booked_funds row status g =
     (if ar_kind row = KIND_DONATE \<and> status = StatusApplied \<and> ar_guild_id row = g then unat (ar_funds_delta row) else 0)"

lemma map_option_plus_0: "map_option (\<lambda>x. x + 0) y = (y :: nat option)"
  by (simp add: option.map_ident)

lemma donation_booking:
  assumes "applyCounterparty db row StatusApplied locks = Inr (db', orphan)" and "ar_kind row = KIND_DONATE"
  shows "gd_op db' = gd_op db \<and> gd_counter db' = gd_counter db
    \<and> (cl_guildOK locks \<or> gd_guild db (ar_guild_id row) = None
      \<longrightarrow> guild_funds db' g = map_option (\<lambda>x. x + booked_funds row StatusApplied g) (guild_funds db g))"
proof (cases "cl_guildOK locks")
  case False
  with assms have "db' = db" by (simp add: applyCounterparty_def counterRefund_def refundsCounterparty_def)
  with False show ?thesis
    by (cases "g = ar_guild_id row")
      (simp_all add: booked_funds_def guild_funds_def option.map_ident option.map_comp)
next
  case True
  let ?c = "if ar_funds_delta row > 0 then creditFunds db (ar_guild_id row) (ar_funds_delta row) else Inr db"
  from True assms obtain db1 where c: "?c = Inr db1"
    and m: "db' = db1 \<or> creditContribution True db1 (ar_guild_id row) (ar_player_id row) (ar_contribution_delta row) = Inr db'"
    by (auto simp: applyCounterparty_def counterRefund_def refundsCounterparty_def split: sum.splits if_splits)
  from c have "gd_op db1 = gd_op db \<and> gd_counter db1 = gd_counter db
      \<and> guild_funds db1 g = map_option (\<lambda>x. x + booked_funds row StatusApplied g) (guild_funds db g)"
    using creditFunds_Inr [of db "ar_guild_id row" "ar_funds_delta row" db1 g] assms(2)
    by (auto simp: booked_funds_def option.map_ident word_greater_zero_iff split: if_splits)
  moreover have "gd_op db' = gd_op db1 \<and> gd_counter db' = gd_counter db1 \<and> guild_funds db' = guild_funds db1"
    using m creditContribution_Inr by (fastforce simp: guild_funds_def)
  ultimately show ?thesis by simp
qed

lemma other_booking:
  assumes "applyCounterparty db row status locks = Inr (db', orphan)"
    and "\<not> (ar_kind row = KIND_DONATE \<and> status = StatusApplied)"
  shows "gd_op db' = gd_op db \<and> gd_guild db' = gd_guild db \<and> gd_counter db' =
    (case counterRefund row status of None \<Rightarrow> gd_counter db | Some (kind, n) \<Rightarrow> gd_counter (refundCounter db row kind n))"
proof (cases "status = StatusAppliedPartial")
  case True
  with assms show ?thesis by (auto simp: applyCounterparty_def counterRefund_def refundsCounterparty_def)
next
  case False
  have rc: "gd_counter (refundCounter d row k n) = gd_counter (refundCounter db row k n)"
    if "gd_counter d = gd_counter db" for d k n
    using that by (auto simp: refundCounter_def Let_def split: option.splits)
  from False assms obtain db1 where d: "db1 = db \<or>
      creditContribution False db (ar_guild_id row) (ar_player_id row) (ar_contribution_delta row) = Inr db1"
    and e: "db' = (case counterRefund row status of None \<Rightarrow> db1 | Some (kind, n) \<Rightarrow> refundCounter db1 row kind n)"
    by (cases "ar_kind row") (auto simp: applyCounterparty_def Let_def split: if_splits sum.splits)
  from d have f: "gd_op db1 = gd_op db" "gd_counter db1 = gd_counter db" "gd_guild db1 = gd_guild db"
    using creditContribution_Inr by fastforce+
  show ?thesis
  proof (cases "counterRefund row status")
    case None
    with e f show ?thesis by simp
  next
    case (Some kn)
    with e f rc [OF f(2), of "fst kn" "snd kn"] show ?thesis by (simp add: refundCounter_frame split: prod.splits)
  qed
qed

lemma counterparty_immutable:
  assumes "immutable_cols row = immutable_cols row'"
  shows "applyCounterparty db row status locks = applyCounterparty db row' status locks"
    and "lockCounterparty db row status = lockCounterparty db row' status"
proof -
  have eqs: "ar_kind row = ar_kind row'" "ar_guild_id row = ar_guild_id row'" "ar_player_id row = ar_player_id row'"
    "ar_contribution_delta row = ar_contribution_delta row'" "ar_funds_delta row = ar_funds_delta row'"
    using assms by (simp_all add: immutable_cols_def)
  have c: "counterRefund row status = counterRefund row' status"
    using assms by (cases "ar_kind row'"; simp add: immutable_cols_def counterRefund_def)
  have r: "refundCounter d row k n = refundCounter d row' k n" for d k n
    using assms by (simp add: immutable_cols_def refundCounter_def)
  show "applyCounterparty db row status locks = applyCounterparty db row' status locks"
    unfolding applyCounterparty_def c r eqs by (rule refl)
  show "lockCounterparty db row status = lockCounterparty db row' status"
    unfolding lockCounterparty_def eqs by (rule refl)
qed

section \<open>Settling\<close>

text \<open>An earlier read of the operation rows: what it found of a row still has the row's immutable columns.\<close>

definition earlier_read :: "guild_db \<Rightarrow> guild_db \<Rightarrow> bool" where
  "earlier_read db0 db \<longleftrightarrow>
     (\<forall>opID r0 r. find_op db0 opID = Some r0 \<longrightarrow> find_op db opID = Some r \<longrightarrow> immutable_cols r0 = immutable_cols r)"

lemma earlier_read_refl [simp]: "earlier_read db db"
  by (simp add: earlier_read_def)

lemma counted_refund:
  "refundsCounterparty status \<Longrightarrow> ar_status r = StatusPending \<Longrightarrow>
     counted (case counterRefund r status of None \<Rightarrow> db | Some (kind, n) \<Rightarrow> refundCounter db r kind n) key
       = counted db key - row_uses key r"
  by (cases "ar_kind r")
    (auto simp: counterRefund_def row_uses_def row_key_def refundsCounterparty_def counted_refundCounter word_gt_0
      split: if_splits)

lemma counted_only_counter: "gd_counter db = gd_counter db' \<Longrightarrow> counted db key = counted db' key"
  by (simp add: counted_def)

lemma counterparty_effect:
  assumes app: "applyCounterparty db1 r status (lockCounterparty db r status) = Inr (db', orph)"
    and pend: "ar_status r = StatusPending" and c: "gd_counter db1 = gd_counter db" "gd_guild db1 = gd_guild db"
  shows "gd_op db' = gd_op db1"
    and "counted db' key = counted db key - (if refundsCounterparty status then row_uses key r else 0)"
    and "guild_funds db' g = map_option (\<lambda>x. x + booked_funds r status g) (guild_funds db g)"
proof -
  have "gd_op db' = gd_op db1 \<and> counted db' key = counted db key - (if refundsCounterparty status then row_uses key r else 0)
      \<and> guild_funds db' g = map_option (\<lambda>x. x + booked_funds r status g) (guild_funds db g)"
  proof (cases "ar_kind r = KIND_DONATE \<and> status = StatusApplied")
    case True
    let ?locks = "lockCounterparty db r status"
    have app2: "applyCounterparty db1 r StatusApplied ?locks = Inr (db', orph)" using True app by simp
    have "cl_guildOK ?locks \<or> gd_guild db1 (ar_guild_id r) = None"
      using True by (simp add: lockCounterparty_def c)
    with True donation_booking [OF app2] show ?thesis
      by (auto simp: refundsCounterparty_def c counted_def guild_funds_def)
  next
    case False
    have bf: "booked_funds r status g = 0" using False by (auto simp: booked_funds_def)
    note o = other_booking [OF app False]
    have "counted db' key = counted db key - (if refundsCounterparty status then row_uses key r else 0)"
    proof (cases "refundsCounterparty status")
      case True
      have "counted db' key = counted (case counterRefund r status of None \<Rightarrow> db1 | Some (kind, n) \<Rightarrow> refundCounter db1 r kind n) key"
        by (rule counted_only_counter) (use o in \<open>auto split: option.splits\<close>)
      then show ?thesis using True counted_refund [OF True pend] by (simp add: c counted_def)
    next
      case False
      then have "counterRefund r status = None" by (simp add: counterRefund_def)
      with o False show ?thesis by (simp add: counted_def c)
    qed
    then show ?thesis using o by (simp add: c guild_funds_def bf option.map_ident)
  qed
  then show "gd_op db' = gd_op db1"
    and "counted db' key = counted db key - (if refundsCounterparty status then row_uses key r else 0)"
    and "guild_funds db' g = map_option (\<lambda>x. x + booked_funds r status g) (guild_funds db g)" by blast+
qed

context settle_statement
begin

lemma row_after:
  "row_uses key (f r) = (if refundsCounterparty status then 0
     else if row_key r = Some key then (if ar_kind r = KIND_DONATE then 1 else unat (ar_ref_count r)) else 0)"
  "row_donates guild (f r) = booked_funds r status guild"
proof -
  have eqs: "ar_kind (f r) = ar_kind r" "ar_guild_id (f r) = ar_guild_id r" "ar_player_id (f r) = ar_player_id r"
    "ar_period_key (f r) = ar_period_key r" "ar_ref_id (f r) = ar_ref_id r" "ar_ref_count (f r) = ar_ref_count r"
    "ar_funds_delta (f r) = ar_funds_delta r"
    using keeps_immutable [of r] by (simp_all add: immutable_cols_def)
  have "row_key (f r) = row_key r" unfolding row_key_def eqs by (rule refl)
  then show "row_uses key (f r) = (if refundsCounterparty status then 0
     else if row_key r = Some key then (if ar_kind r = KIND_DONATE then 1 else unat (ar_ref_count r)) else 0)"
    by (simp add: row_uses_def sets_status eqs)
  show "row_donates guild (f r) = booked_funds r status guild"
    by (simp add: row_donates_def booked_funds_def sets_status eqs)
qed

lemma terminate_effect:
  assumes t: "terminate db0 db opID status cond f = Inr (db', hit)" and e: "earlier_read db0 db"
  shows "\<not> hit \<Longrightarrow> db' = db"
    and "hit \<Longrightarrow> \<exists>r. find_op db opID = Some r \<and> ar_status r = StatusPending
      \<and> (\<forall>key. used_by_rows db' key + row_uses key r = used_by_rows db key + row_uses key (f r))
      \<and> (\<forall>key. counted db' key = counted db key - (if refundsCounterparty status then row_uses key r else 0))
      \<and> (\<forall>g. donated db' g = donated db g + booked_funds r status g)
      \<and> (\<forall>g. guild_funds db' g = map_option (\<lambda>x. x + booked_funds r status g) (guild_funds db g))
      \<and> (\<forall>other. find_op db' other = (if other = opID then Some (f r) else find_op db other))"
proof -
  show "\<not> hit \<Longrightarrow> db' = db"
    using t by (auto simp: terminate_def Let_def split: option.splits sum.splits prod.splits)
  assume hit
  with t obtain row db1 orph where row: "find_op db0 opID = Some row" and cas: "cas_op opID cond f db = Some db1"
    and app: "applyCounterparty db1 row status (lockCounterparty db row status) = Inr (db', orph)"
    by (auto simp: terminate_def Let_def split: option.splits sum.splits prod.splits)
  from cas obtain r where r: "find_op db opID = Some r" "cond r"
    and db1: "db1 = db\<lparr>gd_op := update_first (\<lambda>r. ar_op_id r = opID) f (gd_op db)\<rparr>" by (rule cas_op_Some)
  have pend: "ar_status r = StatusPending" using only_pending r(2) .
  have imm: "immutable_cols row = immutable_cols r" using e row r(1) by (auto simp: earlier_read_def)
  let ?locks = "lockCounterparty db r status"
  have app': "applyCounterparty db1 r status ?locks = Inr (db', orph)"
    using app counterparty_immutable [OF imm] by simp
  have frame: "gd_op db' = gd_op db1"
    "counted db' key = counted db key - (if refundsCounterparty status then row_uses key r else 0)"
    "guild_funds db' g = map_option (\<lambda>x. x + booked_funds r status g) (guild_funds db g)" for key g
    using counterparty_effect [OF app' pend] by (simp_all add: db1)
  have sums: "used_by_rows db' key + row_uses key r = used_by_rows db key + row_uses key (f r)"
      "donated db' g + row_donates g r = donated db g + row_donates g (f r)" for key g
    using cas_sum_settle [OF cas r(1), of "row_uses key"] cas_sum_settle [OF cas r(1), of "row_donates g"] frame
    by (simp_all add: used_by_rows_def donated_def)
  have "row_donates g r = 0" for g by (simp add: row_donates_def pend)
  with sums(2) have don: "donated db' g = donated db g + booked_funds r status g" for g by (simp add: row_after)
  have "find_op db' other = (if other = opID then Some (f r) else find_op db other)" for other
    using cas_find [OF cas] frame r(1) by (simp add: find_op_def)
  with r(1) pend sums(1) frame don show "\<exists>r. find_op db opID = Some r \<and> ar_status r = StatusPending
      \<and> (\<forall>key. used_by_rows db' key + row_uses key r = used_by_rows db key + row_uses key (f r))
      \<and> (\<forall>key. counted db' key = counted db key - (if refundsCounterparty status then row_uses key r else 0))
      \<and> (\<forall>g. donated db' g = donated db g + booked_funds r status g)
      \<and> (\<forall>g. guild_funds db' g = map_option (\<lambda>x. x + booked_funds r status g) (guild_funds db g))
      \<and> (\<forall>other. find_op db' other = (if other = opID then Some (f r) else find_op db other))" by blast
qed

end

section \<open>Reservations\<close>

lemma upsert_Some:
  assumes "upsertCounterWithLimit db key n limit = Some db'" and "unat n \<le> unat limit" and "counted db key \<le> unat limit"
  shows "db' = db\<lparr>gd_counter := gd_counter db'\<rparr>"
    and "counted db' k = (if k = key then counted db key + unat n else counted db k)"
    and "counted db' key \<le> unat limit"
proof -
  have no_wrap: "unat (u + n) = unat u + unat n" if "unat u + unat n \<le> unat limit" for u
    using that unsigned_less [of limit, where 'a = nat] by (simp add: unat_word_ariths)
  show "db' = db\<lparr>gd_counter := gd_counter db'\<rparr>"
    and "counted db' k = (if k = key then counted db key + unat n else counted db k)"
    and "counted db' key \<le> unat limit"
    using assms no_wrap by (auto simp: upsertCounterWithLimit_def counted_def split: option.splits if_splits)
qed

lemma find_append: "find p (xs @ ys) = (case find p xs of None \<Rightarrow> find p ys | Some x \<Rightarrow> Some x)"
  by (induction xs) auto

lemma insertAssetOp_Inr:
  assumes "insertAssetOp db rec = Inr db'"
  shows "db' = db\<lparr>gd_op := gd_op db @ [rec\<lparr>ar_last_send_ms := lastSendMsOnInsert rec\<rparr>]\<rparr>"
    and "find_op db (ar_op_id rec) = None"
  using assms by (auto simp: insertAssetOp_def find_op_def find_None_iff split: if_splits)

lemma ReserveDonation_Inr:
  assumes "ReserveDonation db i = Inr (db', alloc)"
  shows "donation_validate i" and "gd_guild db (dr_GuildID i) \<noteq> None"
    and "find_op db (dr_OpID i) = None"
    and "\<exists>d4. upsertCounterWithLimit db (dr_PlayerID i, COUNTER_DONATE, dr_DonateID i, dr_PeriodKey i) 1 (dr_DailyLimit i) = Some d4
      \<and> gd_counter db' = gd_counter d4"
    and "gd_op db' = gd_op db @ [(donation_row i alloc)\<lparr>ar_last_send_ms := dr_NowMs i\<rparr>]"
    and "gd_guild db' = gd_guild db" and "gd_member db' = gd_member db"
proof -
  from assms obtain db1 db2 db3 db4 where v: "donation_validate i" "gd_guild db (dr_GuildID i) \<noteq> None"
    and e: "ensureSeqRowTx db (dr_PlayerID i) STREAM_GUILD_DEBIT (dr_NowMs i) = Inr db1"
    and a: "allocateTx db1 (dr_PlayerID i) STREAM_GUILD_DEBIT = Inr (alloc, db2)"
    and ins: "insertAssetOp db2 (donation_row i alloc) = Inr db3"
    and u: "upsertCounterWithLimit db3 (dr_PlayerID i, COUNTER_DONATE, dr_DonateID i, dr_PeriodKey i) 1 (dr_DailyLimit i) = Some db4"
    and c: "insertClientRequestTx db4 (dr_PlayerID i) (dr_ClientRequestID i) (dr_OpID i) = Inr db'"
    by (auto simp: ReserveDonation_def split: if_splits option.splits sum.splits)
  show "donation_validate i" "gd_guild db (dr_GuildID i) \<noteq> None" by (fact v)+
  from e a have f: "gd_op db2 = gd_op db" "gd_counter db2 = gd_counter db" "gd_guild db2 = gd_guild db" "gd_member db2 = gd_member db"
    by (auto simp: ensureSeqRowTx_def allocateTx_def Let_def split: if_splits sum.splits)
  note ins' = insertAssetOp_Inr [OF ins]
  from ins'(2) f show "find_op db (dr_OpID i) = None" by (simp add: find_op_def donation_row_def)
  have ls: "lastSendMsOnInsert (donation_row i alloc) = dr_NowMs i"
    by (simp add: lastSendMsOnInsert_def donation_row_def)
  from c have g: "gd_op db' = gd_op db4" "gd_counter db' = gd_counter db4" "gd_guild db' = gd_guild db4" "gd_member db' = gd_member db4"
    by (auto simp: insertClientRequestTx_def split: if_splits)
  from u have h: "gd_op db4 = gd_op db3" "gd_guild db4 = gd_guild db3" "gd_member db4 = gd_member db3"
    by (auto simp: upsertCounterWithLimit_def split: option.splits if_splits)
  from f g h ins'(1) ls show "gd_op db' = gd_op db @ [(donation_row i alloc)\<lparr>ar_last_send_ms := dr_NowMs i\<rparr>]"
    and "gd_guild db' = gd_guild db" and "gd_member db' = gd_member db" by simp_all
  have "gd_counter db3 = gd_counter db" using ins'(1) f by simp
  with u g show "\<exists>d4. upsertCounterWithLimit db (dr_PlayerID i, COUNTER_DONATE, dr_DonateID i, dr_PeriodKey i) 1 (dr_DailyLimit i) = Some d4
      \<and> gd_counter db' = gd_counter d4"
    by (auto simp: upsertCounterWithLimit_def split: option.splits if_splits)
qed

lemma ReserveShopOrder_Inr:
  assumes "ReserveShopOrder db i = Inr (db', alloc, after)"
  shows "shop_validate i" and "sr_LimitCount i > 0 \<Longrightarrow> sr_Count i \<le> sr_LimitCount i"
    and "gd_guild db (sr_GuildID i) \<noteq> None" and "find_op db (sr_OpID i) = None"
    and "sr_LimitCount i = 0 \<Longrightarrow> gd_counter db' = gd_counter db"
    and "sr_LimitCount i > 0 \<Longrightarrow> \<exists>d4. upsertCounterWithLimit db (sr_PlayerID i, COUNTER_SHOP, sr_GoodsID i, sr_PeriodKey i)
          (sr_Count i) (sr_LimitCount i) = Some d4 \<and> gd_counter db' = gd_counter d4"
    and "gd_op db' = gd_op db @ [(shop_row i alloc)\<lparr>ar_last_send_ms := sr_NowMs i\<rparr>]"
    and "gd_guild db' = gd_guild db"
    and "\<exists>m. gd_member db (sr_GuildID i, sr_PlayerID i) = Some m \<and> sr_Cost i \<le> gm_balance m \<and> after = gm_balance m - sr_Cost i
      \<and> gd_member db' = (gd_member db)((sr_GuildID i, sr_PlayerID i) \<mapsto> m\<lparr>gm_balance := after\<rparr>)"
proof -
  let ?key = "(sr_PlayerID i, COUNTER_SHOP, sr_GoodsID i, sr_PeriodKey i)"
  from assms obtain m db1 db2 db3 db4 db5 where v: "shop_validate i" "gd_guild db (sr_GuildID i) \<noteq> None"
      "sr_LimitCount i > 0 \<Longrightarrow> sr_Count i \<le> sr_LimitCount i"
    and m: "gd_member db (sr_GuildID i, sr_PlayerID i) = Some m" "sr_Cost i \<le> gm_balance m" "after = gm_balance m - sr_Cost i"
    and e: "ensureSeqRowTx db (sr_PlayerID i) STREAM_GUILD_CREDIT (sr_NowMs i) = Inr db1"
    and a: "allocateTx db1 (sr_PlayerID i) STREAM_GUILD_CREDIT = Inr (alloc, db2)"
    and ins: "insertAssetOp db2 (shop_row i alloc) = Inr db3"
    and u: "(if sr_LimitCount i > 0 then upsertCounterWithLimit db3 ?key (sr_Count i) (sr_LimitCount i) else Some db3) = Some db4"
    and d: "debitContribution db4 (sr_GuildID i) (sr_PlayerID i) (sr_Cost i) = Some db5"
    and c: "insertClientRequestTx db5 (sr_PlayerID i) (sr_ClientRequestID i) (sr_OpID i) = Inr db'"
    by (auto simp: ReserveShopOrder_def not_less split: if_splits option.splits sum.splits)
  show "shop_validate i" "gd_guild db (sr_GuildID i) \<noteq> None" by (fact v)+
  show "sr_LimitCount i > 0 \<Longrightarrow> sr_Count i \<le> sr_LimitCount i" by (fact v(3))
  from e a have f: "gd_op db2 = gd_op db" "gd_counter db2 = gd_counter db" "gd_guild db2 = gd_guild db" "gd_member db2 = gd_member db"
    by (auto simp: ensureSeqRowTx_def allocateTx_def Let_def split: if_splits sum.splits)
  note ins' = insertAssetOp_Inr [OF ins]
  from ins'(2) f show "find_op db (sr_OpID i) = None" by (simp add: find_op_def shop_row_def)
  have ls: "lastSendMsOnInsert (shop_row i alloc) = sr_NowMs i"
    by (simp add: lastSendMsOnInsert_def shop_row_def)
  from c have g: "gd_op db' = gd_op db5" "gd_counter db' = gd_counter db5" "gd_guild db' = gd_guild db5" "gd_member db' = gd_member db5"
    by (auto simp: insertClientRequestTx_def split: if_splits)
  from u have h: "gd_op db4 = gd_op db3" "gd_guild db4 = gd_guild db3" "gd_member db4 = gd_member db3"
    by (auto simp: upsertCounterWithLimit_def split: option.splits if_splits)
  have m4: "gd_member db4 (sr_GuildID i, sr_PlayerID i) = Some m" using h f ins'(1) m(1) by simp
  with d m have k: "gd_op db5 = gd_op db4" "gd_guild db5 = gd_guild db4" "gd_counter db5 = gd_counter db4"
    "gd_member db5 = (gd_member db4)((sr_GuildID i, sr_PlayerID i) \<mapsto> m\<lparr>gm_balance := after\<rparr>)"
    by (auto simp: debitContribution_def split: if_splits)
  from f g h k ins'(1) ls show "gd_op db' = gd_op db @ [(shop_row i alloc)\<lparr>ar_last_send_ms := sr_NowMs i\<rparr>]"
    and "gd_guild db' = gd_guild db" by simp_all
  show "\<exists>m. gd_member db (sr_GuildID i, sr_PlayerID i) = Some m \<and> sr_Cost i \<le> gm_balance m \<and> after = gm_balance m - sr_Cost i
      \<and> gd_member db' = (gd_member db)((sr_GuildID i, sr_PlayerID i) \<mapsto> m\<lparr>gm_balance := after\<rparr>)"
    using m f g h k ins'(1) by simp
  have c3: "gd_counter db3 = gd_counter db" using ins'(1) f by simp
  show "sr_LimitCount i = 0 \<Longrightarrow> gd_counter db' = gd_counter db" using u g k c3 by simp
  show "sr_LimitCount i > 0 \<Longrightarrow> \<exists>d4. upsertCounterWithLimit db ?key (sr_Count i) (sr_LimitCount i) = Some d4
      \<and> gd_counter db' = gd_counter d4"
    using u g k c3 by (auto simp: upsertCounterWithLimit_def split: option.splits if_splits)
qed

section \<open>The transition system\<close>

text \<open>The database and, as a ghost, what upgrades have spent of each guild's funds.  Reservations use one
  limit per counter; guilds come and go with fresh ids, members join with nothing and leave.\<close>

record guild_sys =
  gs_db :: guild_db
  gs_spent :: "u64 \<Rightarrow> nat"

inductive econ_step ::
  "(counter_key \<Rightarrow> u32) \<Rightarrow> (u32 \<Rightarrow> (u64 \<times> u32) option) \<Rightarrow> guild_sys \<Rightarrow> guild_sys \<Rightarrow> bool" for limit_of levels where
  donate: "ReserveDonation (gs_db s) i = Inr (db', alloc)
    \<Longrightarrow> dr_DailyLimit i = limit_of (dr_PlayerID i, COUNTER_DONATE, dr_DonateID i, dr_PeriodKey i)
    \<Longrightarrow> econ_step limit_of levels s (s\<lparr>gs_db := db'\<rparr>)"
| order: "ReserveShopOrder (gs_db s) i = Inr (db', alloc, after)
    \<Longrightarrow> sr_LimitCount i = 0 \<or> sr_LimitCount i = limit_of (sr_PlayerID i, COUNTER_SHOP, sr_GoodsID i, sr_PeriodKey i)
    \<Longrightarrow> econ_step limit_of levels s (s\<lparr>gs_db := db'\<rparr>)"
| claim: "cas_op opID (claim_cond nowMs) (claim_set nowMs leaseUntilMs token) (gs_db s) = Some db'
    \<Longrightarrow> econ_step limit_of levels s (s\<lparr>gs_db := db'\<rparr>)"
| poison: "econ_step limit_of levels s (s\<lparr>gs_db := markPoison (gs_db s) opID token nowMs poisonUntilMs\<rparr>)"
| reschedule: "Reschedule (gs_db s) op nextAttemptMs res nowMs = Inr db'
    \<Longrightarrow> econ_step limit_of levels s (s\<lparr>gs_db := db'\<rparr>)"
| release: "ReleaseLease (gs_db s) op nowMs = Inr db' \<Longrightarrow> econ_step limit_of levels s (s\<lparr>gs_db := db'\<rparr>)"
| finalize: "Finalize db0 (gs_db s) op status res nowMs = Inr (db', hit) \<Longrightarrow> earlier_read db0 (gs_db s)
    \<Longrightarrow> econ_step limit_of levels s (s\<lparr>gs_db := db'\<rparr>)"
| resolve: "ResolveManually db0 (gs_db s) mr nowMs = Inr (db', hit) \<Longrightarrow> earlier_read db0 (gs_db s)
    \<Longrightarrow> econ_step limit_of levels s (s\<lparr>gs_db := db'\<rparr>)"
| resolve_quiet: "ResolveManuallyIfQuiet db0 (gs_db s) mr until sent nowMs = Inr (db', hit)
    \<Longrightarrow> earlier_read db0 (gs_db s) \<Longrightarrow> econ_step limit_of levels s (s\<lparr>gs_db := db'\<rparr>)"
| abandon: "Abandon db0 (gs_db s) op nowMs = Inr db' \<Longrightarrow> earlier_read db0 (gs_db s)
    \<Longrightarrow> econ_step limit_of levels s (s\<lparr>gs_db := db'\<rparr>)"
| accelerate: "accelerateDonationDeadlines (gs_db s) guild players now = Some db'
    \<Longrightarrow> econ_step limit_of levels s (s\<lparr>gs_db := db'\<rparr>)"
| upgrade: "UpgradeGuild levels (gs_db s) guild player expected = Inr (db', changed, level)
    \<Longrightarrow> spent = (case gd_guild (gs_db s) guild of None \<Rightarrow> 0 | Some g \<Rightarrow>
          (case levels (gu_level g) of None \<Rightarrow> 0 | Some (cost, _) \<Rightarrow> if changed then unat cost else 0))
    \<Longrightarrow> econ_step limit_of levels s (s\<lparr>gs_db := db', gs_spent := (gs_spent s)(guild := gs_spent s guild + spent)\<rparr>)"

text \<open>Around the economy guilds are founded with fresh ids and no funds, change their other columns, lose and
  gain members in any way, and are dissolved.\<close>

inductive guild_step ::
  "(counter_key \<Rightarrow> u32) \<Rightarrow> (u32 \<Rightarrow> (u64 \<times> u32) option) \<Rightarrow> guild_sys \<Rightarrow> guild_sys \<Rightarrow> bool" for limit_of levels where
  economy: "econ_step limit_of levels s s' \<Longrightarrow> guild_step limit_of levels s s'"
| create: "gd_guild (gs_db s) guild = None \<Longrightarrow> \<forall>r \<in> set (gd_op (gs_db s)). ar_guild_id r \<noteq> guild
    \<Longrightarrow> gu_funds g = 0
    \<Longrightarrow> guild_step limit_of levels s
          (s\<lparr>gs_db := (gs_db s)\<lparr>gd_guilds := AList.update guild g (gd_guilds (gs_db s))\<rparr>, gs_spent := (gs_spent s)(guild := 0)\<rparr>)"
| columns: "gd_guild (gs_db s) guild = Some g \<Longrightarrow> gu_funds g' = gu_funds g
    \<Longrightarrow> guild_step limit_of levels s (s\<lparr>gs_db := (gs_db s)\<lparr>gd_guilds := AList.update guild g' (gd_guilds (gs_db s))\<rparr>\<rparr>)"
| dissolve: "guild_step limit_of levels s
    (s\<lparr>gs_db := (gs_db s)\<lparr>gd_guilds := AList.delete guild (gd_guilds (gs_db s))\<rparr>\<rparr>)"
| membership: "guild_step limit_of levels s (s\<lparr>gs_db := (gs_db s)\<lparr>gd_members := ms\<rparr>\<rparr>)"

definition empty_db :: guild_db where
  "empty_db = \<lparr>gd_guilds = [], gd_members = [], gd_op = [], gd_seq = Map.empty,
     gd_counter = Map.empty, gd_request = Map.empty\<rparr>"

inductive guild_reachable ::
  "(counter_key \<Rightarrow> u32) \<Rightarrow> (u32 \<Rightarrow> (u64 \<times> u32) option) \<Rightarrow> guild_sys \<Rightarrow> bool" for limit_of levels where
  init: "guild_reachable limit_of levels \<lparr>gs_db = empty_db, gs_spent = \<lambda>_. 0\<rparr>"
| step: "guild_reachable limit_of levels s \<Longrightarrow> guild_step limit_of levels s s' \<Longrightarrow> guild_reachable limit_of levels s'"


section \<open>The invariant\<close>

definition counters_ok :: "(counter_key \<Rightarrow> u32) \<Rightarrow> guild_db \<Rightarrow> bool" where
  "counters_ok limit_of db \<longleftrightarrow> (\<forall>key. used_by_rows db key = counted db key \<and> counted db key \<le> unat (limit_of key))"

definition funds_ok :: "(u64 \<Rightarrow> nat) \<Rightarrow> guild_db \<Rightarrow> bool" where
  "funds_ok spent db \<longleftrightarrow> (\<forall>g n. guild_funds db g = Some n \<longrightarrow> n + spent g = donated db g)"

definition econ_inv :: "(counter_key \<Rightarrow> u32) \<Rightarrow> guild_sys \<Rightarrow> bool" where
  "econ_inv limit_of s \<longleftrightarrow> counters_ok limit_of (gs_db s) \<and> funds_ok (gs_spent s) (gs_db s)"

text \<open>The four quantities the invariant speaks about.\<close>

definition same_books :: "guild_db \<Rightarrow> guild_db \<Rightarrow> bool" where
  "same_books db db' \<longleftrightarrow> used_by_rows db' = used_by_rows db \<and> counted db' = counted db
     \<and> donated db' = donated db \<and> guild_funds db' = guild_funds db"

lemma same_books_inv: "same_books db db' \<Longrightarrow> counters_ok limit_of db \<Longrightarrow> counters_ok limit_of db'"
  "same_books db db' \<Longrightarrow> funds_ok spent db \<Longrightarrow> funds_ok spent db'"
  by (simp_all add: same_books_def counters_ok_def funds_ok_def)

lemma same_books_refl [simp]: "same_books db db"
  by (simp add: same_books_def)

lemma same_books_trans: "same_books a b \<Longrightarrow> same_books b c \<Longrightarrow> same_books a c"
  by (simp add: same_books_def)

context lease_statement
begin

lemma cas_same_books:
  assumes "cas_op opID cond f db = Some db'"
  shows "same_books db db'"
proof -
  from assms obtain "db' = db\<lparr>gd_op := update_first (\<lambda>r. ar_op_id r = opID) f (gd_op db)\<rparr>" by (rule cas_op_Some)
  then have "counted db' = counted db" "guild_funds db' = guild_funds db"
    by (simp_all add: fun_eq_iff counted_def guild_funds_def)
  moreover have "used_by_rows db' key = used_by_rows db key" "donated db' g = donated db g" for key g
    unfolding used_by_rows_def donated_def by (rule cas_sum [OF assms]; rule row_sums_immutable; assumption)+
  ultimately show ?thesis by (simp add: same_books_def fun_eq_iff)
qed

lemma case_cas_same_books:
  "same_books db (case cas_op opID cond f db of None \<Rightarrow> db | Some db' \<Rightarrow> db')"
  by (auto simp: cas_same_books split: option.split)

end

lemma accelerate_same_books:
  "accelerateDonationDeadlines db guild players now = Some db' \<Longrightarrow> same_books db db'"
proof -
  assume a: "accelerateDonationDeadlines db guild players now = Some db'"
  have "same_books d (fold (\<lambda>opID d. case cas_op opID (accelerate_cond now) (accelerate_set now) d of None \<Rightarrow> d | Some d' \<Rightarrow> d') ids d)" for ids d
  proof (induction ids arbitrary: d)
    case (Cons opID ids)
    show ?case using same_books_trans [OF accel.case_cas_same_books Cons.IH] by simp
  qed simp
  with a show ?thesis by (auto simp: accelerateDonationDeadlines_def split: if_splits)
qed

context settle_statement
begin

lemma terminate_books:
  assumes t: "terminate db0 db opID status cond f = Inr (db', hit)" and e: "earlier_read db0 db"
    and c: "counters_ok limit_of db" and m: "funds_ok spent db"
  shows "counters_ok limit_of db' \<and> funds_ok spent db'"
proof (cases hit)
  case False
  with terminate_effect(1) [OF t e] c m show ?thesis by simp
next
  case True
  from terminate_effect(2) [OF t e True] obtain r where p: "ar_status r = StatusPending"
    and u: "\<And>key. used_by_rows db' key + row_uses key r = used_by_rows db key + row_uses key (f r)"
    and k: "\<And>key. counted db' key = counted db key - (if refundsCounterparty status then row_uses key r else 0)"
    and d: "\<And>g. donated db' g = donated db g + booked_funds r status g"
    and g: "\<And>g. guild_funds db' g = map_option (\<lambda>x. x + booked_funds r status g) (guild_funds db g)" by blast
  have r: "row_uses key (f r) = (if refundsCounterparty status then 0 else row_uses key r)" for key
    unfolding row_after by (simp add: row_uses_def p refundsCounterparty_def)
  have ck: "used_by_rows db key = counted db key" "counted db key \<le> unat (limit_of key)" for key
    using c unfolding counters_ok_def by blast+
  have "used_by_rows db' key = counted db' key \<and> counted db' key \<le> unat (limit_of key)" for key
    using ck [of key] u [of key] k [of key] r [of key] by (cases "refundsCounterparty status") auto
  moreover have "funds_ok spent db'" using m by (auto simp: funds_ok_def g d)
  ultimately show ?thesis by (simp add: counters_ok_def)
qed

end

lemma reserve_books:
  assumes op: "gd_op db' = gd_op db @ [row]" and g: "gd_guild db' = gd_guild db"
    and pend: "ar_status row = StatusPending"
    and cnt: "\<And>key. counted db' key = counted db key + row_uses key row"
    and lim: "\<And>key. counted db' key \<le> unat (limit_of key)"
    and c: "counters_ok limit_of db" and m: "funds_ok spent db"
  shows "counters_ok limit_of db' \<and> funds_ok spent db'"
proof -
  have "used_by_rows db' key = used_by_rows db key + row_uses key row" for key
    by (simp add: used_by_rows_def op)
  moreover have "used_by_rows db key = counted db key" for key using c unfolding counters_ok_def by blast
  ultimately have "counters_ok limit_of db'" using cnt lim by (simp add: counters_ok_def)
  moreover have "donated db' = donated db" "guild_funds db' = guild_funds db"
    by (simp_all add: fun_eq_iff donated_def op row_donates_def pend guild_funds_def g)
  ultimately show ?thesis using m by (simp add: funds_ok_def)
qed

lemma donate_books:
  assumes r: "ReserveDonation db i = Inr (db', alloc)"
    and l: "dr_DailyLimit i = limit_of (dr_PlayerID i, COUNTER_DONATE, dr_DonateID i, dr_PeriodKey i)"
    and c: "counters_ok limit_of db" and m: "funds_ok spent db"
  shows "counters_ok limit_of db' \<and> funds_ok spent db'"
proof -
  note R = ReserveDonation_Inr [OF r]
  let ?key = "(dr_PlayerID i, COUNTER_DONATE, dr_DonateID i, dr_PeriodKey i)"
  let ?row = "(donation_row i alloc)\<lparr>ar_last_send_ms := dr_NowMs i\<rparr>"
  obtain d4 where u: "upsertCounterWithLimit db ?key 1 (dr_DailyLimit i) = Some d4" and d4: "gd_counter db' = gd_counter d4"
    using R(4) by blast
  have old: "counted db k \<le> unat (limit_of k)" for k using c unfolding counters_ok_def by blast
  have one: "unat (1 :: u32) \<le> unat (dr_DailyLimit i)"
    using R(1) by (simp add: donation_validate_def Suc_le_eq unat_gt_0)
  note U = upsert_Some [OF u one old [of ?key, folded l]]
  have same: "counted db' k = counted d4 k" for k using d4 by (simp add: counted_def)
  have uses: "row_uses k ?row = (if k = ?key then 1 else 0)" for k
    using R(1) by (auto simp: row_uses_def row_key_def donation_row_def donation_validate_def refundsCounterparty_def)
  show ?thesis
  proof (rule reserve_books [OF R(5,6) _ _ _ c m])
    show "ar_status ?row = StatusPending" by (simp add: donation_row_def)
    show "counted db' k = counted db k + row_uses k ?row" for k unfolding same U(2) uses by simp
    show "counted db' k \<le> unat (limit_of k)" for k
      using U(2) [of k] U(3) old [of k] unfolding same by (cases "k = ?key") (simp_all add: l)
  qed
qed

lemma order_books:
  assumes r: "ReserveShopOrder db i = Inr (db', alloc, after)"
    and l: "sr_LimitCount i = 0 \<or> sr_LimitCount i = limit_of (sr_PlayerID i, COUNTER_SHOP, sr_GoodsID i, sr_PeriodKey i)"
    and c: "counters_ok limit_of db" and m: "funds_ok spent db"
  shows "counters_ok limit_of db' \<and> funds_ok spent db'"
proof -
  note R = ReserveShopOrder_Inr [OF r]
  let ?key = "(sr_PlayerID i, COUNTER_SHOP, sr_GoodsID i, sr_PeriodKey i)"
  let ?row = "(shop_row i alloc)\<lparr>ar_last_send_ms := sr_NowMs i\<rparr>"
  have old: "counted db k \<le> unat (limit_of k)" for k using c unfolding counters_ok_def by blast
  have pend: "ar_status ?row = StatusPending" by (simp add: shop_row_def)
  have uses: "row_uses k ?row = (if k = ?key \<and> sr_LimitCount i \<noteq> 0 then unat (sr_Count i) else 0)" for k
    using R(1) by (auto simp: row_uses_def row_key_def shop_row_def shop_validate_def refundsCounterparty_def)
  show ?thesis
  proof (cases "sr_LimitCount i = 0")
    case True
    then have same: "counted db' k = counted db k" for k using R(5) by (simp add: counted_def)
    show ?thesis
      by (rule reserve_books [OF R(7,8) pend _ _ c m]) (simp_all only: uses same True old, simp)
  next
    case False
    then have pos: "sr_LimitCount i > 0" and lim: "sr_LimitCount i = limit_of ?key" using l by (auto simp: word_gt_0)
    from R(6) [OF pos] obtain d4 where u: "upsertCounterWithLimit db ?key (sr_Count i) (sr_LimitCount i) = Some d4"
      and d4: "gd_counter db' = gd_counter d4" by blast
    have le: "unat (sr_Count i) \<le> unat (sr_LimitCount i)" using R(2) [OF pos] by (simp add: word_le_nat_alt)
    note U = upsert_Some [OF u le old [of ?key, folded lim]]
    have same: "counted db' k = counted d4 k" for k using d4 by (simp add: counted_def)
    show ?thesis
    proof (rule reserve_books [OF R(7,8) pend _ _ c m])
      show "counted db' k = counted db k + row_uses k ?row" for k unfolding same U(2) uses using False by simp
      show "counted db' k \<le> unat (limit_of k)" for k
        using U(2) [of k] U(3) old [of k] unfolding same by (cases "k = ?key") (simp_all add: lim)
    qed
  qed
qed

lemma upgrade_books:
  assumes u: "UpgradeGuild levels db guild player expected = Inr (db', changed, level)"
    and s: "spent = (case gd_guild db guild of None \<Rightarrow> 0 | Some g \<Rightarrow>
          (case levels (gu_level g) of None \<Rightarrow> 0 | Some (cost, _) \<Rightarrow> if changed then unat cost else 0))"
    and c: "counters_ok limit_of db" and m: "funds_ok sp db"
  shows "counters_ok limit_of db' \<and> funds_ok (sp(guild := sp guild + spent)) db'"
proof -
  from u obtain g where g: "gd_guild db guild = Some g" by (auto simp: UpgradeGuild_def split: option.splits)
  from u g have cases: "(\<not> changed \<and> db' = db) \<or> (changed \<and> (\<exists>cost x nm. levels (gu_level g) = Some (cost, x)
      \<and> cost \<le> gu_funds g \<and> db' = db\<lparr>gd_guilds := AList.update guild (g\<lparr>gu_level := gu_level g + 1, gu_funds := gu_funds g - cost,
           gu_max_members := nm\<rparr>) (gd_guilds db)\<rparr>))"
    by (auto simp: UpgradeGuild_def not_less split: option.splits if_splits prod.splits)
  then show ?thesis
  proof
    assume "\<not> changed \<and> db' = db"
    with c m s g show ?thesis by (auto simp: split: option.splits prod.splits)
  next
    assume "changed \<and> (\<exists>cost x nm. levels (gu_level g) = Some (cost, x)
      \<and> cost \<le> gu_funds g \<and> db' = db\<lparr>gd_guilds := AList.update guild (g\<lparr>gu_level := gu_level g + 1, gu_funds := gu_funds g - cost,
           gu_max_members := nm\<rparr>) (gd_guilds db)\<rparr>)"
    then obtain cost x nm where ch: changed and lv: "levels (gu_level g) = Some (cost, x)" and le: "cost \<le> gu_funds g"
      and d: "db' = db\<lparr>gd_guilds := AList.update guild (g\<lparr>gu_level := gu_level g + 1, gu_funds := gu_funds g - cost,
           gu_max_members := nm\<rparr>) (gd_guilds db)\<rparr>" by blast
    have sp: "spent = unat cost" using s g lv ch by simp
    have "unat (gu_funds g - cost) + unat cost = unat (gu_funds g)" using le by (simp add: unat_sub word_le_nat_alt)
    moreover have "donated db' = donated db" "used_by_rows db' = used_by_rows db" "counted db' = counted db"
      by (simp_all add: fun_eq_iff donated_def used_by_rows_def counted_def d)
    moreover have "unat (gu_funds g) + sp guild = donated db guild"
      using m g by (auto simp: funds_ok_def guild_funds_def)
    ultimately show ?thesis using c m by (auto simp: counters_ok_def funds_ok_def guild_funds_def d sp)
  qed
qed

lemma econ_inv_econ_step:
  assumes inv: "econ_inv limit_of s" and step: "econ_step limit_of levels s s'"
  shows "econ_inv limit_of s'"
proof -
  from inv have c: "counters_ok limit_of (gs_db s)" and m: "funds_ok (gs_spent s) (gs_db s)" by (simp_all add: econ_inv_def)
  have books: "same_books (gs_db s) d \<Longrightarrow> econ_inv limit_of (s\<lparr>gs_db := d\<rparr>)" for d
    using same_books_inv c m by (simp add: econ_inv_def)
  from step show ?thesis
  proof (cases rule: econ_step.cases)
    case (donate i db' alloc)
    then show ?thesis using donate_books [OF donate(2,3) c m] by (simp add: econ_inv_def)
  next
    case (order i db' alloc after)
    then show ?thesis using order_books [OF order(2,3) c m] by (simp add: econ_inv_def)
  next
    case (claim opID nowMs leaseUntilMs token db')
    then show ?thesis using books claim.cas_same_books by blast
  next
    case (poison opID token nowMs poisonUntilMs)
    then show ?thesis using books [OF poison.case_cas_same_books] by (simp add: markPoison_def)
  next
    case (reschedule op nextAttemptMs res nowMs db')
    then show ?thesis using books resched.cas_same_books
      by (auto simp: Reschedule_def split: option.splits if_splits)
  next
    case (release op nowMs db')
    then show ?thesis using books release.cas_same_books by (auto simp: ReleaseLease_def split: option.splits if_splits)
  next
    case (finalize db0 op status res nowMs db' hit)
    then show ?thesis using fin.terminate_books [OF _ finalize(3) c m]
      by (auto simp: Finalize_def econ_inv_def split: if_splits)
  next
    case (resolve db0 mr nowMs db' hit)
    then show ?thesis using man.terminate_books [OF _ resolve(3) c m]
      by (auto simp: ResolveManually_def econ_inv_def split: option.splits)
  next
    case (resolve_quiet db0 mr until sent nowMs db' hit)
    then show ?thesis using quiet.terminate_books [OF _ resolve_quiet(3) c m]
      by (auto simp: ResolveManuallyIfQuiet_def econ_inv_def split: option.splits)
  next
    case (abandon db0 op nowMs db')
    then show ?thesis using aband.terminate_books [OF _ abandon(3) c m]
      by (auto simp: Abandon_def econ_inv_def split: sum.splits prod.splits if_splits)
  next
    case (accelerate guild players now db')
    then show ?thesis using books accelerate_same_books by blast
  next
    case (upgrade guild player expected db' changed level spent)
    then show ?thesis using upgrade_books [OF upgrade(2,3) c m] by (simp add: econ_inv_def)
  qed
qed

lemma econ_inv_step:
  assumes inv: "econ_inv limit_of s" and step: "guild_step limit_of levels s s'"
  shows "econ_inv limit_of s'"
proof -
  from inv have c: "counters_ok limit_of (gs_db s)" and m: "funds_ok (gs_spent s) (gs_db s)" by (simp_all add: econ_inv_def)
  from step show ?thesis
  proof (cases rule: guild_step.cases)
    case economy
    then show ?thesis using econ_inv_econ_step [OF inv] by blast
  next
    case (create guild g)
    have "row_donates guild r = 0" if "r \<in> set (gd_op (gs_db s))" for r
      using create(3) that by (simp add: row_donates_def)
    then have "donated (gs_db s) guild = 0" by (simp add: donated_def)
    with create c m show ?thesis
      by (auto simp: econ_inv_def counters_ok_def funds_ok_def guild_funds_def donated_def used_by_rows_def counted_def)
  next
    case (columns guild g g')
    with c m show ?thesis
      by (auto simp: econ_inv_def counters_ok_def funds_ok_def guild_funds_def donated_def used_by_rows_def counted_def)
  next
    case (dissolve guild)
    with c m show ?thesis
      by (auto simp: econ_inv_def counters_ok_def funds_ok_def guild_funds_def donated_def used_by_rows_def counted_def)
  next
    case (membership ms)
    with c m show ?thesis
      by (auto simp: econ_inv_def counters_ok_def funds_ok_def guild_funds_def donated_def used_by_rows_def counted_def)
  qed
qed

lemma econ_inv_reachable: "guild_reachable limit_of levels s \<Longrightarrow> econ_inv limit_of s"
proof (induction rule: guild_reachable.induct)
  case init
  show ?case by (simp add: econ_inv_def counters_ok_def funds_ok_def used_by_rows_def counted_def guild_funds_def empty_db_def)
next
  case (step s s')
  then show ?case using econ_inv_step by blast
qed

end
