(* ===== verification/GuildOutboxProps.thy ===== *)
theory GuildOutboxProps
  imports GuildOutboxInv AssetOpProps
begin

text \<open>
  What the guild economy guarantees: limits, conservation of guild funds, settlement exactly once, the
  exact undoing of a refused shop order and the fairness of the due list.
\<close>

section \<open>Limits and funds\<close>

text \<open>C28: no player ever gets past a limit: in every reachable state the counter of a player, kind, item and
  period is exactly what the reservations that were not refunded used, and at most its limit.\<close>

theorem counters_exact_and_limited:
  assumes "guild_reachable limit_of levels s"
  shows "used_by_rows (gs_db s) key = counted (gs_db s) key \<and> counted (gs_db s) key \<le> unat (limit_of key)"
  using econ_inv_reachable [OF assms] unfolding econ_inv_def counters_ok_def by blast


section \<open>Exactly once\<close>

lemma find_op_append:
  "gd_op db' = gd_op db @ [row] \<Longrightarrow> find_op db opID = Some r \<Longrightarrow> find_op db' opID = Some r"
  by (simp add: find_op_def find_append)

lemma lease_settled:
  assumes "lease_statement cond f" and "find_op db opID = Some r" and "ar_status r \<noteq> StatusPending"
  shows "find_op (case cas_op i cond f db of None \<Rightarrow> db | Some d \<Rightarrow> d) opID = Some r"
  using assms pending_statement.cas_settled [OF lease_statement.axioms(1) [OF assms(1)]]
  by (auto split: option.split)

lemma terminate_settled:
  assumes "settle_statement cond f status" and t: "terminate db0 db i status cond f = Inr (db', hit)"
    and e: "earlier_read db0 db" and r: "find_op db opID = Some r" "ar_status r \<noteq> StatusPending"
  shows "find_op db' opID = Some r"
proof (cases hit)
  case False
  with settle_statement.terminate_effect(1) [OF assms(1) t e] r show ?thesis by simp
next
  case True
  with settle_statement.terminate_effect(2) [OF assms(1) t e] obtain r' where
    "find_op db i = Some r'" "ar_status r' = StatusPending"
    "\<forall>other. find_op db' other = (if other = i then Some (f r') else find_op db other)" by blast
  with r show ?thesis by auto
qed

lemma accelerate_settled:
  assumes "accelerateDonationDeadlines db guild players now = Some db'"
    and "find_op db opID = Some r" and "ar_status r \<noteq> StatusPending"
  shows "find_op db' opID = Some r"
proof -
  have "find_op d opID = Some r \<Longrightarrow> find_op (fold (\<lambda>opID d. case cas_op opID (accelerate_cond now) (accelerate_set now) d
      of None \<Rightarrow> d | Some d' \<Rightarrow> d') ids d) opID = Some r" for ids d
  proof (induction ids arbitrary: d)
    case (Cons i ids)
    show ?case using Cons.IH [OF lease_settled [OF accel.lease_statement_axioms Cons.prems assms(3)]] by simp
  qed simp
  with assms show ?thesis by (auto simp: accelerateDonationDeadlines_def split: if_splits)
qed

lemma settled_econ_step:
  assumes step: "econ_step limit_of levels s s'" and r: "find_op (gs_db s) opID = Some r" "ar_status r \<noteq> StatusPending"
  shows "find_op (gs_db s') opID = Some r"
  using step
proof (cases rule: econ_step.cases)
  case (donate i db' alloc)
  then show ?thesis using find_op_append [OF ReserveDonation_Inr(5) r(1)] by simp
next
  case (order i db' alloc after)
  then show ?thesis using find_op_append [OF ReserveShopOrder_Inr(7) r(1)] by simp
next
  case (claim i nowMs leaseUntilMs token db')
  then show ?thesis using claim.cas_settled [OF claim(2) r] by simp
next
  case (poison i token nowMs poisonUntilMs)
  then show ?thesis using lease_settled [OF poison.lease_statement_axioms r] by (simp add: markPoison_def)
next
  case (reschedule op nextAttemptMs res nowMs db')
  then show ?thesis using resched.cas_settled [OF _ r] by (auto simp: Reschedule_def split: option.splits if_splits)
next
  case (release op nowMs db')
  then show ?thesis using release.cas_settled [OF _ r] by (auto simp: ReleaseLease_def split: option.splits if_splits)
next
  case (finalize db0 op status res nowMs db' hit)
  then show ?thesis using terminate_settled [OF fin.settle_statement_axioms _ finalize(3) r]
    by (auto simp: Finalize_def split: if_splits)
next
  case (resolve db0 mr nowMs db' hit)
  then show ?thesis using terminate_settled [OF man.settle_statement_axioms _ resolve(3) r]
    by (auto simp: ResolveManually_def split: option.splits)
next
  case (resolve_quiet db0 mr until sent nowMs db' hit)
  then show ?thesis using terminate_settled [OF quiet.settle_statement_axioms _ resolve_quiet(3) r]
    by (auto simp: ResolveManuallyIfQuiet_def split: option.splits)
next
  case (abandon db0 op nowMs db')
  then show ?thesis using terminate_settled [OF aband.settle_statement_axioms _ abandon(3) r]
    by (auto simp: Abandon_def split: sum.splits prod.splits if_splits)
next
  case (accelerate guild players now db')
  then show ?thesis using accelerate_settled [OF accelerate(2) r] by simp
next
  case (upgrade guild player expected db' changed level spent)
  then have "gd_op db' = gd_op (gs_db s)"
    by (auto simp: UpgradeGuild_def split: option.splits if_splits prod.splits)
  with upgrade r show ?thesis by (simp add: find_op_def)
qed

lemma settled_step:
  assumes step: "guild_step limit_of levels s s'" and r: "find_op (gs_db s) opID = Some r" "ar_status r \<noteq> StatusPending"
  shows "find_op (gs_db s') opID = Some r"
  using step
proof (cases rule: guild_step.cases)
  case economy
  then show ?thesis using settled_econ_step r by blast
qed (use r in \<open>simp_all add: find_op_def\<close>)

lemma settled_steps:
  "(guild_step limit_of levels)\<^sup>*\<^sup>* s s' \<Longrightarrow> find_op (gs_db s) opID = Some r \<Longrightarrow> ar_status r \<noteq> StatusPending
    \<Longrightarrow> find_op (gs_db s') opID = Some r"
  by (induction rule: rtranclp_induct) (auto intro: settled_step)


section \<open>A refused order leaves no trace\<close>

lemma upsert_counts:
  assumes "upsertCounterWithLimit db key n limit = Some db'"
  shows "counted db' k = (if k = key then counted db key + unat n else counted db k)"
proof -
  have no_wrap: "unat (u + n) = unat u + unat n" if "unat u + unat n \<le> unat limit" for u
    using that unsigned_less [of limit, where 'a = nat] by (simp add: unat_word_ariths)
  with assms show ?thesis by (auto simp: upsertCounterWithLimit_def counted_def split: option.splits if_splits)
qed

lemma order_counts:
  assumes r: "ReserveShopOrder db i = Inr (db', alloc, after)"
  shows "counted db' key = counted db key + row_uses key ((shop_row i alloc)\<lparr>ar_last_send_ms := sr_NowMs i\<rparr>)"
proof -
  note R = ReserveShopOrder_Inr [OF r]
  let ?key = "(sr_PlayerID i, COUNTER_SHOP, sr_GoodsID i, sr_PeriodKey i)"
  have uses: "row_uses key ((shop_row i alloc)\<lparr>ar_last_send_ms := sr_NowMs i\<rparr>)
      = (if key = ?key \<and> sr_LimitCount i \<noteq> 0 then unat (sr_Count i) else 0)"
    using R(1) by (auto simp: row_uses_def row_key_def shop_row_def shop_validate_def refundsCounterparty_def)
  show ?thesis
  proof (cases "sr_LimitCount i = 0")
    case True
    with R(5) have "counted db' key = counted db key" by (simp add: counted_def)
    with True uses show ?thesis by simp
  next
    case False
    then have "sr_LimitCount i > 0" by (simp add: word_gt_0)
    from R(6) [OF this] obtain d4 where u: "upsertCounterWithLimit db ?key (sr_Count i) (sr_LimitCount i) = Some d4"
      and "gd_counter db' = gd_counter d4" by blast
    then have "counted db' key = counted d4 key" by (simp add: counted_def)
    with upsert_counts [OF u, of key] uses False show ?thesis by simp
  qed
qed

text \<open>a shop order that is rejected, aborted or given up is undone exactly: settling it restores every
  member's contribution and every counter to what they were before the order was placed.\<close>

theorem refused_order_undone:
  assumes "ReserveShopOrder db i = Inr (db1, alloc, after)" and "ao_OpID op = sr_OpID i"
    and "status \<in> {StatusRejected, StatusAborted}"
  shows "\<exists>db2. Finalize db1 db1 op status res nowMs = Inr (db2, True)
    \<and> gd_member db2 = gd_member db \<and> (\<forall>key. counted db2 key = counted db key) \<and> gd_guild db2 = gd_guild db"
proof -
  note R = ReserveShopOrder_Inr [OF assms(1)]
  let ?row = "(shop_row i alloc)\<lparr>ar_last_send_ms := sr_NowMs i\<rparr>"
  let ?f = "finalize_set status res nowMs"
  obtain m where m: "gd_member db (sr_GuildID i, sr_PlayerID i) = Some m" "sr_Cost i \<le> gm_balance m"
    "gd_member db1 = (gd_member db)((sr_GuildID i, sr_PlayerID i) \<mapsto> m\<lparr>gm_balance := gm_balance m - sr_Cost i\<rparr>)"
    using R(9) by blast
  have find: "find_op db1 (sr_OpID i) = Some ?row"
    using R(4,7) by (simp add: find_op_def find_append shop_row_def)
  define d where "d = db1\<lparr>gd_op := update_first (\<lambda>r. ar_op_id r = sr_OpID i) ?f (gd_op db1)\<rparr>"
  have "?f ?row \<noteq> ?row" using assms(3) by (auto simp: finalize_set_def shop_row_def dest: arg_cong [where f = ar_status])
  then have cas: "cas_op (sr_OpID i) pending_cond ?f db1 = Some d"
    using find by (simp add: cas_op_def find_op_def d_def pending_cond_def shop_row_def)
  have add: "add_checked (gm_balance m - sr_Cost i) (sr_Cost i) = Some (gm_balance m)"
  proof -
    have "unat (gm_balance m - sr_Cost i) + unat (sr_Cost i) = unat (gm_balance m)"
      using m(2) by (simp add: unat_sub word_le_nat_alt)
    then have "\<not> gm_balance m < gm_balance m - sr_Cost i" by (simp add: word_less_nat_alt)
    then show ?thesis by (simp add: add_checked_def)
  qed
  have pos: "sr_Cost i > 0" using R(1) by (auto simp: shop_validate_def word_gt_0)
  have ref: "refundsCounterparty status" "status \<noteq> StatusAppliedPartial" "isTerminalRecord status"
    using assms(3) by (auto simp: refundsCounterparty_def isTerminalRecord_def)
  let ?d1 = "d\<lparr>gd_members := AList.update (sr_GuildID i, sr_PlayerID i) m (gd_members db1)\<rparr>"
  have "creditContribution False d (sr_GuildID i) (sr_PlayerID i) (sr_Cost i) = Inr ?d1"
    using m add by (simp add: creditContribution_def d_def fun_upd_idem)
  moreover have fields: "ar_kind ?row = KIND_SHOP" "ar_guild_id ?row = sr_GuildID i" "ar_player_id ?row = sr_PlayerID i"
    "ar_contribution_delta ?row = sr_Cost i" by (simp_all add: shop_row_def)
  moreover have "cl_memberOK (lockCounterparty db1 ?row status)"
    using ref m(3) by (simp add: lockCounterparty_def fields)
  ultimately have app: "applyCounterparty d ?row status (lockCounterparty db1 ?row status) =
      Inr (case counterRefund ?row status of None \<Rightarrow> ?d1 | Some (kind, n) \<Rightarrow> refundCounter ?d1 ?row kind n, NoOrphan)"
    unfolding applyCounterparty_def fields using ref pos by (simp add: Let_def)
  define db2 where "db2 = (case counterRefund ?row status of None \<Rightarrow> ?d1 | Some (kind, n) \<Rightarrow> refundCounter ?d1 ?row kind n)"
  have fin: "Finalize db1 db1 op status res nowMs = Inr (db2, True)"
    using find cas app ref by (simp add: Finalize_def terminate_def assms(2) db2_def)
  have mem: "gd_member db2 = gd_member db" "gd_guild db2 = gd_guild db"
    using R(8) m by (auto simp: db2_def refundCounter_frame d_def fun_upd_idem split: option.split prod.split)
  have "counted db2 key = counted db key" for key
  proof -
    have "counted db2 key = counted db1 key - row_uses key ?row"
      using counted_refund [OF ref(1), of ?row ?d1 key] by (simp add: db2_def shop_row_def d_def counted_def)
    moreover have "counted db1 key = counted db key + row_uses key ?row"
      by (rule order_counts [OF assms(1)])
    ultimately show ?thesis by simp
  qed
  with fin mem show ?thesis by blast
qed

section \<open>The due list\<close>

lemma segment_ids:
  "set (listDueSegment fresh db nowMs n) \<subseteq> {ar_op_id r | r. r \<in> set (gd_op db) \<and> ar_status r = StatusPending
     \<and> ar_next_attempt_ms r \<le> nowMs \<and> ar_lease_until_ms r < nowMs}"
  by (auto simp: listDueSegment_def dest!: in_set_takeD)

lemma segment_distinct:
  "distinct (map ar_op_id (gd_op db)) \<Longrightarrow> distinct (listDueSegment fresh db nowMs n)"
  unfolding listDueSegment_def
  by (intro distinct_take) (simp add: distinct_map distinct_filter inj_on_def)

text \<open>The due list never starves a new row: it has no duplicates and at most the asked number of rows,
  lists only pending rows that are due and not leased when read, and takes an old row only after every
  new row that is due.\<close>

theorem ListDue_fresh_first:
  assumes "distinct (map ar_op_id (gd_op db))" and "distinct (map ar_op_id (gd_op db2))"
  shows "distinct (ListDue db db2 nowMs limit) \<and> length (ListDue db db2 nowMs limit) \<le> nat limit
    \<and> (\<forall>i \<in> set (ListDue db db2 nowMs limit). \<exists>r \<in> set (gd_op db) \<union> set (gd_op db2).
         ar_op_id r = i \<and> ar_status r = StatusPending \<and> ar_next_attempt_ms r \<le> nowMs \<and> ar_lease_until_ms r < nowMs)
    \<and> (length (ListDue db db2 nowMs limit) < nat limit \<or> (\<exists>i \<in> set (ListDue db db2 nowMs limit). i \<notin> set (listDueSegment True db nowMs (nat limit)))
       \<longrightarrow> (\<forall>r \<in> set (gd_op db). ar_status r = StatusPending \<and> ar_next_attempt_ms r \<le> nowMs
            \<and> ar_lease_until_ms r < nowMs \<and> ar_attempts r < FreshAttemptLimit \<and> 0 < limit
            \<longrightarrow> ar_op_id r \<in> set (ListDue db db2 nowMs limit)))"
proof (cases "limit \<le> 0")
  case True
  then show ?thesis by (simp add: ListDue_def)
next
  case False
  let ?n = "nat limit"
  let ?f = "listDueSegment True db nowMs ?n"
  let ?a = "filter (\<lambda>i. i \<notin> set ?f) (listDueSegment False db2 nowMs (?n - length ?f))"
  have len: "length ?f \<le> ?n" "length ?a \<le> ?n - length ?f"
    by (simp_all add: listDueSegment_def le_trans [OF length_filter_le])
  have L: "ListDue db db2 nowMs limit = (if length ?f \<ge> ?n then ?f else ?f @ ?a)"
    using False by (simp add: ListDue_def Let_def)
  have all: "set (listDueSegment True db nowMs ?n) = ar_op_id ` {r \<in> set (gd_op db). ar_status r = StatusPending
      \<and> ar_next_attempt_ms r \<le> nowMs \<and> ar_lease_until_ms r < nowMs \<and> ar_attempts r < FreshAttemptLimit}"
    if "length ?f < ?n"
  proof -
    have "take ?n xs = xs" if "length (take ?n xs) < ?n" for xs :: "u64 list" using that by simp
    from this [OF \<open>length ?f < ?n\<close> [unfolded listDueSegment_def]] show ?thesis
      unfolding listDueSegment_def by (simp add: image_Collect)
  qed
  have "distinct (ListDue db db2 nowMs limit)"
    using segment_distinct [OF assms(1)] segment_distinct [OF assms(2)] by (auto simp: L)
  moreover have "length (ListDue db db2 nowMs limit) \<le> ?n"
  proof -
    have "length (?f @ ?a) \<le> ?n" using len unfolding length_append by linarith
    with len(1) show ?thesis by (simp only: L split: if_split) simp
  qed
  moreover have "\<forall>i \<in> set (ListDue db db2 nowMs limit). \<exists>r \<in> set (gd_op db) \<union> set (gd_op db2).
         ar_op_id r = i \<and> ar_status r = StatusPending \<and> ar_next_attempt_ms r \<le> nowMs \<and> ar_lease_until_ms r < nowMs"
    using segment_ids [of True db nowMs ?n] segment_ids [of False db2 nowMs "?n - length ?f"]
    by (fastforce simp: L split: if_splits)
  moreover have short: "length ?f < ?n" if "length (ListDue db db2 nowMs limit) < ?n
      \<or> (\<exists>i \<in> set (ListDue db db2 nowMs limit). i \<notin> set ?f)"
  proof (rule ccontr)
    assume "\<not> length ?f < ?n"
    with len(1) have "ListDue db db2 nowMs limit = ?f" "length ?f = ?n" by (simp_all add: L)
    with that show False by simp
  qed
  have "length (ListDue db db2 nowMs limit) < ?n \<or> (\<exists>i \<in> set (ListDue db db2 nowMs limit). i \<notin> set ?f)
       \<longrightarrow> (\<forall>r \<in> set (gd_op db). ar_status r = StatusPending \<and> ar_next_attempt_ms r \<le> nowMs
            \<and> ar_lease_until_ms r < nowMs \<and> ar_attempts r < FreshAttemptLimit \<and> 0 < limit
            \<longrightarrow> ar_op_id r \<in> set (ListDue db db2 nowMs limit))"
  proof (intro impI ballI)
    fix r
    assume "length (ListDue db db2 nowMs limit) < ?n \<or> (\<exists>i \<in> set (ListDue db db2 nowMs limit). i \<notin> set ?f)"
      and r: "r \<in> set (gd_op db)" "ar_status r = StatusPending \<and> ar_next_attempt_ms r \<le> nowMs
        \<and> ar_lease_until_ms r < nowMs \<and> ar_attempts r < FreshAttemptLimit \<and> 0 < limit"
    with short have "length ?f < ?n" by blast
    from all [OF this] r have "ar_op_id r \<in> set ?f" by blast
    then show "ar_op_id r \<in> set (ListDue db db2 nowMs limit)" by (simp only: L split: if_split) simp
  qed
  ultimately show ?thesis by blast
qed

section \<open>Witnesses\<close>

definition sample_donation :: donation_reserve where
  "sample_donation = \<lparr>dr_OpID = 100, dr_PlayerID = 10, dr_GuildID = 7, dr_DonateID = 1, dr_MinGuildLevel = 1,
     dr_ContributionGain = 5, dr_FundsGain = 50, dr_DailyLimit = 3, dr_PeriodKey = 20260101, dr_DeadlineMs = 9000,
     dr_LeaseUntilMs = 5000, dr_LeaseToken = 77, dr_NowMs = 1000, dr_Payload = [1], dr_ClientRequestID = 0\<rparr>"

definition sample_order :: shop_reserve where
  "sample_order = \<lparr>sr_OpID = 200, sr_PlayerID = 10, sr_GuildID = 7, sr_GoodsID = 4, sr_Count = 2,
     sr_RequiredGuildLevel = 1, sr_Cost = 30, sr_LimitCount = 5, sr_PeriodKey = 20260101, sr_LeaseUntilMs = 5000,
     sr_LeaseToken = 78, sr_NowMs = 1000, sr_Payload = [1], sr_ClientRequestID = 9\<rparr>"

definition sample_guild :: guild_row where
  "sample_guild = \<lparr>gu_name = ''Jade'', gu_name_norm = ''jade'', gu_leader_id = 9, gu_level = 1, gu_announcement = [],
     gu_create_time_ms = 500, gu_max_members = 30, gu_zone_id = 1, gu_score = 0, gu_funds = 0\<rparr>"

definition sample_member :: member_row where
  "sample_member = \<lparr>gm_role = 0, gm_join_time_ms = 500, gm_last_active_ms = 500, gm_total = 100, gm_balance = 100\<rparr>"

definition sample_guild_db :: guild_db where
  "sample_guild_db = empty_db\<lparr>
     gd_guilds := [(7, sample_guild)], gd_members := [((7, 10), sample_member)]\<rparr>"

definition sample_limits :: "counter_key \<Rightarrow> u32" where
  "sample_limits key = 3"

definition sample_reserved :: guild_db where
  "sample_reserved = fst (projr (ReserveDonation sample_guild_db sample_donation))"

definition sample_sys :: guild_sys where
  "sample_sys = \<lparr>gs_db = sample_reserved, gs_spent = \<lambda>_. 0\<rparr>"

lemma sample_reserve: "ReserveDonation sample_guild_db sample_donation = Inr (sample_reserved, (1000, 1))"
proof -
  have "case ReserveDonation sample_guild_db sample_donation of Inl _ \<Rightarrow> False | Inr (_, alloc) \<Rightarrow> alloc = (1000, 1)"
    by code_simp
  then show ?thesis by (auto simp: sample_reserved_def split: sum.splits)
qed

lemma sample_reachable: "guild_reachable sample_limits Map.empty sample_sys"
proof -
  let ?s0 = "\<lparr>gs_db = empty_db, gs_spent = \<lambda>_. 0\<rparr>"
  let ?s1 = "?s0\<lparr>gs_db := empty_db\<lparr>gd_guilds := [(7, sample_guild)]\<rparr>\<rparr>"
  have "guild_step sample_limits Map.empty ?s0 ?s1"
    using guild_step.create [of ?s0 7 sample_guild sample_limits Map.empty]
    by (simp add: empty_db_def fun_upd_idem sample_guild_def)
  moreover have "guild_step sample_limits Map.empty ?s1 (?s0\<lparr>gs_db := sample_guild_db\<rparr>)"
    using guild_step.membership [of sample_limits Map.empty ?s1 "[((7, 10), sample_member)]"]
    by (simp add: sample_guild_db_def empty_db_def)
  moreover have "guild_step sample_limits Map.empty (?s0\<lparr>gs_db := sample_guild_db\<rparr>) sample_sys"
  proof -
    have db: "ReserveDonation (gs_db (?s0\<lparr>gs_db := sample_guild_db\<rparr>)) sample_donation = Inr (sample_reserved, (1000, 1))"
      by (simp add: sample_reserve)
    have "dr_DailyLimit sample_donation = sample_limits (dr_PlayerID sample_donation, COUNTER_DONATE,
        dr_DonateID sample_donation, dr_PeriodKey sample_donation)" by code_simp
    from guild_step.economy [OF econ_step.donate [where limit_of = sample_limits, OF db this]] show ?thesis by (simp add: sample_sys_def)
  qed
  ultimately show ?thesis using guild_reachable.step [OF guild_reachable.step [OF guild_reachable.step [OF guild_reachable.init]]]
    by blast
qed

theorem counters_exact_and_limited_witness:
  "used_by_rows sample_reserved (10, COUNTER_DONATE, 1, 20260101) = 1 \<and> counted sample_reserved (10, COUNTER_DONATE, 1, 20260101) = 1"
proof -
  have "counted sample_reserved (10, COUNTER_DONATE, 1, 20260101) = 1" by code_simp
  with counters_exact_and_limited [OF sample_reachable, of "(10, COUNTER_DONATE, 1, 20260101)"]
  show ?thesis by (simp add: sample_sys_def)
qed


definition sample_pending :: guild_db where
  "sample_pending = sample_guild_db\<lparr>gd_op := [donation_row sample_donation (1000, 1)]\<rparr>"

definition sample_settled_db :: guild_db where
  "sample_settled_db = fst (projr (Finalize sample_pending sample_pending (sample_asset_op\<lparr>ao_OpID := 100\<rparr>)
     StatusApplied sample_answer 2000))"


theorem refused_order_undone_witness:
  "\<exists>db1 db2. (\<exists>a b. ReserveShopOrder sample_guild_db sample_order = Inr (db1, a, b)) \<and> gd_member db1 \<noteq> gd_member sample_guild_db
    \<and> Finalize db1 db1 (sample_asset_op\<lparr>ao_OpID := 200\<rparr>) StatusRejected sample_answer 2000 = Inr (db2, True)
    \<and> gd_member db2 = gd_member sample_guild_db"
proof -
  have "case ReserveShopOrder sample_guild_db sample_order of Inl _ \<Rightarrow> False
      | Inr (d, _, _) \<Rightarrow> map_option gm_balance (gd_member d (7, 10)) = Some 70" by code_simp
  then obtain d a b where r: "ReserveShopOrder sample_guild_db sample_order = Inr (d, a, b)"
    and bal: "map_option gm_balance (gd_member d (7, 10)) = Some 70"
    by (auto split: sum.splits)
  have "gd_member d \<noteq> gd_member sample_guild_db" using bal by (auto simp: sample_guild_db_def sample_member_def)
  moreover have "ao_OpID (sample_asset_op\<lparr>ao_OpID := 200\<rparr>) = sr_OpID sample_order" by (simp add: sample_order_def)
  ultimately show ?thesis using r refused_order_undone [OF r, of "sample_asset_op\<lparr>ao_OpID := 200\<rparr>" StatusRejected sample_answer 2000]
    by (simp add: sample_order_def) blast
qed

theorem ListDue_fresh_first_witness:
  "ListDue sample_reserved sample_reserved 6000 5 = [100] \<and> distinct (ListDue sample_reserved sample_reserved 6000 5)"
proof -
  have "ListDue sample_reserved sample_reserved 6000 5 = [100]" "distinct (map ar_op_id (gd_op sample_reserved))" by code_simp+
  with ListDue_fresh_first [of sample_reserved sample_reserved 6000 5] show ?thesis by simp
qed

end
