(* ===== verification/GuildMembers.thy ===== *)
theory GuildMembers
  imports GuildOutbox Placement
begin

text \<open>
  Guild membership and management (\<^verbatim>\<open>src/go/guild/internal/data/guild_manage_repo.go\<close> and the founding of a
  guild in \<^verbatim>\<open>guild_repo.go\<close>): roles, applications, kicks, departures, transfers and the end of a guild.

  The tables are those of the economy (guilds, members, operations) together with the state rows that
  serialise the writes of one player, the pending applications, and the activity rows a dissolved guild
  loses.  A transaction is a function from the state it starts on to \<open>tx\<close>: roll back with an error, commit, or
  commit and still answer with an error.  Every transaction here first locks the guild row or the state
  rows of the players whose membership it changes, so it runs on the state it read.
  Counts are unbounded, and the zone map in force is an argument.  The role fence is not bound.
\<close>

section \<open>Tables\<close>

record application_row =
  ap_apply_ms :: u64
  ap_expire_ms :: u64

record guild_tables =
  gt_econ :: guild_db
  gt_state :: "u64 set"
  gt_app :: "((u64 \<times> u64) \<times> application_row) list"
  gt_progress :: "(u64 \<times> u32 \<times> u32) list"
  gt_trial :: "(u64 \<times> u64 \<times> bool) list"

abbreviation members_of :: "guild_tables \<Rightarrow> ((u64 \<times> u64) \<times> member_row) list" where
  "members_of t \<equiv> gd_members (gt_econ t)"

abbreviation member_at :: "guild_tables \<Rightarrow> u64 \<times> u64 \<rightharpoonup> member_row" where
  "member_at t \<equiv> map_of (members_of t)"

abbreviation guild_at :: "guild_tables \<Rightarrow> u64 \<rightharpoonup> guild_row" where
  "guild_at t \<equiv> map_of (gd_guilds (gt_econ t))"

abbreviation set_members :: "((u64 \<times> u64) \<times> member_row) list \<Rightarrow> guild_tables \<Rightarrow> guild_tables" where
  "set_members ms t \<equiv> t\<lparr>gt_econ := (gt_econ t)\<lparr>gd_members := ms\<rparr>\<rparr>"

abbreviation set_guilds :: "(u64 \<times> guild_row) list \<Rightarrow> guild_tables \<Rightarrow> guild_tables" where
  "set_guilds gs t \<equiv> t\<lparr>gt_econ := (gt_econ t)\<lparr>gd_guilds := gs\<rparr>\<rparr>"

section \<open>Transactions\<close>

datatype 'a tx = Rollback economy_error | Commit 'a guild_tables | CommitThen economy_error guild_tables

definition runTxBody :: "guild_tables \<Rightarrow> 'a tx \<Rightarrow> (economy_error + 'a) \<times> guild_tables" where
  "runTxBody t x = (case x of
       Rollback e \<Rightarrow> (Inl e, t) | Commit a t' \<Rightarrow> (Inr a, t') | CommitThen e t' \<Rightarrow> (Inl e, t'))"

text \<open>\<open>if err != nil { return err }\<close>.\<close>

definition tx_try :: "economy_error + 'b \<Rightarrow> ('b \<Rightarrow> 'a tx) \<Rightarrow> 'a tx" where
  "tx_try r k = (case r of Inl e \<Rightarrow> Rollback e | Inr x \<Rightarrow> k x)"

definition refuse :: "bool \<Rightarrow> economy_error \<Rightarrow> economy_error + unit" where
  "refuse b e = (if b then Inl e else Inr ())"

section \<open>Who may do what\<close>

abbreviation (input) RoleMember :: u32 where "RoleMember \<equiv> 0"
abbreviation (input) RoleOfficer :: u32 where "RoleOfficer \<equiv> 1"
abbreviation (input) RoleLeader :: u32 where "RoleLeader \<equiv> 3"
abbreviation (input) RankOfficer :: nat where "RankOfficer \<equiv> 2"
abbreviation (input) RankLeader :: nat where "RankLeader \<equiv> 3"

definition AssignableRole :: "u32 \<Rightarrow> bool" where
  "AssignableRole role = (role = RoleMember \<or> role = RoleOfficer)"

definition canAssignRole :: "u32 \<Rightarrow> bool" where
  "canAssignRole actorRole = (Rank actorRole = RankLeader)"

definition canTransferLeader :: "u32 \<Rightarrow> bool" where
  "canTransferLeader actorRole = (Rank actorRole = RankLeader)"

definition canReviewApplications :: "u32 \<Rightarrow> bool" where
  "canReviewApplications actorRole = (Rank actorRole \<ge> RankOfficer)"

definition canKick :: "u32 \<Rightarrow> u32 \<Rightarrow> bool" where
  "canKick actorRole targetRole =
     (Rank actorRole \<ge> RankOfficer \<and> Rank targetRole \<noteq> 0 \<and> Rank actorRole > Rank targetRole)"

definition canSetAnnouncement :: "u32 \<Rightarrow> bool" where
  "canSetAnnouncement role = (Rank role \<ge> RankOfficer)"

definition demotedLeaderRole :: "nat \<Rightarrow> u32 \<Rightarrow> u32" where
  "demotedLeaderRole officersAfterTarget maxOfficers =
     (if officersAfterTarget < unat maxOfficers then RoleOfficer else RoleMember)"

section \<open>Statements\<close>

definition lockGuildRow :: "guild_tables \<Rightarrow> u64 \<Rightarrow> economy_error + guild_row" where
  "lockGuildRow t guild = (case guild_at t guild of None \<Rightarrow> Inl ErrGuildGone | Some g \<Rightarrow> Inr g)"

definition lockPlayerState :: "guild_tables \<Rightarrow> u64 \<Rightarrow> economy_error + unit" where
  "lockPlayerState t player = (if player \<in> gt_state t then Inr () else Inl ErrPlayerStateRowMissing)"

definition ensurePlayerStateRows :: "guild_tables \<Rightarrow> u64 list \<Rightarrow> economy_error + guild_tables" where
  "ensurePlayerStateRows t ids =
     (if 0 \<in> set ids then Inl ErrBadRequest else Inr (t\<lparr>gt_state := gt_state t \<union> set ids\<rparr>))"

definition lockMemberRole :: "guild_tables \<Rightarrow> u64 \<Rightarrow> u64 \<Rightarrow> u32 option" where
  "lockMemberRole t guild player = map_option gm_role (member_at t (guild, player))"

definition lockMemberPair :: "guild_tables \<Rightarrow> u64 \<Rightarrow> u64 \<Rightarrow> u64 \<Rightarrow> economy_error + u32 \<times> u32" where
  "lockMemberPair t guild actor target =
     (if actor = target
      then Inl (if lockMemberRole t guild actor = None then ErrNotGuildMember else ErrTargetNotMember)
      else (case lockMemberRole t guild actor of
          None \<Rightarrow> Inl ErrNotGuildMember
        | Some a \<Rightarrow> (case lockMemberRole t guild target of None \<Rightarrow> Inl ErrTargetNotMember | Some b \<Rightarrow> Inr (a, b))))"

definition readMemberIDs :: "guild_tables \<Rightarrow> u64 \<Rightarrow> u64 list" where
  "readMemberIDs t guild = sort (map (snd \<circ> fst) (filter (\<lambda>r. fst (fst r) = guild) (members_of t)))"

definition countMembers :: "guild_tables \<Rightarrow> u64 \<Rightarrow> nat" where
  "countMembers t guild = length (filter (\<lambda>r. fst (fst r) = guild) (members_of t))"

definition countMembersByRole :: "guild_tables \<Rightarrow> u64 \<Rightarrow> u32 \<Rightarrow> nat" where
  "countMembersByRole t guild role = length (filter (\<lambda>r. fst (fst r) = guild \<and> gm_role (snd r) = role) (members_of t))"

text \<open>\<open>SELECT guild_id FROM guild_member WHERE player_id = ?\<close>.\<close>

definition loadPlayerGuild :: "guild_tables \<Rightarrow> u64 \<Rightarrow> u64 option" where
  "loadPlayerGuild t player = map_option (fst \<circ> fst) (find (\<lambda>r. snd (fst r) = player) (members_of t))"

text \<open>The snapshot read before a commit: the guild row and its members by id.\<close>

type_synonym guild_data = "guild_row \<times> (u64 \<times> member_row) list"

definition loadGuild :: "guild_tables \<Rightarrow> u64 \<Rightarrow> guild_data option" where
  "loadGuild t guild = map_option (\<lambda>g. (g, map (\<lambda>p. (p, the (member_at t (guild, p)))) (readMemberIDs t guild)))
     (guild_at t guild)"

definition txSnapshot :: "guild_tables \<Rightarrow> u64 \<Rightarrow> economy_error + guild_data" where
  "txSnapshot t guild = (case loadGuild t guild of None \<Rightarrow> Inl ErrGuildGone | Some d \<Rightarrow> Inr d)"

text \<open>A statement gives the number of rows it changed and the new state.\<close>

definition execExactlyOneRow :: "nat \<times> guild_tables \<Rightarrow> economy_error + guild_tables" where
  "execExactlyOneRow r = (if fst r = 1 then Inr (snd r) else Inl ErrExactlyOneRow)"

definition updateMemberRole :: "u32 \<Rightarrow> u64 \<Rightarrow> u64 \<Rightarrow> guild_tables \<Rightarrow> nat \<times> guild_tables" where
  "updateMemberRole role guild player t =
     (case member_at t (guild, player) of
        None \<Rightarrow> (0, t)
      | Some m \<Rightarrow> (if gm_role m = role then 0 else 1,
                   set_members (AList.update (guild, player) (m\<lparr>gm_role := role\<rparr>) (members_of t)) t))"

definition deleteMember :: "u64 \<Rightarrow> u64 \<Rightarrow> guild_tables \<Rightarrow> nat \<times> guild_tables" where
  "deleteMember guild player t =
     (if member_at t (guild, player) = None then (0, t)
      else (1, set_members (AList.delete (guild, player) (members_of t)) t))"

text \<open>\<open>None\<close> is the duplicate key: the primary key or the unique index on the player.\<close>

definition insertMember :: "u64 \<Rightarrow> u64 \<Rightarrow> u32 \<Rightarrow> u64 \<Rightarrow> u64 \<Rightarrow> guild_tables \<Rightarrow> guild_tables option" where
  "insertMember guild player role joinMs activeMs t =
     (if loadPlayerGuild t player \<noteq> None then None
      else Some (set_members (members_of t @ [((guild, player),
             \<lparr>gm_role = role, gm_join_time_ms = joinMs, gm_last_active_ms = activeMs, gm_total = 0, gm_balance = 0\<rparr>)]) t))"

definition updateLeader :: "u64 \<Rightarrow> u64 \<Rightarrow> guild_tables \<Rightarrow> nat \<times> guild_tables" where
  "updateLeader leader guild t =
     (case guild_at t guild of
        None \<Rightarrow> (0, t)
      | Some g \<Rightarrow> (if gu_leader_id g = leader then 0 else 1,
                   set_guilds (AList.update guild (g\<lparr>gu_leader_id := leader\<rparr>) (gd_guilds (gt_econ t))) t))"

section \<open>Applications\<close>

definition applicationKeysOfPlayers :: "guild_tables \<Rightarrow> u64 list \<Rightarrow> (u64 \<times> u64) list" where
  "applicationKeysOfPlayers t players = map fst (filter (\<lambda>r. snd (fst r) \<in> set players) (gt_app t))"

definition applicationKeysOfGuild :: "guild_tables \<Rightarrow> u64 \<Rightarrow> (u64 \<times> u64) list" where
  "applicationKeysOfGuild t guild =
     map (\<lambda>p. (guild, p)) (sort (map (snd \<circ> fst) (filter (\<lambda>r. fst (fst r) = guild) (gt_app t))))"

definition deleteApplication :: "u64 \<times> u64 \<Rightarrow> guild_tables \<Rightarrow> guild_tables" where
  "deleteApplication key t = t\<lparr>gt_app := AList.delete key (gt_app t)\<rparr>"

definition deleteApplicationRows :: "(u64 \<times> u64) list \<Rightarrow> guild_tables \<Rightarrow> guild_tables" where
  "deleteApplicationRows keys t = fold deleteApplication (remdups (sort keys)) t"

definition deleteApplicationsOfPlayer :: "u64 \<Rightarrow> (u64 \<times> u64) list \<Rightarrow> guild_tables \<Rightarrow> guild_tables" where
  "deleteApplicationsOfPlayer player alsoHeld t =
     deleteApplicationRows (applicationKeysOfPlayers t [player] @ alsoHeld) t"

text \<open>\<open>DELETE ... AND expire_ms <= ?\<close> under the point lock of the row.\<close>

definition deleteExpiredApplication :: "u64 \<Rightarrow> u64 \<times> u64 \<Rightarrow> guild_tables \<Rightarrow> guild_tables" where
  "deleteExpiredApplication now key t =
     (case map_of (gt_app t) key of
        None \<Rightarrow> t | Some a \<Rightarrow> if ap_expire_ms a \<le> now then deleteApplication key t else t)"

definition purgeExpiredApplicationsOfPlayer :: "u64 \<Rightarrow> u64 \<Rightarrow> guild_tables \<Rightarrow> guild_tables" where
  "purgeExpiredApplicationsOfPlayer player now t =
     fold (deleteExpiredApplication now)
       (sort (map fst (filter (\<lambda>r. snd (fst r) = player \<and> ap_expire_ms (snd r) \<le> now) (gt_app t)))) t"

definition countPendingApplicationsOfPlayer :: "guild_tables \<Rightarrow> u64 \<Rightarrow> u64 \<Rightarrow> nat" where
  "countPendingApplicationsOfPlayer t player now =
     length (filter (\<lambda>r. snd (fst r) = player \<and> ap_expire_ms (snd r) > now) (gt_app t))"

text \<open>A live application: not expired, and the applicant is in no guild.\<close>

definition CountLiveApplications :: "guild_tables \<Rightarrow> u64 \<Rightarrow> u64 \<Rightarrow> nat" where
  "CountLiveApplications t guild now =
     length (filter (\<lambda>r. fst (fst r) = guild \<and> ap_expire_ms (snd r) > now \<and> loadPlayerGuild t (snd (fst r)) = None)
       (gt_app t))"

definition listReviewers :: "guild_tables \<Rightarrow> u64 \<Rightarrow> u64 list" where
  "listReviewers t guild =
     sort (map (snd \<circ> fst) (filter (\<lambda>r. fst (fst r) = guild \<and> gm_role (snd r) \<in> {RoleOfficer, RoleLeader}) (members_of t)))"

section \<open>Founding\<close>

text \<open>What the service hands over for a new guild (\<^verbatim>\<open>logic/guild_logic.go\<close>): level 1, the caller as leader and
  only member.\<close>

definition new_guild_data :: "string \<Rightarrow> u64 \<Rightarrow> u64 \<Rightarrow> u32 \<Rightarrow> u32 \<Rightarrow> guild_data" where
  "new_guild_data name player now maxMembers zone =
     (\<lparr>gu_name = name, gu_name_norm = [], gu_leader_id = player, gu_level = 1, gu_announcement = [],
       gu_create_time_ms = now, gu_max_members = maxMembers, gu_zone_id = zone, gu_score = 0, gu_funds = 0\<rparr>,
      [(player, \<lparr>gm_role = RoleLeader, gm_join_time_ms = now, gm_last_active_ms = now, gm_total = 0, gm_balance = 0\<rparr>)])"

text \<open>The primary key is checked before the unique index on the normalised name.\<close>

definition insertGuild :: "u64 \<Rightarrow> guild_row \<Rightarrow> string \<Rightarrow> guild_tables \<Rightarrow> economy_error + guild_tables" where
  "insertGuild guild g nameNorm t =
     (if guild_at t guild \<noteq> None then Inl ErrDuplicateKey
      else if \<exists>r \<in> set (gd_guilds (gt_econ t)). gu_name_norm (snd r) = nameNorm then Inl ErrGuildNameTaken
      else Inr (set_guilds (gd_guilds (gt_econ t) @
             [(guild, g\<lparr>gu_name_norm := nameNorm, gu_score := 0, gu_funds := 0\<rparr>)]) t))"

definition CreateGuild_tx :: "u64 \<Rightarrow> guild_row \<Rightarrow> string \<Rightarrow> u64 \<times> member_row \<Rightarrow> guild_tables \<Rightarrow> unit tx" where
  "CreateGuild_tx guild g nameNorm leader t =
     (case leader of (player, m) \<Rightarrow>
        tx_try (lockPlayerState t player) (\<lambda>_.
        case insertMember guild player (gm_role m) (gm_join_time_ms m) (gm_last_active_ms m) t of
          None \<Rightarrow> Rollback ErrPlayerAlreadyInGuild
        | Some t1 \<Rightarrow>
            tx_try (insertGuild guild g nameNorm (deleteApplicationsOfPlayer player [] t1)) (Commit ())))"

definition CreateGuild ::
  "(string \<Rightarrow> string option) \<Rightarrow> u64 \<Rightarrow> guild_data \<Rightarrow> guild_tables \<Rightarrow> (economy_error + unit) \<times> guild_tables" where
  "CreateGuild nameNormOf guild d t =
     (case snd d of
        [leader] \<Rightarrow>
          (case nameNormOf (gu_name (fst d)) of
             None \<Rightarrow> (Inl ErrBadRequest, t)
           | Some nameNorm \<Rightarrow>
               (case ensurePlayerStateRows t [fst leader] of
                  Inl e \<Rightarrow> (Inl e, t)
                | Inr t1 \<Rightarrow> runTxBody t1 (CreateGuild_tx guild (fst d) nameNorm leader t1)))
      | _ \<Rightarrow> (Inl ErrBadRequest, t))"

section \<open>Roles\<close>

definition SetMemberRole_tx ::
  "(u32 \<Rightarrow> u32 option) \<Rightarrow> u64 \<Rightarrow> u64 \<Rightarrow> u64 \<Rightarrow> u32 \<Rightarrow> guild_tables \<Rightarrow> (guild_data \<times> bool) tx" where
  "SetMemberRole_tx officerCap guild actor target role t =
     tx_try (lockGuildRow t guild) (\<lambda>g.
     tx_try (lockMemberPair t guild actor target) (\<lambda>(actorRole, targetRole).
     tx_try (refuse (\<not> canAssignRole actorRole) ErrRankTooLow) (\<lambda>_.
     tx_try (refuse (Rank targetRole = RankLeader) ErrRankTooLow) (\<lambda>_.
     if targetRole = role then tx_try (txSnapshot t guild) (\<lambda>d. Commit (d, False) t)
     else
       tx_try (if role = RoleOfficer
               then (case officerCap (gu_level g) of
                       None \<Rightarrow> Inl ErrGuildLevelConfigMissing
                     | Some maxOfficers \<Rightarrow>
                         refuse (countMembersByRole t guild RoleOfficer \<ge> unat maxOfficers) ErrOfficerLimit)
               else Inr ()) (\<lambda>_.
       tx_try (execExactlyOneRow (updateMemberRole role guild target t)) (\<lambda>t1.
       tx_try (txSnapshot t1 guild) (\<lambda>d. Commit (d, True) t1)))))))"

definition SetMemberRole ::
  "(u32 \<Rightarrow> u32 option) \<Rightarrow> u64 \<Rightarrow> u64 \<Rightarrow> u64 \<Rightarrow> u32 \<Rightarrow> guild_tables \<Rightarrow> (economy_error + guild_data \<times> bool) \<times> guild_tables" where
  "SetMemberRole officerCap guild actor target role t =
     (if actor = target \<or> \<not> AssignableRole role then (Inl ErrBadRequest, t)
      else runTxBody t (SetMemberRole_tx officerCap guild actor target role t))"

definition TransferLeader_tx ::
  "(u32 \<Rightarrow> u32 option) \<Rightarrow> u64 \<Rightarrow> u64 \<Rightarrow> u64 \<Rightarrow> guild_tables \<Rightarrow> (guild_data \<times> bool) tx" where
  "TransferLeader_tx officerCap guild actor target t =
     tx_try (lockGuildRow t guild) (\<lambda>g.
     tx_try (lockMemberPair t guild actor target) (\<lambda>(actorRole, targetRole).
     tx_try (refuse (\<not> canTransferLeader actorRole) ErrRankTooLow) (\<lambda>_.
     tx_try (refuse (gu_leader_id g \<noteq> actor) ErrLeaderMismatch) (\<lambda>_.
     case officerCap (gu_level g) of
       None \<Rightarrow> Rollback ErrGuildLevelConfigMissing
     | Some maxOfficers \<Rightarrow>
        (let officers = countMembersByRole t guild RoleOfficer;
             officers' = (if targetRole = RoleOfficer \<and> officers > 0 then officers - 1 else officers);
             oldLeaderRole = demotedLeaderRole officers' maxOfficers in
         tx_try (execExactlyOneRow (updateLeader target guild t)) (\<lambda>t1.
         let t2 = snd (updateMemberRole RoleLeader guild target t1);
             t3 = snd (updateMemberRole oldLeaderRole guild actor t2) in
         tx_try (refuse (countMembersByRole t3 guild RoleLeader \<noteq> 1) ErrExactlyOneRow) (\<lambda>_.
         tx_try (txSnapshot t3 guild) (\<lambda>d. Commit (d, True) t3))))))))"

definition TransferLeader ::
  "(u32 \<Rightarrow> u32 option) \<Rightarrow> u64 \<Rightarrow> u64 \<Rightarrow> u64 \<Rightarrow> guild_tables \<Rightarrow> (economy_error + guild_data \<times> bool) \<times> guild_tables" where
  "TransferLeader officerCap guild actor target t =
     (if actor = target then (Inl ErrBadRequest, t)
      else runTxBody t (TransferLeader_tx officerCap guild actor target t))"

section \<open>Departures\<close>

definition accelerate_try :: "u64 \<Rightarrow> u64 list \<Rightarrow> u64 \<Rightarrow> guild_tables \<Rightarrow> economy_error + guild_tables" where
  "accelerate_try guild players now t =
     (case accelerateDonationDeadlines (gt_econ t) guild players now of
        None \<Rightarrow> Inl ErrBadRequest | Some db \<Rightarrow> Inr (t\<lparr>gt_econ := db\<rparr>))"

definition readOperatorRole :: "guild_tables \<Rightarrow> u64 \<Rightarrow> u64 \<Rightarrow> economy_error + u32" where
  "readOperatorRole t guild actor =
     (if guild_at t guild = None then Inl ErrGuildGone
      else case lockMemberRole t guild actor of None \<Rightarrow> Inl ErrNotGuildMember | Some role \<Rightarrow> Inr role)"

definition precheckKickTarget :: "guild_tables \<Rightarrow> u64 \<Rightarrow> u64 \<Rightarrow> u64 \<Rightarrow> economy_error option" where
  "precheckKickTarget t guild actor target =
     (if lockMemberRole t guild target \<noteq> None then None
      else Some (case readOperatorRole t guild actor of Inl e \<Rightarrow> e | Inr _ \<Rightarrow> ErrTargetNotMember))"

definition KickMember_tx :: "u64 \<Rightarrow> u64 \<Rightarrow> u64 \<Rightarrow> u64 \<Rightarrow> guild_tables \<Rightarrow> (guild_data \<times> bool) tx" where
  "KickMember_tx guild actor target now t =
     tx_try (lockGuildRow t guild) (\<lambda>_.
     tx_try (lockPlayerState t target) (\<lambda>_.
     tx_try (lockMemberPair t guild actor target) (\<lambda>(actorRole, targetRole).
     tx_try (refuse (\<not> canKick actorRole targetRole) ErrRankTooLow) (\<lambda>_.
     tx_try (execExactlyOneRow (deleteMember guild target t)) (\<lambda>t1.
     tx_try (accelerate_try guild [target] now (deleteApplicationsOfPlayer target [] t1)) (\<lambda>t2.
     tx_try (txSnapshot t2 guild) (\<lambda>d. Commit (d, True) t2)))))))"

definition KickMember ::
  "u64 \<Rightarrow> u64 \<Rightarrow> u64 \<Rightarrow> u64 \<Rightarrow> guild_tables \<Rightarrow> (economy_error + guild_data \<times> bool) \<times> guild_tables" where
  "KickMember guild actor target now t =
     (if actor = target then (Inl ErrBadRequest, t)
      else case precheckKickTarget t guild actor target of
        Some e \<Rightarrow> (Inl e, t)
      | None \<Rightarrow>
          (case ensurePlayerStateRows t [target] of
             Inl e \<Rightarrow> (Inl e, t)
           | Inr t1 \<Rightarrow> runTxBody t1 (KickMember_tx guild actor target now t1)))"

definition LeaveGuild_tx :: "u64 \<Rightarrow> u64 \<Rightarrow> u64 \<Rightarrow> guild_tables \<Rightarrow> (guild_data \<times> bool) tx" where
  "LeaveGuild_tx guild player now t =
     tx_try (lockGuildRow t guild) (\<lambda>g.
     tx_try (lockPlayerState t player) (\<lambda>_.
     case lockMemberRole t guild player of
       None \<Rightarrow> Rollback ErrNotGuildMember
     | Some role \<Rightarrow>
        tx_try (refuse (Rank role = RankLeader \<or> gu_leader_id g = player) ErrLeaderCantLeave) (\<lambda>_.
        tx_try (execExactlyOneRow (deleteMember guild player t)) (\<lambda>t1.
        tx_try (accelerate_try guild [player] now (deleteApplicationsOfPlayer player [] t1)) (\<lambda>t2.
        tx_try (txSnapshot t2 guild) (\<lambda>d. Commit (d, True) t2))))))"

definition LeaveGuild ::
  "u64 \<Rightarrow> u64 \<Rightarrow> u64 \<Rightarrow> guild_tables \<Rightarrow> (economy_error + guild_data \<times> bool) \<times> guild_tables" where
  "LeaveGuild guild player now t =
     (case ensurePlayerStateRows t [player] of
        Inl e \<Rightarrow> (Inl e, t) | Inr t1 \<Rightarrow> runTxBody t1 (LeaveGuild_tx guild player now t1))"

section \<open>Applying\<close>

record ApplicationRules =
  ru_TTLMs :: u64
  ru_MaxPerPlayer :: u32
  ru_MaxPerGuild :: u32

definition SameZone :: "merged_zones option \<Rightarrow> u32 \<Rightarrow> u32 \<Rightarrow> bool" where
  "SameZone zones a b = (Final zones a = Final zones b)"

text \<open>The answer: whether a row was inserted, and who reviews it.\<close>

definition ApplyToGuild_tx ::
  "merged_zones option \<Rightarrow> u64 \<Rightarrow> u64 \<Rightarrow> u32 \<Rightarrow> u64 \<Rightarrow> ApplicationRules \<Rightarrow> guild_tables \<Rightarrow> (bool \<times> u64 list) tx" where
  "ApplyToGuild_tx zones guild player requiredZone now rules t =
     tx_try (lockGuildRow t guild) (\<lambda>g.
     tx_try (refuse (requiredZone \<noteq> 0 \<and> \<not> SameZone zones (gu_zone_id g) requiredZone) ErrGuildZoneMismatch) (\<lambda>_.
     tx_try (lockPlayerState t player) (\<lambda>_.
     tx_try (refuse (loadPlayerGuild t player \<noteq> None) ErrPlayerAlreadyInGuild) (\<lambda>_.
     let t1 = purgeExpiredApplicationsOfPlayer player now t;
         a = \<lparr>ap_apply_ms = now, ap_expire_ms = now + ru_TTLMs rules\<rparr> in
     if map_of (gt_app t1) (guild, player) \<noteq> None
     then Commit (False, []) (t1\<lparr>gt_app := AList.update (guild, player) a (gt_app t1)\<rparr>)
     else
       tx_try (refuse (countMembers t1 guild \<ge> unat (gu_max_members g)) ErrGuildFull) (\<lambda>_.
       tx_try (refuse (countPendingApplicationsOfPlayer t1 player now \<ge> unat (ru_MaxPerPlayer rules)) ErrApplicationLimit) (\<lambda>_.
       tx_try (refuse (CountLiveApplications t1 guild now \<ge> unat (ru_MaxPerGuild rules)) ErrApplicationQueueFull) (\<lambda>_.
       Commit (True, listReviewers t1 guild) (t1\<lparr>gt_app := gt_app t1 @ [((guild, player), a)]\<rparr>))))))))"

text \<open>After the commit up to ten expired applications to the guild are deleted, one transaction each.\<close>

definition purgeExpiredApplicationsOfGuild :: "u64 \<Rightarrow> u64 \<Rightarrow> guild_tables \<Rightarrow> guild_tables" where
  "purgeExpiredApplicationsOfGuild guild now t =
     fold (deleteExpiredApplication now)
       (take 10 (sort (map fst (filter (\<lambda>r. fst (fst r) = guild \<and> ap_expire_ms (snd r) \<le> now) (gt_app t))))) t"

definition ApplyToGuild ::
  "merged_zones option \<Rightarrow> u64 \<Rightarrow> u64 \<Rightarrow> u32 \<Rightarrow> u64 \<Rightarrow> ApplicationRules \<Rightarrow> guild_tables
     \<Rightarrow> (economy_error + bool \<times> u64 list) \<times> guild_tables" where
  "ApplyToGuild zones guild player requiredZone now rules t =
     (if ru_TTLMs rules = 0 \<or> ru_MaxPerPlayer rules = 0 \<or> ru_MaxPerGuild rules = 0 then (Inl ErrBadRequest, t)
      else case ensurePlayerStateRows t [player] of
        Inl e \<Rightarrow> (Inl e, t)
      | Inr t1 \<Rightarrow>
          (case runTxBody t1 (ApplyToGuild_tx zones guild player requiredZone now rules t1) of
             (Inl e, t2) \<Rightarrow> (Inl e, t2)
           | (Inr res, t2) \<Rightarrow> (Inr res, purgeExpiredApplicationsOfGuild guild now t2)))"

definition CancelApplication_tx :: "u64 \<Rightarrow> u64 \<Rightarrow> u64 \<Rightarrow> guild_tables \<Rightarrow> unit tx" where
  "CancelApplication_tx guild player now t =
     (case map_of (gt_app t) (guild, player) of
        None \<Rightarrow> Rollback ErrApplicationNotFound
      | Some a \<Rightarrow>
          if ap_expire_ms a > now then Commit () (deleteApplication (guild, player) t)
          else CommitThen ErrApplicationNotFound (deleteExpiredApplication now (guild, player) t))"

section \<open>Reviewing\<close>

definition precheckApprovedApplication :: "guild_tables \<Rightarrow> u64 \<Rightarrow> u64 \<Rightarrow> u64 \<Rightarrow> economy_error option" where
  "precheckApprovedApplication t guild actor applicant =
     (if map_of (gt_app t) (guild, applicant) \<noteq> None then None
      else Some (case readOperatorRole t guild actor of
          Inl e \<Rightarrow> e
        | Inr role \<Rightarrow> if \<not> canReviewApplications role then ErrRankTooLow else ErrApplicationNotFound))"

definition ReviewApplication_tx ::
  "merged_zones option \<Rightarrow> u64 \<Rightarrow> u64 \<Rightarrow> u64 \<Rightarrow> bool \<Rightarrow> u32 \<Rightarrow> u64 \<Rightarrow> guild_tables \<Rightarrow> (guild_data \<times> bool) tx" where
  "ReviewApplication_tx zones guild actor applicant approve applicantZone now t =
     tx_try (lockGuildRow t guild) (\<lambda>g.
     tx_try (if approve then lockPlayerState t applicant else Inr ()) (\<lambda>_.
     case lockMemberRole t guild actor of
       None \<Rightarrow> Rollback ErrNotGuildMember
     | Some actorRole \<Rightarrow>
        tx_try (refuse (\<not> canReviewApplications actorRole) ErrRankTooLow) (\<lambda>_.
        case map_of (gt_app t) (guild, applicant) of
          None \<Rightarrow> Rollback ErrApplicationNotFound
        | Some a \<Rightarrow>
           if ap_expire_ms a \<le> now then CommitThen ErrApplicationNotFound (deleteApplication (guild, applicant) t)
           else if \<not> approve
           then (let t1 = deleteApplication (guild, applicant) t in
                 tx_try (txSnapshot t1 guild) (\<lambda>d. Commit (d, False) t1))
           else
             tx_try (refuse (\<not> SameZone zones (gu_zone_id g) applicantZone) ErrGuildZoneMismatch) (\<lambda>_.
             tx_try (refuse (countMembers t guild \<ge> unat (gu_max_members g)) ErrGuildFull) (\<lambda>_.
             case insertMember guild applicant RoleMember now now t of
               None \<Rightarrow> CommitThen ErrApplicationNotFound (deleteApplication (guild, applicant) t)
             | Some t1 \<Rightarrow>
                (let t2 = deleteApplicationsOfPlayer applicant [(guild, applicant)] t1 in
                 tx_try (txSnapshot t2 guild) (\<lambda>d. Commit (d, True) t2)))))))"

definition ReviewApplication ::
  "merged_zones option \<Rightarrow> u64 \<Rightarrow> u64 \<Rightarrow> u64 \<Rightarrow> bool \<Rightarrow> u32 \<Rightarrow> u64 \<Rightarrow> guild_tables
     \<Rightarrow> (economy_error + guild_data \<times> bool) \<times> guild_tables" where
  "ReviewApplication zones guild actor applicant approve applicantZone now t =
     (let review = (\<lambda>t. runTxBody t (ReviewApplication_tx zones guild actor applicant approve applicantZone now t)) in
      if actor = applicant \<or> approve \<and> applicantZone = 0 then (Inl ErrBadRequest, t)
      else if \<not> approve then review t
      else case precheckApprovedApplication t guild actor applicant of
        Some e \<Rightarrow> (Inl e, t)
      | None \<Rightarrow> (case ensurePlayerStateRows t [applicant] of Inl e \<Rightarrow> (Inl e, t) | Inr t1 \<Rightarrow> review t1))"

section \<open>The end of a guild\<close>

definition disbandRefusal :: "guild_tables \<Rightarrow> u64 \<Rightarrow> u64 \<Rightarrow> economy_error" where
  "disbandRefusal t guild actor = (if lockMemberRole t guild actor = None then ErrNotGuildMember else ErrRankTooLow)"

definition lockAllMembers :: "guild_tables \<Rightarrow> u64 \<Rightarrow> economy_error + u64 list" where
  "lockAllMembers t guild =
     (let ids = readMemberIDs t guild in
      if \<exists>p \<in> set ids. p \<notin> gt_state t then Inl ErrPlayerStateRowMissing
      else if \<exists>p \<in> set ids. lockMemberRole t guild p = None then Inl ErrRowVanished
      else Inr ids)"

fun deleteMembers :: "u64 \<Rightarrow> u64 list \<Rightarrow> guild_tables \<Rightarrow> economy_error + guild_tables" where
  "deleteMembers guild [] t = Inr t"
| "deleteMembers guild (p # ps) t =
     (case execExactlyOneRow (deleteMember guild p t) of Inl e \<Rightarrow> Inl e | Inr t1 \<Rightarrow> deleteMembers guild ps t1)"

definition deleteGuildActivityProgress :: "u64 \<Rightarrow> guild_tables \<Rightarrow> guild_tables" where
  "deleteGuildActivityProgress guild t = t\<lparr>gt_progress := filter (\<lambda>k. fst k \<noteq> guild) (gt_progress t)\<rparr>"

text \<open>Only the battles still under way go.\<close>

definition deleteGuildTrialBattles :: "u64 \<Rightarrow> guild_tables \<Rightarrow> guild_tables" where
  "deleteGuildTrialBattles guild t =
     t\<lparr>gt_trial := filter (\<lambda>(battle, g, started). \<not> (g = guild \<and> started)) (gt_trial t)\<rparr>"

definition deleteGuild :: "u64 \<Rightarrow> guild_tables \<Rightarrow> nat \<times> guild_tables" where
  "deleteGuild guild t =
     (if guild_at t guild = None then (0, t) else (1, set_guilds (AList.delete guild (gd_guilds (gt_econ t))) t))"

definition DisbandGuild_tx :: "u64 \<Rightarrow> u64 \<Rightarrow> u64 \<Rightarrow> guild_tables \<Rightarrow> (u32 \<times> u64 list) tx" where
  "DisbandGuild_tx guild actor now t =
     tx_try (lockGuildRow t guild) (\<lambda>g.
     if gu_leader_id g \<noteq> actor then Rollback (disbandRefusal t guild actor)
     else
       tx_try (lockAllMembers t guild) (\<lambda>ids.
       tx_try (deleteMembers guild ids t) (\<lambda>t1.
       let t2 = deleteApplicationRows (applicationKeysOfGuild t1 guild @ applicationKeysOfPlayers t1 ids) t1 in
       tx_try (accelerate_try guild ids now t2) (\<lambda>t3.
       let t4 = deleteGuildTrialBattles guild (deleteGuildActivityProgress guild t3);
           r = deleteGuild guild t4 in
       if fst r = 0 then Rollback ErrGuildGone else Commit (gu_zone_id g, ids) (snd r)))))"

definition DisbandGuild ::
  "u64 \<Rightarrow> u64 \<Rightarrow> u64 \<Rightarrow> guild_tables \<Rightarrow> (economy_error + u32 \<times> u64 list) \<times> guild_tables" where
  "DisbandGuild guild actor now t =
     (case ensurePlayerStateRows t (readMemberIDs t guild) of
        Inl e \<Rightarrow> (Inl e, t) | Inr t1 \<Rightarrow> runTxBody t1 (DisbandGuild_tx guild actor now t1))"

definition UpdateAnnouncement_tx :: "u64 \<Rightarrow> u64 \<Rightarrow> string \<Rightarrow> guild_tables \<Rightarrow> guild_data tx" where
  "UpdateAnnouncement_tx guild player text t =
     tx_try (lockGuildRow t guild) (\<lambda>g.
     case lockMemberRole t guild player of
       None \<Rightarrow> Rollback ErrAnnouncementForbidden
     | Some role \<Rightarrow>
        tx_try (refuse (\<not> canSetAnnouncement role) ErrAnnouncementForbidden) (\<lambda>_.
        let t1 = set_guilds (AList.update guild (g\<lparr>gu_announcement := text\<rparr>) (gd_guilds (gt_econ t))) t in
        tx_try (txSnapshot t1 guild) (\<lambda>d. Commit d t1)))"

text \<open>The score of a guild; the answer is its zone.\<close>

definition UpdateGuildScore_tx :: "u64 \<Rightarrow> i64 \<Rightarrow> guild_tables \<Rightarrow> u32 tx" where
  "UpdateGuildScore_tx guild score t =
     tx_try (lockGuildRow t guild) (\<lambda>g.
     Commit (gu_zone_id g) (set_guilds (AList.update guild (g\<lparr>gu_score := score\<rparr>) (gd_guilds (gt_econ t))) t))"

end
