(* ===== verification/GuildMembersInv.thy ===== *)
theory GuildMembersInv
  imports GuildMembers GuildOutboxInv
begin

text \<open>
  The roster of the guilds: who is in which guild and in which role, as the abstract map the member table
  stands for, the rules it obeys, and what every transaction of the membership does to it.
\<close>

section \<open>The roster behind the member table\<close>

definition roster :: "guild_tables \<Rightarrow> u64 \<rightharpoonup> u64 \<times> u32" where
  "roster t = map_of (map (\<lambda>r. (snd (fst r), (fst (fst r), gm_role (snd r)))) (members_of t))"

text \<open>The unique index on the player.\<close>

definition uk_member :: "guild_tables \<Rightarrow> bool" where
  "uk_member t \<longleftrightarrow> distinct (map (snd \<circ> fst) (members_of t))"

lemma uk_memberD:
  assumes "uk_member t" "((g, p), m) \<in> set (members_of t)" "((g', p), m') \<in> set (members_of t)"
  shows "g' = g \<and> m' = m"
  using assms eq_key_imp_eq_value [of "map (\<lambda>r. (snd (fst r), r)) (members_of t)" p "((g, p), m)" "((g', p), m')"]
  by (force simp: uk_member_def comp_def)

lemma uk_member_keys: "uk_member t \<Longrightarrow> distinct (map fst (members_of t))"
  by (auto simp: uk_member_def distinct_map inj_on_def)

lemma roster_set:
  assumes "uk_member t"
  shows "roster t p = Some (g, role) \<longleftrightarrow> (\<exists>m. ((g, p), m) \<in> set (members_of t) \<and> gm_role m = role)"
proof -
  have "distinct (map fst (map (\<lambda>r. (snd (fst r), (fst (fst r), gm_role (snd r)))) (members_of t)))"
    using assms by (simp add: uk_member_def comp_def)
  from map_of_eq_Some_iff [OF this] show ?thesis by (force simp: roster_def)
qed

lemma member_at_set: "uk_member t \<Longrightarrow> member_at t (g, p) = Some m \<longleftrightarrow> ((g, p), m) \<in> set (members_of t)"
  using map_of_eq_Some_iff [OF uk_member_keys] by blast

lemma roster_member:
  "uk_member t \<Longrightarrow> roster t p = Some (g, role) \<longleftrightarrow> (\<exists>m. member_at t (g, p) = Some m \<and> gm_role m = role)"
  by (simp add: roster_set member_at_set)

lemma lockMemberRole_roster:
  "uk_member t \<Longrightarrow> lockMemberRole t g p = Some role \<longleftrightarrow> roster t p = Some (g, role)"
  by (auto simp: lockMemberRole_def roster_member)

lemma loadPlayerGuild_roster: "loadPlayerGuild t p = map_option fst (roster t p)"
proof -
  have "map_option (fst \<circ> fst) (find (\<lambda>r. snd (fst r) = p) ms) =
      map_option fst (map_of (map (\<lambda>r. (snd (fst r), (fst (fst r), gm_role (snd r)))) ms) p)" for ms
    by (induction ms) auto
  then show ?thesis by (simp add: loadPlayerGuild_def roster_def)
qed

lemma card_players:
  assumes "uk_member t"
  shows "card {p. \<exists>g role. roster t p = Some (g, role) \<and> P g role} =
    length (filter (\<lambda>r. P (fst (fst r)) (gm_role (snd r))) (members_of t))"
proof -
  let ?ms = "filter (\<lambda>r. P (fst (fst r)) (gm_role (snd r))) (members_of t)"
  have "{p. \<exists>g role. roster t p = Some (g, role) \<and> P g role} = set (map (snd \<circ> fst) ?ms)"
  proof (rule set_eqI)
    fix p
    have *: "p \<in> set (map (snd \<circ> fst) ?ms) \<longleftrightarrow> (\<exists>g m. ((g, p), m) \<in> set (members_of t) \<and> P g (gm_role m))"
      by (force simp: image_iff)
    show "p \<in> {p. \<exists>g role. roster t p = Some (g, role) \<and> P g role} \<longleftrightarrow> p \<in> set (map (snd \<circ> fst) ?ms)"
      unfolding * mem_Collect_eq roster_set [OF assms] by blast
  qed
  moreover have "distinct (map (snd \<circ> fst) ?ms)"
    using assms by (simp add: uk_member_def distinct_map_filter)
  ultimately show ?thesis using distinct_card [of "map (snd \<circ> fst) ?ms"] by (simp only: length_map)
qed

lemma countMembers_roster:
  "uk_member t \<Longrightarrow> countMembers t g = card {p. \<exists>role. roster t p = Some (g, role)}"
  using card_players [of t "\<lambda>g' role. g' = g"] by (simp add: countMembers_def)

lemma countMembersByRole_roster:
  "uk_member t \<Longrightarrow> countMembersByRole t g role = card {p. roster t p = Some (g, role)}"
  using card_players [of t "\<lambda>g' role'. g' = g \<and> role' = role"] by (simp add: countMembersByRole_def)

lemma readMemberIDs_roster:
  "uk_member t \<Longrightarrow> set (readMemberIDs t g) = {p. \<exists>role. roster t p = Some (g, role)} \<and> distinct (readMemberIDs t g)"
proof -
  assume uk: "uk_member t"
  have "distinct (map (snd \<circ> fst) (filter (\<lambda>r. fst (fst r) = g) (members_of t)))"
    using uk by (simp add: uk_member_def distinct_map_filter)
  moreover have "p \<in> (snd \<circ> fst) ` {r \<in> set (members_of t). fst (fst r) = g} \<longleftrightarrow> (\<exists>m. ((g, p), m) \<in> set (members_of t))" for p
    by (auto simp: image_iff)
  ultimately show ?thesis by (auto simp: readMemberIDs_def roster_set [OF uk])
qed

section \<open>Updates of the table\<close>

lemma map_AList_update:
  "map_of al k = Some v \<Longrightarrow> f (k, v') = f (k, v) \<Longrightarrow> map f (AList.update k v' al) = map f al"
  by (induction al) auto

lemma set_AList_update:
  "distinct (map fst al) \<Longrightarrow> set (AList.update k v al) = insert (k, v) {r \<in> set al. fst r \<noteq> k}"
  by (induction al) (auto simp: image_iff)

lemma uk_update:
  assumes "uk_member t" "member_at t (g, p) = Some m"
  shows "uk_member (set_members (AList.update (g, p) m' (members_of t)) t)"
  using assms map_AList_update [of "members_of t" "(g, p)" m "snd \<circ> fst" m'] by (simp add: uk_member_def)

lemma roster_update:
  assumes "uk_member t" "member_at t (g, p) = Some m"
  shows "roster (set_members (AList.update (g, p) m' (members_of t)) t) = (roster t)(p \<mapsto> (g, gm_role m'))"
proof
  fix q
  let ?t = "set_members (AList.update (g, p) m' (members_of t)) t"
  note uk = uk_update [OF assms, of m']
  have set: "set (members_of ?t) = insert ((g, p), m') {r \<in> set (members_of t). fst r \<noteq> (g, p)}"
    using set_AList_update [OF uk_member_keys [OF assms(1)]] by simp
  have "roster ?t q = Some (g', role) \<longleftrightarrow> ((roster t)(p \<mapsto> (g, gm_role m'))) q = Some (g', role)" for g' role
    unfolding roster_set [OF uk] set
    using uk_memberD [OF assms(1)] assms(2)
    by (auto simp: roster_set [OF assms(1)] member_at_set [OF assms(1)])
  then show "roster ?t q = ((roster t)(p \<mapsto> (g, gm_role m'))) q" by (metis option.exhaust surj_pair)
qed

lemma uk_delete: "uk_member t \<Longrightarrow> uk_member (set_members (AList.delete k (members_of t)) t)"
  by (simp add: uk_member_def AList.delete_eq distinct_map_filter)

lemma roster_delete:
  assumes "uk_member t" "member_at t (g, p) \<noteq> None"
  shows "roster (set_members (AList.delete (g, p) (members_of t)) t) = (roster t)(p := None)"
proof
  fix q
  let ?t = "set_members (AList.delete (g, p) (members_of t)) t"
  obtain m where m: "((g, p), m) \<in> set (members_of t)" using assms by (auto simp: member_at_set)
  have "roster ?t q = Some (g', role) \<longleftrightarrow> ((roster t)(p := None)) q = Some (g', role)" for g' role
    unfolding roster_set [OF uk_delete [OF assms(1)]]
    using uk_memberD [OF assms(1) m] by (auto simp: roster_set [OF assms(1)] AList.delete_eq)
  then show "roster ?t q = ((roster t)(p := None)) q" by (metis option.exhaust surj_pair)
qed

lemma insertMember_roster:
  assumes "insertMember g p role j a t = Some t'" "uk_member t"
  shows "uk_member t'" "roster t p = None" "roster t' = (roster t)(p \<mapsto> (g, role))"
    "gt_app t' = gt_app t" "gt_state t' = gt_state t" "guild_at t' = guild_at t" "gd_guilds (gt_econ t') = gd_guilds (gt_econ t)"
    "gd_op (gt_econ t') = gd_op (gt_econ t)"
proof -
  show none: "roster t p = None" 
    using assms(1) by (cases "roster t p") (auto simp: insertMember_def loadPlayerGuild_roster split: if_splits)
  let ?m = "\<lparr>gm_role = role, gm_join_time_ms = j, gm_last_active_ms = a, gm_total = 0, gm_balance = 0\<rparr>"
  have t': "t' = set_members (members_of t @ [((g, p), ?m)]) t" using assms(1) by (auto simp: insertMember_def split: if_splits)
  then show "gt_app t' = gt_app t" "gt_state t' = gt_state t" "guild_at t' = guild_at t"
    "gd_guilds (gt_econ t') = gd_guilds (gt_econ t)" "gd_op (gt_econ t') = gd_op (gt_econ t)" by simp_all
  have "p \<notin> (snd \<circ> fst) ` set (members_of t)"
    using none by (force simp: roster_def map_of_eq_None_iff)
  then show uk': "uk_member t'" using assms(2) by (simp add: uk_member_def t')
  show "roster t' = (roster t)(p \<mapsto> (g, role))"
    using none by (auto simp: roster_def t' fun_eq_iff map_add_def split: option.splits)
qed

section \<open>The rules of the roster\<close>

text \<open>\<open>cap\<close> is the number of officers and \<open>levels\<close> the upgrade cost and the member limit of a guild level, columns
  of one table whose limits never fall from a level to the next.\<close>

definition level_table :: "(u32 \<Rightarrow> u32 option) \<Rightarrow> (u32 \<Rightarrow> (u64 \<times> u32) option) \<Rightarrow> bool" where
  "level_table cap levels \<longleftrightarrow> (\<forall>l. (cap l = None) = (levels l = None)) \<and> (\<forall>c m. levels 1 = Some (c, m) \<longrightarrow> 0 < m)
     \<and> (\<forall>l n n'. cap l = Some n \<longrightarrow> cap (l + 1) = Some n' \<longrightarrow> n \<le> n')
     \<and> (\<forall>l c m c' m'. levels l = Some (c, m) \<longrightarrow> levels (l + 1) = Some (c', m') \<longrightarrow> m \<le> m')"

text \<open>Of one guild: its leader is the one member in the role of leader, and the limits of its level hold.\<close>

definition in_guild :: "(u64 \<rightharpoonup> u64 \<times> u32) \<Rightarrow> u64 \<Rightarrow> u64 set" where
  "in_guild R g = {p. \<exists>role. R p = Some (g, role)}"

definition in_role :: "(u64 \<rightharpoonup> u64 \<times> u32) \<Rightarrow> u64 \<Rightarrow> u32 \<Rightarrow> u64 set" where
  "in_role R g role = {p. R p = Some (g, role)}"

lemma in_guild_upd: "in_guild (R(p := v)) g =
    (case v of Some (g', _) \<Rightarrow> if g' = g then insert p (in_guild R g) else in_guild R g - {p} | None \<Rightarrow> in_guild R g - {p})"
  by (auto simp: in_guild_def split: option.splits if_splits)

lemma in_role_upd: "in_role (R(p := v)) g role =
    (if v = Some (g, role) then insert p (in_role R g role) else in_role R g role - {p})"
  by (auto simp: in_role_def)

lemma mem_in_guild [simp]: "R p = Some (g, role) \<Longrightarrow> p \<in> in_guild R g" "R p = None \<Longrightarrow> p \<notin> in_guild R g"
  by (auto simp: in_guild_def)

lemma mem_in_role [simp]: "p \<in> in_role R g role \<longleftrightarrow> R p = Some (g, role)"
  by (simp add: in_role_def)

definition guild_ok ::
  "(u32 \<Rightarrow> u32 option) \<Rightarrow> (u32 \<Rightarrow> (u64 \<times> u32) option) \<Rightarrow> (u64 \<rightharpoonup> u64 \<times> u32) \<Rightarrow> u64 \<Rightarrow> guild_row \<Rightarrow> bool" where
  "guild_ok cap levels R g row \<longleftrightarrow>
     in_role R g RoleLeader = {gu_leader_id row}
     \<and> card (in_guild R g) \<le> unat (gu_max_members row)
     \<and> (\<exists>cost n. levels (gu_level row) = Some (cost, gu_max_members row) \<and> cap (gu_level row) = Some n
          \<and> card (in_role R g RoleOfficer) \<le> unat n)"

definition roster_ok ::
  "(u32 \<Rightarrow> u32 option) \<Rightarrow> (u32 \<Rightarrow> (u64 \<times> u32) option) \<Rightarrow> (u64 \<rightharpoonup> guild_row) \<Rightarrow> (u64 \<rightharpoonup> u64 \<times> u32) \<Rightarrow> u64 set \<Rightarrow> bool" where
  "roster_ok cap levels G R S \<longleftrightarrow>
     (\<forall>p g role. R p = Some (g, role) \<longrightarrow> G g \<noteq> None \<and> p \<in> S \<and> role \<in> {RoleMember, RoleOfficer, RoleLeader})
     \<and> (\<forall>g row. G g = Some row \<longrightarrow> guild_ok cap levels R g row)"

lemma roster_okD:
  assumes "roster_ok cap levels G R S"
  shows "R p = Some (g, role) \<Longrightarrow> G g \<noteq> None" "R p = Some (g, role) \<Longrightarrow> p \<in> S"
    "R p = Some (g, role) \<Longrightarrow> role \<in> {RoleMember, RoleOfficer, RoleLeader}" "G g = Some row \<Longrightarrow> guild_ok cap levels R g row"
  using assms unfolding roster_ok_def by blast+

text \<open>What a guild shows does not depend on players elsewhere.\<close>

lemma guild_ok_cong:
  assumes "\<And>p role. R' p = Some (g, role) \<longleftrightarrow> R p = Some (g, role)" and "gu_leader_id row' = gu_leader_id row"
    and "gu_max_members row' = gu_max_members row" and "gu_level row' = gu_level row"
  shows "guild_ok cap levels R' g row' = guild_ok cap levels R g row"
  unfolding guild_ok_def in_guild_def in_role_def assms ..

lemma roster_ok_change:
  assumes ok: "roster_ok cap levels G R S" and row: "G g = Some row"
    and old: "case R p of None \<Rightarrow> True | Some (g', role) \<Rightarrow> g' = g"
    and new: "case v of None \<Rightarrow> True | Some (g', role) \<Rightarrow> g' = g \<and> p \<in> S \<and> role \<in> {RoleMember, RoleOfficer, RoleLeader}"
    and here: "guild_ok cap levels (R(p := v)) g row"
  shows "roster_ok cap levels G (R(p := v)) S"
  unfolding roster_ok_def
proof (rule conjI; intro allI impI)
  fix q h role assume "(R(p := v)) q = Some (h, role)"
  then show "G h \<noteq> None \<and> q \<in> S \<and> role \<in> {RoleMember, RoleOfficer, RoleLeader}"
    using new row roster_okD(1-3) [OF ok, of q h role] by (auto split: if_splits)
next
  fix h r assume h: "G h = Some r"
  show "guild_ok cap levels (R(p := v)) h r"
  proof (cases "h = g")
    case True
    with here h row show ?thesis by simp
  next
    case False
    with old new have "(R(p := v)) q = Some (h, role) \<longleftrightarrow> R q = Some (h, role)" for q role
      by (auto split: option.splits)
    from guild_ok_cong [where R = R and R' = "R(p := v)", OF this refl refl refl] roster_okD(4) [OF ok h]
    show ?thesis by blast
  qed
qed

section \<open>What the operations do to it\<close>

lemma roster_ok_role:
  assumes ok: "roster_ok cap levels G R S" and row: "G g = Some row" and R: "R p = Some (g, r)" "r \<noteq> RoleLeader"
    and role: "role = RoleMember \<or> role = RoleOfficer \<and> (\<exists>n. cap (gu_level row) = Some n \<and> card (in_role R g RoleOfficer) < unat n)"
  shows "roster_ok cap levels G (R(p \<mapsto> (g, role))) S"
proof (rule roster_ok_change [OF ok row])
  have "card (in_role (R(p \<mapsto> (g, role))) g RoleOfficer) \<le>
      (if role = RoleOfficer then Suc (card (in_role R g RoleOfficer)) else card (in_role R g RoleOfficer))"
    by (auto simp: in_role_upd card_insert_if intro: card_Diff1_le)
  moreover have "in_role (R(p \<mapsto> (g, role))) g RoleLeader = in_role R g RoleLeader"
    "in_guild (R(p \<mapsto> (g, role))) g = in_guild R g" using R role by (auto simp: in_role_upd in_guild_upd)
  ultimately show "guild_ok cap levels (R(p \<mapsto> (g, role))) g row"
    using roster_okD(4) [OF ok row] role unfolding guild_ok_def by (auto split: if_splits)
qed (use R role roster_okD(2) [OF ok R(1)] in auto)

lemma roster_ok_remove:
  assumes ok: "roster_ok cap levels G R S" and R: "R p = Some (g, r)" "r \<noteq> RoleLeader"
  shows "roster_ok cap levels G (R(p := None)) S"
proof -
  from roster_okD(1) [OF ok R(1)] obtain row where row: "G g = Some row" by auto
  show ?thesis
  proof (rule roster_ok_change [OF ok row])
    have "card (in_guild (R(p := None)) g) \<le> card (in_guild R g)"
      "card (in_role (R(p := None)) g RoleOfficer) \<le> card (in_role R g RoleOfficer)"
      by (simp_all add: in_guild_upd in_role_upd card_Diff1_le)
    moreover have "in_role (R(p := None)) g RoleLeader = in_role R g RoleLeader" using R by (auto simp: in_role_upd)
    ultimately show "guild_ok cap levels (R(p := None)) g row"
      using roster_okD(4) [OF ok row] unfolding guild_ok_def by (auto intro: order.trans)
  qed (use R in auto)
qed

lemma roster_ok_add:
  assumes ok: "roster_ok cap levels G R S" and row: "G g = Some row" and p: "R p = None" "p \<in> S"
    and room: "card (in_guild R g) < unat (gu_max_members row)"
  shows "roster_ok cap levels G (R(p \<mapsto> (g, RoleMember))) S"
proof (rule roster_ok_change [OF ok row])
  have "in_role (R(p \<mapsto> (g, RoleMember))) g RoleLeader = in_role R g RoleLeader"
    "in_role (R(p \<mapsto> (g, RoleMember))) g RoleOfficer = in_role R g RoleOfficer"
    "in_guild (R(p \<mapsto> (g, RoleMember))) g = insert p (in_guild R g)"
    using p by (auto simp: in_role_upd in_guild_upd)
  then show "guild_ok cap levels (R(p \<mapsto> (g, RoleMember))) g row"
    using roster_okD(4) [OF ok row] room p unfolding guild_ok_def by (simp add: card_insert_if)
qed (use p in auto)

lemma roster_ok_transfer:
  assumes ok: "roster_ok cap levels G R S" and row: "G g = Some row" and a: "R a = Some (g, RoleLeader)"
    and b: "R b = Some (g, r)" "a \<noteq> b" and n: "cap (gu_level row) = Some n"
    and role: "role = RoleMember \<or> role = RoleOfficer \<and>
      (if r = RoleOfficer then card (in_role R g RoleOfficer) - 1 else card (in_role R g RoleOfficer)) < unat n"
  shows "roster_ok cap levels (G(g \<mapsto> row\<lparr>gu_leader_id := b\<rparr>)) (R(b \<mapsto> (g, RoleLeader), a \<mapsto> (g, role))) S"
proof -
  let ?R = "R(b \<mapsto> (g, RoleLeader), a \<mapsto> (g, role))"
  from roster_okD(4) [OF ok row] have here: "guild_ok cap levels R g row" .
  have "a = gu_leader_id row" "r = RoleLeader \<Longrightarrow> b = gu_leader_id row"
    using here a b mem_in_role [of _ R g RoleLeader] unfolding guild_ok_def by blast+
  then have "r \<noteq> RoleLeader" using b(2) by blast
  have "in_role R g RoleLeader = {a}" using here \<open>a = gu_leader_id row\<close> by (simp add: guild_ok_def)
  then have lead: "in_role ?R g RoleLeader = {b}" using b(2) role by (auto simp: in_role_upd)
  have all: "in_guild ?R g = in_guild R g" using a b by (auto simp: in_guild_upd)
  have "card (in_role ?R g RoleOfficer) \<le> unat n"
  proof (cases "role = RoleOfficer")
    case True
    have "in_role ?R g RoleOfficer = insert a (in_role R g RoleOfficer - {b})"
      using True a b by (auto simp: in_role_upd)
    moreover have "card (in_role R g RoleOfficer - {b}) =
        (if r = RoleOfficer then card (in_role R g RoleOfficer) - 1 else card (in_role R g RoleOfficer))"
      using b by (simp add: card_Diff_singleton_if)
    ultimately show ?thesis using role True a by (simp add: card_insert_if)
  next
    case False
    then have "in_role ?R g RoleOfficer \<subseteq> in_role R g RoleOfficer" by (auto simp: in_role_upd)
    from card_mono [OF _ this] here n show ?thesis by (auto simp: guild_ok_def)
  qed
  then have new: "guild_ok cap levels ?R g (row\<lparr>gu_leader_id := b\<rparr>)"
    using here n lead all by (auto simp: guild_ok_def)
  show ?thesis unfolding roster_ok_def
  proof (rule conjI; intro allI impI)
    fix q h role' assume "?R q = Some (h, role')"
    then show "(G(g \<mapsto> row\<lparr>gu_leader_id := b\<rparr>)) h \<noteq> None \<and> q \<in> S \<and> role' \<in> {RoleMember, RoleOfficer, RoleLeader}"
      using roster_okD(1-3) [OF ok, of q h role'] roster_okD(2) [OF ok a] roster_okD(2) [OF ok b(1)] role
      by (auto split: if_splits)
  next
    fix h r' assume h: "(G(g \<mapsto> row\<lparr>gu_leader_id := b\<rparr>)) h = Some r'"
    show "guild_ok cap levels ?R h r'"
    proof (cases "h = g")
      case True
      with h new show ?thesis by simp
    next
      case False
      with a b have "?R q = Some (h, x) \<longleftrightarrow> R q = Some (h, x)" for q x by auto
      from guild_ok_cong [where R = R and R' = ?R, OF this refl refl refl] False h roster_okD(4) [OF ok, of h r']
      show ?thesis by simp
    qed
  qed
qed

definition remove_guild :: "(u64 \<rightharpoonup> u64 \<times> u32) \<Rightarrow> u64 \<Rightarrow> (u64 \<rightharpoonup> u64 \<times> u32)" where
  "remove_guild R g = (\<lambda>p. case R p of Some (h, r) \<Rightarrow> if h = g then None else Some (h, r) | None \<Rightarrow> None)"

lemma remove_guild_Some [simp]: "remove_guild R g p = Some (h, x) \<longleftrightarrow> R p = Some (h, x) \<and> h \<noteq> g"
  by (auto simp: remove_guild_def split: option.splits)

lemma remove_guild_None [simp]: "remove_guild R g p = None \<longleftrightarrow> R p = None \<or> p \<in> in_guild R g"
  by (auto simp: remove_guild_def in_guild_def split: option.splits)

lemma roster_ok_disband:
  assumes ok: "roster_ok cap levels G R S"
  shows "roster_ok cap levels (G(g := None)) (remove_guild R g) S"
proof -
  show ?thesis unfolding roster_ok_def
  proof (rule conjI; intro allI impI)
    fix q h role' assume "remove_guild R g q = Some (h, role')"
    then show "(G(g := None)) h \<noteq> None \<and> q \<in> S \<and> role' \<in> {RoleMember, RoleOfficer, RoleLeader}"
      using roster_okD(1-3) [OF ok, of q h role'] by simp
  next
    fix h r' assume h: "(G(g := None)) h = Some r'"
    then have "remove_guild R g q = Some (h, x) \<longleftrightarrow> R q = Some (h, x)" for q x by (auto split: if_splits)
    from guild_ok_cong [where R = R and R' = "remove_guild R g", OF this refl refl refl] h roster_okD(4) [OF ok, of h r']
    show "guild_ok cap levels (remove_guild R g) h r'" by (auto split: if_splits)
  qed
qed

lemma roster_ok_found:
  assumes ok: "roster_ok cap levels G R S" and g: "G g = None" and p: "R p = None" "p \<in> S" and row: "gu_leader_id row = p"
    and lv: "levels (gu_level row) = Some (c, gu_max_members row)" "cap (gu_level row) = Some n" "0 < gu_max_members row"
  shows "roster_ok cap levels (G(g \<mapsto> row)) (R(p \<mapsto> (g, RoleLeader))) S"
proof -
  have no: "R q \<noteq> Some (g, x)" for q x using roster_okD(1) [OF ok, of q g x] g by auto
  have "in_role (R(p \<mapsto> (g, RoleLeader))) g RoleLeader = {p}" "in_role (R(p \<mapsto> (g, RoleLeader))) g RoleOfficer = {}"
    "in_guild (R(p \<mapsto> (g, RoleLeader))) g = {p}" using no by (auto simp: in_role_def in_guild_def)
  moreover have "1 \<le> unat (gu_max_members row)" using lv(3) by (simp add: word_less_nat_alt)
  ultimately have new: "guild_ok cap levels (R(p \<mapsto> (g, RoleLeader))) g row" using row lv by (simp add: guild_ok_def)
  show ?thesis unfolding roster_ok_def
  proof (rule conjI; intro allI impI)
    fix q h role' assume "(R(p \<mapsto> (g, RoleLeader))) q = Some (h, role')"
    then show "(G(g \<mapsto> row)) h \<noteq> None \<and> q \<in> S \<and> role' \<in> {RoleMember, RoleOfficer, RoleLeader}"
      using roster_okD(1-3) [OF ok, of q h role'] p by (auto split: if_splits)
  next
    fix h r' assume h: "(G(g \<mapsto> row)) h = Some r'"
    show "guild_ok cap levels (R(p \<mapsto> (g, RoleLeader))) h r'"
    proof (cases "h = g")
      case True
      with h new show ?thesis by simp
    next
      case False
      with p have "(R(p \<mapsto> (g, RoleLeader))) q = Some (h, x) \<longleftrightarrow> R q = Some (h, x)" for q x by auto
      from guild_ok_cong [where R = R and R' = "R(p \<mapsto> (g, RoleLeader))", OF this refl refl refl] False h
        roster_okD(4) [OF ok, of h r']
      show ?thesis by simp
    qed
  qed
qed

end
