(* ===== verification/GuildMembersSpec.thy ===== *)
theory GuildMembersSpec
  imports GuildMembersInv
begin

text \<open>
  What guild membership promises, without tables: guilds, roles, players with a state row and pending
  applications as maps, and one rule for each event that may change them, with who may cause it.
  \<open>view_inv\<close> is the invariant of this specification.
\<close>

section \<open>The view\<close>

record guild_view =
  gv_guild :: "u64 \<rightharpoonup> guild_row"
  gv_role :: "u64 \<rightharpoonup> u64 \<times> u32"
  gv_state :: "u64 set"
  gv_app :: "u64 \<times> u64 \<rightharpoonup> application_row"

datatype guild_event =
    Quiet
  | Founded u64 u64
  | RoleSet u64 u64 u64 u32
  | Transferred u64 u64 u64
  | Kicked u64 u64 u64
  | Left u64 u64
  | Applied u64 u64 u64
  | Accepted u64 u64 u64 u64
  | Disbanded u64 u64

text \<open>Rows of players are only added, and never for player 0.\<close>

definition more_rows :: "u64 set \<Rightarrow> u64 set \<Rightarrow> bool" where
  "more_rows S S' \<longleftrightarrow> S \<subseteq> S' \<and> 0 \<notin> S' - S"

text \<open>What else may happen to a guild row: the columns the roster does not use, or the next level.\<close>

definition row_keeps :: "(u32 \<Rightarrow> (u64 \<times> u32) option) \<Rightarrow> guild_row \<Rightarrow> guild_row \<Rightarrow> bool" where
  "row_keeps levels row row' \<longleftrightarrow>
     gu_leader_id row' = gu_leader_id row \<and> gu_name_norm row' = gu_name_norm row \<and> gu_zone_id row' = gu_zone_id row
     \<and> (gu_level row' = gu_level row \<and> gu_max_members row' = gu_max_members row
        \<or> gu_level row' = gu_level row + 1 \<and> (\<exists>c. levels (gu_level row + 1) = Some (c, gu_max_members row')))"

definition live_apps :: "u64 \<Rightarrow> (u64 \<times> u64 \<rightharpoonup> application_row) \<Rightarrow> (u64 \<times> u64) set" where
  "live_apps now A = {k. \<exists>a. A k = Some a \<and> now < ap_expire_ms a}"

inductive roster_step ::
  "(u32 \<Rightarrow> u32 option) \<Rightarrow> (u32 \<Rightarrow> (u64 \<times> u32) option) \<Rightarrow> ApplicationRules \<Rightarrow> guild_event \<Rightarrow> guild_view \<Rightarrow> guild_view \<Rightarrow> bool"
  for cap levels rules where
  quiet: "gv_role v' = gv_role v \<Longrightarrow> (\<And>g. rel_option (row_keeps levels) (gv_guild v g) (gv_guild v' g))
    \<Longrightarrow> more_rows (gv_state v) (gv_state v') \<Longrightarrow> gv_app v' \<subseteq>\<^sub>m gv_app v
    \<Longrightarrow> roster_step cap levels rules Quiet v v'"
| founded: "gv_guild v g = None \<Longrightarrow> gv_role v p = None \<Longrightarrow> p \<in> S \<Longrightarrow> more_rows (gv_state v) S
    \<Longrightarrow> gu_leader_id row = p \<Longrightarrow> gu_level row = 1 \<Longrightarrow> levels 1 = Some (c, gu_max_members row)
    \<Longrightarrow> (\<And>h r. gv_guild v h = Some r \<Longrightarrow> gu_name_norm r \<noteq> gu_name_norm row)
    \<Longrightarrow> roster_step cap levels rules (Founded g p) v
          \<lparr>gv_guild = (gv_guild v)(g \<mapsto> row), gv_role = (gv_role v)(p \<mapsto> (g, RoleLeader)), gv_state = S,
           gv_app = gv_app v |` {k. snd k \<noteq> p}\<rparr>"
| role_set: "gv_guild v g = Some row \<Longrightarrow> gv_role v actor = Some (g, RoleLeader) \<Longrightarrow> gv_role v target = Some (g, old)
    \<Longrightarrow> old \<noteq> RoleLeader
    \<Longrightarrow> role = RoleMember \<or> role = RoleOfficer \<and>
          (\<exists>n. cap (gu_level row) = Some n \<and> card (in_role (gv_role v) g RoleOfficer) < unat n)
    \<Longrightarrow> roster_step cap levels rules (RoleSet g actor target role) v
          (v\<lparr>gv_role := (gv_role v)(target \<mapsto> (g, role))\<rparr>)"
| transferred: "gv_guild v g = Some row \<Longrightarrow> gv_role v actor = Some (g, RoleLeader) \<Longrightarrow> gv_role v target = Some (g, old)
    \<Longrightarrow> actor \<noteq> target \<Longrightarrow> cap (gu_level row) = Some n
    \<Longrightarrow> role = (if (if old = RoleOfficer then card (in_role (gv_role v) g RoleOfficer) - 1
                     else card (in_role (gv_role v) g RoleOfficer)) < unat n then RoleOfficer else RoleMember)
    \<Longrightarrow> roster_step cap levels rules (Transferred g actor target) v
          (v\<lparr>gv_guild := (gv_guild v)(g \<mapsto> row\<lparr>gu_leader_id := target\<rparr>),
             gv_role := (gv_role v)(target \<mapsto> (g, RoleLeader), actor \<mapsto> (g, role))\<rparr>)"
| kicked: "gv_role v actor = Some (g, a) \<Longrightarrow> gv_role v target = Some (g, b) \<Longrightarrow> canKick a b
    \<Longrightarrow> more_rows (gv_state v) S
    \<Longrightarrow> roster_step cap levels rules (Kicked g actor target) v
          (v\<lparr>gv_role := (gv_role v)(target := None), gv_state := S, gv_app := gv_app v |` {k. snd k \<noteq> target}\<rparr>)"
| left: "gv_role v p = Some (g, r) \<Longrightarrow> r \<noteq> RoleLeader \<Longrightarrow> more_rows (gv_state v) S
    \<Longrightarrow> roster_step cap levels rules (Left g p) v
          (v\<lparr>gv_role := (gv_role v)(p := None), gv_state := S, gv_app := gv_app v |` {k. snd k \<noteq> p}\<rparr>)"
| applied: "gv_guild v g \<noteq> None \<Longrightarrow> gv_role v p = None \<Longrightarrow> more_rows (gv_state v) S
    \<Longrightarrow> A \<subseteq>\<^sub>m (gv_app v)((g, p) \<mapsto> a)
    \<Longrightarrow> (g, p) \<in> live_apps now (gv_app v) \<or>
          card {k \<in> live_apps now (gv_app v). snd k = p} < unat (ru_MaxPerPlayer rules)
          \<and> card {k \<in> live_apps now (gv_app v). fst k = g} < unat (ru_MaxPerGuild rules)
    \<Longrightarrow> roster_step cap levels rules (Applied g p now) v (v\<lparr>gv_state := S, gv_app := A\<rparr>)"
| accepted: "gv_guild v g = Some row \<Longrightarrow> gv_role v actor = Some (g, a) \<Longrightarrow> canReviewApplications a
    \<Longrightarrow> (g, p) \<in> live_apps now (gv_app v) \<Longrightarrow> gv_role v p = None \<Longrightarrow> p \<in> S \<Longrightarrow> more_rows (gv_state v) S
    \<Longrightarrow> card (in_guild (gv_role v) g) < unat (gu_max_members row)
    \<Longrightarrow> roster_step cap levels rules (Accepted g actor p now) v
          (v\<lparr>gv_role := (gv_role v)(p \<mapsto> (g, RoleMember)), gv_state := S, gv_app := gv_app v |` {k. snd k \<noteq> p}\<rparr>)"
| disbanded: "gv_guild v g = Some row \<Longrightarrow> gu_leader_id row = actor \<Longrightarrow> more_rows (gv_state v) S
    \<Longrightarrow> roster_step cap levels rules (Disbanded g actor) v
          \<lparr>gv_guild = (gv_guild v)(g := None),
           gv_role = remove_guild (gv_role v) g,
           gv_state = S,
           gv_app = gv_app v |` {k. fst k \<noteq> g \<and> snd k \<notin> in_guild (gv_role v) g}\<rparr>"

inductive_cases QuietE: "roster_step cap levels rules Quiet v v'"

section \<open>The invariant\<close>

definition apps_ok :: "guild_view \<Rightarrow> bool" where
  "apps_ok v \<longleftrightarrow> (\<forall>g p a. gv_app v (g, p) = Some a \<longrightarrow> gv_guild v g \<noteq> None \<and> gv_role v p = None)"

definition names_ok :: "guild_view \<Rightarrow> bool" where
  "names_ok v \<longleftrightarrow> (\<forall>g h r r'. gv_guild v g = Some r \<longrightarrow> gv_guild v h = Some r'
     \<longrightarrow> gu_name_norm r = gu_name_norm r' \<longrightarrow> g = h)"

definition view_inv :: "(u32 \<Rightarrow> u32 option) \<Rightarrow> (u32 \<Rightarrow> (u64 \<times> u32) option) \<Rightarrow> guild_view \<Rightarrow> bool" where
  "view_inv cap levels v \<longleftrightarrow>
     roster_ok cap levels (gv_guild v) (gv_role v) (gv_state v) \<and> apps_ok v \<and> names_ok v \<and> 0 \<notin> gv_state v"

lemma apps_okD: "apps_ok v \<Longrightarrow> gv_app v k = Some a \<Longrightarrow> gv_guild v (fst k) \<noteq> None \<and> gv_role v (snd k) = None"
  by (cases k) (auto simp: apps_ok_def)

lemma roster_ok_rows: "roster_ok cap levels G R S \<Longrightarrow> more_rows S S' \<Longrightarrow> roster_ok cap levels G R S'"
  unfolding roster_ok_def more_rows_def by blast

lemma more_rows_zero: "more_rows S S' \<Longrightarrow> 0 \<notin> S \<Longrightarrow> 0 \<notin> S'"
  by (auto simp: more_rows_def)

lemma more_rows_refl [simp]: "more_rows S S"
  by (simp add: more_rows_def)

lemma map_le_SomeD: "A \<subseteq>\<^sub>m B \<Longrightarrow> A k = Some a \<Longrightarrow> B k = Some a"
  by (metis domI map_le_def)

text \<open>The limits of the next level are no lower.\<close>

lemma guild_ok_keeps:
  assumes "guild_ok cap levels R g row" and "row_keeps levels row row'" and tab: "level_table cap levels"
  shows "guild_ok cap levels R g row'"
proof -
  from assms(1) obtain c n where here: "in_role R g RoleLeader = {gu_leader_id row}"
    "card (in_guild R g) \<le> unat (gu_max_members row)" "levels (gu_level row) = Some (c, gu_max_members row)"
    "cap (gu_level row) = Some n" "card (in_role R g RoleOfficer) \<le> unat n" by (auto simp: guild_ok_def)
  from assms(2) have lead: "gu_leader_id row' = gu_leader_id row" by (simp add: row_keeps_def)
  from assms(2) consider "gu_level row' = gu_level row" "gu_max_members row' = gu_max_members row"
    | c' where "gu_level row' = gu_level row + 1" "levels (gu_level row + 1) = Some (c', gu_max_members row')"
    unfolding row_keeps_def by blast
  then show ?thesis
  proof cases
    case 1
    with here lead show ?thesis by (simp add: guild_ok_def)
  next
    case 2
    with tab obtain n' where n': "cap (gu_level row + 1) = Some n'" by (fastforce simp: level_table_def)
    with tab here 2 have "n \<le> n'" "gu_max_members row \<le> gu_max_members row'" unfolding level_table_def by blast+
    then have "unat n \<le> unat n'" "unat (gu_max_members row) \<le> unat (gu_max_members row')"
      by (simp_all add: word_le_nat_alt)
    with here lead 2 n' show ?thesis by (auto simp: guild_ok_def)
  qed
qed

lemma roster_ok_keeps:
  assumes ok: "roster_ok cap levels G R S" and keeps: "\<And>g. rel_option (row_keeps levels) (G g) (G' g)"
    and tab: "level_table cap levels"
  shows "roster_ok cap levels G' R S"
  unfolding roster_ok_def
proof (rule conjI; intro allI impI)
  fix p g role assume "R p = Some (g, role)"
  with roster_okD(1-3) [OF ok this] keeps [of g]
  show "G' g \<noteq> None \<and> p \<in> S \<and> role \<in> {RoleMember, RoleOfficer, RoleLeader}" by (auto simp: option_rel_Some1)
next
  fix g row' assume "G' g = Some row'"
  with keeps [of g] obtain row where "G g = Some row" "row_keeps levels row row'" by (auto simp: option_rel_Some2)
  then show "guild_ok cap levels R g row'" using guild_ok_keeps roster_okD(4) [OF ok] tab by blast
qed

lemma names_ok_keeps:
  assumes "names_ok v" and "\<And>g. rel_option (row_keeps levels) (gv_guild v g) (gv_guild v' g)"
  shows "names_ok v'"
  unfolding names_ok_def
proof (intro allI impI)
  fix g h r r' assume new: "gv_guild v' g = Some r" "gv_guild v' h = Some r'" "gu_name_norm r = gu_name_norm r'"
  from assms(2) [of g] assms(2) [of h] new(1,2) obtain s s' where "gv_guild v g = Some s" "row_keeps levels s r"
    "gv_guild v h = Some s'" "row_keeps levels s' r'" by (auto simp: option_rel_Some2)
  moreover from this new(3) have "gu_name_norm s = gu_name_norm s'" by (simp add: row_keeps_def)
  ultimately show "g = h" using assms(1) unfolding names_ok_def by blast
qed

lemma apps_ok_le:
  assumes "apps_ok v" and "gv_app v' \<subseteq>\<^sub>m gv_app v"
    and "\<And>g p a. gv_app v' (g, p) = Some a \<Longrightarrow> gv_guild v g \<noteq> None \<Longrightarrow> gv_role v p = None
           \<Longrightarrow> gv_guild v' g \<noteq> None \<and> gv_role v' p = None"
  shows "apps_ok v'"
  unfolding apps_ok_def
proof (intro allI impI)
  fix g p a assume a: "gv_app v' (g, p) = Some a"
  from map_le_SomeD [OF assms(2) a] assms(1) have "gv_guild v g \<noteq> None" "gv_role v p = None"
    unfolding apps_ok_def by blast+
  with assms(3) [OF a] show "gv_guild v' g \<noteq> None \<and> gv_role v' p = None" by blast
qed

lemma restrict_map_le [simp]: "A |` X \<subseteq>\<^sub>m A"
  by (auto simp: map_le_def)

lemma restrict_map_Some [simp]: "(A |` X) k = Some a \<longleftrightarrow> k \<in> X \<and> A k = Some a"
  by (simp add: restrict_map_def)

lemma view_inv_step:
  assumes "roster_step cap levels rules e v v'" and inv: "view_inv cap levels v" and tab: "level_table cap levels"
  shows "view_inv cap levels v'"
proof -
  from inv have ok: "roster_ok cap levels (gv_guild v) (gv_role v) (gv_state v)" and app: "apps_ok v"
    and names: "names_ok v" and zero: "0 \<notin> gv_state v" by (simp_all add: view_inv_def)
  from assms(1) show ?thesis
  proof (cases rule: roster_step.cases)
    case quiet
    have "gv_guild v g \<noteq> None \<Longrightarrow> gv_guild v' g \<noteq> None" for g using quiet(3) [of g] by (cases "gv_guild v' g") auto
    then have "apps_ok v'" using quiet(2) by (auto intro!: apps_ok_le [OF app quiet(5)])
    then show ?thesis using roster_ok_rows [OF roster_ok_keeps [OF ok quiet(3) tab] quiet(4)] quiet(2)
        names_ok_keeps [OF names quiet(3)] more_rows_zero [OF quiet(4) zero] by (simp add: view_inv_def)
  next
    case (founded g p S row c)
    from tab founded(9) obtain n where "0 < gu_max_members row" "cap (gu_level row) = Some n"
      unfolding level_table_def founded(8) by (metis not_None_eq)
    with roster_ok_found [OF roster_ok_rows [OF ok founded(6)] founded(3,4,5,7)] founded(2,8,9)
    have "roster_ok cap levels (gv_guild v') (gv_role v') (gv_state v')" by simp
    moreover have "apps_ok v'" using founded by (intro apps_ok_le [OF app]) (auto split: if_splits)
    moreover have "names_ok v'" using names founded(2,10) unfolding names_ok_def by (auto split: if_splits) metis+
    ultimately show ?thesis using founded(2) more_rows_zero [OF founded(6) zero] by (simp add: view_inv_def)
  next
    case (role_set g row actor target old role)
    have "apps_ok v'" using role_set by (intro apps_ok_le [OF app]) (auto split: if_splits)
    then show ?thesis using roster_ok_role [OF ok role_set(3,5,6,7)] role_set(2) names zero
      by (simp add: view_inv_def names_ok_def)
  next
    case (transferred g row actor target old n role)
    have "apps_ok v'" using transferred(2,4,5) by (intro apps_ok_le [OF app]) (auto split: if_splits)
    moreover have "names_ok v'" using names transferred(2,3) by (auto simp: names_ok_def split: if_splits)
    moreover have "roster_ok cap levels (gv_guild v') (gv_role v') (gv_state v')"
      using roster_ok_transfer [OF ok transferred(3-7), of role] transferred(2,8) by (auto split: if_splits)
    ultimately show ?thesis using transferred(2) zero by (simp add: view_inv_def)
  next
    case (kicked actor g a target b S)
    then have "b \<noteq> RoleLeader" by (auto simp: canKick_def Rank_def split: if_splits)
    with kicked have "roster_ok cap levels (gv_guild v') (gv_role v') (gv_state v')"
      using roster_ok_remove [OF roster_ok_rows [OF ok kicked(6)] kicked(4)] by simp
    moreover have "apps_ok v'" using kicked by (intro apps_ok_le [OF app]) auto
    ultimately show ?thesis using kicked(2) names more_rows_zero [OF kicked(6) zero] by (simp add: view_inv_def names_ok_def)
  next
    case (left p g r S)
    then have "roster_ok cap levels (gv_guild v') (gv_role v') (gv_state v')"
      using roster_ok_remove [OF roster_ok_rows [OF ok left(5)] left(3)] by simp
    moreover have "apps_ok v'" using left by (intro apps_ok_le [OF app]) auto
    ultimately show ?thesis using left(2) names more_rows_zero [OF left(5) zero] by (simp add: view_inv_def names_ok_def)
  next
    case (applied g p S A a now)
    have "apps_ok v'" using app applied map_le_SomeD [OF applied(6)] by (fastforce simp: apps_ok_def split: if_splits)
    then show ?thesis using applied roster_ok_rows [OF ok applied(5)] names more_rows_zero [OF applied(5) zero]
      by (simp add: view_inv_def names_ok_def)
  next
    case (accepted g row actor a p now S)
    then have "roster_ok cap levels (gv_guild v') (gv_role v') (gv_state v')"
      using roster_ok_add [OF roster_ok_rows [OF ok accepted(9)] accepted(3,7,8)] by simp
    moreover have "apps_ok v'" using accepted by (intro apps_ok_le [OF app]) (auto split: if_splits)
    ultimately show ?thesis using accepted(2) names more_rows_zero [OF accepted(9) zero] by (simp add: view_inv_def names_ok_def)
  next
    case (disbanded g row actor S)
    then have "roster_ok cap levels (gv_guild v') (gv_role v') (gv_state v')"
      using roster_ok_disband [OF roster_ok_rows [OF ok disbanded(5)]] by simp
    moreover have "apps_ok v'"
      using disbanded by (intro apps_ok_le [OF app]) (auto split: if_splits)
    moreover have "names_ok v'" using names disbanded(2) by (auto simp: names_ok_def split: if_splits)
    ultimately show ?thesis using disbanded(2) more_rows_zero [OF disbanded(5) zero] by (simp add: view_inv_def)
  qed
qed

end
