(* ===== verification/GuildMembersSteps.thy ===== *)
theory GuildMembersSteps
  imports GuildMembersSpec
begin

text \<open>
  Every operation of guild membership refines the specification: on sound tables its effect is the event the
  caller is told about, or none.
\<close>

section \<open>Tables and view\<close>

definition view :: "guild_tables \<Rightarrow> guild_view" where
  "view t = \<lparr>gv_guild = guild_at t, gv_role = roster t, gv_state = gt_state t, gv_app = map_of (gt_app t)\<rparr>"

definition tables_ok :: "guild_tables \<Rightarrow> bool" where
  "tables_ok t \<longleftrightarrow> uk_member t \<and> distinct (map fst (gd_guilds (gt_econ t))) \<and> distinct (map fst (gt_app t))"

definition refines ::
  "(u32 \<Rightarrow> u32 option) \<Rightarrow> (u32 \<Rightarrow> (u64 \<times> u32) option) \<Rightarrow> ApplicationRules \<Rightarrow> guild_event \<Rightarrow> guild_tables \<Rightarrow> guild_tables \<Rightarrow> bool" where
  "refines cap levels rules e t t' \<longleftrightarrow> tables_ok t' \<and> roster_step cap levels rules e (view t) (view t')"

text \<open>Both read the members, the guilds and the applications only.\<close>

lemma roster_cong: "members_of t' = members_of t \<Longrightarrow> roster t' = roster t"
  by (simp add: roster_def)

lemma uk_member_cong: "members_of t' = members_of t \<Longrightarrow> uk_member t' = uk_member t"
  by (simp add: uk_member_def)

lemma roster_other [simp]:
  "roster (t\<lparr>gt_app := A\<rparr>) = roster t" "roster (t\<lparr>gt_state := S\<rparr>) = roster t"
  "roster (t\<lparr>gt_progress := P\<rparr>) = roster t" "roster (t\<lparr>gt_trial := T\<rparr>) = roster t"
  "roster (set_guilds gs t) = roster t" "roster (t\<lparr>gt_econ := (gt_econ t)\<lparr>gd_op := ops\<rparr>\<rparr>) = roster t"
  by (simp_all add: roster_def)

lemma uk_member_other [simp]:
  "uk_member (t\<lparr>gt_app := A\<rparr>) = uk_member t" "uk_member (t\<lparr>gt_state := S\<rparr>) = uk_member t"
  "uk_member (t\<lparr>gt_progress := P\<rparr>) = uk_member t" "uk_member (t\<lparr>gt_trial := T\<rparr>) = uk_member t"
  "uk_member (set_guilds gs t) = uk_member t" "uk_member (t\<lparr>gt_econ := (gt_econ t)\<lparr>gd_op := ops\<rparr>\<rparr>) = uk_member t"
  by (simp_all add: uk_member_def)

lemma view_sel [simp]:
  "gv_guild (view t) = guild_at t" "gv_role (view t) = roster t" "gv_state (view t) = gt_state t"
  "gv_app (view t) = map_of (gt_app t)"
  by (simp_all add: view_def)

lemma view_eqI:
  "guild_at t' = gv_guild v \<Longrightarrow> roster t' = gv_role v \<Longrightarrow> gt_state t' = gv_state v \<Longrightarrow> map_of (gt_app t') = gv_app v
    \<Longrightarrow> view t' = v"
  by (simp add: view_def)

lemma quiet_refl: "roster_step cap levels rules Quiet v v"
  by (rule roster_step.quiet) (auto intro!: option.rel_refl simp: row_keeps_def)

lemma refines_quiet: "tables_ok t \<Longrightarrow> refines cap levels rules Quiet t t"
  by (simp add: refines_def quiet_refl)

section \<open>Transactions\<close>

text \<open>What holds of every state a transaction leaves behind; \<open>None\<close> is the answer of a commit with an error.\<close>

definition tx_ensures :: "('a option \<Rightarrow> guild_tables \<Rightarrow> bool) \<Rightarrow> 'a tx \<Rightarrow> bool" where
  "tx_ensures Q x = (case x of Rollback e \<Rightarrow> True | Commit a t \<Rightarrow> Q (Some a) t | CommitThen e t \<Rightarrow> Q None t)"

lemma tx_ensures_simps [simp]:
  "tx_ensures Q (Rollback e)" "tx_ensures Q (Commit a t) = Q (Some a) t" "tx_ensures Q (CommitThen e t) = Q None t"
  by (simp_all add: tx_ensures_def)

lemma tx_ensures_try [simp]: "tx_ensures Q (tx_try r k) \<longleftrightarrow> (\<forall>x. r = Inr x \<longrightarrow> tx_ensures Q (k x))"
  by (cases r) (simp_all add: tx_try_def)

definition answer :: "economy_error + 'a \<Rightarrow> 'a option" where
  "answer res = (case res of Inl e \<Rightarrow> None | Inr a \<Rightarrow> Some a)"

lemma answer_simps [simp]: "answer (Inl e) = None" "answer (Inr a) = Some a"
  by (simp_all add: answer_def)

lemma runTxBody_refines:
  "runTxBody t x = (res, t') \<Longrightarrow> tx_ensures (\<lambda>r. refines cap levels rules (f r) t) x \<Longrightarrow> f None = Quiet \<Longrightarrow> tables_ok t
    \<Longrightarrow> refines cap levels rules (f (answer res)) t t'"
  by (cases x) (auto simp: runTxBody_def refines_quiet)

lemma refuse_Inr [simp]: "refuse b e = Inr u \<longleftrightarrow> \<not> b"
  by (simp add: refuse_def)

lemma lockGuildRow_Inr [simp]: "lockGuildRow t g = Inr row \<longleftrightarrow> guild_at t g = Some row"
  by (simp add: lockGuildRow_def split: option.split)

lemma lockPlayerState_Inr [simp]: "lockPlayerState t p = Inr u \<longleftrightarrow> p \<in> gt_state t"
  by (simp add: lockPlayerState_def)

lemma execExactlyOneRow_Inr [simp]: "execExactlyOneRow r = Inr t \<longleftrightarrow> r = (1, t)"
  by (cases r) (auto simp: execExactlyOneRow_def)

lemma lockMemberPair_Inr:
  "uk_member t \<Longrightarrow> lockMemberPair t g actor target = Inr (a, b) \<longleftrightarrow>
     actor \<noteq> target \<and> roster t actor = Some (g, a) \<and> roster t target = Some (g, b)"
  by (auto simp: lockMemberPair_def lockMemberRole_roster [symmetric] split: option.split)

lemma ensure_Inr:
  "ensurePlayerStateRows t ids = Inr t' \<longleftrightarrow> 0 \<notin> set ids \<and> t' = t\<lparr>gt_state := gt_state t \<union> set ids\<rparr>"
  by (auto simp: ensurePlayerStateRows_def)

lemma view_ensured: "view (t\<lparr>gt_state := S\<rparr>) = (view t)\<lparr>gv_state := S\<rparr>"
  by (simp add: view_def)

lemma view_apps: "view (t\<lparr>gt_app := A\<rparr>) = (view t)\<lparr>gv_app := map_of A\<rparr>"
  by (simp add: view_def)

lemma tables_ok_ensured [simp]: "tables_ok (t\<lparr>gt_state := S\<rparr>) = tables_ok t"
  by (simp add: tables_ok_def)

lemma ensure_refines:
  assumes "ensurePlayerStateRows t ids = Inr t'" and "tables_ok t"
  shows "refines cap levels rules Quiet t t'"
  unfolding refines_def
proof
  show "tables_ok t'" using assms by (simp add: ensure_Inr)
  show "roster_step cap levels rules Quiet (view t) (view t')" using assms(1)
    by (intro roster_step.quiet) (auto simp: ensure_Inr more_rows_def row_keeps_def intro!: option.rel_refl)
qed

lemma updateMemberRole_one:
  assumes "updateMemberRole role g p t = (n, t')" "uk_member t" "roster t p = Some (g, old)"
  shows "n = (if old = role then 0 else 1)" "uk_member t'" "roster t' = (roster t)(p \<mapsto> (g, role))"
    "guild_at t' = guild_at t" "gd_guilds (gt_econ t') = gd_guilds (gt_econ t)" "gt_state t' = gt_state t" "gt_app t' = gt_app t"
    "gd_op (gt_econ t') = gd_op (gt_econ t)"
proof -
  from assms(3) obtain m where m: "member_at t (g, p) = Some m" "gm_role m = old" by (auto simp: roster_member [OF assms(2)])
  with assms(1) have t': "t' = set_members (AList.update (g, p) (m\<lparr>gm_role := role\<rparr>) (members_of t)) t"
    and "n = (if old = role then 0 else 1)" by (auto simp: updateMemberRole_def)
  then show "n = (if old = role then 0 else 1)" "guild_at t' = guild_at t" "gd_guilds (gt_econ t') = gd_guilds (gt_econ t)"
    "gt_state t' = gt_state t" "gt_app t' = gt_app t" "gd_op (gt_econ t') = gd_op (gt_econ t)" by simp_all
  show "uk_member t'" "roster t' = (roster t)(p \<mapsto> (g, role))"
    using uk_update [OF assms(2) m(1)] roster_update [OF assms(2) m(1)] by (simp_all add: t')
qed

lemma deleteMember_one:
  assumes "deleteMember g p t = (1, t')" "uk_member t"
  shows "\<exists>r. roster t p = Some (g, r)" "uk_member t'" "roster t' = (roster t)(p := None)"
    "\<exists>ms. t' = set_members ms t"
proof -
  from assms(1) have m: "member_at t (g, p) \<noteq> None"
    and t': "t' = set_members (AList.delete (g, p) (members_of t)) t" by (auto simp: deleteMember_def split: if_splits)
  then show "\<exists>r. roster t p = Some (g, r)" "\<exists>ms. t' = set_members ms t" by (auto simp: roster_member [OF assms(2)])
  show "uk_member t'" "roster t' = (roster t)(p := None)"
    using uk_delete [OF assms(2)] roster_delete [OF assms(2) m] by (simp_all add: t')
qed

section \<open>Applications\<close>

lemma map_of_filter_keys: "map_of (filter (\<lambda>r. fst r \<in> X) al) = map_of al |` X"
  by (induction al) (auto simp: restrict_map_def fun_eq_iff)

lemma delete_filter: "AList.delete k al = filter (\<lambda>r. fst r \<noteq> k) al"
  by (induction al) auto

lemma deleteApplicationRows_filter:
  "deleteApplicationRows keys t = t\<lparr>gt_app := filter (\<lambda>r. fst r \<notin> set keys) (gt_app t)\<rparr>"
proof -
  have "fold deleteApplication ks t = t\<lparr>gt_app := filter (\<lambda>r. fst r \<notin> set ks) (gt_app t)\<rparr>" for ks
    by (induction ks arbitrary: t) (simp_all add: deleteApplication_def delete_filter conj_commute)
  then show ?thesis by (simp add: deleteApplicationRows_def)
qed

lemma deleteApplicationsOfPlayer_app:
  "deleteApplicationsOfPlayer p also t =
     t\<lparr>gt_app := filter (\<lambda>r. fst r \<in> {k. snd k \<noteq> p \<and> k \<notin> set also}) (gt_app t)\<rparr>"
proof -
  have "fst r \<in> fst ` {r \<in> set (gt_app t). snd (fst r) = p} \<longleftrightarrow> snd (fst r) = p" if "r \<in> set (gt_app t)" for r
    using that by force
  then have "filter (\<lambda>r. fst r \<notin> set (applicationKeysOfPlayers t [p] @ also)) (gt_app t) =
      filter (\<lambda>r. fst r \<in> {k. snd k \<noteq> p \<and> k \<notin> set also}) (gt_app t)"
    by (intro filter_cong) (simp_all add: applicationKeysOfPlayers_def)
  then show ?thesis by (simp only: deleteApplicationsOfPlayer_def deleteApplicationRows_filter)
qed

definition expired_at :: "u64 \<Rightarrow> (u64 \<times> u64) set \<Rightarrow> (u64 \<times> u64) \<times> application_row \<Rightarrow> bool" where
  "expired_at now K r \<longleftrightarrow> fst r \<in> K \<and> ap_expire_ms (snd r) \<le> now"

lemma fold_deleteExpired:
  "distinct (map fst (gt_app t)) \<Longrightarrow>
    fold (deleteExpiredApplication now) ks t = t\<lparr>gt_app := filter (\<lambda>r. \<not> expired_at now (set ks) r) (gt_app t)\<rparr>"
proof (induction ks arbitrary: t)
  case (Cons k ks)
  have one: "deleteExpiredApplication now k t = t\<lparr>gt_app := filter (\<lambda>r. \<not> expired_at now {k} r) (gt_app t)\<rparr>"
  proof -
    have row: "fst r = k \<Longrightarrow> r \<in> set (gt_app t) \<Longrightarrow> map_of (gt_app t) k = Some (snd r)" for r
      using Cons.prems by (cases r) auto
    have "filter (\<lambda>r. \<not> expired_at now {k} r) (gt_app t) = (case map_of (gt_app t) k of
        None \<Rightarrow> gt_app t | Some a \<Rightarrow> if ap_expire_ms a \<le> now then filter (\<lambda>r. fst r \<noteq> k) (gt_app t) else gt_app t)"
      using row by (auto simp: expired_at_def filter_id_conv intro!: filter_cong split: option.split)
    then show ?thesis
      by (simp add: deleteExpiredApplication_def deleteApplication_def delete_filter split: option.split)
  qed
  have "distinct (map fst (filter (\<lambda>r. \<not> expired_at now {k} r) (gt_app t)))"
    using Cons.prems by (rule distinct_map_filter)
  then show ?case using Cons.IH [of "t\<lparr>gt_app := filter (\<lambda>r. \<not> expired_at now {k} r) (gt_app t)\<rparr>"]
    by (auto simp: one expired_at_def intro!: arg_cong [where f = "\<lambda>A. t\<lparr>gt_app := A\<rparr>"] filter_cong)
qed (simp add: expired_at_def)

lemma map_of_filter_le: "distinct (map fst al) \<Longrightarrow> map_of (filter P al) \<subseteq>\<^sub>m map_of al"
  by (auto simp: map_le_def distinct_map_filter dest!: map_of_SomeD)

lemma map_of_filter_distinct:
  assumes "distinct (map fst al)"
  shows "map_of (filter P al) k = Some v \<longleftrightarrow> map_of al k = Some v \<and> P (k, v)"
  using map_of_eq_Some_iff [OF assms] map_of_eq_Some_iff [OF distinct_map_filter [OF assms, of P]] by auto

text \<open>Deleting expired rows leaves the live ones.\<close>

lemma live_apps_expired:
  assumes "distinct (map fst al)"
  shows "live_apps now (map_of (filter (\<lambda>r. \<not> expired_at now K r) al)) = live_apps now (map_of al)"
  by (auto simp: live_apps_def map_of_filter_distinct [OF assms] expired_at_def)

lemma card_live:
  assumes "distinct (map fst al)"
  shows "length (filter (\<lambda>r. P (fst r) \<and> now < ap_expire_ms (snd r)) al) = card {k \<in> live_apps now (map_of al). P k}"
proof -
  let ?rs = "filter (\<lambda>r. P (fst r) \<and> now < ap_expire_ms (snd r)) al"
  have "{k \<in> live_apps now (map_of al). P k} = set (map fst ?rs)"
    using map_of_eq_Some_iff [OF assms] by (force simp: live_apps_def image_iff)
  then show ?thesis
    using distinct_card [OF distinct_map_filter [OF assms, of "\<lambda>r. P (fst r) \<and> now < ap_expire_ms (snd r)"]]
    by (simp only: length_map)
qed

lemma countPending_live:
  "distinct (map fst (gt_app t)) \<Longrightarrow>
    countPendingApplicationsOfPlayer t p now = card {k \<in> live_apps now (map_of (gt_app t)). snd k = p}"
  using card_live [of "gt_app t" "\<lambda>k. snd k = p" now] by (simp add: countPendingApplicationsOfPlayer_def)

lemma CountLive_live:
  assumes "distinct (map fst (gt_app t))" and "\<And>k a. map_of (gt_app t) k = Some a \<Longrightarrow> roster t (snd k) = None"
  shows "CountLiveApplications t g now = card {k \<in> live_apps now (map_of (gt_app t)). fst k = g}"
proof -
  have "filter (\<lambda>r. fst (fst r) = g \<and> ap_expire_ms (snd r) > now \<and> loadPlayerGuild t (snd (fst r)) = None) (gt_app t) =
      filter (\<lambda>r. fst (fst r) = g \<and> now < ap_expire_ms (snd r)) (gt_app t)"
    using assms map_of_eq_Some_iff [OF assms(1)] by (intro filter_cong) (auto simp: loadPlayerGuild_roster)
  then show ?thesis using card_live [OF assms(1), of "\<lambda>k. fst k = g" now] by (simp add: CountLiveApplications_def)
qed

lemma accelerate_try_Inr:
  assumes "accelerate_try g ps now t = Inr t'"
  shows "\<exists>ops. t' = t\<lparr>gt_econ := (gt_econ t)\<lparr>gd_op := ops\<rparr>\<rparr>"
proof -
  have "\<exists>ops. fold (\<lambda>opID d. case cas_op opID (accelerate_cond now) (accelerate_set now) d of None \<Rightarrow> d | Some d' \<Rightarrow> d') ids d
      = d\<lparr>gd_op := ops\<rparr>" for ids d
  proof (induction ids arbitrary: d)
    case Nil
    show ?case by (rule exI [of _ "gd_op d"]) simp
  next
    case (Cons i ids)
    obtain o1 where "(case cas_op i (accelerate_cond now) (accelerate_set now) d of None \<Rightarrow> d | Some d' \<Rightarrow> d') = d\<lparr>gd_op := o1\<rparr>"
      by (cases "cas_op i (accelerate_cond now) (accelerate_set now) d") (auto elim!: cas_op_Some intro: that [of "gd_op d"])
    with Cons.IH [of "d\<lparr>gd_op := o1\<rparr>"] show ?case by simp
  qed
  note fold = this
  from assms obtain ids where "t' = t\<lparr>gt_econ := fold (\<lambda>opID d. case cas_op opID (accelerate_cond now) (accelerate_set now) d of
      None \<Rightarrow> d | Some d' \<Rightarrow> d') ids (gt_econ t)\<rparr>"
    by (auto simp: accelerate_try_def accelerateDonationDeadlines_def split: option.splits if_splits)
  then show ?thesis using fold [of ids "gt_econ t"] by metis
qed

section \<open>Operations\<close>

definition event_of :: "guild_event \<Rightarrow> ('a \<times> bool) option \<Rightarrow> guild_event" where
  "event_of e res = (case res of Some (_, True) \<Rightarrow> e | _ \<Rightarrow> Quiet)"

lemma event_of_simps [simp]: "event_of e None = Quiet" "event_of e (Some (a, b)) = (if b then e else Quiet)"
  by (auto simp: event_of_def)

lemma Rank_leader [simp]: "Rank r = 3 \<longleftrightarrow> r = RoleLeader"
  by (simp add: Rank_def)

lemma tables_okD: "tables_ok t \<Longrightarrow> uk_member t" "tables_ok t \<Longrightarrow> distinct (map fst (gd_guilds (gt_econ t)))"
  "tables_ok t \<Longrightarrow> distinct (map fst (gt_app t))"
  by (simp_all add: tables_ok_def)

lemma refinesI:
  "view t' = v' \<Longrightarrow> roster_step cap levels rules e (view t) v' \<Longrightarrow> tables_ok t' \<Longrightarrow> refines cap levels rules e t t'"
  by (simp add: refines_def)

lemma SetMemberRole_refines:
  assumes "SetMemberRole cap g actor target role t = (res, t')" and ok: "tables_ok t"
  shows "refines cap levels rules (event_of (RoleSet g actor target role) (answer res)) t t'"
proof (cases "actor = target \<or> \<not> AssignableRole role")
  case True
  with assms(1) ok show ?thesis by (auto simp: SetMemberRole_def refines_quiet)
next
  case False
  note uk = tables_okD(1) [OF ok]
  have change: "refines cap levels rules (RoleSet g actor target role) t t1"
    if "guild_at t g = Some row" "roster t actor = Some (g, RoleLeader)" "roster t target = Some (g, old)" "old \<noteq> RoleLeader"
      "old \<noteq> role" "role = RoleOfficer \<longrightarrow> (\<exists>n. cap (gu_level row) = Some n \<and> countMembersByRole t g RoleOfficer < unat n)"
      "updateMemberRole role g target t = (1, t1)" for row old t1
  proof -
    note upd = updateMemberRole_one [OF that(7) uk that(3)]
    have "role = RoleMember \<or> role = RoleOfficer \<and>
          (\<exists>n. cap (gu_level row) = Some n \<and> card (in_role (roster t) g RoleOfficer) < unat n)"
      using False that(6) countMembersByRole_roster [OF uk, of g RoleOfficer] by (auto simp: AssignableRole_def in_role_def)
    then have step: "roster_step cap levels rules (RoleSet g actor target role) (view t)
        ((view t)\<lparr>gv_role := (gv_role (view t))(target \<mapsto> (g, role))\<rparr>)"
      using that(1-4) by (intro roster_step.role_set [where row = row and old = old]) simp_all
    show ?thesis by (rule refinesI [OF view_eqI step]) (use upd ok in \<open>simp_all add: tables_ok_def\<close>)
  qed
  have "tx_ensures (\<lambda>x. refines cap levels rules (event_of (RoleSet g actor target role) x) t)
      (SetMemberRole_tx cap g actor target role t)"
    unfolding SetMemberRole_tx_def using ok change refines_quiet
    by (auto simp: lockMemberPair_Inr [OF uk] canAssignRole_def split: option.splits)
  from runTxBody_refines [OF _ this] False assms(1) ok show ?thesis by (simp add: SetMemberRole_def)
qed

lemma updateLeader_one:
  assumes "updateLeader leader g t = (1, t')" "guild_at t g = Some row"
  shows "t' = set_guilds (AList.update g (row\<lparr>gu_leader_id := leader\<rparr>) (gd_guilds (gt_econ t))) t"
  using assms by (auto simp: updateLeader_def split: if_splits)

lemma TransferLeader_refines:
  assumes "TransferLeader cap g actor target t = (res, t')" and ok: "tables_ok t"
  shows "refines cap levels rules (event_of (Transferred g actor target) (answer res)) t t'"
proof (cases "actor = target")
  case True
  with assms(1) ok show ?thesis by (auto simp: TransferLeader_def refines_quiet)
next
  case False
  note uk = tables_okD(1) [OF ok]
  define N where "N old = (if old = RoleOfficer \<and> countMembersByRole t g RoleOfficer > 0
    then countMembersByRole t g RoleOfficer - 1 else countMembersByRole t g RoleOfficer)" for old
  have change: "refines cap levels rules (Transferred g actor target) t
      (snd (updateMemberRole (demotedLeaderRole (N old) n) g actor (snd (updateMemberRole RoleLeader g target t1))))"
    if "guild_at t g = Some row" "roster t actor = Some (g, RoleLeader)" "roster t target = Some (g, old)"
      "cap (gu_level row) = Some n" "updateLeader target g t = (1, t1)"
    for row old n t1
  proof -
    let ?role = "demotedLeaderRole (N old) n"
    obtain c2 t2 where t2: "updateMemberRole RoleLeader g target t1 = (c2, t2)" by fastforce
    obtain c3 t3 where t3: "updateMemberRole ?role g actor t2 = (c3, t3)" by fastforce
    have t1: "uk_member t1" "roster t1 = roster t" "gt_state t1 = gt_state t" "gt_app t1 = gt_app t"
      "gd_guilds (gt_econ t1) = AList.update g (row\<lparr>gu_leader_id := target\<rparr>) (gd_guilds (gt_econ t))"
      using uk updateLeader_one [OF that(5,1)] by simp_all
    note u2 = updateMemberRole_one [OF t2 t1(1), unfolded t1, OF that(3)]
    have "roster t2 actor = Some (g, RoleLeader)" using u2(3) that(2) by simp
    note u3 = updateMemberRole_one [OF t3 u2(2) this]
    have "?role = (if (if old = RoleOfficer then card (in_role (roster t) g RoleOfficer) - 1
        else card (in_role (roster t) g RoleOfficer)) < unat n then RoleOfficer else RoleMember)"
      using countMembersByRole_roster [OF uk, of g RoleOfficer] by (auto simp: demotedLeaderRole_def N_def in_role_def)
    then have step: "roster_step cap levels rules (Transferred g actor target) (view t)
        ((view t)\<lparr>gv_guild := (gv_guild (view t))(g \<mapsto> row\<lparr>gu_leader_id := target\<rparr>),
           gv_role := (gv_role (view t))(target \<mapsto> (g, RoleLeader), actor \<mapsto> (g, ?role))\<rparr>)"
      using that(1-4) False by (intro roster_step.transferred [where old = old and n = n]) simp_all
    have "refines cap levels rules (Transferred g actor target) t t3" by (rule refinesI [OF view_eqI step])
        (use u2 u3 t1 ok in \<open>simp_all add: tables_ok_def AList.distinct_update\<close>)
    then show ?thesis by (simp add: t2 t3)
  qed
  have "tx_ensures (\<lambda>x. refines cap levels rules (event_of (Transferred g actor target) x) t)
      (TransferLeader_tx cap g actor target t)"
    unfolding TransferLeader_tx_def Let_def N_def [symmetric] using change
    by (auto simp: lockMemberPair_Inr [OF uk] canTransferLeader_def split: option.splits)
  from runTxBody_refines [OF _ this] False assms(1) ok show ?thesis by (simp add: TransferLeader_def)
qed

text \<open>A departure: the member row and the player's applications go, deadlines of donations come forward.\<close>

lemma departure_view:
  assumes "deleteMember g p t = (1, t1)" and "accelerate_try g [p] now (deleteApplicationsOfPlayer p [] t1) = Inr t2"
    and ok: "tables_ok t"
  shows "view t2 = (view t)\<lparr>gv_role := (roster t)(p := None), gv_state := gt_state t,
      gv_app := map_of (gt_app t) |` {k. snd k \<noteq> p}\<rparr>" "tables_ok t2"
proof -
  note del = deleteMember_one [OF assms(1) tables_okD(1) [OF ok]]
  from del(4) obtain ms where t1: "t1 = set_members ms t" by blast
  from accelerate_try_Inr [OF assms(2)] obtain ops where
    t2: "t2 = (deleteApplicationsOfPlayer p [] t1)\<lparr>gt_econ := (gt_econ t1)\<lparr>gd_op := ops\<rparr>\<rparr>"
    by (auto simp: deleteApplicationsOfPlayer_app)
  have "roster t2 = roster t1" "uk_member t2 = uk_member t1"
    by (rule roster_cong uk_member_cong; simp add: t2 deleteApplicationsOfPlayer_app)+
  then show "view t2 = (view t)\<lparr>gv_role := (roster t)(p := None), gv_state := gt_state t,
      gv_app := map_of (gt_app t) |` {k. snd k \<noteq> p}\<rparr>"
    using del(3) map_of_filter_keys [of "{k. snd k \<noteq> p}" "gt_app t"]
    by (intro view_eqI) (simp_all add: t2 t1 deleteApplicationsOfPlayer_app)
  show "tables_ok t2" using \<open>uk_member t2 = uk_member t1\<close> del(2) ok
    by (simp add: tables_ok_def t2 t1 deleteApplicationsOfPlayer_app distinct_map_filter)
qed

lemma KickMember_tx_ensures:
  assumes ok: "tables_ok t"
  shows "tx_ensures (\<lambda>x. refines cap levels rules (event_of (Kicked g actor target) x) t) (KickMember_tx g actor target now t)"
proof -
  have "refines cap levels rules (Kicked g actor target) t t2"
    if "roster t actor = Some (g, a)" "roster t target = Some (g, b)" "canKick a b"
      "deleteMember g target t = (1, t1)" "accelerate_try g [target] now (deleteApplicationsOfPlayer target [] t1) = Inr t2"
    for a b t1 t2
  proof (rule refinesI [OF departure_view(1) [OF that(4,5) ok] _ departure_view(2) [OF that(4,5) ok]])
    show "roster_step cap levels rules (Kicked g actor target) (view t) ((view t)\<lparr>gv_role := (roster t)(target := None),
        gv_state := gt_state t, gv_app := map_of (gt_app t) |` {k. snd k \<noteq> target}\<rparr>)"
      using roster_step.kicked [of "view t" actor g a target b "gt_state t"] that(1-3) by simp
  qed
  then show ?thesis unfolding KickMember_tx_def
    by (auto simp: lockMemberPair_Inr [OF tables_okD(1) [OF ok]])
qed

lemma LeaveGuild_tx_ensures:
  assumes ok: "tables_ok t"
  shows "tx_ensures (\<lambda>x. refines cap levels rules (event_of (Left g p) x) t) (LeaveGuild_tx g p now t)"
proof -
  have "refines cap levels rules (Left g p) t t2"
    if "lockMemberRole t g p = Some r" "r \<noteq> RoleLeader"
      "deleteMember g p t = (1, t1)" "accelerate_try g [p] now (deleteApplicationsOfPlayer p [] t1) = Inr t2"
    for r t1 t2
  proof (rule refinesI [OF departure_view(1) [OF that(3,4) ok] _ departure_view(2) [OF that(3,4) ok]])
    show "roster_step cap levels rules (Left g p) (view t) ((view t)\<lparr>gv_role := (roster t)(p := None),
        gv_state := gt_state t, gv_app := map_of (gt_app t) |` {k. snd k \<noteq> p}\<rparr>)"
      using roster_step.left [of "view t" p g r "gt_state t"] that(1,2) by (simp add: lockMemberRole_roster [OF tables_okD(1) [OF ok]])
  qed
  then show ?thesis unfolding LeaveGuild_tx_def by (auto split: option.split)
qed

text \<open>Rows of the application table go.\<close>

lemma refines_fewer_apps:
  assumes ok: "tables_ok t"
  shows "refines cap levels rules Quiet t (t\<lparr>gt_app := filter P (gt_app t)\<rparr>)"
  unfolding refines_def
proof
  show "tables_ok (t\<lparr>gt_app := filter P (gt_app t)\<rparr>)" using ok by (simp add: tables_ok_def distinct_map_filter)
  show "roster_step cap levels rules Quiet (view t) (view (t\<lparr>gt_app := filter P (gt_app t)\<rparr>))"
    by (rule roster_step.quiet)
      (auto intro!: option.rel_refl map_of_filter_le simp: row_keeps_def tables_okD(3) [OF ok])
qed

lemma purge_refines:
  assumes "tables_ok t"
  shows "refines cap levels rules Quiet t (purgeExpiredApplicationsOfGuild g now t)"
  using refines_fewer_apps [OF assms] fold_deleteExpired [OF tables_okD(3) [OF assms]]
  by (simp add: purgeExpiredApplicationsOfGuild_def)

lemma CancelApplication_refines:
  assumes "runTxBody t (CancelApplication_tx g p now t) = (res, t')" and ok: "tables_ok t"
  shows "refines cap levels rules Quiet t t'"
proof -
  have "tx_ensures (\<lambda>x. refines cap levels rules Quiet t) (CancelApplication_tx g p now t)"
    using refines_fewer_apps [OF ok] fold_deleteExpired [OF tables_okD(3) [OF ok], of now "[(g, p)]"]
    by (auto simp: CancelApplication_tx_def deleteApplication_def delete_filter split: option.split)
  from runTxBody_refines [OF assms(1) this] ok show ?thesis by simp
qed

lemma ReviewApplication_tx_ensures:
  assumes ok: "tables_ok t"
  shows "tx_ensures (\<lambda>x. refines cap levels rules (event_of (Accepted g actor p now) x) t)
    (ReviewApplication_tx zones g actor p approve zone now t)"
proof -
  note uk = tables_okD(1) [OF ok]
  have drop: "refines cap levels rules Quiet t (deleteApplication (g, p) t)"
    using refines_fewer_apps [OF ok] by (simp add: deleteApplication_def delete_filter)
  have join: "refines cap levels rules (Accepted g actor p now) t (deleteApplicationsOfPlayer p [(g, p)] t1)"
    if "guild_at t g = Some row" "lockMemberRole t g actor = Some a" "canReviewApplications a"
      "map_of (gt_app t) (g, p) = Some ap" "now < ap_expire_ms ap" "countMembers t g < unat (gu_max_members row)"
      "insertMember g p RoleMember now now t = Some t1" "p \<in> gt_state t" for row a ap t1
  proof -
    note ins = insertMember_roster [OF that(7) uk]
    have "roster_step cap levels rules (Accepted g actor p now) (view t) ((view t)\<lparr>gv_role := (gv_role (view t))(p \<mapsto> (g, RoleMember)),
        gv_state := gt_state t, gv_app := gv_app (view t) |` {k. snd k \<noteq> p}\<rparr>)"
      using that ins(2) countMembers_roster [OF uk, of g]
      by (intro roster_step.accepted [where row = row and a = a])
        (simp_all add: live_apps_def lockMemberRole_roster [OF uk] in_guild_def)
    moreover have "{k. snd k \<noteq> p \<and> k \<noteq> (g, p)} = {k. snd k \<noteq> p}" by auto
    ultimately show ?thesis using ins ok map_of_filter_keys [of "{k. snd k \<noteq> p}" "gt_app t"]
      by (intro refinesI [OF view_eqI])
        (simp_all add: deleteApplicationsOfPlayer_app tables_ok_def distinct_map_filter)
  qed
  show ?thesis unfolding ReviewApplication_tx_def using drop join by (auto simp: Let_def not_le split: option.split)
qed

lemma ApplyToGuild_tx_ensures:
  assumes ok: "tables_ok t" and apps: "apps_ok (view t)"
  shows "tx_ensures (\<lambda>x. refines cap levels rules (case x of None \<Rightarrow> Quiet | Some y \<Rightarrow> Applied g p now) t)
    (ApplyToGuild_tx zones g p zone now rules t)"
proof -
  note dist = tables_okD(3) [OF ok]
  define t1 where "t1 = purgeExpiredApplicationsOfPlayer p now t"
  define K where "K = fst ` {r \<in> set (gt_app t). snd (fst r) = p \<and> ap_expire_ms (snd r) \<le> now}"
  have t1: "t1 = t\<lparr>gt_app := filter (\<lambda>r. \<not> expired_at now K r) (gt_app t)\<rparr>"
    unfolding t1_def purgeExpiredApplicationsOfPlayer_def K_def using fold_deleteExpired [OF dist] by simp
  have dist1: "distinct (map fst (gt_app t1))" using dist by (simp add: t1 distinct_map_filter)
  have le: "map_of (gt_app t1) \<subseteq>\<^sub>m map_of (gt_app t)" using map_of_filter_le [OF dist] by (simp add: t1)
  have live: "live_apps now (map_of (gt_app t1)) = live_apps now (map_of (gt_app t))"
    using live_apps_expired [OF dist] by (simp add: t1)
  have out: "roster t1 (snd k) = None" if "map_of (gt_app t1) k = Some a" for k a
    using map_le_SomeD [OF le that] apps_okD [OF apps, of k a] by (simp add: t1)
  have old: "(g, p) \<in> live_apps now (map_of (gt_app t))" if "map_of (gt_app t1) (g, p) = Some a" for a
  proof -
    from that have "((g, p), a) \<in> set (gt_app t)" "\<not> expired_at now K ((g, p), a)" by (auto simp: t1 dest: map_of_SomeD)
    then have "now < ap_expire_ms a" by (force simp: expired_at_def K_def)
    with that map_le_SomeD [OF le] show ?thesis by (auto simp: live_apps_def)
  qed
  have put: "refines cap levels rules (Applied g p now) t (t1\<lparr>gt_app := A\<rparr>)"
    if "guild_at t g \<noteq> None" "loadPlayerGuild t p = None" "map_of A = (map_of (gt_app t1))((g, p) \<mapsto> a)"
      "distinct (map fst A)" "(g, p) \<in> live_apps now (map_of (gt_app t)) \<or>
        countPendingApplicationsOfPlayer t1 p now < unat (ru_MaxPerPlayer rules) \<and>
        CountLiveApplications t1 g now < unat (ru_MaxPerGuild rules)" for A a
  proof (rule refinesI [OF view_eqI roster_step.applied [of "view t" g p "gt_state t" "map_of A" a now rules]])
    show "map_of A \<subseteq>\<^sub>m (gv_app (view t))((g, p) \<mapsto> a)" using le by (simp add: that(3) map_le_upd)
    show "gv_role (view t) p = None" using that(2) by (simp add: loadPlayerGuild_roster)
  qed (use that ok countPending_live [OF dist1] CountLive_live [OF dist1 out] live in \<open>simp_all add: t1 tables_ok_def\<close>)
  have "map_of (gt_app t1 @ [((g, p), a)]) = (map_of (gt_app t1))((g, p) \<mapsto> a)" if "map_of (gt_app t1) (g, p) = None" for a
    using that by (auto simp: fun_eq_iff map_add_def split: option.split)
  moreover have "distinct (map fst (gt_app t1 @ [((g, p), a)]))" if "map_of (gt_app t1) (g, p) = None" for a :: application_row
    using that dist1 by (simp add: map_of_eq_None_iff)
  moreover have "distinct (map fst (AList.update (g, p) a (gt_app t1)))" for a
    using dist1 by (rule AList.distinct_update)
  ultimately show ?thesis unfolding ApplyToGuild_tx_def Let_def t1_def [symmetric]
    using put old by (auto simp: not_le)
qed

section \<open>Founding and the end\<close>

lemma CreateGuild_tx_ensures:
  assumes data: "new_guild_data name p now maxMembers zone = (row, [(p, m)])" and ok: "tables_ok t"
    and lv: "levels 1 = Some (c, maxMembers)"
  shows "tx_ensures (\<lambda>x. refines cap levels rules (case x of None \<Rightarrow> Quiet | Some y \<Rightarrow> Founded g p) t)
    (CreateGuild_tx g row norm (p, m) t)"
proof -
  have "refines cap levels rules (Founded g p) t t2"
    if st: "p \<in> gt_state t" and ins: "insertMember g p (gm_role m) (gm_join_time_ms m) (gm_last_active_ms m) t = Some t1"
      and new: "insertGuild g row norm (deleteApplicationsOfPlayer p [] t1) = Inr t2" for t1 t2
  proof -
    let ?r = "row\<lparr>gu_name_norm := norm, gu_score := 0, gu_funds := 0\<rparr>"
    note ins = insertMember_roster [OF ins tables_okD(1) [OF ok]]
    have t2: "guild_at t g = None" "\<And>h r. guild_at t h = Some r \<Longrightarrow> gu_name_norm r \<noteq> norm"
      "t2 = set_guilds (gd_guilds (gt_econ t) @ [(g, ?r)]) (deleteApplicationsOfPlayer p [] t1)"
      using new ins(7) by (auto simp: insertGuild_def deleteApplicationsOfPlayer_app dest!: map_of_SomeD split: if_splits)
    have mem: "roster t2 = roster t1" "uk_member t2 = uk_member t1"
      by (rule roster_cong uk_member_cong; simp add: t2(3) deleteApplicationsOfPlayer_app)+
    have at: "guild_at t2 = (guild_at t)(g \<mapsto> ?r)"
      using t2(1) by (auto simp: t2(3) fun_eq_iff map_add_def split: option.split)
    have step: "roster_step cap levels rules (Founded g p) (view t)
        \<lparr>gv_guild = (gv_guild (view t))(g \<mapsto> ?r), gv_role = (gv_role (view t))(p \<mapsto> (g, RoleLeader)), gv_state = gt_state t,
         gv_app = gv_app (view t) |` {k. snd k \<noteq> p}\<rparr>"
      using st ins(2) t2(1,2) lv by (intro roster_step.founded [where c = c]) (use data in \<open>auto simp: new_guild_data_def\<close>)
    show ?thesis
    proof (rule refinesI [OF view_eqI step])
      show "tables_ok t2" using mem ins ok t2(1)
        unfolding tables_ok_def by (simp add: t2(3) deleteApplicationsOfPlayer_app distinct_map_filter map_of_eq_None_iff)
    qed (use at mem ins map_of_filter_keys [of "{k. snd k \<noteq> p}" "gt_app t"] data in
          \<open>auto simp: t2(3) deleteApplicationsOfPlayer_app new_guild_data_def\<close>)
  qed
  then show ?thesis by (auto simp: CreateGuild_tx_def split: option.split)
qed

lemma refines_columns:
  assumes "tables_ok t" and "guild_at t g = Some row" and "row_keeps levels row row'"
  shows "refines cap levels rules Quiet t (set_guilds (AList.update g row' (gd_guilds (gt_econ t))) t)"
  unfolding refines_def using assms
  by (intro conjI roster_step.quiet)
    (auto simp: tables_ok_def AList.distinct_update option.rel_refl_strong row_keeps_def)

lemma UpdateAnnouncement_refines:
  assumes "runTxBody t (UpdateAnnouncement_tx g p announcement t) = (res, t')" and ok: "tables_ok t"
  shows "refines cap levels rules Quiet t t'"
proof -
  have "tx_ensures (\<lambda>x. refines cap levels rules Quiet t) (UpdateAnnouncement_tx g p announcement t)"
    using refines_columns [OF ok] by (auto simp: UpdateAnnouncement_tx_def Let_def row_keeps_def split: option.split)
  from runTxBody_refines [OF assms(1) this] ok show ?thesis by simp
qed

lemma UpdateGuildScore_refines:
  assumes "runTxBody t (UpdateGuildScore_tx g score t) = (res, t')" and ok: "tables_ok t"
  shows "refines cap levels rules Quiet t t'"
proof -
  have "tx_ensures (\<lambda>x. refines cap levels rules Quiet t) (UpdateGuildScore_tx g score t)"
    using refines_columns [OF ok] by (auto simp: UpdateGuildScore_tx_def row_keeps_def)
  from runTxBody_refines [OF assms(1) this] ok show ?thesis by simp
qed

lemma deleteMembers_all:
  assumes "uk_member t" "distinct ids" "\<And>p. p \<in> set ids \<Longrightarrow> p \<in> in_guild (roster t) g"
  shows "\<exists>ms. deleteMembers g ids t = Inr (set_members ms t) \<and> uk_member (set_members ms t)
    \<and> roster (set_members ms t) = (\<lambda>p. if p \<in> set ids then None else roster t p)"
  using assms
proof (induction ids arbitrary: t)
  case Nil
  show ?case using Nil.prems(1) by (intro exI [of _ "members_of t"]) simp
next
  case (Cons p ids)
  from Cons.prems(3) [of p] obtain r where "roster t p = Some (g, r)" by (auto simp: in_guild_def)
  then have m: "member_at t (g, p) \<noteq> None" using roster_member [OF Cons.prems(1)] by auto
  define t1 where "t1 = set_members (AList.delete (g, p) (members_of t)) t"
  from m have del: "deleteMember g p t = (1, t1)" by (simp add: deleteMember_def t1_def)
  note one = deleteMember_one(2,3) [OF del Cons.prems(1)]
  from Cons.prems(2,3) one have "q \<in> set ids \<Longrightarrow> q \<in> in_guild (roster t1) g" for q
    by (auto simp: in_guild_def)
  from Cons.IH [OF one(1) _ this] Cons.prems(2) obtain ms where
    "deleteMembers g ids t1 = Inr (set_members ms t1)" "uk_member (set_members ms t1)"
    "roster (set_members ms t1) = (\<lambda>p. if p \<in> set ids then None else roster t1 p)" by auto
  with del one(2) show ?case by (intro exI [of _ ms]) (auto simp: execExactlyOneRow_def t1_def fun_eq_iff)
qed

lemma roster_without:
  "set ids = in_guild R g \<Longrightarrow> (\<lambda>p. if p \<in> set ids then None else R p) = remove_guild R g"
  by (auto simp: fun_eq_iff remove_guild_def in_guild_def split: option.split)

lemma applicationKeys_disband:
  "filter (\<lambda>r. fst r \<notin> set (applicationKeysOfGuild t g @ applicationKeysOfPlayers t ids)) (gt_app t) =
     filter (\<lambda>r. fst r \<in> {k. fst k \<noteq> g \<and> snd k \<notin> set ids}) (gt_app t)"
  by (rule filter_cong) (force simp: applicationKeysOfGuild_def applicationKeysOfPlayers_def image_iff)+

text \<open>The whole transaction, once the leader asks and every member has a state row.\<close>

lemma DisbandGuild_tx_commits:
  assumes ok: "tables_ok t" and row: "guild_at t g = Some row" "gu_leader_id row = actor"
    and rows: "in_guild (roster t) g \<subseteq> gt_state t" and now: "now \<noteq> 0"
  obtains t' where "DisbandGuild_tx g actor now t = Commit (gu_zone_id row, readMemberIDs t g) t'"
    "refines cap levels rules (Disbanded g actor) t t'"
proof -
  note uk = tables_okD(1) [OF ok]
  define ids where "ids = readMemberIDs t g"
  have ids: "set ids = in_guild (roster t) g" "distinct ids"
    using readMemberIDs_roster [OF uk, of g] by (simp_all add: ids_def in_guild_def)
  then have lock: "lockAllMembers t g = Inr ids"
    using rows lockMemberRole_roster [OF uk, of g] by (force simp: lockAllMembers_def Let_def ids_def [symmetric] in_guild_def)
  have "p \<in> set ids \<Longrightarrow> p \<in> in_guild (roster t) g" for p using ids by simp
  from deleteMembers_all [OF uk ids(2) this] obtain ms where del: "deleteMembers g ids t = Inr (set_members ms t)"
    "uk_member (set_members ms t)" "roster (set_members ms t) = remove_guild (roster t) g"
    unfolding roster_without [OF ids(1)] by blast
  define t2 where "t2 = deleteApplicationRows (applicationKeysOfGuild (set_members ms t) g
    @ applicationKeysOfPlayers (set_members ms t) ids) (set_members ms t)"
  have t2: "t2 = (set_members ms t)\<lparr>gt_app := filter (\<lambda>r. fst r \<in> {k. fst k \<noteq> g \<and> snd k \<notin> set ids}) (gt_app t)\<rparr>"
    using applicationKeys_disband [of "set_members ms t" g ids] by (simp add: t2_def deleteApplicationRows_filter)
  from now obtain t3 where acc: "accelerate_try g ids now t2 = Inr t3"
    by (auto simp: accelerate_try_def accelerateDonationDeadlines_def)
  from accelerate_try_Inr [OF acc] obtain ops where t3: "t3 = t2\<lparr>gt_econ := (gt_econ t2)\<lparr>gd_op := ops\<rparr>\<rparr>" by blast
  define t4 where "t4 = deleteGuildTrialBattles g (deleteGuildActivityProgress g t3)"
  have t4: "gd_guilds (gt_econ t4) = gd_guilds (gt_econ t)" "gt_state t4 = gt_state t" "gt_app t4 = gt_app t2"
    "members_of t4 = ms"
    by (simp_all add: t4_def deleteGuildTrialBattles_def deleteGuildActivityProgress_def t3 t2)
  define t' where "t' = set_guilds (AList.delete g (gd_guilds (gt_econ t))) t4"
  have gone: "deleteGuild g t4 = (1, t')" using row by (simp add: deleteGuild_def t4(1) t'_def)
  have "DisbandGuild_tx g actor now t = Commit (gu_zone_id row, ids) t'"
    using row lock del(1) acc gone
    by (simp add: DisbandGuild_tx_def lockGuildRow_def tx_try_def t2_def [symmetric] t4_def [symmetric] Let_def)
  moreover have "refines cap levels rules (Disbanded g actor) t t'"
  proof (rule refinesI [OF view_eqI roster_step.disbanded [of "view t" g row actor "gt_state t"]])
    have mem: "roster t' = roster (set_members ms t)" "uk_member t' = uk_member (set_members ms t)"
      by (rule roster_cong uk_member_cong; simp add: t'_def t4)+
    show "roster t' = gv_role \<lparr>gv_guild = (gv_guild (view t))(g := None), gv_role = remove_guild (gv_role (view t)) g,
       gv_state = gt_state t, gv_app = gv_app (view t) |` {k. fst k \<noteq> g \<and> snd k \<notin> in_guild (gv_role (view t)) g}\<rparr>"
      using mem del by simp
    show "tables_ok t'" using mem del ok unfolding tables_ok_def
      by (simp add: t'_def t4 t2 distinct_map_filter AList.distinct_delete)
  qed (use row map_of_filter_keys [of "{k. fst k \<noteq> g \<and> snd k \<notin> set ids}" "gt_app t"] in
      \<open>simp_all add: t'_def t4 t2 ids\<close>)
  ultimately show ?thesis using that by (simp add: ids_def)
qed

lemma DisbandGuild_tx_ensures:
  assumes ok: "tables_ok t"
  shows "tx_ensures (\<lambda>x. refines cap levels rules (case x of None \<Rightarrow> Quiet | Some y \<Rightarrow> Disbanded g actor) t)
    (DisbandGuild_tx g actor now t)"
proof (cases "\<exists>row. guild_at t g = Some row \<and> gu_leader_id row = actor \<and> in_guild (roster t) g \<subseteq> gt_state t \<and> now \<noteq> 0")
  case True
  then obtain row where "guild_at t g = Some row" "gu_leader_id row = actor" "in_guild (roster t) g \<subseteq> gt_state t" "now \<noteq> 0"
    by blast
  from DisbandGuild_tx_commits [OF ok this] obtain t' where
    "DisbandGuild_tx g actor now t = Commit (gu_zone_id row, readMemberIDs t g) t'"
    "refines cap levels rules (Disbanded g actor) t t'" .
  then show ?thesis by simp
next
  case False
  have "set (readMemberIDs t g) = in_guild (roster t) g"
    using readMemberIDs_roster [OF tables_okD(1) [OF ok], of g] by (simp add: in_guild_def)
  then have "lockAllMembers t g = Inr ids \<Longrightarrow> in_guild (roster t) g \<subseteq> gt_state t" for ids
    by (auto simp: lockAllMembers_def Let_def split: if_splits)
  moreover have "now = 0 \<Longrightarrow> accelerate_try g ids now t2 \<noteq> Inr t3" for ids t2 t3
    by (simp add: accelerate_try_def accelerateDonationDeadlines_def)
  ultimately show ?thesis using False by (auto simp: DisbandGuild_tx_def Let_def)
qed

end
