(* ===== verification/GuildWorld.thy ===== *)
theory GuildWorld
  imports GuildMembersSteps GuildOutboxProps
begin

text \<open>
  Membership and economy on the same tables: what the economy leaves of the roster, the transition system
  of both services' writes together, and its invariant.
\<close>

section \<open>The economy and the roster\<close>

text \<open>Contribution columns and funds move; members, roles and guilds stay.\<close>

definition db_keeps :: "guild_db \<Rightarrow> guild_db \<Rightarrow> bool" where
  "db_keeps db db' \<longleftrightarrow>
     map (\<lambda>r. (fst r, gm_role (snd r))) (gd_members db') = map (\<lambda>r. (fst r, gm_role (snd r))) (gd_members db)
     \<and> map (\<lambda>r. (fst r, (snd r)\<lparr>gu_funds := 0\<rparr>)) (gd_guilds db') = map (\<lambda>r. (fst r, (snd r)\<lparr>gu_funds := 0\<rparr>)) (gd_guilds db)"

lemma db_keeps_refl [simp]: "db_keeps db db"
  by (simp add: db_keeps_def)

lemma db_keeps_trans: "db_keeps a b \<Longrightarrow> db_keeps b c \<Longrightarrow> db_keeps a c"
  by (simp add: db_keeps_def)

lemma db_keeps_other:
  "gd_members db' = gd_members db \<Longrightarrow> gd_guilds db' = gd_guilds db \<Longrightarrow> db_keeps db db'"
  by (simp add: db_keeps_def)

lemma keeps_update [simp]:
  "map_of al g = Some row \<Longrightarrow> map (\<lambda>r. (fst r, (snd r)\<lparr>gu_funds := 0\<rparr>)) (AList.update g (row\<lparr>gu_funds := x\<rparr>) al) =
     map (\<lambda>r. (fst r, (snd r)\<lparr>gu_funds := 0\<rparr>)) al"
  "map_of ms k = Some m \<Longrightarrow> map (\<lambda>r. (fst r, gm_role (snd r))) (AList.update k (m\<lparr>gm_balance := y\<rparr>) ms) =
     map (\<lambda>r. (fst r, gm_role (snd r))) ms"
  "map_of ms k = Some m \<Longrightarrow> map (\<lambda>r. (fst r, gm_role (snd r))) (AList.update k (m\<lparr>gm_total := z, gm_balance := y\<rparr>) ms) =
     map (\<lambda>r. (fst r, gm_role (snd r))) ms"
  by (auto intro: map_AList_update)

lemma creditFunds_keeps: "creditFunds db g n = Inr db' \<Longrightarrow> db_keeps db db'"
  by (auto simp: creditFunds_def db_keeps_def split: option.splits)

lemma creditContribution_keeps: "creditContribution w db g p n = Inr db' \<Longrightarrow> db_keeps db db'"
  by (auto simp: creditContribution_def db_keeps_def split: option.splits)

lemma debitContribution_keeps: "debitContribution db g p n = Some db' \<Longrightarrow> db_keeps db db'"
  by (auto simp: debitContribution_def db_keeps_def split: option.splits if_splits)

lemma refundCounter_keeps: "db_keeps db (refundCounter db row kind n)"
  by (rule db_keeps_other) (auto simp: refundCounter_def Let_def split: option.splits)

lemma cas_op_keeps: "cas_op opID cond f db = Some db' \<Longrightarrow> db_keeps db db'"
  by (rule db_keeps_other) (auto elim!: cas_op_Some)

lemma applyCounterparty_keeps:
  assumes "applyCounterparty db row status locks = Inr (db', orphan)"
  shows "db_keeps db db'"
proof (cases "status = StatusAppliedPartial")
  case True
  with assms show ?thesis by (simp add: applyCounterparty_def)
next
  case False
  have refund: "db_keeps db d \<Longrightarrow> db_keeps db (case counterRefund row status of None \<Rightarrow> d | Some (kind, n) \<Rightarrow> refundCounter d row kind n)" for d
    using db_keeps_trans refundCounter_keeps by (auto split: option.split)
  from assms False refund show ?thesis unfolding applyCounterparty_def Let_def
    by (cases "ar_kind row")
      (auto split: if_splits sum.splits dest!: creditFunds_keeps creditContribution_keeps intro: db_keeps_trans)
qed

lemma terminate_keeps: "terminate db0 db opID status cond f = Inr (db', hit) \<Longrightarrow> db_keeps db db'"
  by (auto simp: terminate_def Let_def split: option.splits sum.splits
      dest!: cas_op_keeps applyCounterparty_keeps intro: db_keeps_trans)

lemma reserve_parts_keep:
  "ensureSeqRowTx db p st now = Inr db' \<Longrightarrow> db_keeps db db'"
  "allocateTx db p st = Inr (alloc, db') \<Longrightarrow> db_keeps db db'"
  "insertAssetOp db rec = Inr db' \<Longrightarrow> db_keeps db db'"
  "upsertCounterWithLimit db key n limit = Some db' \<Longrightarrow> db_keeps db db'"
  "insertClientRequestTx db p req opID = Inr db' \<Longrightarrow> db_keeps db db'"
  by (auto simp: ensureSeqRowTx_def allocateTx_def insertAssetOp_def upsertCounterWithLimit_def insertClientRequestTx_def
      Let_def split: if_splits option.splits sum.splits intro!: db_keeps_other)

lemma ReserveDonation_keeps: "ReserveDonation db i = Inr (db', alloc) \<Longrightarrow> db_keeps db db'"
  by (auto simp: ReserveDonation_def split: if_splits option.splits sum.splits
      dest!: reserve_parts_keep) (simp add: db_keeps_def)

lemma ReserveShopOrder_keeps: "ReserveShopOrder db i = Inr (db', alloc, after) \<Longrightarrow> db_keeps db db'"
  by (auto simp: ReserveShopOrder_def split: if_splits option.splits sum.splits
      dest!: reserve_parts_keep debitContribution_keeps) (simp_all add: db_keeps_def)

lemma accelerate_keeps: "accelerateDonationDeadlines db g ps now = Some db' \<Longrightarrow> db_keeps db db'"
proof -
  have "db_keeps d (fold (\<lambda>opID d. case cas_op opID (accelerate_cond now) (accelerate_set now) d of None \<Rightarrow> d | Some d' \<Rightarrow> d') ids d)" for ids d
  proof (induction ids arbitrary: d)
    case (Cons i ids)
    have "db_keeps d (case cas_op i (accelerate_cond now) (accelerate_set now) d of None \<Rightarrow> d | Some d' \<Rightarrow> d')"
      by (auto split: option.split intro: cas_op_keeps)
    from db_keeps_trans [OF this Cons.IH] show ?case by simp
  qed simp
  then show "accelerateDonationDeadlines db g ps now = Some db' \<Longrightarrow> db_keeps db db'"
    by (auto simp: accelerateDonationDeadlines_def split: if_splits)
qed

lemma map_of_project: "map_of (map (\<lambda>r. (fst r, f (snd r))) al) = (\<lambda>k. map_option f (map_of al k))"
  by (induction al) (auto simp: fun_eq_iff)

lemma db_keeps_refines:
  assumes keeps: "db_keeps (gt_econ t) db'" and ok: "tables_ok t"
  shows "refines cap levels rules Quiet t (t\<lparr>gt_econ := db'\<rparr>)"
proof -
  let ?F = "\<lambda>r :: (u64 \<times> u64) \<times> member_row. (fst r, gm_role (snd r))"
  have roster: "roster t = map_of (map (\<lambda>r. (snd (fst r), (fst (fst r), snd r))) (map ?F (members_of t)))"
    and uk: "uk_member t = distinct (map (snd \<circ> fst) (map ?F (members_of t)))" for t
    by (simp_all add: roster_def uk_member_def comp_def)
  have mem: "roster (t\<lparr>gt_econ := db'\<rparr>) = roster t" "uk_member (t\<lparr>gt_econ := db'\<rparr>) = uk_member t"
    using keeps by (simp_all only: roster uk db_keeps_def) simp_all
  let ?G = "\<lambda>r :: u64 \<times> guild_row. (fst r, (snd r)\<lparr>gu_funds := 0\<rparr>)"
  from keeps have gs: "map ?G (gd_guilds db') = map ?G (gd_guilds (gt_econ t))" by (simp add: db_keeps_def)
  then have "map fst (map ?G (gd_guilds db')) = map fst (map ?G (gd_guilds (gt_econ t)))" by (simp only:)
  then have keys: "map fst (gd_guilds db') = map fst (gd_guilds (gt_econ t))" by (simp add: comp_def)
  have "map_option (\<lambda>r. r\<lparr>gu_funds := 0\<rparr>) (gd_guild db' g) = map_option (\<lambda>r. r\<lparr>gu_funds := 0\<rparr>) (guild_at t g)" for g
    using arg_cong [OF gs, of "\<lambda>al. map_of al g"] by (simp only: map_of_project)
  moreover have keep: "row_keeps levels r r'" if "r'\<lparr>gu_funds := 0\<rparr> = r\<lparr>gu_funds := 0\<rparr>" for r r' :: guild_row
    using that by (cases r; cases r') (simp add: row_keeps_def)
  ultimately have rows: "rel_option (row_keeps levels) (guild_at t g) (gd_guild db' g)" for g
    by (cases "guild_at t g"; cases "gd_guild db' g") (metis option.simps(8,9) option.distinct(1) option.inject option.rel_intros)+
  show ?thesis unfolding refines_def using ok mem keys rows
    by (auto simp: tables_ok_def intro!: roster_step.quiet)
qed

lemma UpgradeGuild_refines:
  assumes "UpgradeGuild levels (gt_econ t) g p expected = Inr (db', changed, level)" and ok: "tables_ok t"
  shows "refines cap levels rules Quiet t (t\<lparr>gt_econ := db'\<rparr>)"
proof (cases changed)
  case False
  with assms show ?thesis by (auto simp: UpgradeGuild_def refines_quiet split: option.splits if_splits)
next
  case True
  with assms(1) obtain row c m where u: "guild_at t g = Some row" "levels (gu_level row + 1) = Some (c, m)"
    "db' = (gt_econ t)\<lparr>gd_guilds := AList.update g (row\<lparr>gu_level := gu_level row + 1,
       gu_funds := gu_funds row - fst (the (levels (gu_level row))), gu_max_members := m\<rparr>) (gd_guilds (gt_econ t))\<rparr>"
    by (auto simp: UpgradeGuild_def split: option.splits if_splits)
  then show ?thesis using refines_columns [OF ok u(1), of levels "row\<lparr>gu_level := gu_level row + 1,
       gu_funds := gu_funds row - fst (the (levels (gu_level row))), gu_max_members := m\<rparr>"] by (simp add: row_keeps_def)
qed

lemma econ_step_refines:
  assumes step: "econ_step limit_of levels s s'" and s: "gs_db s = gt_econ t" and ok: "tables_ok t"
  shows "refines cap levels rules Quiet t (t\<lparr>gt_econ := gs_db s'\<rparr>)"
  using step
proof (cases rule: econ_step.cases)
  case (upgrade guild player expected db' changed level spent)
  then show ?thesis using UpgradeGuild_refines [OF _ ok] s by simp
qed (use s ok in \<open>auto simp: Reschedule_def ReleaseLease_def Finalize_def ResolveManually_def ResolveManuallyIfQuiet_def
    Abandon_def markPoison_def refines_quiet intro!: db_keeps_refines split: if_splits option.splits sum.splits
    dest: cas_op_keeps terminate_keeps ReserveDonation_keeps ReserveShopOrder_keeps accelerate_keeps\<close>)

section \<open>The transition system\<close>

text \<open>The tables, what upgrades spent, and the time of the latest application.  Each rule is one transaction of
  either service, so the statements a handler runs outside its transaction (creating state rows, deleting
  expired applications) interleave with everything else.  The label is the event the caller is told.\<close>

record guild_world =
  gw_tables :: guild_tables
  gw_spent :: "u64 \<Rightarrow> nat"
  gw_clock :: u64

abbreviation books :: "guild_world \<Rightarrow> guild_sys" where
  "books w \<equiv> \<lparr>gs_db = gt_econ (gw_tables w), gs_spent = gw_spent w\<rparr>"

inductive world_step ::
  "(u32 \<Rightarrow> u32 option) \<Rightarrow> (u32 \<Rightarrow> (u64 \<times> u32) option) \<Rightarrow> (counter_key \<Rightarrow> u32) \<Rightarrow> ApplicationRules
     \<Rightarrow> guild_event \<Rightarrow> guild_world \<Rightarrow> guild_world \<Rightarrow> bool"
  for cap levels limit_of rules where
  found: "new_guild_data name p now maxMembers zone = (row, [(p, m)]) \<Longrightarrow> levels 1 = Some (c, maxMembers)
    \<Longrightarrow> \<forall>r \<in> set (gd_op (gt_econ (gw_tables w))). ar_guild_id r \<noteq> g
    \<Longrightarrow> runTxBody (gw_tables w) (CreateGuild_tx g row norm (p, m) (gw_tables w)) = (Inr (), t')
    \<Longrightarrow> world_step cap levels limit_of rules (Founded g p) w (w\<lparr>gw_tables := t', gw_spent := (gw_spent w)(g := 0)\<rparr>)"
| set_role: "SetMemberRole cap g actor target role (gw_tables w) = (res, t')
    \<Longrightarrow> world_step cap levels limit_of rules (event_of (RoleSet g actor target role) (answer res)) w (w\<lparr>gw_tables := t'\<rparr>)"
| transfer: "TransferLeader cap g actor target (gw_tables w) = (res, t')
    \<Longrightarrow> world_step cap levels limit_of rules (event_of (Transferred g actor target) (answer res)) w (w\<lparr>gw_tables := t'\<rparr>)"
| kick: "runTxBody (gw_tables w) (KickMember_tx g actor target now (gw_tables w)) = (res, t')
    \<Longrightarrow> world_step cap levels limit_of rules (event_of (Kicked g actor target) (answer res)) w (w\<lparr>gw_tables := t'\<rparr>)"
| leave: "runTxBody (gw_tables w) (LeaveGuild_tx g p now (gw_tables w)) = (res, t')
    \<Longrightarrow> world_step cap levels limit_of rules (event_of (Left g p) (answer res)) w (w\<lparr>gw_tables := t'\<rparr>)"
| apply_to: "runTxBody (gw_tables w) (ApplyToGuild_tx zones g p zone now rules (gw_tables w)) = (res, t')
    \<Longrightarrow> gw_clock w \<le> now
    \<Longrightarrow> world_step cap levels limit_of rules (case answer res of None \<Rightarrow> Quiet | Some _ \<Rightarrow> Applied g p now) w
          (w\<lparr>gw_tables := t', gw_clock := now\<rparr>)"
| cancel: "runTxBody (gw_tables w) (CancelApplication_tx g p now (gw_tables w)) = (res, t')
    \<Longrightarrow> world_step cap levels limit_of rules Quiet w (w\<lparr>gw_tables := t'\<rparr>)"
| review: "runTxBody (gw_tables w) (ReviewApplication_tx zones g actor p approve zone now (gw_tables w)) = (res, t')
    \<Longrightarrow> world_step cap levels limit_of rules (event_of (Accepted g actor p now) (answer res)) w (w\<lparr>gw_tables := t'\<rparr>)"
| disband: "runTxBody (gw_tables w) (DisbandGuild_tx g actor now (gw_tables w)) = (res, t')
    \<Longrightarrow> world_step cap levels limit_of rules (case answer res of None \<Rightarrow> Quiet | Some _ \<Rightarrow> Disbanded g actor) w
          (w\<lparr>gw_tables := t'\<rparr>)"
| announce: "runTxBody (gw_tables w) (UpdateAnnouncement_tx g p announcement (gw_tables w)) = (res, t')
    \<Longrightarrow> world_step cap levels limit_of rules Quiet w (w\<lparr>gw_tables := t'\<rparr>)"
| score: "runTxBody (gw_tables w) (UpdateGuildScore_tx g points (gw_tables w)) = (res, t')
    \<Longrightarrow> world_step cap levels limit_of rules Quiet w (w\<lparr>gw_tables := t'\<rparr>)"
| ensure_rows: "ensurePlayerStateRows (gw_tables w) ids = Inr t'
    \<Longrightarrow> world_step cap levels limit_of rules Quiet w (w\<lparr>gw_tables := t'\<rparr>)"
| purge: "world_step cap levels limit_of rules Quiet w
    (w\<lparr>gw_tables := purgeExpiredApplicationsOfGuild g now (gw_tables w)\<rparr>)"
| economy: "econ_step limit_of levels (books w) s'
    \<Longrightarrow> world_step cap levels limit_of rules Quiet w
          (w\<lparr>gw_tables := (gw_tables w)\<lparr>gt_econ := gs_db s'\<rparr>, gw_spent := gs_spent s'\<rparr>)"

definition empty_tables :: guild_tables where
  "empty_tables = \<lparr>gt_econ = empty_db, gt_state = {}, gt_app = [], gt_progress = [], gt_trial = []\<rparr>"

inductive world_reachable ::
  "(u32 \<Rightarrow> u32 option) \<Rightarrow> (u32 \<Rightarrow> (u64 \<times> u32) option) \<Rightarrow> (counter_key \<Rightarrow> u32) \<Rightarrow> ApplicationRules \<Rightarrow> guild_world \<Rightarrow> bool"
  for cap levels limit_of rules where
  init: "world_reachable cap levels limit_of rules \<lparr>gw_tables = empty_tables, gw_spent = \<lambda>_. 0, gw_clock = 0\<rparr>"
| step: "world_reachable cap levels limit_of rules w \<Longrightarrow> world_step cap levels limit_of rules e w w'
    \<Longrightarrow> world_reachable cap levels limit_of rules w'"

text \<open>Every transaction refines the specification.\<close>

lemma world_step_refines:
  assumes "world_step cap levels limit_of rules e w w'" and ok: "tables_ok (gw_tables w)" and apps: "apps_ok (view (gw_tables w))"
  shows "refines cap levels rules e (gw_tables w) (gw_tables w')"
  using assms(1)
proof (cases rule: world_step.cases)
  case (found name p now maxMembers zone row m c g norm t')
  from runTxBody_refines [OF found(6) CreateGuild_tx_ensures [OF found(3) ok, where levels = levels]] found ok
  show ?thesis by simp
next
  case (set_role g actor target role res t')
  then show ?thesis using SetMemberRole_refines [OF set_role(3) ok] by simp
next
  case (transfer g actor target res t')
  then show ?thesis using TransferLeader_refines [OF transfer(3) ok] by simp
next
  case (kick g actor target now res t')
  then show ?thesis using runTxBody_refines [OF kick(3) KickMember_tx_ensures [OF ok]] ok by simp
next
  case (leave g p now res t')
  then show ?thesis using runTxBody_refines [OF leave(3) LeaveGuild_tx_ensures [OF ok]] ok by simp
next
  case (apply_to zones g p zone now res t')
  then show ?thesis using runTxBody_refines [OF apply_to(3) ApplyToGuild_tx_ensures [OF ok apps]] ok by simp
next
  case (cancel g p now res t')
  then show ?thesis using CancelApplication_refines [OF cancel(3) ok] by simp
next
  case (review zones g actor p approve zone now res t')
  then show ?thesis using runTxBody_refines [OF review(3) ReviewApplication_tx_ensures [OF ok]] ok by simp
next
  case (disband g actor now res t')
  then show ?thesis using runTxBody_refines [OF disband(3) DisbandGuild_tx_ensures [OF ok]] ok by simp
next
  case (announce g p announcement res t')
  then show ?thesis using UpdateAnnouncement_refines [OF announce(3) ok] by simp
next
  case (score g points res t')
  then show ?thesis using UpdateGuildScore_refines [OF score(3) ok] by simp
next
  case (ensure_rows ids t')
  then show ?thesis using ensure_refines [OF ensure_rows(3) ok] by simp
next
  case (purge g now)
  then show ?thesis using purge_refines [OF ok] by simp
next
  case (economy s')
  then show ?thesis using econ_step_refines [OF economy(3) _ ok] by simp
qed

lemma world_inv:
  assumes "world_reachable cap levels limit_of rules w" and tab: "level_table cap levels"
  shows "tables_ok (gw_tables w) \<and> view_inv cap levels (view (gw_tables w))"
  using assms(1)
proof (induction rule: world_reachable.induct)
  case init
  show ?case by (simp add: tables_ok_def uk_member_def empty_tables_def empty_db_def view_inv_def roster_ok_def roster_def
        apps_ok_def names_ok_def)
next
  case (step w e w')
  then have "refines cap levels rules e (gw_tables w) (gw_tables w')"
    by (intro world_step_refines) (auto simp: view_inv_def)
  then show ?case using step.IH view_inv_step [OF _ _ tab] by (auto simp: refines_def)
qed

section \<open>Seen from the economy\<close>

text \<open>A transaction of the membership as steps of the economy's system.\<close>

definition books_run ::
  "(counter_key \<Rightarrow> u32) \<Rightarrow> (u32 \<Rightarrow> (u64 \<times> u32) option) \<Rightarrow> (u64 \<Rightarrow> nat) \<Rightarrow> guild_tables \<Rightarrow> guild_tables \<Rightarrow> bool" where
  "books_run limit_of levels sp t t' \<longleftrightarrow>
     (guild_step limit_of levels)\<^sup>*\<^sup>* \<lparr>gs_db = gt_econ t, gs_spent = sp\<rparr> \<lparr>gs_db = gt_econ t', gs_spent = sp\<rparr>"

lemma books_same: "gt_econ t' = gt_econ t \<Longrightarrow> books_run limit_of levels sp t t'"
  by (simp add: books_run_def)

lemma books_trans: "books_run limit_of levels sp a b \<Longrightarrow> books_run limit_of levels sp b c \<Longrightarrow> books_run limit_of levels sp a c"
  by (simp add: books_run_def)

lemma books_members: "gt_econ t' = (gt_econ t)\<lparr>gd_members := ms\<rparr> \<Longrightarrow> books_run limit_of levels sp t t'"
  using guild_step.membership [of limit_of levels "\<lparr>gs_db = gt_econ t, gs_spent = sp\<rparr>" ms] by (simp add: books_run_def)

lemma books_columns:
  "guild_at t g = Some row \<Longrightarrow> gu_funds row' = gu_funds row
    \<Longrightarrow> books_run limit_of levels sp t (set_guilds (AList.update g row' (gd_guilds (gt_econ t))) t)"
  using guild_step.columns [of "\<lparr>gs_db = gt_econ t, gs_spent = sp\<rparr>" g row row' limit_of levels] by (simp add: books_run_def)

lemma books_delete: "books_run limit_of levels sp t (set_guilds (AList.delete g (gd_guilds (gt_econ t))) t)"
  using guild_step.dissolve [of limit_of levels "\<lparr>gs_db = gt_econ t, gs_spent = sp\<rparr>" g] by (simp add: books_run_def)

lemma books_accelerate: "accelerate_try g ps now t = Inr t' \<Longrightarrow> books_run limit_of levels sp t t'"
  using guild_step.economy [OF econ_step.accelerate [of "\<lparr>gs_db = gt_econ t, gs_spent = sp\<rparr>" g ps now]]
  by (auto simp: books_run_def accelerate_try_def split: option.splits)

lemma books_updateMemberRole: "books_run limit_of levels sp t (snd (updateMemberRole role g p t))"
  by (cases "member_at t (g, p)") (auto simp: updateMemberRole_def intro: books_same books_members)

lemma books_updateMemberRole': "updateMemberRole role g p t = (n, t') \<Longrightarrow> books_run limit_of levels sp t t'"
  using books_updateMemberRole [of limit_of levels sp t role g p] by simp

lemma books_updateLeader: "updateLeader p g t = (n, t') \<Longrightarrow> books_run limit_of levels sp t t'"
  by (auto simp: updateLeader_def intro: books_same books_columns split: option.splits)

lemma books_deleteMember: "deleteMember g p t = (n, t') \<Longrightarrow> books_run limit_of levels sp t t'"
  by (auto simp: deleteMember_def intro: books_same books_members split: if_splits)

lemma books_insertMember: "insertMember g p role j a t = Some t' \<Longrightarrow> books_run limit_of levels sp t t'"
  by (auto simp: insertMember_def intro: books_members split: if_splits)

lemma books_deleteMembers: "deleteMembers g ids t = Inr t' \<Longrightarrow> books_run limit_of levels sp t t'"
  by (induction g ids t rule: deleteMembers.induct)
    (auto intro: books_same books_trans books_deleteMember split: sum.splits)

lemma books_deleteGuild: "deleteGuild g t = (n, t') \<Longrightarrow> books_run limit_of levels sp t t'"
  by (auto simp: deleteGuild_def intro: books_same books_delete split: if_splits)

lemma books_apps:
  "books_run limit_of levels sp t (deleteApplicationsOfPlayer p also t)" "books_run limit_of levels sp t (deleteApplication k t)"
  "books_run limit_of levels sp t (deleteApplicationRows ks t)" "books_run limit_of levels sp t (t\<lparr>gt_app := A\<rparr>)"
  "books_run limit_of levels sp t (deleteGuildTrialBattles g (deleteGuildActivityProgress g t))"
  by (simp_all add: deleteApplicationsOfPlayer_app deleteApplication_def deleteApplicationRows_filter
      deleteGuildTrialBattles_def deleteGuildActivityProgress_def books_same)

lemma econ_deleteExpired: "gt_econ (fold (deleteExpiredApplication now) ks t) = gt_econ t"
  by (induction ks arbitrary: t) (auto simp: deleteExpiredApplication_def deleteApplication_def split: option.split)

lemma runTxBody_books:
  "runTxBody t x = (res, t') \<Longrightarrow> tx_ensures (\<lambda>_. books_run limit_of levels sp t) x \<Longrightarrow> books_run limit_of levels sp t t'"
  by (cases x) (auto simp: runTxBody_def books_same)

lemma SetMemberRole_books:
  "SetMemberRole cap g actor target role t = (res, t') \<Longrightarrow> books_run limit_of levels sp t t'"
proof -
  have "tx_ensures (\<lambda>_. books_run limit_of levels sp t) (SetMemberRole_tx cap g actor target role t)"
    by (auto simp: SetMemberRole_tx_def intro: books_same books_updateMemberRole')
  then show "SetMemberRole cap g actor target role t = (res, t') \<Longrightarrow> books_run limit_of levels sp t t'"
    using runTxBody_books by (auto simp: SetMemberRole_def books_same split: if_splits)
qed

lemma TransferLeader_books:
  "TransferLeader cap g actor target t = (res, t') \<Longrightarrow> books_run limit_of levels sp t t'"
proof -
  have "tx_ensures (\<lambda>_. books_run limit_of levels sp t) (TransferLeader_tx cap g actor target t)"
    unfolding TransferLeader_tx_def Let_def
    by (auto split: option.split intro!: books_trans [OF books_updateLeader books_trans [OF books_updateMemberRole books_updateMemberRole]])
  then show "TransferLeader cap g actor target t = (res, t') \<Longrightarrow> books_run limit_of levels sp t t'"
    using runTxBody_books by (auto simp: TransferLeader_def books_same split: if_splits)
qed

lemma tx_books:
  "tx_ensures (\<lambda>_. books_run limit_of levels sp t) (KickMember_tx g actor target now t)"
  "tx_ensures (\<lambda>_. books_run limit_of levels sp t) (LeaveGuild_tx g p now t)"
  "tx_ensures (\<lambda>_. books_run limit_of levels sp t) (ReviewApplication_tx zones g actor p approve zone now t)"
  "tx_ensures (\<lambda>_. books_run limit_of levels sp t) (CancelApplication_tx g p now t)"
  "tx_ensures (\<lambda>_. books_run limit_of levels sp t) (UpdateAnnouncement_tx g p announcement t)"
  "tx_ensures (\<lambda>_. books_run limit_of levels sp t) (UpdateGuildScore_tx g points t)"
  by (auto simp: UpdateGuildScore_tx_def KickMember_tx_def LeaveGuild_tx_def ReviewApplication_tx_def CancelApplication_tx_def UpdateAnnouncement_tx_def
      Let_def deleteExpiredApplication_def split: option.split
      intro: books_trans [OF books_deleteMember books_trans [OF books_apps(1) books_accelerate]] books_same books_apps
        books_trans [OF books_insertMember books_apps(1)] books_columns)

lemma ApplyToGuild_books: "tx_ensures (\<lambda>_. books_run limit_of levels sp t) (ApplyToGuild_tx zones g p zone now rules t)"
  by (auto simp: ApplyToGuild_tx_def Let_def purgeExpiredApplicationsOfPlayer_def econ_deleteExpired intro!: books_same)

lemma DisbandGuild_books: "tx_ensures (\<lambda>_. books_run limit_of levels sp t) (DisbandGuild_tx g actor now t)"
proof -
  have "books_run limit_of levels sp t t'"
    if "deleteMembers g ids t = Inr t1" "accelerate_try g ids now (deleteApplicationRows ks t1) = Inr t3"
      "deleteGuild g (deleteGuildTrialBattles g (deleteGuildActivityProgress g t3)) = (n, t')" for ids t1 ks t3 n t'
    using books_trans [OF books_deleteMembers [OF that(1)] books_trans [OF books_apps(3) books_trans [OF books_accelerate [OF that(2)]
      books_trans [OF books_apps(5) books_deleteGuild [OF that(3)]]]]] .
  then show ?thesis unfolding DisbandGuild_tx_def Let_def by (auto simp: prod_eq_iff)
qed

lemma AList_update_new: "map_of al k = None \<Longrightarrow> AList.update k v al = al @ [(k, v)]"
  by (induction al) (auto split: if_splits)

lemma CreateGuild_books:
  assumes "runTxBody t (CreateGuild_tx g row norm (p, m) t) = (Inr (), t')"
    and "\<forall>r \<in> set (gd_op (gt_econ t)). ar_guild_id r \<noteq> g"
  shows "(guild_step limit_of levels)\<^sup>*\<^sup>* \<lparr>gs_db = gt_econ t, gs_spent = sp\<rparr> \<lparr>gs_db = gt_econ t', gs_spent = sp(g := 0)\<rparr>"
proof -
  let ?row = "row\<lparr>gu_name_norm := norm, gu_score := 0, gu_funds := 0\<rparr>"
  from assms(1) obtain t1 where ins: "insertMember g p (gm_role m) (gm_join_time_ms m) (gm_last_active_ms m) t = Some t1"
    and new: "insertGuild g row norm (deleteApplicationsOfPlayer p [] t1) = Inr t'"
    by (auto simp: CreateGuild_tx_def runTxBody_def tx_try_def split: sum.splits option.splits tx.splits)
  let ?s = "\<lparr>gs_db = gt_econ (deleteApplicationsOfPlayer p [] t1), gs_spent = sp\<rparr>"
  have run: "(guild_step limit_of levels)\<^sup>*\<^sup>* \<lparr>gs_db = gt_econ t, gs_spent = sp\<rparr> ?s"
    using books_trans [OF books_insertMember [OF ins] books_apps(1)] by (simp add: books_run_def)
  from new have none: "gd_guild (gs_db ?s) g = None"
    and t': "gt_econ t' = (gs_db ?s)\<lparr>gd_guilds := AList.update g ?row (gd_guilds (gs_db ?s))\<rparr>"
    by (auto simp: insertGuild_def AList_update_new split: if_splits)
  have "gd_op (gs_db ?s) = gd_op (gt_econ t)"
    using ins by (auto simp: insertMember_def deleteApplicationsOfPlayer_app split: if_splits)
  then have "guild_step limit_of levels ?s \<lparr>gs_db = gt_econ t', gs_spent = sp(g := 0)\<rparr>"
    using guild_step.create [of ?s g ?row limit_of levels] none assms(2) by (simp add: t')
  with run show ?thesis by simp
qed

lemma world_step_books:
  assumes "world_step cap levels limit_of rules e w w'"
  shows "(guild_step limit_of levels)\<^sup>*\<^sup>* (books w) (books w')"
  using assms
proof (cases rule: world_step.cases)
  case (found name p now maxMembers zone row m c g norm t')
  then show ?thesis using CreateGuild_books [OF found(6,5)] by simp
next
  case (set_role g actor target role res t')
  then show ?thesis using SetMemberRole_books [OF set_role(3)] by (simp add: books_run_def)
next
  case (transfer g actor target res t')
  then show ?thesis using TransferLeader_books [OF transfer(3)] by (simp add: books_run_def)
next
  case (kick g actor target now res t')
  then show ?thesis using runTxBody_books [OF kick(3) tx_books(1)] by (simp add: books_run_def)
next
  case (leave g p now res t')
  then show ?thesis using runTxBody_books [OF leave(3) tx_books(2)] by (simp add: books_run_def)
next
  case (apply_to zones g p zone now res t')
  then show ?thesis using runTxBody_books [OF apply_to(3) ApplyToGuild_books] by (simp add: books_run_def)
next
  case (cancel g p now res t')
  then show ?thesis using runTxBody_books [OF cancel(3) tx_books(4)] by (simp add: books_run_def)
next
  case (review zones g actor p approve zone now res t')
  then show ?thesis using runTxBody_books [OF review(3) tx_books(3)] by (simp add: books_run_def)
next
  case (disband g actor now res t')
  then show ?thesis using runTxBody_books [OF disband(3) DisbandGuild_books] by (simp add: books_run_def)
next
  case (announce g p announcement res t')
  then show ?thesis using runTxBody_books [OF announce(3) tx_books(5)] by (simp add: books_run_def)
next
  case (score g points res t')
  then show ?thesis using runTxBody_books [OF score(3) tx_books(6)] by (simp add: books_run_def)
next
  case (ensure_rows ids t')
  then show ?thesis by (auto simp: ensure_Inr)
next
  case (purge g now)
  then show ?thesis by (simp add: purgeExpiredApplicationsOfGuild_def econ_deleteExpired)
next
  case (economy s')
  then show ?thesis using guild_step.economy [OF economy(3)] by (cases s') auto
qed

lemma guild_reachable_steps:
  "(guild_step limit_of levels)\<^sup>*\<^sup>* s s' \<Longrightarrow> guild_reachable limit_of levels s \<Longrightarrow> guild_reachable limit_of levels s'"
  by (induction rule: rtranclp_induct) (auto intro: guild_reachable.step)

lemma world_books_reachable:
  "world_reachable cap levels limit_of rules w \<Longrightarrow> guild_reachable limit_of levels (books w)"
proof (induction rule: world_reachable.induct)
  case init
  show ?case using guild_reachable.init by (simp add: empty_tables_def)
next
  case (step w e w')
  show ?case using guild_reachable_steps [OF world_step_books [OF step.hyps(2)] step.IH] .
qed

section \<open>Application limits\<close>

definition limits_ok :: "ApplicationRules \<Rightarrow> guild_world \<Rightarrow> bool" where
  "limits_ok rules w \<longleftrightarrow> (\<forall>now \<ge> gw_clock w.
     (\<forall>p. card {k \<in> live_apps now (map_of (gt_app (gw_tables w))). snd k = p} \<le> unat (ru_MaxPerPlayer rules))
     \<and> (\<forall>g. card {k \<in> live_apps now (map_of (gt_app (gw_tables w))). fst k = g} \<le> unat (ru_MaxPerGuild rules)))"

lemma finite_live [simp]: "finite {k \<in> live_apps now (map_of al). P k}"
proof -
  have "live_apps now (map_of al) \<subseteq> fst ` set al" by (auto simp: live_apps_def dest!: map_of_SomeD intro: rev_image_eqI)
  then show ?thesis by (auto intro: finite_subset)
qed

lemma live_apps_mono: "A \<subseteq>\<^sub>m B \<Longrightarrow> now \<le> now' \<Longrightarrow> live_apps now' A \<subseteq> live_apps now B"
  by (force simp: live_apps_def dest: map_le_SomeD)

lemma roster_step_apps:
  assumes "roster_step cap levels rules e v v'"
  shows "gv_app v' \<subseteq>\<^sub>m gv_app v \<or> (\<exists>g p a now. e = Applied g p now \<and> gv_app v' \<subseteq>\<^sub>m (gv_app v)((g, p) \<mapsto> a)
     \<and> ((g, p) \<in> live_apps now (gv_app v) \<or>
          card {k \<in> live_apps now (gv_app v). snd k = p} < unat (ru_MaxPerPlayer rules)
          \<and> card {k \<in> live_apps now (gv_app v). fst k = g} < unat (ru_MaxPerGuild rules)))"
  using assms by (cases rule: roster_step.cases) auto

lemma world_step_clock:
  assumes "world_step cap levels limit_of rules e w w'"
  shows "gw_clock w \<le> gw_clock w'" "e = Applied g p now \<Longrightarrow> now = gw_clock w'"
  using assms by (cases rule: world_step.cases; auto simp: event_of_def split: option.splits bool.splits)+

lemma limits_ok_step:
  assumes ok: "limits_ok rules w" and clock: "gw_clock w \<le> gw_clock w'" "\<And>g p now. e = Applied g p now \<Longrightarrow> now = gw_clock w'"
    and step: "roster_step cap levels rules e (view (gw_tables w)) (view (gw_tables w'))"
  shows "limits_ok rules w'"
proof -
  let ?A = "map_of (gt_app (gw_tables w))" and ?A' = "map_of (gt_app (gw_tables w'))"
  let ?of = "\<lambda>L P. card {k \<in> L. P k}" and ?now = "gw_clock w'"
  have old: "?of (live_apps ?now ?A) (\<lambda>k. snd k = p) \<le> unat (ru_MaxPerPlayer rules)"
    "?of (live_apps ?now ?A) (\<lambda>k. fst k = g) \<le> unat (ru_MaxPerGuild rules)" for p g
    using ok clock(1) by (simp_all add: limits_ok_def)
  have new: "?of (live_apps ?now ?A') (\<lambda>k. snd k = q) \<le> unat (ru_MaxPerPlayer rules)
    \<and> ?of (live_apps ?now ?A') (\<lambda>k. fst k = h) \<le> unat (ru_MaxPerGuild rules)" for q h
  proof (cases "live_apps ?now ?A' \<subseteq> live_apps ?now ?A")
    case True
    then have "?of (live_apps ?now ?A') P \<le> ?of (live_apps ?now ?A) P" for P by (intro card_mono) auto
    from this [of "\<lambda>k. snd k = q"] this [of "\<lambda>k. fst k = h"] old(1) [of q] old(2) [of h] show ?thesis by linarith
  next
    case False
    then have "\<not> ?A' \<subseteq>\<^sub>m ?A" using live_apps_mono by blast
    with roster_step_apps [OF step] obtain g p a now where e: "e = Applied g p now" and le: "?A' \<subseteq>\<^sub>m ?A((g, p) \<mapsto> a)"
      and free: "(g, p) \<in> live_apps now ?A \<or> ?of (live_apps now ?A) (\<lambda>k. snd k = p) < unat (ru_MaxPerPlayer rules)
          \<and> ?of (live_apps now ?A) (\<lambda>k. fst k = g) < unat (ru_MaxPerGuild rules)" by auto
    note now = clock(2) [OF e]
    have sub: "live_apps ?now ?A' \<subseteq> insert (g, p) (live_apps ?now ?A)"
      using map_le_SomeD [OF le] by (force simp: live_apps_def split: if_splits)
    with False have "(g, p) \<notin> live_apps ?now ?A" by auto
    with free now have room: "?of (live_apps ?now ?A) (\<lambda>k. snd k = p) < unat (ru_MaxPerPlayer rules)"
      "?of (live_apps ?now ?A) (\<lambda>k. fst k = g) < unat (ru_MaxPerGuild rules)" by auto
    have add: "?of (live_apps ?now ?A') P \<le> (if P (g, p) then Suc (?of (live_apps ?now ?A) P) else ?of (live_apps ?now ?A) P)" for P
    proof -
      have "{k \<in> live_apps ?now ?A'. P k} \<subseteq> (if P (g, p) then insert (g, p) {k \<in> live_apps ?now ?A. P k} else {k \<in> live_apps ?now ?A. P k})"
        using sub by auto
      from card_mono [OF _ this] show ?thesis by (auto simp: card_insert_if split: if_splits)
    qed
    show ?thesis using add [of "\<lambda>k. snd k = q"] add [of "\<lambda>k. fst k = h"] room old(1) [of q] old(2) [of h] by (auto split: if_splits)
  qed
  have later: "?of (live_apps now ?A') P \<le> ?of (live_apps ?now ?A') P" if "?now \<le> now" for now P
    using live_apps_mono [OF map_le_refl that] by (intro card_mono) auto
  show ?thesis unfolding limits_ok_def using order.trans [OF later] new by simp
qed

lemma world_limits:
  assumes "world_reachable cap levels limit_of rules w" and tab: "level_table cap levels"
  shows "limits_ok rules w"
  using assms(1)
proof (induction rule: world_reachable.induct)
  case init
  show ?case by (simp add: limits_ok_def live_apps_def empty_tables_def)
next
  case (step w e w')
  from world_inv [OF step.hyps(1) tab] have "refines cap levels rules e (gw_tables w) (gw_tables w')"
    using world_step_refines [OF step.hyps(2)] by (simp add: view_inv_def)
  then have "roster_step cap levels rules e (view (gw_tables w)) (view (gw_tables w'))" by (simp add: refines_def)
  from limits_ok_step [OF step.IH world_step_clock(1) [OF step.hyps(2)] _ this] world_step_clock(2) [OF step.hyps(2)]
  show ?case by blast
qed

end
