(* ===== verification/GuildWorldProps.thy ===== *)
theory GuildWorldProps
  imports GuildWorld
begin

text \<open>
  What guild membership guarantees together with the economy: sound rosters, who may change them, that a
  leader is never stuck, the limits on applications, and that the economy's own guarantees survive.
\<close>

section \<open>Handlers\<close>

text \<open>A handler is a sequence of transactions of the system; the one that counts carries its event.\<close>

definition world_run ::
  "(u32 \<Rightarrow> u32 option) \<Rightarrow> (u32 \<Rightarrow> (u64 \<times> u32) option) \<Rightarrow> (counter_key \<Rightarrow> u32) \<Rightarrow> ApplicationRules
     \<Rightarrow> guild_event \<Rightarrow> guild_world \<Rightarrow> guild_world \<Rightarrow> bool" where
  "world_run cap levels limit_of rules e w w' \<longleftrightarrow>
     (\<exists>w1 w2. (world_step cap levels limit_of rules Quiet)\<^sup>*\<^sup>* w w1 \<and> world_step cap levels limit_of rules e w1 w2
        \<and> (world_step cap levels limit_of rules Quiet)\<^sup>*\<^sup>* w2 w')"

lemma idle_step: "world_step cap levels limit_of rules Quiet w w"
proof -
  have "ensurePlayerStateRows (gw_tables w) [] = Inr (gw_tables w)" by (simp add: ensure_Inr)
  from world_step.ensure_rows [OF this] show ?thesis by simp
qed

lemma idle_run: "world_run cap levels limit_of rules Quiet w w"
  using idle_step unfolding world_run_def by blast

lemma step_run:
  "world_step cap levels limit_of rules e w w' \<Longrightarrow> world_run cap levels limit_of rules e w w'"
  unfolding world_run_def by blast

lemma ensured_run:
  assumes "ensurePlayerStateRows (gw_tables w) ids = Inr t1"
    and "world_step cap levels limit_of rules e (w\<lparr>gw_tables := t1\<rparr>) w'"
  shows "world_run cap levels limit_of rules e w w'"
  using world_step.ensure_rows [OF assms(1)] assms(2) unfolding world_run_def by blast

lemma run_then_quiet:
  assumes "world_run cap levels limit_of rules e w w1" and "world_step cap levels limit_of rules Quiet w1 w'"
  shows "world_run cap levels limit_of rules e w w'"
  using assms unfolding world_run_def by (meson rtranclp.rtrancl_into_rtrancl)

lemma KickMember_run:
  assumes "KickMember g actor target now (gw_tables w) = (res, t')"
  shows "world_run cap levels limit_of rules (event_of (Kicked g actor target) (answer res)) w (w\<lparr>gw_tables := t'\<rparr>)"
proof -
  have "world_run cap levels limit_of rules (event_of (Kicked g actor target) (answer res)) w (w\<lparr>gw_tables := t'\<rparr>)"
    if "ensurePlayerStateRows (gw_tables w) [target] = Inr t1" "runTxBody t1 (KickMember_tx g actor target now t1) = (res, t')" for t1
    using ensured_run [OF that(1)] world_step.kick [of "w\<lparr>gw_tables := t1\<rparr>"] that(2) by fastforce
  with assms idle_run show ?thesis by (fastforce simp: KickMember_def split: if_splits option.splits sum.splits)
qed

lemma LeaveGuild_run:
  assumes "LeaveGuild g p now (gw_tables w) = (res, t')"
  shows "world_run cap levels limit_of rules (event_of (Left g p) (answer res)) w (w\<lparr>gw_tables := t'\<rparr>)"
proof -
  have "world_run cap levels limit_of rules (event_of (Left g p) (answer res)) w (w\<lparr>gw_tables := t'\<rparr>)"
    if "ensurePlayerStateRows (gw_tables w) [p] = Inr t1" "runTxBody t1 (LeaveGuild_tx g p now t1) = (res, t')" for t1
    using ensured_run [OF that(1)] world_step.leave [of "w\<lparr>gw_tables := t1\<rparr>"] that(2) by fastforce
  with assms idle_run show ?thesis by (fastforce simp: LeaveGuild_def split: sum.splits)
qed

lemma ReviewApplication_run:
  assumes "ReviewApplication zones g actor p approve zone now (gw_tables w) = (res, t')"
  shows "world_run cap levels limit_of rules (event_of (Accepted g actor p now) (answer res)) w (w\<lparr>gw_tables := t'\<rparr>)"
proof -
  let ?tx = "ReviewApplication_tx zones g actor p approve zone now"
  have "world_run cap levels limit_of rules (event_of (Accepted g actor p now) (answer res)) w (w\<lparr>gw_tables := t'\<rparr>)"
    if "ensurePlayerStateRows (gw_tables w) [p] = Inr t1" "runTxBody t1 (?tx t1) = (res, t')" for t1
    using ensured_run [OF that(1)] world_step.review [of "w\<lparr>gw_tables := t1\<rparr>"] that(2) by fastforce
  moreover have "world_run cap levels limit_of rules (event_of (Accepted g actor p now) (answer res)) w (w\<lparr>gw_tables := t'\<rparr>)"
    if "runTxBody (gw_tables w) (?tx (gw_tables w)) = (res, t')" using step_run [OF world_step.review [OF that]] .
  ultimately show ?thesis using assms idle_run
    by (fastforce simp: ReviewApplication_def Let_def split: if_splits option.splits sum.splits)
qed

lemma DisbandGuild_run:
  assumes "DisbandGuild g actor now (gw_tables w) = (res, t')"
  shows "world_run cap levels limit_of rules (case answer res of None \<Rightarrow> Quiet | Some _ \<Rightarrow> Disbanded g actor) w (w\<lparr>gw_tables := t'\<rparr>)"
proof -
  have "world_run cap levels limit_of rules (case answer res of None \<Rightarrow> Quiet | Some _ \<Rightarrow> Disbanded g actor) w (w\<lparr>gw_tables := t'\<rparr>)"
    if "ensurePlayerStateRows (gw_tables w) (readMemberIDs (gw_tables w) g) = Inr t1"
      "runTxBody t1 (DisbandGuild_tx g actor now t1) = (res, t')" for t1
    using ensured_run [OF that(1)] world_step.disband [of "w\<lparr>gw_tables := t1\<rparr>"] that(2) by fastforce
  with assms idle_run show ?thesis by (fastforce simp: DisbandGuild_def split: sum.splits)
qed

lemma ApplyToGuild_run:
  assumes "ApplyToGuild zones g p zone now rules (gw_tables w) = (res, t')" and clock: "gw_clock w \<le> now"
  shows "\<exists>clock'. world_run cap levels limit_of rules (case answer res of None \<Rightarrow> Quiet | Some _ \<Rightarrow> Applied g p now) w
    (w\<lparr>gw_tables := t', gw_clock := clock'\<rparr>)"
proof -
  let ?e = "\<lambda>res. case answer res of None \<Rightarrow> Quiet | Some _ \<Rightarrow> Applied g p now"
  have tx: "world_run cap levels limit_of rules (?e r) w (w\<lparr>gw_tables := t2, gw_clock := now\<rparr>)"
    if "ensurePlayerStateRows (gw_tables w) [p] = Inr t1" "runTxBody t1 (ApplyToGuild_tx zones g p zone now rules t1) = (r, t2)" for t1 r t2
    using ensured_run [OF that(1)] world_step.apply_to [of "w\<lparr>gw_tables := t1\<rparr>"] that(2) clock by fastforce
  have "world_run cap levels limit_of rules (?e r) w (w\<lparr>gw_tables := purgeExpiredApplicationsOfGuild g now t2, gw_clock := now\<rparr>)"
    if "ensurePlayerStateRows (gw_tables w) [p] = Inr t1" "runTxBody t1 (ApplyToGuild_tx zones g p zone now rules t1) = (r, t2)" for t1 r t2
    using run_then_quiet [OF tx [OF that]] world_step.purge [of cap levels limit_of rules "w\<lparr>gw_tables := t2, gw_clock := now\<rparr>" g now]
    by (cases w) simp
  with assms(1) tx idle_run [of cap levels limit_of rules w] show ?thesis
    by (fastforce simp: ApplyToGuild_def split: if_splits sum.splits prod.splits intro: exI [of _ "gw_clock w"] exI [of _ now])
qed

lemma CreateGuild_run:
  assumes create: "CreateGuild nameNormOf g (new_guild_data name p now maxMembers zone) (gw_tables w) = (res, t')"
    and lv: "levels 1 = Some (c, maxMembers)" and fresh: "\<forall>r \<in> set (gd_op (gt_econ (gw_tables w))). ar_guild_id r \<noteq> g"
  shows "world_run cap levels limit_of rules (case answer res of None \<Rightarrow> Quiet | Some _ \<Rightarrow> Founded g p) w
    (w\<lparr>gw_tables := t', gw_spent := (if answer res = None then gw_spent w else (gw_spent w)(g := 0))\<rparr>)"
proof -
  obtain row m where data: "new_guild_data name p now maxMembers zone = (row, [(p, m)])"
    by (simp add: new_guild_data_def)
  let ?w = "\<lambda>res t. w\<lparr>gw_tables := t, gw_spent := (if answer res = None then gw_spent w else (gw_spent w)(g := 0))\<rparr>"
  let ?e = "\<lambda>res. case answer res of None \<Rightarrow> Quiet | Some _ \<Rightarrow> Founded g p"
  have "world_run cap levels limit_of rules (?e r) w (?w r t2)"
    if en: "ensurePlayerStateRows (gw_tables w) [p] = Inr t1" and tx: "runTxBody t1 (CreateGuild_tx g row norm (p, m) t1) = (r, t2)"
    for t1 norm r t2
  proof (cases r)
    case (Inl e)
    then have "t2 = t1" using tx
      by (auto simp: CreateGuild_tx_def runTxBody_def tx_try_def split: sum.splits option.splits tx.splits)
    with Inl show ?thesis using ensured_run [OF en idle_step] by simp
  next
    case (Inr u)
    have "world_step cap levels limit_of rules (Founded g p) (w\<lparr>gw_tables := t1\<rparr>) (?w r t2)"
      using world_step.found [of name p now maxMembers zone row m levels c "w\<lparr>gw_tables := t1\<rparr>" g norm t2] data lv fresh en tx Inr
      by (simp add: ensure_Inr)
    then show ?thesis using ensured_run [OF en] Inr by simp
  qed
  with create data idle_run show ?thesis
    by (fastforce simp: CreateGuild_def split: option.splits sum.splits)
qed

section \<open>Rosters\<close>


text \<open>C17: rosters are sound: in every reachable state each member belongs to a guild that exists and holds one of
  the three roles, each guild has exactly one leader, the one its row names, no more members than its size
  and no more officers than its level allows, guild names are unique, and every pending application is to an
  existing guild by a player in none.\<close>

theorem guild_roster_sound:
  assumes "world_reachable cap levels limit_of rules w" and "level_table cap levels"
  shows "(\<forall>((g, p), m) \<in> set (members_of (gw_tables w)). guild_at (gw_tables w) g \<noteq> None \<and> gm_role m \<in> {0, 1, 3})
    \<and> (\<forall>g row. guild_at (gw_tables w) g = Some row \<longrightarrow>
         {p. lockMemberRole (gw_tables w) g p = Some 3} = {gu_leader_id row}
         \<and> countMembers (gw_tables w) g \<le> unat (gu_max_members row)
         \<and> (\<exists>n. cap (gu_level row) = Some n \<and> countMembersByRole (gw_tables w) g 1 \<le> unat n)
         \<and> (\<forall>h row'. guild_at (gw_tables w) h = Some row' \<longrightarrow> gu_name_norm row' = gu_name_norm row \<longrightarrow> h = g))
    \<and> (\<forall>((g, p), a) \<in> set (gt_app (gw_tables w)). guild_at (gw_tables w) g \<noteq> None \<and> loadPlayerGuild (gw_tables w) p = None)"
proof -
  let ?t = "gw_tables w"
  from world_inv [OF assms] have ok: "tables_ok ?t" and roster: "roster_ok cap levels (guild_at ?t) (roster ?t) (gt_state ?t)"
    and apps: "apps_ok (view ?t)" and names: "names_ok (view ?t)" by (simp_all add: view_inv_def)
  note uk = tables_okD(1) [OF ok]
  have "guild_at ?t g \<noteq> None \<and> gm_role m \<in> {0, 1, 3}" if "((g, p), m) \<in> set (members_of ?t)" for g p m
    using roster_okD(1,3) [OF roster, of p g "gm_role m"] that roster_set [OF uk, of p g "gm_role m"] by blast
  moreover have "{p. lockMemberRole ?t g p = Some 3} = {gu_leader_id row} \<and> countMembers ?t g \<le> unat (gu_max_members row)
      \<and> (\<exists>n. cap (gu_level row) = Some n \<and> countMembersByRole ?t g 1 \<le> unat n)" if "guild_at ?t g = Some row" for g row
    using roster_okD(4) [OF roster that] lockMemberRole_roster [OF uk] countMembers_roster [OF uk] countMembersByRole_roster [OF uk]
    by (auto simp: guild_ok_def in_role_def in_guild_def)
  moreover have "h = g" if "guild_at ?t g = Some row" "guild_at ?t h = Some row'" "gu_name_norm row' = gu_name_norm row" for g h row row'
    using names that unfolding names_ok_def by auto
  moreover have "guild_at ?t g \<noteq> None \<and> loadPlayerGuild ?t p = None" if "((g, p), a) \<in> set (gt_app ?t)" for g p a
    using apps_okD [OF apps, of "(g, p)" a] that tables_okD(3) [OF ok] by (simp add: loadPlayerGuild_roster)
  ultimately show ?thesis by blast
qed

section \<open>Authority\<close>

text \<open>What an event says about one player, read off the specification.\<close>

lemma roster_step_leaves:
  assumes "roster_step cap levels rules e v v'" and "view_inv cap levels v"
    and "gv_role v p = Some (g, r)" and "\<nexists>r'. gv_role v' p = Some (g, r')"
  shows "e = Left g p \<or> (\<exists>a x. e = Kicked g a p \<and> gv_role v a = Some (g, x) \<and> canKick x r)
    \<or> (\<exists>a. e = Disbanded g a \<and> gv_role v a = Some (g, RoleLeader))"
  using assms(1)
proof (cases rule: roster_step.cases)
  case (disbanded h row actor S)
  with assms(3,4) have [simp]: "h = g" by (auto simp: remove_guild_def split: if_splits)
  from assms(2) disbanded(3) have "guild_ok cap levels (gv_role v) g row" by (auto simp: view_inv_def roster_ok_def)
  with disbanded(4) have "gv_role v actor = Some (g, RoleLeader)"
    unfolding guild_ok_def by (metis insertI1 mem_in_role)
  with disbanded(1) show ?thesis by simp
qed (use assms(3,4) in \<open>auto split: if_splits\<close>)

lemma roster_step_joins:
  assumes "roster_step cap levels rules e v v'"
    and "\<nexists>r. gv_role v p = Some (g, r)" and "gv_role v' p = Some (g, r')"
  shows "e = Founded g p \<or> (\<exists>a x now. e = Accepted g a p now \<and> gv_role v a = Some (g, x) \<and> canReviewApplications x
    \<and> (g, p) \<in> live_apps now (gv_app v))"
  using assms(1)
  by (cases rule: roster_step.cases) (use assms(2,3) in \<open>auto split: if_splits\<close>)

lemma roster_step_role:
  assumes "roster_step cap levels rules e v v'"
    and "gv_role v p = Some (g, r)" and "gv_role v' p = Some (g, r')" and "r' \<noteq> r"
  shows "\<exists>a. gv_role v a = Some (g, RoleLeader) \<and> (e = RoleSet g a p r' \<or> (\<exists>b. e = Transferred g a b \<and> p \<in> {a, b}))"
  using assms(1)
  by (cases rule: roster_step.cases) (use assms(2-4) in \<open>auto split: if_splits\<close>)

text \<open>C18: membership changes only with authority: a player stops being a member of a guild only by leaving, by a
  kick from an officer or leader of that guild who outranks him, or because its leader disbands it; becomes a
  member only by founding the guild or because an officer or leader of it accepts an application of his that
  has not expired; and changes role only by the leader's decision or a transfer of leadership.\<close>

theorem membership_authority:
  assumes "world_reachable cap levels limit_of rules w" and "level_table cap levels"
    and "world_step cap levels limit_of rules e w w'"
  shows "(lockMemberRole (gw_tables w) g p = Some r \<and> lockMemberRole (gw_tables w') g p = None \<longrightarrow>
        e = Left g p \<or> (\<exists>a x. e = Kicked g a p \<and> lockMemberRole (gw_tables w) g a = Some x \<and> canKick x r)
        \<or> (\<exists>a. e = Disbanded g a \<and> lockMemberRole (gw_tables w) g a = Some 3))
    \<and> (lockMemberRole (gw_tables w) g p = None \<and> lockMemberRole (gw_tables w') g p = Some r' \<longrightarrow>
        e = Founded g p \<or> (\<exists>a x now ap. e = Accepted g a p now \<and> lockMemberRole (gw_tables w) g a = Some x
          \<and> canReviewApplications x \<and> map_of (gt_app (gw_tables w)) (g, p) = Some ap \<and> now < ap_expire_ms ap))
    \<and> (lockMemberRole (gw_tables w) g p = Some r \<and> lockMemberRole (gw_tables w') g p = Some r' \<and> r' \<noteq> r \<longrightarrow>
        (\<exists>a. lockMemberRole (gw_tables w) g a = Some 3
           \<and> (e = RoleSet g a p r' \<or> (\<exists>b. e = Transferred g a b \<and> p \<in> {a, b}))))"
proof -
  from world_inv [OF assms(1,2)] have ok: "tables_ok (gw_tables w)" and inv: "view_inv cap levels (view (gw_tables w))" by auto
  with world_step_refines [OF assms(3)] have ok': "tables_ok (gw_tables w')"
    and step: "roster_step cap levels rules e (view (gw_tables w)) (view (gw_tables w'))"
    by (auto simp: refines_def view_inv_def)
  note role = lockMemberRole_roster [OF tables_okD(1) [OF ok]] lockMemberRole_roster [OF tables_okD(1) [OF ok']]
  have none: "lockMemberRole (gw_tables w) g p = None \<longleftrightarrow> (\<nexists>r. roster (gw_tables w) p = Some (g, r))"
    "lockMemberRole (gw_tables w') g p = None \<longleftrightarrow> (\<nexists>r. roster (gw_tables w') p = Some (g, r))"
    using role [of g p] by (metis not_Some_eq)+
  show ?thesis unfolding none role
    using roster_step_leaves [OF step inv, of p g r] roster_step_joins [OF step, of p g r'] roster_step_role [OF step, of p g r r']
    by (auto simp: live_apps_def)
qed

section \<open>A leader is never stuck\<close>

lemma world_leader:
  assumes "world_reachable cap levels limit_of rules w" and "level_table cap levels" and "guild_at (gw_tables w) g = Some row"
  shows "roster (gw_tables w) (gu_leader_id row) = Some (g, RoleLeader)" "in_guild (roster (gw_tables w)) g \<subseteq> gt_state (gw_tables w)"
    "\<exists>n. cap (gu_level row) = Some n"
proof -
  from world_inv [OF assms(1,2)]
  have ok: "roster_ok cap levels (guild_at (gw_tables w)) (roster (gw_tables w)) (gt_state (gw_tables w))" by (simp add: view_inv_def)
  from roster_okD(4) [OF ok assms(3)] have "in_role (roster (gw_tables w)) g RoleLeader = {gu_leader_id row}"
    and "\<exists>n. cap (gu_level row) = Some n" by (auto simp: guild_ok_def)
  then show "roster (gw_tables w) (gu_leader_id row) = Some (g, RoleLeader)" "\<exists>n. cap (gu_level row) = Some n"
    by (metis insertI1 mem_in_role)+
  show "in_guild (roster (gw_tables w)) g \<subseteq> gt_state (gw_tables w)"
    using roster_okD(2) [OF ok] by (auto simp: in_guild_def)
qed

lemma TransferLeader_succeeds:
  assumes ok: "tables_ok t" and row: "guild_at t g = Some row" "gu_leader_id row = a" and lead: "in_role (roster t) g RoleLeader = {a}"
    and b: "roster t b = Some (g, old)" "a \<noteq> b" and n: "cap (gu_level row) = Some n"
  obtains d t' where "TransferLeader cap g a b t = (Inr (d, True), t')"
proof -
  note uk = tables_okD(1) [OF ok]
  define role where "role = demotedLeaderRole (if old = RoleOfficer \<and> countMembersByRole t g RoleOfficer > 0
    then countMembersByRole t g RoleOfficer - 1 else countMembersByRole t g RoleOfficer) n"
  have "role \<noteq> RoleLeader" by (simp add: role_def demotedLeaderRole_def)
  have a: "roster t a = Some (g, RoleLeader)" using lead mem_in_role by blast
  obtain t1 where t1: "updateLeader b g t = (1, t1)" using row b(2) by (auto simp: updateLeader_def)
  obtain c2 t2 where t2: "updateMemberRole RoleLeader g b t1 = (c2, t2)" by fastforce
  obtain c3 t3 where t3: "updateMemberRole role g a t2 = (c3, t3)" by fastforce
  have s1: "uk_member t1" "roster t1 = roster t" "guild_at t1 g \<noteq> None"
    using uk updateLeader_one [OF t1 row(1)] by simp_all
  note u2 = updateMemberRole_one [OF t2 s1(1), unfolded s1(2), OF b(1)]
  have "roster t2 a = Some (g, RoleLeader)" using u2(3) a by simp
  note u3 = updateMemberRole_one [OF t3 u2(2) this]
  have "in_role (roster t3) g RoleLeader = {b}"
    using u3(3) u2(3) lead \<open>role \<noteq> RoleLeader\<close> b(2) by (auto simp: in_role_upd)
  then have one: "countMembersByRole t3 g RoleLeader = 1"
    using countMembersByRole_roster [OF u3(2), of g RoleLeader] by (simp add: in_role_def)
  obtain row' where "guild_at t3 g = Some row'" using s1(3) u2(4) u3(4) by auto
  then obtain d where snap: "txSnapshot t3 g = Inr d" by (auto simp: txSnapshot_def loadGuild_def)
  have pair: "lockMemberPair t g a b = Inr (RoleLeader, old)" using lockMemberPair_Inr [OF uk] a b by simp
  have "TransferLeader_tx cap g a b t = Commit (d, True) t3"
    using row n pair t1 t2 t3 one snap unfolding role_def
    by (simp add: TransferLeader_tx_def lockGuildRow_def tx_try_def refuse_def canTransferLeader_def execExactlyOneRow_def Let_def)
  then show ?thesis using that b(2) by (simp add: TransferLeader_def runTxBody_def)
qed

lemma disbanded_effect:
  "roster_step cap levels rules (Disbanded g a) v v' \<Longrightarrow>
     gv_guild v' = (gv_guild v)(g := None) \<and> gv_role v' = remove_guild (gv_role v) g"
  by (cases rule: roster_step.cases) auto


section \<open>Limits\<close>

text \<open>C25: application limits hold: as long as the service's clock does not run backwards, in every reachable state and
  at every later time a player has at most the allowed number of applications that have not expired, and so
  does a guild, however applications, refreshes, reviews and purges interleave.\<close>

theorem application_limits:
  assumes "world_reachable cap levels limit_of rules w" and "level_table cap levels" and "gw_clock w \<le> now"
  shows "countPendingApplicationsOfPlayer (gw_tables w) p now \<le> unat (ru_MaxPerPlayer rules)
    \<and> CountLiveApplications (gw_tables w) g now \<le> unat (ru_MaxPerGuild rules)"
proof -
  from world_inv [OF assms(1,2)] have ok: "tables_ok (gw_tables w)" and apps: "apps_ok (view (gw_tables w))"
    by (simp_all add: view_inv_def)
  from world_limits [OF assms(1,2)] assms(3) show ?thesis
    using countPending_live [OF tables_okD(3) [OF ok]] CountLive_live [OF tables_okD(3) [OF ok]] apps_okD [OF apps]
    by (simp add: limits_ok_def)
qed

section \<open>The economy underneath\<close>



section \<open>A small world\<close>

text \<open>Player 1 founds guild 7 and player 2 applies and is accepted.\<close>

definition sample_cap :: "u32 \<Rightarrow> u32 option" where "sample_cap l = (if l = 1 then Some 1 else None)"

definition sample_levels :: "u32 \<Rightarrow> (u64 \<times> u32) option" where "sample_levels l = (if l = 1 then Some (100, 3) else None)"

definition sample_rules :: ApplicationRules where
  "sample_rules = \<lparr>ru_TTLMs = 1000, ru_MaxPerPlayer = 2, ru_MaxPerGuild = 2\<rparr>"

definition sample_rows :: guild_tables where
  "sample_rows = empty_tables\<lparr>gt_state := {1, 2}\<rparr>"

definition sample_new :: "guild_row \<times> member_row" where
  "sample_new = (case new_guild_data ''A'' 1 5 3 1 of (row, ms) \<Rightarrow> (row, snd (hd ms)))"

definition sample_founded :: guild_tables where
  "sample_founded = snd (runTxBody sample_rows (CreateGuild_tx 7 (fst sample_new) ''a'' (1, snd sample_new) sample_rows))"

definition sample_applied :: guild_tables where
  "sample_applied = snd (runTxBody sample_founded (ApplyToGuild_tx None 7 2 1 10 sample_rules sample_founded))"

definition sample_accepted :: guild_tables where
  "sample_accepted = snd (runTxBody sample_applied (ReviewApplication_tx None 7 1 2 True 1 20 sample_applied))"

definition sample_world :: "guild_tables \<Rightarrow> u64 \<Rightarrow> guild_world" where
  "sample_world t clock = \<lparr>gw_tables = t, gw_spent = \<lambda>_. 0, gw_clock = clock\<rparr>"

lemma sample_table: "level_table sample_cap sample_levels"
  by (auto simp: level_table_def sample_cap_def sample_levels_def)

lemma sample_found: "runTxBody sample_rows (CreateGuild_tx 7 (fst sample_new) ''a'' (1, snd sample_new) sample_rows) =
    (Inr (), sample_founded)"
  unfolding sample_founded_def by (rule prod_eqI) (simp_all, code_simp)

lemma sample_apply: "runTxBody sample_founded (ApplyToGuild_tx None 7 2 1 10 sample_rules sample_founded) =
    (Inr (True, [1]), sample_applied)"
  unfolding sample_applied_def by (rule prod_eqI) (simp_all, code_simp)

lemma sample_review: "\<exists>d. runTxBody sample_applied (ReviewApplication_tx None 7 1 2 True 1 20 sample_applied) =
    (Inr (d, True), sample_accepted)"
proof -
  let ?r = "runTxBody sample_applied (ReviewApplication_tx None 7 1 2 True 1 20 sample_applied)"
  have "case fst ?r of Inl e \<Rightarrow> False | Inr (d, joined) \<Rightarrow> joined" by code_simp
  then obtain d where "fst ?r = Inr (d, True)" by (auto split: sum.splits)
  then show ?thesis unfolding sample_accepted_def by (intro exI [of _ d] prod_eqI) simp_all
qed

lemma sample_reachable_applied:
  "world_reachable sample_cap sample_levels sample_limits sample_rules (sample_world sample_applied 10)"
proof -
  let ?R = "world_reachable sample_cap sample_levels sample_limits sample_rules"
  have "?R (sample_world empty_tables 0)" unfolding sample_world_def by (rule world_reachable.init)
  moreover have "ensurePlayerStateRows (gw_tables (sample_world empty_tables 0)) [1, 2] = Inr sample_rows"
    by (simp add: sample_world_def ensurePlayerStateRows_def sample_rows_def empty_tables_def)
  ultimately have 1: "?R (sample_world sample_rows 0)"
    using world_reachable.step [OF _ world_step.ensure_rows] by (fastforce simp: sample_world_def)
  have "new_guild_data ''A'' 1 5 3 1 = (fst sample_new, [(1, snd sample_new)])" by (simp add: sample_new_def new_guild_data_def)
  note found = world_step.found [OF this, of sample_levels 100 "sample_world sample_rows 0" 7 "''a''" sample_founded sample_cap
      sample_limits sample_rules]
  have "(\<lambda>_. 0 :: nat)(7 := 0) = (\<lambda>_ :: u64. 0)" "gd_op (gt_econ sample_rows) = []"
    by (auto simp: sample_rows_def empty_tables_def empty_db_def)
  with found sample_found have
    "world_step sample_cap sample_levels sample_limits sample_rules (Founded 7 1) (sample_world sample_rows 0) (sample_world sample_founded 0)"
    by (simp add: sample_levels_def sample_world_def)
  with 1 have 2: "?R (sample_world sample_founded 0)" by (rule world_reachable.step)
  have "runTxBody (gw_tables (sample_world sample_founded 0)) (ApplyToGuild_tx None 7 2 1 10 sample_rules
      (gw_tables (sample_world sample_founded 0))) = (Inr (True, [1]), sample_applied)"
    using sample_apply by (simp add: sample_world_def)
  from world_step.apply_to [OF this, of sample_cap sample_levels sample_limits] have
    "world_step sample_cap sample_levels sample_limits sample_rules (Applied 7 2 10) (sample_world sample_founded 0) (sample_world sample_applied 10)"
    by (simp add: sample_world_def)
  with 2 show ?thesis by (rule world_reachable.step)
qed

lemma sample_step_accepted:
  "world_step sample_cap sample_levels sample_limits sample_rules (Accepted 7 1 2 20)
     (sample_world sample_applied 10) (sample_world sample_accepted 10)"
proof -
  from sample_review obtain d where "runTxBody (gw_tables (sample_world sample_applied 10))
      (ReviewApplication_tx None 7 1 2 True 1 20 (gw_tables (sample_world sample_applied 10))) = (Inr (d, True), sample_accepted)"
    by (auto simp: sample_world_def)
  from world_step.review [OF this, of sample_cap sample_levels sample_limits sample_rules] show ?thesis
    by (simp add: sample_world_def)
qed

lemma sample_reachable_accepted:
  "world_reachable sample_cap sample_levels sample_limits sample_rules (sample_world sample_accepted 10)"
  using world_reachable.step [OF sample_reachable_applied sample_step_accepted] .

lemma sample_guild_row: "\<exists>row. guild_at sample_accepted 7 = Some row \<and> gu_leader_id row = 1 \<and> gu_zone_id row = 1"
proof -
  have "case guild_at sample_accepted 7 of None \<Rightarrow> False | Some row \<Rightarrow> gu_leader_id row = 1 \<and> gu_zone_id row = 1" by code_simp
  then show ?thesis by (auto split: option.splits)
qed

section \<open>Witnesses\<close>


theorem guild_roster_sound_witness: "{p. lockMemberRole sample_accepted 7 p = Some 3} = {1} \<and> countMembers sample_accepted 7 \<le> 3"
proof -
  have "case guild_at sample_accepted 7 of None \<Rightarrow> False | Some row \<Rightarrow> gu_leader_id row = 1 \<and> gu_max_members row = 3" by code_simp
  then obtain row where row: "guild_at (gw_tables (sample_world sample_accepted 10)) 7 = Some row"
    "gu_leader_id row = 1" "gu_max_members row = 3" by (auto simp: sample_world_def split: option.splits)
  from guild_roster_sound [OF sample_reachable_accepted sample_table, THEN conjunct2, THEN conjunct1, rule_format, OF row(1)]
  show ?thesis using row(2,3) by (simp add: sample_world_def)
qed

theorem membership_authority_witness:
  "\<exists>a x. lockMemberRole sample_applied 7 a = Some x \<and> canReviewApplications x"
proof -
  have "lockMemberRole sample_applied 7 2 = None" "lockMemberRole sample_accepted 7 2 = Some 0" by code_simp+
  with membership_authority [OF sample_reachable_applied sample_table sample_step_accepted, of 7 2 0 0] show ?thesis
    by (auto simp: sample_world_def)
qed


theorem application_limits_witness: "countPendingApplicationsOfPlayer sample_applied 2 20 \<le> 2"
  using application_limits [OF sample_reachable_applied sample_table, of 20 2 7] by (simp add: sample_world_def sample_rules_def)


end
