(* ===== verification/GuildCache.thy ===== *)
theory GuildCache
  imports GuildWorldProps "HOL-Library.Multiset"
begin

text \<open>
  The cache of guild snapshots and of the player's guild (\<^verbatim>\<open>src/go/guild/internal/data/guild_repo.go\<close>, and the
  invalidation after a commit in \<^verbatim>\<open>guild_manage_repo.go\<close>).  Every key has a generation; a writer commits, then
  increments the generation and deletes the value; a reader reads the generation, then the database, and its
  value is taken only while the generation is the one it read.  Writers, readers of any number of processes,
  expiry and failed invalidations interleave.  The generation is unbounded, and Redis keeps it.
\<close>

section \<open>One key\<close>

record 'v versioned =
  vc_generation :: nat
  vc_cached :: "'v option"

text \<open>The two scripts.\<close>

definition invalidateVersionedCache :: "'v versioned \<Rightarrow> 'v versioned" where
  "invalidateVersionedCache c = c\<lparr>vc_generation := Suc (vc_generation c), vc_cached := None\<rparr>"

definition fillVersionedCache :: "nat \<Rightarrow> 'v \<Rightarrow> 'v versioned \<Rightarrow> bool \<times> 'v versioned" where
  "fillVersionedCache generation v c =
     (if vc_generation c \<noteq> generation then (False, c) else (True, c\<lparr>vc_cached := Some v\<rparr>))"

definition cacheGeneration :: "'v versioned \<Rightarrow> nat" where
  "cacheGeneration c = vc_generation c"

section \<open>Readers and writers\<close>

datatype ('k, 'v) reader = Started 'k nat | Loaded 'k nat 'v

text \<open>\<open>cs_pending\<close>: the keys a committed write has still to invalidate.\<close>

record ('d, 'k, 'v) cache_sys =
  cs_db :: 'd
  cs_cache :: "'k \<Rightarrow> 'v versioned"
  cs_pending :: "'k multiset"
  cs_readers :: "nat \<rightharpoonup> ('k, 'v) reader"

text \<open>A read-through load in three statements, with everything else between them; \<open>load\<close> is the query, and
  \<open>None\<close> a row that does not exist and is not cached.  A reader starts on a miss, and may give up anywhere.\<close>

inductive cache_step ::
  "('d \<Rightarrow> 'k \<Rightarrow> 'v option) \<Rightarrow> ('d \<Rightarrow> 'd \<Rightarrow> 'k list \<Rightarrow> bool) \<Rightarrow> ('d, 'k, 'v) cache_sys \<Rightarrow> ('d, 'k, 'v) cache_sys \<Rightarrow> bool"
  for load changes where
  commit: "changes (cs_db s) d' ks
    \<Longrightarrow> cache_step load changes s (s\<lparr>cs_db := d', cs_pending := cs_pending s + mset ks\<rparr>)"
| invalidate: "k \<in># cs_pending s
    \<Longrightarrow> cache_step load changes s (s\<lparr>cs_cache := (cs_cache s)(k := invalidateVersionedCache (cs_cache s k)),
          cs_pending := cs_pending s - {#k#}\<rparr>)"
| refresh: "cache_step load changes s (s\<lparr>cs_cache := (cs_cache s)(k := invalidateVersionedCache (cs_cache s k))\<rparr>)"
| expire: "cache_step load changes s (s\<lparr>cs_cache := (cs_cache s)(k := (cs_cache s k)\<lparr>vc_cached := None\<rparr>)\<rparr>)"
| start: "vc_cached (cs_cache s k) = None
    \<Longrightarrow> cache_step load changes s (s\<lparr>cs_readers := (cs_readers s)(i \<mapsto> Started k (cacheGeneration (cs_cache s k)))\<rparr>)"
| load: "cs_readers s i = Some (Started k n) \<Longrightarrow> load (cs_db s) k = Some v
    \<Longrightarrow> cache_step load changes s (s\<lparr>cs_readers := (cs_readers s)(i \<mapsto> Loaded k n v)\<rparr>)"
| fill: "cs_readers s i = Some (Loaded k n v)
    \<Longrightarrow> cache_step load changes s (s\<lparr>cs_cache := (cs_cache s)(k := snd (fillVersionedCache n v (cs_cache s k))),
          cs_readers := (cs_readers s)(i := None)\<rparr>)"
| give_up: "cache_step load changes s (s\<lparr>cs_readers := (cs_readers s)(i := None)\<rparr>)"

definition cache_init :: "'d \<Rightarrow> ('d, 'k, 'v) cache_sys" where
  "cache_init d = \<lparr>cs_db = d, cs_cache = \<lambda>_. \<lparr>vc_generation = 0, vc_cached = None\<rparr>, cs_pending = {#}, cs_readers = Map.empty\<rparr>"

section \<open>Coherence\<close>

text \<open>The contract between writers and the cache: a commit names every key whose value it changes.\<close>

locale covered_writes =
  fixes load :: "'d \<Rightarrow> 'k \<Rightarrow> 'v option" and changes :: "'d \<Rightarrow> 'd \<Rightarrow> 'k list \<Rightarrow> bool"
  assumes covers: "changes d d' ks \<Longrightarrow> k \<notin> set ks \<Longrightarrow> load d' k = load d k"
begin

definition fresh :: "('d, 'k, 'v) cache_sys \<Rightarrow> 'k \<Rightarrow> 'v \<Rightarrow> bool" where
  "fresh s k v \<longleftrightarrow> k \<in># cs_pending s \<or> load (cs_db s) k = Some v"

definition coherent :: "('d, 'k, 'v) cache_sys \<Rightarrow> bool" where
  "coherent s \<longleftrightarrow>
     (\<forall>k v. vc_cached (cs_cache s k) = Some v \<longrightarrow> fresh s k v)
     \<and> (\<forall>i k n v. cs_readers s i = Some (Loaded k n v) \<longrightarrow> n \<le> vc_generation (cs_cache s k)
          \<and> (n = vc_generation (cs_cache s k) \<longrightarrow> fresh s k v))
     \<and> (\<forall>i k n. cs_readers s i = Some (Started k n) \<longrightarrow> n \<le> vc_generation (cs_cache s k))"

lemma fresh_commit:
  assumes "changes (cs_db s) d' ks" and "fresh s k v"
  shows "fresh (s\<lparr>cs_db := d', cs_pending := cs_pending s + mset ks\<rparr>) k v"
  using assms(2) covers [OF assms(1), of k] by (cases "k \<in> set ks") (auto simp: fresh_def)

lemma coherent_init: "coherent (cache_init d)"
  by (simp add: coherent_def cache_init_def)

lemma coherent_step:
  assumes "cache_step load changes s s'" and "coherent s"
  shows "coherent s'"
  using assms(1)
proof (cases rule: cache_step.cases)
  case (commit d' ks)
  then show ?thesis using assms(2) fresh_commit [OF commit(2)] by (simp add: coherent_def)
next
  case (invalidate k)
  then show ?thesis using assms(2)
    by (fastforce simp: coherent_def fresh_def invalidateVersionedCache_def in_diff_count)
next
  case (fill i k n v)
  then show ?thesis using assms(2) by (fastforce simp: coherent_def fresh_def fillVersionedCache_def)
qed (use assms(2) in \<open>fastforce simp: coherent_def fresh_def invalidateVersionedCache_def cacheGeneration_def\<close>)+

lemma never_stale:
  assumes "(cache_step load changes)\<^sup>*\<^sup>* (cache_init d) s" and "k \<notin># cs_pending s" and "vc_cached (cs_cache s k) = Some v"
  shows "load (cs_db s) k = Some v"
proof -
  from assms(1) have "coherent s"
    by (induction rule: rtranclp_induct) (simp_all add: coherent_init coherent_step)
  with assms(2,3) show ?thesis unfolding coherent_def fresh_def by blast
qed

end

section \<open>What a write changes\<close>

text \<open>Outside the guilds \<open>G\<close> no guild row and no member row differs, outside the players \<open>P\<close> nobody's guild.\<close>

definition touches :: "u64 set \<Rightarrow> u64 set \<Rightarrow> guild_tables \<Rightarrow> guild_tables \<Rightarrow> bool" where
  "touches G P t t' \<longleftrightarrow>
     (\<forall>g. g \<notin> G \<longrightarrow> guild_at t' g = guild_at t g
        \<and> filter (\<lambda>r. fst (fst r) = g) (members_of t') = filter (\<lambda>r. fst (fst r) = g) (members_of t))
     \<and> (\<forall>p. p \<notin> P \<longrightarrow> loadPlayerGuild t' p = loadPlayerGuild t p)"

lemma touches_refl: "touches G P t t"
  by (simp add: touches_def)

lemma touches_trans: "touches G P a b \<Longrightarrow> touches G P b c \<Longrightarrow> touches G P a c"
  by (simp add: touches_def)

lemma touches_mono: "touches G P t t' \<Longrightarrow> G \<subseteq> G' \<Longrightarrow> P \<subseteq> P' \<Longrightarrow> touches G' P' t t'"
  unfolding touches_def by blast

lemma touches_other:
  "gd_guilds (gt_econ t') = gd_guilds (gt_econ t) \<Longrightarrow> members_of t' = members_of t \<Longrightarrow> touches G P t t'"
  by (simp add: touches_def loadPlayerGuild_def)

text \<open>A snapshot is made of the rows of its guild.\<close>

lemma map_of_filter_guild: "map_of (filter (\<lambda>r. fst (fst r) = g) ms) (g, p) = map_of ms (g, p)"
  by (induction ms) auto

lemma touches_load:
  assumes "touches G P t t'"
  shows "g \<notin> G \<Longrightarrow> loadGuild t' g = loadGuild t g" "p \<notin> P \<Longrightarrow> loadPlayerGuild t' p = loadPlayerGuild t p"
proof -
  assume "g \<notin> G"
  with assms have row: "guild_at t' g = guild_at t g"
    and mem: "filter (\<lambda>r. fst (fst r) = g) (members_of t') = filter (\<lambda>r. fst (fst r) = g) (members_of t)"
    by (simp_all add: touches_def)
  have "member_at t' (g, p) = member_at t (g, p)" for p
    using map_of_filter_guild [of g "members_of t'" p] map_of_filter_guild [of g "members_of t" p] mem by simp
  then show "loadGuild t' g = loadGuild t g" using row mem by (simp add: loadGuild_def readMemberIDs_def)
qed (use assms in \<open>simp add: touches_def\<close>)

lemma filter_update_other: "g \<noteq> fst k \<Longrightarrow> filter (\<lambda>r. fst (fst r) = g) (AList.update k m ms) = filter (\<lambda>r. fst (fst r) = g) ms"
  by (induction ms) auto

lemma filter_delete_other: "g \<noteq> fst k \<Longrightarrow> filter (\<lambda>r. fst (fst r) = g) (AList.delete k ms) = filter (\<lambda>r. fst (fst r) = g) ms"
  by (induction ms) auto

lemma find_update: "map_of ms k = Some m \<Longrightarrow>
    map_option (fst \<circ> fst) (find (\<lambda>r. snd (fst r) = p) (AList.update k m' ms)) =
    map_option (fst \<circ> fst) (find (\<lambda>r. snd (fst r) = p) ms)"
  by (induction ms) auto

lemma find_delete: "p \<noteq> snd k \<Longrightarrow> find (\<lambda>r. snd (fst r) = p) (AList.delete k ms) = find (\<lambda>r. snd (fst r) = p) ms"
  by (induction ms) auto

lemma touches_member_update:
  "member_at t (g, p) = Some m \<Longrightarrow> touches {g} {} t (set_members (AList.update (g, p) m' (members_of t)) t)"
  by (simp add: touches_def loadPlayerGuild_def filter_update_other find_update)

lemma touches_guild_update: "touches {g} {} t (set_guilds (AList.update g row (gd_guilds (gt_econ t))) t)"
  by (simp add: touches_def loadPlayerGuild_def)

lemma touches_statements:
  "updateMemberRole role g p t = (n, t') \<Longrightarrow> touches {g} {} t t'"
  "updateLeader p g t = (n, t') \<Longrightarrow> touches {g} {} t t'"
  "deleteMember g p t = (n, t') \<Longrightarrow> touches {g} {p} t t'"
  "insertMember g p role j a t = Some t' \<Longrightarrow> touches {g} {p} t t'"
  "deleteGuild g t = (n, t') \<Longrightarrow> touches {g} {} t t'"
  "insertGuild g row norm t = Inr t' \<Longrightarrow> touches {g} {} t t'"
  "accelerate_try g ids now t = Inr t' \<Longrightarrow> touches {} {} t t'"
  by (auto simp: updateMemberRole_def updateLeader_def deleteMember_def insertMember_def deleteGuild_def insertGuild_def
      touches_refl touches_guild_update touches_def loadPlayerGuild_def filter_delete_other find_delete find_append
      filter_update_other find_update map_add_def
      split: option.splits if_splits dest!: accelerate_try_Inr)

text \<open>\<open>told g ps res\<close>: the guild and the players a handler names after a commit that changed something.\<close>

definition told :: "u64 \<Rightarrow> u64 list \<Rightarrow> ('a \<times> bool) option \<Rightarrow> u64 list \<times> u64 list" where
  "told g ps res = (case res of Some (_, True) \<Rightarrow> ([g], ps) | _ \<Rightarrow> ([], []))"

lemma told_simps [simp]: "told g ps None = ([], [])" "told g ps (Some (a, b)) = (if b then ([g], ps) else ([], []))"
  by (auto simp: told_def)

definition touches_told :: "u64 list \<times> u64 list \<Rightarrow> guild_tables \<Rightarrow> guild_tables \<Rightarrow> bool" where
  "touches_told k t t' = touches (set (fst k)) (set (snd k)) t t'"

lemma touches_told_refl: "touches_told k t t"
  by (simp add: touches_told_def touches_refl)

lemma runTxBody_touches:
  "runTxBody t x = (res, t') \<Longrightarrow> tx_ensures (\<lambda>r. touches_told (f r) t) x \<Longrightarrow> touches_told (f (answer res)) t t'"
  by (cases x) (auto simp: runTxBody_def touches_told_refl)

lemma touches_apps:
  "touches G P t (deleteApplicationsOfPlayer p also t)" "touches G P t (deleteApplication k t)"
  "touches G P t (deleteApplicationRows ks t)" "touches G P t (t\<lparr>gt_app := A\<rparr>)"
  "touches G P t (deleteGuildTrialBattles g (deleteGuildActivityProgress g t))"
  "touches G P t (fold (deleteExpiredApplication now) ks t)"
  by (rule touches_other; simp add: deleteApplicationsOfPlayer_app deleteApplication_def deleteApplicationRows_filter
      deleteGuildTrialBattles_def deleteGuildActivityProgress_def econ_deleteExpired)+

lemma touches_departure:
  assumes "deleteMember g p t = (n, t1)" and "accelerate_try g ps now (deleteApplicationsOfPlayer p also t1) = Inr t2"
  shows "touches {g} {p} t t2"
  using touches_trans [OF touches_statements(3) [OF assms(1)] touches_trans [OF touches_apps(1)
    touches_mono [OF touches_statements(7) [OF assms(2)]]]] by simp

lemma touches_deleteMembers: "deleteMembers g ids t = Inr t' \<Longrightarrow> touches {g} (set ids) t t'"
proof (induction g ids t rule: deleteMembers.induct)
  case (2 g p ps t)
  from 2(2) obtain t1 where t1: "deleteMember g p t = (1, t1)" "deleteMembers g ps t1 = Inr t'"
    by (auto split: sum.splits)
  from 2(1) [of t1] t1 have "touches {g} (set ps) t1 t'" by (simp add: execExactlyOneRow_def)
  with touches_mono [OF touches_statements(3) [OF t1(1)]] touches_mono [of "{g}" "set ps"] show ?case
    by (meson list.set_intros(1) empty_subsetI insert_subset set_subset_Cons subset_refl touches_trans)
qed (simp add: touches_refl)

lemma tx_touches:
  "tx_ensures (\<lambda>r. touches_told (told g [target] r) t) (KickMember_tx g actor target now t)"
  "tx_ensures (\<lambda>r. touches_told (told g [p] r) t) (LeaveGuild_tx g p now t)"
  "tx_ensures (\<lambda>r. touches_told (told g [p] r) t) (ReviewApplication_tx zones g actor p approve zone now t)"
  "tx_ensures (\<lambda>r. touches_told (told g [] r) t) (SetMemberRole_tx cap g actor target role t)"
  by (auto simp: KickMember_tx_def LeaveGuild_tx_def ReviewApplication_tx_def SetMemberRole_tx_def Let_def touches_told_def
      touches_refl touches_apps split: option.split
      intro: touches_departure touches_trans [OF touches_statements(4) touches_apps(1)] touches_statements(1))

lemma touches_role: "touches {g} {} t (snd (updateMemberRole role g p t))"
  using touches_statements(1) [of role g p t "fst (updateMemberRole role g p t)"] by simp

lemma TransferLeader_touches: "tx_ensures (\<lambda>r. touches_told (told g [] r) t) (TransferLeader_tx cap g actor target t)"
proof -
  have "touches {g} {} t (snd (updateMemberRole role g actor (snd (updateMemberRole role' g target t1))))"
    if "updateLeader target g t = (n, t1)" for role role' n t1
    using touches_trans [OF touches_statements(2) [OF that] touches_trans [OF touches_role touches_role]] .
  then show ?thesis by (auto simp: TransferLeader_tx_def Let_def touches_told_def split: option.split)
qed

lemma CreateGuild_touches:
  "tx_ensures (\<lambda>r. touches_told (case r of None \<Rightarrow> ([], []) | Some _ \<Rightarrow> ([g], [p])) t) (CreateGuild_tx g row norm (p, m) t)"
proof -
  have "touches {g} {p} t t2" if "insertMember g p role j a t = Some t1" "insertGuild g row norm (deleteApplicationsOfPlayer p [] t1) = Inr t2"
    for role j a t1 t2
    using touches_trans [OF touches_statements(4) [OF that(1)] touches_trans [OF touches_apps(1)
      touches_mono [OF touches_statements(6) [OF that(2)]]]] by simp
  then show ?thesis by (auto simp: CreateGuild_tx_def touches_told_def split: option.split)
qed

lemma DisbandGuild_touches:
  "tx_ensures (\<lambda>r. touches_told (case r of None \<Rightarrow> ([], []) | Some (_, ids) \<Rightarrow> ([g], ids)) t) (DisbandGuild_tx g actor now t)"
proof -
  have "touches {g} (set ids) t t'"
    if "deleteMembers g ids t = Inr t1" "accelerate_try g ids now (deleteApplicationRows ks t1) = Inr t3"
      "deleteGuild g (deleteGuildTrialBattles g (deleteGuildActivityProgress g t3)) = (n, t')" for ids t1 ks t3 n t'
    using touches_trans [OF touches_deleteMembers [OF that(1)] touches_trans [OF touches_apps(3) touches_trans [OF
      touches_mono [OF touches_statements(7) [OF that(2)]] touches_trans [OF touches_apps(5)
      touches_mono [OF touches_statements(5) [OF that(3)]]]]]] by simp
  then show ?thesis unfolding DisbandGuild_tx_def Let_def by (auto simp: touches_told_def prod_eq_iff)
qed

lemma columns_touches:
  "tx_ensures (\<lambda>r. touches_told (case r of None \<Rightarrow> ([], []) | Some _ \<Rightarrow> ([g], [])) t) (UpdateAnnouncement_tx g p announcement t)"
  "tx_ensures (\<lambda>r. touches_told (case r of None \<Rightarrow> ([], []) | Some _ \<Rightarrow> ([g], [])) t) (UpdateGuildScore_tx g points t)"
  by (auto simp: UpdateAnnouncement_tx_def UpdateGuildScore_tx_def Let_def touches_told_def touches_guild_update split: option.split)

text \<open>Transactions of the economy.  \<open>counterparty_touched\<close> is whether the settlement changed a guild or member row.\<close>

definition counterparty_touched :: "guild_op_row \<Rightarrow> op_status \<Rightarrow> counterparty_locks \<Rightarrow> bool" where
  "counterparty_touched row status locks =
     (status \<noteq> StatusAppliedPartial \<and>
      (case ar_kind row of
         KIND_DONATE \<Rightarrow> status = StatusApplied \<and> cl_guildOK locks
           \<and> (ar_funds_delta row > 0 \<or> cl_memberOK locks \<and> ar_contribution_delta row > 0)
       | KIND_SHOP \<Rightarrow> refundsCounterparty status \<and> cl_memberOK locks \<and> ar_contribution_delta row > 0
       | _ \<Rightarrow> False))"

abbreviation with_econ :: "guild_tables \<Rightarrow> guild_db \<Rightarrow> guild_tables" where
  "with_econ t db \<equiv> t\<lparr>gt_econ := db\<rparr>"

lemma touches_econ:
  "creditFunds db g n = Inr db' \<Longrightarrow> touches {g} {} (with_econ t db) (with_econ t db')"
  "creditContribution w db g p n = Inr db' \<Longrightarrow> touches {g} {} (with_econ t db) (with_econ t db')"
  "debitContribution db g p n = Some db' \<Longrightarrow> touches {g} {} (with_econ t db) (with_econ t db')"
  "touches G P (with_econ t db) (with_econ t (refundCounter db row kind k))"
  "cas_op opID cond f db = Some db' \<Longrightarrow> touches G P (with_econ t db) (with_econ t db')"
  by (auto simp: creditFunds_def creditContribution_def debitContribution_def refundCounter_def touches_def loadPlayerGuild_def
      filter_update_other find_update Let_def split: option.splits if_splits elim!: cas_op_Some)

lemma applyCounterparty_touches:
  assumes "applyCounterparty db row status locks = Inr (db', orphan)"
  shows "touches (if counterparty_touched row status locks then {ar_guild_id row} else {}) {} (with_econ t db) (with_econ t db')"
proof -
  let ?G = "if counterparty_touched row status locks then {ar_guild_id row} else {}"
  let ?T = "\<lambda>a b. touches ?G {} (with_econ t a) (with_econ t b)"
  have refund: "?T db d \<Longrightarrow> ?T db (case counterRefund row status of None \<Rightarrow> d | Some (kind, n) \<Rightarrow> refundCounter d row kind n)" for d
    using touches_trans [OF _ touches_econ(4)] by (auto split: option.split)
  have both: "touches {ar_guild_id row} {} (with_econ t db) (with_econ t d2)"
    if "creditFunds db (ar_guild_id row) n = Inr d1" "creditContribution w d1 (ar_guild_id row) p k = Inr d2" for n d1 w p k d2
    using touches_trans [OF touches_econ(1) [OF that(1)] touches_econ(2) [OF that(2)]] .
  show ?thesis
  proof (cases "status = StatusAppliedPartial")
    case True
    with assms show ?thesis by (simp add: applyCounterparty_def touches_refl)
  next
    case False
    from assms False obtain d where "db' = (case counterRefund row status of None \<Rightarrow> d | Some (kind, n) \<Rightarrow> refundCounter d row kind n)"
      and "?T db d" unfolding applyCounterparty_def Let_def counterparty_touched_def
      by (cases "ar_kind row")
        (auto split: if_splits sum.splits simp: touches_refl dest: touches_econ(1,2) both)
    with refund show ?thesis by simp
  qed
qed

lemma terminate_touches:
  assumes "terminate db0 (gt_econ t) opID status cond f = Inr (db', True)" and "find_op db0 opID = Some row"
  shows "touches (if counterparty_touched row status (lockCounterparty (gt_econ t) row status) then {ar_guild_id row} else {}) {}
    t (with_econ t db')"
proof -
  from assms obtain db1 orphan where cas: "cas_op opID cond f (gt_econ t) = Some db1"
    and app: "applyCounterparty db1 row status (lockCounterparty (gt_econ t) row status) = Inr (db', orphan)"
    by (auto simp: terminate_def Let_def split: option.splits sum.splits)
  from touches_trans [OF touches_econ(5) [OF cas, of _ _ t] applyCounterparty_touches [OF app, of t]] show ?thesis by simp
qed

lemma touches_reserve_parts:
  "ensureSeqRowTx db p st now = Inr db' \<Longrightarrow> touches G P (with_econ t db) (with_econ t db')"
  "allocateTx db p st = Inr (alloc, db') \<Longrightarrow> touches G P (with_econ t db) (with_econ t db')"
  "insertAssetOp db rec = Inr db' \<Longrightarrow> touches G P (with_econ t db) (with_econ t db')"
  "upsertCounterWithLimit db key n limit = Some db' \<Longrightarrow> touches G P (with_econ t db) (with_econ t db')"
  "insertClientRequestTx db p req opID = Inr db' \<Longrightarrow> touches G P (with_econ t db) (with_econ t db')"
  by (auto simp: ensureSeqRowTx_def allocateTx_def insertAssetOp_def upsertCounterWithLimit_def insertClientRequestTx_def
      Let_def split: if_splits option.splits sum.splits intro!: touches_other)

lemma ReserveShopOrder_touches:
  assumes "ReserveShopOrder (gt_econ t) i = Inr (db', alloc, after)"
  shows "touches {sr_GuildID i} {} t (with_econ t db')"
proof -
  let ?T = "\<lambda>a b. touches {sr_GuildID i} {} (with_econ t a) (with_econ t b)"
  from assms obtain d1 d2 d3 d4 d5 where e: "ensureSeqRowTx (gt_econ t) (sr_PlayerID i) STREAM_GUILD_CREDIT (sr_NowMs i) = Inr d1"
    and a: "allocateTx d1 (sr_PlayerID i) STREAM_GUILD_CREDIT = Inr (alloc, d2)" and ins: "insertAssetOp d2 (shop_row i alloc) = Inr d3"
    and u: "(if sr_LimitCount i > 0 then upsertCounterWithLimit d3 (sr_PlayerID i, COUNTER_SHOP, sr_GoodsID i, sr_PeriodKey i)
       (sr_Count i) (sr_LimitCount i) else Some d3) = Some d4"
    and d: "debitContribution d4 (sr_GuildID i) (sr_PlayerID i) (sr_Cost i) = Some d5"
    and c: "insertClientRequestTx d5 (sr_PlayerID i) (sr_ClientRequestID i) (sr_OpID i) = Inr db'"
    by (fastforce simp: ReserveShopOrder_def split: if_splits option.splits sum.splits)
  have "?T d3 d4" using u touches_reserve_parts(4) by (auto simp: touches_refl split: if_splits)
  from touches_trans [OF touches_reserve_parts(1) [OF e] touches_trans [OF touches_reserve_parts(2) [OF a] touches_trans [OF
      touches_reserve_parts(3) [OF ins] touches_trans [OF this touches_trans [OF touches_econ(3) [OF d] touches_reserve_parts(5) [OF c]]]]]]
  show ?thesis by simp
qed

lemma ReserveDonation_touches:
  assumes "ReserveDonation (gt_econ t) i = Inr (db', alloc)"
  shows "touches {} {} t (with_econ t db')"
proof -
  from assms obtain d1 d2 d3 d4 where e: "ensureSeqRowTx (gt_econ t) (dr_PlayerID i) STREAM_GUILD_DEBIT (dr_NowMs i) = Inr d1"
    and a: "allocateTx d1 (dr_PlayerID i) STREAM_GUILD_DEBIT = Inr (alloc, d2)" and ins: "insertAssetOp d2 (donation_row i alloc) = Inr d3"
    and u: "upsertCounterWithLimit d3 (dr_PlayerID i, COUNTER_DONATE, dr_DonateID i, dr_PeriodKey i) 1 (dr_DailyLimit i) = Some d4"
    and c: "insertClientRequestTx d4 (dr_PlayerID i) (dr_ClientRequestID i) (dr_OpID i) = Inr db'"
    by (auto simp: ReserveDonation_def split: if_splits option.splits sum.splits)
  from touches_trans [OF touches_reserve_parts(1) [where t = t and G = "{}" and P = "{}", OF e] touches_trans [OF touches_reserve_parts(2) [OF a] touches_trans [OF
      touches_reserve_parts(3) [OF ins] touches_trans [OF touches_reserve_parts(4) [OF u] touches_reserve_parts(5) [OF c]]]]]
  show ?thesis by simp
qed

lemma UpgradeGuild_touches: "UpgradeGuild levels (gt_econ t) g p expected = Inr (db', changed, level) \<Longrightarrow> touches {g} {} t (with_econ t db')"
  using touches_guild_update [of g t] by (auto simp: UpgradeGuild_def touches_refl split: option.splits if_splits)

section \<open>The guild service's cache\<close>

datatype cache_target = GuildTarget u64 | PlayerTarget u64

datatype cached = GuildValue guild_data | PlayerValue u64

text \<open>What a reader stores: the snapshot of a guild that exists, the guild of a player or 0.  There is no guild and
  no player 0.\<close>

fun load_target :: "guild_tables \<Rightarrow> cache_target \<Rightarrow> cached option" where
  "load_target t (GuildTarget g) = (if g = 0 then None else map_option GuildValue (loadGuild t g))"
| "load_target t (PlayerTarget p) =
     (if p = 0 then None else Some (PlayerValue (case loadPlayerGuild t p of None \<Rightarrow> 0 | Some g \<Rightarrow> g)))"

text \<open>The keys of \<open>invalidateAfterCommit(ctx, op, guildID, players...)\<close>.\<close>

definition invalidation_targets :: "u64 list \<times> u64 list \<Rightarrow> cache_target list" where
  "invalidation_targets k =
     map GuildTarget (filter (\<lambda>g. g \<noteq> 0) (fst k)) @ map PlayerTarget (filter (\<lambda>p. p \<noteq> 0) (snd k))"

text \<open>Every committed write of the service, with the keys it invalidates.\<close>

inductive guild_commit ::
  "(u32 \<Rightarrow> u32 option) \<Rightarrow> (u32 \<Rightarrow> (u64 \<times> u32) option) \<Rightarrow> guild_tables \<Rightarrow> guild_tables \<Rightarrow> cache_target list \<Rightarrow> bool"
  for cap levels where
  create: "runTxBody t (CreateGuild_tx g row norm (p, m) t) = (res, t')
    \<Longrightarrow> guild_commit cap levels t t' (invalidation_targets (case answer res of None \<Rightarrow> ([], []) | Some _ \<Rightarrow> ([g], [p])))"
| set_role: "runTxBody t (SetMemberRole_tx cap g actor target role t) = (res, t')
    \<Longrightarrow> guild_commit cap levels t t' (invalidation_targets (told g [] (answer res)))"
| transfer: "runTxBody t (TransferLeader_tx cap g actor target t) = (res, t')
    \<Longrightarrow> guild_commit cap levels t t' (invalidation_targets (told g [] (answer res)))"
| kick: "runTxBody t (KickMember_tx g actor target now t) = (res, t')
    \<Longrightarrow> guild_commit cap levels t t' (invalidation_targets (told g [target] (answer res)))"
| leave: "runTxBody t (LeaveGuild_tx g p now t) = (res, t')
    \<Longrightarrow> guild_commit cap levels t t' (invalidation_targets (told g [p] (answer res)))"
| review: "runTxBody t (ReviewApplication_tx zones g actor p approve zone now t) = (res, t')
    \<Longrightarrow> guild_commit cap levels t t' (invalidation_targets (told g [p] (answer res)))"
| disband: "runTxBody t (DisbandGuild_tx g actor now t) = (res, t')
    \<Longrightarrow> guild_commit cap levels t t'
          (invalidation_targets (case answer res of None \<Rightarrow> ([], []) | Some (_, ids) \<Rightarrow> ([g], ids)))"
| announce: "runTxBody t (UpdateAnnouncement_tx g p announcement t) = (res, t')
    \<Longrightarrow> guild_commit cap levels t t' (invalidation_targets (case answer res of None \<Rightarrow> ([], []) | Some _ \<Rightarrow> ([g], [])))"
| score: "runTxBody t (UpdateGuildScore_tx g points t) = (res, t')
    \<Longrightarrow> guild_commit cap levels t t' (invalidation_targets (case answer res of None \<Rightarrow> ([], []) | Some _ \<Rightarrow> ([g], [])))"
| apply_to: "runTxBody t (ApplyToGuild_tx zones g p zone now rules t) = (res, t') \<Longrightarrow> guild_commit cap levels t t' []"
| cancel: "runTxBody t (CancelApplication_tx g p now t) = (res, t') \<Longrightarrow> guild_commit cap levels t t' []"
| ensure_rows: "ensurePlayerStateRows t ids = Inr t' \<Longrightarrow> guild_commit cap levels t t' []"
| purge: "guild_commit cap levels t (purgeExpiredApplicationsOfGuild g now t) []"
| settle: "terminate db0 (gt_econ t) opID status cond f = Inr (db', True) \<Longrightarrow> find_op db0 opID = Some row
    \<Longrightarrow> guild_commit cap levels t (with_econ t db')
          (if counterparty_touched row status (lockCounterparty (gt_econ t) row status)
           then invalidation_targets ([ar_guild_id row], [ar_player_id row]) else [])"
| donate: "ReserveDonation (gt_econ t) i = Inr (db', alloc) \<Longrightarrow> guild_commit cap levels t (with_econ t db') []"
| order: "ReserveShopOrder (gt_econ t) j = Inr (db', alloc, after)
    \<Longrightarrow> guild_commit cap levels t (with_econ t db') (invalidation_targets ([sr_GuildID j], []))"
| upgrade: "UpgradeGuild levels (gt_econ t) g p expected = Inr (db', changed, level)
    \<Longrightarrow> guild_commit cap levels t (with_econ t db') (invalidation_targets ([g], []))"
| lease: "cas_op opID cond f (gt_econ t) = Some db' \<Longrightarrow> guild_commit cap levels t (with_econ t db') []"
| accelerate: "accelerateDonationDeadlines (gt_econ t) g ids now = Some db'
    \<Longrightarrow> guild_commit cap levels t (with_econ t db') []"

lemma invalidation_targets_mem [simp]:
  "GuildTarget g \<in> set (invalidation_targets k) \<longleftrightarrow> g \<noteq> 0 \<and> g \<in> set (fst k)"
  "PlayerTarget p \<in> set (invalidation_targets k) \<longleftrightarrow> p \<noteq> 0 \<and> p \<in> set (snd k)"
  by (auto simp: invalidation_targets_def)

lemma load_covered:
  assumes "touches (set (fst k)) (set (snd k)) t t'" and "x \<notin> set (invalidation_targets k)"
  shows "load_target t' x = load_target t x"
  using touches_load [OF assms(1)] assms(2) by (cases x) auto

lemma load_same: "touches {} {} t t' \<Longrightarrow> load_target t' x = load_target t x"
  using touches_load [of "{}" "{}" t t'] by (cases x) auto

lemma guild_commit_covers:
  assumes "guild_commit cap levels t t' ks" and "x \<notin> set ks"
  shows "load_target t' x = load_target t x"
  using assms(1)
proof (cases rule: guild_commit.cases)
  case (create g row norm p m res)
  then show ?thesis using load_covered runTxBody_touches [OF create(2) CreateGuild_touches] assms(2) by (auto simp: touches_told_def)
next
  case (set_role g actor target role res)
  then show ?thesis using load_covered runTxBody_touches [OF set_role(2) tx_touches(4)] assms(2) by (auto simp: touches_told_def)
next
  case (transfer g actor target res)
  then show ?thesis using load_covered runTxBody_touches [OF transfer(2) TransferLeader_touches] assms(2) by (auto simp: touches_told_def)
next
  case (kick g actor target now res)
  then show ?thesis using load_covered runTxBody_touches [OF kick(2) tx_touches(1)] assms(2) by (auto simp: touches_told_def)
next
  case (leave g p now res)
  then show ?thesis using load_covered runTxBody_touches [OF leave(2) tx_touches(2)] assms(2) by (auto simp: touches_told_def)
next
  case (review zones g actor p approve zone now res)
  then show ?thesis using load_covered runTxBody_touches [OF review(2) tx_touches(3)] assms(2) by (auto simp: touches_told_def)
next
  case (disband g actor now res)
  then show ?thesis using load_covered runTxBody_touches [OF disband(2) DisbandGuild_touches] assms(2) by (auto simp: touches_told_def)
next
  case (announce g p announcement res)
  then show ?thesis using load_covered runTxBody_touches [OF announce(2) columns_touches(1)] assms(2) by (auto simp: touches_told_def)
next
  case (score g points res)
  then show ?thesis using load_covered runTxBody_touches [OF score(2) columns_touches(2)] assms(2) by (auto simp: touches_told_def)
next
  case (apply_to zones g p zone now rules res)
  have "tx_ensures (\<lambda>r. touches_told ([], []) t) (ApplyToGuild_tx zones g p zone now rules t)"
    by (auto simp: ApplyToGuild_tx_def Let_def purgeExpiredApplicationsOfPlayer_def econ_deleteExpired touches_told_def intro!: touches_other)
  from runTxBody_touches [OF apply_to(2) this] show ?thesis by (simp add: touches_told_def load_same)
next
  case (cancel g p now res)
  have "tx_ensures (\<lambda>r. touches_told ([], []) t) (CancelApplication_tx g p now t)"
    by (auto simp: CancelApplication_tx_def deleteExpiredApplication_def touches_told_def touches_apps touches_refl split: option.split)
  from runTxBody_touches [OF cancel(2) this] show ?thesis by (simp add: touches_told_def load_same)
next
  case (ensure_rows ids)
  then show ?thesis by (intro load_same touches_other) (auto simp: ensure_Inr)
next
  case (purge g now)
  then show ?thesis using load_same [OF touches_apps(6)] by (simp add: purgeExpiredApplicationsOfGuild_def)
next
  case (settle db0 opID status cond f db' row)
  note touched = terminate_touches [OF settle(3,4)]
  show ?thesis
  proof (cases "counterparty_touched row status (lockCounterparty (gt_econ t) row status)")
    case True
    with touched have "touches (set (fst ([ar_guild_id row], [ar_player_id row]))) (set (snd ([ar_guild_id row], [ar_player_id row]))) t t'"
      using settle(1) by (auto intro: touches_mono)
    from load_covered [OF this] show ?thesis using True settle(2) assms(2) by simp
  next
    case False
    with touched settle(1) show ?thesis by (simp add: load_same)
  qed
next
  case (donate i db' alloc)
  then show ?thesis using load_same [OF ReserveDonation_touches] by simp
next
  case (order j db' alloc after)
  then show ?thesis using load_covered [of "([sr_GuildID j], [])"] ReserveShopOrder_touches [OF order(3)] assms(2) by simp
next
  case (upgrade g p expected db' changed level)
  then show ?thesis using load_covered [of "([g], [])"] UpgradeGuild_touches [OF upgrade(3)] assms(2) by simp
next
  case (lease opID cond f db')
  then show ?thesis using load_same touches_econ(5) [OF lease(3), of _ _ t] by simp
next
  case (accelerate g ids now db')
  then have "accelerate_try g ids now t = Inr t'" by (simp add: accelerate_try_def)
  from load_same [OF touches_statements(7) [OF this]] show ?thesis .
qed

interpretation guild_cache: covered_writes load_target "guild_commit cap levels"
  by unfold_locales (rule guild_commit_covers)

section \<open>Invalidation with retries\<close>

text \<open>One pass over the keys; \<open>fails\<close> are the keys whose call fails in this pass.\<close>

fun invalidateTargets ::
  "(cache_target \<Rightarrow> bool) \<Rightarrow> cache_target list \<Rightarrow> (cache_target \<Rightarrow> 'v versioned) \<Rightarrow> cache_target list \<times> (cache_target \<Rightarrow> 'v versioned)" where
  "invalidateTargets fails [] c = ([], c)"
| "invalidateTargets fails (k # ks) c =
     (if fails k then (case invalidateTargets fails ks c of (failed, c') \<Rightarrow> (k # failed, c'))
      else invalidateTargets fails ks (c(k := invalidateVersionedCache (c k))))"

fun invalidate_rounds ::
  "nat \<Rightarrow> (nat \<Rightarrow> cache_target \<Rightarrow> bool) \<Rightarrow> cache_target list \<Rightarrow> (cache_target \<Rightarrow> 'v versioned)
     \<Rightarrow> cache_target list \<times> (cache_target \<Rightarrow> 'v versioned)" where
  "invalidate_rounds 0 fails ks c = (ks, c)"
| "invalidate_rounds (Suc n) fails ks c =
     (if ks = [] then ([], c)
      else case invalidateTargets (fails n) ks c of (remaining, c') \<Rightarrow> invalidate_rounds n fails remaining c')"

text \<open>Once at once and three times in the background; the answer is what it gave up on.\<close>

definition invalidateAfterCommit ::
  "(nat \<Rightarrow> cache_target \<Rightarrow> bool) \<Rightarrow> u64 list \<times> u64 list \<Rightarrow> (cache_target \<Rightarrow> 'v versioned)
     \<Rightarrow> cache_target list \<times> (cache_target \<Rightarrow> 'v versioned)" where
  "invalidateAfterCommit fails k c = invalidate_rounds 4 fails (invalidation_targets k) c"

text \<open>Each pass is a sequence of invalidations; what failed stays pending.\<close>

lemma invalidateTargets_run:
  "invalidateTargets fails ks (cs_cache s) = (failed, c') \<Longrightarrow> cs_pending s = mset ks + M \<Longrightarrow>
    (cache_step load changes)\<^sup>*\<^sup>* s (s\<lparr>cs_cache := c', cs_pending := mset failed + M\<rparr>)"
proof (induction ks arbitrary: s failed M)
  case Nil
  then have "s\<lparr>cs_cache := c', cs_pending := mset failed + M\<rparr> = s" by (cases s) simp
  then show ?case by simp
next
  case (Cons k ks)
  show ?case
  proof (cases "fails k")
    case True
    with Cons.prems(1) obtain f where f: "invalidateTargets fails ks (cs_cache s) = (f, c')" "failed = k # f"
      by (auto split: prod.splits)
    from Cons.IH [OF f(1), of "add_mset k M"] Cons.prems(2) show ?thesis by (simp add: f(2))
  next
    case False
    let ?s = "s\<lparr>cs_cache := (cs_cache s)(k := invalidateVersionedCache (cs_cache s k)), cs_pending := mset ks + M\<rparr>"
    have "cache_step load changes s ?s" using cache_step.invalidate [of k s load changes] Cons.prems(2) by simp
    moreover have "(cache_step load changes)\<^sup>*\<^sup>* ?s (?s\<lparr>cs_cache := c', cs_pending := mset failed + M\<rparr>)"
      using False Cons.prems(1) by (intro Cons.IH) (simp_all add: fun_upd_def)
    ultimately show ?thesis by (simp add: converse_rtranclp_into_rtranclp)
  qed
qed

lemma invalidate_rounds_run:
  "invalidate_rounds n fails ks (cs_cache s) = (left, c') \<Longrightarrow> cs_pending s = mset ks + M \<Longrightarrow>
    (cache_step load changes)\<^sup>*\<^sup>* s (s\<lparr>cs_cache := c', cs_pending := mset left + M\<rparr>)"
proof (induction n arbitrary: s ks)
  case 0
  then have "s\<lparr>cs_cache := c', cs_pending := mset left + M\<rparr> = s" by (cases s) simp
  then show ?case by simp
next
  case (Suc n)
  show ?case
  proof (cases "ks = []")
    case False
    obtain failed c1 where one: "invalidateTargets (fails n) ks (cs_cache s) = (failed, c1)" by fastforce
    let ?s = "s\<lparr>cs_cache := c1, cs_pending := mset failed + M\<rparr>"
    from invalidateTargets_run [OF one Suc.prems(2)] have "(cache_step load changes)\<^sup>*\<^sup>* s ?s" .
    moreover have "(cache_step load changes)\<^sup>*\<^sup>* ?s (?s\<lparr>cs_cache := c', cs_pending := mset left + M\<rparr>)"
      using False one Suc.prems(1) by (intro Suc.IH) simp_all
    ultimately show ?thesis by simp
  next
    case True
    with Suc.prems have "s\<lparr>cs_cache := c', cs_pending := mset left + M\<rparr> = s" by (cases s) simp
    then show ?thesis by simp
  qed
qed

lemma invalidateTargets_none: "(\<And>x. \<not> fails x) \<Longrightarrow> fst (invalidateTargets fails ks c) = []"
  by (induction ks arbitrary: c) auto

lemma invalidate_rounds_none:
  "n' < n \<Longrightarrow> (\<And>x. \<not> fails n' x) \<Longrightarrow> fst (invalidate_rounds n fails ks c) = []"
proof (induction n arbitrary: ks c)
  case (Suc n)
  have "fst (invalidate_rounds n fails [] c) = []" for c :: "cache_target \<Rightarrow> 'a versioned" by (cases n) simp_all
  with Suc invalidateTargets_none [of "fails n" ks c] show ?case
    by (cases "n' = n") (auto split: prod.split)
qed simp

section \<open>Guarantees\<close>

text \<open>C20: the cache is never stale: whatever commits, reads, refreshes and expiries of any number of processes interleave, a
  value found under a key no committed write has still to invalidate is the one the database holds.\<close>

theorem cached_never_stale:
  assumes "(cache_step load_target (guild_commit cap levels))\<^sup>*\<^sup>* (cache_init t) s"
    and "k \<notin># cs_pending s" and "vc_cached (cs_cache s k) = Some v"
  shows "load_target (cs_db s) k = Some v"
  using guild_cache.never_stale [OF assms] .


section \<open>The guild of a player\<close>

text \<open>\<open>VerifyPlayerGuildID\<close>: the answer of the database and the keys it invalidates.\<close>

definition loadPlayerGuildFromMySQL :: "guild_tables \<Rightarrow> u64 \<Rightarrow> u64" where
  "loadPlayerGuildFromMySQL t player = (case loadPlayerGuild t player of None \<Rightarrow> 0 | Some g \<Rightarrow> g)"

definition VerifyPlayerGuildID :: "guild_tables \<Rightarrow> u64 \<Rightarrow> u64 \<Rightarrow> u64 \<times> cache_target list" where
  "VerifyPlayerGuildID t player cached =
     (let actual = loadPlayerGuildFromMySQL t player in
      (actual, if actual = cached then [] else invalidation_targets ([], [player])))"

definition guildHasMember :: "guild_data \<Rightarrow> u64 \<Rightarrow> bool" where
  "guildHasMember guild player = (\<exists>m \<in> set (snd guild). fst m = player)"

text \<open>\<open>mapped\<close> and \<open>cachedGuild\<close> are what the cached reads answer, however old; the three later reads go to the database.
  \<open>Inl\<close> is the refusal when the tables contradict each other.\<close>

definition resolveFresh :: "guild_tables \<Rightarrow> guild_tables \<Rightarrow> u64 \<Rightarrow> u64 \<Rightarrow> u64 + guild_data option" where
  "resolveFresh t2 t3 player guildID =
     (let verified = fst (VerifyPlayerGuildID t2 player guildID) in
      if verified = 0 then Inr None
      else (case loadGuild t3 verified of
          None \<Rightarrow> Inr None
        | Some guild \<Rightarrow> if guildHasMember guild player then Inr (Some guild) else Inl verified))"

definition ResolvePlayerGuild ::
  "u64 \<Rightarrow> (u64 \<Rightarrow> guild_data option) \<Rightarrow> guild_tables \<Rightarrow> guild_tables \<Rightarrow> guild_tables \<Rightarrow> u64 \<Rightarrow> u64 + guild_data option" where
  "ResolvePlayerGuild mapped cachedGuild t1 t2 t3 player =
     (let guildID = (if mapped = 0 then fst (VerifyPlayerGuildID t1 player 0) else mapped) in
      if guildID = 0 then Inr None
      else (case cachedGuild guildID of
          Some guild \<Rightarrow> if guildHasMember guild player then Inr (Some guild) else resolveFresh t2 t3 player guildID
        | None \<Rightarrow> resolveFresh t2 t3 player guildID))"

lemma loadGuild_members:
  assumes "uk_member t" and "loadGuild t g = Some d"
  shows "guildHasMember d p \<longleftrightarrow> loadPlayerGuild t p = Some g"
proof -
  have "guildHasMember d p \<longleftrightarrow> p \<in> fst ` set (snd d)" by (auto simp: guildHasMember_def)
  also have "\<dots> \<longleftrightarrow> p \<in> set (readMemberIDs t g)" using assms(2) by (auto simp: loadGuild_def image_image)
  also have "\<dots> \<longleftrightarrow> loadPlayerGuild t p = Some g"
    using readMemberIDs_roster [OF assms(1), of g] by (auto simp: loadPlayerGuild_roster)
  finally show ?thesis .
qed

text \<open>C23: a stale cache never loses a member: whatever the cached reads answer, while the database holds still the lookup
  of a player's guild is never refused, it answers none only when the player is in no guild, and the guild it
  answers lists the player: it is a cached one or his guild as the database has it.\<close>

theorem resolve_never_loses_a_member:
  assumes "world_reachable cap levels limit_of rules w" and "level_table cap levels" and "guild_at (gw_tables w) 0 = None"
  shows "case ResolvePlayerGuild mapped cachedGuild (gw_tables w) (gw_tables w) (gw_tables w) p of
      Inl _ \<Rightarrow> False
    | Inr None \<Rightarrow> loadPlayerGuild (gw_tables w) p = None
    | Inr (Some d) \<Rightarrow> guildHasMember d p \<and> ((\<exists>g. cachedGuild g = Some d) \<or>
        (\<exists>g. loadPlayerGuild (gw_tables w) p = Some g \<and> loadGuild (gw_tables w) g = Some d))"
proof -
  let ?t = "gw_tables w"
  from world_inv [OF assms(1,2)] have uk: "uk_member ?t" and ok: "roster_ok cap levels (guild_at ?t) (roster ?t) (gt_state ?t)"
    by (simp_all add: tables_ok_def view_inv_def)
  have exists: "\<exists>d. loadGuild ?t g = Some d" "g \<noteq> 0" if "loadPlayerGuild ?t p = Some g" for g
  proof -
    from that obtain role where "roster ?t p = Some (g, role)" by (auto simp: loadPlayerGuild_roster)
    from roster_okD(1) [OF ok this] assms(3) show "\<exists>d. loadGuild ?t g = Some d" "g \<noteq> 0" by (auto simp: loadGuild_def)
  qed
  have fresh: "case resolveFresh ?t ?t p guildID of Inl _ \<Rightarrow> False | Inr None \<Rightarrow> loadPlayerGuild ?t p = None
    | Inr (Some d) \<Rightarrow> guildHasMember d p \<and> (\<exists>g. loadPlayerGuild ?t p = Some g \<and> loadGuild ?t g = Some d)" for guildID
    using exists loadGuild_members [OF uk]
    by (cases "loadPlayerGuild ?t p")
      (fastforce simp: resolveFresh_def VerifyPlayerGuildID_def loadPlayerGuildFromMySQL_def Let_def)+
  define good where "good x = (case x of Inl (_ :: u64) \<Rightarrow> False | Inr None \<Rightarrow> loadPlayerGuild ?t p = None
    | Inr (Some d) \<Rightarrow> guildHasMember d p \<and> ((\<exists>g. cachedGuild g = Some d) \<or>
        (\<exists>g. loadPlayerGuild ?t p = Some g \<and> loadGuild ?t g = Some d)))" for x
  have from_db: "good (resolveFresh ?t ?t p guildID)" for guildID
    using fresh [of guildID] by (auto simp: good_def split: sum.splits option.splits)
  define guildID where "guildID = (if mapped = 0 then fst (VerifyPlayerGuildID ?t p 0) else mapped)"
  have "good (ResolvePlayerGuild mapped cachedGuild ?t ?t ?t p)"
  proof (cases "guildID = 0")
    case True
    then have "loadPlayerGuild ?t p = None" using exists(2)
      by (auto simp: guildID_def VerifyPlayerGuildID_def loadPlayerGuildFromMySQL_def Let_def split: if_splits option.splits)
    with True show ?thesis by (simp add: ResolvePlayerGuild_def guildID_def [symmetric] good_def)
  next
    case False
    then show ?thesis using from_db
      by (auto simp: ResolvePlayerGuild_def guildID_def [symmetric] good_def split: option.splits)
  qed
  then show ?thesis by (simp add: good_def)
qed

section \<open>Witnesses\<close>

text \<open>Guild 7 is founded, both its keys are invalidated, and a reader caches the guild of player 1.\<close>

definition sample_commit :: "(guild_tables, cache_target, cached) cache_sys" where
  "sample_commit = \<lparr>cs_db = sample_founded, cs_cache = \<lambda>_. \<lparr>vc_generation = 0, vc_cached = None\<rparr>,
     cs_pending = {#GuildTarget 7, PlayerTarget 1#}, cs_readers = Map.empty\<rparr>"

definition sample_cached :: "(guild_tables, cache_target, cached) cache_sys" where
  "sample_cached = sample_commit\<lparr>cs_cache := (\<lambda>_. \<lparr>vc_generation = 0, vc_cached = None\<rparr>)
       (GuildTarget 7 := \<lparr>vc_generation = 1, vc_cached = None\<rparr>,
        PlayerTarget 1 := \<lparr>vc_generation = 1, vc_cached = Some (PlayerValue 7)\<rparr>), cs_pending := {#}\<rparr>"

lemma sample_commit_step: "cache_step load_target (guild_commit sample_cap sample_levels) (cache_init sample_rows) sample_commit"
proof -
  have "guild_commit sample_cap sample_levels sample_rows sample_founded [GuildTarget 7, PlayerTarget 1]"
    using guild_commit.create [OF sample_found, of sample_cap sample_levels] by (simp add: invalidation_targets_def)
  then show ?thesis
    using cache_step.commit [of "guild_commit sample_cap sample_levels" "cache_init sample_rows" sample_founded "[GuildTarget 7, PlayerTarget 1]"]
    by (simp add: cache_init_def sample_commit_def)
qed

lemma sample_load: "loadPlayerGuild sample_founded 1 = Some 7"
  by code_simp

lemma sample_cached_run: "(cache_step load_target (guild_commit sample_cap sample_levels))\<^sup>*\<^sup>* (cache_init sample_rows) sample_cached"
proof -
  let ?S = "cache_step load_target (guild_commit sample_cap sample_levels)"
  let ?c = "(\<lambda>_. \<lparr>vc_generation = 0, vc_cached = None\<rparr>)(GuildTarget 7 := \<lparr>vc_generation = 1, vc_cached = None\<rparr>,
    PlayerTarget 1 := \<lparr>vc_generation = 1, vc_cached = None\<rparr>)"
  let ?s1 = "sample_commit\<lparr>cs_cache := ?c, cs_pending := {#}\<rparr>"
  have "invalidate_rounds (Suc (Suc (Suc (Suc 0)))) (\<lambda>_ _. False) [GuildTarget 7, PlayerTarget 1] (cs_cache sample_commit) = ([], ?c)"
    by (simp add: sample_commit_def invalidateVersionedCache_def)
  moreover have "invalidation_targets ([7], [1]) = [GuildTarget 7, PlayerTarget 1]" "(4 :: nat) = Suc (Suc (Suc (Suc 0)))"
    by (simp_all add: invalidation_targets_def)
  ultimately have "invalidateAfterCommit (\<lambda>_ _. False) ([7], [1]) (cs_cache sample_commit) = ([], ?c)"
    unfolding invalidateAfterCommit_def by presburger
  then have "?S\<^sup>*\<^sup>* sample_commit ?s1"
    using invalidate_rounds_run [of 4 "\<lambda>_ _. False" "invalidation_targets ([7], [1])" sample_commit "[]" ?c "{#}"]
    by (simp add: invalidateAfterCommit_def) (simp add: invalidation_targets_def sample_commit_def)
  moreover have "?S ?s1 (?s1\<lparr>cs_readers := [0 \<mapsto> Started (PlayerTarget 1) 1]\<rparr>)"
    using cache_step.start [of ?s1 "PlayerTarget 1" load_target "guild_commit sample_cap sample_levels" 0]
    by (simp add: sample_commit_def cacheGeneration_def)
  moreover have "?S (?s1\<lparr>cs_readers := [0 \<mapsto> Started (PlayerTarget 1) 1]\<rparr>) (?s1\<lparr>cs_readers := [0 \<mapsto> Loaded (PlayerTarget 1) 1 (PlayerValue 7)]\<rparr>)"
    using cache_step.load [of "?s1\<lparr>cs_readers := [0 \<mapsto> Started (PlayerTarget 1) 1]\<rparr>" 0 "PlayerTarget 1" 1 load_target "PlayerValue 7"
        "guild_commit sample_cap sample_levels"] sample_load by (simp add: sample_commit_def)
  moreover have "?S (?s1\<lparr>cs_readers := [0 \<mapsto> Loaded (PlayerTarget 1) 1 (PlayerValue 7)]\<rparr>) sample_cached"
    using cache_step.fill [of "?s1\<lparr>cs_readers := [0 \<mapsto> Loaded (PlayerTarget 1) 1 (PlayerValue 7)]\<rparr>" 0 "PlayerTarget 1" 1 "PlayerValue 7"
        load_target "guild_commit sample_cap sample_levels"] by (simp add: sample_commit_def sample_cached_def fillVersionedCache_def)
  ultimately show ?thesis using sample_commit_step by (meson converse_rtranclp_into_rtranclp rtranclp.rtrancl_into_rtrancl)
qed

theorem cached_never_stale_witness: "load_target sample_founded (PlayerTarget 1) = Some (PlayerValue 7)"
  using cached_never_stale [OF sample_cached_run, of "PlayerTarget 1" "PlayerValue 7"] by (simp add: sample_cached_def sample_commit_def)


theorem resolve_never_loses_a_member_witness:
  "case ResolvePlayerGuild 0 (\<lambda>_. None) sample_accepted sample_accepted sample_accepted 2 of Inr (Some d) \<Rightarrow> guildHasMember d 2 | _ \<Rightarrow> False"
proof -
  have "guild_at (gw_tables (sample_world sample_accepted 10)) 0 = None" "loadPlayerGuild sample_accepted 2 = Some 7"
    unfolding sample_world_def by code_simp+
  with resolve_never_loses_a_member [OF sample_reachable_accepted sample_table, where mapped = 0 and p = 2 and cachedGuild = "\<lambda>_. None"] show ?thesis
    by (auto simp: sample_world_def split: sum.splits option.splits)
qed

end
