(* ===== verification/Snowflake.thy ===== *)
theory Snowflake
  imports Prelude
begin

text \<open>
  The id generator of \<^verbatim>\<open>src/go/shared/snowflake/snowflake.go\<close>, its self-fencing clock
  (\<^verbatim>\<open>fenceclock.go\<close>) and the worker layout of \<^verbatim>\<open>src/go/shared/snowflakealloc/layout.go\<close>.

  Every \<open>time.Now()\<close> is an argument: an \<open>instant\<close> holds the wall clock (nanoseconds since 1970) and
  the monotonic clock (nanoseconds since some origin), and nothing relates two instants unless a
  theorem says so.  A call of \<open>Generate\<close> reads several of them, and \<open>Fence\<close>, which takes no lock, may
  arrive at three places of it; both are collected in \<open>gen_env\<close>.
\<close>

unbundle bit_operations_syntax

section \<open>Time\<close>

record instant =
  wall :: int
  monoclock :: int

definition second :: int where
  "second = 1000000000"

abbreviation (input) Epoch :: int where
  "Epoch \<equiv> 1773446400"

text \<open>\<open>time.Now().Unix()\<close> and the seconds since the epoch of the id layout, clamped at 0.\<close>

definition unix_sec :: "instant \<Rightarrow> int" where
  "unix_sec t = wall t div second"

definition nowEpoch :: "instant \<Rightarrow> u64" where
  "nowEpoch t = (if unix_sec t < Epoch then 0 else word_of_int (unix_sec t) - word_of_int Epoch)"

section \<open>The self-fencing clock\<close>

record fence_clock =
  budget :: int
  acked :: bool
  ackMono :: int
  ackWall :: int

definition NewFenceClockWithClocks :: "int \<Rightarrow> fence_clock option" where
  "NewFenceClockWithClocks b =
     (if b \<le> 0 then None else Some \<lparr>budget = b, acked = False, ackMono = 0, ackWall = 0\<rparr>)"

definition Ack :: "instant \<Rightarrow> fence_clock \<Rightarrow> fence_clock" where
  "Ack t c = c\<lparr>acked := True, ackMono := monoclock t, ackWall := wall t\<rparr>"

definition SeedAck :: "int \<Rightarrow> instant \<Rightarrow> fence_clock \<Rightarrow> fence_clock" where
  "SeedAck w t c =
     (let elapsed = (if wall t - w < 0 then 0 else wall t - w)
      in c\<lparr>acked := True, ackWall := w, ackMono := monoclock t - elapsed\<rparr>)"

definition Stale :: "instant \<Rightarrow> fence_clock \<Rightarrow> bool \<times> int" where
  "Stale t c =
     (if \<not> acked c then (True, 0)
      else let monoAge = monoclock t - ackMono c; wallAge = wall t - ackWall c;
               age = (if wallAge > monoAge then wallAge else monoAge)
           in (monoAge > budget c \<or> wallAge > budget c, age))"

definition LastAckWall :: "fence_clock \<Rightarrow> int option" where
  "LastAckWall c = (if acked c then Some (ackWall c) else None)"

section \<open>The generator\<close>

abbreviation (input) NodeBits :: nat where "NodeBits \<equiv> 17"
abbreviation (input) StepBits :: nat where "StepBits \<equiv> 15"
abbreviation (input) timeShift :: nat where "timeShift \<equiv> 32"
abbreviation (input) nodeShift :: nat where "nodeShift \<equiv> 15"
abbreviation (input) stepMask :: u64 where "stepMask \<equiv> 32767"
abbreviation (input) NodeMask :: u64 where "NodeMask \<equiv> 131071"

abbreviation (input) maxBorrowAheadSec :: u64 where "maxBorrowAheadSec \<equiv> 10"

definition waitBudget :: int where
  "waitBudget = 3 * second"

datatype gen_error = ErrFenced | ErrWatermarkStale | ErrBorrowLimitExceeded

record node =
  nodeID :: u64
  lastTime :: u64
  step :: u64
  lastBorrowRejectLogSec :: u64
  fenced :: bool
  bootGuardPending :: bool

text \<open>\<open>None\<close> is the panic: a worker id of more than 17 bits, or a wall clock before the epoch.\<close>

definition NewNode :: "u64 \<Rightarrow> instant \<Rightarrow> instant \<Rightarrow> node option" where
  "NewNode nid t t' =
     (if nid > NodeMask then None
      else if unix_sec t < Epoch then None
      else Some \<lparr>nodeID = nid, lastTime = nowEpoch t', step = stepMask, lastBorrowRejectLogSec = 0,
                 fenced = False, bootGuardPending = True\<rparr>)"

definition SetGuardTime :: "u64 \<Rightarrow> node \<Rightarrow> node" where
  "SetGuardTime guardEpochSec n =
     (if guardEpochSec \<le> lastTime n then n
      else n\<lparr>lastTime := guardEpochSec, step := stepMask, bootGuardPending := True\<rparr>)"

definition HighWaterEpochSec :: "node \<Rightarrow> u64" where
  "HighWaterEpochSec n = lastTime n"

definition Fence :: "node \<Rightarrow> node" where
  "Fence n = n\<lparr>fenced := True\<rparr>"

definition checkWatermarkAge :: "fence_clock option \<Rightarrow> instant \<Rightarrow> gen_error option" where
  "checkWatermarkAge fc t =
     (case fc of None \<Rightarrow> None | Some c \<Rightarrow> if fst (Stale t c) then Some ErrWatermarkStale else None)"

text \<open>The bounded wait: round \<open>i\<close> reads \<open>nowEpoch()\<close> at \<open>fst (ws i)\<close> and the deadline check's
  \<open>time.Now()\<close> at \<open>snd (ws i)\<close>; a loop that never leaves is \<open>None\<close>.\<close>

partial_function (option) waitNextTime_from ::
  "(nat \<Rightarrow> instant \<times> instant) \<Rightarrow> int \<Rightarrow> u64 \<Rightarrow> nat \<Rightarrow> u64 option" where
  "waitNextTime_from ws deadline lst i =
     (let now = nowEpoch (fst (ws i)) in
      if now > lst then Some now
      else if monoclock (snd (ws i)) > deadline then Some now
      else waitNextTime_from ws deadline lst (Suc i))"

declare waitNextTime_from.simps [code]

definition waitNextTime :: "instant \<Rightarrow> (nat \<Rightarrow> instant \<times> instant) \<Rightarrow> u64 \<Rightarrow> u64 option" where
  "waitNextTime start ws lst = waitNextTime_from ws (monoclock start + waitBudget) lst 0"

text \<open>What one call of \<open>Generate\<close> meets: the state of the attached fence clock and the instant at each
  of its two age checks, the instant of \<open>nowEpoch()\<close>, the instants of the wait, and whether \<open>Fence\<close>
  arrived before the first check, while the call queued for the lock, or after that.\<close>

record gen_env =
  fence_before :: bool
  clock_before :: "fence_clock option"
  at_before :: instant
  fence_locked :: bool
  at_now :: instant
  wait_start :: instant
  waits :: "nat \<Rightarrow> instant \<times> instant"
  fence_after :: bool
  clock_after :: "fence_clock option"
  at_after :: instant

definition fence_if :: "bool \<Rightarrow> node \<Rightarrow> node" where
  "fence_if b n = (if b then Fence n else n)"

text \<open>The switch of \<open>Generate\<close>: a new second, the next step of the high-water second, or (the step
  pool being exhausted) a wait and, if the clock did not move, a borrowed second within the budget.\<close>

definition next_stamp :: "node \<Rightarrow> gen_env \<Rightarrow> (gen_error option \<times> node) option" where
  "next_stamp n e =
     (let now = nowEpoch (at_now e) in
      if now > lastTime n then Some (None, n\<lparr>lastTime := now, step := 0\<rparr>)
      else if step n < stepMask then Some (None, n\<lparr>step := step n + 1\<rparr>)
      else (case waitNextTime (wait_start e) (waits e) (lastTime n) of
          None \<Rightarrow> None
        | Some advanced \<Rightarrow>
            if advanced > lastTime n then Some (None, n\<lparr>lastTime := advanced, step := 0\<rparr>)
            else if lastTime n + 1 > advanced + maxBorrowAheadSec
            then Some (Some ErrBorrowLimitExceeded, n\<lparr>lastBorrowRejectLogSec := advanced\<rparr>)
            else Some (None, n\<lparr>lastTime := lastTime n + 1, step := 0\<rparr>)))"

definition compose_id :: "u64 \<Rightarrow> u64 \<Rightarrow> u64 \<Rightarrow> u64" where
  "compose_id t w s = push_bit timeShift t OR push_bit nodeShift w OR s"

definition Generate :: "node \<Rightarrow> gen_env \<Rightarrow> ((gen_error + u64) \<times> node) option" where
  "Generate n e =
     (let n1 = fence_if (fence_before e) n in
      if fenced n1 then Some (Inl ErrFenced, n1)
      else (case checkWatermarkAge (clock_before e) (at_before e) of
          Some err \<Rightarrow> Some (Inl err, n1)
        | None \<Rightarrow>
           (let n2 = fence_if (fence_locked e) n1 in
            if fenced n2 then Some (Inl ErrFenced, n2)
            else (case next_stamp (n2\<lparr>bootGuardPending := False\<rparr>) e of
                None \<Rightarrow> None
              | Some (refusal, n3) \<Rightarrow>
                 (let n4 = fence_if (fence_after e) n3 in
                  case refusal of
                    Some err \<Rightarrow> Some (Inl err, n4)
                  | None \<Rightarrow>
                      if fenced n4 then Some (Inl ErrFenced, n4)
                      else (case checkWatermarkAge (clock_after e) (at_after e) of
                          Some err \<Rightarrow> Some (Inl err, n4)
                        | None \<Rightarrow>
                            Some (Inr (compose_id (lastTime n4) (nodeID n4) (step n4)), n4)))))))"

section \<open>A node over time\<close>

text \<open>The calls a node receives in the order in which they take its lock, and the ids they return; a
  call that never returns keeps the lock.\<close>

datatype node_op = Mint gen_env | Guard u64 | Fencing

definition node_act :: "node \<Rightarrow> node_op \<Rightarrow> (u64 option \<times> node) option" where
  "node_act n a = (case a of
       Mint e \<Rightarrow> (case Generate n e of
           None \<Rightarrow> None
         | Some (Inl err, n') \<Rightarrow> Some (None, n')
         | Some (Inr i, n') \<Rightarrow> Some (Some i, n'))
     | Guard g \<Rightarrow> Some (None, SetGuardTime g n)
     | Fencing \<Rightarrow> Some (None, Fence n))"

fun run_source :: "('s \<Rightarrow> 'a \<Rightarrow> ('i option \<times> 's) option) \<Rightarrow> 's \<Rightarrow> 'a list \<Rightarrow> ('i list \<times> 's) option" where
  "run_source act s [] = Some ([], s)"
| "run_source act s (a # as) =
     (case act s a of
        None \<Rightarrow> None
      | Some (r, s') \<Rightarrow> (case run_source act s' as of
            None \<Rightarrow> None
          | Some (is, s'') \<Rightarrow> Some (case r of None \<Rightarrow> is | Some i \<Rightarrow> i # is, s'')))"

section \<open>The worker layout\<close>

abbreviation (input) ClusterBits :: nat where "ClusterBits \<equiv> 5"
abbreviation (input) SlotBits :: nat where "SlotBits \<equiv> 12"

text \<open>\<open>None\<close> is the error of a layout that does not fit, or of a cluster or slot out of its range.\<close>

definition ComposeWorkerID :: "u32 \<Rightarrow> u64 \<Rightarrow> nat \<Rightarrow> nat \<Rightarrow> u64 option" where
  "ComposeWorkerID cluster slot clusterBits slotBits =
     (if clusterBits = 0 \<or> slotBits = 0 \<or> clusterBits + slotBits > 63 then None
      else if (ucast cluster :: u64) > push_bit clusterBits 1 - 1 then None
      else if slot > push_bit slotBits 1 - 1 then None
      else Some (push_bit slotBits (ucast cluster) OR slot))"

definition DecodeWorkerID :: "u64 \<Rightarrow> nat \<Rightarrow> nat \<Rightarrow> u32 \<times> u64" where
  "DecodeWorkerID worker clusterBits slotBits =
     (let slotMask = push_bit slotBits 1 - 1; clusterMask = push_bit clusterBits 1 - 1
      in (ucast (drop_bit slotBits worker AND clusterMask), worker AND slotMask))"

definition WorkerOf :: "u64 \<Rightarrow> u64" where
  "WorkerOf i = drop_bit StepBits i AND NodeMask"

definition DecodeID :: "u64 \<Rightarrow> u64 \<times> u32 \<times> u64 \<times> u64" where
  "DecodeID i =
     (let (cluster, slot) = DecodeWorkerID (WorkerOf i) ClusterBits SlotBits
      in (drop_bit (NodeBits + StepBits) i, cluster, slot, i AND (push_bit StepBits 1 - 1)))"

end
