(* ===== verification/SlotAlloc.thy ===== *)
theory SlotAlloc
  imports Snowflake
begin

text \<open>
  The allocator of worker slots, \<^verbatim>\<open>src/go/shared/snowflakealloc\<close>: the choice of a slot
  (\<^verbatim>\<open>selection.go\<close>), the claim, the reuse after a graceful exit, the watermark writes, the reclaim of
  a lost key and the close (\<^verbatim>\<open>allocator.go\<close>), in a deployment without a local cache file and without
  the prefix of the previous layout.

  etcd is the explicit store the transactions of the source act on: the four key families of one kind and
  cluster, each value with its lease or its modification revision.  A transaction is applied as a whole;
  a call may also fail before the store sees it, or be applied without its answer arriving.
  Slot numbers and watermarks are stored as numbers (the source prints and parses decimals).
\<close>

section \<open>Options\<close>

record options =
  oLeaseTTL :: int
  oClusterID :: u32
  oClusterBits :: nat
  oSlotBits :: nat
  oMaxSlot :: u64
  oQuarantine :: int
  oFenceAfter :: int

record resolvedOptions =
  ttl :: int
  cluster :: u32
  clusterBits :: nat
  slotBits :: nat
  maxSlot :: u64
  quarantine :: int
  fenceAfter :: int

abbreviation (input) hour :: int where "hour \<equiv> 3600 * 1000000000"

definition or_default :: "'a \<Rightarrow> 'a \<Rightarrow> bool \<Rightarrow> 'a" where
  "or_default x d unset = (if unset then d else x)"

text \<open>\<open>None\<close> is \<open>ErrInvalidOptions\<close>.\<close>

definition resolve :: "options \<Rightarrow> resolvedOptions option" where
  "resolve opt =
     (let cb = or_default (oClusterBits opt) ClusterBits (oClusterBits opt = 0);
          sb = or_default (oSlotBits opt) SlotBits (oSlotBits opt = 0) in
      if cb + sb > 63 then None
      else if (ucast (oClusterID opt) :: u64) > push_bit cb 1 - 1 then None
      else let slotCap = push_bit sb 1 - 1;
               ms = or_default (oMaxSlot opt) slotCap (oMaxSlot opt = 0) in
        if ms > slotCap then None
        else let q = or_default (oQuarantine opt) (4 * hour) (oQuarantine opt \<le> 0);
                 f = or_default (oFenceAfter opt) (2 * hour) (oFenceAfter opt \<le> 0) in
          if f > q div 2 then None
          else Some \<lparr>ttl = or_default (oLeaseTTL opt) 60 (oLeaseTTL opt \<le> 0), cluster = oClusterID opt,
                     clusterBits = cb, slotBits = sb, maxSlot = ms, quarantine = q, fenceAfter = f\<rparr>)"

section \<open>The choice of a slot\<close>

text \<open>The scan in ascending order: skip the used and the quarantined, keep the lowest watermark, stop
  at the first slot nobody ever used.\<close>

fun selectSlot_scan ::
  "(u64 \<Rightarrow> bool) \<Rightarrow> (u64 \<Rightarrow> u64) \<Rightarrow> u64 \<Rightarrow> u64 \<Rightarrow> (u64 \<times> u64) option \<Rightarrow> u64 list \<Rightarrow> (u64 \<times> u64) option" where
  "selectSlot_scan used wm now q best [] = best"
| "selectSlot_scan used wm now q best (s # ss) =
     (if used s then selectSlot_scan used wm now q best ss
      else if wm s \<noteq> 0 \<and> (now < wm s \<or> now - wm s < q) then selectSlot_scan used wm now q best ss
      else let best' = (case best of
                   None \<Rightarrow> Some (s, wm s)
                 | Some (b, bw) \<Rightarrow> if wm s < bw then Some (s, wm s) else best)
           in if wm s = 0 then best' else selectSlot_scan used wm now q best' ss)"

definition selectSlot :: "(u64 \<Rightarrow> bool) \<Rightarrow> (u64 \<Rightarrow> u64) \<Rightarrow> u64 \<Rightarrow> u64 \<Rightarrow> u64 \<Rightarrow> u64 option" where
  "selectSlot used wm now q ms =
     map_option fst (selectSlot_scan used wm now q None (map of_nat [0..<Suc (unat ms)]))"

text \<open>The maximum per slot of two sources of watermarks (0 where a source has none).\<close>

definition mergeWatermarks :: "(u64 \<Rightarrow> u64) \<Rightarrow> (u64 \<Rightarrow> u64) \<Rightarrow> u64 \<Rightarrow> u64" where
  "mergeWatermarks dst src s = (if src s > dst s then src s else dst s)"

section \<open>The store\<close>

record etcd =
  revision :: int
  slots :: "u64 \<Rightarrow> (string \<times> int) option"
  affinity :: "string \<Rightarrow> (u64 \<times> int) option"
  released :: "string \<Rightarrow> int option"
  watermark :: "u64 \<Rightarrow> (u64 \<times> int) option"

datatype rpc = Answered | Unsent | Unanswered

definition ModRevision :: "(u64 \<times> int) option \<Rightarrow> int" where
  "ModRevision kv = (case kv of None \<Rightarrow> 0 | Some (v, rv) \<Rightarrow> rv)"

definition wm_value :: "(u64 \<times> int) option \<Rightarrow> u64" where
  "wm_value kv = (case kv of None \<Rightarrow> 0 | Some (v, rv) \<Rightarrow> v)"

definition holds :: "etcd \<Rightarrow> u64 \<Rightarrow> string \<Rightarrow> bool" where
  "holds st s uuid = (case slots st s of None \<Rightarrow> False | Some (u, l) \<Rightarrow> u = uuid)"

text \<open>The puts of a slot key and the affinity key of its host onto one lease.\<close>

definition put_slot :: "u64 \<Rightarrow> string \<Rightarrow> string \<Rightarrow> int \<Rightarrow> etcd \<Rightarrow> etcd" where
  "put_slot s uuid host l st =
     st\<lparr>revision := revision st + 1, slots := (slots st)(s \<mapsto> (uuid, l)),
        affinity := (affinity st)(host \<mapsto> (s, l))\<rparr>"

definition put_watermark :: "u64 \<Rightarrow> u64 \<Rightarrow> etcd \<Rightarrow> etcd" where
  "put_watermark s v st =
     st\<lparr>revision := revision st + 1, watermark := (watermark st)(s \<mapsto> (v, revision st + 1))\<rparr>"

text \<open>The end of a lease takes every key attached to it; watermarks carry no lease.\<close>

definition expire :: "int \<Rightarrow> etcd \<Rightarrow> etcd" where
  "expire l st =
     st\<lparr>revision := revision st + 1,
        slots := (\<lambda>s. case slots st s of Some (u, k) \<Rightarrow> if k = l then None else Some (u, k) | None \<Rightarrow> None),
        affinity := (\<lambda>h. case affinity st h of Some (s, k) \<Rightarrow> if k = l then None else Some (s, k) | None \<Rightarrow> None),
        released := (\<lambda>h. case released st h of Some k \<Rightarrow> if k = l then None else Some k | None \<Rightarrow> None)\<rparr>"

section \<open>Claims\<close>

record claim =
  cLease :: int
  cSlot :: u64
  cUuid :: string
  cIncarnation :: int
  cReused :: bool

definition scanUsedSlots :: "etcd \<Rightarrow> u64 \<Rightarrow> bool" where
  "scanUsedSlots st s = (slots st s \<noteq> None)"

definition scanWatermarks :: "etcd \<Rightarrow> u64 \<Rightarrow> u64" where
  "scanWatermarks st s = wm_value (watermark st s)"

text \<open>One round of the claim loop.  \<open>used\<close> and \<open>wm\<close> are what the scans returned, \<open>st\<close> the store the
  transaction meets.  \<open>Inl True\<close> ends the loop without a slot, \<open>Inl False\<close> asks for another round.\<close>

definition claim_round ::
  "resolvedOptions \<Rightarrow> string \<Rightarrow> string \<Rightarrow> int \<Rightarrow> (u64 \<Rightarrow> bool) \<Rightarrow> (u64 \<Rightarrow> u64) \<Rightarrow> instant \<Rightarrow> etcd
     \<Rightarrow> (bool + claim) \<times> etcd" where
  "claim_round r host uuid l used wm t st =
     (case selectSlot used wm (nowEpoch t) (word_of_int (quarantine r div second)) (maxSlot r) of
        None \<Rightarrow> (Inl True, st)
      | Some s \<Rightarrow>
          if slots st s = None
          then (Inr \<lparr>cLease = l, cSlot = s, cUuid = uuid, cIncarnation = revision st + 1, cReused = False\<rparr>,
                put_slot s uuid host l st)
          else (Inl False, st))"

text \<open>The reuse of a released slot: \<open>a\<close> and \<open>rl\<close> are the affinity and released keys read in one
  transaction, \<open>k\<close> the slot key read next, \<open>st\<close> the store the final transaction meets; its six
  comparisons are repeated there.\<close>

definition tryReuse ::
  "resolvedOptions \<Rightarrow> string \<Rightarrow> string \<Rightarrow> int \<Rightarrow> (u64 \<times> int) option \<Rightarrow> int option
     \<Rightarrow> (string \<times> int) option \<Rightarrow> etcd \<Rightarrow> claim option \<times> etcd" where
  "tryReuse r host uuid l a rl k st =
     (case a of None \<Rightarrow> (None, st)
      | Some (s, predLease) \<Rightarrow>
        (case rl of None \<Rightarrow> (None, st)
         | Some rLease \<Rightarrow>
           if predLease = 0 \<or> rLease \<noteq> predLease then (None, st)
           else if s > maxSlot r then (None, st)
           else (case k of None \<Rightarrow> (None, st)
             | Some (predUUID, kLease) \<Rightarrow>
               if kLease \<noteq> predLease then (None, st)
               else if affinity st host = Some (s, predLease) \<and> released st host = Some predLease
                    \<and> slots st s = Some (predUUID, predLease)
               then (Some \<lparr>cLease = l, cSlot = s, cUuid = uuid, cIncarnation = revision st + 1, cReused = True\<rparr>,
                     (put_slot s uuid host l st)\<lparr>released := (released st)(host := None)\<rparr>)
               else (None, st))))"

section \<open>Handles\<close>

record handle =
  hHost :: string
  Slot :: u64
  WorkerID :: u64
  UUID :: string
  GuardEpochSec :: u64
  hLease :: int
  incarnation :: int
  registered :: bool
  needReclaim :: bool
  fence :: fence_clock
  guardWritten :: u64
  guardRev :: int
  hnode :: "node option"
  closing :: bool
  lost :: bool

definition newHandle :: "resolvedOptions \<Rightarrow> string \<Rightarrow> u64 \<Rightarrow> u64 \<Rightarrow> string \<Rightarrow> handle" where
  "newHandle r host worker s uuid =
     \<lparr>hHost = host, Slot = s, WorkerID = worker, UUID = uuid, GuardEpochSec = 0, hLease = 0,
      incarnation = 0, registered = False, needReclaim = False,
      fence = \<lparr>budget = fenceAfter r, acked = False, ackMono = 0, ackWall = 0\<rparr>,
      guardWritten = 0, guardRev = 0, hnode = None, closing = False, lost = False\<rparr>"

text \<open>\<open>readWatermarkFloorRetry\<close>: up to three reads, each of which may fail.\<close>

definition readWatermarkFloorRetry :: "bool list \<Rightarrow> u64 \<Rightarrow> etcd \<Rightarrow> (u64 \<times> int) option" where
  "readWatermarkFloorRetry oks s st =
     (if \<exists>b \<in> set (take 3 oks). b then Some (wm_value (watermark st s), ModRevision (watermark st s)) else None)"

text \<open>A revocation, whose error the source ignores: the keys then go when the lease runs out.\<close>

definition revoke :: "rpc \<Rightarrow> int \<Rightarrow> etcd \<Rightarrow> etcd" where
  "revoke net l st = (if net = Unsent then st else expire l st)"

text \<open>What follows a successful claim in \<open>AllocateWithKeepAlive\<close>: the worker number, the floor, the
  handle and the keepalive stream.  \<open>None\<close> gives the slot back: a worker number out of range, a reused
  slot whose floor cannot be read, or no keepalive.  The first watermark write is the next
  \<open>advanceGuard\<close>.\<close>

definition open_handle ::
  "resolvedOptions \<Rightarrow> string \<Rightarrow> bool list \<Rightarrow> bool \<Rightarrow> rpc \<Rightarrow> claim \<Rightarrow> etcd \<Rightarrow> handle option \<times> etcd" where
  "open_handle r host oks ka net cl st =
     (case ComposeWorkerID (cluster r) (cSlot cl) (clusterBits r) (slotBits r) of
        None \<Rightarrow> (None, revoke net (cLease cl) st)
      | Some worker \<Rightarrow>
        (let h = (newHandle r host worker (cSlot cl) (cUuid cl))
                   \<lparr>hLease := cLease cl, incarnation := cIncarnation cl, registered := True\<rparr> in
         case readWatermarkFloorRetry oks (cSlot cl) st of
           None \<Rightarrow> if cReused cl \<or> \<not> ka then (None, revoke net (cLease cl) st)
                   else (Some (h\<lparr>GuardEpochSec := 0\<rparr>), st)
         | Some (floor, floorRev) \<Rightarrow>
             if \<not> ka then (None, revoke net (cLease cl) st)
             else (Some (h\<lparr>guardWritten := floor, guardRev := floorRev, GuardEpochSec := floor\<rparr>), st)))"

definition fenceAll :: "handle \<Rightarrow> handle" where
  "fenceAll h = h\<lparr>hnode := map_option Fence (hnode h)\<rparr>"

definition markLost :: "handle \<Rightarrow> handle" where
  "markLost h = (if lost h then h else (fenceAll h)\<lparr>lost := True\<rparr>)"

definition onOwnershipLost :: "handle \<Rightarrow> handle" where
  "onOwnershipLost h = (if closing h then h else markLost h)"

section \<open>Watermarks\<close>

abbreviation (input) guardLeadSec :: u64 where "guardLeadSec \<equiv> 2"

datatype wm_result = WmErr | NotOwned | Persisted u64

text \<open>The CAS loop of \<open>putWatermarkLocked\<close> with \<open>k\<close> attempts left (2 at the call).  \<open>rv\<close> is the revision
  last observed; the transaction writes only while the slot key still names us and the watermark key
  has that revision.  The value that another write put higher is kept and returned.\<close>

fun putWatermarkLocked ::
  "nat \<Rightarrow> (nat \<Rightarrow> rpc) \<Rightarrow> u64 \<Rightarrow> string \<Rightarrow> u64 \<Rightarrow> int \<Rightarrow> etcd \<Rightarrow> wm_result \<times> int \<times> etcd" where
  "putWatermarkLocked 0 net s uuid target rv st = (WmErr, rv, st)"
| "putWatermarkLocked (Suc k) net s uuid target rv st =
     (let hit = holds st s uuid \<and> ModRevision (watermark st s) = rv in
      case net k of
        Unsent \<Rightarrow> (WmErr, rv, st)
      | Unanswered \<Rightarrow> (WmErr, rv, if hit then put_watermark s target st else st)
      | Answered \<Rightarrow>
          if \<not> holds st s uuid then (NotOwned, rv, st)
          else if hit then (Persisted target, revision st + 1, put_watermark s target st)
          else (case watermark st s of
              None \<Rightarrow> putWatermarkLocked k net s uuid target 0 st
            | Some (stored, rv') \<Rightarrow>
                if stored \<ge> target then (Persisted stored, rv', st)
                else putWatermarkLocked k net s uuid target rv' st))"

definition ackLocked :: "instant \<Rightarrow> handle \<Rightarrow> handle" where
  "ackLocked t h = h\<lparr>fence := Ack t (fence h)\<rparr>"

definition guard_target :: "instant \<Rightarrow> handle \<Rightarrow> u64" where
  "guard_target t h =
     (let now = nowEpoch t;
          high = (case hnode h of None \<Rightarrow> now | Some n \<Rightarrow> if HighWaterEpochSec n > now then HighWaterEpochSec n else now);
          target = high + guardLeadSec
      in if target < guardWritten h then guardWritten h else target)"

text \<open>\<open>t\<close> is the instant of the target, \<open>t'\<close> that of the acknowledgement.\<close>

definition advanceGuard :: "(nat \<Rightarrow> rpc) \<Rightarrow> instant \<Rightarrow> instant \<Rightarrow> handle \<Rightarrow> etcd \<Rightarrow> bool \<times> handle \<times> etcd" where
  "advanceGuard net t t' h st =
     (let target = guard_target t h;
          (res, rv, st') = putWatermarkLocked 2 net (Slot h) (UUID h) target (guardRev h) st;
          h1 = h\<lparr>guardRev := rv\<rparr> in
      case res of
        WmErr \<Rightarrow> (False, h1, st')
      | NotOwned \<Rightarrow> (False, h1\<lparr>needReclaim := True\<rparr>, st')
      | Persisted v \<Rightarrow>
          (True,
           ackLocked t' (h1\<lparr>guardWritten := v,
             hnode := (if v > target then map_option (SetGuardTime v) (hnode h) else hnode h)\<rparr>),
           st'))"

text \<open>\<open>NewNode\<close> of the handle, up to its synchronous \<open>advanceGuard\<close>; \<open>None\<close> is the generator's panic.\<close>

definition handle_NewNode :: "instant \<Rightarrow> instant \<Rightarrow> handle \<Rightarrow> handle option" where
  "handle_NewNode t t' h =
     (case Snowflake.NewNode (WorkerID h) t t' of
        None \<Rightarrow> None
      | Some n \<Rightarrow>
          let floor = (if guardWritten h > GuardEpochSec h then guardWritten h else GuardEpochSec h);
              n' = (if floor > 0 then SetGuardTime floor n else n)
          in Some (h\<lparr>hnode := Some n'\<rparr>))"

definition SyncWatermark :: "(nat \<Rightarrow> rpc) \<Rightarrow> instant \<Rightarrow> instant \<Rightarrow> instant \<Rightarrow> handle \<Rightarrow> etcd \<Rightarrow> bool \<times> handle \<times> etcd" where
  "SyncWatermark net t t' ts h st =
     (let (okay, h', st') = advanceGuard net t t' h st in (\<not> fst (Stale ts (fence h')), h', st'))"

section \<open>Reclaiming a lost key\<close>

text \<open>What one reclaim meets: the answer of the first read (\<open>None\<close>: the call failed), whether the current
  lease still has time, the lease granted, the fate of the transaction, the answer of the follow-up
  read, the instant of the staleness check and whether the floor could be read again.\<close>

record reclaim_env =
  rc_get :: "(string \<times> int) option option"
  rc_alive :: bool
  rc_grant :: "int option"
  rc_txn :: rpc
  rc_after :: "(string \<times> int) option option"
  rc_stale_at :: instant
  rc_floor_read :: bool

definition refloorFromWatermark :: "bool \<Rightarrow> handle \<Rightarrow> etcd \<Rightarrow> handle" where
  "refloorFromWatermark okay h st =
     (if \<not> okay then h
      else let floor = wm_value (watermark st (Slot h)); rv = ModRevision (watermark st (Slot h)) in
        h\<lparr>guardWritten := (if floor > guardWritten h then floor else guardWritten h),
          guardRev := (if rv > guardRev h then rv else guardRev h),
          hnode := (if floor > 0 then map_option (SetGuardTime floor) (hnode h) else hnode h)\<rparr>)"

text \<open>The single nested transaction: an expired key is created again only if the watermark still has
  the revision we last saw; a key that still carries our uuid is attached to the new lease.\<close>

datatype reclaim_txn = Recreated | Attached | WrittenMeanwhile | Mismatch

definition reclaim_outcome :: "handle \<Rightarrow> etcd \<Rightarrow> reclaim_txn" where
  "reclaim_outcome h st =
     (if slots st (Slot h) = None
      then if ModRevision (watermark st (Slot h)) = guardRev h then Recreated else WrittenMeanwhile
      else if holds st (Slot h) (UUID h) then Attached else Mismatch)"

definition reclaim_commit :: "handle \<Rightarrow> int \<Rightarrow> etcd \<Rightarrow> etcd" where
  "reclaim_commit h l st =
     (if reclaim_outcome h st \<in> {Recreated, Attached} then put_slot (Slot h) (UUID h) (hHost h) l st else st)"

definition reclaim :: "reclaim_env \<Rightarrow> handle \<Rightarrow> etcd \<Rightarrow> handle \<times> etcd" where
  "reclaim e h st =
     (case rc_get e of
        None \<Rightarrow> (h, st)
      | Some seen \<Rightarrow>
        if (case seen of None \<Rightarrow> False | Some (u, k) \<Rightarrow> u \<noteq> UUID h) then (onOwnershipLost h, st)
        else if (case seen of None \<Rightarrow> False | Some (u, k) \<Rightarrow> hLease h \<noteq> 0 \<and> k = hLease h \<and> rc_alive e)
        then (h\<lparr>needReclaim := False, registered := True\<rparr>, st)
        else (case rc_grant e of
            None \<Rightarrow> (h, st)
          | Some l \<Rightarrow>
            (case rc_txn e of
               Unsent \<Rightarrow> (h, st)
             | Unanswered \<Rightarrow> (h, reclaim_commit h l st)
             | Answered \<Rightarrow>
               (case reclaim_outcome h st of
                  WrittenMeanwhile \<Rightarrow> (onOwnershipLost h, st)
                | Mismatch \<Rightarrow>
                    (case rc_after e of
                       Some (Some (u, k)) \<Rightarrow> if u \<noteq> UUID h then (onOwnershipLost h, st) else (h, st)
                     | _ \<Rightarrow> (h, st))
                | out \<Rightarrow>
                   (let st' = reclaim_commit h l st;
                        h1 = h\<lparr>hLease := l, incarnation := revision st', needReclaim := False, registered := True\<rparr>
                    in if out = Recreated \<or> fst (Stale (rc_stale_at e) (fence h))
                       then (refloorFromWatermark (rc_floor_read e) h1 st', st')
                       else (h1, st'))))))"

section \<open>The background loop\<close>

definition on_watch_event :: "(string \<times> int) option \<Rightarrow> reclaim_env \<Rightarrow> handle \<Rightarrow> etcd \<Rightarrow> handle \<times> etcd" where
  "on_watch_event ev e h st =
     (if closing h then (h, st)
      else case ev of
        None \<Rightarrow> reclaim e (h\<lparr>needReclaim := True\<rparr>) st
      | Some (u, k) \<Rightarrow>
          if u \<noteq> UUID h then (onOwnershipLost h, st)
          else if k \<noteq> hLease h then (onOwnershipLost h, st)
          else (h, st))"

definition on_keepalive_end :: "reclaim_env \<Rightarrow> handle \<Rightarrow> etcd \<Rightarrow> handle \<times> etcd" where
  "on_keepalive_end e h st =
     (if closing h then (h, st) else reclaim e (h\<lparr>needReclaim := True\<rparr>) st)"

text \<open>One tick: while a reclaim is due it is tried on every second tick; otherwise a broken watch is
  verified against the key (\<open>seen\<close>, \<open>None\<close> when the watch is intact or the read failed), the watermark
  advances, and a failed ownership check is followed by a reclaim at once.\<close>

definition on_tick ::
  "nat \<Rightarrow> (string \<times> int) option option \<Rightarrow> (nat \<Rightarrow> rpc) \<Rightarrow> instant \<Rightarrow> instant \<Rightarrow> reclaim_env
     \<Rightarrow> handle \<Rightarrow> etcd \<Rightarrow> handle \<times> etcd" where
  "on_tick ticks seen net t t' e h st =
     (if closing h then (h, st)
      else if needReclaim h then (if ticks mod 2 = 0 then reclaim e h st else (h, st))
      else let h0 = (case seen of
                       Some k \<Rightarrow> if k = Some (UUID h, hLease h) then h else h\<lparr>needReclaim := True\<rparr>
                     | None \<Rightarrow> h);
               (okay, h1, st1) = advanceGuard net t t' h0 st
           in if needReclaim h1 then reclaim e h1 st1 else (h1, st1))"

section \<open>Close\<close>

definition put_released :: "handle \<Rightarrow> etcd \<Rightarrow> etcd" where
  "put_released h st =
     (if holds st (Slot h) (UUID h)
      then st\<lparr>revision := revision st + 1, released := (released st)(hHost h \<mapsto> hLease h)\<rparr> else st)"

definition Close :: "(nat \<Rightarrow> rpc) \<Rightarrow> instant \<Rightarrow> instant \<Rightarrow> rpc \<Rightarrow> handle \<Rightarrow> etcd \<Rightarrow> handle \<times> etcd" where
  "Close net t t' net' h st =
     (if closing h then (h, st)
      else let h0 = fenceAll (h\<lparr>closing := True\<rparr>) in
        if \<not> registered h0 then (h0, st)
        else let (finalWatermarkOK, h1, st1) = advanceGuard net t t' h0 st in
          if hLease h1 \<noteq> 0 \<and> finalWatermarkOK \<and> net' \<noteq> Unsent then (h1, put_released h1 st1)
          else (h1, st1))"

end
