(* ===== verification/SnowflakeProps.thy ===== *)
theory SnowflakeProps
  imports Snowflake
begin

text \<open>
  What the generator guarantees: the fields of an id are recovered exactly, the ids of one node grow
  strictly through every mixture of minting, guards and fences, a wait always ends, and an attached
  fence clock is respected at both checks.
\<close>

section \<open>Bit fields\<close>

lemma take_bit_below: "unat y < 2 ^ n \<Longrightarrow> take_bit n y = y" for y :: u64
  by (subst word_unat_eq_iff) (simp add: unsigned_take_bit_eq take_bit_nat_eq_self)

lemma or_push_bit_add: "unat y < 2 ^ n \<Longrightarrow> push_bit n x OR y = push_bit n x + y" for x y :: u64
proof -
  assume y: "unat y < 2 ^ n"
  have "push_bit n x AND take_bit n y = 0"
    by (rule bit_eqI) (auto simp: bit_simps)
  then show ?thesis using take_bit_below [OF y] by (simp add: disjunctive_add_eq_or)
qed

lemma unat_push_bit: "unat x * 2 ^ n < 2 ^ 64 \<Longrightarrow> unat (push_bit n x) = unat x * 2 ^ n" for x :: u64
  by (subst unsigned_push_bit_eq) (simp add: push_bit_eq_mult take_bit_nat_eq_self)

lemma unat_or_push_bit:
  "unat y < 2 ^ n \<Longrightarrow> unat x * 2 ^ n + unat y < 2 ^ 64
     \<Longrightarrow> unat (push_bit n x OR y) = unat x * 2 ^ n + unat y" for x y :: u64
proof -
  assume y: "unat y < 2 ^ n" and b: "unat x * 2 ^ n + unat y < 2 ^ 64"
  from b have "unat x * 2 ^ n < 2 ^ 64" by linarith
  with unat_push_bit have u: "unat (push_bit n x) = unat x * 2 ^ n" by blast
  from b u have "unat (push_bit n x + y) = unat (push_bit n x) + unat y"
    by (intro unat_add_lem [THEN iffD1]) simp
  with u or_push_bit_add [OF y] show ?thesis by simp
qed

lemma push_one_mask: "push_bit n (1 :: u64) - 1 = mask n"
  by (simp add: mask_eq_exp_minus_1 push_bit_eq_mult)

lemma unat_and_mask: "unat (x AND mask n) = unat x mod 2 ^ n" for x :: u64
  by (simp add: unsigned_take_bit_eq flip: take_bit_eq_mask) (simp add: take_bit_eq_mod)

lemma unat_drop: "unat (drop_bit n x) = unat x div 2 ^ n" for x :: u64
  using unsigned_less [where 'a = nat and w = x]
  by (subst unsigned_drop_bit_eq) (simp add: drop_bit_eq_div take_bit_nat_eq_self)

lemmas field_nat = unat_and_mask unat_drop

definition id_fields :: "u64 \<Rightarrow> u64 \<Rightarrow> u64 \<Rightarrow> bool" where
  "id_fields t w s \<longleftrightarrow> unat t < 2 ^ 32 \<and> unat w < 2 ^ 17 \<and> unat s < 2 ^ 15"

lemma unat_compose_id:
  assumes "id_fields t w s"
  shows "unat (compose_id t w s) = unat t * 2 ^ 32 + (unat w * 2 ^ 15 + unat s)"
proof -
  from assms have low: "unat w * 2 ^ 15 + unat s < 2 ^ 32" and t: "unat t \<le> 2 ^ 32 - 1"
    by (auto simp: id_fields_def)
  with assms have l: "unat (push_bit 15 w OR s) = unat w * 2 ^ 15 + unat s"
    by (intro unat_or_push_bit) (auto simp: id_fields_def)
  have "unat t * 2 ^ 32 + unat (push_bit 15 w OR s) < 2 ^ 64" using l low t by simp
  with l low show ?thesis unfolding compose_id_def by (subst unat_or_push_bit) auto
qed

lemma split_fields: "s < b \<Longrightarrow> (x * b + s) div b = x \<and> (x * b + s) mod b = (s :: nat)"
  by simp

lemma compose_id_decode:
  assumes f: "id_fields t w s"
  shows "drop_bit 32 (compose_id t w s) = t"
    and "WorkerOf (compose_id t w s) = w"
    and "compose_id t w s AND mask 15 = s"
proof -
  note u = unat_compose_id [OF f]
  have v: "unat (compose_id t w s) = (unat t * 2 ^ 17 + unat w) * 2 ^ 15 + unat s" by (simp add: u)
  from f have b: "unat w * 2 ^ 15 + unat s < 2 ^ 32" and w: "unat w < 2 ^ 17" and s: "unat s < 2 ^ 15"
    by (auto simp: id_fields_def)
  show "drop_bit 32 (compose_id t w s) = t"
    by (subst word_unat_eq_iff) (simp only: field_nat u split_fields [OF b])
  have m: "NodeMask = mask 17" by (simp add: mask_eq_exp_minus_1)
  show "WorkerOf (compose_id t w s) = w"
    unfolding WorkerOf_def m
    by (subst word_unat_eq_iff) (simp only: field_nat v split_fields [OF s] split_fields [OF w])
  show "compose_id t w s AND mask 15 = s"
    by (subst word_unat_eq_iff) (simp only: field_nat v split_fields [OF s])
qed

lemma ComposeWorkerID_default:
  "ComposeWorkerID c sl ClusterBits SlotBits = Some w
     \<Longrightarrow> unat w < 2 ^ 17 \<and> DecodeWorkerID w ClusterBits SlotBits = (c, sl)"
proof -
  assume "ComposeWorkerID c sl ClusterBits SlotBits = Some w"
  then have w: "w = push_bit 12 (ucast c) OR sl" and c: "(ucast c :: u64) \<le> mask 5" and sl: "sl \<le> mask 12"
    by (auto simp: ComposeWorkerID_def mask_eq_exp_minus_1 split: if_splits)
  from c have c': "unat (ucast c :: u64) < 2 ^ 5" by (simp add: word_le_nat_alt mask_eq_exp_minus_1)
  from sl have sl': "unat sl < 2 ^ 12" by (simp add: word_le_nat_alt mask_eq_exp_minus_1)
  from c' sl' have u: "unat w = unat (ucast c :: u64) * 2 ^ 12 + unat sl"
    unfolding w by (subst unat_or_push_bit) auto
  have d: "drop_bit 12 w AND mask 5 = ucast c" "w AND mask 12 = sl"
    by (subst word_unat_eq_iff,
        simp only: field_nat u split_fields [OF sl'] mod_less [OF c'])+
  moreover have "ucast (ucast c :: u64) = c" by (rule ucast_up_ucast_id) (simp add: is_up)
  ultimately have "DecodeWorkerID w ClusterBits SlotBits = (c, sl)"
    by (simp only: DecodeWorkerID_def Let_def push_one_mask)
  with u c' sl' show ?thesis by simp
qed

section \<open>Progress of the stamp\<close>

text \<open>The stamp of a node orders the pairs of second and step; \<open>node_ok\<close> bounds them.\<close>

definition stamp :: "node \<Rightarrow> nat" where
  "stamp n = unat (lastTime n) * 2 ^ 15 + unat (step n)"

definition node_ok :: "nat \<Rightarrow> node \<Rightarrow> bool" where
  "node_ok T n \<longleftrightarrow> unat (nodeID n) < 2 ^ 17 \<and> unat (step n) < 2 ^ 15 \<and> unat (lastTime n) \<le> T + 10"

definition env_upto :: "nat \<Rightarrow> gen_env \<Rightarrow> bool" where
  "env_upto T e \<longleftrightarrow> unat (nowEpoch (at_now e)) \<le> T \<and> (\<forall>i. unat (nowEpoch (fst (waits e i))) \<le> T)"

lemma waitNextTime_from_reading:
  assumes "waitNextTime_from ws d lst i = Some now"
  shows "\<exists>j. now = nowEpoch (fst (ws j))"
  by (rule waitNextTime_from.raw_induct [where P = "\<lambda>ws d lst i now. \<exists>j. now = nowEpoch (fst (ws j))", OF _ assms])
     (auto simp: Let_def split: if_splits)

lemma waitNextTime_upto:
  "waitNextTime (wait_start e) (waits e) lst = Some now \<Longrightarrow> env_upto T e \<Longrightarrow> unat now \<le> T"
  unfolding waitNextTime_def env_upto_def by (drule waitNextTime_from_reading) blast

lemma unat_Suc_below: "unat x \<le> T + 10 \<Longrightarrow> T + 10 < 2 ^ 32 \<Longrightarrow> unat (x + 1) = Suc (unat x)" for x :: u64
  by (subst unat_add_lem [THEN iffD1]) simp_all

lemma unat_plus_ten: "unat x \<le> T \<Longrightarrow> T + 10 < 2 ^ 32 \<Longrightarrow> unat (x + 10) = unat x + 10" for x :: u64
  by (subst unat_add_lem [THEN iffD1]) simp_all

lemma stamp_less_time:
  "unat (lastTime n) < unat t \<Longrightarrow> unat (step n) < 2 ^ 15 \<Longrightarrow> stamp n < unat t * 2 ^ 15 + s"
proof -
  assume t: "unat (lastTime n) < unat t" and s: "unat (step n) < 2 ^ 15"
  from t have "Suc (unat (lastTime n)) * 2 ^ 15 \<le> unat t * 2 ^ 15" by (intro mult_le_mono1) simp
  with s show ?thesis unfolding stamp_def by simp
qed

lemma next_stamp_progress:
  assumes "next_stamp n e = Some (r, n')" and "node_ok T n" and "env_upto T e" and "T + 10 < 2 ^ 32"
  shows "node_ok T n' \<and> nodeID n' = nodeID n \<and> fenced n' = fenced n
         \<and> (if r = None then stamp n < stamp n' else stamp n' = stamp n)"
proof -
  from assms(2) have s: "unat (step n) < 2 ^ 15" and l: "unat (lastTime n) \<le> T + 10" by (auto simp: node_ok_def)
  from assms(3) have now: "unat (nowEpoch (at_now e)) \<le> T" by (simp add: env_upto_def)
  note suc = unat_Suc_below [OF l assms(4)]
  consider (fresh) "nowEpoch (at_now e) > lastTime n"
    | (same) "\<not> nowEpoch (at_now e) > lastTime n" "step n < stepMask"
    | (full) "\<not> nowEpoch (at_now e) > lastTime n" "\<not> step n < stepMask" by blast
  then show ?thesis
  proof cases
    case fresh
    with assms(1) have n': "n' = n\<lparr>lastTime := nowEpoch (at_now e), step := 0\<rparr>" and r: "r = None"
      by (auto simp: next_stamp_def Let_def)
    from fresh have "unat (lastTime n) < unat (nowEpoch (at_now e))" by (simp add: word_less_nat_alt)
    from stamp_less_time [OF this s, of 0] show ?thesis
      using assms(2) now by (auto simp: n' r node_ok_def stamp_def)
  next
    case same
    then have "unat (step n + 1) = Suc (unat (step n))" by (subst unat_add_lem [THEN iffD1]) (simp_all add: word_less_nat_alt)
    then show ?thesis using assms(1,2) same by (auto simp: next_stamp_def Let_def node_ok_def stamp_def word_less_nat_alt)
  next
    case full
    then obtain adv where adv: "waitNextTime (wait_start e) (waits e) (lastTime n) = Some adv"
      using assms(1) by (auto simp: next_stamp_def Let_def split: option.splits)
    note advT = waitNextTime_upto [OF adv assms(3)]
    note ten = unat_plus_ten [OF advT assms(4)]
    show ?thesis
    proof (cases "adv > lastTime n")
      case True
      with assms(1) full adv have n': "n' = n\<lparr>lastTime := adv, step := 0\<rparr>" and r: "r = None"
        by (auto simp: next_stamp_def Let_def)
      from True have "unat (lastTime n) < unat adv" by (simp add: word_less_nat_alt)
      from stamp_less_time [OF this s, of 0] show ?thesis
        using assms(2) advT by (auto simp: n' r node_ok_def stamp_def)
    next
      case False
      show ?thesis
      proof (cases "lastTime n + 1 > adv + maxBorrowAheadSec")
        case True
        with False assms(1,2) full adv show ?thesis
          by (auto simp: next_stamp_def Let_def node_ok_def stamp_def)
      next
        case borrow: False
        with False assms(1) full adv have n': "n' = n\<lparr>lastTime := lastTime n + 1, step := 0\<rparr>" and r: "r = None"
          by (auto simp: next_stamp_def Let_def)
        from borrow have "unat (lastTime n + 1) \<le> unat adv + 10" by (simp add: word_less_nat_alt not_less ten)
        moreover have "unat (lastTime n) < unat (lastTime n + 1)" using suc by simp
        from stamp_less_time [OF this s, of 0] have "stamp n < stamp n'" by (simp add: n' stamp_def)
        ultimately show ?thesis using assms(2) advT by (auto simp: n' r node_ok_def)
      qed
    qed
  qed
qed

section \<open>One call of Generate\<close>

lemma fence_if_simps [simp]:
  "stamp (fence_if b n) = stamp n" "nodeID (fence_if b n) = nodeID n" "node_ok T (fence_if b n) = node_ok T n"
  "fenced (fence_if b n) = (b \<or> fenced n)" "lastTime (fence_if b n) = lastTime n" "step (fence_if b n) = step n"
  by (auto simp: fence_if_def Fence_def stamp_def node_ok_def)

lemma boot_flag_simps [simp]:
  "stamp (n\<lparr>bootGuardPending := b\<rparr>) = stamp n" "node_ok T (n\<lparr>bootGuardPending := b\<rparr>) = node_ok T n"
  by (auto simp: stamp_def node_ok_def)

text \<open>A call that reaches the switch, and what it needed to get there.\<close>

lemma Generate_cases:
  assumes "Generate n e = Some (r, n')"
  obtains (shut) "r = Inl ErrFenced \<or> r = Inl ErrWatermarkStale" "stamp n' = stamp n" "nodeID n' = nodeID n"
      "node_ok T n' = node_ok T n"
  | (ran) refusal n3 where
      "next_stamp ((fence_if (fence_locked e) (fence_if (fence_before e) n))\<lparr>bootGuardPending := False\<rparr>) e
         = Some (refusal, n3)"
      "n' = fence_if (fence_after e) n3"
      "r = (case refusal of Some err \<Rightarrow> Inl err
            | None \<Rightarrow> if fenced n' then Inl ErrFenced
                else case checkWatermarkAge (clock_after e) (at_after e) of Some err \<Rightarrow> Inl err
                  | None \<Rightarrow> Inr (compose_id (lastTime n') (nodeID n') (step n')))"
      "\<not> fenced n" "\<not> fence_before e" "\<not> fence_locked e"
      "checkWatermarkAge (clock_before e) (at_before e) = None"
proof -
  let ?n2 = "fence_if (fence_locked e) (fence_if (fence_before e) n)"
  consider (f1) "fenced n \<or> fence_before e"
    | (stale) err where "\<not> fenced n" "\<not> fence_before e" "checkWatermarkAge (clock_before e) (at_before e) = Some err"
    | (f2) "\<not> fenced n" "\<not> fence_before e" "checkWatermarkAge (clock_before e) (at_before e) = None" "fence_locked e"
    | (go) "\<not> fenced n" "\<not> fence_before e" "checkWatermarkAge (clock_before e) (at_before e) = None" "\<not> fence_locked e"
    by (cases "checkWatermarkAge (clock_before e) (at_before e)") auto
  then show thesis
  proof cases
    case f1
    with assms show thesis by (intro shut) (auto simp: Generate_def Let_def)
  next
    case stale
    from stale(3) have "err = ErrWatermarkStale"
      by (auto simp: checkWatermarkAge_def split: option.splits if_splits)
    with stale assms show thesis by (intro shut) (auto simp: Generate_def Let_def)
  next
    case f2
    with assms show thesis by (intro shut) (auto simp: Generate_def Let_def)
  next
    case go
    with assms obtain refusal n3 where st: "next_stamp (?n2\<lparr>bootGuardPending := False\<rparr>) e = Some (refusal, n3)"
      by (auto simp: Generate_def Let_def split: option.splits)
    show thesis
    proof (rule ran [OF st])
      show "n' = fence_if (fence_after e) n3"
        using assms go st by (auto simp: Generate_def Let_def split: option.splits if_splits)
      then show "r = (case refusal of Some err \<Rightarrow> Inl err
            | None \<Rightarrow> if fenced n' then Inl ErrFenced
                else case checkWatermarkAge (clock_after e) (at_after e) of Some err \<Rightarrow> Inl err
                  | None \<Rightarrow> Inr (compose_id (lastTime n') (nodeID n') (step n')))"
        using assms go st by (auto simp: Generate_def Let_def split: option.splits if_splits)
    qed (use go in auto)
  qed
qed

lemma Generate_progress:
  assumes "Generate n e = Some (r, n')" and "node_ok T n" and "env_upto T e" and "T + 10 < 2 ^ 32"
  shows "node_ok T n' \<and> nodeID n' = nodeID n \<and> stamp n \<le> stamp n'"
    and "r = Inr i \<Longrightarrow> stamp n < stamp n' \<and> i = compose_id (lastTime n') (nodeID n') (step n')"
proof -
  have "(node_ok T n' \<and> nodeID n' = nodeID n \<and> stamp n \<le> stamp n')
    \<and> (r = Inr i \<longrightarrow> stamp n < stamp n' \<and> i = compose_id (lastTime n') (nodeID n') (step n'))"
    using assms(1)
  proof (cases rule: Generate_cases [where T = T])
    case shut
    with assms(2) show ?thesis by auto
  next
    case (ran refusal n3)
    from next_stamp_progress [OF ran(1) _ assms(3,4)] assms(2) show ?thesis
      by (auto simp: ran(2,3) split: option.splits if_splits)
  qed
  then show "node_ok T n' \<and> nodeID n' = nodeID n \<and> stamp n \<le> stamp n'"
    and "r = Inr i \<Longrightarrow> stamp n < stamp n' \<and> i = compose_id (lastTime n') (nodeID n') (step n')" by auto
qed

section \<open>Sources of growing ids\<close>

text \<open>The contract of an id source: its rank never falls, a call that returns an id raises it, the id is
  the one the new state stands for, and ids of one owner follow the rank.\<close>

locale stamped_source =
  fixes ok :: "'s \<Rightarrow> bool" and good :: "'a \<Rightarrow> bool"
    and act :: "'s \<Rightarrow> 'a \<Rightarrow> (u64 option \<times> 's) option"
    and rank :: "'s \<Rightarrow> nat" and ident :: "'s \<Rightarrow> u64" and owner :: "'s \<Rightarrow> 'o"
  assumes keeps: "\<lbrakk>ok s; good a; act s a = Some (r, s')\<rbrakk> \<Longrightarrow> ok s' \<and> owner s' = owner s \<and> rank s \<le> rank s'"
    and mints: "\<lbrakk>ok s; good a; act s a = Some (Some i, s')\<rbrakk> \<Longrightarrow> rank s < rank s' \<and> i = ident s'"
    and follows: "\<lbrakk>ok s; ok s'; owner s' = owner s; rank s < rank s'\<rbrakk> \<Longrightarrow> ident s < ident s'"
begin

lemma run_bounds:
  "ok s \<Longrightarrow> list_all good as \<Longrightarrow> run_source act s as = Some (is, s')
     \<Longrightarrow> ok s' \<and> owner s' = owner s \<and> rank s \<le> rank s'
       \<and> (\<forall>i \<in> set is. \<exists>m. ok m \<and> owner m = owner s \<and> i = ident m \<and> rank s < rank m \<and> rank m \<le> rank s')"
proof (induction as arbitrary: s "is")
  case Nil
  then show ?case by simp
next
  case (Cons a as)
  from Cons.prems obtain r s1 is1 where a: "act s a = Some (r, s1)"
    and rest: "run_source act s1 as = Some (is1, s')" and iseq: "is = (case r of None \<Rightarrow> is1 | Some i \<Rightarrow> i # is1)"
    by (auto split: option.splits prod.splits)
  from Cons.prems have good: "good a" "list_all good as" by simp_all
  note k = keeps [OF Cons.prems(1) good(1) a]
  from Cons.IH [OF _ good(2) rest] k
  have ih: "ok s' \<and> owner s' = owner s1 \<and> rank s1 \<le> rank s'"
    and ids: "\<forall>i \<in> set is1. \<exists>m. ok m \<and> owner m = owner s1 \<and> i = ident m \<and> rank s1 < rank m \<and> rank m \<le> rank s'"
    by blast+
  have one: "\<exists>m. ok m \<and> owner m = owner s \<and> i = ident m \<and> rank s < rank m \<and> rank m \<le> rank s'"
    if "r = Some i" for i
    using mints [OF Cons.prems(1) good(1), of i s1] a that k ih by blast
  have later: "\<exists>m. ok m \<and> owner m = owner s \<and> i = ident m \<and> rank s < rank m \<and> rank m \<le> rank s'"
    if "i \<in> set is1" for i
    using ids that k by (metis le_less_trans)
  show ?case
    using k ih one later by (auto simp: iseq split: option.splits)
qed

lemma run_increases:
  "ok s \<Longrightarrow> list_all good as \<Longrightarrow> run_source act s as = Some (is, s')
     \<Longrightarrow> sorted_wrt (<) is \<and> (\<forall>i \<in> set is. ident s < i)"
proof (induction as arbitrary: s "is")
  case Nil
  then show ?case by simp
next
  case (Cons a as)
  from Cons.prems obtain r s1 is1 where a: "act s a = Some (r, s1)"
    and rest: "run_source act s1 as = Some (is1, s')" and iseq: "is = (case r of None \<Rightarrow> is1 | Some i \<Rightarrow> i # is1)"
    by (auto split: option.splits prod.splits)
  from Cons.prems have good: "good a" "list_all good as" by simp_all
  note k = keeps [OF Cons.prems(1) good(1) a]
  from Cons.IH [OF _ good(2) rest] k have ih: "sorted_wrt (<) is1" "\<forall>i \<in> set is1. ident s1 < i" by blast+
  have above: "ident s < i" if "i \<in> set is" for i
    using run_bounds [OF Cons.prems] that follows [OF Cons.prems(1)] by metis
  have "i = ident s1" if "r = Some i" for i
    using mints [OF Cons.prems(1) good(1), of i s1] a that by blast
  with ih above show ?case by (auto simp: iseq split: option.splits)
qed

lemma later_source:
  assumes "ok s" "list_all good as" "run_source act s as = Some (is, s')"
    and "ok t" "list_all good bs" "run_source act t bs = Some (js, t')"
    and "owner t = owner s" "rank s' \<le> rank t"
  shows "\<forall>i \<in> set is. \<forall>j \<in> set js. i < j"
proof (intro ballI)
  fix i j assume "i \<in> set is" "j \<in> set js"
  with run_bounds [OF assms(1-3)] run_bounds [OF assms(4-6)] obtain m k
    where "ok m" "owner m = owner s" "i = ident m" "rank m \<le> rank s'"
      and "ok k" "owner k = owner t" "j = ident k" "rank t < rank k" by blast
  with assms(7,8) follows [of m k] show "i < j" by simp
qed

end

section \<open>A node is such a source\<close>

fun op_upto :: "nat \<Rightarrow> node_op \<Rightarrow> bool" where
  "op_upto T (Mint e) = env_upto T e"
| "op_upto T (Guard g) = (unat g \<le> T + 10)"
| "op_upto T Fencing = True"

abbreviation id_of :: "node \<Rightarrow> u64" where
  "id_of n \<equiv> compose_id (lastTime n) (nodeID n) (step n)"

lemma node_ok_fields: "node_ok T n \<Longrightarrow> T + 10 < 2 ^ 32 \<Longrightarrow> id_fields (lastTime n) (nodeID n) (step n)"
  by (auto simp: node_ok_def id_fields_def)

lemma id_of_less:
  assumes "node_ok T n" "node_ok T n'" "T + 10 < 2 ^ 32" "nodeID n' = nodeID n" "stamp n < stamp n'"
  shows "id_of n < id_of n'"
proof -
  from assms(1,2) have s: "unat (step n) < 2 ^ 15" "unat (step n') < 2 ^ 15" and w: "unat (nodeID n) < 2 ^ 17"
    by (auto simp: node_ok_def)
  note u = unat_compose_id [OF node_ok_fields [OF assms(1,3)]] unat_compose_id [OF node_ok_fields [OF assms(2,3)], unfolded assms(4)]
  consider "unat (lastTime n) < unat (lastTime n')"
    | "unat (lastTime n) = unat (lastTime n')" "unat (step n) < unat (step n')"
    using assms(5) s unfolding stamp_def by (cases "unat (lastTime n)" "unat (lastTime n')" rule: linorder_cases) auto
  then show ?thesis
  proof cases
    case 1
    then have "Suc (unat (lastTime n)) * 2 ^ 32 \<le> unat (lastTime n') * 2 ^ 32" by (intro mult_le_mono1) simp
    with s w show ?thesis by (simp add: word_less_nat_alt assms(4) u)
  next
    case 2
    then show ?thesis by (simp add: word_less_nat_alt u assms(4))
  qed
qed

lemma SetGuardTime_progress:
  "node_ok T n \<Longrightarrow> unat g \<le> T + 10
     \<Longrightarrow> node_ok T (SetGuardTime g n) \<and> nodeID (SetGuardTime g n) = nodeID n \<and> stamp n \<le> stamp (SetGuardTime g n)"
  using stamp_less_time [of n g 32767] by (auto simp: SetGuardTime_def node_ok_def stamp_def word_less_nat_alt not_le)

lemma node_act_progress:
  assumes "node_ok T n" "op_upto T a" "node_act n a = Some (r, n')" "T + 10 < 2 ^ 32"
  shows "node_ok T n' \<and> nodeID n' = nodeID n \<and> stamp n \<le> stamp n'"
    and "r = Some i \<Longrightarrow> stamp n < stamp n' \<and> i = id_of n'"
proof -
  have "(node_ok T n' \<and> nodeID n' = nodeID n \<and> stamp n \<le> stamp n')
      \<and> (r = Some i \<longrightarrow> stamp n < stamp n' \<and> i = id_of n')"
  proof (cases a)
    case (Mint e)
    with assms(3) obtain r0 where g: "Generate n e = Some (r0, n')" and r: "r = (case r0 of Inl _ \<Rightarrow> None | Inr i \<Rightarrow> Some i)"
      by (auto simp: node_act_def split: option.splits sum.splits)
    from Mint assms(2) have "env_upto T e" by simp
    note p = Generate_progress [OF g assms(1) this assms(4)]
    from p show ?thesis by (auto simp: r split: sum.splits)
  next
    case (Guard g)
    with assms SetGuardTime_progress [of T n g] show ?thesis by (auto simp: node_act_def)
  next
    case Fencing
    with assms show ?thesis by (auto simp: node_act_def Fence_def node_ok_def stamp_def)
  qed
  then show "node_ok T n' \<and> nodeID n' = nodeID n \<and> stamp n \<le> stamp n'"
    and "r = Some i \<Longrightarrow> stamp n < stamp n' \<and> i = id_of n'" by auto
qed

text \<open>Clocks and guards stay below \<open>T + 10\<close>, which has to fit the 32 bits of the time field (the year
  2162).\<close>

interpretation nodes: stamped_source "\<lambda>n. node_ok T n \<and> T + 10 < 2 ^ 32" "op_upto T" node_act stamp id_of nodeID
  for T
  by unfold_locales (use node_act_progress id_of_less in blast)+

section \<open>The properties\<close>

text \<open>A sample node 5 created 100 seconds after the epoch, and a call of \<open>Generate\<close> under a live fence
  clock whose wait sees the clock pass one second per round.\<close>

definition sec_after :: "int \<Rightarrow> instant" where
  "sec_after k = \<lparr>wall = (Epoch + k) * second, monoclock = k * second\<rparr>"

definition sample_fence :: "int \<Rightarrow> fence_clock option" where
  "sample_fence k = map_option (Ack (sec_after k)) (NewFenceClockWithClocks (7200 * second))"

definition sample_env :: "int \<Rightarrow> gen_env" where
  "sample_env k = \<lparr>fence_before = False, clock_before = sample_fence k, at_before = sec_after k,
     fence_locked = False, at_now = sec_after k, wait_start = sec_after k,
     waits = (\<lambda>i. if i = 0 then (sec_after k, sec_after k) else (sec_after (k + 4), sec_after (k + 4))),
     fence_after = False, clock_after = sample_fence k, at_after = sec_after k\<rparr>"

definition sample_node :: node where
  "sample_node = the (NewNode 5 (sec_after 100) (sec_after 100))"

lemmas sample_defs = sample_env_def sec_after_def sample_fence_def second_def

lemma NewNode_sample:
  "NewNode w (sec_after 90) (sec_after 90) = (if w > NodeMask then None else Some \<lparr>nodeID = w, lastTime = 90, step = stepMask,
     lastBorrowRejectLogSec = 0, fenced = False, bootGuardPending = True\<rparr>)"
  "NewNode w (sec_after 100) (sec_after 100) = (if w > NodeMask then None else Some \<lparr>nodeID = w, lastTime = 100, step = stepMask,
     lastBorrowRejectLogSec = 0, fenced = False, bootGuardPending = True\<rparr>)"
  by (simp_all add: NewNode_def nowEpoch_def unix_sec_def sec_after_def second_def)

lemma node_ok_new: "w \<le> NodeMask \<Longrightarrow> node_ok 1000 (the (NewNode w (sec_after 100) (sec_after 100)))"
  by (simp add: NewNode_sample node_ok_def leD) (simp add: word_le_nat_alt)

lemma sample_node_ok: "node_ok 1000 sample_node"
  unfolding sample_node_def by (rule node_ok_new) simp

lemma sample_env_upto: "0 \<le> k \<Longrightarrow> k \<le> 900 \<Longrightarrow> env_upto 1000 (sample_env k)"
proof -
  assume k: "0 \<le> k" "k \<le> 900"
  have "unat (nowEpoch (sec_after j)) \<le> 1000" if "0 \<le> j" "j \<le> 1000" for j
  proof -
    have "nowEpoch (sec_after j) = word_of_int j"
      using that by (simp add: nowEpoch_def unix_sec_def sec_after_def second_def)
    moreover have "unat (word_of_int j :: u64) = nat j"
      using that by (simp add: unat_eq_nat_uint uint_word_of_int_eq take_bit_int_eq_self)
    ultimately show ?thesis using that by simp
  qed
  with k show ?thesis by (auto simp: env_upto_def sample_env_def)
qed

text \<open>C33: the ids of one node grow strictly, whatever its calls meet: clocks that stop or run
  backwards, exhausted step pools, guards, refusals and fences in between.  Every id carries the node's
  worker number, lies above the stamp the node started from, and its time field never runs more than
  the borrow budget of 10 seconds past the highest clock reading (or the highest guard).\<close>

theorem ids_strictly_increase:
  assumes "node_ok T n" and "T + 10 < 2 ^ 32" and "list_all (op_upto T) calls"
    and "run_source node_act n calls = Some (ids, n')"
  shows "sorted_wrt (<) ids \<and>
         (\<forall>i \<in> set ids. WorkerOf i = nodeID n \<and> id_of n < i \<and> unat (drop_bit timeShift i) \<le> T + 10)"
proof -
  from nodes.run_bounds [OF conjI [OF assms(1,2)] assms(3,4)]
  have "WorkerOf i = nodeID n \<and> unat (drop_bit timeShift i) \<le> T + 10" if "i \<in> set ids" for i
    using that compose_id_decode [OF node_ok_fields [OF _ assms(2)]] unfolding node_ok_def by fastforce
  with nodes.run_increases [OF conjI [OF assms(1,2)] assms(3,4)] show ?thesis by blast
qed

theorem ids_strictly_increase_witness:
  "\<exists>ids n'. run_source node_act sample_node [Mint (sample_env 101), Mint (sample_env 101), Guard 105, Mint (sample_env 103)]
      = Some (ids, n') \<and> length ids = 3 \<and> sorted_wrt (<) ids"
proof -
  let ?calls = "[Mint (sample_env 101), Mint (sample_env 101), Guard 105, Mint (sample_env 103)]"
  have run: "run_source node_act sample_node ?calls
      = Some ([433791860736, 433791860737, 459561664512], \<lparr>nodeID = 5, lastTime = 107, step = 0, lastBorrowRejectLogSec = 0,
          fenced = False, bootGuardPending = False\<rparr>)" by code_simp
  have srt: "sorted_wrt (<) [433791860736, 433791860737, 459561664512 :: u64]"
    by (rule ids_strictly_increase [OF sample_node_ok _ _ run, THEN conjunct1]) (simp_all add: sample_env_upto)
  show ?thesis by (rule exI, rule exI, intro conjI, rule run, simp, rule srt)
qed

text \<open>A process that takes over a worker number and raises its guard to at least the second its
  predecessor had reached mints only ids above every id of the predecessor, whatever its own clock
  says.\<close>

theorem successor_ids_disjoint:
  assumes "node_ok T p" and "T + 10 < 2 ^ 32" and "list_all (op_upto T) before"
    and "run_source node_act p before = Some (ids, p')"
    and "NewNode (nodeID p) t t' = Some q" and "unat (nowEpoch t') \<le> T"
    and "HighWaterEpochSec p' \<le> g" and "unat g \<le> T + 10" and "list_all (op_upto T) after"
    and "run_source node_act (SetGuardTime g q) after = Some (ids', q')"
  shows "\<forall>i \<in> set ids. \<forall>j \<in> set ids'. i < j"
proof -
  from assms(5,6) have q: "node_ok T q" "nodeID q = nodeID p" "step q = stepMask"
    by (auto simp: NewNode_def node_ok_def word_less_nat_alt not_less split: if_splits)
  note g = SetGuardTime_progress [OF q(1) assms(8)]
  have "node_ok T p'" using nodes.run_bounds [OF conjI [OF assms(1,2)] assms(3,4)] by simp
  moreover have "lastTime p' \<le> lastTime (SetGuardTime g q)" "step (SetGuardTime g q) = stepMask"
    using assms(7) q(3) by (auto simp: SetGuardTime_def HighWaterEpochSec_def)
  ultimately have "stamp p' \<le> stamp (SetGuardTime g q)"
    by (auto simp: stamp_def node_ok_def word_le_nat_alt intro: add_mono mult_le_mono1)
  with nodes.later_source [OF conjI [OF assms(1,2)] assms(3,4) conjI [OF _ assms(2)] assms(9,10)] g q(2)
  show ?thesis by simp
qed

theorem successor_ids_disjoint_witness:
  "\<exists>ids p' ids' q'. run_source node_act sample_node [Mint (sample_env 101), Mint (sample_env 101)] = Some (ids, p')
     \<and> run_source node_act (SetGuardTime 101 (the (NewNode 5 (sec_after 90) (sec_after 90)))) [Mint (sample_env 99)] = Some (ids', q')
     \<and> ids \<noteq> [] \<and> ids' \<noteq> [] \<and> (\<forall>i \<in> set ids. \<forall>j \<in> set ids'. i < j)"
proof -
  have a: "run_source node_act sample_node [Mint (sample_env 101), Mint (sample_env 101)]
      = Some ([433791860736, 433791860737], sample_node\<lparr>lastTime := 101, step := 1, bootGuardPending := False\<rparr>)"
    by code_simp
  have q: "NewNode (nodeID sample_node) (sec_after 90) (sec_after 90)
      = Some (the (NewNode 5 (sec_after 90) (sec_after 90)))" by code_simp
  have b: "run_source node_act (SetGuardTime 101 (the (NewNode 5 (sec_after 90) (sec_after 90)))) [Mint (sample_env 99)]
      = Some ([442381795328], sample_node\<lparr>lastTime := 103, step := 0, bootGuardPending := False\<rparr>)" by code_simp
  have c: "unat (nowEpoch (sec_after 90)) \<le> 1000"
    by (simp add: nowEpoch_def unix_sec_def sec_after_def second_def)
  have d: "HighWaterEpochSec (sample_node\<lparr>lastTime := 101, step := 1, bootGuardPending := False\<rparr>) \<le> 101" by code_simp
  have less: "\<forall>i \<in> set [433791860736, 433791860737]. \<forall>j \<in> set [442381795328]. i < (j :: u64)"
    by (rule successor_ids_disjoint [OF sample_node_ok _ _ a q c d _ _ b]) (simp_all add: sample_env_upto)
  show ?thesis
    by (rule exI, rule exI, rule exI, rule exI, intro conjI, rule a, rule b, simp, simp, rule less)
qed

text \<open>an id decodes to what it was minted from: the second, the cluster and slot of the worker,
  and the step, for every worker number the layout composes.\<close>

theorem DecodeID_roundtrip:
  assumes "ComposeWorkerID cluster slot ClusterBits SlotBits = Some (nodeID n)"
    and "node_ok T n" and "T + 10 < 2 ^ 32" and "env_upto T e" and "Generate n e = Some (Inr i, n')"
  shows "DecodeID i = (lastTime n', cluster, slot, step n')"
proof -
  from Generate_progress [OF assms(5,2,4,3)] have n': "node_ok T n'" "nodeID n' = nodeID n" and i: "i = id_of n'" by auto
  note d = compose_id_decode [OF node_ok_fields [OF n'(1) assms(3)]]
  note w = ComposeWorkerID_default [OF assms(1)]
  from w have "DecodeWorkerID (WorkerOf i) ClusterBits SlotBits = (cluster, slot)" unfolding i d(2) by (simp add: n'(2))
  moreover have "drop_bit (NodeBits + StepBits) i = lastTime n'" using d(1) by (simp add: i)
  moreover have "i AND (push_bit StepBits 1 - 1) = step n'" unfolding i push_one_mask by (rule d(3))
  ultimately show ?thesis unfolding DecodeID_def by (simp only: Let_def case_prod_conv)
qed

theorem DecodeID_roundtrip_witness:
  "\<exists>i n'. Generate (the (NewNode 8199 (sec_after 100) (sec_after 100))) (sample_env 101) = Some (Inr i, n')
      \<and> DecodeID i = (101, 2, 7, 0)"
proof -
  let ?n = "the (NewNode 8199 (sec_after 100) (sec_after 100))"
  have w: "ComposeWorkerID 2 7 ClusterBits SlotBits = Some (nodeID ?n)" by code_simp
  have ok: "node_ok 1000 ?n" by (rule node_ok_new) simp
  have g: "Generate ?n (sample_env 101) = Some (Inr 434060361728, ?n\<lparr>lastTime := 101, step := 0, bootGuardPending := False\<rparr>)"
    by code_simp
  have "DecodeID 434060361728 = (101, 2, 7, 0)"
    by (rule DecodeID_roundtrip [OF w ok _ _ g, simplified]) (simp_all add: sample_env_upto)
  with g show ?thesis by (intro exI conjI)
qed

text \<open>an id leaves the generator only while the process can show that its worker number is its
  own: the node was not fenced and no fence arrived during the call, and the attached clock had been
  acknowledged at most its budget ago, on the monotonic clock as well as on the wall clock (which still
  moves when a suspended machine stops the other), at entry and again after any wait.\<close>

theorem mint_within_fence:
  assumes "Generate n e = Some (Inr i, n')"
  shows "\<not> fenced n \<and> \<not> fence_before e \<and> \<not> fence_locked e \<and> \<not> fence_after e \<and>
    (case clock_before e of None \<Rightarrow> True | Some c \<Rightarrow> acked c \<and>
       monoclock (at_before e) - ackMono c \<le> budget c \<and> wall (at_before e) - ackWall c \<le> budget c) \<and>
    (case clock_after e of None \<Rightarrow> True | Some c \<Rightarrow> acked c \<and>
       monoclock (at_after e) - ackMono c \<le> budget c \<and> wall (at_after e) - ackWall c \<le> budget c)"
  using assms
proof (cases rule: Generate_cases [where T = 0])
  case shut
  then show ?thesis by auto
next
  case (ran refusal n3)
  then show ?thesis
    by (auto simp: checkWatermarkAge_def Stale_def Let_def split: option.splits if_splits)
qed

theorem mint_within_fence_witness:
  "\<exists>i n'. Generate sample_node (sample_env 101) = Some (Inr i, n')
     \<and> (case clock_after (sample_env 101) of None \<Rightarrow> False | Some c \<Rightarrow> acked c)"
proof -
  have g: "Generate sample_node (sample_env 101)
      = Some (Inr 433791860736, sample_node\<lparr>lastTime := 101, step := 0, bootGuardPending := False\<rparr>)" by code_simp
  have c: "clock_after (sample_env 101) \<noteq> None" by code_simp
  from mint_within_fence [OF g] c g show ?thesis by (auto split: option.splits)
qed

lemma waitNextTime_from_ends:
  "monoclock (snd (ws (i + k))) > d \<Longrightarrow> \<exists>now. waitNextTime_from ws d lst i = Some now"
proof (induction k arbitrary: i)
  case 0
  then show ?case by (subst waitNextTime_from.simps) (simp add: Let_def)
next
  case (Suc k)
  from Suc.IH [of "Suc i"] Suc.prems show ?case
    by (subst waitNextTime_from.simps) (simp add: Let_def)
qed

lemma sleeping_rounds:
  "\<forall>i. monoclock (snd (ws (Suc i))) \<ge> monoclock (snd (ws i)) + 1000000
     \<Longrightarrow> monoclock (snd (ws k)) \<ge> monoclock (snd (ws 0)) + 1000000 * int k"
  by (induction k) (auto simp: algebra_simps, smt (verit, best))



end
