(* ===== verification/SlotFacts.thy ===== *)
theory SlotFacts
  imports SlotAlloc SnowflakeProps
begin

text \<open>
  Facts about the operations of the slot allocator one at a time: the slot chosen is the one with the
  least pair of watermark and number among the eligible ones, a watermark write never lowers the stored
  value, and a worker number determines its slot.
\<close>

section \<open>The choice\<close>

definition eligible :: "(u64 \<Rightarrow> bool) \<Rightarrow> (u64 \<Rightarrow> u64) \<Rightarrow> u64 \<Rightarrow> u64 \<Rightarrow> u64 \<Rightarrow> bool" where
  "eligible used wm now q s \<longleftrightarrow> \<not> used s \<and> (wm s = 0 \<or> (wm s \<le> now \<and> q \<le> now - wm s))"

text \<open>The reference: the least pair of watermark and slot number over all eligible slots.\<close>

definition oldest_eligible :: "(u64 \<Rightarrow> bool) \<Rightarrow> (u64 \<Rightarrow> u64) \<Rightarrow> u64 \<Rightarrow> u64 \<Rightarrow> u64 \<Rightarrow> u64 option" where
  "oldest_eligible used wm now q ms =
     (let cs = {s. s \<le> ms \<and> eligible used wm now q s}
      in if cs = {} then None else Some (snd (Min ((\<lambda>s. (wm s, s)) ` cs))))"

abbreviation best_of :: "(u64 \<Rightarrow> bool) \<Rightarrow> (u64 \<Rightarrow> u64) \<Rightarrow> u64 \<Rightarrow> u64 \<Rightarrow> u64 set \<Rightarrow> u64 \<times> u64 \<Rightarrow> bool" where
  "best_of used wm now q S b \<equiv> snd b = wm (fst b) \<and> fst b \<in> S \<and> eligible used wm now q (fst b)
     \<and> (\<forall>c \<in> S. eligible used wm now q c \<longrightarrow> (wm (fst b), fst b) \<le> (wm c, c))"

lemma selectSlot_scan_best:
  assumes "sorted_wrt (<) ss" and "\<forall>x \<in> S. \<forall>y \<in> set ss. x < y"
    and "case best of None \<Rightarrow> \<forall>c \<in> S. \<not> eligible used wm now q c | Some b \<Rightarrow> best_of used wm now q S b"
  shows "case selectSlot_scan used wm now q best ss of
      None \<Rightarrow> \<forall>c \<in> S \<union> set ss. \<not> eligible used wm now q c
    | Some b \<Rightarrow> best_of used wm now q (S \<union> set ss) b"
  using assms
proof (induction ss arbitrary: S best)
  case Nil
  then show ?case by (cases best) simp_all
next
  case (Cons s ss)
  let ?el = "eligible used wm now q"
  have un: "S \<union> set (s # ss) = insert s S \<union> set ss" by auto
  from Cons.prems have srt: "sorted_wrt (<) ss" "\<forall>y \<in> set ss. s < y" and below: "\<forall>x \<in> S. x < s"
    and later: "\<forall>x \<in> insert s S. \<forall>y \<in> set ss. x < y" by auto
  show ?case
  proof (cases "?el s")
    case False
    then have skip: "selectSlot_scan used wm now q best (s # ss) = selectSlot_scan used wm now q best ss"
      by (auto simp: eligible_def not_le not_less)
    have "case best of None \<Rightarrow> \<forall>c \<in> insert s S. \<not> ?el c | Some b \<Rightarrow> best_of used wm now q (insert s S) b"
      using Cons.prems(3) False by (cases best) auto
    from Cons.IH [OF srt(1) later this] show ?thesis unfolding skip un .
  next
    case True
    define best' where "best' = (case best of None \<Rightarrow> Some (s, wm s)
        | Some (b, bw) \<Rightarrow> if wm s < bw then Some (s, wm s) else best)"
    from True have scan: "selectSlot_scan used wm now q best (s # ss)
        = (if wm s = 0 then best' else selectSlot_scan used wm now q best' ss)"
      by (auto simp: eligible_def best'_def not_le not_less)
    have b': "\<exists>b. best' = Some b \<and> best_of used wm now q (insert s S) b"
    proof (cases best)
      case None
      with Cons.prems(3) True show ?thesis by (auto simp: best'_def)
    next
      case (Some b)
      with Cons.prems(3) have b: "best_of used wm now q S b" by simp
      show ?thesis
      proof (cases "wm s < snd b")
        case less: True
        have "(wm s, s) \<le> (wm c, c)" if "c \<in> S" "?el c" for c
        proof -
          from b that have "(wm (fst b), fst b) \<le> (wm c, c)" by blast
          then have "wm (fst b) \<le> wm c" by (auto simp: less_eq_prod_def)
          with less b have "wm s < wm c" by (metis less_le_trans)
          then show ?thesis by (simp add: less_eq_prod_def)
        qed
        with True less Some show ?thesis by (auto simp: best'_def split: prod.splits)
      next
        case False
        from b below have "fst b < s" by blast
        with False b have "(wm (fst b), fst b) \<le> (wm s, s)" by (auto simp: less_eq_prod_def)
        with False Some b show ?thesis by (auto simp: best'_def split: prod.splits)
      qed
    qed
    show ?thesis
    proof (cases "wm s = 0")
      case zero: True
      from b' obtain b where b: "best' = Some b" "best_of used wm now q (insert s S) b" by blast
      from b(2) True zero have "wm (fst b) = 0" by (auto simp: less_eq_prod_def)
      moreover have "fst b \<le> s" using b(2) below by auto
      ultimately have "best_of used wm now q (S \<union> set (s # ss)) b"
        using b(2) srt(2) by (fastforce simp: less_eq_prod_def)
      moreover have "selectSlot_scan used wm now q best (s # ss) = Some b" unfolding scan using zero b(1) by simp
      ultimately show ?thesis by auto
    next
      case False
      from b' have "case best' of None \<Rightarrow> \<forall>c \<in> insert s S. \<not> ?el c | Some b \<Rightarrow> best_of used wm now q (insert s S) b"
        by auto
      from Cons.IH [OF srt(1) later this] False show ?thesis unfolding scan un by (simp only: if_False simp_thms)
    qed
  qed
qed

lemma slots_upto:
  "set (map of_nat [0..<Suc (unat ms)]) = {s. s \<le> (ms :: u64)}"
  "sorted_wrt (<) (map (of_nat :: nat \<Rightarrow> u64) [0..<Suc (unat ms)])"
proof -
  have small: "unat (of_nat k :: u64) = k" if "k \<le> unat ms" for k
    using that unsigned_less [where 'a = nat and w = ms] by (simp add: unat_of_nat take_bit_nat_eq_self)
  show "set (map (of_nat :: nat \<Rightarrow> u64) [0..<Suc (unat ms)]) = {s. s \<le> ms}"
  proof (intro set_eqI iffI)
    fix s :: u64 assume "s \<in> set (map of_nat [0..<Suc (unat ms)])"
    then obtain k where "k \<le> unat ms" "s = of_nat k" by (auto simp del: upt_Suc simp: less_Suc_eq_le)
    then show "s \<in> {s. s \<le> ms}" using small by (simp add: word_le_nat_alt)
  next
    fix s :: u64 assume "s \<in> {s. s \<le> ms}"
    then have "unat s \<le> unat ms" by (simp add: word_le_nat_alt)
    then show "s \<in> set (map of_nat [0..<Suc (unat ms)])" by (auto simp del: upt_Suc intro!: image_eqI [of _ _ "unat s"])
  qed
  show "sorted_wrt (<) (map (of_nat :: nat \<Rightarrow> u64) [0..<Suc (unat ms)])"
    by (auto simp: sorted_wrt_map sorted_wrt_iff_nth_less word_less_nat_alt small simp del: upt_Suc)
qed

lemma selectSlot_best:
  "case selectSlot used wm now q ms of
      None \<Rightarrow> \<forall>c \<le> ms. \<not> eligible used wm now q c
    | Some s \<Rightarrow> s \<le> ms \<and> eligible used wm now q s
        \<and> (\<forall>c \<le> ms. eligible used wm now q c \<longrightarrow> (wm s, s) \<le> (wm c, c))"
  using selectSlot_scan_best [where ss = "map of_nat [0..<Suc (unat ms)]" and S = "{}" and best = None
      and used = used and wm = wm and now = now and q = q]
  unfolding selectSlot_def
  by (cases "selectSlot_scan used wm now q None (map of_nat [0..<Suc (unat ms)])")
     (simp_all only: slots_upto, auto)

section \<open>Worker numbers\<close>

lemma ComposeWorkerID_inj:
  "ComposeWorkerID c s cb sb = Some w \<Longrightarrow> ComposeWorkerID c s' cb sb = Some w \<Longrightarrow> s = s'"
proof -
  have "w AND mask sb = s" if "ComposeWorkerID c s cb sb = Some w" for s
  proof -
    from that have w: "w = push_bit sb (ucast c) OR s" and s: "s \<le> mask sb"
      by (auto simp: ComposeWorkerID_def mask_eq_exp_minus_1 not_less split: if_splits)
    have "unat (mask sb :: u64) < 2 ^ sb"
      using unat_and_mask [of "mask sb" sb] by (metis and.idem mod_less_divisor zero_less_numeral zero_less_power)
    with s have "unat s < 2 ^ sb" by (simp add: word_le_nat_alt)
    then have "take_bit sb s = s" by (rule take_bit_below)
    moreover have "take_bit sb (push_bit sb (ucast c :: u64)) = 0" by (simp add: take_bit_push_bit)
    ultimately show ?thesis unfolding w by (simp flip: take_bit_eq_mask)
  qed
  then show "ComposeWorkerID c s cb sb = Some w \<Longrightarrow> ComposeWorkerID c s' cb sb = Some w \<Longrightarrow> s = s'" by metis
qed

section \<open>Watermark writes\<close>

abbreviation wm_rev :: "etcd \<Rightarrow> u64 \<Rightarrow> int" where
  "wm_rev st s \<equiv> ModRevision (watermark st s)"

abbreviation wm_val :: "etcd \<Rightarrow> u64 \<Rightarrow> u64" where
  "wm_val st s \<equiv> wm_value (watermark st s)"

text \<open>The four ways a watermark write can end.\<close>

inductive put_ends :: "u64 \<Rightarrow> string \<Rightarrow> u64 \<Rightarrow> int \<Rightarrow> etcd \<Rightarrow> wm_result \<Rightarrow> int \<Rightarrow> etcd \<Rightarrow> bool"
  for s uuid target rv st where
  nothing: "res = WmErr \<or> res = NotOwned \<Longrightarrow> rv' = rv \<or> (holds st s uuid \<and> rv' = wm_rev st s \<and> wm_val st s < target)
     \<Longrightarrow> put_ends s uuid target rv st res rv' st"
| unheard: "holds st s uuid \<Longrightarrow> wm_rev st s = rv \<or> wm_val st s < target \<Longrightarrow> rv' = rv \<or> rv' = wm_rev st s
     \<Longrightarrow> put_ends s uuid target rv st WmErr rv' (put_watermark s target st)"
| wrote: "holds st s uuid \<Longrightarrow> wm_rev st s = rv \<or> wm_val st s < target
     \<Longrightarrow> put_ends s uuid target rv st (Persisted target) (revision st + 1) (put_watermark s target st)"
| covered: "holds st s uuid \<Longrightarrow> wm_rev st s \<noteq> rv \<Longrightarrow> watermark st s \<noteq> None \<Longrightarrow> wm_val st s \<ge> target
     \<Longrightarrow> put_ends s uuid target rv st (Persisted (wm_val st s)) (wm_rev st s) st"

lemma putWatermarkLocked_ends:
  assumes "putWatermarkLocked 2 net s uuid target rv st = (res, rv', st')" and "0 < target"
  shows "put_ends s uuid target rv st res rv' st'"
proof -
  have two: "(2 :: nat) = Suc (Suc 0)" by simp
  show ?thesis
  proof (cases "watermark st s")
    case None
    with assms show ?thesis
      by (auto simp: two Let_def ModRevision_def wm_value_def put_ends.simps holds_def put_watermark_def
            split: rpc.splits if_splits)
  next
    case (Some vr)
    with assms show ?thesis
      by (cases vr) (auto simp: two Let_def ModRevision_def wm_value_def put_ends.simps holds_def put_watermark_def
            split: rpc.splits if_splits)
  qed
qed

end
