(* ===== verification/SlotSystem.thy ===== *)
theory SlotSystem
  imports SlotFacts
begin

text \<open>
  All processes of one kind and cluster that share an etcd: who claims, reuses, loses and reclaims a slot,
  writes its watermark, builds its generator, mints and closes, in any interleaving of these steps.

  The clocks of different processes are unrelated.  Of one process the steps assume that its wall clock
  does not run backwards, and that at most \<open>D\<close> passes between the reading a watermark is computed from
  and the acknowledgement of its write.  The scan of a claim, its transaction and the read of its floor
  form one step as far as the chosen slot's watermark is concerned: they share contexts of a few seconds,
  within which a key created in between would still be there and defeat the claim.
\<close>

section \<open>The steps\<close>

text \<open>Seconds since the epoch of a wall clock reading, unbounded.\<close>

definition nowE :: "int \<Rightarrow> int" where
  "nowE w = max 0 (w div second - Epoch)"

record slot_sys =
  store :: etcd
  procs :: "string \<Rightarrow> handle option"
  seenWall :: "string \<Rightarrow> int"
  base :: "string \<Rightarrow> int"
  granted :: "int \<Rightarrow> string option"
  finals :: "string set"
  minted :: "(string \<times> u64) list"

definition slot_init :: slot_sys where
  "slot_init = \<lparr>store = \<lparr>revision = 0, slots = (\<lambda>_. None), affinity = (\<lambda>_. None), released = (\<lambda>_. None),
       watermark = (\<lambda>_. None)\<rparr>,
     procs = (\<lambda>_. None), seenWall = (\<lambda>_. 0), base = (\<lambda>_. 0), granted = (\<lambda>_. None), finals = {}, minted = []\<rparr>"

text \<open>\<open>base\<close>, the second above which every id of a process lies, \<open>granted\<close>, the process each lease was
  granted to, \<open>finals\<close>, the closed processes whose last watermark was written, and \<open>minted\<close> record history
  for the proof; no step reads them except to keep identities fresh and to order the two halves of a
  close.\<close>

abbreviation set_proc :: "string \<Rightarrow> handle \<Rightarrow> slot_sys \<Rightarrow> slot_sys" where
  "set_proc u h \<sigma> \<equiv> \<sigma>\<lparr>procs := (procs \<sigma>)(u \<mapsto> h)\<rparr>"

abbreviation see :: "string \<Rightarrow> int \<Rightarrow> slot_sys \<Rightarrow> slot_sys" where
  "see u w \<sigma> \<equiv> \<sigma>\<lparr>seenWall := (seenWall \<sigma>)(u := w)\<rparr>"

abbreviation grant :: "int \<Rightarrow> string \<Rightarrow> slot_sys \<Rightarrow> slot_sys" where
  "grant l u \<sigma> \<equiv> \<sigma>\<lparr>granted := (granted \<sigma>)(l \<mapsto> u)\<rparr>"

abbreviation set_base :: "string \<Rightarrow> int \<Rightarrow> slot_sys \<Rightarrow> slot_sys" where
  "set_base u b \<sigma> \<equiv> \<sigma>\<lparr>base := (base \<sigma>)(u := b)\<rparr>"

abbreviation set_store :: "etcd \<Rightarrow> slot_sys \<Rightarrow> slot_sys" where
  "set_store st \<sigma> \<equiv> \<sigma>\<lparr>store := st\<rparr>"

definition fresh_ids :: "slot_sys \<Rightarrow> string \<Rightarrow> int \<Rightarrow> bool" where
  "fresh_ids \<sigma> u l \<longleftrightarrow> u \<notin> ran (granted \<sigma>) \<and> granted \<sigma> l = None \<and> l \<noteq> 0"

inductive slot_step :: "resolvedOptions \<Rightarrow> int \<Rightarrow> nat \<Rightarrow> slot_sys \<Rightarrow> slot_sys \<Rightarrow> bool" for r D T where
  Claimed: "\<lbrakk>fresh_ids \<sigma> u l; nowE (wall t) \<le> int T;
      claim_round r host u l used wm t (store \<sigma>) = (Inr cl, st);
      wm (cSlot cl) = scanWatermarks (store \<sigma>) (cSlot cl);
      open_handle r host oks ka net cl st = (Some h, st')\<rbrakk>
    \<Longrightarrow> slot_step r D T \<sigma>
          (set_base u (nowE (wall t)) (see u (wall t) (grant l u (set_proc u h (set_store st' \<sigma>)))))"
| ClaimDropped: "\<lbrakk>fresh_ids \<sigma> u l; claim_round r host u l used wm t (store \<sigma>) = (Inr cl, st)\<rbrakk>
    \<Longrightarrow> slot_step r D T \<sigma> (grant l u (set_store st \<sigma>))"
| Reused: "\<lbrakk>fresh_ids \<sigma> u l; nowE (wall (t :: instant)) \<le> int T;
      tryReuse r host u l a rl k (store \<sigma>) = (Some cl, st);
      open_handle r host oks ka net cl st = (Some h, st')\<rbrakk>
    \<Longrightarrow> slot_step r D T \<sigma>
          (set_base u (uint (wm_val (store \<sigma>) (cSlot cl)))
            (see u (wall t) (grant l u (set_proc u h (set_store st' \<sigma>)))))"
| ReuseDropped: "\<lbrakk>fresh_ids \<sigma> u l; tryReuse r host u l a rl k (store \<sigma>) = (Some cl, st)\<rbrakk>
    \<Longrightarrow> slot_step r D T \<sigma> (grant l u (set_store st \<sigma>))"
| Expired: "slot_step r D T \<sigma> (set_store (expire l (store \<sigma>)) \<sigma>)"
| Advanced: "\<lbrakk>procs \<sigma> u = Some h; seenWall \<sigma> u \<le> wall t; wall t \<le> wall t'; wall t' \<le> wall t + D;
      nowE (wall t') \<le> int T; advanceGuard net t t' h (store \<sigma>) = (okay, h', st');
      \<forall>s. uint (wm_val st' s) \<le> int T + 10\<rbrakk>
    \<Longrightarrow> slot_step r D T \<sigma>
          ((see u (wall t') (set_proc u h' (set_store st' \<sigma>)))
             \<lparr>finals := (if okay \<and> closing h then insert u (finals \<sigma>) else finals \<sigma>)\<rparr>)"
| NodeMade: "\<lbrakk>procs \<sigma> u = Some h; hnode h = None; \<not> closing h; seenWall \<sigma> u \<le> wall t; wall t \<le> wall t';
      nowE (wall t') \<le> int T; handle_NewNode t t' h = Some h'\<rbrakk>
    \<Longrightarrow> slot_step r D T \<sigma> (see u (wall t') (set_proc u h' \<sigma>))"
| Generated: "\<lbrakk>procs \<sigma> u = Some h; hnode h = Some n; clock_after e = Some (fence h);
      seenWall \<sigma> u \<le> wall (at_after e); nowE (wall (at_after e)) \<le> int T;
      wall (at_now e) \<le> wall (at_after e); \<forall>i. wall (fst (waits e i)) \<le> wall (at_after e);
      Generate n e = Some (res, n')\<rbrakk>
    \<Longrightarrow> slot_step r D T \<sigma>
          ((see u (wall (at_after e)) (set_proc u (h\<lparr>hnode := Some n'\<rparr>) \<sigma>))
             \<lparr>minted := (case res of Inl _ \<Rightarrow> minted \<sigma> | Inr i \<Rightarrow> (u, i) # minted \<sigma>)\<rparr>)"
| Reclaimed: "\<lbrakk>procs \<sigma> u = Some h; granted \<sigma> l = None; l \<noteq> 0; rc_grant e = None \<or> rc_grant e = Some l; reclaim e h (store \<sigma>) = (h', st')\<rbrakk>
    \<Longrightarrow> slot_step r D T \<sigma> (set_proc u h' (set_store st' (grant l u \<sigma>)))"
| Flagged: "procs \<sigma> u = Some h \<Longrightarrow> slot_step r D T \<sigma> (set_proc u (h\<lparr>needReclaim := b\<rparr>) \<sigma>)"
| Displaced: "procs \<sigma> u = Some h \<Longrightarrow> slot_step r D T \<sigma> (set_proc u (onOwnershipLost h) \<sigma>)"
| Closing: "procs \<sigma> u = Some h \<Longrightarrow> \<not> closing h \<Longrightarrow> slot_step r D T \<sigma> (set_proc u (fenceAll (h\<lparr>closing := True\<rparr>)) \<sigma>)"
| ReleasePut: "procs \<sigma> u = Some h \<Longrightarrow> u \<in> finals \<sigma>
    \<Longrightarrow> slot_step r D T \<sigma> (set_store (put_released h (store \<sigma>)) \<sigma>)"

inductive slot_reachable :: "resolvedOptions \<Rightarrow> int \<Rightarrow> nat \<Rightarrow> slot_sys \<Rightarrow> bool" for r D T where
  start: "slot_reachable r D T slot_init"
| step: "slot_reachable r D T \<sigma> \<Longrightarrow> slot_step r D T \<sigma> \<sigma>' \<Longrightarrow> slot_reachable r D T \<sigma>'"

end
