(* ===== verification/SlotInv.thy ===== *)
theory SlotInv
  imports SlotSystem
begin

text \<open>
  The invariant behind the uniqueness of ids across processes.  Whoever may still acknowledge a
  watermark of a slot, by holding its key or by having seen its last revision, lies above everything
  the other processes of that slot minted or may still mint before their own fence clocks stop them.
\<close>

section \<open>Vocabulary\<close>

abbreviation wv :: "slot_sys \<Rightarrow> u64 \<Rightarrow> int" where
  "wv \<sigma> s \<equiv> uint (wm_val (store \<sigma>) s)"

abbreviation rv_of :: "slot_sys \<Rightarrow> u64 \<Rightarrow> int" where
  "rv_of \<sigma> s \<equiv> wm_rev (store \<sigma>) s"

abbreviation key_of :: "slot_sys \<Rightarrow> u64 \<Rightarrow> string \<Rightarrow> bool" where
  "key_of \<sigma> s u \<equiv> holds (store \<sigma>) s u"

definition id_time :: "u64 \<Rightarrow> int" where
  "id_time i = uint (drop_bit timeShift i)"

definition id_stamp :: "u64 \<Rightarrow> nat" where
  "id_stamp i = unat (drop_bit timeShift i) * 2 ^ 15 + unat (i AND mask 15)"

text \<open>The last second an acknowledged handle can put into an id before its clock stops it.\<close>

definition limit :: "handle \<Rightarrow> int" where
  "limit h = (ackWall (fence h) + budget (fence h) - Epoch * second) div second + 10"

definition below :: "slot_sys \<Rightarrow> string \<Rightarrow> int \<Rightarrow> bool" where
  "below \<sigma> p b \<longleftrightarrow> (\<forall>i. (p, i) \<in> set (minted \<sigma>) \<longrightarrow> id_time i \<le> b)
     \<and> (\<forall>h. procs \<sigma> p = Some h \<longrightarrow> acked (fence h) \<longrightarrow> closing h \<or> limit h \<le> b)"

definition high_water :: "handle \<Rightarrow> int" where
  "high_water h = (case hnode h of None \<Rightarrow> 0 | Some n \<Rightarrow> uint (lastTime n))"

definition entitled :: "slot_sys \<Rightarrow> string \<Rightarrow> handle \<Rightarrow> bool" where
  "entitled \<sigma> q h \<longleftrightarrow> key_of \<sigma> (Slot h) q \<or> guardRev h = rv_of \<sigma> (Slot h)"

section \<open>The invariant\<close>

definition inv_ident :: "slot_sys \<Rightarrow> bool" where
  "inv_ident \<sigma> \<longleftrightarrow>
     (\<forall>s p l. slots (store \<sigma>) s = Some (p, l) \<longrightarrow>
        granted \<sigma> l = Some p \<and> (\<forall>h. procs \<sigma> p = Some h \<longrightarrow> Slot h = s))
   \<and> (\<forall>p h. procs \<sigma> p = Some h \<longrightarrow> UUID h = p \<and> granted \<sigma> (hLease h) = Some p)
   \<and> (\<forall>host l. released (store \<sigma>) host = Some l \<longrightarrow> (\<exists>p \<in> finals \<sigma>. granted \<sigma> l = Some p))
   \<and> granted \<sigma> 0 = None"

definition inv_final :: "slot_sys \<Rightarrow> bool" where
  "inv_final \<sigma> \<longleftrightarrow> (\<forall>u \<in> finals \<sigma>. \<exists>h. procs \<sigma> u = Some h \<and> closing h \<and> base \<sigma> u \<le> wv \<sigma> (Slot h)
     \<and> (\<forall>i. (u, i) \<in> set (minted \<sigma>) \<longrightarrow> id_time i \<le> wv \<sigma> (Slot h)))"

definition inv_rev :: "nat \<Rightarrow> slot_sys \<Rightarrow> bool" where
  "inv_rev T \<sigma> \<longleftrightarrow> 0 \<le> revision (store \<sigma>)
     \<and> (\<forall>s v rv. watermark (store \<sigma>) s = Some (v, rv) \<longrightarrow> 0 < rv \<and> rv \<le> revision (store \<sigma>) \<and> 0 < uint v)
     \<and> (\<forall>s. wv \<sigma> s \<le> int T + 10)
     \<and> (\<forall>p h. procs \<sigma> p = Some h \<longrightarrow> guardRev h \<le> rv_of \<sigma> (Slot h))"

definition node_fits :: "nat \<Rightarrow> int \<Rightarrow> int \<Rightarrow> handle \<Rightarrow> node \<Rightarrow> bool" where
  "node_fits T b w h n \<longleftrightarrow> node_ok T n \<and> nodeID n = WorkerID h \<and> b * 2 ^ 15 + 32767 \<le> int (stamp n)
     \<and> (uint (lastTime n) \<le> nowE w + 10 \<or> step n = stepMask) \<and> (closing h \<longrightarrow> fenced n)
     \<and> Epoch \<le> w div second"

definition inv_proc :: "resolvedOptions \<Rightarrow> nat \<Rightarrow> slot_sys \<Rightarrow> bool" where
  "inv_proc r T \<sigma> \<longleftrightarrow> (\<forall>u h. procs \<sigma> u = Some h \<longrightarrow>
     budget (fence h) = fenceAfter r \<and>
     ComposeWorkerID (cluster r) (Slot h) (clusterBits r) (slotBits r) = Some (WorkerID h) \<and>
     base \<sigma> u \<le> max (nowE (seenWall \<sigma> u)) (uint (guardWritten h)) \<and>
     GuardEpochSec h \<le> guardWritten h \<and> uint (guardWritten h) \<le> int T + 10 \<and> nowE (seenWall \<sigma> u) \<le> int T \<and>
     (\<forall>n. hnode h = Some n \<longrightarrow> node_fits T (base \<sigma> u) (seenWall \<sigma> u) h n))"

definition inv_mint :: "slot_sys \<Rightarrow> bool" where
  "inv_mint \<sigma> \<longleftrightarrow> distinct (map snd (minted \<sigma>)) \<and>
     (\<forall>u i. (u, i) \<in> set (minted \<sigma>) \<longrightarrow> (\<exists>h n. procs \<sigma> u = Some h \<and> hnode h = Some n
        \<and> WorkerOf i = WorkerID h \<and> base \<sigma> u < id_time i \<and> id_stamp i \<le> stamp n
        \<and> acked (fence h) \<and> id_time i \<le> limit h))"

definition inv_ack :: "int \<Rightarrow> slot_sys \<Rightarrow> bool" where
  "inv_ack D \<sigma> \<longleftrightarrow> (\<forall>u h. procs \<sigma> u = Some h \<longrightarrow> acked (fence h) \<longrightarrow>
     wv \<sigma> (Slot h) > 0 \<and> ackWall (fence h) \<le> seenWall \<sigma> u
     \<and> ackWall (fence h) - Epoch * second \<le> wv \<sigma> (Slot h) * second + D)"

definition inv_seen :: "slot_sys \<Rightarrow> bool" where
  "inv_seen \<sigma> \<longleftrightarrow> (\<forall>u h. procs \<sigma> u = Some h \<longrightarrow> guardRev h = rv_of \<sigma> (Slot h) \<longrightarrow>
     wv \<sigma> (Slot h) \<le> max (uint (guardWritten h)) (max (nowE (seenWall \<sigma> u)) (high_water h) + 2))"

definition inv_pairs :: "slot_sys \<Rightarrow> bool" where
  "inv_pairs \<sigma> \<longleftrightarrow> (\<forall>p q hp hq. p \<noteq> q \<longrightarrow> procs \<sigma> p = Some hp \<longrightarrow> procs \<sigma> q = Some hq \<longrightarrow> Slot hp = Slot hq \<longrightarrow>
     below \<sigma> p (base \<sigma> q) \<or> below \<sigma> q (base \<sigma> p))"

definition inv_entitled :: "slot_sys \<Rightarrow> bool" where
  "inv_entitled \<sigma> \<longleftrightarrow> (\<forall>p q hp hq. p \<noteq> q \<longrightarrow> procs \<sigma> p = Some hp \<longrightarrow> procs \<sigma> q = Some hq \<longrightarrow> Slot hp = Slot hq \<longrightarrow>
     entitled \<sigma> q hq \<longrightarrow> below \<sigma> p (base \<sigma> q))"

text \<open>A holder that has not seen the last revision: nobody else has, or it is still above the watermark
  of its own claim.\<close>

definition inv_unseen :: "slot_sys \<Rightarrow> bool" where
  "inv_unseen \<sigma> \<longleftrightarrow> (\<forall>p h. procs \<sigma> p = Some h \<longrightarrow> key_of \<sigma> (Slot h) p \<longrightarrow> guardRev h \<noteq> rv_of \<sigma> (Slot h) \<longrightarrow>
     (\<forall>q hq. q \<noteq> p \<longrightarrow> procs \<sigma> q = Some hq \<longrightarrow> Slot hq = Slot h \<longrightarrow> guardRev hq \<noteq> rv_of \<sigma> (Slot h))
     \<or> (wv \<sigma> (Slot h) < base \<sigma> p \<and> base \<sigma> p \<le> nowE (seenWall \<sigma> p)))"

definition slot_inv :: "resolvedOptions \<Rightarrow> int \<Rightarrow> nat \<Rightarrow> slot_sys \<Rightarrow> bool" where
  "slot_inv r D T \<sigma> \<longleftrightarrow> inv_ident \<sigma> \<and> inv_final \<sigma> \<and> inv_rev T \<sigma> \<and> inv_proc r T \<sigma> \<and> inv_mint \<sigma> \<and> inv_ack D \<sigma>
     \<and> inv_seen \<sigma> \<and> inv_pairs \<sigma> \<and> inv_entitled \<sigma> \<and> inv_unseen \<sigma>"

lemmas inv_defs = inv_ident_def inv_final_def inv_rev_def inv_proc_def inv_mint_def inv_ack_def inv_seen_def
  inv_pairs_def inv_entitled_def inv_unseen_def

lemma slot_invE:
  assumes "slot_inv r D T \<sigma>"
  obtains "inv_ident \<sigma>" "inv_final \<sigma>" "inv_rev T \<sigma>" "inv_proc r T \<sigma>" "inv_mint \<sigma>" "inv_ack D \<sigma>" "inv_seen \<sigma>"
    "inv_pairs \<sigma>" "inv_entitled \<sigma>" "inv_unseen \<sigma>"
  using assms by (auto simp: slot_inv_def)

lemma inv_mintE:
  assumes "inv_mint \<sigma>" and "(u, i) \<in> set (minted \<sigma>)"
  obtains h n where "procs \<sigma> u = Some h" "hnode h = Some n" "WorkerOf i = WorkerID h" "base \<sigma> u < id_time i"
    "id_stamp i \<le> stamp n" "acked (fence h)" "id_time i \<le> limit h"
  using assms unfolding inv_mint_def by blast

lemma rv_le_revision: "inv_rev T \<sigma> \<Longrightarrow> rv_of \<sigma> s \<le> revision (store \<sigma>)"
  by (auto simp: inv_rev_def ModRevision_def split: option.splits)

lemma slot_init_inv: "slot_inv r D T slot_init"
  by (simp add: slot_inv_def inv_defs slot_init_def wm_value_def)

section \<open>Numbers\<close>

lemma nowE_mono: "w \<le> w' \<Longrightarrow> nowE w \<le> nowE w'"
  by (auto simp: nowE_def second_def zdiv_mono1)

lemma nowE_nonneg [simp]: "0 \<le> nowE w"
  by (simp add: nowE_def)

lemma unat_le_uint: "unat x \<le> k \<longleftrightarrow> uint x \<le> int k" for x :: u64
  by (simp only: uint_nat of_nat_le_iff)

lemma uint_nowEpoch:
  assumes "nowE (wall t) \<le> int T" and "T + 10 < 2 ^ 32"
  shows "uint (nowEpoch t) = nowE (wall t)"
proof (cases "unix_sec t < Epoch")
  case True
  then show ?thesis by (simp add: nowEpoch_def nowE_def unix_sec_def)
next
  case False
  define k where "k = wall t div second - Epoch"
  from False have k: "0 \<le> k" by (simp add: unix_sec_def k_def)
  from False have now: "nowEpoch t = word_of_int k"
    unfolding nowEpoch_def k_def by (simp add: unix_sec_def)
  from k assms have "k < 2 ^ 64" by (simp add: nowE_def k_def)
  with k have "uint (nowEpoch t) = k" unfolding now by (simp add: uint_word_of_int_eq take_bit_int_eq_self)
  with k show ?thesis by (simp add: nowE_def k_def)
qed

lemma uint_plus_two: "uint x \<le> int T + 10 \<Longrightarrow> T + 10 < 2 ^ 32 \<Longrightarrow> uint (x + 2) = uint x + 2" for x :: u64
  by (subst uint_add_lem [THEN iffD1]) simp_all

lemma guard_target_value:
  assumes "nowE (wall t) \<le> int T" and "T + 10 < 2 ^ 32" and "\<forall>n. hnode h = Some n \<longrightarrow> node_ok T n"
  shows "uint (guard_target t h) = max (uint (guardWritten h)) (max (nowE (wall t)) (high_water h) + 2)"
proof -
  note now = uint_nowEpoch [OF assms(1,2)]
  define high where "high = (case hnode h of None \<Rightarrow> nowEpoch t
    | Some n \<Rightarrow> if HighWaterEpochSec n > nowEpoch t then HighWaterEpochSec n else nowEpoch t)"
  have hv: "uint high = max (nowE (wall t)) (high_water h)"
    using now by (cases "hnode h") (auto simp: high_def high_water_def HighWaterEpochSec_def word_less_def)
  have "uint high \<le> int T + 10"
    using assms(1,3) hv by (auto simp: high_water_def node_ok_def unat_le_uint split: option.splits)
  from uint_plus_two [OF this assms(2)] hv
  have "uint (high + 2) = max (nowE (wall t)) (high_water h) + 2" by simp
  then show ?thesis
    unfolding guard_target_def Let_def high_def [symmetric] by (auto simp: word_less_def max_def)
qed

section \<open>Transfer\<close>

text \<open>The order between processes survives a step under which no process appears, moves its slot or its
  base, or becomes entitled, and under which whatever was below stays below.\<close>

lemma pairs_transfer:
  assumes "inv_pairs \<sigma>" and "\<And>p k'. procs \<sigma>' p = Some k' \<Longrightarrow> \<exists>k. procs \<sigma> p = Some k \<and> Slot k' = Slot k"
    and "base \<sigma>' = base \<sigma>" and "\<And>p b. below \<sigma> p b \<Longrightarrow> below \<sigma>' p b"
  shows "inv_pairs \<sigma>'"
  unfolding inv_pairs_def
proof (intro allI impI)
  fix p q hp hq
  assume pq: "p \<noteq> q" "procs \<sigma>' p = Some hp" "procs \<sigma>' q = Some hq" "Slot hp = Slot hq"
  from assms(2) [OF pq(2)] assms(2) [OF pq(3)] obtain kp kq
    where "procs \<sigma> p = Some kp" "Slot hp = Slot kp" "procs \<sigma> q = Some kq" "Slot hq = Slot kq" by blast
  with assms(1) pq(1,4) have "below \<sigma> p (base \<sigma> q) \<or> below \<sigma> q (base \<sigma> p)" by (simp add: inv_pairs_def)
  with assms(3,4) show "below \<sigma>' p (base \<sigma>' q) \<or> below \<sigma>' q (base \<sigma>' p)" by auto
qed

lemma entitled_transfer:
  assumes "inv_entitled \<sigma>"
    and "\<And>p k'. procs \<sigma>' p = Some k' \<Longrightarrow> \<exists>k. procs \<sigma> p = Some k \<and> Slot k' = Slot k \<and> (entitled \<sigma>' p k' \<longrightarrow> entitled \<sigma> p k)"
    and "base \<sigma>' = base \<sigma>" and "\<And>p b. below \<sigma> p b \<Longrightarrow> below \<sigma>' p b"
  shows "inv_entitled \<sigma>'"
  unfolding inv_entitled_def
proof (intro allI impI)
  fix p q hp hq
  assume pq: "p \<noteq> q" "procs \<sigma>' p = Some hp" "procs \<sigma>' q = Some hq" "Slot hp = Slot hq" "entitled \<sigma>' q hq"
  from assms(2) [OF pq(2)] assms(2) [OF pq(3)] pq(5) obtain kp kq
    where "procs \<sigma> p = Some kp" "Slot hp = Slot kp" "procs \<sigma> q = Some kq" "Slot hq = Slot kq" "entitled \<sigma> q kq" by blast
  with assms(1) pq(1,4) have "below \<sigma> p (base \<sigma> q)" by (simp add: inv_entitled_def)
  with assms(3,4) show "below \<sigma>' p (base \<sigma>' q)" by simp
qed

section \<open>Steps that touch one handle only\<close>

text \<open>A handle that keeps its identity, its clock and what it knows of the watermark, and whose
  generator at most moves forward.\<close>

definition retouch :: "nat \<Rightarrow> slot_sys \<Rightarrow> string \<Rightarrow> handle \<Rightarrow> handle \<Rightarrow> int \<Rightarrow> bool" where
  "retouch T \<sigma> u h h' w \<longleftrightarrow>
     procs \<sigma> u = Some h \<and> seenWall \<sigma> u \<le> w \<and> nowE w \<le> int T \<and> UUID h' = UUID h \<and> Slot h' = Slot h
     \<and> WorkerID h' = WorkerID h \<and> fence h' = fence h \<and> guardRev h' = guardRev h
     \<and> guardWritten h' = guardWritten h \<and> GuardEpochSec h' = GuardEpochSec h \<and> (closing h \<longrightarrow> closing h')
     \<and> granted \<sigma> (hLease h') = Some u \<and> (\<forall>n'. hnode h' = Some n' \<longrightarrow> node_fits T (base \<sigma> u) w h' n')
     \<and> (\<forall>n. hnode h = Some n \<longrightarrow> (\<exists>n'. hnode h' = Some n' \<and> stamp n \<le> stamp n' \<and> lastTime n \<le> lastTime n'))"

lemma below_retouch:
  assumes "retouch T \<sigma> u h h' w" and "below \<sigma> p b"
  shows "below (see u w (set_proc u h' \<sigma>)) p b"
  using assms by (auto simp: below_def retouch_def limit_def)

lemma retouch_seen_mono:
  assumes "retouch T \<sigma> u h h' w"
  shows "nowE (seenWall \<sigma> u) \<le> nowE w" and "high_water h \<le> high_water h'"
proof -
  show "nowE (seenWall \<sigma> u) \<le> nowE w" using assms by (simp add: retouch_def nowE_mono)
  show "high_water h \<le> high_water h'"
    using assms by (auto simp: retouch_def high_water_def word_le_def split: option.splits)
qed

lemma retouch_inv:
  assumes "slot_inv r D T \<sigma>" and rt: "retouch T \<sigma> u h h' w"
  shows "slot_inv r D T (see u w (set_proc u h' \<sigma>))"
proof -
  let ?\<sigma> = "see u w (set_proc u h' \<sigma>)"
  note mono = retouch_seen_mono [OF rt]
  from rt have p: "procs \<sigma> u = Some h" and same: "UUID h' = UUID h" "Slot h' = Slot h" "WorkerID h' = WorkerID h"
      "fence h' = fence h" "guardRev h' = guardRev h" "guardWritten h' = guardWritten h" "GuardEpochSec h' = GuardEpochSec h"
    and cl: "closing h \<longrightarrow> closing h'" and w: "seenWall \<sigma> u \<le> w" "nowE w \<le> int T"
    and gl: "granted \<sigma> (hLease h') = Some u"
    and fits: "\<forall>n'. hnode h' = Some n' \<longrightarrow> node_fits T (base \<sigma> u) w h' n'"
    and grows: "\<forall>n. hnode h = Some n \<longrightarrow> (\<exists>n'. hnode h' = Some n' \<and> stamp n \<le> stamp n' \<and> lastTime n \<le> lastTime n')"
    by (auto simp: retouch_def)
  note bl = below_retouch [OF rt]
  from assms(1) show ?thesis
  proof (rule slot_invE)
    assume i: "inv_ident \<sigma>" "inv_final \<sigma>" "inv_rev T \<sigma>" "inv_proc r T \<sigma>" "inv_mint \<sigma>" "inv_ack D \<sigma>" "inv_seen \<sigma>"
      "inv_pairs \<sigma>" "inv_entitled \<sigma>" "inv_unseen \<sigma>"
    have "inv_ident ?\<sigma>" using i(1) p same gl by (auto simp: inv_ident_def)
    moreover have "inv_final ?\<sigma>" using i(2) p same cl by (force simp: inv_final_def)
    moreover have "inv_rev T ?\<sigma>" using i(3) p same by (auto simp: inv_rev_def)
    moreover have "inv_proc r T ?\<sigma>" 
    proof -
      from i(4) p have "base \<sigma> u \<le> max (nowE (seenWall \<sigma> u)) (uint (guardWritten h))" by (auto simp: inv_proc_def)
      with mono(1) have "base \<sigma> u \<le> max (nowE w) (uint (guardWritten h))" by linarith
      with i(4) p same w fits show ?thesis by (auto simp: inv_proc_def)
    qed
    moreover have "inv_mint ?\<sigma>" using i(5) p same grows by (fastforce simp: inv_mint_def limit_def)
    moreover have "inv_ack D ?\<sigma>" using i(6) p same w by (fastforce simp: inv_ack_def)
    moreover have "inv_seen ?\<sigma>" 
    proof -
      have "wv \<sigma> (Slot h) \<le> max (uint (guardWritten h)) (max (nowE w) (high_water h') + 2)"
        if "guardRev h = rv_of \<sigma> (Slot h)"
      proof -
        from i(7) p that
        have "wv \<sigma> (Slot h) \<le> max (uint (guardWritten h)) (max (nowE (seenWall \<sigma> u)) (high_water h) + 2)"
          by (auto simp: inv_seen_def)
        with mono show ?thesis by linarith
      qed
      with i(7) same show ?thesis by (auto simp: inv_seen_def)
    qed
    moreover have "inv_pairs ?\<sigma>"
      by (rule pairs_transfer [OF i(8)]) (use p same bl in \<open>auto split: if_splits\<close>)
    moreover have "inv_entitled ?\<sigma>"
      by (rule entitled_transfer [OF i(9)]) (use p same bl in \<open>auto simp: entitled_def split: if_splits\<close>)
    moreover have "inv_unseen ?\<sigma>"
      unfolding inv_unseen_def
    proof (intro allI impI)
      fix v k assume v: "procs ?\<sigma> v = Some k" "key_of ?\<sigma> (Slot k) v" "guardRev k \<noteq> rv_of ?\<sigma> (Slot k)"
      then obtain k0 where "procs \<sigma> v = Some k0" "Slot k = Slot k0" "guardRev k = guardRev k0"
        using p same by (auto split: if_splits)
      with v i(10) have "(\<forall>q hq. q \<noteq> v \<longrightarrow> procs \<sigma> q = Some hq \<longrightarrow> Slot hq = Slot k \<longrightarrow> guardRev hq \<noteq> rv_of \<sigma> (Slot k))
          \<or> (wv \<sigma> (Slot k) < base \<sigma> v \<and> base \<sigma> v \<le> nowE (seenWall \<sigma> v))" by (simp add: inv_unseen_def)
      with p same mono show "(\<forall>q hq. q \<noteq> v \<longrightarrow> procs ?\<sigma> q = Some hq \<longrightarrow> Slot hq = Slot k \<longrightarrow> guardRev hq \<noteq> rv_of ?\<sigma> (Slot k))
          \<or> (wv ?\<sigma> (Slot k) < base ?\<sigma> v \<and> base ?\<sigma> v \<le> nowE (seenWall ?\<sigma> v))"
        by (auto split: if_splits)
    qed
    ultimately show ?thesis by (simp add: slot_inv_def)
  qed
qed

section \<open>Changes of the keys\<close>

text \<open>Keys may vanish, and a process that is entitled to its slot (or has no handle yet) may put its key
  on a lease of its own; watermarks stay.\<close>

definition rekey :: "slot_sys \<Rightarrow> (int \<Rightarrow> string option) \<Rightarrow> string \<Rightarrow> int \<Rightarrow> etcd \<Rightarrow> bool" where
  "rekey \<sigma> g u l st \<longleftrightarrow> watermark st = watermark (store \<sigma>) \<and> revision (store \<sigma>) \<le> revision st
     \<and> (\<forall>host k. released st host = Some k \<longrightarrow> released (store \<sigma>) host = Some k)
     \<and> (\<forall>k p. granted \<sigma> k = Some p \<longrightarrow> g k = Some p) \<and> g 0 = None
     \<and> (\<forall>s. slots st s = slots (store \<sigma>) s \<or> slots st s = None
          \<or> (slots st s = Some (u, l) \<and> g l = Some u \<and> (\<forall>h. procs \<sigma> u = Some h \<longrightarrow> Slot h = s \<and> entitled \<sigma> u h)))"

lemma rekey_key:
  assumes "rekey \<sigma> g u l st" and "holds st s p" and "\<not> key_of \<sigma> s p"
  shows "p = u \<and> (\<forall>h. procs \<sigma> u = Some h \<longrightarrow> Slot h = s \<and> entitled \<sigma> u h)"
proof -
  from assms(1) have "slots st s = slots (store \<sigma>) s \<or> slots st s = None
      \<or> (slots st s = Some (u, l) \<and> g l = Some u \<and> (\<forall>h. procs \<sigma> u = Some h \<longrightarrow> Slot h = s \<and> entitled \<sigma> u h))" by (simp add: rekey_def)
  with assms(2,3) show ?thesis by (auto simp: holds_def)
qed

lemma rekey_inv:
  assumes "slot_inv r D T \<sigma>" and rk: "rekey \<sigma> g u l st"
  shows "slot_inv r D T (\<sigma>\<lparr>store := st, granted := g\<rparr>)"
proof -
  let ?\<sigma> = "\<sigma>\<lparr>store := st, granted := g\<rparr>"
  from rk have wm: "watermark st = watermark (store \<sigma>)" and rev: "revision (store \<sigma>) \<le> revision st"
    and rel: "\<And>host k. released st host = Some k \<Longrightarrow> released (store \<sigma>) host = Some k"
    and g: "\<And>k p. granted \<sigma> k = Some p \<Longrightarrow> g k = Some p" "g 0 = None" by (auto simp: rekey_def)
  note key = rekey_key [OF rk]
  have bl: "below ?\<sigma> p b" if "below \<sigma> p b" for p b using that by (simp add: below_def)
  have ent: "entitled \<sigma> p k" if "procs \<sigma> p = Some k" "entitled ?\<sigma> p k" for p k
    using that key [of "Slot k" p] wm by (auto simp: entitled_def)
  from assms(1) show ?thesis
  proof (rule slot_invE)
    assume i: "inv_ident \<sigma>" "inv_final \<sigma>" "inv_rev T \<sigma>" "inv_proc r T \<sigma>" "inv_mint \<sigma>" "inv_ack D \<sigma>" "inv_seen \<sigma>"
      "inv_pairs \<sigma>" "inv_entitled \<sigma>" "inv_unseen \<sigma>"
    have "inv_ident ?\<sigma>"
    proof -
      have "granted ?\<sigma> k = Some p \<and> (\<forall>h. procs \<sigma> p = Some h \<longrightarrow> Slot h = s)" if "slots st s = Some (p, k)" for s p k
      proof (cases "slots st s = slots (store \<sigma>) s")
        case True
        with that i(1) have "granted \<sigma> k = Some p \<and> (\<forall>h. procs \<sigma> p = Some h \<longrightarrow> Slot h = s)" by (simp add: inv_ident_def)
        with g show ?thesis by simp
      next
        case False
        from rk have "slots st s = slots (store \<sigma>) s \<or> slots st s = None
            \<or> (slots st s = Some (u, l) \<and> g l = Some u \<and> (\<forall>h. procs \<sigma> u = Some h \<longrightarrow> Slot h = s \<and> entitled \<sigma> u h))"
          unfolding rekey_def by blast
        with False that show ?thesis by auto
      qed
      moreover have "granted ?\<sigma> (hLease h) = Some p" if "procs \<sigma> p = Some h" for p h
        using i(1) g that by (simp add: inv_ident_def)
      moreover have "\<exists>p \<in> finals \<sigma>. granted ?\<sigma> k = Some p" if "released st host = Some k" for host k
        using i(1) g(1) rel [OF that] by (fastforce simp: inv_ident_def)
      ultimately show ?thesis using i(1) g by (simp add: inv_ident_def)
    qed
    moreover have "inv_final ?\<sigma>" "inv_proc r T ?\<sigma>" "inv_mint ?\<sigma>" "inv_ack D ?\<sigma>" "inv_seen ?\<sigma>"
      using i(2,4,5,6,7) wm by (simp_all add: inv_final_def inv_proc_def inv_mint_def inv_ack_def inv_seen_def)
    moreover have "inv_rev T ?\<sigma>" using i(3) wm rev by (force simp: inv_rev_def)
    moreover have "inv_pairs ?\<sigma>" by (rule pairs_transfer [OF i(8)]) (use bl in auto)
    moreover have "inv_entitled ?\<sigma>"
    proof (rule entitled_transfer [OF i(9)])
      fix p k' assume "procs ?\<sigma> p = Some k'"
      then have "procs \<sigma> p = Some k'" by simp
      with ent [of p k'] show "\<exists>k. procs \<sigma> p = Some k \<and> Slot k' = Slot k \<and> (entitled ?\<sigma> p k' \<longrightarrow> entitled \<sigma> p k)"
        by blast
    qed (use bl in simp_all)
    moreover have "inv_unseen ?\<sigma>"
      unfolding inv_unseen_def
    proof (intro allI impI)
      fix p h assume p: "procs ?\<sigma> p = Some h" "key_of ?\<sigma> (Slot h) p" "guardRev h \<noteq> rv_of ?\<sigma> (Slot h)"
      have "key_of \<sigma> (Slot h) p"
      proof (rule ccontr)
        assume no: "\<not> key_of \<sigma> (Slot h) p"
        from p(2) have "holds st (Slot h) p" by simp
        from key [OF this no] p(1) have "p = u" "entitled \<sigma> u h" by auto
        with no p(3) wm show False by (simp add: entitled_def)
      qed
      with p i(10) wm show "(\<forall>q hq. q \<noteq> p \<longrightarrow> procs ?\<sigma> q = Some hq \<longrightarrow> Slot hq = Slot h \<longrightarrow> guardRev hq \<noteq> rv_of ?\<sigma> (Slot h))
          \<or> (wv ?\<sigma> (Slot h) < base ?\<sigma> p \<and> base ?\<sigma> p \<le> nowE (seenWall ?\<sigma> p))"
        by (simp add: inv_unseen_def)
    qed
    ultimately show ?thesis by (simp add: slot_inv_def)
  qed
qed

section \<open>Changes of a watermark\<close>

lemma write_inv:
  assumes "slot_inv r D T \<sigma>" and "key_of \<sigma> s u" and "wv \<sigma> s \<le> uint v" and "uint v \<le> int T + 10" and "0 < uint v"
  shows "slot_inv r D T (set_store (put_watermark s v (store \<sigma>)) \<sigma>)"
proof -
  let ?\<sigma> = "set_store (put_watermark s v (store \<sigma>)) \<sigma>"
  have w: "wv \<sigma> x \<le> wv ?\<sigma> x" for x using assms(3) by (simp add: put_watermark_def wm_value_def)
  have w': "wv ?\<sigma> x \<le> int T + 10" if "wv \<sigma> x \<le> int T + 10" for x
    using assms(4) that by (simp add: put_watermark_def wm_value_def)
  have k: "holds (put_watermark s v (store \<sigma>)) x p = key_of \<sigma> x p" for x p by (simp add: put_watermark_def holds_def)
  have bl: "below ?\<sigma> p b" if "below \<sigma> p b" for p b using that by (simp add: below_def)
  from assms(1) show ?thesis
  proof (rule slot_invE)
    assume i: "inv_ident \<sigma>" "inv_final \<sigma>" "inv_rev T \<sigma>" "inv_proc r T \<sigma>" "inv_mint \<sigma>" "inv_ack D \<sigma>" "inv_seen \<sigma>"
      "inv_pairs \<sigma>" "inv_entitled \<sigma>" "inv_unseen \<sigma>"
    have old: "guardRev h < rv_of ?\<sigma> s" if "procs \<sigma> p = Some h" for p h
    proof -
      from i(3) that have "guardRev h \<le> rv_of \<sigma> (Slot h)" by (simp add: inv_rev_def)
      also have "\<dots> \<le> revision (store \<sigma>)" using i(3) by (rule rv_le_revision)
      finally show ?thesis by (simp add: put_watermark_def ModRevision_def)
    qed
    have same: "rv_of ?\<sigma> x = rv_of \<sigma> x" "wv ?\<sigma> x = wv \<sigma> x" if "x \<noteq> s" for x
      using that by (simp_all add: put_watermark_def)
    have seen: "guardRev h = rv_of \<sigma> (Slot h) \<and> Slot h \<noteq> s"
      if "procs \<sigma> p = Some h" "guardRev h = rv_of ?\<sigma> (Slot h)" for p h
      using that old same by (metis less_irrefl)
    have "inv_ident ?\<sigma>" using i(1) by (simp add: inv_ident_def put_watermark_def)
    moreover have "inv_final ?\<sigma>" using i(2) w by (fastforce simp: inv_final_def intro: order_trans)
    moreover have "inv_rev T ?\<sigma>"
    proof -
      have "guardRev h \<le> rv_of ?\<sigma> (Slot h)" if "procs \<sigma> p = Some h" for p h
        using i(3) old [OF that] same(1) [of "Slot h"] that by (cases "Slot h = s") (auto simp: inv_rev_def)
      moreover have "0 < rv \<and> rv \<le> revision (store ?\<sigma>) \<and> 0 < uint x"
        if "watermark (store ?\<sigma>) y = Some (x, rv)" for x y rv
        using i(3) assms(5) that by (fastforce simp: inv_rev_def put_watermark_def split: if_splits)
      moreover have "0 \<le> revision (store ?\<sigma>)" using i(3) by (simp add: inv_rev_def put_watermark_def)
      moreover have "wv ?\<sigma> x \<le> int T + 10" for x using i(3) w' by (simp add: inv_rev_def)
      ultimately show ?thesis unfolding inv_rev_def by simp
    qed
    moreover have "inv_proc r T ?\<sigma>" "inv_mint ?\<sigma>" using i(4,5) by (simp_all add: inv_proc_def inv_mint_def)
    moreover have "inv_ack D ?\<sigma>"
      unfolding inv_ack_def
    proof (intro allI impI)
      fix p h assume p: "procs ?\<sigma> p = Some h" "acked (fence h)"
      with i(6) have "wv \<sigma> (Slot h) > 0 \<and> ackWall (fence h) \<le> seenWall \<sigma> p
          \<and> ackWall (fence h) - Epoch * second \<le> wv \<sigma> (Slot h) * second + D" by (simp add: inv_ack_def)
      with w [of "Slot h"] show "wv ?\<sigma> (Slot h) > 0 \<and> ackWall (fence h) \<le> seenWall ?\<sigma> p
          \<and> ackWall (fence h) - Epoch * second \<le> wv ?\<sigma> (Slot h) * second + D" by (simp add: second_def)
    qed
    moreover have "inv_seen ?\<sigma>"
      unfolding inv_seen_def
    proof (intro allI impI)
      fix p h assume "procs ?\<sigma> p = Some h" "guardRev h = rv_of ?\<sigma> (Slot h)"
      with i(7) seen [of p h] same [of "Slot h"]
      show "wv ?\<sigma> (Slot h) \<le> max (uint (guardWritten h)) (max (nowE (seenWall ?\<sigma> p)) (high_water h) + 2)"
        by (simp add: inv_seen_def)
    qed
    moreover have "inv_pairs ?\<sigma>" by (rule pairs_transfer [OF i(8)]) (use bl in auto)
    moreover have "inv_entitled ?\<sigma>"
      by (rule entitled_transfer [OF i(9)]) (use bl seen in \<open>auto simp: entitled_def k\<close>)
    moreover have "inv_unseen ?\<sigma>"
      unfolding inv_unseen_def
    proof (intro allI impI)
      fix p h assume p: "procs ?\<sigma> p = Some h" "key_of ?\<sigma> (Slot h) p" "guardRev h \<noteq> rv_of ?\<sigma> (Slot h)"
      show "(\<forall>q hq. q \<noteq> p \<longrightarrow> procs ?\<sigma> q = Some hq \<longrightarrow> Slot hq = Slot h \<longrightarrow> guardRev hq \<noteq> rv_of ?\<sigma> (Slot h))
          \<or> (wv ?\<sigma> (Slot h) < base ?\<sigma> p \<and> base ?\<sigma> p \<le> nowE (seenWall ?\<sigma> p))"
      proof (cases "Slot h = s")
        case True
        with old show ?thesis by fastforce
      next
        case False
        with p i(10) same [of "Slot h"] k show ?thesis by (simp add: inv_unseen_def)
      qed
    qed
    ultimately show ?thesis by (simp add: slot_inv_def)
  qed
qed

text \<open>The holder of a key takes note of the current revision, and possibly of a higher floor.\<close>

lemma key_unique: "key_of \<sigma> s u \<Longrightarrow> key_of \<sigma> s v \<Longrightarrow> u = v"
  by (auto simp: holds_def split: option.splits)

lemma observe_inv:
  assumes "slot_inv r D T \<sigma>" and u: "procs \<sigma> u = Some h" and key: "key_of \<sigma> (Slot h) u"
    and g: "guardWritten h \<le> v" "uint v \<le> int T + 10"
    and w: "wv \<sigma> (Slot h) \<le> max (uint v) (max (nowE (seenWall \<sigma> u)) (high_water h) + 2)"
  shows "slot_inv r D T (set_proc u (h\<lparr>guardRev := rv_of \<sigma> (Slot h), guardWritten := v\<rparr>) \<sigma>)"
proof -
  let ?h = "h\<lparr>guardRev := rv_of \<sigma> (Slot h), guardWritten := v\<rparr>"
  let ?\<sigma> = "set_proc u ?h \<sigma>"
  have bl: "below ?\<sigma> p b" if "below \<sigma> p b" for p b using that u by (auto simp: below_def limit_def)
  have hw: "high_water ?h = high_water h" by (simp add: high_water_def)
  from assms(1) show ?thesis
  proof (rule slot_invE)
    assume i: "inv_ident \<sigma>" "inv_final \<sigma>" "inv_rev T \<sigma>" "inv_proc r T \<sigma>" "inv_mint \<sigma>" "inv_ack D \<sigma>" "inv_seen \<sigma>"
      "inv_pairs \<sigma>" "inv_entitled \<sigma>" "inv_unseen \<sigma>"
    from i(3) have "inv_rev T ?\<sigma>" by (auto simp: inv_rev_def)
    moreover have "inv_ident ?\<sigma>" using i(1) u by (auto simp: inv_ident_def)
    moreover have "inv_final ?\<sigma>" using i(2) u by (force simp: inv_final_def)
    moreover have "inv_proc r T ?\<sigma>"
    proof -
      from i(4) u have "base \<sigma> u \<le> max (nowE (seenWall \<sigma> u)) (uint (guardWritten h))" "GuardEpochSec h \<le> guardWritten h"
        by (auto simp: inv_proc_def)
      with g(1) have "base \<sigma> u \<le> max (nowE (seenWall \<sigma> u)) (uint v)" "GuardEpochSec h \<le> v"
        by (auto simp: word_le_def)
      with i(4) u g(2) show ?thesis by (auto simp: inv_proc_def node_fits_def)
    qed
    moreover have "inv_mint ?\<sigma>" using i(5) u by (fastforce simp: inv_mint_def limit_def)
    moreover have "inv_ack D ?\<sigma>" using i(6) u by (auto simp: inv_ack_def)
    moreover have "inv_seen ?\<sigma>" using i(7) u w hw by (auto simp: inv_seen_def)
    moreover have "inv_pairs ?\<sigma>" by (rule pairs_transfer [OF i(8)]) (use bl u in \<open>auto split: if_splits\<close>)
    moreover have "inv_entitled ?\<sigma>"
      by (rule entitled_transfer [OF i(9)]) (use bl u key in \<open>auto simp: entitled_def split: if_splits\<close>)
    moreover have "inv_unseen ?\<sigma>"
      unfolding inv_unseen_def
    proof (intro allI impI)
      fix p k assume p: "procs ?\<sigma> p = Some k" "key_of ?\<sigma> (Slot k) p" "guardRev k \<noteq> rv_of ?\<sigma> (Slot k)"
      then have pu: "p \<noteq> u" by auto
      with p key key_unique [of \<sigma> "Slot h" u p] have "Slot k \<noteq> Slot h" by auto
      with p pu i(10) show "(\<forall>q hq. q \<noteq> p \<longrightarrow> procs ?\<sigma> q = Some hq \<longrightarrow> Slot hq = Slot k \<longrightarrow> guardRev hq \<noteq> rv_of ?\<sigma> (Slot k))
          \<or> (wv ?\<sigma> (Slot k) < base ?\<sigma> p \<and> base ?\<sigma> p \<le> nowE (seenWall ?\<sigma> p))"
        by (auto simp: inv_unseen_def split: if_splits)
    qed
    ultimately show ?thesis by (simp add: slot_inv_def)
  qed
qed

text \<open>The holder acknowledges: its limit moves on, and nobody else may be entitled.\<close>

lemma limit_Ack: "ackWall (fence h) \<le> wall t \<Longrightarrow> limit h \<le> limit (h\<lparr>fence := Ack t (fence h)\<rparr>)"
  by (simp add: limit_def Ack_def second_def zdiv_mono1)

lemma ack_inv:
  assumes "slot_inv r D T \<sigma>" and u: "procs \<sigma> u = Some h" and key: "key_of \<sigma> (Slot h) u"
    and alone: "\<And>q hq. q \<noteq> u \<Longrightarrow> procs \<sigma> q = Some hq \<Longrightarrow> Slot hq = Slot h \<Longrightarrow> guardRev hq \<noteq> rv_of \<sigma> (Slot h)"
    and t: "seenWall \<sigma> u = wall t" and wv: "wv \<sigma> (Slot h) > 0"
    and lag: "wall t - Epoch * second \<le> wv \<sigma> (Slot h) * second + D"
  shows "slot_inv r D T (set_proc u (ackLocked t h) \<sigma>)"
proof -
  let ?h = "h\<lparr>fence := Ack t (fence h)\<rparr>"
  let ?\<sigma> = "set_proc u ?h \<sigma>"
  have others: "below ?\<sigma> p b = below \<sigma> p b" if "p \<noteq> u" for p b using that by (simp add: below_def)
  from assms(1) have "slot_inv r D T ?\<sigma>"
  proof (rule slot_invE)
    assume i: "inv_ident \<sigma>" "inv_final \<sigma>" "inv_rev T \<sigma>" "inv_proc r T \<sigma>" "inv_mint \<sigma>" "inv_ack D \<sigma>" "inv_seen \<sigma>"
      "inv_pairs \<sigma>" "inv_entitled \<sigma>" "inv_unseen \<sigma>"
    have ent: "below \<sigma> p (base \<sigma> u)" if "p \<noteq> u" "procs \<sigma> p = Some hp" "Slot hp = Slot h" for p hp
      using i(9) that u key by (auto simp: inv_entitled_def entitled_def)
    have "inv_ident ?\<sigma>" using i(1) u by (auto simp: inv_ident_def)
    moreover have "inv_final ?\<sigma>" using i(2) u by (force simp: inv_final_def)
    moreover have "inv_rev T ?\<sigma>" using i(3) u by (auto simp: inv_rev_def)
    moreover have "inv_proc r T ?\<sigma>" using i(4) u by (auto simp: inv_proc_def Ack_def node_fits_def)
    moreover have "inv_mint ?\<sigma>"
    proof -
      have "\<exists>k n. procs ?\<sigma> v = Some k \<and> hnode k = Some n \<and> WorkerOf x = WorkerID k \<and> base \<sigma> v < id_time x
          \<and> id_stamp x \<le> stamp n \<and> acked (fence k) \<and> id_time x \<le> limit k" if x: "(v, x) \<in> set (minted \<sigma>)" for v x
      proof -
        from i(5) x obtain k n where k: "procs \<sigma> v = Some k" "hnode k = Some n" "WorkerOf x = WorkerID k"
            "base \<sigma> v < id_time x" "id_stamp x \<le> stamp n" "acked (fence k)" "id_time x \<le> limit k"
          unfolding inv_mint_def by blast
        show ?thesis
        proof (cases "v = u")
          case True
          with k u have kh: "k = h" by simp
          from i(6) u k(6) kh t have "ackWall (fence h) \<le> wall t" unfolding inv_ack_def by metis
          from limit_Ack [OF this] k kh True show ?thesis by (auto simp: Ack_def)
        next
          case False
          with k show ?thesis by auto
        qed
      qed
      with i(5) show ?thesis by (simp add: inv_mint_def)
    qed
    moreover have "inv_ack D ?\<sigma>" using i(6) t wv lag by (auto simp: inv_ack_def Ack_def)
    moreover have "inv_seen ?\<sigma>" using i(7) u by (auto simp: inv_seen_def high_water_def)
    moreover have "inv_pairs ?\<sigma>"
      unfolding inv_pairs_def
    proof (intro allI impI)
      fix p q hp hq assume pq: "p \<noteq> q" "procs ?\<sigma> p = Some hp" "procs ?\<sigma> q = Some hq" "Slot hp = Slot hq"
      consider "p = u" | "q = u" | "p \<noteq> u" "q \<noteq> u" by blast
      then show "below ?\<sigma> p (base ?\<sigma> q) \<or> below ?\<sigma> q (base ?\<sigma> p)"
      proof cases
        case 1
        with pq have "below \<sigma> q (base \<sigma> u)" by (intro ent [of q hq]) auto
        with 1 pq(1) others show ?thesis by auto
      next
        case 2
        with pq have "below \<sigma> p (base \<sigma> u)" by (intro ent [of p hp]) auto
        with 2 pq(1) others show ?thesis by auto
      next
        case 3
        with pq i(8) others show ?thesis by (auto simp: inv_pairs_def)
      qed
    qed
    moreover have "inv_entitled ?\<sigma>"
      unfolding inv_entitled_def
    proof (intro allI impI)
      fix p q hp hq assume pq: "p \<noteq> q" "procs ?\<sigma> p = Some hp" "procs ?\<sigma> q = Some hq" "Slot hp = Slot hq" "entitled ?\<sigma> q hq"
      have pu: "p \<noteq> u"
      proof
        assume "p = u"
        with pq have q: "procs \<sigma> q = Some hq" "Slot hq = Slot h" "q \<noteq> u" by auto
        from pq(5) q alone [of q hq] have "key_of \<sigma> (Slot h) q" by (simp add: entitled_def)
        with key q(3) key_unique show False by blast
      qed
      then show "below ?\<sigma> p (base ?\<sigma> q)"
      proof (cases "q = u")
        case True
        with pq pu have "below \<sigma> p (base \<sigma> u)" by (intro ent [of p hp]) auto
        with True pu others show ?thesis by simp
      next
        case False
        with pu pq i(9) others show ?thesis by (auto simp: inv_entitled_def entitled_def)
      qed
    qed
    moreover have "inv_unseen ?\<sigma>"
      unfolding inv_unseen_def
    proof (intro allI impI)
      fix p k assume p: "procs ?\<sigma> p = Some k" "key_of ?\<sigma> (Slot k) p" "guardRev k \<noteq> rv_of ?\<sigma> (Slot k)"
      then obtain k0 where "procs \<sigma> p = Some k0" "Slot k = Slot k0" "guardRev k = guardRev k0"
        using u by (auto split: if_splits)
      with p i(10) u show "(\<forall>q hq. q \<noteq> p \<longrightarrow> procs ?\<sigma> q = Some hq \<longrightarrow> Slot hq = Slot k \<longrightarrow> guardRev hq \<noteq> rv_of ?\<sigma> (Slot k))
          \<or> (wv ?\<sigma> (Slot k) < base ?\<sigma> p \<and> base ?\<sigma> p \<le> nowE (seenWall ?\<sigma> p))"
        by (fastforce simp: inv_unseen_def split: if_splits)
    qed
    ultimately show ?thesis by (simp add: slot_inv_def)
  qed
  then show ?thesis by (simp add: ackLocked_def)
qed

section \<open>A new process\<close>

definition newcomer :: "resolvedOptions \<Rightarrow> nat \<Rightarrow> slot_sys \<Rightarrow> string \<Rightarrow> handle \<Rightarrow> int \<Rightarrow> int \<Rightarrow> bool" where
  "newcomer r T \<sigma> u h b w \<longleftrightarrow>
     procs \<sigma> u = None \<and> UUID h = u \<and> granted \<sigma> (hLease h) = Some u \<and> key_of \<sigma> (Slot h) u
     \<and> (\<forall>s. key_of \<sigma> s u \<longrightarrow> s = Slot h) \<and> hnode h = None \<and> \<not> acked (fence h) \<and> \<not> closing h
     \<and> budget (fence h) = fenceAfter r
     \<and> ComposeWorkerID (cluster r) (Slot h) (clusterBits r) (slotBits r) = Some (WorkerID h)
     \<and> b \<le> max (nowE w) (uint (guardWritten h)) \<and> GuardEpochSec h \<le> guardWritten h
     \<and> uint (guardWritten h) \<le> int T + 10 \<and> nowE w \<le> int T \<and> guardRev h \<le> rv_of \<sigma> (Slot h)
     \<and> (guardRev h = rv_of \<sigma> (Slot h) \<longrightarrow> wv \<sigma> (Slot h) \<le> uint (guardWritten h))
     \<and> (guardRev h = rv_of \<sigma> (Slot h) \<or> (wv \<sigma> (Slot h) < b \<and> b \<le> nowE w))
     \<and> (\<forall>p hp. procs \<sigma> p = Some hp \<longrightarrow> Slot hp = Slot h \<longrightarrow> below \<sigma> p b)"

lemma newcomer_inv:
  assumes "slot_inv r D T \<sigma>" and nc: "newcomer r T \<sigma> u h b w"
  shows "slot_inv r D T (set_base u b (see u w (set_proc u h \<sigma>)))"
proof -
  let ?\<sigma> = "set_base u b (see u w (set_proc u h \<sigma>))"
  note nc = nc [unfolded newcomer_def]
  from nc have none: "procs \<sigma> u = None" and key: "key_of \<sigma> (Slot h) u" "\<And>s. key_of \<sigma> s u \<Longrightarrow> s = Slot h"
    and bel: "\<And>p hp. procs \<sigma> p = Some hp \<Longrightarrow> Slot hp = Slot h \<Longrightarrow> below \<sigma> p b" by auto
  have others: "below ?\<sigma> p c = below \<sigma> p c" if "p \<noteq> u" for p c using that by (simp add: below_def)
  from assms(1) show ?thesis
  proof (rule slot_invE)
    assume i: "inv_ident \<sigma>" "inv_final \<sigma>" "inv_rev T \<sigma>" "inv_proc r T \<sigma>" "inv_mint \<sigma>" "inv_ack D \<sigma>" "inv_seen \<sigma>"
      "inv_pairs \<sigma>" "inv_entitled \<sigma>" "inv_unseen \<sigma>"
    from none have nomint: "(u, x) \<notin> set (minted \<sigma>)" for x using inv_mintE [OF i(5), of u x] by auto
    from i(2) none have nofinal: "u \<notin> finals \<sigma>" by (auto simp: inv_final_def)
    have mine: "below ?\<sigma> u c" for c using nomint nc by (simp add: below_def)
    have "inv_ident ?\<sigma>" using i(1) nc by (auto simp: inv_ident_def holds_def split: option.splits)
    moreover have "inv_final ?\<sigma>" unfolding inv_final_def
    proof
      fix v assume v: "v \<in> finals ?\<sigma>"
      with nofinal have "v \<noteq> u" by auto
      with v i(2) show "\<exists>k. procs ?\<sigma> v = Some k \<and> closing k \<and> base ?\<sigma> v \<le> wv ?\<sigma> (Slot k)
          \<and> (\<forall>x. (v, x) \<in> set (minted ?\<sigma>) \<longrightarrow> id_time x \<le> wv ?\<sigma> (Slot k))" by (simp add: inv_final_def)
    qed
    moreover have "inv_rev T ?\<sigma>" using i(3) nc by (auto simp: inv_rev_def)
    moreover have "inv_proc r T ?\<sigma>" using i(4) nc by (auto simp: inv_proc_def)
    moreover have "inv_mint ?\<sigma>" unfolding inv_mint_def
    proof (intro conjI allI impI)
      show "distinct (map snd (minted ?\<sigma>))" using i(5) by (simp add: inv_mint_def)
      fix v x assume x: "(v, x) \<in> set (minted ?\<sigma>)"
      with nomint have "v \<noteq> u" by auto
      with x i(5) show "\<exists>k n. procs ?\<sigma> v = Some k \<and> hnode k = Some n \<and> WorkerOf x = WorkerID k
          \<and> base ?\<sigma> v < id_time x \<and> id_stamp x \<le> stamp n \<and> acked (fence k) \<and> id_time x \<le> limit k"
        by (simp add: inv_mint_def)
    qed
    moreover have "inv_ack D ?\<sigma>" using i(6) nc by (auto simp: inv_ack_def)
    moreover have "inv_seen ?\<sigma>"
    proof -
      from nc have "guardRev h = rv_of \<sigma> (Slot h) \<longrightarrow> wv \<sigma> (Slot h) \<le> uint (guardWritten h)" by blast
      with i(7) show ?thesis by (auto simp: inv_seen_def max_def)
    qed
    moreover have "inv_pairs ?\<sigma>" unfolding inv_pairs_def
    proof (intro allI impI)
      fix p q hp hq assume pq: "p \<noteq> q" "procs ?\<sigma> p = Some hp" "procs ?\<sigma> q = Some hq" "Slot hp = Slot hq"
      show "below ?\<sigma> p (base ?\<sigma> q) \<or> below ?\<sigma> q (base ?\<sigma> p)"
      proof (cases "p = u \<or> q = u")
        case True
        with mine show ?thesis by auto
      next
        case False
        with pq i(8) others show ?thesis by (auto simp: inv_pairs_def)
      qed
    qed
    moreover have "inv_entitled ?\<sigma>" unfolding inv_entitled_def
    proof (intro allI impI)
      fix p q hp hq assume pq: "p \<noteq> q" "procs ?\<sigma> p = Some hp" "procs ?\<sigma> q = Some hq" "Slot hp = Slot hq" "entitled ?\<sigma> q hq"
      consider "p = u" | "p \<noteq> u" "q = u" | "p \<noteq> u" "q \<noteq> u" by blast
      then show "below ?\<sigma> p (base ?\<sigma> q)"
      proof cases
        case 1
        with mine show ?thesis by simp
      next
        case 2
        with pq have "below \<sigma> p b" by (intro bel [of p hp]) auto
        with 2 others show ?thesis by simp
      next
        case 3
        with pq i(9) others show ?thesis by (auto simp: inv_entitled_def entitled_def)
      qed
    qed
    moreover have "inv_unseen ?\<sigma>" unfolding inv_unseen_def
    proof (intro allI impI)
      fix p k assume p: "procs ?\<sigma> p = Some k" "key_of ?\<sigma> (Slot k) p" "guardRev k \<noteq> rv_of ?\<sigma> (Slot k)"
      show "(\<forall>q hq. q \<noteq> p \<longrightarrow> procs ?\<sigma> q = Some hq \<longrightarrow> Slot hq = Slot k \<longrightarrow> guardRev hq \<noteq> rv_of ?\<sigma> (Slot k))
          \<or> (wv ?\<sigma> (Slot k) < base ?\<sigma> p \<and> base ?\<sigma> p \<le> nowE (seenWall ?\<sigma> p))"
      proof (cases "p = u")
        case True
        from nc have "guardRev h = rv_of \<sigma> (Slot h) \<or> (wv \<sigma> (Slot h) < b \<and> b \<le> nowE w)" by blast
        with True p show ?thesis by auto
      next
        case False
        with p key(1) key_unique [of \<sigma> "Slot h" u p] have "Slot k \<noteq> Slot h" by auto
        with False p i(10) show ?thesis by (auto simp: inv_unseen_def split: if_splits)
      qed
    qed
    ultimately show ?thesis by (simp add: slot_inv_def)
  qed
qed

section \<open>A new id\<close>

lemma id_of_times:
  assumes "node_ok T n" "T + 10 < 2 ^ 32"
  shows "id_time (id_of n) = uint (lastTime n)" and "id_stamp (id_of n) = stamp n"
    and "WorkerOf (id_of n) = nodeID n"
  using compose_id_decode [OF node_ok_fields [OF assms]] by (simp_all add: id_time_def id_stamp_def stamp_def)

lemma stamp_above:
  assumes "node_ok T n" and "b * 2 ^ 15 + 32767 < int (stamp n)"
  shows "b < uint (lastTime n)"
proof -
  from assms(1) have "unat (step n) \<le> 32767" by (simp add: node_ok_def)
  then have "uint (step n) \<le> 32767" by (simp add: unat_le_uint)
  with assms(2) show ?thesis unfolding stamp_def by simp
qed

lemma mint_inv:
  assumes inv: "slot_inv r D T \<sigma>" and T: "T + 10 < 2 ^ 32" and u: "procs \<sigma> u = Some h" "hnode h = Some n"
    and live: "\<not> closing h" "acked (fence h)" and lim: "uint (lastTime n) \<le> limit h"
    and new: "base \<sigma> u * 2 ^ 15 + 32767 < int (stamp n)" "\<And>x. (u, x) \<in> set (minted \<sigma>) \<Longrightarrow> id_stamp x < stamp n"
  shows "slot_inv r D T (\<sigma>\<lparr>minted := (u, id_of n) # minted \<sigma>\<rparr>)"
proof -
  let ?\<sigma> = "\<sigma>\<lparr>minted := (u, id_of n) # minted \<sigma>\<rparr>"
  from inv show ?thesis
  proof (rule slot_invE)
    assume i: "inv_ident \<sigma>" "inv_final \<sigma>" "inv_rev T \<sigma>" "inv_proc r T \<sigma>" "inv_mint \<sigma>" "inv_ack D \<sigma>" "inv_seen \<sigma>"
      "inv_pairs \<sigma>" "inv_entitled \<sigma>" "inv_unseen \<sigma>"
    from i(4) u have nok: "node_ok T n" and wid: "nodeID n = WorkerID h" by (auto simp: inv_proc_def node_fits_def)
    note idt = id_of_times [OF nok T]
    note above = stamp_above [OF nok new(1)]
    have bl: "below ?\<sigma> p b" if "below \<sigma> p b" for p b
      using that u live lim by (auto simp: below_def idt(1))
    have differ: "id_of n \<noteq> x" if x: "(v, x) \<in> set (minted \<sigma>)" for v x
    proof (cases "v = u")
      case True
      with new(2) [of x] x idt(2) show ?thesis by auto
    next
      case False
      from i(5) x obtain k where k: "procs \<sigma> v = Some k" "WorkerOf x = WorkerID k" "base \<sigma> v < id_time x"
        unfolding inv_mint_def by blast
      show ?thesis
      proof (cases "Slot k = Slot h")
        case True
        with i(8) False k(1) u(1) have "below \<sigma> v (base \<sigma> u) \<or> below \<sigma> u (base \<sigma> v)" by (auto simp: inv_pairs_def)
        then show ?thesis
        proof
          assume "below \<sigma> v (base \<sigma> u)"
          with x have "id_time x \<le> base \<sigma> u" by (simp add: below_def)
          with above idt(1) show ?thesis by auto
        next
          assume "below \<sigma> u (base \<sigma> v)"
          with u(1) live have "limit h \<le> base \<sigma> v" by (auto simp: below_def)
          with lim k(3) idt(1) show ?thesis by auto
        qed
      next
        case False
        from i(4) k(1) u(1) have "ComposeWorkerID (cluster r) (Slot k) (clusterBits r) (slotBits r) = Some (WorkerID k)"
          "ComposeWorkerID (cluster r) (Slot h) (clusterBits r) (slotBits r) = Some (WorkerID h)"
          by (auto simp: inv_proc_def)
        with False ComposeWorkerID_inj have "WorkerID k \<noteq> WorkerID h" by metis
        with k(2) idt(3) wid show ?thesis by auto
      qed
    qed
    have "inv_mint ?\<sigma>"
    proof -
      from i(5) differ have "distinct (map snd (minted ?\<sigma>))" by (force simp: inv_mint_def)
      moreover have "\<exists>k m. procs ?\<sigma> v = Some k \<and> hnode k = Some m \<and> WorkerOf x = WorkerID k
          \<and> base ?\<sigma> v < id_time x \<and> id_stamp x \<le> stamp m \<and> acked (fence k) \<and> id_time x \<le> limit k"
        if "(v, x) \<in> set (minted ?\<sigma>)" for v x
      proof (cases "(v, x) \<in> set (minted \<sigma>)")
        case True
        with i(5) show ?thesis by (simp add: inv_mint_def)
      next
        case False
        with that have "v = u" "x = id_of n" by auto
        with u live lim above idt wid show ?thesis by auto
      qed
      ultimately show ?thesis by (simp add: inv_mint_def)
    qed
    moreover have "inv_final ?\<sigma>"
    proof -
      have "u \<notin> finals \<sigma>" using i(2) u live by (auto simp: inv_final_def)
      with i(2) show ?thesis unfolding inv_final_def by fastforce
    qed
    moreover have "inv_ident ?\<sigma>" "inv_rev T ?\<sigma>" "inv_proc r T ?\<sigma>" "inv_ack D ?\<sigma>" "inv_seen ?\<sigma>"
      using i by (simp_all add: inv_ident_def inv_rev_def inv_proc_def inv_ack_def inv_seen_def)
    moreover have "inv_unseen ?\<sigma>" using i(10) by (simp add: inv_unseen_def)
    moreover have "inv_pairs ?\<sigma>" by (rule pairs_transfer [OF i(8)]) (use bl in auto)
    moreover have "inv_entitled ?\<sigma>" by (rule entitled_transfer [OF i(9)]) (use bl in \<open>auto simp: entitled_def\<close>)
    ultimately show ?thesis by (simp add: slot_inv_def)
  qed
qed

section \<open>The two halves of a close\<close>

lemma final_inv:
  assumes "slot_inv r D T \<sigma>" and "procs \<sigma> u = Some h" "closing h" "base \<sigma> u \<le> wv \<sigma> (Slot h)"
    and "high_water h \<le> wv \<sigma> (Slot h)" and T: "T + 10 < 2 ^ 32"
  shows "slot_inv r D T (\<sigma>\<lparr>finals := insert u (finals \<sigma>)\<rparr>)"
proof -
  have "id_time x \<le> wv \<sigma> (Slot h)" if x: "(u, x) \<in> set (minted \<sigma>)" for x
  proof -
    from assms(1) have m: "inv_mint \<sigma>" and p: "inv_proc r T \<sigma>" by (auto simp: slot_inv_def)
    from inv_mintE [OF m x] assms(2) obtain n where "hnode h = Some n" "id_stamp x \<le> stamp n" by auto
    moreover from this p assms(2) have "node_ok T n" by (auto simp: inv_proc_def node_fits_def)
    ultimately have n: "hnode h = Some n" "id_stamp x \<le> stamp n" "node_ok T n" by auto
    from n(2,3) have "unat (drop_bit 32 x) * 2 ^ 15 < (unat (lastTime n) + 1) * 2 ^ 15"
      by (simp add: id_stamp_def stamp_def node_ok_def)
    then have "unat (drop_bit 32 x) \<le> unat (lastTime n)" by (simp only: mult_less_cancel2) simp
    then have "drop_bit 32 x \<le> lastTime n" by (simp add: word_le_nat_alt)
    then have "id_time x \<le> high_water h" using n(1) by (simp add: id_time_def high_water_def word_le_def)
    with assms(5) show ?thesis by simp
  qed
  with assms(1-4) show ?thesis
    by (auto simp: slot_inv_def inv_defs below_def entitled_def)
qed

lemma put_released_inv:
  assumes "slot_inv r D T \<sigma>" and "procs \<sigma> u = Some h" and "u \<in> finals \<sigma>"
  shows "slot_inv r D T (set_store (put_released h (store \<sigma>)) \<sigma>)"
proof -
  let ?\<sigma> = "set_store (put_released h (store \<sigma>)) \<sigma>"
  have eqs: "watermark (put_released h (store \<sigma>)) = watermark (store \<sigma>)" "slots (put_released h (store \<sigma>)) = slots (store \<sigma>)"
    "revision (store \<sigma>) \<le> revision (put_released h (store \<sigma>))" by (simp_all add: put_released_def)
  then have keys: "holds (put_released h (store \<sigma>)) = holds (store \<sigma>)" by (simp add: holds_def fun_eq_iff)
  from assms(1) show ?thesis
  proof (rule slot_invE)
    assume i: "inv_ident \<sigma>" "inv_final \<sigma>" "inv_rev T \<sigma>" "inv_proc r T \<sigma>" "inv_mint \<sigma>" "inv_ack D \<sigma>" "inv_seen \<sigma>"
      "inv_pairs \<sigma>" "inv_entitled \<sigma>" "inv_unseen \<sigma>"
    have "inv_ident ?\<sigma>"
      using i(1) assms(2,3) eqs(2) by (fastforce simp: inv_ident_def put_released_def)
    moreover have "inv_rev T ?\<sigma>" using i(3) eqs by (force simp: inv_rev_def)
    moreover have "inv_final ?\<sigma>" "inv_proc r T ?\<sigma>" "inv_mint ?\<sigma>" "inv_ack D ?\<sigma>" "inv_seen ?\<sigma>"
      using i eqs by (simp_all add: inv_final_def inv_proc_def inv_mint_def inv_ack_def inv_seen_def)
    moreover have "inv_pairs ?\<sigma>" "inv_entitled ?\<sigma>" "inv_unseen ?\<sigma>"
      using i eqs keys by (simp_all add: inv_pairs_def inv_entitled_def inv_unseen_def below_def entitled_def)
    ultimately show ?thesis by (simp add: slot_inv_def)
  qed
qed

end
