(* ===== verification/SlotSteps.thy ===== *)
theory SlotSteps
  imports SlotInv
begin

text \<open>Every step of the slot system keeps the invariant.\<close>

section \<open>Steps of one handle\<close>

text \<open>Updates of different fields, put into the order of the record.\<close>

lemma sys_swaps:
  "\<sigma>\<lparr>procs := ps, store := st\<rparr> = \<sigma>\<lparr>store := st, procs := ps\<rparr>"
  "\<sigma>\<lparr>seenWall := sw, store := st\<rparr> = \<sigma>\<lparr>store := st, seenWall := sw\<rparr>"
  "\<sigma>\<lparr>base := bs, store := st\<rparr> = \<sigma>\<lparr>store := st, base := bs\<rparr>"
  "\<sigma>\<lparr>granted := gr, store := st\<rparr> = \<sigma>\<lparr>store := st, granted := gr\<rparr>"
  "\<sigma>\<lparr>finals := fi, store := st\<rparr> = \<sigma>\<lparr>store := st, finals := fi\<rparr>"
  "\<sigma>\<lparr>seenWall := sw, procs := ps\<rparr> = \<sigma>\<lparr>procs := ps, seenWall := sw\<rparr>"
  "\<sigma>\<lparr>base := bs, procs := ps\<rparr> = \<sigma>\<lparr>procs := ps, base := bs\<rparr>"
  "\<sigma>\<lparr>granted := gr, procs := ps\<rparr> = \<sigma>\<lparr>procs := ps, granted := gr\<rparr>"
  "\<sigma>\<lparr>finals := fi, procs := ps\<rparr> = \<sigma>\<lparr>procs := ps, finals := fi\<rparr>"
  "\<sigma>\<lparr>base := bs, seenWall := sw\<rparr> = \<sigma>\<lparr>seenWall := sw, base := bs\<rparr>"
  "\<sigma>\<lparr>granted := gr, seenWall := sw\<rparr> = \<sigma>\<lparr>seenWall := sw, granted := gr\<rparr>"
  "\<sigma>\<lparr>finals := fi, seenWall := sw\<rparr> = \<sigma>\<lparr>seenWall := sw, finals := fi\<rparr>"
  "\<sigma>\<lparr>granted := gr, base := bs\<rparr> = \<sigma>\<lparr>base := bs, granted := gr\<rparr>"
  for \<sigma> :: slot_sys
  by simp_all

lemma inv_handleD:
  assumes "slot_inv r D T \<sigma>" and "procs \<sigma> u = Some h"
  shows "UUID h = u" and "granted \<sigma> (hLease h) = Some u" and "guardRev h \<le> rv_of \<sigma> (Slot h)"
    and "budget (fence h) = fenceAfter r"
    and "base \<sigma> u \<le> max (nowE (seenWall \<sigma> u)) (uint (guardWritten h))"
    and "GuardEpochSec h \<le> guardWritten h" and "uint (guardWritten h) \<le> int T + 10" and "nowE (seenWall \<sigma> u) \<le> int T"
    and "\<And>n. hnode h = Some n \<Longrightarrow> node_fits T (base \<sigma> u) (seenWall \<sigma> u) h n"
    and "\<And>n. hnode h = Some n \<Longrightarrow> node_ok T n" and "wv \<sigma> (Slot h) \<le> int T + 10"
  using assms by (auto simp: slot_inv_def inv_ident_def inv_rev_def inv_proc_def node_fits_def)

lemma node_fits_later: "node_fits T b w h n \<Longrightarrow> w \<le> w' \<Longrightarrow> node_fits T b w' h n"
proof -
  assume f: "node_fits T b w h n" and w: "w \<le> w'"
  from w have "w div second \<le> w' div second" by (simp add: second_def zdiv_mono1)
  with f nowE_mono [OF w] show ?thesis by (auto simp: node_fits_def)
qed

lemma node_fits_cong:
  "WorkerID h' = WorkerID h \<Longrightarrow> closing h' = closing h \<Longrightarrow> node_fits T b w h' n = node_fits T b w h n"
  by (simp add: node_fits_def)

lemma swap_rev: "h\<lparr>guardWritten := a, guardRev := b\<rparr> = h\<lparr>guardRev := b, guardWritten := a\<rparr>" for h :: handle
  by simp

lemma retouch_keep:
  assumes "slot_inv r D T \<sigma>" and "procs \<sigma> u = Some h" and "seenWall \<sigma> u \<le> w" and "nowE w \<le> int T"
    and "UUID h' = UUID h" "Slot h' = Slot h" "WorkerID h' = WorkerID h" "fence h' = fence h" "guardRev h' = guardRev h"
      "guardWritten h' = guardWritten h" "GuardEpochSec h' = GuardEpochSec h" "closing h' = closing h" "hnode h' = hnode h"
    and "granted \<sigma> (hLease h') = Some u"
  shows "retouch T \<sigma> u h h' w"
  using assms inv_handleD(9) [OF assms(1,2)] node_fits_later [OF _ assms(3)] node_fits_cong [of h' h]
  by (auto simp: retouch_def)

lemma see_inv:
  assumes "slot_inv r D T \<sigma>" and "procs \<sigma> u = Some h" and "seenWall \<sigma> u \<le> w" and "nowE w \<le> int T"
  shows "slot_inv r D T (see u w \<sigma>)"
proof -
  have "set_proc u h \<sigma> = \<sigma>" using assms(2) by (simp add: map_upd_triv)
  with retouch_inv [OF assms(1) retouch_keep [OF assms, of h]] inv_handleD(2) [OF assms(1,2)] show ?thesis by simp
qed

lemma retouch_now:
  assumes "slot_inv r D T \<sigma>" and "retouch T \<sigma> u h h' (seenWall \<sigma> u)"
  shows "slot_inv r D T (set_proc u h' \<sigma>)"
  using retouch_inv [OF assms] by simp

lemma flags_inv:
  assumes "slot_inv r D T \<sigma>" and "procs \<sigma> u = Some h"
    and "UUID h' = UUID h" "Slot h' = Slot h" "WorkerID h' = WorkerID h" "fence h' = fence h" "guardRev h' = guardRev h"
      "guardWritten h' = guardWritten h" "GuardEpochSec h' = GuardEpochSec h" "closing h' = closing h" "hnode h' = hnode h"
    and "granted \<sigma> (hLease h') = Some u"
  shows "slot_inv r D T (set_proc u h' \<sigma>)"
  by (rule retouch_now [OF assms(1)], rule retouch_keep [OF assms(1,2)])
     (use assms inv_handleD(8) [OF assms(1,2)] in simp_all)

lemma node_fits_guard:
  assumes "node_fits T b w h n" and "uint g \<le> int T + 10"
  shows "node_fits T b w h (SetGuardTime g n)"
    and "stamp n \<le> stamp (SetGuardTime g n)" and "lastTime n \<le> lastTime (SetGuardTime g n)"
proof -
  from assms(2) have g: "unat g \<le> T + 10" by (simp add: unat_le_uint)
  from assms(1) have "node_ok T n" by (simp add: node_fits_def)
  from SetGuardTime_progress [OF this g]
  show "node_fits T b w h (SetGuardTime g n)" "stamp n \<le> stamp (SetGuardTime g n)"
    using assms(1) by (auto simp: node_fits_def SetGuardTime_def)
  show "lastTime n \<le> lastTime (SetGuardTime g n)" by (auto simp: SetGuardTime_def)
qed

lemma guard_node_inv:
  assumes "slot_inv r D T \<sigma>" and "procs \<sigma> u = Some h" and "uint g \<le> int T + 10"
  shows "slot_inv r D T (set_proc u (h\<lparr>hnode := map_option (SetGuardTime g) (hnode h)\<rparr>) \<sigma>)"
proof (rule retouch_now [OF assms(1)])
  note d = inv_handleD [OF assms(1,2)]
  show "retouch T \<sigma> u h (h\<lparr>hnode := map_option (SetGuardTime g) (hnode h)\<rparr>) (seenWall \<sigma> u)"
    using d(2,8,9) node_fits_guard [OF _ assms(3)] assms(2)
      node_fits_cong [of "h\<lparr>hnode := map_option (SetGuardTime g) (hnode h)\<rparr>" h]
    by (auto simp: retouch_def)
qed

lemma node_fits_Fence:
  "node_fits T b w h n \<Longrightarrow> WorkerID h' = WorkerID h \<Longrightarrow> node_fits T b w h' (Fence n)"
  "stamp (Fence n) = stamp n" "lastTime (Fence n) = lastTime n"
  by (auto simp: node_fits_def Fence_def node_ok_def stamp_def)

lemma fence_node_inv:
  assumes "slot_inv r D T \<sigma>" and "procs \<sigma> u = Some h"
  shows "slot_inv r D T (set_proc u ((fenceAll h)\<lparr>lost := b\<rparr>) \<sigma>)"
    and "slot_inv r D T (set_proc u (fenceAll (h\<lparr>closing := True\<rparr>)) \<sigma>)"
proof -
  note d = inv_handleD [OF assms]
  have "retouch T \<sigma> u h ((fenceAll h)\<lparr>lost := b\<rparr>) (seenWall \<sigma> u)"
    "retouch T \<sigma> u h (fenceAll (h\<lparr>closing := True\<rparr>)) (seenWall \<sigma> u)"
    using d(2,8) assms(2) node_fits_Fence(1) [OF d(9)]
    by (auto simp: retouch_def fenceAll_def node_fits_Fence(2,3))
  then show "slot_inv r D T (set_proc u ((fenceAll h)\<lparr>lost := b\<rparr>) \<sigma>)"
    "slot_inv r D T (set_proc u (fenceAll (h\<lparr>closing := True\<rparr>)) \<sigma>)"
    using retouch_now [OF assms(1)] by blast+
qed

lemma displaced_inv:
  assumes "slot_inv r D T \<sigma>" and "procs \<sigma> u = Some h"
  shows "slot_inv r D T (set_proc u (onOwnershipLost h) \<sigma>)"
proof -
  have "set_proc u h \<sigma> = \<sigma>" using assms(2) by (simp add: map_upd_triv)
  then show ?thesis
    using fence_node_inv(1) [OF assms, of True] assms(1) by (auto simp: onOwnershipLost_def markLost_def)
qed

section \<open>The generator\<close>

lemma node_made_inv:
  assumes inv: "slot_inv r D T \<sigma>" and T: "T + 10 < 2 ^ 32" and u: "procs \<sigma> u = Some h" "hnode h = None" "\<not> closing h"
    and w: "seenWall \<sigma> u \<le> wall t" "wall t \<le> wall t'" "nowE (wall t') \<le> int T" and made: "handle_NewNode t t' h = Some h'"
  shows "slot_inv r D T (see u (wall t') (set_proc u h' \<sigma>))"
proof (rule retouch_inv [OF inv])
  note d = inv_handleD [OF inv u(1)]
  define n where "n = \<lparr>nodeID = WorkerID h, lastTime = nowEpoch t', step = stepMask, lastBorrowRejectLogSec = 0,
    fenced = False, bootGuardPending = True\<rparr>"
  define g where "g = guardWritten h"
  have fl: "(if guardWritten h > GuardEpochSec h then guardWritten h else GuardEpochSec h) = g"
    using d(6) by (auto simp: g_def)
  from made have wid: "WorkerID h \<le> NodeMask" and ep: "Epoch \<le> wall t div second"
    and h': "h' = h\<lparr>hnode := Some (if g > 0 then SetGuardTime g n else n)\<rparr>"
    by (auto simp: handle_NewNode_def NewNode_def Let_def n_def fl unix_sec_def split: option.splits if_splits)
  have now: "uint (nowEpoch t') = nowE (wall t')" by (rule uint_nowEpoch [OF w(3) T])
  from now w(3) have "unat (nowEpoch t') \<le> T + 10" by (simp add: unat_le_uint)
  moreover from wid have "unat (WorkerID h) \<le> 131071" by (simp add: word_le_nat_alt)
  ultimately have "node_ok T n" by (simp add: node_ok_def n_def)
  have gt: "uint g \<le> int T + 10" using d(7) by (simp add: g_def)
  let ?n = "if g > 0 then SetGuardTime g n else n"
  have eq: "?n = SetGuardTime g n" by (auto simp: SetGuardTime_def word_gt_0)
  have ok: "node_ok T ?n" "nodeID ?n = WorkerID h"
    using SetGuardTime_progress [OF \<open>node_ok T n\<close>, of g] gt unfolding eq by (auto simp: unat_le_uint n_def)
  have st: "step ?n = stepMask" "uint (lastTime ?n) = max (nowE (wall t')) (uint g)"
    unfolding eq using now by (auto simp: SetGuardTime_def n_def word_le_def max_def)
  have "base \<sigma> u \<le> max (nowE (wall t')) (uint g)"
    using d(5) nowE_mono [of "seenWall \<sigma> u" "wall t'"] w(1,2) by (simp add: g_def)
  then have "base \<sigma> u * 2 ^ 15 + 32767 \<le> int (stamp ?n)"
    using st by (simp add: stamp_def)
  moreover have "wall t div second \<le> wall t' div second" using w(2) by (simp add: second_def zdiv_mono1)
  ultimately have "node_fits T (base \<sigma> u) (wall t') h' ?n"
    using ok st(1) u(3) ep by (simp add: node_fits_def h')
  then show "retouch T \<sigma> u h h' (wall t')"
    using u w d(2) by (auto simp: retouch_def h')
qed

text \<open>No id carries a second more than 10 past the last reading, whatever guard the node was given.\<close>

lemma next_stamp_within:
  assumes "next_stamp n e = Some (r, n')" and "env_upto X e" and "X \<le> T" "T + 10 < 2 ^ 32" and "node_ok T n"
    and "uint (lastTime n) \<le> int X + 10 \<or> step n = stepMask"
  shows "(r = None \<longrightarrow> uint (lastTime n') \<le> int X + 10) \<and> (r \<noteq> None \<longrightarrow> lastTime n' = lastTime n \<and> step n' = step n)
    \<and> fenced n' = fenced n"
proof -
  from assms(2) have now: "uint (nowEpoch (at_now e)) \<le> int X" by (simp add: env_upto_def unat_le_uint)
  show ?thesis
  proof (cases "nowEpoch (at_now e) > lastTime n \<or> step n < stepMask")
    case True
    with assms(1,6) now show ?thesis by (auto simp: next_stamp_def Let_def split: if_splits)
  next
    case False
    with assms(1) obtain adv where adv: "waitNextTime (wait_start e) (waits e) (lastTime n) = Some adv"
      by (auto simp: next_stamp_def Let_def split: option.splits)
    from waitNextTime_upto [OF adv assms(2)] have a: "unat adv \<le> X" .
    with assms(3,4) have ten: "unat (adv + 10) = unat adv + 10" by (intro unat_plus_ten [of _ X]) auto
    have "uint (lastTime n + 1) \<le> int X + 10" if "\<not> lastTime n + 1 > adv + maxBorrowAheadSec"
    proof -
      from that have "unat (lastTime n + 1) \<le> unat adv + 10" by (simp add: word_less_nat_alt ten)
      with a have "unat (lastTime n + 1) \<le> X + 10" by linarith
      then show ?thesis by (simp only: unat_le_uint of_nat_add of_nat_numeral)
    qed
    with assms(1) False adv a show ?thesis
      by (auto simp: next_stamp_def Let_def unat_le_uint split: if_splits)
  qed
qed

lemma Generate_fenced: "Generate n e = Some (res, n') \<Longrightarrow> fenced n \<Longrightarrow> fenced n'"
  by (auto simp: Generate_def Let_def fence_if_def Fence_def split: if_splits)

lemma Generate_within:
  assumes "Generate n e = Some (res, n')" and "env_upto X e" and "X \<le> T" "T + 10 < 2 ^ 32" and "node_ok T n"
    and "uint (lastTime n) \<le> int X + 10 \<or> step n = stepMask"
  shows "(uint (lastTime n') \<le> int X + 10 \<or> step n' = stepMask) \<and> (\<forall>i. res = Inr i \<longrightarrow> uint (lastTime n') \<le> int X + 10)"
proof -
  let ?n2 = "(fence_if (fence_locked e) (fence_if (fence_before e) n))\<lparr>bootGuardPending := False\<rparr>"
  consider "res = Inl ErrFenced \<or> res = Inl ErrWatermarkStale" "lastTime n' = lastTime n" "step n' = step n"
    | refusal n3 where "next_stamp ?n2 e = Some (refusal, n3)" "n' = fence_if (fence_after e) n3"
        "refusal \<noteq> None \<longrightarrow> (\<forall>i. res \<noteq> Inr i)"
    using assms(1)
    by (auto simp: Generate_def Let_def checkWatermarkAge_def split: option.splits if_splits)
  then show ?thesis
  proof cases
    case 1
    with assms(6) show ?thesis by auto
  next
    case (2 refusal n3)
    have "node_ok T ?n2" "uint (lastTime ?n2) \<le> int X + 10 \<or> step ?n2 = stepMask" using assms(5,6) by simp_all
    from next_stamp_within [OF 2(1) assms(2-4) this] 2(2,3) assms(6) show ?thesis
      by (cases refusal) auto
  qed
qed

lemma lastTime_of_stamp:
  assumes "node_ok T n" "node_ok T' n'" "stamp n \<le> stamp n'"
  shows "lastTime n \<le> lastTime n'"
proof -
  from assms have "unat (lastTime n) * 2 ^ 15 < (unat (lastTime n') + 1) * 2 ^ 15"
    by (simp add: stamp_def node_ok_def)
  then show ?thesis by (simp add: word_le_nat_alt)
qed

lemma env_upto_wall:
  assumes "nowE w \<le> int T" "T + 10 < 2 ^ 32" "wall (at_now e) \<le> w" "\<forall>i. wall (fst (waits e i)) \<le> w"
  shows "env_upto (nat (nowE w)) e"
proof -
  have "unat (nowEpoch t) \<le> nat (nowE w)" if "wall t \<le> w" for t
    using nowE_mono [OF that] assms(1) uint_nowEpoch [of t T] assms(2) by (simp add: unat_le_uint)
  with assms(3,4) show ?thesis by (simp add: env_upto_def)
qed

lemma env_upto_mono: "env_upto X e \<Longrightarrow> X \<le> T \<Longrightarrow> env_upto T e"
  by (auto simp: env_upto_def intro: order_trans)

lemma generated_inv:
  assumes inv: "slot_inv r D T \<sigma>" and T: "T + 10 < 2 ^ 32" and u: "procs \<sigma> u = Some h" "hnode h = Some n"
    and clk: "clock_after e = Some (fence h)" and w: "seenWall \<sigma> u \<le> wall (at_after e)" "nowE (wall (at_after e)) \<le> int T"
      "wall (at_now e) \<le> wall (at_after e)" "\<forall>i. wall (fst (waits e i)) \<le> wall (at_after e)"
    and gen: "Generate n e = Some (res, n')"
  shows "slot_inv r D T ((see u (wall (at_after e)) (set_proc u (h\<lparr>hnode := Some n'\<rparr>) \<sigma>))
           \<lparr>minted := (case res of Inl _ \<Rightarrow> minted \<sigma> | Inr i \<Rightarrow> (u, i) # minted \<sigma>)\<rparr>)"
proof -
  let ?w = "wall (at_after e)" and ?h = "h\<lparr>hnode := Some n'\<rparr>"
  let ?\<sigma> = "see u ?w (set_proc u ?h \<sigma>)"
  note d = inv_handleD [OF inv u(1)]
  note nf = node_fits_later [OF d(9) [OF u(2)] w(1)]
  from nf have ep: "Epoch \<le> ?w div second" by (simp add: node_fits_def)
  have upX: "env_upto (nat (nowE ?w)) e" by (rule env_upto_wall [OF w(2) T w(3,4)])
  have XT: "nat (nowE ?w) \<le> T" using w(2) by simp
  note pr = Generate_progress [OF gen d(10) [OF u(2)] env_upto_mono [OF upX XT] T]
  have within: "(uint (lastTime n') \<le> nowE ?w + 10 \<or> step n' = stepMask) \<and> (\<forall>i. res = Inr i \<longrightarrow> uint (lastTime n') \<le> nowE ?w + 10)"
    using Generate_within [OF gen upX XT T d(10) [OF u(2)]] nf by (simp add: node_fits_def)
  have "node_fits T (base \<sigma> u) ?w ?h n'"
    using nf pr(1) within Generate_fenced [OF gen] by (auto simp: node_fits_def)
  moreover have "stamp n \<le> stamp n'" "lastTime n \<le> lastTime n'"
    using pr(1) lastTime_of_stamp [OF d(10) [OF u(2)]] by auto
  ultimately have "retouch T \<sigma> u h ?h ?w" using u w(1,2) d(2) by (simp add: retouch_def)
  from retouch_inv [OF inv this] have inv': "slot_inv r D T ?\<sigma>" .
  show ?thesis
  proof (cases res)
    case (Inl err)
    with inv' show ?thesis by simp
  next
    case (Inr i)
    from mint_within_fence [OF gen [unfolded Inr]] clk
    have live: "\<not> fenced n" "acked (fence h)" "?w - ackWall (fence h) \<le> budget (fence h)" by auto
    with nf have "\<not> closing h" by (auto simp: node_fits_def)
    have "(?w - Epoch * second) div second \<le> (ackWall (fence h) + budget (fence h) - Epoch * second) div second"
      using live(3) by (intro zdiv_mono1) (auto simp: second_def)
    moreover have "(?w - Epoch * second) div second = ?w div second - Epoch" by (simp add: second_def)
    ultimately have "uint (lastTime n') \<le> limit ?h"
      using within Inr ep by (simp add: limit_def nowE_def)
    moreover have "base \<sigma> u * 2 ^ 15 + 32767 < int (stamp n')" using nf pr(2) Inr by (simp add: node_fits_def)
    moreover have "id_stamp x < stamp n'" if "(u, x) \<in> set (minted \<sigma>)" for x
    proof -
      from inv have "inv_mint \<sigma>" by (simp add: slot_inv_def)
      from inv_mintE [OF this that] obtain k m where "procs \<sigma> u = Some k" "hnode k = Some m" "id_stamp x \<le> stamp m" .
      with u have "id_stamp x \<le> stamp n" by simp
      with pr(2) [OF Inr] show ?thesis by linarith
    qed
    ultimately have "slot_inv r D T (?\<sigma>\<lparr>minted := (u, id_of n') # minted ?\<sigma>\<rparr>)"
      using live \<open>\<not> closing h\<close> by (intro mint_inv [OF inv' T, of u ?h n']) auto
    with Inr pr(2) [OF Inr] show ?thesis by simp
  qed
qed

section \<open>Watermark writes\<close>

lemma wall_below_next_second: "w - Epoch * second < (nowE w + 1) * second"
proof -
  have "w < (w div second + 1) * second" by (simp add: second_def)
  moreover have "w div second - Epoch \<le> nowE w" by (simp add: nowE_def)
  then have "(w div second + 1) * second \<le> (nowE w + 1 + Epoch) * second" by (simp add: second_def)
  ultimately show ?thesis by (simp add: algebra_simps)
qed

lemma observe_keep_inv:
  assumes "slot_inv r D T \<sigma>" and "procs \<sigma> u = Some h" and "key_of \<sigma> (Slot h) u"
    and "wv \<sigma> (Slot h) \<le> max (uint (guardWritten h)) (max (nowE (seenWall \<sigma> u)) (high_water h) + 2)"
  shows "slot_inv r D T (set_proc u (h\<lparr>guardRev := rv_of \<sigma> (Slot h)\<rparr>) \<sigma>)"
  using observe_inv [OF assms(1-3) order_refl _ assms(4)] inv_handleD(7) [OF assms(1,2)] by simp

text \<open>One write of a watermark by the process \<open>u\<close>, at a state that has already seen the instant of the
  acknowledgement.\<close>

definition writing :: "resolvedOptions \<Rightarrow> int \<Rightarrow> nat \<Rightarrow> slot_sys \<Rightarrow> string \<Rightarrow> handle \<Rightarrow> instant \<Rightarrow> instant \<Rightarrow> bool" where
  "writing r D T \<sigma> u h t t' \<longleftrightarrow>
     slot_inv r D T \<sigma> \<and> T + 10 < 2 ^ 32 \<and> procs \<sigma> u = Some h \<and> seenWall \<sigma> u = wall t'
     \<and> wall t \<le> wall t' \<and> wall t' \<le> wall t + D \<and> nowE (wall t') \<le> int T
     \<and> (guardRev h = rv_of \<sigma> (Slot h) \<longrightarrow> wv \<sigma> (Slot h) \<le> uint (guard_target t h))
     \<and> (key_of \<sigma> (Slot h) u \<longrightarrow> guardRev h \<noteq> rv_of \<sigma> (Slot h) \<longrightarrow>
          (\<forall>q hq. q \<noteq> u \<longrightarrow> procs \<sigma> q = Some hq \<longrightarrow> Slot hq = Slot h \<longrightarrow> guardRev hq \<noteq> rv_of \<sigma> (Slot h))
          \<or> wv \<sigma> (Slot h) < uint (guard_target t h))"

lemma writingD:
  assumes "writing r D T \<sigma> u h t t'"
  shows "slot_inv r D T \<sigma>" and "T + 10 < 2 ^ 32" and "procs \<sigma> u = Some h" and "seenWall \<sigma> u = wall t'"
    and "wall t \<le> wall t'" "wall t' \<le> wall t + D" "nowE (wall t') \<le> int T"
    and "guardRev h = rv_of \<sigma> (Slot h) \<Longrightarrow> wv \<sigma> (Slot h) \<le> uint (guard_target t h)"
    and "key_of \<sigma> (Slot h) u \<Longrightarrow> guardRev h \<noteq> rv_of \<sigma> (Slot h) \<Longrightarrow>
      (\<forall>q hq. q \<noteq> u \<longrightarrow> procs \<sigma> q = Some hq \<longrightarrow> Slot hq = Slot h \<longrightarrow> guardRev hq \<noteq> rv_of \<sigma> (Slot h))
      \<or> wv \<sigma> (Slot h) < uint (guard_target t h)"
  using assms by (auto simp: writing_def)


lemma target_value:
  assumes W: "writing r D T \<sigma> u h t t'"
  shows "uint (guard_target t h) = max (uint (guardWritten h)) (max (nowE (wall t)) (high_water h) + 2)"
proof (rule guard_target_value [OF _ writingD(2) [OF W]])
  show "nowE (wall t) \<le> int T" using nowE_mono [OF writingD(5) [OF W]] writingD(7) [OF W] by linarith
  show "\<forall>n. hnode h = Some n \<longrightarrow> node_ok T n" using inv_handleD(10) [OF writingD(1,3) [OF W]] by blast
qed

lemma target_bounds:
  assumes W: "writing r D T \<sigma> u h t t'"
  shows "uint (guardWritten h) \<le> uint (guard_target t h)" "nowE (wall t) + 2 \<le> uint (guard_target t h)"
    "high_water h + 2 \<le> uint (guard_target t h)" "0 < uint (guard_target t h)"
    "uint (guard_target t h) \<le> max (uint (guardWritten h)) (max (nowE (seenWall \<sigma> u)) (high_water h) + 2)"
proof -
  have a: "nowE (wall t) \<le> nowE (seenWall \<sigma> u)" using nowE_mono [OF writingD(5) [OF W]] writingD(4) [OF W] by simp
  have b: "0 \<le> nowE (wall t)" by simp
  show "uint (guardWritten h) \<le> uint (guard_target t h)" "nowE (wall t) + 2 \<le> uint (guard_target t h)"
    "high_water h + 2 \<le> uint (guard_target t h)" "0 < uint (guard_target t h)"
    "uint (guard_target t h) \<le> max (uint (guardWritten h)) (max (nowE (seenWall \<sigma> u)) (high_water h) + 2)"
    unfolding target_value [OF W] using a b by linarith+
qed

lemma ack_lag:
  assumes W: "writing r D T \<sigma> u h t t'" and x: "uint (guard_target t h) \<le> x"
  shows "wall t' - Epoch * second \<le> x * second + D"
proof -
  have "(nowE (wall t) + 1) * second \<le> x * second" using x target_bounds(2) [OF W] by (simp add: second_def)
  with wall_below_next_second [of "wall t"] writingD(6) [OF W] show ?thesis by linarith
qed

lemma noted_inv:
  assumes W: "writing r D T \<sigma> u h t t'" and "key_of \<sigma> (Slot h) u" and "wv \<sigma> (Slot h) < uint (guard_target t h)"
  shows "slot_inv r D T (set_proc u (h\<lparr>guardRev := rv_of \<sigma> (Slot h)\<rparr>) \<sigma>)"
  by (rule observe_keep_inv [OF writingD(1,3) [OF W] assms(2)]) (use target_bounds(5) [OF W] assms(3) in linarith)

lemma nothing_inv:
  assumes W: "writing r D T \<sigma> u h t t'"
    and rv: "rv' = guardRev h \<or> (key_of \<sigma> (Slot h) u \<and> rv' = rv_of \<sigma> (Slot h) \<and> wv \<sigma> (Slot h) < uint (guard_target t h))"
  shows "slot_inv r D T (set_proc u (h\<lparr>guardRev := rv'\<rparr>) \<sigma>)"
    and "slot_inv r D T (set_proc u (h\<lparr>guardRev := rv', needReclaim := True\<rparr>) \<sigma>)"
proof -
  note inv = writingD(1) [OF W] and u = writingD(3) [OF W]
  have "set_proc u h \<sigma> = \<sigma>" using u by (simp add: map_upd_triv)
  with inv rv noted_inv [OF W] show one: "slot_inv r D T (set_proc u (h\<lparr>guardRev := rv'\<rparr>) \<sigma>)" by auto
  have "slot_inv r D T (set_proc u (h\<lparr>guardRev := rv', needReclaim := True\<rparr>) (set_proc u (h\<lparr>guardRev := rv'\<rparr>) \<sigma>))"
    by (rule flags_inv [OF one, of u "h\<lparr>guardRev := rv'\<rparr>"]) (use inv_handleD(2) [OF inv u] in simp_all)
  then show "slot_inv r D T (set_proc u (h\<lparr>guardRev := rv', needReclaim := True\<rparr>) \<sigma>)" by simp
qed

abbreviation after_write :: "slot_sys \<Rightarrow> handle \<Rightarrow> instant \<Rightarrow> slot_sys" where
  "after_write \<sigma> h t \<equiv> set_store (put_watermark (Slot h) (guard_target t h) (store \<sigma>)) \<sigma>"

lemma write_ok:
  assumes W: "writing r D T \<sigma> u h t t'" and key: "key_of \<sigma> (Slot h) u"
    and "rv_of \<sigma> (Slot h) = guardRev h \<or> wm_val (store \<sigma>) (Slot h) < guard_target t h"
    and b: "uint (guard_target t h) \<le> int T + 10"
  shows "slot_inv r D T (after_write \<sigma> h t)"
proof -
  have "wv \<sigma> (Slot h) \<le> uint (guard_target t h)" using assms(3) writingD(8) [OF W] by (auto simp: word_less_def)
  then show ?thesis using write_inv [OF writingD(1) [OF W] key _ b] target_bounds(4) [OF W] by simp
qed

lemma unheard_inv:
  assumes W: "writing r D T \<sigma> u h t t'" and key: "key_of \<sigma> (Slot h) u"
    and small: "rv_of \<sigma> (Slot h) = guardRev h \<or> wm_val (store \<sigma>) (Slot h) < guard_target t h"
    and b: "uint (guard_target t h) \<le> int T + 10" and rv: "rv' = guardRev h \<or> rv' = rv_of \<sigma> (Slot h)"
  shows "slot_inv r D T (set_proc u (h\<lparr>guardRev := rv'\<rparr>) (after_write \<sigma> h t))"
proof (cases "rv' = guardRev h")
  case True
  then have "set_proc u (h\<lparr>guardRev := rv'\<rparr>) (after_write \<sigma> h t) = after_write \<sigma> h t"
    using writingD(3) [OF W] by (simp add: map_upd_triv)
  with write_ok [OF W key small b] show ?thesis by simp
next
  case False
  with rv small have lt: "rv' = rv_of \<sigma> (Slot h)" "wm_val (store \<sigma>) (Slot h) < guard_target t h" by auto
  with key have "slot_inv r D T (set_proc u (h\<lparr>guardRev := rv'\<rparr>) \<sigma>)" using noted_inv [OF W] by (simp add: word_less_def)
  from write_inv [OF this _ _ b, of "Slot h" u] key lt(2) target_bounds(4) [OF W]
  show ?thesis by (simp add: word_less_def sys_swaps)
qed

lemma wrote_inv:
  assumes W: "writing r D T \<sigma> u h t t'" and key: "key_of \<sigma> (Slot h) u"
    and small: "rv_of \<sigma> (Slot h) = guardRev h \<or> wm_val (store \<sigma>) (Slot h) < guard_target t h"
    and b: "uint (guard_target t h) \<le> int T + 10"
  shows "slot_inv r D T (set_proc u (ackLocked t' (h\<lparr>guardRev := revision (store \<sigma>) + 1, guardWritten := guard_target t h\<rparr>))
           (after_write \<sigma> h t))"
proof -
  let ?h = "h\<lparr>guardRev := revision (store \<sigma>) + 1, guardWritten := guard_target t h\<rparr>"
  let ?\<tau> = "set_proc u ?h (after_write \<sigma> h t)"
  note inv = writingD(1) [OF W] and u = writingD(3) [OF W]
  have new: "rv_of (after_write \<sigma> h t) (Slot h) = revision (store \<sigma>) + 1"
    "wv (after_write \<sigma> h t) (Slot h) = uint (guard_target t h)" "key_of (after_write \<sigma> h t) (Slot h) u"
    using key by (simp_all add: put_watermark_def ModRevision_def wm_value_def holds_def)
  have "guardWritten h \<le> guard_target t h" using target_bounds(1) [OF W] by (simp add: word_le_def)
  from observe_inv [OF write_ok [OF W key small b], of u h, OF _ new(3) this b] u new
  have inv': "slot_inv r D T ?\<tau>" by simp
  have "guardRev hq \<noteq> revision (store \<sigma>) + 1" if "procs \<sigma> q = Some hq" for q hq
  proof -
    from inv have "inv_rev T \<sigma>" by (simp add: slot_inv_def)
    from rv_le_revision [OF this, of "Slot hq"] inv_handleD(3) [OF inv that] show ?thesis by simp
  qed
  then have "slot_inv r D T (set_proc u (ackLocked t' ?h) ?\<tau>)"
    using new writingD(4) [OF W] ack_lag [OF W order_refl] target_bounds(4) [OF W] by (intro ack_inv [OF inv']) auto
  then show ?thesis by simp
qed

lemma covered_inv:
  assumes W: "writing r D T \<sigma> u h t t'" and key: "key_of \<sigma> (Slot h) u" and stale: "rv_of \<sigma> (Slot h) \<noteq> guardRev h"
    and high: "guard_target t h \<le> wm_val (store \<sigma>) (Slot h)"
  defines "v \<equiv> wm_val (store \<sigma>) (Slot h)"
  shows "slot_inv r D T (set_proc u (ackLocked t' (h\<lparr>guardRev := rv_of \<sigma> (Slot h), guardWritten := v,
           hnode := (if v > guard_target t h then map_option (SetGuardTime v) (hnode h) else hnode h)\<rparr>)) \<sigma>)"
proof -
  let ?h1 = "h\<lparr>guardRev := rv_of \<sigma> (Slot h), guardWritten := v\<rparr>"
  let ?h2 = "?h1\<lparr>hnode := (if v > guard_target t h then map_option (SetGuardTime v) (hnode h) else hnode h)\<rparr>"
  note inv = writingD(1) [OF W] and u = writingD(3) [OF W]
  have v: "uint (guard_target t h) \<le> uint v" "uint v = wv \<sigma> (Slot h)" "uint v \<le> int T + 10"
    using high inv_handleD(11) [OF inv u] by (auto simp: v_def word_le_def)
  have gw: "guardWritten h \<le> v" using v(1) target_bounds(1) [OF W] by (simp add: word_le_def)
  from observe_inv [OF inv u key gw v(3)] v(2) have one: "slot_inv r D T (set_proc u ?h1 \<sigma>)" by simp
  from guard_node_inv [OF one, of u ?h1 v] v(3) one have two: "slot_inv r D T (set_proc u ?h2 \<sigma>)" by auto
  have "guardRev hq \<noteq> rv_of \<sigma> (Slot h)" if "q \<noteq> u" "procs \<sigma> q = Some hq" "Slot hq = Slot h" for q hq
    using writingD(9) [OF W key] stale v that by auto
  then have "slot_inv r D T (set_proc u (ackLocked t' ?h2) (set_proc u ?h2 \<sigma>))"
    using key writingD(4) [OF W] ack_lag [OF W v(1)] v target_bounds(4) [OF W] by (intro ack_inv [OF two]) auto
  then show ?thesis by simp
qed

lemma writing_start:
  assumes inv: "slot_inv r D T \<sigma>" and T: "T + 10 < 2 ^ 32" and u: "procs \<sigma> u = Some h"
    and w: "seenWall \<sigma> u \<le> wall t" "wall t \<le> wall t'" "wall t' \<le> wall t + D" "nowE (wall t') \<le> int T"
  shows "writing r D T (see u (wall t') \<sigma>) u h t t'"
  unfolding writing_def
proof (intro conjI impI)
  let ?\<sigma> = "see u (wall t') \<sigma>"
  note d = inv_handleD [OF inv u]
  have now: "nowE (seenWall \<sigma> u) \<le> nowE (wall t)" "nowE (wall t) \<le> nowE (wall t')" using nowE_mono w(1,2) by auto
  have tv: "uint (guard_target t h) = max (uint (guardWritten h)) (max (nowE (wall t)) (high_water h) + 2)"
    by (rule guard_target_value [OF _ T]) (use now w(4) d(10) in auto)
  show "slot_inv r D T ?\<sigma>" by (rule see_inv [OF inv u]) (use w in auto)
  show "T + 10 < 2 ^ 32" "procs ?\<sigma> u = Some h" "seenWall ?\<sigma> u = wall t'" "wall t \<le> wall t'" "wall t' \<le> wall t + D"
    "nowE (wall t') \<le> int T" using T u w by auto
  show "wv ?\<sigma> (Slot h) \<le> uint (guard_target t h)" if "guardRev h = rv_of ?\<sigma> (Slot h)"
  proof -
    from inv have "inv_seen \<sigma>" by (simp add: slot_inv_def)
    with u that have "wv \<sigma> (Slot h) \<le> max (uint (guardWritten h)) (max (nowE (seenWall \<sigma> u)) (high_water h) + 2)"
      by (auto simp: inv_seen_def)
    with tv now(1) show ?thesis by simp
  qed
  show "(\<forall>q hq. q \<noteq> u \<longrightarrow> procs ?\<sigma> q = Some hq \<longrightarrow> Slot hq = Slot h \<longrightarrow> guardRev hq \<noteq> rv_of ?\<sigma> (Slot h))
      \<or> wv ?\<sigma> (Slot h) < uint (guard_target t h)" if "key_of ?\<sigma> (Slot h) u" "guardRev h \<noteq> rv_of ?\<sigma> (Slot h)"
  proof -
    from inv have "inv_unseen \<sigma>" by (simp add: slot_inv_def)
    with u that have "(\<forall>q hq. q \<noteq> u \<longrightarrow> procs \<sigma> q = Some hq \<longrightarrow> Slot hq = Slot h \<longrightarrow> guardRev hq \<noteq> rv_of \<sigma> (Slot h))
      \<or> (wv \<sigma> (Slot h) < base \<sigma> u \<and> base \<sigma> u \<le> nowE (seenWall \<sigma> u))" by (simp add: inv_unseen_def)
    with tv now(1) show ?thesis by auto
  qed
qed

lemma high_water_guarded:
  "high_water (h\<lparr>hnode := (if b then map_option (SetGuardTime v) (hnode h) else hnode h)\<rparr>) \<le> max (high_water h) (uint v)"
  by (auto simp: high_water_def SetGuardTime_def split: option.splits)

lemma advanced_inv:
  assumes inv: "slot_inv r D T \<sigma>" and T: "T + 10 < 2 ^ 32" and u: "procs \<sigma> u = Some h"
    and w: "seenWall \<sigma> u \<le> wall t" "wall t \<le> wall t'" "wall t' \<le> wall t + D" "nowE (wall t') \<le> int T"
    and adv: "advanceGuard net t t' h (store \<sigma>) = (okay, h', st')" and b: "\<forall>s. uint (wm_val st' s) \<le> int T + 10"
  shows "slot_inv r D T (see u (wall t') (set_proc u h' (set_store st' \<sigma>)))"
    and "okay \<Longrightarrow> uint (guard_target t h) \<le> uint (wm_val st' (Slot h)) \<and> Slot h' = Slot h \<and> closing h' = closing h
           \<and> high_water h' \<le> uint (wm_val st' (Slot h))"
proof -
  let ?\<sigma> = "see u (wall t') \<sigma>"
  have W: "writing r D T ?\<sigma> u h t t'" by (rule writing_start [OF inv T u w])
  note tb = target_bounds [OF W]
  obtain res rv where put: "putWatermarkLocked 2 net (Slot h) (UUID h) (guard_target t h) (guardRev h) (store \<sigma>) = (res, rv, st')"
    and out: "(okay, h') = (case res of WmErr \<Rightarrow> (False, h\<lparr>guardRev := rv\<rparr>)
       | NotOwned \<Rightarrow> (False, h\<lparr>guardRev := rv, needReclaim := True\<rparr>)
       | Persisted v \<Rightarrow> (True, ackLocked t' (h\<lparr>guardRev := rv, guardWritten := v,
             hnode := (if v > guard_target t h then map_option (SetGuardTime v) (hnode h) else hnode h)\<rparr>)))"
    using adv by (auto simp: advanceGuard_def Let_def split: prod.splits wm_result.splits)
  have id: "UUID h = u" by (rule inv_handleD(1) [OF inv u])
  have pos: "0 < guard_target t h" using tb(4) by (simp add: word_less_def)
  from putWatermarkLocked_ends [OF put pos] id
  have "put_ends (Slot h) u (guard_target t h) (guardRev h) (store \<sigma>) res rv st'" by simp
  then have "slot_inv r D T (set_proc u h' (set_store st' ?\<sigma>))
      \<and> (okay \<longrightarrow> uint (guard_target t h) \<le> uint (wm_val st' (Slot h)) \<and> Slot h' = Slot h \<and> closing h' = closing h
           \<and> high_water h' \<le> uint (wm_val st' (Slot h)))"
  proof cases
    case nothing
    with out nothing_inv [OF W, of rv] show ?thesis by (auto simp: word_less_def)
  next
    case unheard
    have "uint (guard_target t h) \<le> int T + 10" using b [rule_format, of "Slot h"] unheard by (simp add: put_watermark_def wm_value_def)
    with out unheard unheard_inv [OF W, of rv] show ?thesis by auto
  next
    case wrote
    have v: "wm_val st' (Slot h) = guard_target t h" using wrote by (simp add: put_watermark_def wm_value_def)
    with b have "uint (guard_target t h) \<le> int T + 10" by metis
    with out wrote wrote_inv [OF W] v tb(3) show ?thesis by (auto simp: ackLocked_def high_water_def)
  next
    case covered
    let ?v = "wm_val (store \<sigma>) (Slot h)"
    let ?n = "if ?v > guard_target t h then map_option (SetGuardTime ?v) (hnode h) else hnode h"
    have v: "uint (guard_target t h) \<le> uint ?v" using covered by (simp add: word_le_def)
    have "high_water (h\<lparr>hnode := ?n\<rparr>) \<le> uint ?v"
      using high_water_guarded [where h = h and b = "?v > guard_target t h" and v = ?v] v tb(3) by simp
    moreover have "slot_inv r D T (set_proc u h' (set_store st' ?\<sigma>))"
      using out covered covered_inv [OF W] by (simp cong: if_cong)
    ultimately show ?thesis using out covered v by (simp add: ackLocked_def high_water_def)
  qed
  then show "slot_inv r D T (see u (wall t') (set_proc u h' (set_store st' \<sigma>)))"
    and "okay \<Longrightarrow> uint (guard_target t h) \<le> uint (wm_val st' (Slot h)) \<and> Slot h' = Slot h \<and> closing h' = closing h
           \<and> high_water h' \<le> uint (wm_val st' (Slot h))" by (simp_all add: sys_swaps)
qed

section \<open>Keys\<close>

lemma expired_inv:
  assumes "slot_inv r D T \<sigma>"
  shows "slot_inv r D T (set_store (expire l (store \<sigma>)) \<sigma>)"
proof -
  have "granted \<sigma> 0 = None" using assms by (simp add: slot_inv_def inv_ident_def)
  then have "rekey \<sigma> (granted \<sigma>) u k (expire l (store \<sigma>))" for u k
    by (auto simp: rekey_def expire_def split: option.splits if_splits)
  from rekey_inv [OF assms this] show ?thesis by simp
qed

lemma rekey_put_slot:
  assumes "slot_inv r D T \<sigma>" and "granted \<sigma> l = None" "l \<noteq> 0"
    and "\<And>h. procs \<sigma> u = Some h \<Longrightarrow> Slot h = s \<and> entitled \<sigma> u h"
    and "\<And>host k. rel host = Some k \<Longrightarrow> released (store \<sigma>) host = Some k"
  shows "rekey \<sigma> ((granted \<sigma>)(l \<mapsto> u)) u l ((put_slot s u hst l (store \<sigma>))\<lparr>released := rel\<rparr>)"
proof -
  have "granted \<sigma> 0 = None" using assms(1) by (simp add: slot_inv_def inv_ident_def)
  with assms(2-5) show ?thesis by (auto simp: rekey_def put_slot_def)
qed

lemma put_slot_inv:
  assumes "slot_inv r D T \<sigma>" and "granted \<sigma> l = None" "l \<noteq> 0"
    and "\<And>h. procs \<sigma> u = Some h \<Longrightarrow> Slot h = s \<and> entitled \<sigma> u h"
  shows "slot_inv r D T (grant l u (set_store (put_slot s u hst l (store \<sigma>)) \<sigma>))"
proof -
  have "(put_slot s u hst l (store \<sigma>))\<lparr>released := released (store \<sigma>)\<rparr> = put_slot s u hst l (store \<sigma>)"
    by (simp add: put_slot_def)
  with rekey_inv [OF assms(1) rekey_put_slot [OF assms(1-3), of u s "released (store \<sigma>)" hst]] assms(4)
  show ?thesis by simp
qed

lemma grant_inv:
  assumes "slot_inv r D T \<sigma>" and "granted \<sigma> l = None" "l \<noteq> 0"
  shows "slot_inv r D T (grant l u \<sigma>)"
proof -
  have "granted \<sigma> 0 = None" using assms by (simp add: slot_inv_def inv_ident_def)
  with assms(2,3) have "rekey \<sigma> ((granted \<sigma>)(l \<mapsto> u)) u l (store \<sigma>)" by (auto simp: rekey_def)
  from rekey_inv [OF assms(1) this] show ?thesis by simp
qed

text \<open>Reading the floor again after a reclaim.\<close>

lemma refloor_inv:
  assumes inv: "slot_inv r D T \<sigma>" and u: "procs \<sigma> u = Some h" and key: "key_of \<sigma> (Slot h) u"
  shows "slot_inv r D T (set_proc u (refloorFromWatermark okay h (store \<sigma>)) \<sigma>)"
proof (cases okay)
  case False
  with inv u show ?thesis by (simp add: refloorFromWatermark_def map_upd_triv)
next
  case True
  note d = inv_handleD [OF inv u]
  let ?v = "wm_val (store \<sigma>) (Slot h)"
  let ?g = "if ?v > guardWritten h then ?v else guardWritten h"
  let ?h1 = "h\<lparr>guardRev := rv_of \<sigma> (Slot h), guardWritten := ?g\<rparr>"
  have rv: "(if rv_of \<sigma> (Slot h) > guardRev h then rv_of \<sigma> (Slot h) else guardRev h) = rv_of \<sigma> (Slot h)"
    using d(3) by auto
  have one: "slot_inv r D T (set_proc u ?h1 \<sigma>)"
    by (rule observe_inv [OF inv u key]) (use d(7,11) in \<open>auto simp: word_le_def word_less_def max_def\<close>)
  from guard_node_inv [OF one, of u ?h1 ?v] d(11)
  have "slot_inv r D T (set_proc u (?h1\<lparr>hnode := map_option (SetGuardTime ?v) (hnode h)\<rparr>) \<sigma>)" by simp
  with one True show ?thesis unfolding refloorFromWatermark_def Let_def rv by (auto simp: swap_rev split: if_splits)
qed

lemma reclaim_ends:
  assumes rc: "reclaim e h st = (h', st')" and gr: "rc_grant e = None \<or> rc_grant e = Some l"
  shows "(h' = h \<and> st' = st) \<or> (h' = onOwnershipLost h \<and> st' = st)
    \<or> (h' = h\<lparr>needReclaim := False, registered := True\<rparr> \<and> st' = st) \<or> (h' = h \<and> st' = reclaim_commit h l st)
    \<or> (\<exists>h1. h1 = h\<lparr>hLease := l, incarnation := revision (reclaim_commit h l st), needReclaim := False, registered := True\<rparr>
        \<and> (h' = h1 \<or> h' = refloorFromWatermark (rc_floor_read e) h1 (reclaim_commit h l st))
        \<and> st' = reclaim_commit h l st \<and> reclaim_outcome h st \<in> {Recreated, Attached})"
proof (cases "rc_get e")
  case None
  with rc show ?thesis by (simp add: reclaim_def)
next
  case (Some seen)
  define c1 where "c1 = (case seen of None \<Rightarrow> False | Some (x, k) \<Rightarrow> x \<noteq> UUID h)"
  define c2 where "c2 = (case seen of None \<Rightarrow> False | Some (x, k) \<Rightarrow> hLease h \<noteq> 0 \<and> k = hLease h \<and> rc_alive e)"
  note step = rc [unfolded reclaim_def Some option.case, folded c1_def c2_def]
  show ?thesis
  proof (cases "c1 \<or> c2 \<or> rc_grant e = None \<or> rc_txn e \<noteq> Answered")
    case True
    with step gr show ?thesis by (cases "rc_txn e") (auto split: if_splits option.splits)
  next
    case False
    with gr have g: "rc_grant e = Some l" by auto
    from False have "rc_txn e = Answered" by simp
    with False g step show ?thesis
      by (cases "reclaim_outcome h st") (auto simp: Let_def split: if_splits option.splits prod.splits)
  qed
qed

lemma reclaimed_inv:
  assumes inv: "slot_inv r D T \<sigma>" and u: "procs \<sigma> u = Some h" and l: "granted \<sigma> l = None" "l \<noteq> 0"
    and gr: "rc_grant e = None \<or> rc_grant e = Some l" and rc: "reclaim e h (store \<sigma>) = (h', st')"
  shows "slot_inv r D T (set_proc u h' (set_store st' (grant l u \<sigma>)))"
proof -
  note d = inv_handleD [OF inv u]
  let ?\<sigma> = "grant l u \<sigma>"
  let ?cm = "reclaim_commit h l (store \<sigma>)"
  have inv1: "slot_inv r D T ?\<sigma>" by (rule grant_inv [OF inv l])
  have u1: "procs ?\<sigma> u = Some h" using u by simp
  have noop: "set_proc u h (set_store (store \<sigma>) ?\<sigma>) = ?\<sigma>" using u by (simp add: map_upd_triv)
  have commit: "slot_inv r D T (grant l u (set_store ?cm \<sigma>))"
  proof (cases "reclaim_outcome h (store \<sigma>) \<in> {Recreated, Attached}")
    case True
    have "entitled \<sigma> u h" using True d(1)
      by (auto simp: reclaim_outcome_def entitled_def split: if_splits)
    then show ?thesis using True d(1) u put_slot_inv [OF inv l, of u "Slot h" "hHost h"] by (simp add: reclaim_commit_def)
  next
    case False
    with inv1 show ?thesis by (auto simp: reclaim_commit_def)
  qed
  from reclaim_ends [OF rc gr]
  consider (same) "h' = h" "st' = store \<sigma>" | (away) "h' = onOwnershipLost h" "st' = store \<sigma>"
    | (fine) "h' = h\<lparr>needReclaim := False, registered := True\<rparr>" "st' = store \<sigma>"
    | (unheard) "h' = h" "st' = ?cm"
    | (regained) h1 where "h1 = h\<lparr>hLease := l, incarnation := revision ?cm, needReclaim := False, registered := True\<rparr>"
        "h' = h1 \<or> h' = refloorFromWatermark (rc_floor_read e) h1 ?cm" "st' = ?cm"
        "reclaim_outcome h (store \<sigma>) \<in> {Recreated, Attached}"
    by blast
  then show ?thesis
  proof cases
    case same
    with noop inv1 show ?thesis by simp
  next
    case away
    with displaced_inv [OF inv1 u1] show ?thesis by (simp add: sys_swaps)
  next
    case fine
    have "slot_inv r D T (set_proc u h' ?\<sigma>)"
      by (rule flags_inv [OF inv1 u1]) (use fine d(2) l in auto)
    with fine show ?thesis by simp
  next
    case unheard
    with commit u show ?thesis by (simp add: map_upd_triv sys_swaps)
  next
    case (regained h1)
    let ?\<tau> = "grant l u (set_store ?cm \<sigma>)"
    have one: "slot_inv r D T (set_proc u h1 ?\<tau>)"
      by (rule flags_inv [OF commit, of u h]) (use u regained(1) in auto)
    have "key_of (set_proc u h1 ?\<tau>) (Slot h1) u"
      using regained(1,4) d(1) by (auto simp: reclaim_commit_def put_slot_def holds_def)
    from refloor_inv [OF one _ this] one regained(2,3) show ?thesis by (auto simp: sys_swaps)
  qed
qed

section \<open>Claims\<close>

text \<open>The margin the options leave: an acknowledgement may come \<open>D\<close> after the reading its watermark was
  computed from, and ids may run 10 seconds ahead of the clock.\<close>

definition sound_options :: "resolvedOptions \<Rightarrow> int \<Rightarrow> bool" where
  "sound_options r D \<longleftrightarrow> 0 \<le> D \<and> 0 < fenceAfter r \<and> fenceAfter r + D + 10 * second \<le> quarantine r \<and> quarantine r < 2 ^ 63"

lemma below_mono: "below \<sigma> p b \<Longrightarrow> b \<le> c \<Longrightarrow> below \<sigma> p c"
  by (fastforce simp: below_def)

lemma limit_below:
  assumes "sound_options r D" and "ackWall (fence h) - Epoch * second \<le> v * second + D" and "budget (fence h) = fenceAfter r"
  shows "limit h \<le> v + quarantine r div second"
proof -
  have "ackWall (fence h) + budget (fence h) - Epoch * second \<le> v * second + (quarantine r - 10 * second)"
    using assms by (simp add: sound_options_def)
  then have "(ackWall (fence h) + budget (fence h) - Epoch * second) div second
      \<le> (v * second + (quarantine r - 10 * second)) div second"
    by (rule zdiv_mono1) (simp add: second_def)
  also have "(v * second + (quarantine r - 10 * second)) div second = v + quarantine r div second - 10"
    by (simp add: second_def)
  finally show ?thesis by (simp add: limit_def)
qed

lemma fresh_process:
  assumes "slot_inv r D T \<sigma>" and "fresh_ids \<sigma> u l"
  shows "procs \<sigma> u = None" and "\<not> key_of \<sigma> s u" and "granted \<sigma> l = None" and "l \<noteq> 0"
proof -
  from assms have i: "inv_ident \<sigma>" and f: "\<And>k. granted \<sigma> k \<noteq> Some u" "granted \<sigma> l = None" "l \<noteq> 0"
    by (auto simp: slot_inv_def fresh_ids_def ran_def)
  show "procs \<sigma> u = None" using i f(1) unfolding inv_ident_def by (meson not_Some_eq)
  show "\<not> key_of \<sigma> s u"
  proof
    assume "key_of \<sigma> s u"
    then obtain k where "slots (store \<sigma>) s = Some (u, k)" by (auto simp: holds_def split: option.splits)
    with i f(1) show False unfolding inv_ident_def by blast
  qed
  show "granted \<sigma> l = None" "l \<noteq> 0" using f by auto
qed

lemma claim_round_ends:
  assumes "claim_round r host u l used wm t st = (Inr cl, st')"
  shows "cLease cl = l \<and> cUuid cl = u \<and> \<not> cReused cl \<and> slots st (cSlot cl) = None \<and> st' = put_slot (cSlot cl) u host l st
    \<and> eligible used wm (nowEpoch t) (word_of_int (quarantine r div second)) (cSlot cl)"
  using assms selectSlot_best [where used = used and wm = wm and now = "nowEpoch t" and ms = "maxSlot r"
      and q = "word_of_int (quarantine r div second)"]
  by (auto simp: claim_round_def split: option.splits if_splits)

lemma open_handle_ends:
  assumes "open_handle r host oks ka net cl st = (Some h, st')"
  shows "st' = st \<and> UUID h = cUuid cl \<and> Slot h = cSlot cl \<and> hLease h = cLease cl \<and> hnode h = None \<and> \<not> closing h
    \<and> \<not> acked (fence h) \<and> budget (fence h) = fenceAfter r
    \<and> ComposeWorkerID (cluster r) (Slot h) (clusterBits r) (slotBits r) = Some (WorkerID h)
    \<and> GuardEpochSec h = guardWritten h
    \<and> ((guardRev h = wm_rev st (cSlot cl) \<and> guardWritten h = wm_val st (cSlot cl))
       \<or> (\<not> cReused cl \<and> guardRev h = 0 \<and> guardWritten h = 0))"
  using assms by (auto simp: open_handle_def newHandle_def readWatermarkFloorRetry_def Let_def
      split: option.splits if_splits prod.splits)

lemma dropped_inv:
  assumes "slot_inv r D T \<sigma>" and "fresh_ids \<sigma> u l"
  shows "slot_inv r D T (grant l u (set_store (put_slot s u host l (store \<sigma>)) \<sigma>))"
  by (rule put_slot_inv [OF assms(1) fresh_process(3,4) [OF assms]]) (simp add: fresh_process(1) [OF assms])

lemma quarantine_over:
  assumes inv: "slot_inv r D T \<sigma>" and so: "sound_options r D" and T: "T + 10 < 2 ^ 32" and t: "nowE (wall t) \<le> int T"
    and el: "eligible used wm (nowEpoch t) (word_of_int (quarantine r div second)) s" and wm: "wm s = wm_val (store \<sigma>) s"
  shows "wv \<sigma> s > 0 \<Longrightarrow> wv \<sigma> s + quarantine r div second \<le> nowE (wall t)"
    and "wv \<sigma> s > 0 \<Longrightarrow> wv \<sigma> s < nowE (wall t)"
    and "procs \<sigma> p = Some h \<Longrightarrow> Slot h = s \<Longrightarrow> below \<sigma> p (nowE (wall t))"
proof -
  have q: "uint (word_of_int (quarantine r div second) :: u64) = quarantine r div second"
  proof -
    have "0 \<le> quarantine r" "quarantine r < 2 ^ 63" using so by (auto simp: sound_options_def second_def)
    then have "0 \<le> quarantine r div second" "quarantine r div second < 2 ^ 64" by (auto simp: second_def)
    then show ?thesis by (simp add: uint_word_of_int_eq take_bit_int_eq_self)
  qed
  have "1 * second \<le> quarantine r" using so by (simp add: sound_options_def second_def)
  then have q1: "1 \<le> quarantine r div second" by (simp add: second_def)
  have now: "uint (nowEpoch t) = nowE (wall t)" by (rule uint_nowEpoch [OF t T])
  show far: "wv \<sigma> s + quarantine r div second \<le> nowE (wall t)" if pos: "wv \<sigma> s > 0"
  proof -
    from pos have "wm s \<noteq> 0" by (auto simp: wm)
    with el have le: "wm s \<le> nowEpoch t" and q': "word_of_int (quarantine r div second) \<le> nowEpoch t - wm s"
      by (auto simp: eligible_def)
    from le have "uint (nowEpoch t - wm s) = uint (nowEpoch t) - uint (wm s)"
      by (simp add: word_le_def uint_sub_lem)
    with q' q now wm show ?thesis by (simp add: word_le_def)
  qed
  with q1 show "wv \<sigma> s < nowE (wall t)" if "wv \<sigma> s > 0" using that by force
  show "below \<sigma> p (nowE (wall t))" if p: "procs \<sigma> p = Some h" "Slot h = s"
  proof -
    from inv have ack: "inv_ack D \<sigma>" and mint: "inv_mint \<sigma>" by (auto simp: slot_inv_def)
    have lim: "limit h \<le> nowE (wall t)" if "acked (fence h)"
    proof -
      from ack p that have "wv \<sigma> s > 0" "ackWall (fence h) - Epoch * second \<le> wv \<sigma> s * second + D"
        by (auto simp: inv_ack_def)
      with limit_below [OF so _ inv_handleD(4) [OF inv p(1)]] far show ?thesis by force
    qed
    have "id_time i \<le> nowE (wall t)" if i: "(p, i) \<in> set (minted \<sigma>)" for i
    proof -
      from inv_mintE [OF mint i] obtain k where "procs \<sigma> p = Some k" "acked (fence k)" "id_time i \<le> limit k" .
      with p lim show ?thesis by simp
    qed
    with p lim show ?thesis by (simp add: below_def)
  qed
qed

lemma claimed_inv:
  assumes inv: "slot_inv r D T \<sigma>" and so: "sound_options r D" and T: "T + 10 < 2 ^ 32" and f: "fresh_ids \<sigma> u l"
    and t: "nowE (wall t) \<le> int T" and cr: "claim_round r host u l used wm t (store \<sigma>) = (Inr cl, st)"
    and wm: "wm (cSlot cl) = scanWatermarks (store \<sigma>) (cSlot cl)"
    and op: "open_handle r host oks ka net cl st = (Some h, st')"
  shows "slot_inv r D T (set_base u (nowE (wall t)) (see u (wall t) (grant l u (set_proc u h (set_store st' \<sigma>)))))"
proof -
  let ?s = "cSlot cl"
  let ?\<sigma> = "grant l u (set_store (put_slot ?s u host l (store \<sigma>)) \<sigma>)"
  note c = claim_round_ends [OF cr] and o = open_handle_ends [OF op] and fr = fresh_process [OF inv f]
  have inv1: "slot_inv r D T ?\<sigma>" by (rule dropped_inv [OF inv f])
  have el: "eligible used wm (nowEpoch t) (word_of_int (quarantine r div second)) ?s" using c by blast
  note q = quarantine_over [OF inv so T t el wm [unfolded scanWatermarks_def]]
  have same: "watermark (put_slot ?s u host l (store \<sigma>)) = watermark (store \<sigma>)" by (simp add: put_slot_def)
  have st: "st' = put_slot ?s u host l (store \<sigma>)" using c o by simp
  from inv have rv: "inv_rev T \<sigma>" by (simp add: slot_inv_def)
  then have some: "0 < k \<and> 0 < uint v" if "watermark (store \<sigma>) ?s = Some (v, k)" for v k
    using that unfolding inv_rev_def by blast
  have zero: "rv_of \<sigma> ?s = 0 \<or> wv \<sigma> ?s > 0" "0 \<le> rv_of \<sigma> ?s" "rv_of \<sigma> ?s = 0 \<Longrightarrow> wv \<sigma> ?s = 0"
    using some by (cases "watermark (store \<sigma>) ?s"; force simp: ModRevision_def wm_value_def)+
  have "newcomer r T ?\<sigma> u h (nowE (wall t)) (wall t)"
    unfolding newcomer_def
  proof (intro conjI allI impI)
    show "procs ?\<sigma> u = None" using fr(1) by simp
    show "key_of ?\<sigma> (Slot h) u" using o by (simp add: holds_def put_slot_def)
    show "s = Slot h" if "key_of ?\<sigma> s u" for s
      using that fr(2) [of s] o by (auto simp: holds_def put_slot_def split: if_splits)
    show "guardRev h \<le> rv_of ?\<sigma> (Slot h)" using o c zero(2) same by auto
    show "wv ?\<sigma> (Slot h) \<le> uint (guardWritten h)" if "guardRev h = rv_of ?\<sigma> (Slot h)"
      using that o c zero(3) same by auto
    show "guardRev h = rv_of ?\<sigma> (Slot h) \<or> wv ?\<sigma> (Slot h) < nowE (wall t) \<and> nowE (wall t) \<le> nowE (wall t)"
      using o c zero(1) q(2) same by auto
    show "below ?\<sigma> p (nowE (wall t))" if "procs ?\<sigma> p = Some hp" "Slot hp = Slot h" for p hp
    proof -
      from that o have "below \<sigma> p (nowE (wall t))" by (intro q(3) [of p hp]) auto
      then show ?thesis by (simp add: below_def)
    qed
    show "uint (guardWritten h) \<le> int T + 10"
      using o c rv same by (auto simp: inv_rev_def)
  qed (use o c t in auto)
  from newcomer_inv [OF inv1 this] show ?thesis by (simp add: st sys_swaps)
qed

lemma tryReuse_ends:
  assumes "tryReuse r host u l a rl k st = (Some cl, st')"
  shows "cLease cl = l \<and> cUuid cl = u \<and> cReused cl \<and> st' = (put_slot (cSlot cl) u host l st)\<lparr>released := (released st)(host := None)\<rparr>
    \<and> (\<exists>pred pl. released st host = Some pl \<and> slots st (cSlot cl) = Some (pred, pl))"
  using assms by (auto simp: tryReuse_def split: option.splits if_splits)

lemma reuse_dropped_inv:
  assumes "slot_inv r D T \<sigma>" and "fresh_ids \<sigma> u l"
  shows "slot_inv r D T (grant l u (set_store ((put_slot s u host l (store \<sigma>))\<lparr>released := (released (store \<sigma>))(host := None)\<rparr>) \<sigma>))"
proof -
  have "rekey \<sigma> ((granted \<sigma>)(l \<mapsto> u)) u l ((put_slot s u host l (store \<sigma>))\<lparr>released := (released (store \<sigma>))(host := None)\<rparr>)"
    by (rule rekey_put_slot [OF assms(1) fresh_process(3,4) [OF assms]])
       (use fresh_process(1) [OF assms] in \<open>auto split: if_splits\<close>)
  from rekey_inv [OF assms(1) this] show ?thesis by simp
qed

lemma released_floor:
  assumes inv: "slot_inv r D T \<sigma>" and rel: "released (store \<sigma>) host = Some pl" and key: "slots (store \<sigma>) s = Some (pred, pl)"
    and p: "procs \<sigma> p = Some hp" "Slot hp = s"
  shows "below \<sigma> p (wv \<sigma> s)"
proof -
  from inv have i: "inv_ident \<sigma>" and fin: "inv_final \<sigma>" and ent: "inv_entitled \<sigma>" by (auto simp: slot_inv_def)
  from i rel key have "pred \<in> finals \<sigma>" unfolding inv_ident_def by (metis option.inject)
  with fin obtain h where h: "procs \<sigma> pred = Some h" "closing h" "base \<sigma> pred \<le> wv \<sigma> (Slot h)"
      "\<And>i. (pred, i) \<in> set (minted \<sigma>) \<Longrightarrow> id_time i \<le> wv \<sigma> (Slot h)"
    unfolding inv_final_def by blast
  from i key h(1) have sl: "Slot h = s" unfolding inv_ident_def by blast
  show ?thesis
  proof (cases "p = pred")
    case True
    with h sl show ?thesis by (auto simp: below_def)
  next
    case False
    have "entitled \<sigma> pred h" using key sl by (simp add: entitled_def holds_def)
    with ent False p h(1) sl have "below \<sigma> p (base \<sigma> pred)" by (auto simp: inv_entitled_def)
    with h(3) sl below_mono show ?thesis by blast
  qed
qed

lemma reused_inv:
  assumes inv: "slot_inv r D T \<sigma>" and f: "fresh_ids \<sigma> u l" and t: "nowE w \<le> int T"
    and tr: "tryReuse r host u l a rl k (store \<sigma>) = (Some cl, st)"
    and op: "open_handle r host oks ka net cl st = (Some h, st')"
  shows "slot_inv r D T (set_base u (wv \<sigma> (cSlot cl)) (see u w (grant l u (set_proc u h (set_store st' \<sigma>)))))"
proof -
  let ?s = "cSlot cl"
  let ?st = "(put_slot ?s u host l (store \<sigma>))\<lparr>released := (released (store \<sigma>))(host := None)\<rparr>"
  let ?\<sigma> = "grant l u (set_store ?st \<sigma>)"
  note c = tryReuse_ends [OF tr] and o = open_handle_ends [OF op] and fr = fresh_process [OF inv f]
  have inv1: "slot_inv r D T ?\<sigma>" by (rule reuse_dropped_inv [OF inv f])
  have same: "watermark ?st = watermark (store \<sigma>)" by (simp add: put_slot_def)
  have st: "st' = ?st" using c o by simp
  from inv have rv: "inv_rev T \<sigma>" by (simp add: slot_inv_def)
  have "newcomer r T ?\<sigma> u h (wv \<sigma> ?s) w"
    unfolding newcomer_def
  proof (intro conjI allI impI)
    show "procs ?\<sigma> u = None" using fr(1) by simp
    show "key_of ?\<sigma> (Slot h) u" using o by (simp add: holds_def put_slot_def)
    show "s = Slot h" if "key_of ?\<sigma> s u" for s
      using that fr(2) [of s] o by (auto simp: holds_def put_slot_def split: if_splits)
    show "below ?\<sigma> p (wv \<sigma> ?s)" if "procs ?\<sigma> p = Some hp" "Slot hp = Slot h" for p hp
    proof -
      from c obtain pred pl where "released (store \<sigma>) host = Some pl" "slots (store \<sigma>) ?s = Some (pred, pl)" by blast
      from released_floor [OF inv this, of p hp] that o have "below \<sigma> p (wv \<sigma> ?s)" by simp
      then show ?thesis by (simp add: below_def)
    qed
    show "uint (guardWritten h) \<le> int T + 10" using o c rv same by (auto simp: inv_rev_def)
  qed (use o c t same in auto)
  from newcomer_inv [OF inv1 this] show ?thesis by (simp add: st sys_swaps)
qed

section \<open>Every step\<close>

lemma advanced_final_inv:
  assumes inv: "slot_inv r D T \<sigma>" and T: "T + 10 < 2 ^ 32" and u: "procs \<sigma> u = Some h"
    and w: "seenWall \<sigma> u \<le> wall t" "wall t \<le> wall t'" "wall t' \<le> wall t + D" "nowE (wall t') \<le> int T"
    and adv: "advanceGuard net t t' h (store \<sigma>) = (okay, h', st')" and b: "\<forall>s. uint (wm_val st' s) \<le> int T + 10"
  shows "slot_inv r D T ((see u (wall t') (set_proc u h' (set_store st' \<sigma>)))
           \<lparr>finals := (if okay \<and> closing h then insert u (finals \<sigma>) else finals \<sigma>)\<rparr>)"
proof (cases "okay \<and> closing h")
  case False
  with advanced_inv(1) [OF assms] show ?thesis by auto
next
  case True
  let ?\<sigma> = "see u (wall t') (set_proc u h' (set_store st' \<sigma>))"
  note ok = advanced_inv(2) [OF assms, of]
  have "writing r D T (see u (wall t') \<sigma>) u h t t'" by (rule writing_start [OF inv T u w])
  from target_bounds [OF this] have "nowE (wall t) \<le> uint (guard_target t h)" "uint (guardWritten h) \<le> uint (guard_target t h)" by auto
  with inv_handleD(5) [OF inv u] nowE_mono [OF w(1)] have "base \<sigma> u \<le> uint (guard_target t h)" by linarith
  with True ok have "slot_inv r D T (?\<sigma>\<lparr>finals := insert u (finals ?\<sigma>)\<rparr>)"
    by (intro final_inv [OF advanced_inv(1) [OF assms], of u h' , OF _ _ _ _ T]) auto
  with True show ?thesis by simp
qed

theorem slot_step_inv:
  assumes "slot_step r D T \<sigma> \<sigma>'" and "slot_inv r D T \<sigma>" and "sound_options r D" and "T + 10 < 2 ^ 32"
  shows "slot_inv r D T \<sigma>'"
  using assms(1)
proof cases
  case (Claimed u l t host used wm cl st oks ka net h st')
  with claimed_inv [OF assms(2-4)] show ?thesis by simp
next
  case (ClaimDropped u l host used wm t cl st)
  with dropped_inv [OF assms(2)] claim_round_ends show ?thesis by metis
next
  case (Reused u l t host a rl k cl st oks ka net h st')
  with reused_inv [OF assms(2)] show ?thesis by simp
next
  case (ReuseDropped u l host a rl k cl st)
  with reuse_dropped_inv [OF assms(2)] tryReuse_ends show ?thesis by metis
next
  case (Expired l)
  with expired_inv [OF assms(2)] show ?thesis by simp
next
  case (Advanced u h t t' net okay h' st')
  with advanced_final_inv [OF assms(2,4)] show ?thesis by simp
next
  case (NodeMade u h t t' h')
  with node_made_inv [OF assms(2,4)] show ?thesis by simp
next
  case (Generated u h n e res n')
  with generated_inv [OF assms(2,4)] show ?thesis by simp
next
  case (Reclaimed u h l e h' st')
  with reclaimed_inv [OF assms(2)] show ?thesis by simp
next
  case (Flagged u h b)
  have "slot_inv r D T (set_proc u (h\<lparr>needReclaim := b\<rparr>) \<sigma>)"
    by (rule flags_inv [OF assms(2) Flagged(2)]) (use inv_handleD(2) [OF assms(2) Flagged(2)] in simp_all)
  with Flagged(1) show ?thesis by simp
next
  case (Displaced u h)
  with displaced_inv [OF assms(2)] show ?thesis by simp
next
  case (Closing u h)
  with fence_node_inv(2) [OF assms(2)] show ?thesis by simp
next
  case (ReleasePut u h)
  with put_released_inv [OF assms(2)] show ?thesis by simp
qed

theorem slot_reachable_inv:
  "slot_reachable r D T \<sigma> \<Longrightarrow> sound_options r D \<Longrightarrow> T + 10 < 2 ^ 32 \<Longrightarrow> slot_inv r D T \<sigma>"
  by (induction rule: slot_reachable.induct) (simp_all add: slot_init_inv slot_step_inv)

end
