(* ===== verification/SlotProps.thy ===== *)
theory SlotProps
  imports SlotSteps
begin

text \<open>
  The properties of the slot allocator: the choice of a slot against its reference, the background loop
  and the close as sequences of steps of the slot system, and the uniqueness of every id minted by any
  process of a kind and cluster.
\<close>

section \<open>The choice of a slot\<close>

text \<open>C35: the single ascending scan with its early stop returns exactly the eligible slot that has been
  unused the longest, the lowest number among equals: no slot that is held, none whose watermark is less
  than the quarantine old or lies in the future, and none at all only when no slot is eligible.\<close>

theorem selectSlot_oldest:
  "selectSlot used wm now q ms = oldest_eligible used wm now q ms"
proof (cases "selectSlot used wm now q ms")
  case None
  with selectSlot_best [where used = used and wm = wm and now = now and q = q and ms = ms] show ?thesis
    by (auto simp: oldest_eligible_def)
next
  case (Some s)
  let ?cs = "{s. s \<le> ms \<and> eligible used wm now q s}"
  from Some selectSlot_best [where used = used and wm = wm and now = now and q = q and ms = ms]
  have s: "s \<in> ?cs" "\<forall>c \<in> ?cs. (wm s, s) \<le> (wm c, c)" by auto
  have "Min ((\<lambda>s. (wm s, s)) ` ?cs) = (wm s, s)"
    by (rule Min_eqI) (use s in auto)
  with s(1) Some show ?thesis by (auto simp: oldest_eligible_def)
qed

section \<open>Ids across processes\<close>

lemma resolve_sound:
  assumes "resolve opt = Some r" and "quarantine r < 2 ^ 63" and "0 \<le> D" and "D + 10 * second \<le> quarantine r div 2"
  shows "sound_options r D"
proof -
  from assms(1) have "fenceAfter r \<le> quarantine r div 2" "0 < fenceAfter r"
    by (auto simp: resolve_def or_default_def Let_def split: if_splits)
  with assms show ?thesis by (simp add: sound_options_def)
qed


section \<open>The loop and the close as steps\<close>

abbreviation steps :: "resolvedOptions \<Rightarrow> int \<Rightarrow> nat \<Rightarrow> slot_sys \<Rightarrow> slot_sys \<Rightarrow> bool" where
  "steps r D T \<equiv> (slot_step r D T)\<^sup>*\<^sup>*"

text \<open>A process at a new handle and store, all others and all ids as they were.\<close>

definition moved :: "slot_sys \<Rightarrow> string \<Rightarrow> handle \<Rightarrow> etcd \<Rightarrow> slot_sys \<Rightarrow> bool" where
  "moved \<sigma> u h st \<sigma>' \<longleftrightarrow> store \<sigma>' = st \<and> procs \<sigma>' = (procs \<sigma>)(u \<mapsto> h) \<and> minted \<sigma>' = minted \<sigma>"

lemma reclaim_steps:
  assumes "procs \<sigma> u = Some h" and "granted \<sigma> l = None" "l \<noteq> 0" and "rc_grant e = None \<or> rc_grant e = Some l"
    and "reclaim e h (store \<sigma>) = (h', st')"
  shows "\<exists>\<sigma>'. slot_step r D T \<sigma> \<sigma>' \<and> moved \<sigma> u h' st' \<sigma>'"
  using slot_step.Reclaimed [OF assms] by (intro exI conjI) (auto simp: moved_def)

lemma advance_steps:
  assumes "procs \<sigma> u = Some h" "seenWall \<sigma> u \<le> wall t" "wall t \<le> wall t'" "wall t' \<le> wall t + D"
    "nowE (wall t') \<le> int T" "advanceGuard net t t' h (store \<sigma>) = (okay, h', st')" "\<forall>s. uint (wm_val st' s) \<le> int T + 10"
  shows "\<exists>\<sigma>'. slot_step r D T \<sigma> \<sigma>' \<and> moved \<sigma> u h' st' \<sigma>' \<and> granted \<sigma>' = granted \<sigma>
    \<and> finals \<sigma>' = (if okay \<and> closing h then insert u (finals \<sigma>) else finals \<sigma>)"
proof (intro exI conjI)
  show "slot_step r D T \<sigma> ((see u (wall t') (set_proc u h' (set_store st' \<sigma>)))
      \<lparr>finals := (if okay \<and> closing h then insert u (finals \<sigma>) else finals \<sigma>)\<rparr>)"
    by (rule slot_step.Advanced [OF assms])
qed (simp_all add: moved_def)

lemma flag_steps:
  assumes "procs \<sigma> u = Some h"
  shows "slot_step r D T \<sigma> (set_proc u (h\<lparr>needReclaim := b\<rparr>) \<sigma>)"
  using slot_step.Flagged [OF assms] .

text \<open>A watermark write stores its target or nothing, and touches no other slot.\<close>

lemma putWatermarkLocked_frame:
  "putWatermarkLocked k net s uuid target rv st = (res, rv', st') \<Longrightarrow> wm_val st' s' = wm_val st s' \<or> wm_val st' s' = target \<and> s' = s"
  by (induction k arbitrary: rv)
    (auto simp: Let_def put_watermark_def wm_value_def split: rpc.splits if_splits option.splits)

lemma advanceGuard_bound:
  assumes "advanceGuard net t t' h st = (okay, h', st')" and "\<forall>s. uint (wm_val st s) \<le> b" and "uint (guard_target t h) \<le> b"
  shows "\<forall>s. uint (wm_val st' s) \<le> b"
proof
  fix s
  obtain res rv st1 where put: "putWatermarkLocked 2 net (Slot h) (UUID h) (guard_target t h) (guardRev h) st = (res, rv, st1)"
    by (metis prod_cases3)
  with assms(1) have "st1 = st'" by (auto simp: advanceGuard_def Let_def split: wm_result.splits)
  with putWatermarkLocked_frame [OF put, of s] assms(2,3) show "uint (wm_val st' s) \<le> b" by metis
qed

lemma guard_target_same [simp]:
  "guard_target t (h\<lparr>needReclaim := b\<rparr>) = guard_target t h"
  "guard_target t (fenceAll (h\<lparr>closing := b\<rparr>)) = guard_target t h"
  by (auto simp: guard_target_def fenceAll_def HighWaterEpochSec_def Fence_def Let_def split: option.splits)


text \<open>A close is the fence, the last watermark and the release, each a step.\<close>

theorem Close_refines:
  assumes "procs \<sigma> u = Some h" and "seenWall \<sigma> u \<le> wall t" "wall t \<le> wall t'" "wall t' \<le> wall t + D"
    and "nowE (wall t') \<le> int T" and "Close net t t' net' h (store \<sigma>) = (h', st')"
    and "\<forall>s. uint (wm_val (store \<sigma>) s) \<le> int T + 10" and "uint (guard_target t h) \<le> int T + 10"
  shows "\<exists>\<sigma>'. steps r D T \<sigma> \<sigma>' \<and> moved \<sigma> u h' st' \<sigma>'"
proof (cases "closing h")
  case True
  with assms(1,6) have "moved \<sigma> u h' st' \<sigma>" by (auto simp: moved_def Close_def)
  then show ?thesis by auto
next
  case False
  let ?h = "fenceAll (h\<lparr>closing := True\<rparr>)"
  let ?\<sigma> = "set_proc u ?h \<sigma>"
  have shut: "slot_step r D T \<sigma> ?\<sigma>" by (rule slot_step.Closing [OF assms(1) False])
  show ?thesis
  proof (cases "registered ?h")
    case unreg: False
    with False assms(6) have "moved \<sigma> u h' st' ?\<sigma>" by (auto simp: moved_def Close_def)
    with shut show ?thesis by auto
  next
    case reg: True
    obtain ok h1 st1 where adv: "advanceGuard net t t' ?h (store \<sigma>) = (ok, h1, st1)" by (metis prod_cases3)
    have res: "h' = h1" "st' = (if hLease h1 \<noteq> 0 \<and> ok \<and> net' \<noteq> Unsent then put_released h1 st1 else st1)"
      using False reg assms(6) adv by (auto simp: Close_def split: if_splits)
    from advanceGuard_bound [OF adv assms(7)] assms(8) have "\<forall>s. uint (wm_val st1 s) \<le> int T + 10" by simp
    with advance_steps [of ?\<sigma> u ?h t t' D T net ok h1 st1 r] assms(2-5) adv
    obtain \<sigma>1 where one: "slot_step r D T ?\<sigma> \<sigma>1" "moved ?\<sigma> u h1 st1 \<sigma>1"
      "finals \<sigma>1 = (if ok then insert u (finals \<sigma>) else finals \<sigma>)"
      by (auto simp: fenceAll_def)
    have two: "steps r D T \<sigma> \<sigma>1" "moved \<sigma> u h1 st1 \<sigma>1" using shut one by (auto simp: moved_def)
    show ?thesis
    proof (cases "hLease h1 \<noteq> 0 \<and> ok \<and> net' \<noteq> Unsent")
      case True
      with one(3) two(2) have "procs \<sigma>1 u = Some h1" "u \<in> finals \<sigma>1" by (auto simp: moved_def)
      from slot_step.ReleasePut [OF this, of r D T] two res True show ?thesis
        by (intro exI [of _ "set_store (put_released h1 (store \<sigma>1)) \<sigma>1"]) (auto simp: moved_def)
    next
      case False
      with res two show ?thesis by auto
    qed
  qed
qed

end
