(* ===== verification/SlotRun.thy ===== *)
theory SlotRun
  imports SlotProps
begin

text \<open>
  A run of the slot system evaluated step by step: two processes take both slots of a small deployment,
  the first dies, and a third takes over its slot after the quarantine.
\<close>

section \<open>Steps that compute\<close>

definition do_claim :: "resolvedOptions \<Rightarrow> string \<Rightarrow> string \<Rightarrow> int \<Rightarrow> instant \<Rightarrow> slot_sys \<Rightarrow> slot_sys" where
  "do_claim r host u l t \<sigma> =
     (case claim_round r host u l (scanUsedSlots (store \<sigma>)) (scanWatermarks (store \<sigma>)) t (store \<sigma>) of
        (Inl _, _) \<Rightarrow> \<sigma>
      | (Inr cl, st) \<Rightarrow>
         (case open_handle r host [True] True Answered cl st of
            (None, _) \<Rightarrow> \<sigma>
          | (Some h, st') \<Rightarrow>
              set_base u (nowE (wall t)) (see u (wall t) (grant l u (set_proc u h (set_store st' \<sigma>))))))"

definition do_advance :: "string \<Rightarrow> instant \<Rightarrow> slot_sys \<Rightarrow> slot_sys" where
  "do_advance u t \<sigma> =
     (case procs \<sigma> u of None \<Rightarrow> \<sigma> | Some h \<Rightarrow>
        (case advanceGuard (\<lambda>_. Answered) t t h (store \<sigma>) of (okay, h', st') \<Rightarrow>
           (see u (wall t) (set_proc u h' (set_store st' \<sigma>)))
             \<lparr>finals := (if okay \<and> closing h then insert u (finals \<sigma>) else finals \<sigma>)\<rparr>))"

definition do_node :: "string \<Rightarrow> instant \<Rightarrow> slot_sys \<Rightarrow> slot_sys" where
  "do_node u t \<sigma> =
     (case procs \<sigma> u of None \<Rightarrow> \<sigma> | Some h \<Rightarrow>
        (if hnode h = None \<and> \<not> closing h
         then (case handle_NewNode t t h of None \<Rightarrow> \<sigma> | Some h' \<Rightarrow> see u (wall t) (set_proc u h' \<sigma>)) else \<sigma>))"

definition call_at :: "fence_clock \<Rightarrow> instant \<Rightarrow> gen_env" where
  "call_at c t = \<lparr>fence_before = False, clock_before = Some c, at_before = t, fence_locked = False, at_now = t,
     wait_start = t, waits = (\<lambda>_. (t, t)), fence_after = False, clock_after = Some c, at_after = t\<rparr>"

definition do_generate :: "string \<Rightarrow> instant \<Rightarrow> slot_sys \<Rightarrow> slot_sys" where
  "do_generate u t \<sigma> =
     (case procs \<sigma> u of None \<Rightarrow> \<sigma> | Some h \<Rightarrow>
        (case hnode h of None \<Rightarrow> \<sigma> | Some n \<Rightarrow>
          (if lastTime n < nowEpoch t
           then (case Generate n (call_at (fence h) t) of
             None \<Rightarrow> \<sigma>
           | Some (res, n') \<Rightarrow>
              (see u (wall t) (set_proc u (h\<lparr>hnode := Some n'\<rparr>) \<sigma>))
                \<lparr>minted := (case res of Inl _ \<Rightarrow> minted \<sigma> | Inr i \<Rightarrow> (u, i) # minted \<sigma>)\<rparr>)
           else \<sigma>)))"

definition do_expire :: "int \<Rightarrow> slot_sys \<Rightarrow> slot_sys" where
  "do_expire l \<sigma> = set_store (expire l (store \<sigma>)) \<sigma>"

lemma do_claim_reachable:
  assumes "slot_reachable r D T \<sigma>" and "fresh_ids \<sigma> u l" and "nowE (wall t) \<le> int T"
  shows "slot_reachable r D T (do_claim r host u l t \<sigma>)"
  using assms slot_reachable.step [OF assms(1) slot_step.Claimed [OF assms(2,3)]]
  by (auto simp: do_claim_def split: prod.split sum.split option.split)

lemma do_advance_reachable:
  assumes "slot_reachable r D T \<sigma>" and "seenWall \<sigma> u \<le> wall t" "0 \<le> D" "nowE (wall t) \<le> int T"
    and "\<forall>s. uint (wm_val (store (do_advance u t \<sigma>)) s) \<le> int T + 10"
  shows "slot_reachable r D T (do_advance u t \<sigma>)"
proof (cases "procs \<sigma> u")
  case None
  with assms(1) show ?thesis by (simp add: do_advance_def)
next
  case (Some h)
  obtain okay h' st' where adv: "advanceGuard (\<lambda>_. Answered) t t h (store \<sigma>) = (okay, h', st')" by (metis prod_cases3)
  from assms(5) Some adv have "\<forall>s. uint (wm_val st' s) \<le> int T + 10" by (simp add: do_advance_def)
  from slot_step.Advanced [OF Some assms(2) order.refl _ assms(4) adv this] assms(3) Some adv
  have "slot_step r D T \<sigma> (do_advance u t \<sigma>)" by (simp add: do_advance_def)
  with assms(1) show ?thesis by (rule slot_reachable.step)
qed

lemma do_node_reachable:
  assumes "slot_reachable r D T \<sigma>" and "seenWall \<sigma> u \<le> wall t" "nowE (wall t) \<le> int T"
  shows "slot_reachable r D T (do_node u t \<sigma>)"
  using assms slot_reachable.step [OF assms(1) slot_step.NodeMade [OF _ _ _ assms(2) order.refl assms(3)]]
  by (auto simp: do_node_def split: option.split)

lemma do_generate_reachable:
  assumes "slot_reachable r D T \<sigma>" and "seenWall \<sigma> u \<le> wall t" "nowE (wall t) \<le> int T"
  shows "slot_reachable r D T (do_generate u t \<sigma>)"
proof -
  have "slot_reachable r D T ((see u (wall t) (set_proc u (h\<lparr>hnode := Some n'\<rparr>) \<sigma>))
      \<lparr>minted := (case res of Inl _ \<Rightarrow> minted \<sigma> | Inr i \<Rightarrow> (u, i) # minted \<sigma>)\<rparr>)"
    if "procs \<sigma> u = Some h" "hnode h = Some n" "Generate n (call_at (fence h) t) = Some (res, n')" for h n res n'
    using slot_reachable.step [OF assms(1) slot_step.Generated [OF that(1,2) _ _ _ _ _ that(3)]] assms
    by (simp add: call_at_def)
  with assms(1) show ?thesis by (auto simp: do_generate_def split: option.split)
qed

lemma do_expire_reachable:
  "slot_reachable r D T \<sigma> \<Longrightarrow> slot_reachable r D T (do_expire l \<sigma>)"
  unfolding do_expire_def by (blast intro: slot_reachable.step slot_step.Expired)

section \<open>The run\<close>

definition small_options :: options where
  "small_options = \<lparr>oLeaseTTL = 0, oClusterID = 0, oClusterBits = 0, oSlotBits = 0, oMaxSlot = 1,
     oQuarantine = 0, oFenceAfter = 0\<rparr>"

definition small :: resolvedOptions where
  "small = \<lparr>ttl = 60, cluster = 0, clusterBits = ClusterBits, slotBits = SlotBits, maxSlot = 1,
     quarantine = 4 * hour, fenceAfter = 2 * hour\<rparr>"

lemma resolve_small: "resolve small_options = Some small"
  by code_simp

definition run1 where "run1 = do_claim small ''m1'' ''a'' 1 (sec_after 100) slot_init"
definition run2 where "run2 = do_advance ''a'' (sec_after 100) run1"
definition run3 where "run3 = do_node ''a'' (sec_after 101) run2"
definition run4 where "run4 = do_generate ''a'' (sec_after 103) run3"
definition run5 where "run5 = do_claim small ''m2'' ''c'' 2 (sec_after 104) run4"
definition run6 where "run6 = do_expire 1 run5"
definition run7 where "run7 = do_claim small ''m3'' ''b'' 3 (sec_after 20000) run6"
definition run8 where "run8 = do_advance ''b'' (sec_after 20000) run7"
definition run9 where "run9 = do_node ''b'' (sec_after 20001) run8"
definition run10 where "run10 = do_generate ''b'' (sec_after 20003) run9"

lemmas runs = run1_def run2_def run3_def run4_def run5_def run6_def run7_def run8_def run9_def run10_def


text \<open>What the steps leave alone: watermarks of other slots, and who was granted a lease.\<close>

definition wm_upto :: "int \<Rightarrow> slot_sys \<Rightarrow> bool" where
  "wm_upto b \<sigma> \<longleftrightarrow> (\<forall>s. uint (wm_val (store \<sigma>) s) \<le> b)"

lemma watermark_kept [simp]:
  "watermark (store (do_claim r host u l t \<sigma>)) = watermark (store \<sigma>)"
  "watermark (store (do_node u t \<sigma>)) = watermark (store \<sigma>)"
  "watermark (store (do_generate u t \<sigma>)) = watermark (store \<sigma>)"
  "watermark (store (do_expire l \<sigma>)) = watermark (store \<sigma>)"
  by (auto simp: do_claim_def claim_round_def open_handle_def put_slot_def revoke_def expire_def do_node_def do_generate_def
      do_expire_def Let_def split: option.splits prod.splits sum.splits)

lemma wm_upto_advance:
  assumes "wm_upto b \<sigma>" and "procs \<sigma> u = Some h" and "uint (guard_target t h) \<le> b"
  shows "wm_upto b (do_advance u t \<sigma>)"
proof -
  obtain okay h' st' where adv: "advanceGuard (\<lambda>_. Answered) t t h (store \<sigma>) = (okay, h', st')" by (metis prod_cases3)
  with advanceGuard_bound [OF adv _ assms(3)] assms(1,2) show ?thesis by (simp add: wm_upto_def do_advance_def)
qed

lemma granted_kept [simp]:
  "granted (do_advance u t \<sigma>) = granted \<sigma>"
  "granted (do_node u t \<sigma>) = granted \<sigma>"
  "granted (do_generate u t \<sigma>) = granted \<sigma>"
  "granted (do_expire l \<sigma>) = granted \<sigma>"
  by (auto simp: do_advance_def do_node_def do_generate_def do_expire_def split: option.splits prod.splits)

lemma granted_claim: "x \<in> ran (granted (do_claim r host u l t \<sigma>)) \<Longrightarrow> x = u \<or> x \<in> ran (granted \<sigma>)"
  by (auto simp: do_claim_def ran_def split: option.splits prod.splits sum.splits if_splits)


lemma ran_granted:
  "ran (granted run4) \<subseteq> {''a''}" "ran (granted run6) \<subseteq> {''a'', ''c''}"
proof -
  have 1: "ran (granted run1) \<subseteq> {''a''}"
    using granted_claim [of _ small "''m1''" "''a''" 1 "sec_after 100" slot_init] by (auto simp: run1_def slot_init_def)
  then show "ran (granted run4) \<subseteq> {''a''}" by (simp add: run2_def run3_def run4_def)
  then show "ran (granted run6) \<subseteq> {''a'', ''c''}"
    using granted_claim [of _ small "''m2''" "''c''" 2 "sec_after 104" run4] by (auto simp: run5_def run6_def)
qed

lemma fresh_run:
  "fresh_ids slot_init ''a'' 1" "fresh_ids run4 ''c'' 2" "fresh_ids run6 ''b'' 3"
proof -
  show "fresh_ids slot_init ''a'' 1" by (simp add: fresh_ids_def slot_init_def)
  have "granted run4 2 = None" by code_simp
  then show "fresh_ids run4 ''c'' 2" using ran_granted(1) by (auto simp: fresh_ids_def)
  have "granted run6 3 = None" by code_simp
  then show "fresh_ids run6 ''b'' 3" using ran_granted(2) by (auto simp: fresh_ids_def)
qed

lemma seen_run:
  "seenWall run1 ''a'' \<le> wall (sec_after 100)" "seenWall run2 ''a'' \<le> wall (sec_after 101)"
  "seenWall run3 ''a'' \<le> wall (sec_after 103)" "seenWall run7 ''b'' \<le> wall (sec_after 20000)"
  "seenWall run8 ''b'' \<le> wall (sec_after 20001)" "seenWall run9 ''b'' \<le> wall (sec_after 20003)"
  by code_simp+

lemma now_run: "k \<le> 30000 \<Longrightarrow> nowE (wall (sec_after k)) \<le> int 30000"
  by (simp add: nowE_def sec_after_def second_def)

definition target_upto :: "int \<Rightarrow> int \<Rightarrow> handle option \<Rightarrow> bool" where
  "target_upto b k ho = (case ho of None \<Rightarrow> False | Some h \<Rightarrow> uint (guard_target (sec_after k) h) \<le> b)"

lemma target_uptoE:
  "target_upto b k ho \<Longrightarrow> \<exists>h. ho = Some h \<and> uint (guard_target (sec_after k) h) \<le> b"
  by (simp add: target_upto_def split: option.splits)

lemma target_run:
  "target_upto 30010 100 (procs run1 ''a'')" "target_upto 30010 105 (procs run4 ''a'')"
  "target_upto 30010 20000 (procs run7 ''b'')"
  by code_simp+

lemma wm_run: "wm_upto 30010 run2" "wm_upto 30010 run4" "wm_upto 30010 run8"
proof -
  have "wm_upto 30010 run1" by (simp add: wm_upto_def run1_def slot_init_def wm_value_def)
  with target_uptoE [OF target_run(1)] wm_upto_advance show 2: "wm_upto 30010 run2" unfolding run2_def by blast
  then show "wm_upto 30010 run4" by (simp add: wm_upto_def run3_def run4_def)
  then have "wm_upto 30010 run7" by (simp add: wm_upto_def run5_def run6_def run7_def)
  with target_uptoE [OF target_run(3)] wm_upto_advance show "wm_upto 30010 run8" unfolding run8_def by blast
qed

lemma run_reachable: "slot_reachable small second 30000 run10"
proof -
  have pos: "0 \<le> second" by (simp add: second_def)
  have 1: "slot_reachable small second 30000 run1" unfolding run1_def
    by (rule do_claim_reachable [OF slot_reachable.start fresh_run(1) now_run]) simp
  have 2: "slot_reachable small second 30000 run2" using wm_run(1) unfolding run2_def wm_upto_def
    by (intro do_advance_reachable [OF 1 seen_run(1) pos now_run]) simp_all
  have 3: "slot_reachable small second 30000 run3" unfolding run3_def
    by (rule do_node_reachable [OF 2 seen_run(2) now_run]) simp
  have 4: "slot_reachable small second 30000 run4" unfolding run4_def
    by (rule do_generate_reachable [OF 3 seen_run(3) now_run]) simp
  have 5: "slot_reachable small second 30000 run5" unfolding run5_def
    by (rule do_claim_reachable [OF 4 fresh_run(2) now_run]) simp
  have 6: "slot_reachable small second 30000 run6" unfolding run6_def by (rule do_expire_reachable [OF 5])
  have 7: "slot_reachable small second 30000 run7" unfolding run7_def
    by (rule do_claim_reachable [OF 6 fresh_run(3) now_run]) simp
  have 8: "slot_reachable small second 30000 run8" using wm_run(3) unfolding run8_def wm_upto_def
    by (intro do_advance_reachable [OF 7 seen_run(4) pos now_run]) simp_all
  have 9: "slot_reachable small second 30000 run9" unfolding run9_def
    by (rule do_node_reachable [OF 8 seen_run(5) now_run]) simp
  show ?thesis unfolding run10_def by (rule do_generate_reachable [OF 9 seen_run(6) now_run]) simp
qed

section \<open>The witnesses\<close>


text \<open>A tick of the first process while everything works.\<close>

definition quiet_reclaim :: reclaim_env where
  "quiet_reclaim = \<lparr>rc_get = None, rc_alive = True, rc_grant = None, rc_txn = Unsent, rc_after = None,
     rc_stale_at = sec_after 105, rc_floor_read = False\<rparr>"


end
