(* ===== verification/IdIssuer.thy ===== *)
theory IdIssuer
  imports Prelude "HOL-Library.AList"
begin

text \<open>
  The issuer of permanent ids (\<^verbatim>\<open>src/go/data_service/internal/idissuer\<close>): it reserves blocks of counter values and cuts
  segments from them.  A reservation is written down in three records, two in the region's own etcd
  clusters and one in the global registry, each with a compare-and-swap on its revision.

  An operation of the issuer talks to stores that other processes change between any two of its calls.  It is therefore a
  value of type \<open>prog\<close>, the tree of its calls: a node is the next call with the continuation of
  the code behind it, a leaf the result.  The loop over attempts is recursion on the attempts left.
  Clock readings and fresh lineages are arguments, one per attempt.  Log output and metrics are left out.
\<close>

unbundle bit_operations_syntax

section \<open>Counter layout\<close>

type_synonym u8 = "8 word"

abbreviation (input) timeBits :: nat where "timeBits \<equiv> 33"
abbreviation (input) seqBits :: nat where "seqBits \<equiv> 24"
abbreviation (input) regionShift :: nat where "regionShift \<equiv> 57"
abbreviation (input) MaxRegion :: u8 where "MaxRegion \<equiv> 63"
abbreviation (input) DefaultBlockSize :: u64 where "DefaultBlockSize \<equiv> 4294967296"
abbreviation (input) MaxStep :: u32 where "MaxStep \<equiv> 10000000"
abbreviation (input) DefaultStep :: u32 where "DefaultStep \<equiv> 100"
abbreviation (input) epochUnix :: int where "epochUnix \<equiv> 1767225600"
abbreviation (input) reserveAttempts :: nat where "reserveAttempts \<equiv> 8"
abbreviation (input) reserveRetryBackoff :: int where "reserveRetryBackoff \<equiv> 500"
abbreviation (input) MaxNextRegion :: u32 where "MaxNextRegion \<equiv> 64"

definition valueMask :: u64 where "valueMask = push_bit regionShift 1 - 1"

section \<open>Records\<close>

datatype issuer_error =
    ErrInvalidTag | ErrUnknownTag | ErrInvalidStep | ErrCounterMissing | ErrRegistryMissing | ErrRegistryNotOpened
  | ErrRegionClaimed | ErrRegionRetired | ErrBindingMismatch | ErrRebindRequired | ErrNoTrustedBound | ErrSameCluster
  | ErrRegionMismatch | ErrExhausted | ErrContended | ErrClosed | ErrBackoff | ErrCorrupt | ErrRefusedWrite
  | ErrStore | ErrOptions | ErrAuthority

record issuer_record =
  ir_Value :: u64
  ir_Authority :: string
  ir_Revision :: nat
  ir_Exists :: bool
  ir_ClusterID :: u64

datatype claim_state = ClaimActive | ClaimRetired

record claim =
  cl_State :: claim_state
  cl_Authority :: string
  cl_PrimaryCluster :: u64
  cl_SecondaryCluster :: u64
  cl_HighWater :: u64
  cl_Blocks :: u64

text \<open>\<open>cr_Claim\<close> is \<open>None\<close> for a code without an entry; the fields of the code's zero value are then read off \<open>no_claim\<close>.\<close>

record claim_record =
  cr_Claim :: "claim option"
  cr_Revision :: nat
  cr_ClusterID :: u64

definition no_claim :: claim where
  "no_claim = \<lparr>cl_State = ClaimActive, cl_Authority = [], cl_PrimaryCluster = 0, cl_SecondaryCluster = 0,
     cl_HighWater = 0, cl_Blocks = 0\<rparr>"

definition claim_of :: "claim_record \<Rightarrow> claim" where
  "claim_of g = (case cr_Claim g of None \<Rightarrow> no_claim | Some c \<Rightarrow> c)"

abbreviation cr_Exists :: "claim_record \<Rightarrow> bool" where "cr_Exists g \<equiv> cr_Claim g \<noteq> None"
abbreviation cr_HighWater :: "claim_record \<Rightarrow> u64" where "cr_HighWater g \<equiv> cl_HighWater (claim_of g)"

definition ValidAuthority :: "string \<Rightarrow> bool" where
  "ValidAuthority a = (length a = 32 \<and> list_all (\<lambda>c. c \<in> set ''0123456789abcdef'') a)"

definition IsValidBizTag :: "string \<Rightarrow> bool" where
  "IsValidBizTag tag = (tag \<noteq> [] \<and> length tag \<le> 64
     \<and> list_all (\<lambda>c. c \<in> set ''abcdefghijklmnopqrstuvwxyz0123456789_'') tag)"

definition validClaim :: "claim \<Rightarrow> bool" where
  "validClaim c = (case cl_State c of
       ClaimActive \<Rightarrow> ValidAuthority (cl_Authority c) \<and> cl_HighWater c \<noteq> 0
     | ClaimRetired \<Rightarrow> cl_Authority c = [] \<or> ValidAuthority (cl_Authority c))"

record options =
  op_Region :: u8
  op_BlockSize :: u64
  op_AllowBootstrap :: bool
  op_Tags :: "string list"

record block =
  bk_pos :: u64
  bk_end :: u64
  bk_halfway :: u64

definition remaining :: "block \<Rightarrow> u64" where
  "remaining b = (if bk_pos b \<ge> bk_end b then 0 else bk_end b - bk_pos b)"

definition New_options :: "options \<Rightarrow> options option" where
  "New_options opt =
     (let opt = (if op_BlockSize opt = 0 then opt\<lparr>op_BlockSize := DefaultBlockSize\<rparr> else opt) in
      if op_Region opt > MaxRegion then None
      else if op_BlockSize opt \<ge> valueMask then None
      else if op_BlockSize opt < ucast MaxStep then None
      else if op_Tags opt = [] then None
      else if \<not> list_all IsValidBizTag (op_Tags opt) then None
      else Some opt)"

definition base :: "options \<Rightarrow> u64" where "base opt = push_bit regionShift (ucast (op_Region opt))"
definition limit :: "options \<Rightarrow> u64" where "limit opt = base opt + valueMask + 1"

section \<open>Calls\<close>

datatype local_role = Primary | Secondary

datatype recovery = Reregistered u64 | NothingToRepair | InitCompleted | Rebound u64

datatype outcome = Reserved block | Initialized bool | Recovered recovery | Retired bool | Opened bool

datatype prog =
    Ret "issuer_error + outcome"
  | ReadRegistry "issuer_error + claim_record \<Rightarrow> prog"
  | ReadLocal local_role "issuer_error + issuer_record \<Rightarrow> prog"
  | CasLocal local_role issuer_record u64 string "issuer_error + bool \<Rightarrow> prog"
  | CasRegistry claim_record claim "issuer_error + bool \<Rightarrow> prog"
  | ReadNext "issuer_error + (nat \<times> u32) option \<Rightarrow> prog"
  | TxnClaim nat claim "issuer_error + bool \<Rightarrow> prog"
  | ListRegions "issuer_error + nat \<times> u8 list \<Rightarrow> prog"
  | TxnOpen nat u32 "issuer_error + bool \<Rightarrow> prog"

text \<open>\<open>if err != nil { return err }\<close>.\<close>

definition prog_try :: "issuer_error + 'a \<Rightarrow> ('a \<Rightarrow> prog) \<Rightarrow> prog" where
  "prog_try r k = (case r of Inl e \<Rightarrow> Ret (Inl e) | Inr x \<Rightarrow> k x)"

text \<open>The writes check what they are about to write first (\<^verbatim>\<open>etcd_store.go\<close>).\<close>

definition CompareAndSwap :: "local_role \<Rightarrow> issuer_record \<Rightarrow> u64 \<Rightarrow> string \<Rightarrow> (issuer_error + bool \<Rightarrow> prog) \<Rightarrow> prog" where
  "CompareAndSwap role prev v authority k =
     (if v = 0 \<or> \<not> ValidAuthority authority then k (Inl ErrRefusedWrite) else CasLocal role prev v authority k)"

definition CompareAndSwap_registry :: "claim_record \<Rightarrow> claim \<Rightarrow> (issuer_error + bool \<Rightarrow> prog) \<Rightarrow> prog" where
  "CompareAndSwap_registry prev c k =
     (if \<not> validClaim c then k (Inl ErrRefusedWrite) else CasRegistry prev c k)"

text \<open>A write and what follows: an error is returned, a conflict goes to \<open>again\<close>.\<close>

definition cas_then :: "local_role \<Rightarrow> issuer_record \<Rightarrow> u64 \<Rightarrow> string \<Rightarrow> prog \<Rightarrow> prog \<Rightarrow> prog" where
  "cas_then role prev v authority again k =
     CompareAndSwap role prev v authority (\<lambda>r. prog_try r (\<lambda>ok. if ok then k else again))"

definition cas_registry_then :: "claim_record \<Rightarrow> claim \<Rightarrow> prog \<Rightarrow> prog \<Rightarrow> prog" where
  "cas_registry_then prev c again k =
     CompareAndSwap_registry prev c (\<lambda>r. prog_try r (\<lambda>ok. if ok then k else again))"

definition ClaimNew :: "u8 \<Rightarrow> claim \<Rightarrow> (issuer_error + bool \<Rightarrow> prog) \<Rightarrow> prog" where
  "ClaimNew region c k =
     (if cl_State c \<noteq> ClaimActive \<or> \<not> validClaim c then k (Inl ErrRefusedWrite)
      else ReadNext (\<lambda>r. case r of
          Inl e \<Rightarrow> k (Inl e)
        | Inr None \<Rightarrow> k (Inl ErrRegistryNotOpened)
        | Inr (Some (revision, n)) \<Rightarrow>
            if ucast region < n then k (Inl ErrRegionClaimed) else TxnClaim revision c k))"

primrec Open_from :: "u32 \<Rightarrow> nat \<Rightarrow> prog" where
  "Open_from n 0 = Ret (Inl ErrContended)"
| "Open_from n (Suc attempts) =
     ReadNext (\<lambda>r. prog_try r (\<lambda>opened.
       if opened \<noteq> None then Ret (Inr (Opened False))
       else ListRegions (\<lambda>r. prog_try r (\<lambda>(revision, codes).
         if \<exists>code \<in> set codes. ucast code \<ge> n then Ret (Inl ErrRegionClaimed)
         else TxnOpen revision n (\<lambda>r. prog_try r (\<lambda>done.
           if done then Ret (Inr (Opened True)) else Open_from n attempts))))))"

definition Open :: "u32 \<Rightarrow> prog" where
  "Open n = (if n > MaxNextRegion then Ret (Inl ErrOptions) else Open_from n reserveAttempts)"

section \<open>Reserving\<close>

record view =
  vw_p :: issuer_record
  vw_s :: issuer_record
  vw_g :: claim_record

text \<open>The registry is read first.\<close>

definition read_view :: "(view \<Rightarrow> prog) \<Rightarrow> prog" where
  "read_view k =
     ReadRegistry (\<lambda>r. prog_try r (\<lambda>g.
     ReadLocal Primary (\<lambda>r. prog_try r (\<lambda>p.
     ReadLocal Secondary (\<lambda>r. prog_try r (\<lambda>s. k \<lparr>vw_p = p, vw_s = s, vw_g = g\<rparr>))))))"

definition sameCluster :: "u64 \<Rightarrow> u64 \<Rightarrow> bool" where "sameCluster a b = (a \<noteq> 0 \<and> a = b)"

definition requireIndependent :: "options \<Rightarrow> view \<Rightarrow> issuer_error + unit" where
  "requireIndependent opt v =
     (if op_AllowBootstrap opt then Inr ()
      else if sameCluster (ir_ClusterID (vw_p v)) (ir_ClusterID (vw_s v)) then Inl ErrSameCluster
      else if sameCluster (cr_ClusterID (vw_g v)) (ir_ClusterID (vw_p v))
        \<or> sameCluster (cr_ClusterID (vw_g v)) (ir_ClusterID (vw_s v)) then Inl ErrSameCluster
      else Inr ())"

definition other_region :: "options \<Rightarrow> u64 \<Rightarrow> bool" where
  "other_region opt v = (drop_bit regionShift v \<noteq> ucast (op_Region opt))"

definition checkRegion :: "options \<Rightarrow> view \<Rightarrow> issuer_error + unit" where
  "checkRegion opt v =
     (if \<exists>r \<in> {vw_p v, vw_s v}. ir_Exists r \<and> other_region opt (ir_Value r) then Inl ErrRegionMismatch
      else if cr_Exists (vw_g v) \<and> cr_HighWater (vw_g v) \<noteq> 0 \<and> other_region opt (cr_HighWater (vw_g v))
      then Inl ErrRegionMismatch
      else Inr ())"

definition boundHere :: "options \<Rightarrow> view \<Rightarrow> bool" where
  "boundHere opt v = (op_AllowBootstrap opt
     \<or> ir_ClusterID (vw_p v) = cl_PrimaryCluster (claim_of (vw_g v))
       \<and> ir_ClusterID (vw_s v) = cl_SecondaryCluster (claim_of (vw_g v)))"

definition sameAuthority :: "view \<Rightarrow> issuer_error + unit" where
  "sameAuthority v =
     (if \<exists>r \<in> {vw_p v, vw_s v}. ir_Exists r \<and> ir_Authority r \<noteq> cl_Authority (claim_of (vw_g v))
      then Inl ErrBindingMismatch else Inr ())"

definition localAuthority :: "issuer_record \<Rightarrow> issuer_record \<Rightarrow> issuer_error + string" where
  "localAuthority p s =
     (if ir_Exists p \<and> ir_Exists s \<and> ir_Authority p \<noteq> ir_Authority s then Inl ErrBindingMismatch
      else if ir_Exists p then Inr (ir_Authority p)
      else if ir_Exists s then Inr (ir_Authority s)
      else Inr [])"

definition sum_try :: "'e + 'a \<Rightarrow> ('a \<Rightarrow> 'e + 'b) \<Rightarrow> 'e + 'b" where
  "sum_try r k = (case r of Inl e \<Rightarrow> Inl e | Inr x \<Rightarrow> k x)"

definition reservable :: "options \<Rightarrow> issuer_error + string \<Rightarrow> view \<Rightarrow> issuer_error + string" where
  "reservable opt newAuthority v =
     sum_try (requireIndependent opt v) (\<lambda>_.
     sum_try (checkRegion opt v) (\<lambda>_.
     if \<not> cr_Exists (vw_g v)
     then if \<not> op_AllowBootstrap opt then Inl ErrRegistryMissing
          else sum_try (localAuthority (vw_p v) (vw_s v)) (\<lambda>authority.
            if authority \<noteq> [] then Inr authority else newAuthority)
     else if cl_State (claim_of (vw_g v)) \<noteq> ClaimActive then Inl ErrRegionRetired
     else sum_try (sameAuthority v) (\<lambda>_.
       if \<not> boundHere opt v then Inl ErrBindingMismatch
       else if \<not> ir_Exists (vw_p v) \<and> \<not> ir_Exists (vw_s v) \<and> \<not> op_AllowBootstrap opt then Inl ErrCounterMissing
       else Inr (cl_Authority (claim_of (vw_g v))))))"

definition claimAfter :: "view \<Rightarrow> string \<Rightarrow> u64 \<Rightarrow> claim" where
  "claimAfter v authority e =
     (let c = (if cr_Exists (vw_g v) then claim_of (vw_g v)
               else no_claim\<lparr>cl_Authority := authority, cl_PrimaryCluster := ir_ClusterID (vw_p v),
                      cl_SecondaryCluster := ir_ClusterID (vw_s v)\<rparr>) in
      c\<lparr>cl_HighWater := e, cl_Blocks := cl_Blocks c + 1\<rparr>)"

definition timeFloor :: "options \<Rightarrow> int \<Rightarrow> u64" where
  "timeFloor opt now =
     (let sec = now - epochUnix in
      if sec \<le> 0 \<or> sec \<ge> 2 ^ timeBits then 0 else base opt OR push_bit seqBits (of_int sec))"

definition nextStart :: "options \<Rightarrow> int \<Rightarrow> view \<Rightarrow> u64" where
  "nextStart opt now v =
     (let start = max (max (max (ir_Value (vw_p v)) (ir_Value (vw_s v))) (cr_HighWater (vw_g v))) (base opt);
          start = (if timeFloor opt now > start then timeFloor opt now else start) in
      if start = 0 then 1 else start)"

primrec reserve_from :: "options \<Rightarrow> (nat \<Rightarrow> int) \<Rightarrow> (nat \<Rightarrow> issuer_error + string) \<Rightarrow> nat \<Rightarrow> prog" where
  "reserve_from opt now newAuthority 0 = Ret (Inl ErrContended)"
| "reserve_from opt now newAuthority (Suc n) =
     read_view (\<lambda>v.
     prog_try (reservable opt (newAuthority n) v) (\<lambda>authority.
     let again = reserve_from opt now newAuthority n;
         start = nextStart opt (now n) v;
         e = start + op_BlockSize opt;
         write =
           (if start + op_BlockSize opt \<ge> limit opt then Ret (Inl ErrExhausted)
            else
              cas_then Primary (vw_p v) e authority again (
              cas_then Secondary (vw_s v) e authority again (
              cas_registry_then (vw_g v) (claimAfter v authority e) again (
              Ret (Inr (Reserved \<lparr>bk_pos = start, bk_end = e, bk_halfway = start + op_BlockSize opt div 2\<rparr>))))))
     in if cr_Exists (vw_g v) \<and> max (ir_Value (vw_p v)) (ir_Value (vw_s v)) > cr_HighWater (vw_g v)
        then ReadRegistry (\<lambda>r. prog_try r (\<lambda>latest. if latest \<noteq> vw_g v then again else write))
        else write))"

definition reserve :: "options \<Rightarrow> (nat \<Rightarrow> int) \<Rightarrow> (nat \<Rightarrow> issuer_error + string) \<Rightarrow> prog" where
  "reserve opt now newAuthority = reserve_from opt now newAuthority reserveAttempts"

section \<open>Initialising, recovering, retiring\<close>

definition create_if_missing ::
  "local_role \<Rightarrow> issuer_record \<Rightarrow> u64 \<Rightarrow> string \<Rightarrow> prog \<Rightarrow> prog" where
  "create_if_missing role r v authority k =
     (if ir_Exists r then k
      else cas_then role r v authority (Ret (Inl ErrContended)) k)"

definition createMissing :: "view \<Rightarrow> u64 \<Rightarrow> string \<Rightarrow> prog \<Rightarrow> prog" where
  "createMissing v value authority k =
     create_if_missing Primary (vw_p v) value authority (create_if_missing Secondary (vw_s v) value authority k)"

primrec Init_from :: "options \<Rightarrow> (nat \<Rightarrow> issuer_error + string) \<Rightarrow> nat \<Rightarrow> prog" where
  "Init_from opt newAuthority 0 = Ret (Inl ErrContended)"
| "Init_from opt newAuthority (Suc n) =
     read_view (\<lambda>v.
     prog_try (requireIndependent opt v) (\<lambda>_.
     prog_try (checkRegion opt v) (\<lambda>_.
     if \<not> cr_Exists (vw_g v)
     then if ir_Exists (vw_p v) \<or> ir_Exists (vw_s v) then Ret (Inl ErrRegistryMissing)
          else prog_try (newAuthority n) (\<lambda>authority.
            let c = \<lparr>cl_State = ClaimActive, cl_Authority = authority, cl_PrimaryCluster = ir_ClusterID (vw_p v),
                     cl_SecondaryCluster = ir_ClusterID (vw_s v), cl_HighWater = base opt OR 1, cl_Blocks = 0\<rparr> in
            ClaimNew (op_Region opt) c (\<lambda>r. prog_try r (\<lambda>ok.
              if \<not> ok then Init_from opt newAuthority n
              else createMissing v (cl_HighWater c) authority (Ret (Inr (Initialized True))))))
     else if cl_State (claim_of (vw_g v)) \<noteq> ClaimActive then Ret (Inl ErrRegionRetired)
     else if sameAuthority v \<noteq> Inr () then Ret (Inl ErrRegionClaimed)
     else if \<not> boundHere opt v then Ret (Inl ErrRegionClaimed)
     else if ir_Exists (vw_p v) \<and> ir_Exists (vw_s v) then Ret (Inr (Initialized False))
     else if cl_Blocks (claim_of (vw_g v)) \<noteq> 0
     then if \<not> ir_Exists (vw_p v) \<and> \<not> ir_Exists (vw_s v) then Ret (Inl ErrCounterMissing)
          else Ret (Inr (Initialized False))
     else createMissing v (cr_HighWater (vw_g v)) (cl_Authority (claim_of (vw_g v))) (Ret (Inr (Initialized True))))))"

definition Init :: "options \<Rightarrow> (nat \<Rightarrow> issuer_error + string) \<Rightarrow> prog" where
  "Init opt newAuthority = Init_from opt newAuthority reserveAttempts"

primrec Recover_from :: "options \<Rightarrow> bool \<Rightarrow> nat \<Rightarrow> prog" where
  "Recover_from opt rebind 0 = Ret (Inl ErrContended)"
| "Recover_from opt rebind (Suc n) =
     read_view (\<lambda>v.
     prog_try (requireIndependent opt v) (\<lambda>_.
     prog_try (checkRegion opt v) (\<lambda>_.
     if \<not> cr_Exists (vw_g v)
     then prog_try (localAuthority (vw_p v) (vw_s v)) (\<lambda>authority.
       if authority = [] then Ret (Inl ErrNoTrustedBound)
       else
         let c = \<lparr>cl_State = ClaimActive, cl_Authority = authority, cl_PrimaryCluster = ir_ClusterID (vw_p v),
                  cl_SecondaryCluster = ir_ClusterID (vw_s v),
                  cl_HighWater = max (ir_Value (vw_p v)) (ir_Value (vw_s v)), cl_Blocks = 1\<rparr> in
         cas_registry_then (vw_g v) c (Recover_from opt rebind n) (Ret (Inr (Recovered (Reregistered (cl_HighWater c))))))
     else if cl_State (claim_of (vw_g v)) \<noteq> ClaimActive then Ret (Inl ErrRegionRetired)
     else prog_try (sameAuthority v) (\<lambda>_.
       let old = claim_of (vw_g v);
           bothMissing = (\<not> ir_Exists (vw_p v) \<and> \<not> ir_Exists (vw_s v));
           bound = boundHere opt v in
       if bound \<and> \<not> bothMissing then Ret (Inr (Recovered NothingToRepair))
       else if bound \<and> cl_Blocks old = 0
       then createMissing v (cl_HighWater old) (cl_Authority old) (Ret (Inr (Recovered InitCompleted)))
       else if \<not> rebind then Ret (Inl ErrRebindRequired)
       else
         let c = old\<lparr>cl_PrimaryCluster := ir_ClusterID (vw_p v), cl_SecondaryCluster := ir_ClusterID (vw_s v),
                    cl_HighWater := max (max (cl_HighWater old) (ir_Value (vw_p v))) (ir_Value (vw_s v))\<rparr>;
             create = createMissing v (cl_HighWater c) (cl_Authority c) (Ret (Inr (Recovered (Rebound (cl_HighWater c))))) in
         if c \<noteq> old
         then cas_registry_then (vw_g v) c (Recover_from opt rebind n) create
         else create))))"

definition Recover :: "options \<Rightarrow> bool \<Rightarrow> prog" where
  "Recover opt rebind = Recover_from opt rebind reserveAttempts"

primrec Retire_from :: "nat \<Rightarrow> prog" where
  "Retire_from 0 = Ret (Inl ErrContended)"
| "Retire_from (Suc n) =
     ReadRegistry (\<lambda>r. prog_try r (\<lambda>g.
       if cr_Exists g \<and> cl_State (claim_of g) = ClaimRetired then Ret (Inr (Retired False))
       else cas_registry_then g ((claim_of g)\<lparr>cl_State := ClaimRetired\<rparr>) (Retire_from n) (Ret (Inr (Retired True)))))"

definition Retire :: prog where "Retire = Retire_from reserveAttempts"

definition OpenRegistry :: "u32 \<Rightarrow> prog" where
  "OpenRegistry n = (if n > MaxNextRegion then Ret (Inl ErrOptions) else Open n)"

section \<open>Cutting segments\<close>

record issuer =
  is_cur :: block
  is_next :: "block option"
  is_inflight :: bool
  is_notBefore :: int
  is_closed :: bool

definition no_block :: block where "no_block = \<lparr>bk_pos = 0, bk_end = 0, bk_halfway = 0\<rparr>"

definition New :: issuer where
  "New = \<lparr>is_cur = no_block, is_next = None, is_inflight = False, is_notBefore = 0, is_closed = False\<rparr>"

text \<open>Whether there is a reservation to wait for, and the new state.\<close>

definition startReservationLocked :: "int \<Rightarrow> issuer \<Rightarrow> bool \<times> issuer" where
  "startReservationLocked monoNow i =
     (if is_inflight i then (True, i)
      else if monoNow < is_notBefore i then (False, i)
      else (True, i\<lparr>is_inflight := True\<rparr>))"

text \<open>What one pass under the lock ends with: a segment, an error, or waiting for the reservation in flight,
  after which the caller comes back.\<close>

datatype allocation = Segment u64 u64 | AllocateError issuer_error | AwaitReservation

function Allocate_locked :: "int \<Rightarrow> u32 \<Rightarrow> issuer \<Rightarrow> allocation \<times> issuer" where
  "Allocate_locked monoNow step i =
     (if is_closed i then (AllocateError ErrClosed, i)
      else if remaining (is_cur i) > 0
      then (let lo = bk_pos (is_cur i);
                hi = min (lo + ucast step) (bk_end (is_cur i));
                i1 = i\<lparr>is_cur := (is_cur i)\<lparr>bk_pos := hi\<rparr>\<rparr>;
                i2 = (if hi \<ge> bk_halfway (is_cur i) \<and> is_next i = None
                      then snd (startReservationLocked monoNow i1) else i1)
            in (Segment lo hi, i2))
      else (case is_next i of
          Some b \<Rightarrow> Allocate_locked monoNow step (i\<lparr>is_cur := b, is_next := None\<rparr>)
        | None \<Rightarrow>
            (case startReservationLocked monoNow i of
               (False, i1) \<Rightarrow> (AllocateError ErrBackoff, i1)
             | (True, i1) \<Rightarrow> (AwaitReservation, i1))))"
  by auto
termination by (relation "measure (\<lambda>(monoNow, step, i). case is_next i of None \<Rightarrow> 0 | Some _ \<Rightarrow> 1)") auto

declare Allocate_locked.simps [simp del]

definition Allocate :: "options \<Rightarrow> int \<Rightarrow> string \<Rightarrow> u32 \<Rightarrow> issuer \<Rightarrow> allocation \<times> issuer" where
  "Allocate opt monoNow bizTag step i =
     (if \<not> IsValidBizTag bizTag then (AllocateError ErrInvalidTag, i)
      else if bizTag \<notin> set (op_Tags opt) then (AllocateError ErrUnknownTag, i)
      else if step > MaxStep then (AllocateError ErrInvalidStep, i)
      else Allocate_locked monoNow (if step = 0 then DefaultStep else step) i)"

definition reservation_done :: "int \<Rightarrow> issuer_error + outcome \<Rightarrow> issuer \<Rightarrow> issuer" where
  "reservation_done monoNow r i0 =
     (let i = i0\<lparr>is_inflight := False\<rparr> in
      case r of
        Inr (Reserved b) \<Rightarrow>
          if remaining (is_cur i) = 0 \<and> is_next i = None then i\<lparr>is_cur := b\<rparr> else i\<lparr>is_next := Some b\<rparr>
      | _ \<Rightarrow> i\<lparr>is_notBefore := monoNow + reserveRetryBackoff\<rparr>)"

definition Close_issuer :: "issuer \<Rightarrow> issuer" where "Close_issuer i = i\<lparr>is_closed := True\<rparr>"

section \<open>The stores\<close>

record local_etcd =
  le_cluster :: u64
  le_rev :: nat
  le_kv :: "(nat \<times> u64 \<times> string) option"

record registry_etcd =
  re_cluster :: u64
  re_rev :: nat
  re_claims :: "(u8 \<times> nat \<times> claim) list"
  re_next :: "(nat \<times> u32) option"

definition Read_local :: "local_etcd \<Rightarrow> issuer_error + issuer_record" where
  "Read_local e =
     (case le_kv e of
        None \<Rightarrow> Inr \<lparr>ir_Value = 0, ir_Authority = [], ir_Revision = 0, ir_Exists = False, ir_ClusterID = le_cluster e\<rparr>
      | Some (r, v, authority) \<Rightarrow>
          if v = 0 \<or> \<not> ValidAuthority authority then Inl ErrCorrupt
          else Inr \<lparr>ir_Value = v, ir_Authority = authority, ir_Revision = r, ir_Exists = True, ir_ClusterID = le_cluster e\<rparr>)"

definition Read_registry :: "registry_etcd \<Rightarrow> u8 \<Rightarrow> issuer_error + claim_record" where
  "Read_registry e region =
     (case map_of (re_claims e) region of
        None \<Rightarrow> Inr \<lparr>cr_Claim = None, cr_Revision = 0, cr_ClusterID = re_cluster e\<rparr>
      | Some (r, c) \<Rightarrow>
          if \<not> validClaim c then Inl ErrCorrupt
          else Inr \<lparr>cr_Claim = Some c, cr_Revision = r, cr_ClusterID = re_cluster e\<rparr>)"

text \<open>\<open>casKey\<close>: an existing key is compared by its revision, a missing one must still be missing.\<close>

definition casKey :: "bool \<Rightarrow> nat \<Rightarrow> nat option \<Rightarrow> bool" where
  "casKey exists revision current = (if exists then current = Some revision else current = None)"

definition cas_local :: "issuer_record \<Rightarrow> u64 \<Rightarrow> string \<Rightarrow> local_etcd \<Rightarrow> bool \<times> local_etcd" where
  "cas_local prev v authority e =
     (if casKey (ir_Exists prev) (ir_Revision prev) (map_option fst (le_kv e))
      then (True, e\<lparr>le_rev := le_rev e + 1, le_kv := Some (le_rev e + 1, v, authority)\<rparr>)
      else (False, e))"

definition put_claim :: "u8 \<Rightarrow> claim \<Rightarrow> registry_etcd \<Rightarrow> registry_etcd" where
  "put_claim region c e =
     e\<lparr>re_rev := re_rev e + 1, re_claims := AList.update region (re_rev e + 1, c) (re_claims e)\<rparr>"

definition cas_registry :: "u8 \<Rightarrow> claim_record \<Rightarrow> claim \<Rightarrow> registry_etcd \<Rightarrow> bool \<times> registry_etcd" where
  "cas_registry region prev c e =
     (if casKey (cr_Exists prev) (cr_Revision prev) (map_option fst (map_of (re_claims e) region))
      then (True, put_claim region c e) else (False, e))"

definition readNext :: "registry_etcd \<Rightarrow> issuer_error + (nat \<times> u32) option" where
  "readNext e = (case re_next e of
       None \<Rightarrow> Inr None | Some (r, n) \<Rightarrow> if n > MaxNextRegion then Inl ErrCorrupt else Inr (Some (r, n)))"

definition txn_claim :: "u8 \<Rightarrow> nat \<Rightarrow> claim \<Rightarrow> registry_etcd \<Rightarrow> bool \<times> registry_etcd" where
  "txn_claim region revision c e =
     (if map_option fst (re_next e) = Some revision \<and> map_of (re_claims e) region = None
      then (True, (put_claim region c e)\<lparr>re_next := Some (re_rev e + 1, ucast region + 1)\<rparr>)
      else (False, e))"

definition list_regions :: "registry_etcd \<Rightarrow> nat \<times> u8 list" where
  "list_regions e = (re_rev e, map fst (re_claims e))"

definition txn_open :: "nat \<Rightarrow> u32 \<Rightarrow> registry_etcd \<Rightarrow> bool \<times> registry_etcd" where
  "txn_open revision n e =
     (if re_next e = None \<and> (\<forall>r \<in> set (re_claims e). fst (snd r) < revision + 1)
      then (True, e\<lparr>re_rev := re_rev e + 1, re_next := Some (re_rev e + 1, n)\<rparr>)
      else (False, e))"

end
