(* ===== verification/IdSystem.thy ===== *)
theory IdSystem
  imports IdIssuer
begin

text \<open>
  All issuers and operators' commands of all regions at once, over shared stores that can fail and lose data.  Each
  call of a running program is one step; its answer may be lost after it took effect.  A fault puts anything a
  store could hold in the place of its contents: an older backup, nothing, another cluster.

  \<open>iw_intact\<close> names, per region, stores that have lost nothing since some moment at which no operation of
  the region was running and they covered every block granted.  The only assumption on faults is that one such
  store is left; when operations have drained, every covering store counts as intact again.
\<close>

section \<open>Processes and stores\<close>

record proc_config =
  pc_opt :: options
  pc_primary :: nat
  pc_secondary :: nat

datatype store_ref = Local nat | Global

record issuer_world =
  iw_local :: "nat \<Rightarrow> local_etcd"
  iw_registry :: registry_etcd
  iw_prog :: "nat \<Rightarrow> prog option"
  iw_mem :: "nat \<Rightarrow> issuer"
  iw_granted :: "(u8 \<times> u64 \<times> u64) list"
  iw_segments :: "(u64 \<times> u64) list"
  iw_intact :: "u8 \<Rightarrow> store_ref set"

definition store_id :: "proc_config \<Rightarrow> local_role \<Rightarrow> nat" where
  "store_id c role = (case role of Primary \<Rightarrow> pc_primary c | Secondary \<Rightarrow> pc_secondary c)"

abbreviation region_of :: "proc_config \<Rightarrow> u8" where "region_of c \<equiv> op_Region (pc_opt c)"

text \<open>One call against the stores, answered.\<close>

fun perform :: "proc_config \<Rightarrow> prog \<Rightarrow> issuer_world \<Rightarrow> prog \<times> issuer_world" where
  "perform c (Ret r) w = (Ret r, w)"
| "perform c (ReadRegistry k) w = (k (Read_registry (iw_registry w) (region_of c)), w)"
| "perform c (ReadLocal role k) w = (k (Read_local (iw_local w (store_id c role))), w)"
| "perform c (CasLocal role prev v authority k) w =
     (let r = cas_local prev v authority (iw_local w (store_id c role)) in
      (k (Inr (fst r)), w\<lparr>iw_local := (iw_local w)(store_id c role := snd r)\<rparr>))"
| "perform c (CasRegistry prev cl k) w =
     (let r = cas_registry (region_of c) prev cl (iw_registry w) in (k (Inr (fst r)), w\<lparr>iw_registry := snd r\<rparr>))"
| "perform c (ReadNext k) w = (k (readNext (iw_registry w)), w)"
| "perform c (TxnClaim revision cl k) w =
     (let r = txn_claim (region_of c) revision cl (iw_registry w) in (k (Inr (fst r)), w\<lparr>iw_registry := snd r\<rparr>))"
| "perform c (ListRegions k) w = (k (Inr (list_regions (iw_registry w))), w)"
| "perform c (TxnOpen revision n k) w =
     (let r = txn_open revision n (iw_registry w) in (k (Inr (fst r)), w\<lparr>iw_registry := snd r\<rparr>))"

text \<open>A call whose answer is an error.\<close>

fun answer_error :: "issuer_error \<Rightarrow> prog \<Rightarrow> prog" where
  "answer_error e (Ret r) = Ret r"
| "answer_error e (ReadRegistry k) = k (Inl e)"
| "answer_error e (ReadLocal role k) = k (Inl e)"
| "answer_error e (CasLocal role prev v authority k) = k (Inl e)"
| "answer_error e (CasRegistry prev cl k) = k (Inl e)"
| "answer_error e (ReadNext k) = k (Inl e)"
| "answer_error e (TxnClaim revision cl k) = k (Inl e)"
| "answer_error e (ListRegions k) = k (Inl e)"
| "answer_error e (TxnOpen revision n k) = k (Inl e)"

text \<open>Operators' commands; none of them grants a block.\<close>

definition commands :: "options \<Rightarrow> prog set" where
  "commands opt = range (Init opt) \<union> range (Recover opt) \<union> {Retire} \<union> range OpenRegistry"

section \<open>What a region relies on\<close>

type_synonym cell = "nat \<times> (nat \<times> u64) option"

definition cell_at :: "issuer_world \<Rightarrow> u8 \<Rightarrow> store_ref \<Rightarrow> cell" where
  "cell_at w region R = (case R of
       Local n \<Rightarrow> (le_rev (iw_local w n), map_option (\<lambda>(r, v, _). (r, v)) (le_kv (iw_local w n)))
     | Global \<Rightarrow> (re_rev (iw_registry w), map_option (\<lambda>(r, c). (r, cl_HighWater c)) (map_of (re_claims (iw_registry w)) region)))"

definition cell_value :: "cell \<Rightarrow> u64" where
  "cell_value cell = (case snd cell of None \<Rightarrow> 0 | Some (_, v) \<Rightarrow> v)"

definition wf_cell :: "cell \<Rightarrow> bool" where
  "wf_cell cell = (case snd cell of None \<Rightarrow> True | Some (r, _) \<Rightarrow> r \<le> fst cell)"

definition wf_local :: "local_etcd \<Rightarrow> bool" where
  "wf_local e = (case le_kv e of None \<Rightarrow> True | Some (r, _) \<Rightarrow> r \<le> le_rev e)"

definition wf_registry :: "registry_etcd \<Rightarrow> bool" where
  "wf_registry e = (\<forall>(_, r, _) \<in> set (re_claims e). r \<le> re_rev e)"

text \<open>Every process of the region writes the store.\<close>

definition shared_by :: "(nat \<Rightarrow> proc_config) \<Rightarrow> u8 \<Rightarrow> store_ref \<Rightarrow> bool" where
  "shared_by cfg region R = (case R of
       Global \<Rightarrow> True
     | Local n \<Rightarrow> (\<exists>i. region_of (cfg i) = region)
         \<and> (\<forall>i. region_of (cfg i) = region \<longrightarrow> n \<in> {pc_primary (cfg i), pc_secondary (cfg i)}))"

definition covers :: "issuer_world \<Rightarrow> u8 \<Rightarrow> store_ref \<Rightarrow> bool" where
  "covers w region R = (\<forall>(rg, lo, hi) \<in> set (iw_granted w). rg = region \<longrightarrow> hi \<le> cell_value (cell_at w region R))"

text \<open>Regions do not share local stores.\<close>

definition apart :: "(nat \<Rightarrow> proc_config) \<Rightarrow> bool" where
  "apart cfg = (\<forall>i j role role'. store_id (cfg i) role = store_id (cfg j) role' \<longrightarrow> region_of (cfg i) = region_of (cfg j))"

definition built :: "options \<Rightarrow> bool" where "built opt = (New_options opt = Some opt)"

section \<open>Steps\<close>

inductive issuer_step :: "(nat \<Rightarrow> proc_config) \<Rightarrow> issuer_world \<Rightarrow> issuer_world \<Rightarrow> bool" for cfg where
  call: "iw_prog w i = Some p \<Longrightarrow> perform (cfg i) p w = (p', w')
    \<Longrightarrow> issuer_step cfg w (w'\<lparr>iw_prog := (iw_prog w)(i \<mapsto> p')\<rparr>)"
| failed: "iw_prog w i = Some p
    \<Longrightarrow> issuer_step cfg w (w\<lparr>iw_prog := (iw_prog w)(i \<mapsto> answer_error e p)\<rparr>)"
| unknown: "iw_prog w i = Some p \<Longrightarrow> perform (cfg i) p w = (p', w')
    \<Longrightarrow> issuer_step cfg w (w'\<lparr>iw_prog := (iw_prog w)(i \<mapsto> answer_error e p)\<rparr>)"
| allocate: "Allocate (pc_opt (cfg i)) monoNow bizTag step (iw_mem w i) = (a, m)
    \<Longrightarrow> started = (is_inflight m \<and> \<not> is_inflight (iw_mem w i)) \<Longrightarrow> started \<longrightarrow> iw_prog w i = None
    \<Longrightarrow> issuer_step cfg w (w\<lparr>iw_mem := (iw_mem w)(i := m),
          iw_prog := (if started then (iw_prog w)(i \<mapsto> reserve (pc_opt (cfg i)) now newAuthority) else iw_prog w),
          iw_segments := iw_segments w @ (case a of Segment lo hi \<Rightarrow> [(lo, hi)] | _ \<Rightarrow> [])\<rparr>)"
| reserved: "iw_prog w i = Some (Ret r) \<Longrightarrow> is_inflight (iw_mem w i)
    \<Longrightarrow> issuer_step cfg w (w\<lparr>iw_mem := (iw_mem w)(i := reservation_done monoNow r (iw_mem w i)),
          iw_prog := (iw_prog w)(i := None),
          iw_granted := iw_granted w @ (case r of Inr (Reserved b) \<Rightarrow> [(region_of (cfg i), bk_pos b, bk_end b)] | _ \<Rightarrow> [])\<rparr>)"
| operate: "iw_prog w i = None \<Longrightarrow> \<not> is_inflight (iw_mem w i) \<Longrightarrow> p \<in> commands (pc_opt (cfg i))
    \<Longrightarrow> issuer_step cfg w (w\<lparr>iw_prog := (iw_prog w)(i \<mapsto> p)\<rparr>)"
| operated: "iw_prog w i = Some (Ret r) \<Longrightarrow> \<not> is_inflight (iw_mem w i)
    \<Longrightarrow> issuer_step cfg w (w\<lparr>iw_prog := (iw_prog w)(i := None)\<rparr>)"
| close: "issuer_step cfg w (w\<lparr>iw_mem := (iw_mem w)(i := Close_issuer (iw_mem w i))\<rparr>)"
| crash: "issuer_step cfg w (w\<lparr>iw_mem := (iw_mem w)(i := New), iw_prog := (iw_prog w)(i := None)\<rparr>)"
| fault_local: "wf_local e \<Longrightarrow> (\<forall>rg. iw_intact w rg - {Local n} \<noteq> {})
    \<Longrightarrow> issuer_step cfg w (w\<lparr>iw_local := (iw_local w)(n := e), iw_intact := (\<lambda>rg. iw_intact w rg - {Local n})\<rparr>)"
| fault_registry: "wf_registry e \<Longrightarrow> (\<forall>rg. iw_intact w rg - {Global} \<noteq> {})
    \<Longrightarrow> issuer_step cfg w (w\<lparr>iw_registry := e, iw_intact := (\<lambda>rg. iw_intact w rg - {Global})\<rparr>)"
| settle: "(\<forall>i. region_of (cfg i) = rg \<longrightarrow> iw_prog w i = None) \<Longrightarrow> S \<noteq> {}
    \<Longrightarrow> (\<forall>R \<in> S. shared_by cfg rg R \<and> covers w rg R)
    \<Longrightarrow> issuer_step cfg w (w\<lparr>iw_intact := (iw_intact w)(rg := S)\<rparr>)"

definition issuer_start :: "(nat \<Rightarrow> proc_config) \<Rightarrow> issuer_world \<Rightarrow> bool" where
  "issuer_start cfg w = ((\<forall>n. wf_local (iw_local w n)) \<and> wf_registry (iw_registry w)
     \<and> (\<forall>i. iw_prog w i = None \<and> iw_mem w i = New) \<and> iw_granted w = [] \<and> iw_segments w = []
     \<and> (\<forall>rg. iw_intact w rg \<noteq> {} \<and> (\<forall>R \<in> iw_intact w rg. shared_by cfg rg R)))"

definition issuer_reachable :: "(nat \<Rightarrow> proc_config) \<Rightarrow> issuer_world \<Rightarrow> bool" where
  "issuer_reachable cfg w = (\<exists>w0. issuer_start cfg w0 \<and> (issuer_step cfg)\<^sup>*\<^sup>* w0 w)"

section \<open>Programs that keep to the protocol\<close>

text \<open>A block: not empty, not from 0, and all of it inside the region.\<close>

definition region_block :: "u8 \<Rightarrow> u64 \<Rightarrow> u64 \<Rightarrow> bool" where
  "region_block rg lo hi \<longleftrightarrow> 0 < lo \<and> lo < hi \<and> unat rg * 2 ^ 57 \<le> unat lo \<and> unat hi \<le> (unat rg + 1) * 2 ^ 57
     \<and> unat hi \<le> 2 ^ 63"

text \<open>A reading is the revision a later compare-and-swap will compare and the value read.  A program is safe for a store
  when it only ever raises it, from a value it read, and grants a block of its region only after it raised the store
  from at most the start of the block to its end.\<close>

type_synonym reading = "nat option \<times> u64"

definition local_reading :: "issuer_record \<Rightarrow> reading" where
  "local_reading r = (if ir_Exists r then Some (ir_Revision r) else None, ir_Value r)"

definition claim_reading :: "claim_record \<Rightarrow> reading" where
  "claim_reading g = (if cr_Exists g then Some (cr_Revision g) else None, cr_HighWater g)"

primrec safe :: "store_ref \<Rightarrow> proc_config \<Rightarrow> prog \<Rightarrow> reading set \<Rightarrow> (u64 \<times> u64) option \<Rightarrow> bool" where
  "safe R c (Ret r) rd h = (\<forall>b. r = Inr (Reserved b) \<longrightarrow>
     h = Some (bk_pos b, bk_end b) \<and> region_block (region_of c) (bk_pos b) (bk_end b))"
| "safe R c (ReadRegistry k) rd h =
     (\<forall>x. safe R c (k x) (case x of Inr g \<Rightarrow> if R = Global then insert (claim_reading g) rd else rd | Inl _ \<Rightarrow> rd) h)"
| "safe R c (ReadLocal role k) rd h =
     (\<forall>x. (\<forall>r. x = Inr r \<longrightarrow> \<not> ir_Exists r \<longrightarrow> ir_Value r = 0) \<longrightarrow>
        safe R c (k x) (case x of Inr r \<Rightarrow> if R = Local (store_id c role) then insert (local_reading r) rd else rd | Inl _ \<Rightarrow> rd) h)"
| "safe R c (CasLocal role prev v a k) rd h =
     (if R = Local (store_id c role)
      then local_reading prev \<in> rd \<and> ir_Value prev \<le> v \<and> (\<forall>x. x \<noteq> Inr True \<longrightarrow> safe R c (k x) rd h)
        \<and> (\<exists>lo. ir_Value prev \<le> lo \<and> safe R c (k (Inr True)) rd (Some (lo, v)))
      else (\<forall>x. safe R c (k x) rd h))"
| "safe R c (CasRegistry prev cl k) rd h =
     (if R = Global
      then claim_reading prev \<in> rd \<and> cr_HighWater prev \<le> cl_HighWater cl \<and> (\<forall>x. x \<noteq> Inr True \<longrightarrow> safe R c (k x) rd h)
        \<and> (\<exists>lo. cr_HighWater prev \<le> lo \<and> safe R c (k (Inr True)) rd (Some (lo, cl_HighWater cl)))
      else (\<forall>x. safe R c (k x) rd h))"
| "safe R c (ReadNext k) rd h = (\<forall>x. safe R c (k x) rd h)"
| "safe R c (TxnClaim revision cl k) rd h = (\<forall>x. safe R c (k x) rd h)"
| "safe R c (ListRegions k) rd h = (\<forall>x. safe R c (k x) rd h)"
| "safe R c (TxnOpen revision n k) rd h = (\<forall>x. safe R c (k x) rd h)"

end
