(* ===== verification/IdSafe.thy ===== *)
theory IdSafe
  imports IdSystem
begin

text \<open>
  Every operation of the issuer is shown safe for every store it shares, and a call of a safe program to only raise the
  cell of the store, whatever the program is.
\<close>

section \<open>The operations are safe\<close>

definition of_role :: "local_role \<Rightarrow> view \<Rightarrow> issuer_record" where
  "of_role role v = (case role of Primary \<Rightarrow> vw_p v | Secondary \<Rightarrow> vw_s v)"

text \<open>What a view tells about the store \<open>R\<close> is among the readings.\<close>

definition seen :: "store_ref \<Rightarrow> proc_config \<Rightarrow> view \<Rightarrow> reading set \<Rightarrow> bool" where
  "seen R c v rd \<longleftrightarrow> (R = Global \<longrightarrow> claim_reading (vw_g v) \<in> rd)
     \<and> (\<forall>role. (R = Local (store_id c role) \<longrightarrow> local_reading (of_role role v) \<in> rd)
          \<and> (\<not> ir_Exists (of_role role v) \<longrightarrow> ir_Value (of_role role v) = 0))"

lemma seen_mono: "seen R c v rd \<Longrightarrow> rd \<subseteq> rd' \<Longrightarrow> seen R c v rd'"
  by (auto simp: seen_def)

lemma seen_missing: "seen R c v rd \<Longrightarrow> \<not> ir_Exists (vw_p v) \<Longrightarrow> ir_Value (vw_p v) = 0"
  "seen R c v rd \<Longrightarrow> \<not> ir_Exists (vw_s v) \<Longrightarrow> ir_Value (vw_s v) = 0"
  by (auto simp: seen_def of_role_def dest: spec [of _ Primary] spec [of _ Secondary])

lemma safe_prog_try [simp]: "safe R c (prog_try r k) rd h \<longleftrightarrow> (\<forall>x. r = Inr x \<longrightarrow> safe R c (k x) rd h)"
  by (cases r) (auto simp: prog_try_def)

lemma safe_ReadRegistry_try:
  assumes "\<And>g rd'. rd \<subseteq> rd' \<Longrightarrow> (R = Global \<Longrightarrow> claim_reading g \<in> rd') \<Longrightarrow> safe R c (k g) rd' h"
  shows "safe R c (ReadRegistry (\<lambda>r. prog_try r k)) rd h"
proof -
  have "safe R c (k g) (if R = Global then insert (claim_reading g) rd else rd) h" for g
    by (rule assms) auto
  then show ?thesis by simp
qed

lemma safe_ReadLocal_try:
  assumes "\<And>r rd'. rd \<subseteq> rd' \<Longrightarrow> (R = Local (store_id c role) \<Longrightarrow> local_reading r \<in> rd') \<Longrightarrow>
      (\<not> ir_Exists r \<Longrightarrow> ir_Value r = 0) \<Longrightarrow> safe R c (k r) rd' h"
  shows "safe R c (ReadLocal role (\<lambda>r. prog_try r k)) rd h"
proof -
  have "safe R c (k r) (if R = Local (store_id c role) then insert (local_reading r) rd else rd) h"
    if "\<not> ir_Exists r \<longrightarrow> ir_Value r = 0" for r
    by (rule assms) (use that in auto)
  then show ?thesis by simp
qed

lemma safe_read_view:
  assumes "\<And>v rd'. rd \<subseteq> rd' \<Longrightarrow> seen R c v rd' \<Longrightarrow> safe R c (k v) rd' h"
  shows "safe R c (read_view k) rd h"
  unfolding read_view_def
proof (rule safe_ReadRegistry_try, rule safe_ReadLocal_try, rule safe_ReadLocal_try, goal_cases)
  case (1 g rd1 p rd2 s rd3)
  then show ?case by (intro assms) (auto simp: seen_def of_role_def split: local_role.split)
qed

lemma safe_cas_then:
  assumes "seen R c v rd" and "ir_Value (of_role role v) \<le> e" and again: "safe R c again rd h"
    and ok: "safe R c k rd (if R = Local (store_id c role) then Some (lo, e) else h)"
    and "ir_Value (of_role role v) \<le> lo"
  shows "safe R c (cas_then role (of_role role v) e a again k) rd h"
proof (cases "R = Local (store_id c role)")
  case True
  with assms show ?thesis by (auto simp: cas_then_def CompareAndSwap_def seen_def)
next
  case False
  with again ok show ?thesis by (simp add: cas_then_def CompareAndSwap_def)
qed

lemma safe_cas_registry_then:
  assumes "R = Global \<Longrightarrow> claim_reading g \<in> rd" and "cr_HighWater g \<le> cl_HighWater cl" and again: "safe R c again rd h"
    and ok: "safe R c k rd (if R = Global then Some (lo, cl_HighWater cl) else h)" and "cr_HighWater g \<le> lo"
  shows "safe R c (cas_registry_then g cl again k) rd h"
proof (cases "R = Global")
  case True
  with assms show ?thesis by (auto simp: cas_registry_then_def CompareAndSwap_registry_def)
next
  case False
  with again ok show ?thesis by (simp add: cas_registry_then_def CompareAndSwap_registry_def)
qed

lemma safe_ifI: "(b \<Longrightarrow> safe R c p rd h) \<Longrightarrow> (\<not> b \<Longrightarrow> safe R c q rd h) \<Longrightarrow> safe R c (if b then p else q) rd h"
  by simp

lemma safe_tryI: "(\<And>x. r = Inr x \<Longrightarrow> safe R c (k x) rd h) \<Longrightarrow> safe R c (prog_try r k) rd h"
  by simp

text \<open>The last write of a command, after which nothing is granted.\<close>

lemma safe_cas_registry_any:
  assumes "R = Global \<Longrightarrow> claim_reading g \<in> rd" and "cr_HighWater g \<le> cl_HighWater cl" and "safe R c again rd h"
    and "\<And>h. safe R c k rd h"
  shows "safe R c (cas_registry_then g cl again k) rd h"
  using assms by (intro safe_cas_registry_then [where lo = "cr_HighWater g"]) auto

lemma of_role_simps [simp]: "of_role Primary v = vw_p v" "of_role Secondary v = vw_s v"
  by (simp_all add: of_role_def)

lemmas safe_cas_primary = safe_cas_then [where role = Primary, simplified]
  and safe_cas_secondary = safe_cas_then [where role = Secondary, simplified]

lemma nextStart_ge:
  "ir_Value (vw_p v) \<le> nextStart opt now v" "ir_Value (vw_s v) \<le> nextStart opt now v"
  "cr_HighWater (vw_g v) \<le> nextStart opt now v" "base opt \<le> nextStart opt now v" "nextStart opt now v \<noteq> 0"
proof -
  define m where "m = max (max (max (ir_Value (vw_p v)) (ir_Value (vw_s v))) (cr_HighWater (vw_g v))) (base opt)"
  have m: "ir_Value (vw_p v) \<le> m" "ir_Value (vw_s v) \<le> m" "cr_HighWater (vw_g v) \<le> m" "base opt \<le> m"
    by (simp_all add: m_def max.coboundedI1)
  have "m \<le> nextStart opt now v" unfolding nextStart_def m_def [symmetric] Let_def
    by (auto simp: order.strict_implies_order)
  with m show "ir_Value (vw_p v) \<le> nextStart opt now v" "ir_Value (vw_s v) \<le> nextStart opt now v"
    "cr_HighWater (vw_g v) \<le> nextStart opt now v" "base opt \<le> nextStart opt now v"
    by (blast intro: order.trans)+
  show "nextStart opt now v \<noteq> 0" by (simp add: nextStart_def Let_def)
qed

definition stores_of :: "proc_config \<Rightarrow> store_ref set" where
  "stores_of c = {Local (pc_primary c), Local (pc_secondary c), Global}"

lemma unat_ucast_region: "unat (ucast (r :: u8) :: u64) = unat r"
  by (rule unat_ucast_up) simp

lemma built_bounds:
  assumes "built opt" shows "unat (op_Region opt) \<le> 63 \<and> 10000000 \<le> unat (op_BlockSize opt) \<and> unat (op_BlockSize opt) < 2 ^ 57 - 1"
proof -
  have "op_BlockSize opt \<noteq> 0"
  proof
    assume "op_BlockSize opt = 0"
    moreover from this assms have "opt\<lparr>op_BlockSize := 4294967296\<rparr> = opt"
      by (auto simp: built_def New_options_def Let_def split: if_splits)
    then have "op_BlockSize opt = 4294967296" by (metis options.select_convs(2) options.surjective options.update_convs(2))
    ultimately show False by simp
  qed
  with assms show ?thesis
    by (auto simp: built_def New_options_def Let_def valueMask_def not_less not_le word_le_nat_alt word_less_nat_alt split: if_splits)
qed
lemma unat_base: assumes "unat (op_Region opt) \<le> 63" shows "unat (base opt) = unat (op_Region opt) * 2 ^ 57"
proof -
  have "unat (base opt) = take_bit 64 (push_bit 57 (unat (op_Region opt)))"
    by (simp add: base_def unsigned_push_bit_eq unat_ucast_region)
  also have "\<dots> = unat (op_Region opt) * 2 ^ 57" using assms by (simp add: push_bit_eq_mult take_bit_nat_eq_self)
  finally show ?thesis .
qed
lemma unat_limit: assumes "unat (op_Region opt) \<le> 63" shows "unat (limit opt) = unat (op_Region opt) * 2 ^ 57 + 2 ^ 57"
proof -
  have "limit opt = base opt + 2 ^ 57" by (simp add: limit_def valueMask_def push_bit_of_1)
  moreover have "unat (2 ^ 57 :: u64) = 2 ^ 57" by simp
  ultimately have "unat (limit opt) = unat (base opt) + 2 ^ 57" using unat_base [OF assms] assms
    by (simp add: unat_plus_simple [THEN iffD1] no_olen_add_nat unat_add_lem [THEN iffD1])
  then show ?thesis using unat_base [OF assms] by simp
qed
lemma in_region_iff: "\<not> other_region opt x \<longleftrightarrow> unat x div 2 ^ 57 = unat (op_Region opt)"
proof -
  have "unat (drop_bit 57 x) = unat x div 2 ^ 57" by (metis unat_drop_bit_eq drop_bit_eq_div)
  then show ?thesis by (simp only: other_region_def word_unat_eq_iff unat_ucast_region not_not)
qed
lemma base_region: assumes "unat (op_Region opt) \<le> 63" shows "drop_bit 57 (base opt) = ucast (op_Region opt)"
proof -
  have "\<not> other_region opt (base opt)" using unat_base [OF assms] by (simp add: in_region_iff)
  then show ?thesis by (simp add: other_region_def)
qed

lemma timeFloor_region:
  assumes "unat (op_Region opt) \<le> 63"
  shows "timeFloor opt now = 0 \<or> \<not> other_region opt (timeFloor opt now)"
proof (cases "now - epochUnix \<le> 0 \<or> now - epochUnix \<ge> 2 ^ 33")
  case True
  then show ?thesis by (simp add: timeFloor_def)
next
  case False
  define s where "s = nat (now - epochUnix)"
  with False have s: "now - epochUnix = int s" "s < 2 ^ 33" by (simp, simp, arith)
  have "push_bit 24 (of_int (now - epochUnix)) = (of_nat (s * 2 ^ 24) :: u64)" by (simp add: s(1) push_bit_eq_mult)
  then have "unat (push_bit 24 (of_int (now - epochUnix)) :: u64) = s * 2 ^ 24"
    using s(2) by (simp only: unsigned_of_nat) (simp add: take_bit_nat_eq_self)
  then have "unat (drop_bit 57 (push_bit 24 (of_int (now - epochUnix)) :: u64)) = 0"
    using s(2) by (simp only: unat_drop_bit_eq) (simp add: drop_bit_eq_div)
  then have "drop_bit 57 (push_bit 24 (of_int (now - epochUnix)) :: u64) = 0" by (simp only: unat_eq_zero)
  then have "drop_bit 57 (timeFloor opt now) = ucast (op_Region opt)"
    using False by (simp add: timeFloor_def Let_def base_region [OF assms])
  then show ?thesis by (simp add: other_region_def)
qed

lemma nextStart_region:
  assumes "built opt" and "checkRegion opt v = Inr ()" and "seen R c v rd"
  shows "\<not> other_region opt (nextStart opt now v)"
proof -
  define ok where "ok x \<longleftrightarrow> x = 0 \<or> \<not> other_region opt x" for x
  note b = built_bounds [OF assms(1)]
  from b have base: "\<not> other_region opt (base opt)" using base_region by (simp add: other_region_def)
  have "ok (ir_Value (vw_p v))" "ok (ir_Value (vw_s v))" "ok (cr_HighWater (vw_g v))"
    using assms(2) seen_missing [OF assms(3)]
    by (auto simp: checkRegion_def ok_def claim_of_def no_claim_def split: if_splits option.splits)
  moreover have "ok (base opt)" "ok (timeFloor opt now)" using base timeFloor_region [of opt now] b by (auto simp: ok_def)
  ultimately have *: "ok (let start = max (max (max (ir_Value (vw_p v)) (ir_Value (vw_s v))) (cr_HighWater (vw_g v))) (base opt)
      in if timeFloor opt now > start then timeFloor opt now else start)" (is "ok ?m")
    by (simp add: Let_def max_def)
  show ?thesis
  proof (cases "?m = 0")
    case True
    with nextStart_ge(4) [of opt now v] have "base opt = 0"
      by (auto simp: Let_def max_def word_le_0_iff split: if_splits)
    with base have "unat (op_Region opt) = 0" by (simp add: in_region_iff)
    with True show ?thesis by (simp add: nextStart_def Let_def in_region_iff)
  next
    case False
    with * show ?thesis by (simp add: nextStart_def Let_def ok_def)
  qed
qed

lemma nextStart_room:
  assumes "built opt" and "checkRegion opt v = Inr ()" and "seen R c v rd"
  shows "unat (nextStart opt now v + op_BlockSize opt) = unat (nextStart opt now v) + unat (op_BlockSize opt)"
    and "nextStart opt now v < nextStart opt now v + op_BlockSize opt"
proof -
  note b = built_bounds [OF assms(1)]
  from nextStart_region [OF assms] have "unat (nextStart opt now v) div 2 ^ 57 < 64" using b by (simp add: in_region_iff)
  then have "unat (nextStart opt now v) < 64 * 2 ^ 57" by (subst (asm) div_less_iff_less_mult) simp_all
  with b have "unat (nextStart opt now v) + unat (op_BlockSize opt) < 2 ^ 64" by simp
  then show sum: "unat (nextStart opt now v + op_BlockSize opt) = unat (nextStart opt now v) + unat (op_BlockSize opt)"
    by (simp add: unat_add_lem [THEN iffD1])
  show "nextStart opt now v < nextStart opt now v + op_BlockSize opt"
    unfolding word_less_nat_alt sum using b by simp
qed

lemma nextStart_block:
  assumes "built opt" and "checkRegion opt v = Inr ()" and "seen R c v rd"
    and "\<not> limit opt \<le> nextStart opt now v + op_BlockSize opt" and "op_Region opt = rg"
  shows "region_block rg (nextStart opt now v) (nextStart opt now v + op_BlockSize opt)"
proof -
  note b = built_bounds [OF assms(1)]
  from assms(4) have "unat (nextStart opt now v + op_BlockSize opt) < unat (limit opt)" by (simp add: word_less_nat_alt not_le)
  moreover have "unat (base opt) \<le> unat (nextStart opt now v)" using nextStart_ge(4) by (simp add: word_le_nat_alt)
  ultimately show ?thesis
    using nextStart_room(2) [OF assms(1-3), of now] nextStart_ge(5) [of opt now v] b unat_base unat_limit assms(5)
    by (simp add: region_block_def word_neq_0_conv)
qed

lemma safe_reserve_from:
  assumes "R \<in> stores_of c" and "built opt" and "op_Region opt = region_of c"
  shows "safe R c (reserve_from opt now newAuthority n) rd h"
proof (induction n arbitrary: rd h)
  case (Suc n)
  let ?again = "reserve_from opt now newAuthority n"
  have writes: "safe R c (cas_then Primary (vw_p v) e authority ?again (cas_then Secondary (vw_s v) e authority ?again
      (cas_registry_then (vw_g v) (claimAfter v authority e) ?again
        (Ret (Inr (Reserved \<lparr>bk_pos = start, bk_end = e, bk_halfway = half\<rparr>)))))) rd h"
    if v: "seen R c v rd" and start: "start = nextStart opt t v" and e: "start \<le> e" and b: "region_block (region_of c) start e"
    for v rd h authority start e half t
  proof -
    have le: "ir_Value (vw_p v) \<le> start" "ir_Value (vw_s v) \<le> start" "cr_HighWater (vw_g v) \<le> start"
      using nextStart_ge [where v = v and opt = opt and now = t] by (simp_all add: start)
    have hw: "cl_HighWater (claimAfter v authority e) = e" by (simp add: claimAfter_def Let_def)
    show ?thesis
      by (intro safe_cas_primary [OF v, where lo = start] safe_cas_secondary [OF v, where lo = start]
          safe_cas_registry_then [where lo = start])
        (use v le e hw Suc assms(1) b in \<open>auto simp: stores_of_def store_id_def seen_def intro: order.trans\<close>)
  qed
  show ?case
  proof (simp only: reserve_from.simps, rule safe_read_view, simp only: safe_prog_try, intro allI impI, goal_cases)
    case (1 v rd' authority)
    note v = 1(2)
    from 1(3) have region: "checkRegion opt v = Inr ()" by (auto simp: reservable_def sum_try_def split: sum.splits)
    have le: "nextStart opt (now n) v \<le> nextStart opt (now n) v + op_BlockSize opt"
      using nextStart_room(2) [OF assms(2) region v, of "now n"] by simp
    note w = writes [OF _ refl le nextStart_block [OF assms(2) region v _ assms(3)]]
    show ?case unfolding Let_def not_le [symmetric]
      by (intro safe_ifI safe_ReadRegistry_try w v Suc seen_mono [OF v]) simp_all
  qed
qed simp

lemma safe_reserve: "R \<in> stores_of c \<Longrightarrow> built opt \<Longrightarrow> op_Region opt = region_of c \<Longrightarrow> safe R c (reserve opt now newAuthority) rd h"
  by (simp add: reserve_def safe_reserve_from)

text \<open>The commands only ever raise a store, and grant nothing.\<close>

lemma safe_createMissing:
  assumes "seen R c v rd" and "\<And>h. safe R c k rd h"
  shows "safe R c (createMissing v e a k) rd h"
  unfolding createMissing_def create_if_missing_def using assms seen_missing [OF assms(1)]
  by (auto intro!: safe_cas_primary [OF assms(1), where lo = e] safe_cas_secondary [OF assms(1), where lo = e])

lemma safe_Init_from: "safe R c (Init_from opt newAuthority n) rd h"
proof (induction n arbitrary: rd h)
  case (Suc n)
  show ?case
    by (simp only: Init_from.simps, rule safe_read_view, simp only: safe_prog_try, intro allI impI)
      (auto simp: Let_def ClaimNew_def Suc split: sum.split option.split intro!: safe_createMissing)
qed simp

lemma safe_Recover_from: "safe R c (Recover_from opt rebind n) rd h"
proof (induction n arbitrary: rd h)
  case (Suc n)
  show ?case
    unfolding Recover_from.simps Let_def
    by (intro safe_read_view safe_tryI safe_ifI safe_createMissing safe_cas_registry_any Suc;
        simp add: seen_def claim_of_def no_claim_def max.coboundedI1)
qed simp

lemma safe_Retire_from: "safe R c (Retire_from n) rd h"
proof (induction n arbitrary: rd h)
  case (Suc n)
  show ?case
    by (simp only: Retire_from.simps, rule safe_ReadRegistry_try) (intro safe_ifI safe_cas_registry_any Suc; simp)
qed simp

lemma safe_Open_from: "safe R c (Open_from m n) rd h"
  by (induction n arbitrary: rd h) (auto simp: prog_try_def split: sum.split)

lemma safe_commands: "p \<in> commands opt \<Longrightarrow> safe R c p rd h"
  by (auto simp: commands_def Init_def Recover_def Retire_def OpenRegistry_def safe_Init_from safe_Recover_from
      safe_Retire_from Open_def safe_Open_from)

section \<open>A call and the cell of a store\<close>

definition reading_ok :: "cell \<Rightarrow> reading \<Rightarrow> bool" where
  "reading_ok cell x \<longleftrightarrow> (case fst x of
       None \<Rightarrow> snd x = 0 | Some r \<Rightarrow> r \<le> fst cell \<and> (\<forall>v. snd cell = Some (r, v) \<longrightarrow> v = snd x))"

text \<open>What a write does to a cell: nothing but a later store revision, or a new entry at a later revision with a value at
  least as high.\<close>

definition raised :: "cell \<Rightarrow> cell \<Rightarrow> bool" where
  "raised cell cell' \<longleftrightarrow> fst cell \<le> fst cell' \<and> (snd cell' = snd cell
     \<or> (\<exists>r v. snd cell' = Some (r, v) \<and> fst cell < r \<and> r \<le> fst cell' \<and> cell_value cell \<le> v))"

lemma raised_refl [simp]: "raised x x"
  by (simp add: raised_def)

lemma raised_value: "raised x y \<Longrightarrow> cell_value x \<le> cell_value y"
  by (auto simp: raised_def cell_value_def)

lemma raised_wf: "raised x y \<Longrightarrow> wf_cell x \<Longrightarrow> wf_cell y"
  by (auto simp: raised_def wf_cell_def split: option.splits)

lemma raised_reading: "raised x y \<Longrightarrow> reading_ok x z \<Longrightarrow> reading_ok y z"
  by (auto simp: raised_def reading_ok_def split: option.splits)

abbreviation local_cell :: "local_etcd \<Rightarrow> cell" where
  "local_cell e \<equiv> (le_rev e, map_option (\<lambda>(r, v, _). (r, v)) (le_kv e))"

abbreviation claim_cell :: "registry_etcd \<Rightarrow> u8 \<Rightarrow> cell" where
  "claim_cell e rg \<equiv> (re_rev e, map_option (\<lambda>(r, c). (r, cl_HighWater c)) (map_of (re_claims e) rg))"

lemma Read_local_ok:
  assumes "Read_local e = Inr r"
  shows "\<not> ir_Exists r \<longrightarrow> ir_Value r = 0" and "wf_local e \<Longrightarrow> reading_ok (local_cell e) (local_reading r)"
  using assms
  by (cases "le_kv e"; cases r; auto simp: Read_local_def local_reading_def reading_ok_def wf_local_def split: if_splits)+

lemma wf_registryD: "wf_registry e \<Longrightarrow> map_of (re_claims e) rg = Some (r, c) \<Longrightarrow> r \<le> re_rev e"
  by (auto simp: wf_registry_def dest!: map_of_SomeD)

lemma Read_registry_ok:
  assumes "Read_registry e rg = Inr g" and "wf_registry e"
  shows "reading_ok (claim_cell e rg) (claim_reading g)"
  using assms wf_registryD [OF assms(2), of rg]
  by (cases "map_of (re_claims e) rg"; cases g)
    (auto simp: Read_registry_def claim_reading_def reading_ok_def claim_of_def no_claim_def split: if_splits)

lemma cas_local_raises:
  assumes "cas_local prev v a e = (ok, e')" and "ir_Value prev \<le> v" and "reading_ok (local_cell e) (local_reading prev)"
  shows "raised (local_cell e) (local_cell e')"
    and "ok \<Longrightarrow> cell_value (local_cell e) = ir_Value prev \<and> cell_value (local_cell e') = v"
  using assms
  by (auto simp: cas_local_def casKey_def raised_def cell_value_def reading_ok_def local_reading_def
      split: if_splits option.splits)

lemma cas_registry_raises:
  assumes "cas_registry rg prev cl e = (ok, e')" and "cr_HighWater prev \<le> cl_HighWater cl"
    and "reading_ok (claim_cell e rg) (claim_reading prev)"
  shows "raised (claim_cell e rg) (claim_cell e' rg)"
    and "ok \<Longrightarrow> cell_value (claim_cell e rg) = cr_HighWater prev \<and> cell_value (claim_cell e' rg) = cl_HighWater cl"
  using assms
  by (auto simp: cas_registry_def put_claim_def casKey_def raised_def cell_value_def reading_ok_def claim_reading_def
      update_conv' split: if_splits option.splits)

text \<open>Writes of other keys only move the revision of the registry.\<close>

lemma registry_others:
  "cas_registry rg prev cl e = (ok, e') \<Longrightarrow> rg' \<noteq> rg \<Longrightarrow> raised (claim_cell e rg') (claim_cell e' rg')"
  "txn_claim rg revision cl e = (ok, e') \<Longrightarrow> raised (claim_cell e rg') (claim_cell e' rg')"
  "txn_open revision m e = (ok, e') \<Longrightarrow> raised (claim_cell e rg') (claim_cell e' rg')"
  by (auto simp: cas_registry_def txn_claim_def txn_open_def put_claim_def raised_def cell_value_def update_conv' split: if_splits)

lemma wf_local_cas: "wf_local e \<Longrightarrow> wf_local (snd (cas_local prev v a e))"
  by (cases "le_kv e") (auto simp: cas_local_def wf_local_def)

lemma alist_put_subset: "set (AList.update k v xs) \<subseteq> insert (k, v) (set xs)"
  by (induction xs) auto

lemma wf_registry_put: "wf_registry e \<Longrightarrow> wf_registry (put_claim rg cl e)"
  unfolding wf_registry_def put_claim_def
  using alist_put_subset [of rg "(re_rev e + 1, cl)" "re_claims e"] by fastforce

lemma wf_registry_writes:
  assumes "wf_registry e"
  shows "wf_registry (snd (cas_registry rg prev cl e))" "wf_registry (snd (txn_claim rg revision cl e))"
    "wf_registry (snd (txn_open revision m e))"
  using wf_registry_put [OF assms, of rg cl] assms
  by (auto simp: cas_registry_def txn_claim_def txn_open_def wf_registry_def)

lemma perform_wf:
  assumes "perform c p w = (p', w')" and "\<forall>n. wf_local (iw_local w n)" and "wf_registry (iw_registry w)"
  shows "(\<forall>n. wf_local (iw_local w' n)) \<and> wf_registry (iw_registry w')"
  using assms by (cases p) (auto simp: Let_def wf_local_cas wf_registry_writes)

lemma perform_frame:
  assumes "perform c p w = (p', w')"
  shows "iw_prog w' = iw_prog w" "iw_mem w' = iw_mem w" "iw_granted w' = iw_granted w" "iw_segments w' = iw_segments w"
    "iw_intact w' = iw_intact w"
  using assms by (cases p; auto simp: Let_def)+

lemma cell_at_simps [simp]: "cell_at w rg (Local n) = local_cell (iw_local w n)" "cell_at w rg Global = claim_cell (iw_registry w) rg"
  by (simp_all add: cell_at_def)

text \<open>Calls of another region, or on other stores, leave a cell alone.\<close>

lemma perform_elsewhere:
  assumes "perform c p w = (p', w')" and "region_of c \<noteq> rg" and "R \<notin> {Local (store_id c Primary), Local (store_id c Secondary)}"
  shows "raised (cell_at w rg R) (cell_at w' rg R)"
proof (cases R)
  case (Local n)
  with assms(3) have "\<forall>role. store_id c role \<noteq> n" by (auto split: local_role.split) (metis local_role.exhaust)+
  then have "iw_local w' n = iw_local w n" using assms(1) by (cases p) (auto simp: Let_def)
  with Local show ?thesis by simp
next
  case Global
  with assms(1,2) show ?thesis
    by (cases p) (auto simp: Let_def intro!: registry_others [OF surjective_pairing])
qed

lemma perform_safe:
  assumes "perform c p w = (p', w')" and "safe R c p rd h" and rd: "\<forall>x \<in> rd. reading_ok (cell_at w (region_of c) R) x"
    and wf: "\<forall>n. wf_local (iw_local w n)" "wf_registry (iw_registry w)"
  shows "raised (cell_at w (region_of c) R) (cell_at w' (region_of c) R)
    \<and> (\<exists>rd' h'. safe R c p' rd' h' \<and> (\<forall>x \<in> rd'. reading_ok (cell_at w' (region_of c) R) x)
      \<and> (h' = h \<or> (\<exists>lo. h' = Some (lo, cell_value (cell_at w' (region_of c) R)) \<and> cell_value (cell_at w (region_of c) R) \<le> lo)))"
    (is "?up \<and> (\<exists>rd' h'. ?ok rd' h')")
proof -
  have same: ?thesis if "w' = w" and "safe R c p' rd' h" and "\<forall>x \<in> rd' - rd. reading_ok (cell_at w (region_of c) R) x" for rd'
    using that rd by (intro conjI exI [of _ rd'] exI [of _ h]) auto
  have moved: ?thesis if ?up and "safe R c p' rd h"
    using that rd raised_reading [OF that(1)] by (intro conjI exI [of _ rd] exI [of _ h]) auto
  show ?thesis
  proof (cases p)
    case (ReadRegistry k)
    define x where "x = Read_registry (iw_registry w) (region_of c)"
    note ok = Read_registry_ok [where e = "iw_registry w" and rg = "region_of c", folded x_def]
    show ?thesis
      by (rule same [of "case x of Inr g \<Rightarrow> if R = Global then insert (claim_reading g) rd else rd | Inl _ \<Rightarrow> rd"])
        (use assms(1,2) ReadRegistry wf(2) ok in \<open>auto simp: x_def [symmetric] split: sum.splits if_splits\<close>)
  next
    case (ReadLocal role k)
    define x where "x = Read_local (iw_local w (store_id c role))"
    define rd' where "rd' = (case x of Inr r \<Rightarrow> if R = Local (store_id c role) then insert (local_reading r) rd else rd | Inl _ \<Rightarrow> rd)"
    note ok = Read_local_ok [where e = "iw_local w (store_id c role)", folded x_def]
    from assms(2) have "safe R c (ReadLocal role k) rd h" unfolding ReadLocal .
    with ok(1) have "safe R c (k x) rd' h" unfolding rd'_def safe.simps by blast
    moreover have "\<forall>y \<in> rd' - rd. reading_ok (cell_at w (region_of c) R) y"
      using ok(2) wf(1) by (auto simp: rd'_def split: sum.splits if_splits)
    moreover have "w' = w" "p' = k x" using assms(1) ReadLocal by (auto simp: x_def)
    ultimately show ?thesis by (intro same [of rd']) simp_all
  next
    case (CasLocal role prev v a k)
    obtain ok e' where e': "cas_local prev v a (iw_local w (store_id c role)) = (ok, e')" by fastforce
    with assms(1) CasLocal have p': "p' = k (Inr ok)" and w': "w' = w\<lparr>iw_local := (iw_local w)(store_id c role := e')\<rparr>"
      by auto
    show ?thesis
    proof (cases "R = Local (store_id c role)")
      case True
      with assms(2) CasLocal obtain lo where s: "local_reading prev \<in> rd" "ir_Value prev \<le> v" "x \<noteq> Inr True \<longrightarrow> safe R c (k x) rd h"
        "ir_Value prev \<le> lo" "safe R c (k (Inr True)) rd (Some (lo, v))" for x by auto
      note c = cas_local_raises [OF e' s(2)]
      from True rd s(1) have reading: "reading_ok (local_cell (iw_local w (store_id c role))) (local_reading prev)" by auto
      from c(1) [OF this] True w' have up: ?up by simp
      show ?thesis
      proof (cases ok)
        case True
        have "?ok rd (Some (lo, v))"
          using s(4,5) c(2) [OF reading True] rd raised_reading [OF up] p' w' \<open>R = Local (store_id c role)\<close> True by simp
        with up show ?thesis by blast
      next
        case False
        with s(3) [of "Inr ok"] p' up show ?thesis by (intro moved) simp_all
      qed
    next
      case False
      with w' have "cell_at w' (region_of c) R = cell_at w (region_of c) R" by (cases R) auto
      with False assms(2) CasLocal p' show ?thesis by (intro moved) simp_all
    qed
  next
    case (CasRegistry prev cl k)
    obtain ok e' where e': "cas_registry (region_of c) prev cl (iw_registry w) = (ok, e')" by fastforce
    with assms(1) CasRegistry have p': "p' = k (Inr ok)" and w': "w' = w\<lparr>iw_registry := e'\<rparr>" by auto
    show ?thesis
    proof (cases "R = Global")
      case True
      with assms(2) CasRegistry obtain lo where s: "claim_reading prev \<in> rd" "cr_HighWater prev \<le> cl_HighWater cl"
        "x \<noteq> Inr True \<longrightarrow> safe R c (k x) rd h" "cr_HighWater prev \<le> lo" "safe R c (k (Inr True)) rd (Some (lo, cl_HighWater cl))"
        for x by auto
      note c = cas_registry_raises [OF e' s(2)]
      from True rd s(1) have reading: "reading_ok (claim_cell (iw_registry w) (region_of c)) (claim_reading prev)" by auto
      from c(1) [OF this] True w' have up: ?up by simp
      show ?thesis
      proof (cases ok)
        case True
        have "?ok rd (Some (lo, cl_HighWater cl))"
          using s(4,5) c(2) [OF reading True] rd raised_reading [OF up] p' w' \<open>R = Global\<close> True by simp
        with up show ?thesis by blast
      next
        case False
        with s(3) [of "Inr ok"] p' up show ?thesis by (intro moved) simp_all
      qed
    next
      case False
      with w' have "cell_at w' (region_of c) R = cell_at w (region_of c) R" by (cases R) auto
      with False assms(2) CasRegistry p' show ?thesis by (intro moved) simp_all
    qed
  next
    case (TxnClaim revision cl k)
    show ?thesis
      by (rule moved) (use assms(1,2) TxnClaim registry_others(2) [OF surjective_pairing] in \<open>cases R; auto simp: Let_def\<close>)+
  next
    case (TxnOpen revision m k)
    show ?thesis
      by (rule moved) (use assms(1,2) TxnOpen registry_others(3) [OF surjective_pairing] in \<open>cases R; auto simp: Let_def\<close>)+
  qed (use assms(1,2) same [of rd] in auto)
qed

lemma safe_answer_error: "safe R c p rd h \<Longrightarrow> safe R c (answer_error e p) rd h"
  by (cases p) (auto dest: spec [of _ "Inl e"] split: if_splits)

end
