(* ===== verification/IdInv.thy ===== *)
theory IdInv
  imports IdSafe
begin

text \<open>
  The invariant of the issuers: whatever interleaves, and whatever faults leave one intact store per region, the blocks
  granted never overlap, and the segments cut from them neither.
\<close>

section \<open>The invariant\<close>

definition span :: "u64 \<Rightarrow> u64 \<Rightarrow> u64 set" where "span lo hi = {x. lo \<le> x \<and> x < hi}"

lemma span_disjoint: "hi \<le> lo' \<Longrightarrow> span lo hi \<inter> span lo' hi' = {}"
  by (auto simp: span_def)

text \<open>For a store a region relies on: every program of the region that is under way is safe for it, its readings
  are true of the store, and the interval it holds is apart from the other intervals held and from the blocks
  granted, all of which the store covers.\<close>

definition holds_ok :: "(nat \<Rightarrow> proc_config) \<Rightarrow> issuer_world \<Rightarrow> u8 \<Rightarrow> store_ref \<Rightarrow>
    (nat \<Rightarrow> reading set) \<Rightarrow> (nat \<Rightarrow> (u64 \<times> u64) option) \<Rightarrow> bool" where
  "holds_ok cfg w rg R rd hold \<longleftrightarrow>
     (\<forall>i p. region_of (cfg i) = rg \<longrightarrow> iw_prog w i = Some p \<longrightarrow>
        safe R (cfg i) p (rd i) (hold i) \<and> (\<forall>x \<in> rd i. reading_ok (cell_at w rg R) x))
   \<and> (\<forall>i lo hi. hold i = Some (lo, hi) \<longrightarrow> hi \<le> cell_value (cell_at w rg R)
        \<and> (\<forall>a b. (rg, a, b) \<in> set (iw_granted w) \<longrightarrow> span lo hi \<inter> span a b = {})
        \<and> (\<forall>j lo' hi'. j \<noteq> i \<longrightarrow> hold j = Some (lo', hi') \<longrightarrow> span lo hi \<inter> span lo' hi' = {}))"

definition guarded :: "(nat \<Rightarrow> proc_config) \<Rightarrow> issuer_world \<Rightarrow> u8 \<Rightarrow> store_ref \<Rightarrow> bool" where
  "guarded cfg w rg R \<longleftrightarrow> shared_by cfg rg R \<and> covers w rg R \<and> (\<exists>rd hold. holds_ok cfg w rg R rd hold)"

lemma shared_stores: "shared_by cfg (region_of (cfg i)) R \<Longrightarrow> R \<in> stores_of (cfg i)"
  by (auto simp: shared_by_def stores_of_def split: store_ref.splits)

lemma holds_okI:
  assumes "\<And>i p. region_of (cfg i) = rg \<Longrightarrow> iw_prog w i = Some p \<Longrightarrow> safe R (cfg i) p (rd i) (hold i)"
    and "\<And>i p x. region_of (cfg i) = rg \<Longrightarrow> iw_prog w i = Some p \<Longrightarrow> x \<in> rd i \<Longrightarrow> reading_ok (cell_at w rg R) x"
    and "\<And>i lo hi. hold i = Some (lo, hi) \<Longrightarrow> hi \<le> cell_value (cell_at w rg R)"
    and "\<And>i lo hi a b. hold i = Some (lo, hi) \<Longrightarrow> (rg, a, b) \<in> set (iw_granted w) \<Longrightarrow> span lo hi \<inter> span a b = {}"
    and "\<And>i j lo hi lo' hi'. hold i = Some (lo, hi) \<Longrightarrow> hold j = Some (lo', hi') \<Longrightarrow> j \<noteq> i \<Longrightarrow> span lo hi \<inter> span lo' hi' = {}"
  shows "holds_ok cfg w rg R rd hold"
  unfolding holds_ok_def using assms by blast

lemma holds_okD:
  assumes "holds_ok cfg w rg R rd hold"
  shows "region_of (cfg i) = rg \<Longrightarrow> iw_prog w i = Some p \<Longrightarrow> safe R (cfg i) p (rd i) (hold i)"
    and "region_of (cfg i) = rg \<Longrightarrow> iw_prog w i = Some p \<Longrightarrow> x \<in> rd i \<Longrightarrow> reading_ok (cell_at w rg R) x"
    and "hold i = Some (lo, hi) \<Longrightarrow> hi \<le> cell_value (cell_at w rg R)"
    and "hold i = Some (lo, hi) \<Longrightarrow> (rg, a, b) \<in> set (iw_granted w) \<Longrightarrow> span lo hi \<inter> span a b = {}"
    and "hold i = Some (lo, hi) \<Longrightarrow> hold j = Some (lo', hi') \<Longrightarrow> j \<noteq> i \<Longrightarrow> span lo hi \<inter> span lo' hi' = {}"
  using assms unfolding holds_ok_def by blast+

text \<open>A step that only raises the cell and replaces the program of one process.\<close>

lemma guarded_step:
  assumes g: "guarded cfg w rg R" and up: "raised (cell_at w rg R) (cell_at w' rg R)" and granted: "iw_granted w' = iw_granted w"
    and prog: "iw_prog w' = (iw_prog w)(i := q)"
    and q: "\<And>p rd h. region_of (cfg i) = rg \<Longrightarrow> q = Some p \<Longrightarrow>
        (\<And>p0. iw_prog w i = Some p0 \<Longrightarrow> safe R (cfg i) p0 rd h \<and> (\<forall>x \<in> rd. reading_ok (cell_at w rg R) x)) \<Longrightarrow>
        \<exists>rd' h'. safe R (cfg i) p rd' h' \<and> (\<forall>x \<in> rd'. reading_ok (cell_at w' rg R) x) \<and>
          (h' = h \<or> (\<exists>lo. h' = Some (lo, cell_value (cell_at w' rg R)) \<and> cell_value (cell_at w rg R) \<le> lo))"
  shows "guarded cfg w' rg R"
proof -
  from g obtain rd hold where h: "holds_ok cfg w rg R rd hold" and cov: "covers w rg R" and sh: "shared_by cfg rg R"
    by (auto simp: guarded_def)
  note D = holds_okD [OF h]
  note val = raised_value [OF up]
  obtain rd' h' where new: "\<And>p. region_of (cfg i) = rg \<Longrightarrow> q = Some p \<Longrightarrow>
        safe R (cfg i) p rd' h' \<and> (\<forall>x \<in> rd'. reading_ok (cell_at w' rg R) x)"
    "h' = hold i \<or> (\<exists>lo. h' = Some (lo, cell_value (cell_at w' rg R)) \<and> cell_value (cell_at w rg R) \<le> lo)"
  proof (cases "region_of (cfg i) = rg \<and> q \<noteq> None")
    case True
    then obtain p where p: "q = Some p" by blast
    have "\<exists>rd' h'. safe R (cfg i) p rd' h' \<and> (\<forall>x \<in> rd'. reading_ok (cell_at w' rg R) x) \<and>
        (h' = hold i \<or> (\<exists>lo. h' = Some (lo, cell_value (cell_at w' rg R)) \<and> cell_value (cell_at w rg R) \<le> lo))"
      by (rule q [of p "rd i"]) (use True p D(1,2) in blast)+
    with that p show ?thesis by blast
  next
    case False
    with that [of "{}" "hold i"] show ?thesis by blast
  qed
  have old: "hi \<le> cell_value (cell_at w rg R)" if "(rg, a, hi) \<in> set (iw_granted w)" for a hi
    using cov that by (auto simp: covers_def)
  have below: "span lo hi \<inter> span lo' hi' = {}" if "hold j = Some (lo, hi)" "cell_value (cell_at w rg R) \<le> lo'" for j lo hi lo' hi'
    by (rule span_disjoint) (rule order.trans [OF D(3) [OF that(1)] that(2)])
  have H: "hold j = Some (lo, hi) \<or> (j = i \<and> hi = cell_value (cell_at w' rg R) \<and> cell_value (cell_at w rg R) \<le> lo)"
    if "(hold(i := h')) j = Some (lo, hi)" for j lo hi using new(2) that by (auto split: if_splits)
  have "holds_ok cfg w' rg R (rd(i := rd')) (hold(i := h'))"
  proof (rule holds_okI)
    fix j p assume "region_of (cfg j) = rg" "iw_prog w' j = Some p"
    then show "safe R (cfg j) p ((rd(i := rd')) j) ((hold(i := h')) j)" using new(1) D(1) prog by (cases "j = i") auto
  next
    fix j p x assume "region_of (cfg j) = rg" "iw_prog w' j = Some p" "x \<in> (rd(i := rd')) j"
    then show "reading_ok (cell_at w' rg R) x"
      using new(1) raised_reading [OF up D(2)] prog by (cases "j = i") (auto simp del: split_paired_All)
  next
    fix j lo hi assume "(hold(i := h')) j = Some (lo, hi)"
    from H [OF this] show "hi \<le> cell_value (cell_at w' rg R)" using order.trans [OF D(3) val] by blast
  next
    fix j lo hi a b assume j: "(hold(i := h')) j = Some (lo, hi)" and ab: "(rg, a, b) \<in> set (iw_granted w')"
    from ab have ab: "(rg, a, b) \<in> set (iw_granted w)" by (simp add: granted)
    from H [OF j] show "span lo hi \<inter> span a b = {}"
      using D(4) [OF _ ab] span_disjoint [OF order.trans [OF old [OF ab]], of lo a hi] by (auto simp: Int_commute)
  next
    fix j k lo hi lo' hi'
    assume j: "(hold(i := h')) j = Some (lo, hi)" and k: "(hold(i := h')) k = Some (lo', hi')" and "k \<noteq> j"
    then show "span lo hi \<inter> span lo' hi' = {}"
      using H [OF j] H [OF k] D(5) [of j lo hi k lo' hi'] below [of j lo hi lo' hi'] below [of k lo' hi' lo hi]
      by (metis Int_commute)
  qed
  moreover have "covers w' rg R" using cov val granted by (fastforce simp: covers_def)
  ultimately show ?thesis using sh by (auto simp: guarded_def)
qed

text \<open>Granting the block a program returns: it is the interval the program holds.\<close>

lemma guarded_grant:
  assumes g: "guarded cfg w rg R" and i: "region_of (cfg i) = rg" and p: "iw_prog w i = Some (Ret r)"
    and w': "cell_at w' rg R = cell_at w rg R" "iw_prog w' = (iw_prog w)(i := None)"
      "iw_granted w' = iw_granted w @ (case r of Inr (Reserved b) \<Rightarrow> [(rg, bk_pos b, bk_end b)] | _ \<Rightarrow> [])"
  shows "guarded cfg w' rg R"
    and "r = Inr (Reserved b) \<Longrightarrow> (rg, lo, hi) \<in> set (iw_granted w) \<Longrightarrow> span (bk_pos b) (bk_end b) \<inter> span lo hi = {}"
    and "r = Inr (Reserved b) \<Longrightarrow> region_block rg (bk_pos b) (bk_end b)"
proof -
  from g obtain rd hold where h: "holds_ok cfg w rg R rd hold" and cov: "covers w rg R" and sh: "shared_by cfg rg R"
    by (auto simp: guarded_def)
  note D = holds_okD [OF h]
  have hold: "hold i = Some (bk_pos b, bk_end b)" if "r = Inr (Reserved b)" for b using D(1) [OF i p] that by simp
  then show "r = Inr (Reserved b) \<Longrightarrow> (rg, lo, hi) \<in> set (iw_granted w) \<Longrightarrow> span (bk_pos b) (bk_end b) \<inter> span lo hi = {}"
    using D(4) by blast
  show "r = Inr (Reserved b) \<Longrightarrow> region_block rg (bk_pos b) (bk_end b)" using D(1) [OF i p] i by simp
  have granted: "(rg, a, b) \<in> set (iw_granted w) \<or> hold i = Some (a, b)" if "(rg, a, b) \<in> set (iw_granted w')" for a b
    using that hold w'(3) by (auto split: sum.splits outcome.splits)
  have "holds_ok cfg w' rg R rd (hold(i := None))"
  proof (rule holds_okI)
    fix j lo hi a b assume "(hold(i := None)) j = Some (lo, hi)" "(rg, a, b) \<in> set (iw_granted w')"
    with granted [of a b] D(4,5) show "span lo hi \<inter> span a b = {}" by (metis fun_upd_apply option.distinct(1))
  qed (use D(1-3,5) w'(1,2) in \<open>auto split: if_splits\<close>)
  moreover have "hi \<le> cell_value (cell_at w' rg R)" if "(rg, lo, hi) \<in> set (iw_granted w')" for lo hi
    using granted [OF that] cov D(3) w'(1) by (auto simp: covers_def)
  ultimately show "guarded cfg w' rg R" using sh by (auto simp: guarded_def covers_def)
qed

section \<open>What the issuers hold in memory\<close>

definition block_span :: "block \<Rightarrow> u64 set" where "block_span b = span (bk_pos b) (bk_end b)"

definition next_span :: "issuer \<Rightarrow> u64 set" where
  "next_span m = (case is_next m of None \<Rightarrow> {} | Some b \<Rightarrow> block_span b)"

definition stock :: "issuer \<Rightarrow> u64 set" where "stock m = block_span (is_cur m) \<union> next_span m"

lemma remaining_pos: "0 < remaining b \<longleftrightarrow> bk_pos b < bk_end b"
  by (auto simp: remaining_def word_gt_0 not_le)

lemma block_span_empty: "remaining b = 0 \<Longrightarrow> block_span b = {}"
  using remaining_pos [of b] by (auto simp: block_span_def span_def)

lemma start_blocks [simp]:
  "is_cur (snd (startReservationLocked t m)) = is_cur m" "is_next (snd (startReservationLocked t m)) = is_next m"
  by (simp_all add: startReservationLocked_def)

lemma New_stock [simp]: "stock New = {}" "block_span (is_cur New) = {}"
  by (auto simp: stock_def next_span_def block_span_def span_def New_def no_block_def)

lemma cut_segment:
  assumes "bk_pos b < bk_end b" and "unat (bk_pos b) < 2 ^ 63" and "0 < step"
  shows "bk_pos b < min (bk_pos b + ucast (step :: u32)) (bk_end b)"
proof -
  have "unat step < 2 ^ LENGTH(32)" by (rule unsigned_less)
  moreover have ucast: "unat (ucast step :: u64) = unat step" by (rule unat_ucast_up) simp
  ultimately have "unat (bk_pos b + ucast step) = unat (bk_pos b) + unat step" using assms(2) by (simp add: unat_add_lem [THEN iffD1])
  with assms(1,3) show ?thesis by (simp add: word_less_nat_alt)
qed

lemma Allocate_locked_cut:
  assumes "\<not> is_closed m" and "0 < remaining (is_cur m)"
  shows "Allocate_locked t step m =
    (let hi = min (bk_pos (is_cur m) + ucast step) (bk_end (is_cur m)); m1 = m\<lparr>is_cur := is_cur m\<lparr>bk_pos := hi\<rparr>\<rparr> in
     (Segment (bk_pos (is_cur m)) hi,
      if hi \<ge> bk_halfway (is_cur m) \<and> is_next m = None then snd (startReservationLocked t m1) else m1))"
  using assms by (subst Allocate_locked.simps) (simp add: Let_def)

text \<open>A segment is taken out of the stock, and nothing else is.\<close>

lemma Allocate_locked_stock:
  assumes "Allocate_locked t step m = (a, m')" and "0 < step" and "block_span (is_cur m) \<inter> next_span m = {}"
    and "\<forall>x \<in> stock m. unat x < 2 ^ 63"
  shows "stock m' \<subseteq> stock m \<and> block_span (is_cur m') \<inter> next_span m' = {}
    \<and> (case a of Segment lo hi \<Rightarrow> lo < hi \<and> span lo hi \<subseteq> stock m \<and> span lo hi \<inter> stock m' = {} | _ \<Rightarrow> True)"
  using assms
proof (induction t step m rule: Allocate_locked.induct)
  case (1 t step m)
  note prems = 1(2-)
  have unfold: "Allocate_locked t step m = (a, m')" by (rule prems(1))
  consider "is_closed m" | "\<not> is_closed m" "0 < remaining (is_cur m)"
    | b where "\<not> is_closed m" "remaining (is_cur m) = 0" "is_next m = Some b"
    | "\<not> is_closed m" "remaining (is_cur m) = 0" "is_next m = None"
    by (metis option.exhaust word_gt_0)
  then show ?case
  proof cases
    case 1
    with unfold prems(3) show ?thesis by (subst (asm) Allocate_locked.simps) auto
  next
    case 2
    define hi where "hi = min (bk_pos (is_cur m) + ucast step) (bk_end (is_cur m))"
    from 2(2) have pos: "bk_pos (is_cur m) < bk_end (is_cur m)" by (simp add: remaining_pos)
    then have "bk_pos (is_cur m) \<in> stock m" by (simp add: stock_def block_span_def span_def)
    with prems(4) cut_segment [OF pos _ prems(2)] have lo: "bk_pos (is_cur m) < hi" by (auto simp: hi_def)
    have hi: "hi \<le> bk_end (is_cur m)" by (simp add: hi_def)
    define m1 where "m1 = m\<lparr>is_cur := is_cur m\<lparr>bk_pos := hi\<rparr>\<rparr>"
    have a: "a = Segment (bk_pos (is_cur m)) hi" and "m' = m1 \<or> m' = snd (startReservationLocked t m1)"
      using unfold unfolding Allocate_locked_cut [OF 2] hi_def [symmetric] Let_def m1_def by (auto split: if_splits)
    then have m': "block_span (is_cur m') = span hi (bk_end (is_cur m))" "next_span m' = next_span m"
      by (auto simp: m1_def block_span_def next_span_def)
    have "span hi (bk_end (is_cur m)) \<subseteq> block_span (is_cur m)" "span (bk_pos (is_cur m)) hi \<subseteq> block_span (is_cur m)"
      "span (bk_pos (is_cur m)) hi \<inter> span hi (bk_end (is_cur m)) = {}"
      using lo hi by (auto simp: block_span_def span_def)
    with m' a lo prems(3) show ?thesis by (auto simp: stock_def)
  next
    case (3 b)
    let ?m = "m\<lparr>is_cur := b, is_next := None\<rparr>"
    have "Allocate_locked t step ?m = (a, m')" using unfold 3 by (subst (asm) Allocate_locked.simps) simp
    moreover have sub: "stock ?m \<subseteq> stock m" "block_span (is_cur ?m) \<inter> next_span ?m = {}"
      using 3 by (auto simp: stock_def next_span_def)
    ultimately have "stock m' \<subseteq> stock ?m \<and> block_span (is_cur m') \<inter> next_span m' = {}
        \<and> (case a of Segment lo hi \<Rightarrow> lo < hi \<and> span lo hi \<subseteq> stock ?m \<and> span lo hi \<inter> stock m' = {} | _ \<Rightarrow> True)"
      by (intro 1(1)) (use 3 prems(2,4) in auto)
    with sub(1) show ?thesis by (cases a) auto
  next
    case 4
    with unfold prems(3) show ?thesis
      by (subst (asm) Allocate_locked.simps)
        (auto simp: startReservationLocked_def stock_def next_span_def split: if_splits)
  qed
qed

lemma Allocate_stock:
  assumes "Allocate opt t tag step m = (a, m')" and "block_span (is_cur m) \<inter> next_span m = {}"
    and "\<forall>x \<in> stock m. unat x < 2 ^ 63"
  shows "stock m' \<subseteq> stock m \<and> block_span (is_cur m') \<inter> next_span m' = {}
    \<and> (case a of Segment lo hi \<Rightarrow> lo < hi \<and> span lo hi \<subseteq> stock m \<and> span lo hi \<inter> stock m' = {} | _ \<Rightarrow> True)"
proof (cases "IsValidBizTag tag \<and> tag \<in> set (op_Tags opt) \<and> \<not> step > MaxStep")
  case True
  with assms show ?thesis
    by (intro Allocate_locked_stock [of t "if step = 0 then DefaultStep else step"]) (auto simp: Allocate_def word_gt_0)
next
  case False
  with assms(1) obtain e where "a = AllocateError e" "m' = m" by (auto simp: Allocate_def split: if_splits)
  with assms(2) show ?thesis by simp
qed

lemma reservation_done_stock:
  assumes "block_span (is_cur m) \<inter> next_span m = {}"
  shows "(\<And>b. r \<noteq> Inr (Reserved b)) \<Longrightarrow> stock (reservation_done t r m) = stock m
      \<and> block_span (is_cur (reservation_done t r m)) \<inter> next_span (reservation_done t r m) = {}"
    and "r = Inr (Reserved b) \<Longrightarrow> block_span b \<inter> stock m = {} \<Longrightarrow> stock (reservation_done t r m) \<subseteq> stock m \<union> block_span b
      \<and> block_span (is_cur (reservation_done t r m)) \<inter> next_span (reservation_done t r m) = {}"
  using assms
  by (auto simp: reservation_done_def Let_def stock_def next_span_def split: sum.splits outcome.splits option.splits)

section \<open>All together\<close>

definition granted_ids :: "issuer_world \<Rightarrow> u64 set" where
  "granted_ids w = (\<Union>(rg, lo, hi) \<in> set (iw_granted w). span lo hi)"

definition issued_ids :: "issuer_world \<Rightarrow> u64 set" where
  "issued_ids w = (\<Union>(lo, hi) \<in> set (iw_segments w). span lo hi)"

definition stores_inv :: "(nat \<Rightarrow> proc_config) \<Rightarrow> issuer_world \<Rightarrow> bool" where
  "stores_inv cfg w \<longleftrightarrow> (\<forall>n. wf_local (iw_local w n)) \<and> wf_registry (iw_registry w)
     \<and> (\<forall>rg. iw_intact w rg \<noteq> {} \<and> (\<forall>R \<in> iw_intact w rg. guarded cfg w rg R))
     \<and> (\<forall>(rg, lo, hi) \<in> set (iw_granted w). region_block rg lo hi)"

definition memory_inv :: "issuer_world \<Rightarrow> bool" where
  "memory_inv w \<longleftrightarrow>
     (\<forall>i. stock (iw_mem w i) \<subseteq> granted_ids w \<and> block_span (is_cur (iw_mem w i)) \<inter> next_span (iw_mem w i) = {}
        \<and> stock (iw_mem w i) \<inter> issued_ids w = {} \<and> (\<forall>j. j \<noteq> i \<longrightarrow> stock (iw_mem w i) \<inter> stock (iw_mem w j) = {}))
   \<and> issued_ids w \<subseteq> granted_ids w \<and> (\<forall>(lo, hi) \<in> set (iw_segments w). lo < hi)
   \<and> sorted_wrt (\<lambda>(lo, hi) (lo', hi'). span lo hi \<inter> span lo' hi' = {}) (iw_segments w)"

lemma cell_at_other [simp]:
  "cell_at (w\<lparr>iw_prog := p\<rparr>) rg R = cell_at w rg R" "cell_at (w\<lparr>iw_mem := m\<rparr>) rg R = cell_at w rg R"
  "cell_at (w\<lparr>iw_granted := g\<rparr>) rg R = cell_at w rg R" "cell_at (w\<lparr>iw_segments := s\<rparr>) rg R = cell_at w rg R"
  "cell_at (w\<lparr>iw_intact := S\<rparr>) rg R = cell_at w rg R"
  by (cases R; simp)+

lemma shared_elsewhere:
  assumes "shared_by cfg rg R" and "apart cfg" and "region_of (cfg i) \<noteq> rg"
  shows "R \<noteq> Local (store_id (cfg i) role)"
proof
  assume R: "R = Local (store_id (cfg i) role)"
  with assms(1) obtain j where j: "region_of (cfg j) = rg" "store_id (cfg i) role \<in> {pc_primary (cfg j), pc_secondary (cfg j)}"
    by (auto simp: shared_by_def)
  then obtain role' where "store_id (cfg i) role = store_id (cfg j) role'"
    by (auto simp: store_id_def intro: that [of Primary] that [of Secondary])
  with assms(2,3) j(1) show False by (auto simp: apart_def)
qed

text \<open>Only what \<open>guarded\<close> looks at matters.\<close>

lemma guarded_cong:
  assumes "cell_at w' rg R = cell_at w rg R" and "iw_prog w' = iw_prog w"
    and "\<And>a b. (rg, a, b) \<in> set (iw_granted w') \<longleftrightarrow> (rg, a, b) \<in> set (iw_granted w)"
  shows "guarded cfg w' rg R = guarded cfg w rg R"
proof -
  have "covers w rg R \<longleftrightarrow> (\<forall>a b. (rg, a, b) \<in> set (iw_granted w) \<longrightarrow> b \<le> cell_value (cell_at w rg R))" for w
    by (auto simp: covers_def)
  with assms show ?thesis by (simp add: guarded_def holds_ok_def)
qed

lemma guarded_call:
  assumes g: "guarded cfg w rg R" and p: "iw_prog w i = Some p" and perf: "perform (cfg i) p w = (p', w')"
    and "apart cfg" and wf: "\<forall>n. wf_local (iw_local w n)" "wf_registry (iw_registry w)" and q: "q = p' \<or> q = answer_error e p"
  shows "guarded cfg (w'\<lparr>iw_prog := (iw_prog w)(i \<mapsto> q)\<rparr>) rg R"
proof (cases "region_of (cfg i) = rg")
  case True
  from g obtain rd hold where h: "holds_ok cfg w rg R rd hold" by (auto simp: guarded_def)
  note here = perform_safe [OF perf _ _ wf, of R]
  have up: "raised (cell_at w rg R) (cell_at w' rg R)"
    using here [of "rd i" "hold i"] holds_okD(1,2) [OF h True p] True by blast
  show ?thesis
  proof (rule guarded_step [OF g, of _ i "Some q"])
    fix q' rd h
    assume "\<And>p0. iw_prog w i = Some p0 \<Longrightarrow> safe R (cfg i) p0 rd h \<and> (\<forall>x \<in> rd. reading_ok (cell_at w rg R) x)" and "Some q = Some q'"
    with here [of rd h] p True q safe_answer_error [of R "cfg i" p rd h e] raised_reading [OF up]
    show "\<exists>rd' h'. safe R (cfg i) q' rd' h'
       \<and> (\<forall>x \<in> rd'. reading_ok (cell_at (w'\<lparr>iw_prog := (iw_prog w)(i \<mapsto> q)\<rparr>) rg R) x)
       \<and> (h' = h \<or> (\<exists>lo. h' = Some (lo, cell_value (cell_at (w'\<lparr>iw_prog := (iw_prog w)(i \<mapsto> q)\<rparr>) rg R))
           \<and> cell_value (cell_at w rg R) \<le> lo))"
      unfolding cell_at_other by (metis option.inject)
  qed (use up perform_frame [OF perf] in simp_all)
next
  case False
  from g have "R \<notin> {Local (store_id (cfg i) Primary), Local (store_id (cfg i) Secondary)}"
    using shared_elsewhere [OF _ assms(4) False] by (auto simp: guarded_def)
  from perform_elsewhere [OF perf False this] show ?thesis
    by (intro guarded_step [OF g, of _ i "Some q"]) (use False perform_frame [OF perf] in simp_all)
qed

lemma stores_inv_call:
  assumes inv: "stores_inv cfg w" and ap: "apart cfg" and p: "iw_prog w i = Some p" and perf: "perform (cfg i) p w = (p', w')"
    and q: "q = p' \<or> q = answer_error e p"
  shows "stores_inv cfg (w'\<lparr>iw_prog := (iw_prog w)(i \<mapsto> q)\<rparr>)"
proof -
  from inv have wf: "\<forall>n. wf_local (iw_local w n)" "wf_registry (iw_registry w)" by (simp_all add: stores_inv_def)
  show ?thesis
    using inv perform_wf [OF perf wf] perform_frame [OF perf] guarded_call [OF _ p perf ap wf q]
    by (simp add: stores_inv_def)
qed

text \<open>Steps that change a program but no store.\<close>

lemma stores_inv_prog:
  assumes inv: "stores_inv cfg w"
    and q: "\<And>R p rd h. q = Some p \<Longrightarrow> R \<in> stores_of (cfg i) \<Longrightarrow>
      (\<And>p0. iw_prog w i = Some p0 \<Longrightarrow> safe R (cfg i) p0 rd h) \<Longrightarrow> safe R (cfg i) p (if iw_prog w i = None then {} else rd) h"
  shows "stores_inv cfg (w\<lparr>iw_prog := (iw_prog w)(i := q)\<rparr>)"
proof -
  have "guarded cfg (w\<lparr>iw_prog := (iw_prog w)(i := q)\<rparr>) rg R" if g: "guarded cfg w rg R" for rg R
  proof (rule guarded_step [OF g])
    fix p rd h
    assume "region_of (cfg i) = rg" "q = Some p"
      "\<And>p0. iw_prog w i = Some p0 \<Longrightarrow> safe R (cfg i) p0 rd h \<and> (\<forall>x \<in> rd. reading_ok (cell_at w rg R) x)"
    moreover from this g have "R \<in> stores_of (cfg i)" using shared_stores by (auto simp: guarded_def)
    ultimately show "\<exists>rd' h'. safe R (cfg i) p rd' h'
        \<and> (\<forall>x \<in> rd'. reading_ok (cell_at (w\<lparr>iw_prog := (iw_prog w)(i := q)\<rparr>) rg R) x)
        \<and> (h' = h \<or> (\<exists>lo. h' = Some (lo, cell_value (cell_at (w\<lparr>iw_prog := (iw_prog w)(i := q)\<rparr>) rg R))
            \<and> cell_value (cell_at w rg R) \<le> lo))"
      using q [of p R rd h] by (intro exI [of _ "if iw_prog w i = None then {} else rd"] exI [of _ h]) auto
  qed simp_all
  with inv show ?thesis by (simp add: stores_inv_def)
qed

lemma stores_inv_cong:
  assumes "iw_local w' = iw_local w" "iw_registry w' = iw_registry w" "iw_prog w' = iw_prog w" "iw_granted w' = iw_granted w"
    "iw_intact w' = iw_intact w"
  shows "stores_inv cfg w' = stores_inv cfg w"
proof -
  have "cell_at w' rg R = cell_at w rg R" for rg R using assms(1,2) by (cases R) simp_all
  with guarded_cong [OF this assms(3)] assms show ?thesis by (simp add: stores_inv_def)
qed

lemma guarded_settled:
  assumes "\<And>i. region_of (cfg i) = rg \<Longrightarrow> iw_prog w i = None" and "shared_by cfg rg R" and "covers w rg R"
  shows "guarded cfg w rg R"
proof -
  have "holds_ok cfg w rg R (\<lambda>_. {}) (\<lambda>_. None)" using assms(1) by (auto simp: holds_ok_def)
  with assms show ?thesis by (auto simp: guarded_def)
qed

lemma region_blocks_apart:
  assumes "region_block rg a b" and "region_block rg' a' b'" and "rg \<noteq> rg'"
  shows "span a b \<inter> span a' b' = {}"
proof -
  have "unat x div 2 ^ 57 = unat rg" if "x \<in> span a b" "region_block rg a b" for x rg a b
  proof -
    from that have "unat rg * 2 ^ 57 \<le> unat x" "unat x < (unat rg + 1) * 2 ^ 57"
      by (auto simp: span_def region_block_def word_le_nat_alt word_less_nat_alt)
    then show ?thesis by (intro div_nat_eqI) simp_all
  qed
  with assms show ?thesis by (metis disjoint_iff word_unat_eq_iff)
qed

lemma stores_inv_reserved:
  assumes inv: "stores_inv cfg w" and p: "iw_prog w i = Some (Ret r)"
    and w': "iw_local w' = iw_local w" "iw_registry w' = iw_registry w" "iw_prog w' = (iw_prog w)(i := None)" "iw_intact w' = iw_intact w"
      "iw_granted w' = iw_granted w @ (case r of Inr (Reserved b) \<Rightarrow> [(region_of (cfg i), bk_pos b, bk_end b)] | _ \<Rightarrow> [])"
  shows "stores_inv cfg w'"
    and "r = Inr (Reserved b) \<Longrightarrow> block_span b \<inter> granted_ids w = {} \<and> region_block (region_of (cfg i)) (bk_pos b) (bk_end b)"
proof -
  have cell: "cell_at w' rg R = cell_at w rg R" for rg R using w'(1,2) by (cases R) simp_all
  from inv have "iw_intact w (region_of (cfg i)) \<noteq> {}" "\<forall>R \<in> iw_intact w (region_of (cfg i)). guarded cfg w (region_of (cfg i)) R"
    unfolding stores_inv_def by blast+
  then obtain R where R: "guarded cfg w (region_of (cfg i)) R" by blast
  note grant = guarded_grant [where i = i and rg = "region_of (cfg i)" and cfg = cfg, OF _ refl p cell w'(3) w'(5)]
  have guarded: "guarded cfg w' rg R" if g: "guarded cfg w rg R" for rg R
  proof (cases "region_of (cfg i) = rg")
    case True
    then show ?thesis using grant(1) g by blast
  next
    case False
    let ?w = "w\<lparr>iw_prog := (iw_prog w)(i := None)\<rparr>"
    have "guarded cfg ?w rg R" by (rule guarded_step [OF g, of _ i None]) (auto simp del: not_None_eq)
    moreover have "(rg, a, b) \<in> set (iw_granted w') \<longleftrightarrow> (rg, a, b) \<in> set (iw_granted w)" for a b
      using False w'(5) by (auto split: sum.splits outcome.splits)
    ultimately show ?thesis using w'(3) cell by (subst guarded_cong [of _ _ _ ?w]) simp_all
  qed
  have block: "region_block (region_of (cfg i)) (bk_pos b) (bk_end b)" if "r = Inr (Reserved b)" for b
    using grant(3) [OF R that] .
  show "stores_inv cfg w'" unfolding stores_inv_def
  proof (intro conjI allI)
    show "\<forall>(rg, lo, hi) \<in> set (iw_granted w'). region_block rg lo hi"
      using inv w'(5) block by (auto simp: stores_inv_def split: sum.splits outcome.splits)
  qed (use inv guarded w' in \<open>auto simp: stores_inv_def\<close>)
  assume b: "r = Inr (Reserved b)"
  have "block_span b \<inter> span lo hi = {}" if "(rg, lo, hi) \<in> set (iw_granted w)" for rg lo hi
  proof (cases "rg = region_of (cfg i)")
    case True
    with grant(2) [OF R b] that show ?thesis by (auto simp: block_span_def)
  next
    case False
    from that inv have "region_block rg lo hi" by (auto simp: stores_inv_def)
    with region_blocks_apart [OF block [OF b] this] False show ?thesis by (simp add: block_span_def)
  qed
  then show "block_span b \<inter> granted_ids w = {} \<and> region_block (region_of (cfg i)) (bk_pos b) (bk_end b)"
    using block [OF b] by (fastforce simp: granted_ids_def)
qed

lemma stores_inv_fault:
  assumes inv: "stores_inv cfg w" and "iw_prog w' = iw_prog w" "iw_granted w' = iw_granted w"
    and intact: "iw_intact w' = (\<lambda>rg. iw_intact w rg - {F})" "\<forall>rg. iw_intact w rg - {F} \<noteq> {}"
    and cell: "\<And>rg R. R \<noteq> F \<Longrightarrow> cell_at w' rg R = cell_at w rg R"
    and "\<forall>n. wf_local (iw_local w' n)" "wf_registry (iw_registry w')"
  shows "stores_inv cfg w'"
  using assms guarded_cong [of w' _ _ w cfg] by (simp add: stores_inv_def)

lemma stores_inv_step:
  assumes step: "issuer_step cfg w w'" and inv: "stores_inv cfg w" and ap: "apart cfg" and built: "\<And>i. built (pc_opt (cfg i))"
  shows "stores_inv cfg w'"
  using step
proof cases
  case (call i p p' w1)
  with stores_inv_call [OF inv ap] show ?thesis by blast
next
  case (failed i p e)
  show ?thesis unfolding failed(1) by (rule stores_inv_prog [OF inv]) (use failed(2) safe_answer_error in auto)
next
  case (unknown i p p' w1 e)
  with stores_inv_call [OF inv ap] show ?thesis by blast
next
  case (allocate i monoNow bizTag step a m started now newAuthority)
  have "stores_inv cfg (w\<lparr>iw_prog := (iw_prog w)(i \<mapsto> reserve (pc_opt (cfg i)) now newAuthority)\<rparr>)" if started
    by (rule stores_inv_prog [OF inv]) (use safe_reserve [OF _ built refl] that allocate in auto)
  with inv have "stores_inv cfg (w\<lparr>iw_prog := (if started then (iw_prog w)(i \<mapsto> reserve (pc_opt (cfg i)) now newAuthority) else iw_prog w)\<rparr>)"
    by (cases started) simp_all
  from iffD2 [OF stores_inv_cong this] show ?thesis unfolding allocate(1) by simp
next
  case (reserved i r monoNow)
  from stores_inv_reserved(1) [OF inv reserved(2)] show ?thesis unfolding reserved(1) by simp
next
  case (operate i p)
  show ?thesis unfolding operate(1) by (rule stores_inv_prog [OF inv]) (use operate safe_commands in auto)
next
  case (operated i r)
  show ?thesis unfolding operated(1) by (rule stores_inv_prog [OF inv]) simp
next
  case (close i)
  show ?thesis unfolding close by (rule iffD2 [OF stores_inv_cong inv]) simp_all
next
  case (crash i)
  have "stores_inv cfg (w\<lparr>iw_prog := (iw_prog w)(i := None)\<rparr>)" by (rule stores_inv_prog [OF inv]) simp
  then show ?thesis unfolding crash by (subst stores_inv_cong) simp_all
next
  case (fault_local e n)
  show ?thesis
    by (rule stores_inv_fault [OF inv, of _ "Local n"])
      (use fault_local inv in \<open>auto simp: stores_inv_def cell_at_def split: store_ref.splits\<close>)
next
  case (fault_registry e)
  show ?thesis
    by (rule stores_inv_fault [OF inv, of _ Global])
      (use fault_registry inv in \<open>auto simp: stores_inv_def cell_at_def split: store_ref.splits\<close>)
next
  case (settle rg S)
  have "guarded cfg w rg R" if "R \<in> S" for R using settle that by (intro guarded_settled) auto
  with inv settle(3) show ?thesis unfolding settle(1) by (auto simp: stores_inv_def guarded_cong [of "w\<lparr>iw_intact := _\<rparr>" _ _ w])
qed

section \<open>Stocks\<close>

text \<open>One issuer's stock changes: it gains at most a freshly granted block and hands out at most one segment.\<close>

lemma memory_inv_put:
  assumes inv: "memory_inv w" and mem: "iw_mem w' = (iw_mem w)(i := m)"
    and apart: "block_span (is_cur m) \<inter> next_span m = {}"
    and granted: "granted_ids w' = granted_ids w \<union> G" "G \<inter> granted_ids w = {}"
    and stock: "stock m \<subseteq> stock (iw_mem w i) \<union> G"
    and segments: "iw_segments w' = iw_segments w @ s" "s \<noteq> [] \<Longrightarrow> s = [(lo, hi)] \<and> lo < hi
      \<and> span lo hi \<subseteq> stock (iw_mem w i) \<and> span lo hi \<inter> stock m = {}"
  shows "memory_inv w'"
proof -
  let ?I = "\<Union>(lo, hi) \<in> set s. span lo hi"
  have I: "?I \<subseteq> stock (iw_mem w i)" "?I \<inter> stock m = {}" using segments(2) by (cases "s = []"; auto)+
  have issued: "issued_ids w' = issued_ids w \<union> ?I" using segments(1) by (auto simp: issued_ids_def)
  from inv have old: "stock (iw_mem w j) \<subseteq> granted_ids w" "stock (iw_mem w j) \<inter> issued_ids w = {}"
      "block_span (is_cur (iw_mem w j)) \<inter> next_span (iw_mem w j) = {}" for j
    by (auto simp: memory_inv_def)
  from inv have issued_granted: "issued_ids w \<subseteq> granted_ids w" by (simp add: memory_inv_def)
  from inv have others: "stock (iw_mem w j) \<inter> stock (iw_mem w k) = {}" if "j \<noteq> k" for j k
    using that unfolding memory_inv_def by blast
  have mine: "stock m \<inter> stock (iw_mem w j) = {}" if "j \<noteq> i" for j
    using others [OF that] stock granted(2) old(1) [of j] by blast
  have "(span a b \<inter> span lo hi = {})" if "(a, b) \<in> set (iw_segments w)" "s \<noteq> []" for a b
  proof -
    from that(1) have "span a b \<subseteq> issued_ids w" by (auto simp: issued_ids_def)
    with segments(2) [OF that(2)] old(2) [of i] show ?thesis by blast
  qed
  moreover from inv have "\<forall>(lo, hi) \<in> set (iw_segments w). lo < hi"
    "sorted_wrt (\<lambda>(lo, hi) (lo', hi'). span lo hi \<inter> span lo' hi' = {}) (iw_segments w)" by (simp_all add: memory_inv_def)
  ultimately have lists: "\<forall>(lo, hi) \<in> set (iw_segments w'). lo < hi"
    "sorted_wrt (\<lambda>(lo, hi) (lo', hi'). span lo hi \<inter> span lo' hi' = {}) (iw_segments w')"
    using segments by (cases "s = []"; fastforce simp: sorted_wrt_append)+
  have stocks: "stock (iw_mem w' j) \<subseteq> granted_ids w' \<and> stock (iw_mem w' j) \<inter> issued_ids w' = {}
      \<and> block_span (is_cur (iw_mem w' j)) \<inter> next_span (iw_mem w' j) = {}" for j
  proof (cases "j = i")
    case True
    have "stock m \<inter> issued_ids w = {}" using stock old(2) [of i] granted(2) issued_granted by blast
    moreover have "stock m \<subseteq> granted_ids w'" using stock old(1) [of i] granted(1) by blast
    ultimately show ?thesis using True apart I(2) unfolding issued mem by auto
  next
    case False
    with old [of j] others [OF False] I(1) granted(1) show ?thesis unfolding issued mem by auto
  qed
  have "stock (iw_mem w' j) \<inter> stock (iw_mem w' k) = {}" if "j \<noteq> k" for j k
    using that mine [of j] mine [of k] others [OF that] unfolding mem by (cases "j = i"; cases "k = i"; auto)
  moreover have "issued_ids w' \<subseteq> granted_ids w'" using old(1) [of i] issued_granted I(1) granted(1) unfolding issued by blast
  ultimately show ?thesis using stocks lists unfolding memory_inv_def by blast
qed

lemma memory_inv_cong:
  "iw_mem w' = iw_mem w \<Longrightarrow> iw_granted w' = iw_granted w \<Longrightarrow> iw_segments w' = iw_segments w \<Longrightarrow> memory_inv w' = memory_inv w"
  by (simp add: memory_inv_def granted_ids_def issued_ids_def)

lemma granted_ids_bound:
  assumes "stores_inv cfg w" and "x \<in> granted_ids w"
  shows "0 < x \<and> unat x < 2 ^ 63"
proof -
  from assms obtain rg lo hi where "region_block rg lo hi" "x \<in> span lo hi"
    by (fastforce simp: stores_inv_def granted_ids_def)
  then show ?thesis by (auto simp: region_block_def span_def word_less_nat_alt word_le_nat_alt)
qed

lemma memory_inv_step:
  assumes step: "issuer_step cfg w w'" and stores: "stores_inv cfg w" and inv: "memory_inv w"
  shows "memory_inv w'"
  using step
proof cases
  case (call i p p' w1)
  show ?thesis unfolding call(1) by (rule iffD2 [OF memory_inv_cong inv]) (use perform_frame [OF call(3)] in simp_all)
next
  case (unknown i p p' w1 e)
  show ?thesis unfolding unknown(1) by (rule iffD2 [OF memory_inv_cong inv]) (use perform_frame [OF unknown(3)] in simp_all)
next
  case (allocate i monoNow bizTag step a m started now newAuthority)
  from inv have old: "block_span (is_cur (iw_mem w i)) \<inter> next_span (iw_mem w i) = {}" "stock (iw_mem w i) \<subseteq> granted_ids w"
    unfolding memory_inv_def by blast+
  with granted_ids_bound [OF stores] have "\<forall>x \<in> stock (iw_mem w i). unat x < 2 ^ 63" by blast
  note out = Allocate_stock [OF allocate(2) old(1) this]
  show ?thesis unfolding allocate(1)
    by (rule memory_inv_put [OF inv, of _ i m "{}" _ "case a of Segment lo hi \<Rightarrow> lo | _ \<Rightarrow> 0" "case a of Segment lo hi \<Rightarrow> hi | _ \<Rightarrow> 0"])
      (use out in \<open>auto simp: granted_ids_def split: allocation.splits\<close>)
next
  case (reserved i r monoNow)
  from inv have old: "block_span (is_cur (iw_mem w i)) \<inter> next_span (iw_mem w i) = {}" "stock (iw_mem w i) \<subseteq> granted_ids w"
    unfolding memory_inv_def by blast+
  let ?m = "reservation_done monoNow r (iw_mem w i)"
  show ?thesis
  proof (cases "\<exists>b. r = Inr (Reserved b)")
    case True
    then obtain b where r: "r = Inr (Reserved b)" ..
    have fresh: "block_span b \<inter> granted_ids w = {}"
      by (rule conjunct1 [OF stores_inv_reserved(2) [OF stores reserved(2) _ _ _ _ _ r, of w']]) (simp_all add: reserved(1))
    with old(2) have "block_span b \<inter> stock (iw_mem w i) = {}" by blast
    from reservation_done_stock(2) [OF old(1) r this, of monoNow] fresh show ?thesis unfolding reserved(1)
      by (intro memory_inv_put [OF inv, of _ i ?m "block_span b" "[]"])
        (auto simp: granted_ids_def block_span_def r)
  next
    case False
    then have "r \<noteq> Inr (Reserved b)" for b by blast
    from reservation_done_stock(1) [OF old(1) this, of monoNow] show ?thesis unfolding reserved(1)
      by (intro memory_inv_put [OF inv, of _ i ?m "{}" "[]"])
        (use False in \<open>auto simp: granted_ids_def split: sum.splits outcome.splits\<close>)
  qed
next
  case (close i)
  then show ?thesis
    by (intro memory_inv_put [OF inv, of _ i "Close_issuer (iw_mem w i)" "{}" "[]"])
      (use inv in \<open>auto simp: granted_ids_def Close_issuer_def stock_def next_span_def memory_inv_def\<close>)
next
  case (crash i)
  then show ?thesis
    by (intro memory_inv_put [OF inv, of _ i New "{}" "[]"]) (auto simp: granted_ids_def)
qed (auto intro: iffD2 [OF memory_inv_cong inv])

lemma reachable_inv:
  assumes "issuer_reachable cfg w" and "apart cfg" and "\<And>i. built (pc_opt (cfg i))"
  shows "stores_inv cfg w \<and> memory_inv w"
proof -
  from assms(1) obtain w0 where start: "issuer_start cfg w0" and "(issuer_step cfg)\<^sup>*\<^sup>* w0 w" by (auto simp: issuer_reachable_def)
  from this(2) show ?thesis
  proof induction
    case base
    have "guarded cfg w0 rg R" if "R \<in> iw_intact w0 rg" for rg R
      using start that by (intro guarded_settled) (auto simp: issuer_start_def covers_def)
    with start show ?case by (simp add: issuer_start_def stores_inv_def memory_inv_def granted_ids_def issued_ids_def)
  next
    case (step w w')
    then show ?case using stores_inv_step [OF step(2) _ assms(2,3)] memory_inv_step [OF step(2)] by blast
  qed
qed

end
