(* ===== verification/IdProps.thy ===== *)
theory IdProps
  imports IdInv
begin

text \<open>
  What the issuer promises: segments never overlap, whatever faults and interleavings happen as long as every region keeps one
  intact store; and an undisturbed reservation succeeds and repairs the records it finds missing or behind.
\<close>

section \<open>Undisturbed runs\<close>

text \<open>The calls of one program, nothing in between.\<close>

primrec drive :: "proc_config \<Rightarrow> nat \<Rightarrow> prog \<times> issuer_world \<Rightarrow> prog \<times> issuer_world" where
  "drive c 0 pw = pw"
| "drive c (Suc n) pw = drive c n (perform c (fst pw) (snd pw))"

lemma perform_prog:
  "perform c p (w\<lparr>iw_prog := f\<rparr>) = (fst (perform c p w), (snd (perform c p w))\<lparr>iw_prog := f\<rparr>)"
  by (cases p) (simp_all add: Let_def)

lemma drive_steps:
  assumes "iw_prog w i = Some p"
  shows "(issuer_step cfg)\<^sup>*\<^sup>* w ((snd (drive (cfg i) n (p, w)))\<lparr>iw_prog := (iw_prog w)(i \<mapsto> fst (drive (cfg i) n (p, w)))\<rparr>)"
  using assms
proof (induction n arbitrary: p w)
  case 0
  then have "w\<lparr>iw_prog := (iw_prog w)(i \<mapsto> p)\<rparr> = w" by (simp add: map_upd_triv)
  then show ?case by (simp only: drive.simps fst_conv snd_conv rtranclp.rtrancl_refl)
next
  case (Suc n)
  obtain p1 w1 where one: "perform (cfg i) p w = (p1, w1)" by force
  let ?w = "w1\<lparr>iw_prog := (iw_prog w)(i \<mapsto> p1)\<rparr>"
  have other: "drive c n (q, v\<lparr>iw_prog := f\<rparr>) = (fst (drive c n (q, v)), (snd (drive c n (q, v)))\<lparr>iw_prog := f\<rparr>)" for c n q v f
    by (induction n arbitrary: q v) (simp_all add: perform_prog)
  have "issuer_step cfg w ?w" using Suc.prems one by (rule issuer_step.call)
  moreover have "(issuer_step cfg)\<^sup>*\<^sup>* ?w ((snd (drive (cfg i) n (p1, ?w)))\<lparr>iw_prog := (iw_prog ?w)(i \<mapsto> fst (drive (cfg i) n (p1, ?w)))\<rparr>)"
    by (rule Suc.IH) simp
  ultimately have "(issuer_step cfg)\<^sup>*\<^sup>* w ((snd (drive (cfg i) n (p1, ?w)))\<lparr>iw_prog := (iw_prog ?w)(i \<mapsto> fst (drive (cfg i) n (p1, ?w)))\<rparr>)"
    by (rule converse_rtranclp_into_rtranclp)
  then show ?case by (simp add: one other del: fun_upd_apply)
qed

section \<open>Reservation\<close>

lemma perform_local: "Read_local e = Inr r \<Longrightarrow> cas_local r v a e = (True, e\<lparr>le_rev := le_rev e + 1, le_kv := Some (le_rev e + 1, v, a)\<rparr>)"
  by (auto simp: Read_local_def cas_local_def casKey_def split: option.splits if_splits)

lemma perform_registry: "Read_registry e region = Inr g \<Longrightarrow> cas_registry region g c e = (True, put_claim region c e)"
  by (auto simp: Read_registry_def cas_registry_def casKey_def split: option.splits if_splits)

lemma Read_local_valid: "Read_local e = Inr r \<Longrightarrow> ir_Exists r \<Longrightarrow> ValidAuthority (ir_Authority r)"
  by (auto simp: Read_local_def split: option.splits if_splits)

lemma Read_registry_valid: "Read_registry e region = Inr g \<Longrightarrow> cr_Exists g \<Longrightarrow> validClaim (claim_of g)"
  by (auto simp: Read_registry_def claim_of_def split: option.splits if_splits)

lemma reservable_valid:
  assumes "reservable opt na v = Inr a" and "\<And>a. na = Inr a \<Longrightarrow> ValidAuthority a"
    and "ir_Exists (vw_p v) \<Longrightarrow> ValidAuthority (ir_Authority (vw_p v))" "ir_Exists (vw_s v) \<Longrightarrow> ValidAuthority (ir_Authority (vw_s v))"
    and "cr_Exists (vw_g v) \<Longrightarrow> validClaim (claim_of (vw_g v))"
  shows "ValidAuthority a" "e \<noteq> 0 \<Longrightarrow> validClaim (claimAfter v a e)"
proof -
  show "ValidAuthority a" using assms
    by (cases "cr_Exists (vw_g v)")
      (auto simp: reservable_def sum_try_def localAuthority_def validClaim_def split: sum.splits if_splits claim_state.splits)
  moreover have "cr_Exists (vw_g v) \<Longrightarrow> a = cl_Authority (claim_of (vw_g v)) \<and> cl_State (claim_of (vw_g v)) = ClaimActive" using assms(1)
    by (auto simp: reservable_def sum_try_def split: sum.splits if_splits)
  ultimately show "e \<noteq> 0 \<Longrightarrow> validClaim (claimAfter v a e)"
    by (auto simp: claimAfter_def Let_def validClaim_def no_claim_def)
qed

lemma read_missing: "Read_local e = Inr r \<Longrightarrow> \<not> ir_Exists r \<Longrightarrow> ir_Value r = 0"
  by (auto simp: Read_local_def split: option.splits if_splits)

lemma view_block:
  assumes "built opt" and "reservable opt na v = Inr a" and "\<not> ir_Exists (vw_p v) \<Longrightarrow> ir_Value (vw_p v) = 0"
    "\<not> ir_Exists (vw_s v) \<Longrightarrow> ir_Value (vw_s v) = 0" and "nextStart opt t v + op_BlockSize opt < limit opt"
  shows "region_block (op_Region opt) (nextStart opt t v) (nextStart opt t v + op_BlockSize opt)"
proof (rule nextStart_block [OF assms(1)])
  show "checkRegion opt v = Inr ()" using assms(2) by (auto simp: reservable_def sum_try_def split: sum.splits)
  show "seen Global c v UNIV" for c
    using assms(3,4) by (auto simp: seen_def of_role_def split: local_role.splits)
qed (use assms(5) in auto)

text \<open>Calls one by one.\<close>

lemma drive_Ret: "drive c n (Ret r, w) = (Ret r, w)"
  by (induction n) simp_all

lemma drive_read_view:
  assumes "Read_registry (iw_registry w) (region_of c) = Inr g" and "Read_local (iw_local w (store_id c Primary)) = Inr p"
    and "Read_local (iw_local w (store_id c Secondary)) = Inr s"
  shows "drive c (3 + n) (read_view k, w) = drive c n (k \<lparr>vw_p = p, vw_s = s, vw_g = g\<rparr>, w)"
  using assms by (simp add: numeral_3_eq_3 read_view_def prog_try_def)

lemma drive_cas:
  assumes "Read_local (iw_local w (store_id c role)) = Inr r" and "v \<noteq> 0" and "ValidAuthority a"
  shows "drive c (Suc n) (cas_then role r v a again k, w) = drive c n (k, w\<lparr>iw_local := (iw_local w)(store_id c role :=
      (iw_local w (store_id c role))\<lparr>le_rev := le_rev (iw_local w (store_id c role)) + 1,
        le_kv := Some (le_rev (iw_local w (store_id c role)) + 1, v, a)\<rparr>)\<rparr>)"
  using assms by (simp add: cas_then_def CompareAndSwap_def prog_try_def perform_local [OF assms(1)])

lemma drive_cas_registry:
  assumes "Read_registry (iw_registry w) (region_of c) = Inr g" and "validClaim cl"
  shows "drive c (Suc n) (cas_registry_then g cl again k, w)
    = drive c n (k, w\<lparr>iw_registry := put_claim (region_of c) cl (iw_registry w)\<rparr>)"
  using assms by (simp add: cas_registry_then_def CompareAndSwap_registry_def prog_try_def perform_registry [OF assms(1)])

lemma drive_ReadRegistry:
  "Read_registry (iw_registry w) (region_of c) = Inr g \<Longrightarrow> drive c (Suc n) (ReadRegistry k, w) = drive c n (k (Inr g), w)"
  by simp

lemma drive_Suc_3: "drive c 4 = drive c (Suc 3)" "drive c (3 + 1) = drive c (Suc 3)"
  by (simp_all add: numeral_eq_Suc)

lemma reserve_eight: "reserve_from opt now newAuthority reserveAttempts = reserve_from opt now newAuthority (Suc 7)"
  by (simp add: numeral_eq_Suc)

lemma drive_reserve:
  assumes built: "built (pc_opt c)" and two: "pc_primary c \<noteq> pc_secondary c"
    and g: "Read_registry (iw_registry w) (region_of c) = Inr g"
    and p: "Read_local (iw_local w (pc_primary c)) = Inr p" and s: "Read_local (iw_local w (pc_secondary c)) = Inr s"
    and v: "v = \<lparr>vw_p = p, vw_s = s, vw_g = g\<rparr>"
    and ok: "reservable (pc_opt c) (newAuthority 7) v = Inr a" and new: "\<forall>a. newAuthority 7 = Inr a \<longrightarrow> ValidAuthority a"
    and room: "nextStart (pc_opt c) (now 7) v + op_BlockSize (pc_opt c) < limit (pc_opt c)"
  shows "\<exists>w'. drive c 7 (reserve (pc_opt c) now newAuthority, w) = (Ret (Inr (Reserved \<lparr>bk_pos = nextStart (pc_opt c) (now 7) v, bk_end = nextStart (pc_opt c) (now 7) v + op_BlockSize (pc_opt c),
      bk_halfway = nextStart (pc_opt c) (now 7) v + op_BlockSize (pc_opt c) div 2\<rparr>)), w')
    \<and> region_block (region_of c) (nextStart (pc_opt c) (now 7) v) (nextStart (pc_opt c) (now 7) v + op_BlockSize (pc_opt c))
    \<and> (\<forall>role. map_option snd (le_kv (iw_local w' (store_id c role))) = Some (nextStart (pc_opt c) (now 7) v + op_BlockSize (pc_opt c), a))
    \<and> map_option snd (map_of (re_claims (iw_registry w')) (region_of c))
        = Some (claimAfter v a (nextStart (pc_opt c) (now 7) v + op_BlockSize (pc_opt c)))"
proof -
  let ?opt = "pc_opt c"
  let ?start = "nextStart ?opt (now 7) v"
  let ?e = "?start + op_BlockSize ?opt"
  have view: "vw_p v = p" "vw_s v = s" "vw_g v = g" by (simp_all add: v)
  have block: "region_block (region_of c) ?start ?e"
    by (rule view_block [OF built ok _ _ room]) (auto simp: view read_missing [OF p] read_missing [OF s])
  then have e: "?e \<noteq> 0" by (auto simp: region_block_def)
  have valid: "ValidAuthority a" "validClaim (claimAfter v a ?e)"
    using reservable_valid(1) [OF ok] reservable_valid(2) [OF ok _ _ _ _ e] new Read_local_valid [OF p] Read_local_valid [OF s] Read_registry_valid [OF g]
    by (auto simp: view)
  let ?w = "\<lambda>role w. w\<lparr>iw_local := (iw_local w)(store_id c role :=
      (iw_local w (store_id c role))\<lparr>le_rev := le_rev (iw_local w (store_id c role)) + 1,
        le_kv := Some (le_rev (iw_local w (store_id c role)) + 1, ?e, a)\<rparr>)\<rparr>"
  let ?w' = "(?w Secondary (?w Primary w))\<lparr>iw_registry := put_claim (region_of c) (claimAfter v a ?e) (iw_registry w)\<rparr>"
  let ?b = "\<lparr>bk_pos = ?start, bk_end = ?e, bk_halfway = ?start + op_BlockSize ?opt div 2\<rparr>"
  have ids: "store_id c Primary = pc_primary c" "store_id c Secondary = pc_secondary c" by (simp_all add: store_id_def)
  have writes: "drive c (3 + n) (cas_then Primary p ?e a again (cas_then Secondary s ?e a again (cas_registry_then g (claimAfter v a ?e) again (Ret r))), w)
      = (Ret r, ?w')" for n again r
    using p s g valid e two
    by (simp add: numeral_3_eq_3 drive_cas drive_cas_registry drive_Ret ids del: drive.simps(2))
  have full: "(limit ?opt \<le> ?e) = False" using room by simp
  have four: "drive c 4 (if cond then ReadRegistry (\<lambda>r. prog_try r (\<lambda>latest. if latest \<noteq> g then again else W)) else W, w) = (Ret r, ?w')"
    if "W = cas_then Primary p ?e a again (cas_then Secondary s ?e a again (cas_registry_then g (claimAfter v a ?e) again (Ret r)))"
    for cond again r W
    unfolding that
    by (cases cond) (simp_all only: if_True if_False drive_Suc_3(1) drive_ReadRegistry [OF g] prog_try_def sum.case writes [of 0, unfolded add_0_right]
        writes [of 1, unfolded drive_Suc_3(2)] not_True_eq_False refl simp_thms)
  have "drive c (3 + 4) (reserve ?opt now newAuthority, w) = (Ret (Inr (Reserved ?b)), ?w')"
    unfolding reserve_def reserve_eight reserve_from.simps drive_read_view [OF g p [folded ids(1)] s [folded ids(2)]] v [symmetric] view
      Let_def ok full if_False prog_try_def [of "Inr a"] sum.case
    by (rule four) (rule refl)
  moreover have "map_option snd (le_kv (iw_local ?w' (store_id c role))) = Some (?e, a)" for role
    by (cases role) (simp_all add: ids two two [symmetric])
  moreover have "map_option snd (map_of (re_claims (iw_registry ?w')) (region_of c)) = Some (claimAfter v a ?e)"
    by (simp add: put_claim_def update_conv')
  ultimately show ?thesis using block
    by (intro exI [of _ ?w']) (simp only: block.simps add_numeral_special numeral_plus_numeral add_num_simps simp_thms)
qed


text \<open>A region whose secondary record is missing.\<close>

definition sample_authority :: string where "sample_authority = replicate 32 CHR ''a''"

definition sample_config :: proc_config where
  "sample_config = \<lparr>pc_opt = \<lparr>op_Region = 1, op_BlockSize = 10000000, op_AllowBootstrap = False, op_Tags = [''player'']\<rparr>,
     pc_primary = 0, pc_secondary = 1\<rparr>"

definition sample_world :: issuer_world where
  "sample_world = \<lparr>
     iw_local = (\<lambda>n. if n = 0 then \<lparr>le_cluster = 11, le_rev = 4, le_kv = Some (4, 144115188075855873, sample_authority)\<rparr>
                 else \<lparr>le_cluster = 12, le_rev = 0, le_kv = None\<rparr>),
     iw_registry = \<lparr>re_cluster = 13, re_rev = 2, re_claims = [(1, 2, \<lparr>cl_State = ClaimActive, cl_Authority = sample_authority,
       cl_PrimaryCluster = 11, cl_SecondaryCluster = 12, cl_HighWater = 144115188075855873, cl_Blocks = 0\<rparr>)], re_next = Some (2, 2)\<rparr>,
     iw_prog = (\<lambda>_. None), iw_mem = (\<lambda>_. New), iw_granted = [], iw_segments = [], iw_intact = (\<lambda>_. {Global})\<rparr>"

definition sample_view :: view where
  "sample_view = \<lparr>vw_p = \<lparr>ir_Value = 144115188075855873, ir_Authority = sample_authority, ir_Revision = 4, ir_Exists = True, ir_ClusterID = 11\<rparr>,
     vw_s = \<lparr>ir_Value = 0, ir_Authority = [], ir_Revision = 0, ir_Exists = False, ir_ClusterID = 12\<rparr>,
     vw_g = \<lparr>cr_Claim = Some \<lparr>cl_State = ClaimActive, cl_Authority = sample_authority, cl_PrimaryCluster = 11,
       cl_SecondaryCluster = 12, cl_HighWater = 144115188075855873, cl_Blocks = 0\<rparr>, cr_Revision = 2, cr_ClusterID = 13\<rparr>\<rparr>"

lemma sample_built: "built (pc_opt sample_config)"
  by code_simp

lemma sample_facts:
  "pc_primary sample_config \<noteq> pc_secondary sample_config"
  "Read_registry (iw_registry sample_world) (region_of sample_config) = Inr (vw_g sample_view)"
  "Read_local (iw_local sample_world (pc_primary sample_config)) = Inr (vw_p sample_view)"
  "Read_local (iw_local sample_world (pc_secondary sample_config)) = Inr (vw_s sample_view)"
  "reservable (pc_opt sample_config) (Inl ErrAuthority) sample_view = Inr sample_authority"
  "nextStart (pc_opt sample_config) 1767225601 sample_view + op_BlockSize (pc_opt sample_config) < limit (pc_opt sample_config)"
  by code_simp+


section \<open>Segments\<close>

lemma disjoint_spans:
  assumes "span lo hi \<inter> span lo' hi' = {}" and "lo < hi" and "lo' < hi'"
  shows "hi \<le> lo' \<or> hi' \<le> lo"
proof (rule ccontr)
  assume "\<not> ?thesis"
  with assms(2,3) have "max lo lo' \<in> span lo hi \<inter> span lo' hi'" by (auto simp: span_def max_def)
  with assms(1) show False by blast
qed

lemma reachable_segments:
  assumes "issuer_reachable cfg w" and "apart cfg" and "\<forall>i. built (pc_opt (cfg i))"
  shows "sorted_wrt (\<lambda>(lo, hi) (lo', hi'). hi \<le> lo' \<or> hi' \<le> lo) (iw_segments w)
    \<and> (\<forall>(lo, hi) \<in> set (iw_segments w). 0 < lo \<and> lo < hi \<and> unat hi \<le> 2 ^ 63)"
proof -
  from reachable_inv [OF assms(1,2)] assms(3) have stores: "stores_inv cfg w" and mem: "memory_inv w" by simp_all
  from mem have lt: "lo < hi" if "(lo, hi) \<in> set (iw_segments w)" for lo hi using that by (auto simp: memory_inv_def)
  from mem have "sorted_wrt (\<lambda>(lo, hi) (lo', hi'). span lo hi \<inter> span lo' hi' = {}) (iw_segments w)" by (simp add: memory_inv_def)
  then have "sorted_wrt (\<lambda>(lo, hi) (lo', hi'). hi \<le> lo' \<or> hi' \<le> lo) (iw_segments w)"
    by (rule sorted_wrt_mono_rel [rotated]) (auto dest: disjoint_spans [OF _ lt lt])
  moreover have "0 < lo \<and> unat hi \<le> 2 ^ 63" if s: "(lo, hi) \<in> set (iw_segments w)" for lo hi
  proof -
    from s mem have "span lo hi \<subseteq> granted_ids w" by (auto simp: memory_inv_def issued_ids_def)
    moreover from lt [OF s] have pred: "unat (hi - 1) = unat hi - 1" by (intro unat_minus_one) auto
    moreover from lt [OF s] have "lo \<in> span lo hi" "hi - 1 \<in> span lo hi"
      by (auto simp: span_def word_le_nat_alt word_less_nat_alt pred simp del: One_nat_def)
    ultimately have "0 < lo" "unat hi - 1 < 2 ^ 63" using granted_ids_bound [OF stores] by force+
    then show ?thesis by simp
  qed
  ultimately show ?thesis using lt by blast
qed

text \<open>C9: Whatever processes of whatever regions do concurrently, and whatever stores lose while every region keeps one
  intact store, no two segments handed out overlap, and each is non-empty and inside [1, 2^63).\<close>

theorem segments_never_overlap:
  assumes "issuer_reachable cfg w" and "apart cfg" and "\<forall>i. built (pc_opt (cfg i))"
  shows "sorted_wrt (\<lambda>(lo, hi) (lo', hi'). hi \<le> lo' \<or> hi' \<le> lo) (iw_segments w)
    \<and> (\<forall>(lo, hi) \<in> set (iw_segments w). 0 < lo \<and> lo < hi \<and> unat hi \<le> 2 ^ 63)"
  using reachable_segments [OF assms] .

text \<open>From the sample world a first request starts a reservation, which runs undisturbed; then two segments are cut.\<close>

lemma drive_frame:
  "iw_mem (snd (drive c n pw)) = iw_mem (snd pw)" "iw_granted (snd (drive c n pw)) = iw_granted (snd pw)"
  "iw_segments (snd (drive c n pw)) = iw_segments (snd pw)"
  by (induction n arbitrary: pw) (simp_all add: perform_frame [OF prod.collapse [symmetric]])

lemma sample_start: "issuer_start (\<lambda>_. sample_config) sample_world"
  by (auto simp: issuer_start_def sample_world_def wf_local_def wf_registry_def shared_by_def)

definition sample_reserve :: prog where
  "sample_reserve = reserve (pc_opt sample_config) (\<lambda>_. 1767225601) (\<lambda>_. Inl ErrAuthority)"

definition sample_block :: block where
  "sample_block = \<lparr>bk_pos = 144115188092633088, bk_end = 144115188102633088, bk_halfway = 144115188097633088\<rparr>"

lemma sample_first: "Allocate (pc_opt sample_config) 0 ''player'' 10 New = (AwaitReservation, New\<lparr>is_inflight := True\<rparr>)"
  by code_simp

lemma sample_second:
  "Allocate (pc_opt sample_config) 0 ''player'' 10 (reservation_done 0 (Inr (Reserved sample_block)) (New\<lparr>is_inflight := True\<rparr>))
    = (Segment 144115188092633088 144115188092633098, New\<lparr>is_cur := sample_block\<lparr>bk_pos := 144115188092633098\<rparr>\<rparr>)"
  by code_simp

lemma sample_third:
  "Allocate (pc_opt sample_config) 0 ''player'' 10 (New\<lparr>is_cur := sample_block\<lparr>bk_pos := 144115188092633098\<rparr>\<rparr>)
    = (Segment 144115188092633098 144115188092633108, New\<lparr>is_cur := sample_block\<lparr>bk_pos := 144115188092633108\<rparr>\<rparr>)"
  by code_simp

lemma sample_drive:
  "fst (drive sample_config 7 (sample_reserve, sample_world\<lparr>iw_mem := m, iw_prog := p\<rparr>)) = Ret (Inr (Reserved sample_block))"
proof -
  have view: "sample_view = \<lparr>vw_p = vw_p sample_view, vw_s = vw_s sample_view, vw_g = vw_g sample_view\<rparr>" by simp
  have "nextStart (pc_opt sample_config) 1767225601 sample_view = 144115188092633088" by code_simp
  moreover have "op_BlockSize (pc_opt sample_config) = 10000000" by code_simp
  ultimately show ?thesis
    using drive_reserve [of sample_config "sample_world\<lparr>iw_mem := m, iw_prog := p\<rparr>", OF sample_built sample_facts(1) _ _ _ view,
        of "\<lambda>_. Inl ErrAuthority" sample_authority "\<lambda>_. 1767225601"] sample_facts(2-6)
    by (auto simp: sample_block_def sample_reserve_def)
qed

lemma sample_run:
  "\<exists>w. (issuer_step (\<lambda>_. sample_config))\<^sup>*\<^sup>* sample_world w
    \<and> iw_segments w = [(144115188092633088, 144115188092633098), (144115188092633098, 144115188092633108)]"
proof -
  let ?step = "issuer_step (\<lambda>_. sample_config)"
  let ?w1 = "sample_world\<lparr>iw_mem := (\<lambda>_. New)(0 := New\<lparr>is_inflight := True\<rparr>), iw_prog := (\<lambda>_. None)(0 \<mapsto> sample_reserve)\<rparr>"
  have first: "?step sample_world ?w1"
    using issuer_step.allocate [of "\<lambda>_. sample_config" 0 0 "''player''" 10 sample_world _ _ True "\<lambda>_. 1767225601" "\<lambda>_. Inl ErrAuthority"]
      sample_first by (simp add: sample_world_def New_def sample_reserve_def)
  let ?w2 = "(snd (drive sample_config 7 (sample_reserve, ?w1)))\<lparr>iw_prog := (iw_prog ?w1)(0 \<mapsto> Ret (Inr (Reserved sample_block)))\<rparr>"
  have run: "?step\<^sup>*\<^sup>* ?w1 ?w2"
    using drive_steps [of ?w1 0 sample_reserve "\<lambda>_. sample_config" 7] sample_drive by simp
  have w2: "iw_prog ?w2 0 = Some (Ret (Inr (Reserved sample_block)))" "iw_mem ?w2 0 = New\<lparr>is_inflight := True\<rparr>" "iw_segments ?w2 = []"
    by (simp_all add: drive_frame sample_world_def)
  let ?m = "reservation_done 0 (Inr (Reserved sample_block)) (New\<lparr>is_inflight := True\<rparr>)"
  obtain w3 where w3: "?step ?w2 w3" "iw_mem w3 0 = ?m" "iw_segments w3 = []"
    using issuer_step.reserved [OF w2(1), of "\<lambda>_. sample_config" 0] w2(2,3) by (force simp: New_def)
  let ?cut = "\<lambda>pos. New\<lparr>is_cur := sample_block\<lparr>bk_pos := pos\<rparr>\<rparr>"
  have cut: "\<exists>w'. ?step w w' \<and> iw_mem w' 0 = m' \<and> iw_segments w' = iw_segments w @ [(lo, hi)]"
    if "Allocate (pc_opt sample_config) 0 ''player'' 10 (iw_mem w 0) = (Segment lo hi, m')" "\<not> is_inflight m'" for w lo hi m'
    using issuer_step.allocate [of "\<lambda>_. sample_config" 0 0 "''player''" 10 w _ _ False] that by force
  obtain w4 where w4: "?step w3 w4" "iw_mem w4 0 = ?cut 144115188092633098" "iw_segments w4 = [(144115188092633088, 144115188092633098)]"
    using cut [of w3, unfolded w3(2), OF sample_second] w3(3) by (auto simp: New_def)
  obtain w5 where w5: "?step w4 w5" "iw_segments w5 = iw_segments w4 @ [(144115188092633098, 144115188092633108)]"
    using cut [of w4, unfolded w4(2), OF sample_third] by (auto simp: New_def)
  have "?step\<^sup>*\<^sup>* sample_world w5"
    using first run w3(1) w4(1) w5(1) by (meson converse_rtranclp_into_rtranclp rtranclp.rtrancl_into_rtrancl)
  then show ?thesis using w4(3) w5(2) by auto
qed

theorem segments_never_overlap_witness:
  "\<exists>w. issuer_reachable (\<lambda>_. sample_config) w \<and> length (iw_segments w) = 2
    \<and> sorted_wrt (\<lambda>(lo, hi) (lo', hi'). hi \<le> lo' \<or> hi' \<le> lo) (iw_segments w)"
proof -
  obtain w where w: "issuer_reachable (\<lambda>_. sample_config) w" "length (iw_segments w) = 2"
    using sample_run sample_start by (force simp: issuer_reachable_def)
  have "apart (\<lambda>_. sample_config)" by (simp add: apart_def)
  with segments_never_overlap [OF w(1)] sample_built w show ?thesis by blast
qed

end
