(* ===== verification/IdMix.thy ===== *)
theory IdMix
  imports Prelude
begin

text \<open>
  Scattering of permanent ids (\<^verbatim>\<open>src/go/shared/idsegment/mix.go\<close>): a counter value of 63 bits is mapped to the id
  that is given out, and back.  Both directions are shown inverse to each other on 63 bits.
\<close>

unbundle bit_operations_syntax

section \<open>The functions\<close>

abbreviation (input) mixBits :: nat where "mixBits \<equiv> 63"

definition mixMask :: u64 where "mixMask = push_bit mixBits 1 - 1"
definition mixC1 :: u64 where "mixC1 = 0xbf58476d1ce4e5b9"
definition mixC2 :: u64 where "mixC2 = 0x94d049bb133111eb"
definition mixC1Inv :: u64 where "mixC1Inv = 0x16de1b173f119089"
definition mixC2Inv :: u64 where "mixC2Inv = 0x319642b2d24d8ec3"

definition MixID :: "u64 \<Rightarrow> u64" where
  "MixID x0 =
     (let x = x0 AND mixMask;
          x = x XOR drop_bit 30 x;
          x = x * mixC1 AND mixMask;
          x = x XOR drop_bit 27 x;
          x = x * mixC2 AND mixMask
      in x XOR drop_bit 31 x)"

text \<open>The loop \<open>for s := k; s < mixBits; s += k\<close>; the shift is never 0.\<close>

function unXorShift_from :: "u64 \<Rightarrow> nat \<Rightarrow> nat \<Rightarrow> u64 \<Rightarrow> u64" where
  "unXorShift_from y k s x =
     (if s < mixBits \<and> k \<noteq> 0 then unXorShift_from y k (s + k) (y XOR drop_bit k x) else x)"
  by auto
termination by (relation "measure (\<lambda>(y, k, s, x). mixBits - s)") auto

declare unXorShift_from.simps [simp del]

definition unXorShift :: "u64 \<Rightarrow> nat \<Rightarrow> u64" where
  "unXorShift y k = unXorShift_from y k k y"

definition UnmixID :: "u64 \<Rightarrow> u64" where
  "UnmixID y0 =
     (let y = y0 AND mixMask;
          y = unXorShift y 31;
          y = y * mixC2Inv AND mixMask;
          y = unXorShift y 27;
          y = y * mixC1Inv AND mixMask
      in unXorShift y 30)"

section \<open>Each stage can be undone\<close>

definition xor_shift :: "nat \<Rightarrow> u64 \<Rightarrow> u64" where "xor_shift k x = x XOR drop_bit k x"

definition narrow :: "u64 \<Rightarrow> bool" where "narrow x \<longleftrightarrow> take_bit mixBits x = x"

lemma and_mixMask: "x AND mixMask = take_bit mixBits x"
  by (simp add: mixMask_def take_bit_eq_mask mask_eq_decr_exp push_bit_of_1)

lemma MixID_stages:
  "MixID x = xor_shift 31 (take_bit mixBits (xor_shift 27 (take_bit mixBits (xor_shift 30 (take_bit mixBits x) * mixC1)) * mixC2))"
  by (simp add: MixID_def Let_def and_mixMask xor_shift_def)

lemma UnmixID_stages:
  "UnmixID y = unXorShift (take_bit mixBits (unXorShift (take_bit mixBits (unXorShift (take_bit mixBits y) 31 * mixC2Inv)) 27 * mixC1Inv)) 30"
  by (simp add: UnmixID_def Let_def and_mixMask)

lemma narrow_iff: "narrow x \<longleftrightarrow> (\<forall>n \<ge> mixBits. \<not> bit x n)"
  unfolding narrow_def using bit_imp_le_length [of x] by (fastforce simp: bit_eq_iff bit_take_bit_iff not_le)

lemma narrow_eq [simp]: "narrow x \<Longrightarrow> take_bit mixBits x = x"
  by (simp add: narrow_def)

lemma narrow_take_bit [simp]: "narrow (take_bit mixBits x)"
  by (simp add: narrow_def)

lemma bit_xor_shift: "bit (xor_shift k x) n \<longleftrightarrow> bit x n \<noteq> bit x (k + n)"
  by (auto simp: xor_shift_def bit_simps)

lemma narrow_xor_shift [simp]: "narrow x \<Longrightarrow> narrow (xor_shift k x)"
  by (simp add: narrow_iff bit_xor_shift)

lemma unXorShift_from_step: "s < mixBits \<Longrightarrow> 0 < k \<Longrightarrow>
    unXorShift_from y k s x = unXorShift_from y k (s + k) (y XOR drop_bit k x)"
  by (subst unXorShift_from.simps) simp

lemma unXorShift_from_done: "\<not> s < mixBits \<Longrightarrow> unXorShift_from y k s x = x"
  by (subst unXorShift_from.simps) simp

text \<open>Each round settles \<open>k\<close> more bits from the top.\<close>

lemma unXorShift_from_inverse:
  assumes k: "0 < k" and "\<And>n. mixBits \<le> n + s \<Longrightarrow> bit z n \<longleftrightarrow> bit x n"
  shows "unXorShift_from (xor_shift k x) k s z = x"
  using assms(2)
proof (induction "mixBits - s" arbitrary: s z rule: less_induct)
  case less
  show ?case
  proof (cases "s < mixBits")
    case True
    have "unXorShift_from (xor_shift k x) k (s + k) (xor_shift k x XOR drop_bit k z) = x"
    proof (rule less(1))
      fix n assume "mixBits \<le> n + (s + k)"
      with less(2) [of "k + n"] show "bit (xor_shift k x XOR drop_bit k z) n \<longleftrightarrow> bit x n"
        by (auto simp: bit_simps bit_xor_shift ac_simps)
    qed (use True k in simp)
    with unXorShift_from_step [OF True k] show ?thesis by simp
  next
    case False
    with less(2) have "z = x" by (auto intro: bit_eqI)
    with unXorShift_from_done [OF False] show ?thesis by simp
  qed
qed

lemma unXorShift_xor_shift [simp]: "narrow x \<Longrightarrow> 0 < k \<Longrightarrow> unXorShift (xor_shift k x) k = x"
  unfolding unXorShift_def
  by (rule unXorShift_from_inverse) (auto simp: narrow_iff bit_xor_shift ac_simps)

lemma take_bit_mult_word: "take_bit n (take_bit n a * b) = take_bit n (a * b)" for a b :: "'a :: len word"
proof -
  have "uint (take_bit n (take_bit n a * b)) = take_bit (min n LENGTH('a)) (take_bit n (uint a) * uint b)"
    by (simp add: unsigned_take_bit_eq uint_word_arith_bintrs)
  also have "\<dots> = take_bit (min n LENGTH('a)) (uint a * uint b)"
    by (subst (1 2) take_bit_mult [symmetric]) simp
  also have "\<dots> = uint (take_bit n (a * b))" by (simp add: unsigned_take_bit_eq uint_word_arith_bintrs)
  finally show ?thesis by (rule unsigned_word_eqI)
qed

lemma narrow_mult_inverse:
  assumes "narrow x" and "take_bit mixBits (c * d) = 1"
  shows "take_bit mixBits (take_bit mixBits (x * c) * d) = x"
proof -
  have "take_bit mixBits (take_bit mixBits (x * c) * d) = take_bit mixBits ((c * d) * x)"
    by (simp add: take_bit_mult_word) (simp add: ac_simps)
  also have "\<dots> = take_bit mixBits (take_bit mixBits (c * d) * x)" by (simp only: take_bit_mult_word)
  finally show ?thesis using assms by (simp add: narrow_def)
qed

lemma mix_inverses: "take_bit mixBits (mixC1 * mixC1Inv) = 1" "take_bit mixBits (mixC2 * mixC2Inv) = 1"
  by (simp_all add: mixC1_def mixC1Inv_def mixC2_def mixC2Inv_def)

lemmas mix_undo = narrow_mult_inverse [OF _ mix_inverses(1)] narrow_mult_inverse [OF _ mix_inverses(2)]

section \<open>Round trip\<close>

lemma UnmixID_MixID: "UnmixID (MixID x) = take_bit mixBits x"
  by (simp add: UnmixID_stages MixID_stages mix_undo)

lemma narrow_MixID [simp]: "narrow (MixID x)"
  by (simp add: MixID_stages)

lemma MixID_eq_iff: "MixID x = MixID y \<longleftrightarrow> take_bit mixBits x = take_bit mixBits y"
  by (metis MixID_stages UnmixID_MixID)

text \<open>\<open>MixID\<close> is injective on the 63-bit words, hence onto them, and its left inverse is its inverse.\<close>

lemma MixID_UnmixID: "MixID (UnmixID y) = take_bit mixBits y"
proof -
  have "inj_on MixID (Collect narrow)" by (rule inj_onI) (simp add: MixID_eq_iff)
  then have "MixID ` Collect narrow = Collect narrow" by (intro endo_inj_surj) auto
  then obtain x where x: "take_bit mixBits y = MixID x" "narrow x"
    by (metis (mono_tags) imageE mem_Collect_eq narrow_take_bit)
  have "UnmixID y = UnmixID (take_bit mixBits y)" by (simp add: UnmixID_stages)
  with x show ?thesis by (simp add: UnmixID_MixID)
qed

lemma narrow_less: "narrow x \<longleftrightarrow> unat x < 2 ^ mixBits"
  by (metis narrow_def take_bit_nat_eq_self_iff unsigned_take_bit_eq unsigned_word_eqI)

lemma MixID_0 [simp]: "MixID 0 = 0"
  by (simp add: MixID_stages xor_shift_def)

lemma MixID_nonzero: "x \<noteq> 0 \<Longrightarrow> narrow x \<Longrightarrow> MixID x \<noteq> 0"
  using MixID_eq_iff [of x 0] by simp

text \<open>C40: scattering loses nothing: on 63 bits \<open>MixID\<close> and \<open>UnmixID\<close> are inverse to each other, so different counter
  values give different ids, an id is never negative as a signed integer, and only the counter value 0
  gives the id 0.\<close>

theorem MixID_bijective:
  "UnmixID (MixID x) = x AND mixMask \<and> MixID (UnmixID x) = x AND mixMask
   \<and> unat (MixID x) < 2 ^ 63 \<and> (MixID x = MixID y \<longleftrightarrow> x AND mixMask = y AND mixMask)
   \<and> (MixID x = 0 \<longleftrightarrow> x AND mixMask = 0)"
  using MixID_eq_iff [of x 0]
  by (simp add: UnmixID_MixID MixID_UnmixID and_mixMask MixID_eq_iff narrow_less [symmetric, simplified])

text \<open>Samples that \<^verbatim>\<open>mix_test.go\<close> fixes for the implementations in Go and C++.\<close>

lemma MixID_samples:
  "MixID 1 = 2558316640067307269 \<and> MixID 16777217 = 442559913109642155
   \<and> MixID 144115188075855871 = 1772925764027790080 \<and> UnmixID 6514504133438201533 = 9223372036854775807"
  by code_simp

end
