(* ===== verification/IdClient.thy ===== *)
theory IdClient
  imports IdMix Complex_Main
begin

text \<open>
  The client of the id issuer (\<^verbatim>\<open>src/go/shared/idsegment/client.go\<close>, \<^verbatim>\<open>minter.go\<close>, \<^verbatim>\<open>conf.go\<close>): a current
  segment, one prefetched segment, at most one fetch in flight.  State is what the lock protects; an operation is one pass
  under the lock, and says whether its caller has an answer or waits.  A pass gets one reading of the clock (in
  nanoseconds).  The rounding of the float product in \<open>prefetchThreshold\<close> is the argument \<open>ceil_at\<close>.  Logging is left out.
\<close>

section \<open>State\<close>

abbreviation (input) DefaultMaxIDExclusive :: u64 where "DefaultMaxIDExclusive \<equiv> 9223372036854775808"
abbreviation (input) DefaultMinStep :: u32 where "DefaultMinStep \<equiv> 10"
abbreviation (input) DefaultMaxStep :: u32 where "DefaultMaxStep \<equiv> 1000"
abbreviation (input) stepGrowBelow :: int where "stepGrowBelow \<equiv> 900000000000"
abbreviation (input) stepShrinkAbove :: int where "stepShrinkAbove \<equiv> 1800000000000"
abbreviation (input) recentRangeWindow :: nat where "recentRangeWindow \<equiv> 16"

text \<open>\<open>FetchFailed\<close> stands for an error of the transport, of the context, or a panic in the call.\<close>

datatype client_error =
    ErrInvalidOptions | ErrRangeViolation | ErrClientClosed | ErrDrainUnknown | ErrNoIDSource | RPCError u32 | FetchFailed
  | ErrSegmentUnavailable client_error

text \<open>\<open>so_PrefetchAt\<close> is \<open>None\<close> for NaN and for the infinities, which \<open>New\<close> refuses alike.\<close>

record client_options =
  so_BizTag :: string
  so_Step :: u32
  so_MinStep :: u32
  so_MaxStep :: u32
  so_PrefetchAt :: "rat option"
  so_MaxIDExclusive :: u64
  so_RetryBackoff :: int
  so_FetchTimeout :: int

record segment =
  sg_pos :: u64
  sg_hi :: u64
  sg_prefetchAt :: u64

definition seg_remaining :: "segment \<Rightarrow> u64" where
  "seg_remaining s = (if sg_pos s \<ge> sg_hi s then 0 else sg_hi s - sg_pos s)"

text \<open>\<open>cn_inflight\<close> is the step of the fetch in flight; \<open>None\<close> in the two times is the zero time.\<close>

record seg_client =
  cn_opt :: client_options
  cn_cur :: segment
  cn_next :: "segment option"
  cn_step :: u32
  cn_curInstalledAt :: "int option"
  cn_inflight :: "u32 option"
  cn_notBefore :: "int option"
  cn_highWater :: u64
  cn_recent :: "(u64 \<times> u64) list"
  cn_recentCount :: u64
  cn_closed :: bool
  cn_draining :: bool
  cn_fetchesSettled :: u64
  cn_fetchesUnknown :: u64
  cn_issued :: u64
  cn_fetches :: u64
  cn_fetchErrors :: u64
  cn_fetchesStarted :: u64
  cn_rangeViolations :: u64
  cn_unavailableN :: u64

section \<open>Operations\<close>

definition fresh_client :: "client_options \<Rightarrow> seg_client" where
  "fresh_client opt = \<lparr>cn_opt = opt, cn_cur = \<lparr>sg_pos = 0, sg_hi = 0, sg_prefetchAt = 0\<rparr>, cn_next = None, cn_step = so_Step opt,
     cn_curInstalledAt = None, cn_inflight = None, cn_notBefore = None, cn_highWater = 0,
     cn_recent = replicate recentRangeWindow (0, 0), cn_recentCount = 0, cn_closed = False, cn_draining = False,
     cn_fetchesSettled = 0, cn_fetchesUnknown = 0, cn_issued = 0, cn_fetches = 0, cn_fetchErrors = 0,
     cn_fetchesStarted = 0, cn_rangeViolations = 0, cn_unavailableN = 0\<rparr>"

definition New_client :: "client_options \<Rightarrow> client_error + seg_client" where
  "New_client opt =
     (if so_BizTag opt = [] then Inl ErrInvalidOptions
      else if so_Step opt = 0 then Inl ErrInvalidOptions
      else
        let opt = (if so_MinStep opt = 0 then opt\<lparr>so_MinStep := min DefaultMinStep (so_Step opt)\<rparr> else opt);
            opt = (if so_MaxStep opt = 0 then opt\<lparr>so_MaxStep := max DefaultMaxStep (so_Step opt)\<rparr> else opt) in
        if so_MinStep opt > so_Step opt \<or> so_Step opt > so_MaxStep opt then Inl ErrInvalidOptions
        else
          let opt = (if so_PrefetchAt opt = Some 0 then opt\<lparr>so_PrefetchAt := Some (1 / 10)\<rparr> else opt) in
          if (case so_PrefetchAt opt of None \<Rightarrow> True | Some a \<Rightarrow> a < 0 \<or> a > 1) then Inl ErrInvalidOptions
          else
            let opt = (if so_MaxIDExclusive opt = 0 then opt\<lparr>so_MaxIDExclusive := DefaultMaxIDExclusive\<rparr> else opt) in
            if so_MaxIDExclusive opt > DefaultMaxIDExclusive then Inl ErrInvalidOptions
            else
              let opt = (if so_RetryBackoff opt \<le> 0 then opt\<lparr>so_RetryBackoff := 500000000\<rparr> else opt);
                  opt = (if so_FetchTimeout opt \<le> 0 then opt\<lparr>so_FetchTimeout := 3000000000\<rparr> else opt) in
              Inr (fresh_client opt))"

definition canStartFetchLocked :: "int \<Rightarrow> seg_client \<Rightarrow> bool" where
  "canStartFetchLocked now c = (\<not> cn_closed c \<and> cn_inflight c = None \<and> cn_next c = None
     \<and> \<not> (case cn_notBefore c of None \<Rightarrow> False | Some t \<Rightarrow> now < t))"

definition startFetchLocked :: "seg_client \<Rightarrow> seg_client" where
  "startFetchLocked c = c\<lparr>cn_inflight := Some (cn_step c), cn_fetchesStarted := cn_fetchesStarted c + 1\<rparr>"

definition onRangeExhaustedLocked :: "int \<Rightarrow> seg_client \<Rightarrow> seg_client" where
  "onRangeExhaustedLocked now c =
     (case cn_curInstalledAt c of
        None \<Rightarrow> c
      | Some installed \<Rightarrow>
          let lasted = now - installed;
              c = c\<lparr>cn_curInstalledAt := None\<rparr> in
          if lasted < stepGrowBelow
          then c\<lparr>cn_step := ucast (min (ucast (cn_step c) * 2 :: u64) (ucast (so_MaxStep (cn_opt c))))\<rparr>
          else if lasted > stepShrinkAbove
          then c\<lparr>cn_step := max (cn_step c div 2) (so_MinStep (cn_opt c))\<rparr>
          else c)"

text \<open>One pass of the loop in \<open>Next\<close>, up to an answer or a wait: for the fetch in flight, or for the end of the back-off.\<close>

datatype next_result = Minted u64 | NextError client_error | AwaitFetch | AwaitBackoff

function Next_locked :: "int \<Rightarrow> seg_client \<Rightarrow> next_result \<times> seg_client" where
  "Next_locked now c =
     (if cn_closed c then (NextError ErrClientClosed, c)
      else if seg_remaining (cn_cur c) > 0
      then
        let id = sg_pos (cn_cur c);
            c = c\<lparr>cn_cur := (cn_cur c)\<lparr>sg_pos := id + 1\<rparr>, cn_issued := cn_issued c + 1\<rparr>;
            c = (if seg_remaining (cn_cur c) = 0 then onRangeExhaustedLocked now c else c);
            c = (if seg_remaining (cn_cur c) \<le> sg_prefetchAt (cn_cur c) \<and> canStartFetchLocked now c then startFetchLocked c else c)
        in (Minted (MixID id), c)
      else (case cn_next c of
          Some s \<Rightarrow> Next_locked now (c\<lparr>cn_cur := s, cn_next := None, cn_curInstalledAt := Some now\<rparr>)
        | None \<Rightarrow>
            if cn_inflight c = None
            then if \<not> canStartFetchLocked now c then (AwaitBackoff, c) else (AwaitFetch, startFetchLocked c)
            else (AwaitFetch, c)))"
  by auto
termination by (relation "measure (\<lambda>(now, c). case cn_next c of None \<Rightarrow> 0 | Some _ \<Rightarrow> 1)") auto

declare Next_locked.simps [simp del]

text \<open>What ends a wait with an error: the fetch failed, or the caller's context did.\<close>

definition unavailable :: "client_error \<Rightarrow> seg_client \<Rightarrow> client_error \<times> seg_client" where
  "unavailable cause c = (ErrSegmentUnavailable cause, c\<lparr>cn_unavailableN := cn_unavailableN c + 1\<rparr>)"

text \<open>Whether there is a fetch to wait for.\<close>

definition Warm :: "seg_client \<Rightarrow> (client_error + bool) \<times> seg_client" where
  "Warm c =
     (if cn_closed c then (Inl ErrClientClosed, c)
      else if seg_remaining (cn_cur c) > 0 \<or> cn_next c \<noteq> None then (Inr False, c)
      else (Inr True, if cn_inflight c = None then startFetchLocked c else c))"

definition Close_client :: "seg_client \<Rightarrow> seg_client" where "Close_client c = c\<lparr>cn_closed := True\<rparr>"

definition DrainAndReport_begin :: "seg_client \<Rightarrow> seg_client" where
  "DrainAndReport_begin c = c\<lparr>cn_closed := True, cn_draining := True\<rparr>"

text \<open>\<open>binary.BigEndian.PutUint64\<close>, and what is hashed into the report.\<close>

definition PutUint64 :: "u64 \<Rightarrow> 8 word list" where
  "PutUint64 x = map (\<lambda>k. ucast (drop_bit (56 - 8 * k) x)) [0..<8]"

definition drain_message :: "seg_client \<Rightarrow> 8 word list" where
  "drain_message c = map of_char ''ID_SEGMENT_DRAIN_V1'' @ [0] @ map of_char (so_BizTag (cn_opt c)) @ [0]
     @ PutUint64 (cn_fetchesStarted c) @ PutUint64 (cn_fetchesSettled c) @ PutUint64 (cn_issued c) @ PutUint64 (cn_highWater c)"

text \<open>The second half, once nothing is in flight.\<close>

definition DrainAndReport_end :: "(8 word list \<Rightarrow> 8 word list) \<Rightarrow> seg_client \<Rightarrow> client_error + 8 word list" where
  "DrainAndReport_end sha256 c =
     (if cn_fetchesUnknown c \<noteq> 0 \<or> cn_fetchesStarted c \<noteq> cn_fetchesSettled c then Inl ErrDrainUnknown
      else Inr (sha256 (drain_message c)))"

definition prefetchThreshold :: "(rat \<Rightarrow> u64 \<Rightarrow> u64) \<Rightarrow> rat option \<Rightarrow> u64 \<Rightarrow> u64" where
  "prefetchThreshold ceil_at share len = (let t = ceil_at (case share of Some a \<Rightarrow> a | None \<Rightarrow> 0) len in if t < 1 then 1 else t)"

definition overlapsRecentLocked :: "u64 \<Rightarrow> u64 \<Rightarrow> seg_client \<Rightarrow> bool" where
  "overlapsRecentLocked lo hi c =
     (\<exists>r \<in> set (take (unat (min (cn_recentCount c) (of_nat recentRangeWindow))) (cn_recent c)). lo < snd r \<and> fst r < hi)"

definition validateLocked :: "u64 \<Rightarrow> u64 \<Rightarrow> seg_client \<Rightarrow> client_error option \<times> seg_client" where
  "validateLocked lo hi c =
     (if lo < 1 \<or> hi \<le> lo \<or> hi > so_MaxIDExclusive (cn_opt c) \<or> overlapsRecentLocked lo hi c
      then (Some ErrRangeViolation, c\<lparr>cn_rangeViolations := cn_rangeViolations c + 1\<rparr>)
      else (None, c))"

definition finishFetch :: "(rat \<Rightarrow> u64 \<Rightarrow> u64) \<Rightarrow> int \<Rightarrow> client_error + u64 \<times> u64 \<Rightarrow> seg_client \<Rightarrow> seg_client" where
  "finishFetch ceil_at now r c0 =
     (let c = c0\<lparr>cn_inflight := None\<rparr>;
          failed = (\<lambda>c. c\<lparr>cn_fetchesUnknown := cn_fetchesUnknown c + 1, cn_fetchErrors := cn_fetchErrors c + 1,
            cn_notBefore := Some (now + so_RetryBackoff (cn_opt c))\<rparr>) in
      case r of
        Inl _ \<Rightarrow> failed c
      | Inr (lo, hi) \<Rightarrow>
          (case validateLocked lo hi c of
             (Some _, c) \<Rightarrow> failed c
           | (None, c) \<Rightarrow> c\<lparr>cn_fetchesSettled := cn_fetchesSettled c + 1,
               cn_next := Some \<lparr>sg_pos = lo, sg_hi = hi, sg_prefetchAt = prefetchThreshold ceil_at (so_PrefetchAt (cn_opt c)) (hi - lo)\<rparr>,
               cn_highWater := max (cn_highWater c) hi,
               cn_recent := (cn_recent c)[unat (cn_recentCount c mod of_nat recentRangeWindow) := (lo, hi)],
               cn_recentCount := cn_recentCount c + 1, cn_fetches := cn_fetches c + 1\<rparr>))"

text \<open>\<open>Minter\<close>: without a client there is no id.\<close>

definition Mint :: "int \<Rightarrow> seg_client option \<Rightarrow> next_result \<times> seg_client option" where
  "Mint now source = (case source of
       None \<Rightarrow> (NextError ErrNoIDSource, None)
     | Some c \<Rightarrow> (let r = Next_locked now c in (fst r, Some (snd r))))"

text \<open>Settings of a service (\<^verbatim>\<open>conf.go\<close>).\<close>

record segment_conf =
  sf_Enabled :: bool
  sf_Step :: u32
  sf_MinStep :: u32
  sf_MaxStep :: u32

definition StepOrDefault :: "segment_conf \<Rightarrow> u32" where
  "StepOrDefault c = (if sf_Step c = 0 then 100 else sf_Step c)"

definition MinStepOrDefault :: "segment_conf \<Rightarrow> u32" where
  "MinStepOrDefault c = (if sf_MinStep c = 0 then min DefaultMinStep (StepOrDefault c) else sf_MinStep c)"

definition MaxStepOrDefault :: "segment_conf \<Rightarrow> u32" where
  "MaxStepOrDefault c = (if sf_MaxStep c = 0 then max DefaultMaxStep (StepOrDefault c) else sf_MaxStep c)"

section \<open>The numbers a client holds\<close>

definition seg_ids :: "segment \<Rightarrow> u64 set" where "seg_ids s = {x. sg_pos s \<le> x \<and> x < sg_hi s}"

definition next_ids :: "seg_client \<Rightarrow> u64 set" where
  "next_ids c = (case cn_next c of None \<Rightarrow> {} | Some s \<Rightarrow> seg_ids s)"

definition held_ids :: "seg_client \<Rightarrow> u64 set" where "held_ids c = seg_ids (cn_cur c) \<union> next_ids c"

definition held_apart :: "seg_client \<Rightarrow> bool" where "held_apart c \<longleftrightarrow> seg_ids (cn_cur c) \<inter> next_ids c = {}"

lemma seg_remaining_pos: "0 < seg_remaining s \<longleftrightarrow> sg_pos s < sg_hi s"
  by (auto simp: seg_remaining_def word_gt_0)

lemma seg_ids_take:
  assumes "sg_pos s < sg_hi s"
  shows "seg_ids (s\<lparr>sg_pos := sg_pos s + 1\<rparr>) = seg_ids s - {sg_pos s}" "sg_pos s \<in> seg_ids s"
proof -
  from assms have "unat (sg_pos s + 1) = unat (sg_pos s) + 1"
    using unsigned_less [of "sg_hi s", where ?'a = nat] by (simp add: unat_word_ariths word_less_nat_alt)
  then show "seg_ids (s\<lparr>sg_pos := sg_pos s + 1\<rparr>) = seg_ids s - {sg_pos s}"
    by (auto simp: seg_ids_def word_le_nat_alt word_less_nat_alt word_unat_eq_iff)
  show "sg_pos s \<in> seg_ids s" using assms by (simp add: seg_ids_def)
qed

lemma client_buffers [simp]:
  "cn_cur (startFetchLocked c) = cn_cur c" "cn_next (startFetchLocked c) = cn_next c"
  "cn_cur (onRangeExhaustedLocked now c) = cn_cur c" "cn_next (onRangeExhaustedLocked now c) = cn_next c"
  by (simp_all add: startFetchLocked_def onRangeExhaustedLocked_def Let_def split: option.split)

text \<open>A pass takes exactly the number it hands out.\<close>

definition took :: "seg_client \<Rightarrow> next_result \<Rightarrow> seg_client \<Rightarrow> bool" where
  "took c r c' \<longleftrightarrow> held_apart c' \<and> (case r of
       Minted y \<Rightarrow> (\<exists>x \<in> held_ids c. y = MixID x \<and> held_ids c' = held_ids c - {x}) | _ \<Rightarrow> held_ids c' = held_ids c)"

lemma Next_took:
  "Next_locked now c = (r, c') \<Longrightarrow> held_apart c \<Longrightarrow> took c r c'"
proof (induction now c arbitrary: r c' rule: Next_locked.induct)
  case (1 now c)
  note unfold = 1(2) [unfolded Next_locked.simps [of now c]]
  consider "cn_closed c" | "\<not> cn_closed c" "0 < seg_remaining (cn_cur c)"
    | "\<not> cn_closed c" "\<not> 0 < seg_remaining (cn_cur c)" by blast
  then show ?case
  proof cases
    case 1
    with unfold \<open>held_apart c\<close> show ?thesis by (auto simp: took_def)
  next
    case 2
    with unfold have r: "r = Minted (MixID (sg_pos (cn_cur c)))"
      and buffers: "cn_cur c' = (cn_cur c)\<lparr>sg_pos := sg_pos (cn_cur c) + 1\<rparr>" "cn_next c' = cn_next c"
      by (auto simp: Let_def split: if_splits)
    note ids = seg_ids_take [OF 2(2) [unfolded seg_remaining_pos]]
    have "next_ids c' = next_ids c" "seg_ids (cn_cur c') = seg_ids (cn_cur c) - {sg_pos (cn_cur c)}"
      using buffers ids(1) by (simp_all add: next_ids_def)
    with ids(2) \<open>held_apart c\<close> r show ?thesis by (auto simp: took_def held_apart_def held_ids_def)
  next
    case 3
    then have none: "seg_ids (cn_cur c) = {}" by (auto simp: seg_ids_def seg_remaining_pos)
    show ?thesis
    proof (cases "cn_next c")
      case None
      with 3 unfold \<open>held_apart c\<close> show ?thesis
        by (auto simp: took_def held_apart_def held_ids_def next_ids_def split: if_splits)
    next
      case (Some s)
      let ?c = "c\<lparr>cn_cur := s, cn_next := None, cn_curInstalledAt := Some now\<rparr>"
      have held: "held_ids ?c = held_ids c" "held_apart ?c" using Some none by (auto simp: held_ids_def next_ids_def held_apart_def)
      from 3 unfold Some have "Next_locked now ?c = (r, c')" by simp
      from "1.IH" [OF 3(1,2) Some this held(2)] show ?thesis unfolding took_def held(1) .
    qed
  qed
qed

lemma finishFetch_held:
  assumes "held_apart c" and "\<And>lo hi. r = Inr (lo, hi) \<Longrightarrow> {x. lo \<le> x \<and> x < hi} \<inter> held_ids c = {}"
  shows "held_apart (finishFetch ceil_at now r c)"
    and "held_ids (finishFetch ceil_at now r c) \<subseteq> held_ids c \<union> (case r of Inr (lo, hi) \<Rightarrow> {x. lo \<le> x \<and> x < hi} | Inl _ \<Rightarrow> {})"
  using assms
  by (auto simp: finishFetch_def Let_def validateLocked_def held_apart_def held_ids_def next_ids_def seg_ids_def split: sum.splits prod.splits if_splits)

section \<open>Limits\<close>

text \<open>The step keeps its limits, what is held was validated, and every fetch is accounted for.\<close>

definition client_inv :: "seg_client \<Rightarrow> bool" where
  "client_inv c \<longleftrightarrow> 0 < so_MinStep (cn_opt c) \<and> so_MinStep (cn_opt c) \<le> cn_step c \<and> cn_step c \<le> so_MaxStep (cn_opt c)
     \<and> so_MaxIDExclusive (cn_opt c) \<le> DefaultMaxIDExclusive
     \<and> (\<forall>x \<in> held_ids c. 0 < x \<and> x < so_MaxIDExclusive (cn_opt c))
     \<and> (cn_inflight c \<noteq> None \<longrightarrow> cn_next c = None)
     \<and> cn_fetchesStarted c = cn_fetchesSettled c + cn_fetchesUnknown c + (if cn_inflight c = None then 0 else 1)
     \<and> cn_fetchesSettled c = cn_fetches c \<and> length (cn_recent c) = recentRangeWindow"

lemma New_client_fresh:
  assumes "New_client opt = Inr c"
  shows "c = fresh_client (cn_opt c)" and "0 < so_MinStep (cn_opt c)" and "so_MinStep (cn_opt c) \<le> so_Step (cn_opt c)"
    and "so_Step (cn_opt c) \<le> so_MaxStep (cn_opt c)" and "so_MaxIDExclusive (cn_opt c) \<le> DefaultMaxIDExclusive"
    and "so_MinStep (cn_opt c) = (if so_MinStep opt = 0 then min DefaultMinStep (so_Step opt) else so_MinStep opt)"
    and "so_MaxStep (cn_opt c) = (if so_MaxStep opt = 0 then max DefaultMaxStep (so_Step opt) else so_MaxStep opt)"
proof -
  define o1 where "o1 = (if so_MinStep opt = 0 then opt\<lparr>so_MinStep := min DefaultMinStep (so_Step opt)\<rparr> else opt)"
  define o2 where "o2 = (if so_MaxStep o1 = 0 then o1\<lparr>so_MaxStep := max DefaultMaxStep (so_Step o1)\<rparr> else o1)"
  define o3 where "o3 = (if so_PrefetchAt o2 = Some 0 then o2\<lparr>so_PrefetchAt := Some (1 / 10)\<rparr> else o2)"
  define o4 where "o4 = (if so_MaxIDExclusive o3 = 0 then o3\<lparr>so_MaxIDExclusive := DefaultMaxIDExclusive\<rparr> else o3)"
  define o5 where "o5 = (if so_RetryBackoff o4 \<le> 0 then o4\<lparr>so_RetryBackoff := 500000000\<rparr> else o4)"
  define o6 where "o6 = (if so_FetchTimeout o5 \<le> 0 then o5\<lparr>so_FetchTimeout := 3000000000\<rparr> else o5)"
  note os = o1_def o2_def o3_def o4_def o5_def o6_def
  from assms [unfolded New_client_def Let_def, folded o1_def, folded o2_def, folded o3_def, folded o4_def, folded o5_def, folded o6_def]
  have c: "c = fresh_client o6" and o: "so_Step opt \<noteq> 0" "so_MinStep o2 \<le> so_Step o2" "so_Step o2 \<le> so_MaxStep o2"
    "so_MaxIDExclusive o4 \<le> DefaultMaxIDExclusive"
    by (auto split: if_splits option.splits)
  have "cn_opt c = o6" by (simp add: c fresh_client_def)
  moreover have "so_MinStep o6 = so_MinStep o2" "so_Step o6 = so_Step o2" "so_MaxStep o6 = so_MaxStep o2"
    "so_MaxIDExclusive o6 = so_MaxIDExclusive o4" by (simp_all add: o3_def o4_def o5_def o6_def)
  moreover have "so_MinStep o2 \<noteq> 0" using o(1) by (simp add: o1_def o2_def min_def)
  moreover have "so_MinStep o2 = (if so_MinStep opt = 0 then min DefaultMinStep (so_Step opt) else so_MinStep opt)"
    "so_MaxStep o2 = (if so_MaxStep opt = 0 then max DefaultMaxStep (so_Step opt) else so_MaxStep opt)" by (simp_all add: o1_def o2_def)
  ultimately show "c = fresh_client (cn_opt c)" "0 < so_MinStep (cn_opt c)" "so_MinStep (cn_opt c) \<le> so_Step (cn_opt c)"
    "so_Step (cn_opt c) \<le> so_MaxStep (cn_opt c)" "so_MaxIDExclusive (cn_opt c) \<le> DefaultMaxIDExclusive"
    "so_MinStep (cn_opt c) = (if so_MinStep opt = 0 then min DefaultMinStep (so_Step opt) else so_MinStep opt)"
    "so_MaxStep (cn_opt c) = (if so_MaxStep opt = 0 then max DefaultMaxStep (so_Step opt) else so_MaxStep opt)"
    using c o by (simp_all add: word_gt_0)
qed

text \<open>The limits a service logs from its settings are the ones its client uses.\<close>

lemma conf_limits:
  assumes "New_client opt = Inr c" and "so_Step opt = StepOrDefault f" "so_MinStep opt = sf_MinStep f" "so_MaxStep opt = sf_MaxStep f"
  shows "so_MinStep (cn_opt c) = MinStepOrDefault f" "so_MaxStep (cn_opt c) = MaxStepOrDefault f"
  using New_client_fresh(6,7) [OF assms(1)] assms(2-4) by (simp_all add: MinStepOrDefault_def MaxStepOrDefault_def)

lemma client_inv_New:
  assumes "New_client opt = Inr c"
  shows "client_inv c" "held_ids c = {}" "held_apart c"
proof -
  note fresh = New_client_fresh [OF assms]
  have "held_ids c = {} \<and> held_apart c"
    by (subst (1 2) fresh(1)) (auto simp: held_ids_def held_apart_def fresh_client_def next_ids_def seg_ids_def)
  then show "held_ids c = {}" "held_apart c" by simp_all
  moreover have "cn_step c = so_Step (cn_opt c)" "cn_inflight c = None" "cn_fetchesStarted c = 0" "cn_fetchesSettled c = 0"
    "cn_fetchesUnknown c = 0" "cn_fetches c = 0" "length (cn_recent c) = recentRangeWindow"
    by (subst fresh(1), simp add: fresh_client_def)+
  ultimately show "client_inv c" using fresh(2-5) by (simp add: client_inv_def)
qed

lemma double_step:
  fixes s m :: u32
  assumes "s \<le> m"
  shows "s \<le> ucast (min (ucast s * 2 :: u64) (ucast m))" "ucast (min (ucast s * 2 :: u64) (ucast m)) \<le> m"
proof -
  have up: "unat (ucast x :: u64) = unat x" for x :: u32 by (rule unat_ucast_up) simp
  have bound: "unat x < 2 ^ 32" for x :: u32 using unsigned_less [of x, where ?'a = nat] by simp
  have two: "unat (ucast s * 2 :: u64) = 2 * unat s" using bound [of s] by (simp add: unat_word_ariths up)
  have "unat (min (ucast s * 2 :: u64) (ucast m)) = min (2 * unat s) (unat m)"
    by (simp add: min_def word_le_nat_alt two up)
  moreover have "unat (ucast y :: u32) = unat y" if "unat y < 2 ^ 32" for y :: u64
    using that by (simp add: unsigned_ucast_eq take_bit_nat_eq_self)
  ultimately have "unat (ucast (min (ucast s * 2 :: u64) (ucast m)) :: u32) = min (2 * unat s) (unat m)"
    using bound [of m] by (metis min.strict_coboundedI2)
  with assms show "s \<le> ucast (min (ucast s * 2 :: u64) (ucast m))" "ucast (min (ucast s * 2 :: u64) (ucast m)) \<le> m"
    by (simp_all add: word_le_nat_alt)
qed

lemma half_step: "m \<le> s \<Longrightarrow> s \<le> M \<Longrightarrow> m \<le> max (s div 2) m \<and> max (s div 2) m \<le> M" for s m M :: u32
  by (auto simp: word_le_nat_alt unat_div max_def) 

lemma client_inv_exhausted: "client_inv c \<Longrightarrow> client_inv (onRangeExhaustedLocked now c)"
  using double_step [of "cn_step c" "so_MaxStep (cn_opt c)"] half_step [of "so_MinStep (cn_opt c)" "cn_step c" "so_MaxStep (cn_opt c)"]
  by (auto simp: client_inv_def onRangeExhaustedLocked_def Let_def held_ids_def next_ids_def split: option.splits)

lemma client_inv_start:
  "client_inv c \<Longrightarrow> cn_inflight c = None \<Longrightarrow> cn_next c = None \<Longrightarrow> client_inv (startFetchLocked c)"
  by (simp add: client_inv_def startFetchLocked_def held_ids_def next_ids_def)

lemma client_inv_prefetch:
  "client_inv c \<Longrightarrow> client_inv (if P \<and> canStartFetchLocked now c then startFetchLocked c else c)"
  using client_inv_start [of c] by (auto simp: canStartFetchLocked_def)

lemma client_inv_issue:
  assumes "client_inv c" and "held_ids c' \<subseteq> held_ids c" and "c' = c\<lparr>cn_cur := s, cn_issued := n\<rparr>"
  shows "client_inv c'"
  using assms by (auto simp: client_inv_def)

lemma client_inv_Next:
  "Next_locked now c = (r, c') \<Longrightarrow> client_inv c \<Longrightarrow> client_inv c'"
proof (induction now c arbitrary: r c' rule: Next_locked.induct)
  case (1 now c)
  note unfold = 1(2) [unfolded Next_locked.simps [of now c]]
  consider "cn_closed c" | "\<not> cn_closed c" "0 < seg_remaining (cn_cur c)"
    | "\<not> cn_closed c" "\<not> 0 < seg_remaining (cn_cur c)" by blast
  then show ?case
  proof cases
    case 1
    with unfold \<open>client_inv c\<close> show ?thesis by auto
  next
    case 2
    let ?c1 = "c\<lparr>cn_cur := (cn_cur c)\<lparr>sg_pos := sg_pos (cn_cur c) + 1\<rparr>, cn_issued := cn_issued c + 1\<rparr>"
    let ?c2 = "if seg_remaining (cn_cur ?c1) = 0 then onRangeExhaustedLocked now ?c1 else ?c1"
    have "held_ids ?c1 \<subseteq> held_ids c"
      using seg_ids_take [OF 2(2) [unfolded seg_remaining_pos]] by (auto simp: held_ids_def next_ids_def)
    then have "client_inv ?c1" by (rule client_inv_issue [OF \<open>client_inv c\<close>]) simp
    then have c2: "client_inv ?c2" by (simp add: client_inv_exhausted)
    from 2 unfold have "c' = (if seg_remaining (cn_cur ?c2) \<le> sg_prefetchAt (cn_cur ?c2) \<and> canStartFetchLocked now ?c2
        then startFetchLocked ?c2 else ?c2)" by (simp only: Let_def if_False if_True prod.inject simp_thms)
    then show ?thesis using client_inv_prefetch [OF c2] by (rule ssubst)
  next
    case 3
    show ?thesis
    proof (cases "cn_next c")
      case None
      with 3 unfold \<open>client_inv c\<close> client_inv_start [of c] show ?thesis by (auto split: if_splits)
    next
      case (Some s)
      let ?c = "c\<lparr>cn_cur := s, cn_next := None, cn_curInstalledAt := Some now\<rparr>"
      have "client_inv ?c" using \<open>client_inv c\<close> Some by (auto simp: client_inv_def held_ids_def next_ids_def)
      moreover from 3 unfold Some have "Next_locked now ?c = (r, c')" by simp
      ultimately show ?thesis using "1.IH" [OF 3(1,2) Some] by blast
    qed
  qed
qed

lemma client_inv_finish:
  assumes "client_inv c" and "cn_inflight c \<noteq> None"
  shows "client_inv (finishFetch ceil_at now r c)"
  using assms
  by (auto simp: client_inv_def finishFetch_def Let_def validateLocked_def held_ids_def next_ids_def seg_ids_def word_gt_0
      split: sum.splits prod.splits if_splits)

lemma client_inv_others:
  assumes "client_inv c"
  shows "client_inv (snd (unavailable e c))" "client_inv (snd (Warm c))" "client_inv (Close_client c)" "client_inv (DrainAndReport_begin c)"
  using assms
  by (auto simp: client_inv_def unavailable_def Warm_def Close_client_def DrainAndReport_begin_def startFetchLocked_def
      held_ids_def next_ids_def)

end
