(* ===== verification/IdMint.thy ===== *)
theory IdMint
  imports IdProps IdClient
begin

text \<open>
  From the issuer to the ids that services give out: the handler of the allocation request
  (\<^verbatim>\<open>src/go/data_service/internal/logic/id_segment_logic.go\<close>, \<^verbatim>\<open>server/dataserviceserver.go\<close>), the adapter of the caller
  (\<^verbatim>\<open>src/go/shared/idsegment/adapter.go\<close>), and any number of clients fed by one source of segments.  What clients need of
  the source is the locale \<open>segment_source\<close>, interpreted on the issuers of all regions.
\<close>

section \<open>The request\<close>

abbreviation (input) ErrCodeInvalidRequest :: u32 where "ErrCodeInvalidRequest \<equiv> 14"
abbreviation (input) ErrCodeIdSegmentSourceError :: u32 where "ErrCodeIdSegmentSourceError \<equiv> 18"
abbreviation (input) ErrCodeIdSegmentExhausted :: u32 where "ErrCodeIdSegmentExhausted \<equiv> 19"
abbreviation (input) ErrCodeIdSegmentUnknownTag :: u32 where "ErrCodeIdSegmentUnknownTag \<equiv> 20"

record segment_resp =
  rp_ErrorCode :: u32
  rp_Lo :: u64
  rp_Hi :: u64

abbreviation (input) refused :: "u32 \<Rightarrow> segment_resp" where "refused code \<equiv> \<lparr>rp_ErrorCode = code, rp_Lo = 0, rp_Hi = 0\<rparr>"

text \<open>The answer and whether an error is returned beside it; \<open>store\<close> is the issuer, if one is configured, by what it answers.\<close>

definition AllocateIdSegment ::
  "(string \<Rightarrow> u32 \<Rightarrow> issuer_error + u64 \<times> u64) option \<Rightarrow> string \<Rightarrow> u32 \<Rightarrow> segment_resp \<times> bool" where
  "AllocateIdSegment store bizTag step =
     (if bizTag = [] then (refused ErrCodeInvalidRequest, False)
      else case store of
        None \<Rightarrow> (refused ErrCodeIdSegmentSourceError, True)
      | Some allocate \<Rightarrow>
          (case allocate bizTag step of
             Inr (lo, hi) \<Rightarrow> (\<lparr>rp_ErrorCode = 0, rp_Lo = lo, rp_Hi = hi\<rparr>, False)
           | Inl e \<Rightarrow>
               if e \<in> {ErrInvalidTag, ErrInvalidStep} then (refused ErrCodeInvalidRequest, False)
               else if e = ErrExhausted then (refused ErrCodeIdSegmentExhausted, False)
               else if e = ErrUnknownTag then (refused ErrCodeIdSegmentUnknownTag, False)
               else if e \<in> {ErrCounterMissing, ErrRegistryMissing} then (refused ErrCodeIdSegmentUnknownTag, False)
               else if e \<in> {ErrBindingMismatch, ErrRegionRetired} then (refused ErrCodeIdSegmentUnknownTag, False)
               else (refused ErrCodeIdSegmentSourceError, True)))"

definition AllocateIdSegment_server ::
  "(string \<Rightarrow> u32 \<Rightarrow> issuer_error + u64 \<times> u64) option \<Rightarrow> string \<Rightarrow> u32 \<Rightarrow> segment_resp" where
  "AllocateIdSegment_server store bizTag step =
     (case AllocateIdSegment store bizTag step of (resp, err) \<Rightarrow>
        if err then \<lparr>rp_ErrorCode = rp_ErrorCode resp, rp_Lo = 0, rp_Hi = 0\<rparr> else resp)"

text \<open>What the caller makes of the answer of a call that came through.\<close>

definition Adapt :: "segment_resp \<Rightarrow> client_error + u64 \<times> u64" where
  "Adapt resp = (if rp_ErrorCode resp \<noteq> 0 then Inl (RPCError (rp_ErrorCode resp)) else Inr (rp_Lo resp, rp_Hi resp))"

lemma request_granted:
  "bizTag \<noteq> [] \<Longrightarrow> allocate bizTag step = Inr (lo, hi) \<Longrightarrow>
    Adapt (AllocateIdSegment_server (Some allocate) bizTag step) = Inr (lo, hi)"
  by (simp add: Adapt_def AllocateIdSegment_server_def AllocateIdSegment_def)

text \<open>A range reaches the caller exactly when the issuer granted it, and unchanged; every refusal and every
  error of the issuer, and a missing issuer, reach it as an error and never as a range.\<close>

theorem request_answers:
  "Adapt (AllocateIdSegment_server store bizTag step) = Inr (lo, hi) \<longleftrightarrow>
    bizTag \<noteq> [] \<and> (\<exists>allocate. store = Some allocate \<and> allocate bizTag step = Inr (lo, hi))"
  by (auto simp: Adapt_def AllocateIdSegment_server_def AllocateIdSegment_def split: option.splits sum.splits if_splits)

section \<open>Clients of a source\<close>

text \<open>\<open>mw_replies\<close> are the segments cut and not yet delivered; a reply that is lost stays there.\<close>

record 'w mint_world =
  mw_source :: 'w
  mw_replies :: "(u64 \<times> u64) list"
  mw_client :: "nat \<Rightarrow> seg_client"
  mw_minted :: "u64 list"

definition client_moves :: "seg_client \<Rightarrow> seg_client set" where
  "client_moves c = insert (snd (Warm c)) (insert (Close_client c) (insert (DrainAndReport_begin c) (range (\<lambda>e. snd (unavailable e c)))))"

inductive mint_step :: "('w \<Rightarrow> 'w \<Rightarrow> bool) \<Rightarrow> ('w \<Rightarrow> (u64 \<times> u64) list) \<Rightarrow> (rat \<Rightarrow> u64 \<Rightarrow> u64) \<Rightarrow> 'w mint_world \<Rightarrow> 'w mint_world \<Rightarrow> bool"
  for source_step segments ceil_at where
  source: "source_step (mw_source w) s \<Longrightarrow> segments s = segments (mw_source w) @ new
    \<Longrightarrow> mint_step source_step segments ceil_at w (w\<lparr>mw_source := s, mw_replies := mw_replies w @ new\<rparr>)"
| reply: "(lo, hi) \<in> set (mw_replies w) \<Longrightarrow> cn_inflight (mw_client w i) = Some step
    \<Longrightarrow> allocate (so_BizTag (cn_opt (mw_client w i))) step = Inr (lo, hi)
    \<Longrightarrow> r = Adapt (AllocateIdSegment_server (Some allocate) (so_BizTag (cn_opt (mw_client w i))) step)
    \<Longrightarrow> mint_step source_step segments ceil_at w (w\<lparr>mw_client := (mw_client w)(i := finishFetch ceil_at now r (mw_client w i)),
          mw_replies := remove1 (lo, hi) (mw_replies w)\<rparr>)"
| failed: "cn_inflight (mw_client w i) = Some step
    \<Longrightarrow> mint_step source_step segments ceil_at w (w\<lparr>mw_client := (mw_client w)(i := finishFetch ceil_at now (Inl e) (mw_client w i))\<rparr>)"
| mint: "Mint now (Some (mw_client w i)) = (r, Some c)
    \<Longrightarrow> mint_step source_step segments ceil_at w (w\<lparr>mw_client := (mw_client w)(i := c),
          mw_minted := mw_minted w @ (case r of Minted x \<Rightarrow> [x] | _ \<Rightarrow> [])\<rparr>)"
| move: "c \<in> client_moves (mw_client w i)
    \<Longrightarrow> mint_step source_step segments ceil_at w (w\<lparr>mw_client := (mw_client w)(i := c)\<rparr>)"
| restart: "New_client opt = Inr c
    \<Longrightarrow> mint_step source_step segments ceil_at w (w\<lparr>mw_client := (mw_client w)(i := c)\<rparr>)"

definition mint_start :: "('w \<Rightarrow> (u64 \<times> u64) list) \<Rightarrow> 'w mint_world \<Rightarrow> bool" where
  "mint_start segments w \<longleftrightarrow> mw_replies w = segments (mw_source w) \<and> (\<forall>i. \<exists>opt. New_client opt = Inr (mw_client w i)) \<and> mw_minted w = []"

definition range_ids :: "(u64 \<times> u64) list \<Rightarrow> u64 set" where
  "range_ids rs = (\<Union>(lo, hi) \<in> set rs. {x. lo \<le> x \<and> x < hi})"

definition ranges_apart :: "(u64 \<times> u64) list \<Rightarrow> bool" where
  "ranges_apart = sorted_wrt (\<lambda>(lo, hi) (lo', hi'). hi \<le> lo' \<or> hi' \<le> lo)"

text \<open>Every number is in one place: undelivered, held by one client, or minted (\<open>cs\<close> before it was scattered).\<close>

definition mint_inv :: "(u64 \<times> u64) list \<Rightarrow> 'w mint_world \<Rightarrow> u64 list \<Rightarrow> bool" where
  "mint_inv segs w cs \<longleftrightarrow>
     mw_minted w = map MixID cs \<and> distinct cs \<and> set cs \<subseteq> range_ids segs
   \<and> ranges_apart (mw_replies w) \<and> set (mw_replies w) \<subseteq> set segs \<and> range_ids (mw_replies w) \<inter> set cs = {}
   \<and> (\<forall>i. client_inv (mw_client w i) \<and> held_apart (mw_client w i) \<and> held_ids (mw_client w i) \<subseteq> range_ids segs
        \<and> held_ids (mw_client w i) \<inter> set cs = {} \<and> held_ids (mw_client w i) \<inter> range_ids (mw_replies w) = {}
        \<and> (\<forall>j. j \<noteq> i \<longrightarrow> held_ids (mw_client w i) \<inter> held_ids (mw_client w j) = {}))"

lemma range_ids_simps [simp]: "range_ids [] = {}" "range_ids (xs @ ys) = range_ids xs \<union> range_ids ys"
  by (auto simp: range_ids_def)

lemma range_ids_member: "(lo, hi) \<in> set rs \<Longrightarrow> {x. lo \<le> x \<and> x < hi} \<subseteq> range_ids rs"
  by (auto simp: range_ids_def)

lemma range_ids_mono: "set xs \<subseteq> set ys \<Longrightarrow> range_ids xs \<subseteq> range_ids ys"
  by (auto simp: range_ids_def)

lemma ranges_apart_append:
  assumes "ranges_apart (xs @ ys)"
  shows "range_ids xs \<inter> range_ids ys = {}" and "ranges_apart zs \<Longrightarrow> set zs \<subseteq> set xs \<Longrightarrow> ranges_apart (zs @ ys)"
  using assms by (fastforce simp: ranges_apart_def sorted_wrt_append range_ids_def)+

lemma ranges_apart_remove1:
  assumes "ranges_apart rs"
  shows "ranges_apart (remove1 r rs)" and "r \<in> set rs \<Longrightarrow> range_ids (remove1 r rs) \<inter> {x. fst r \<le> x \<and> x < snd r} = {}"
proof -
  show "ranges_apart (remove1 r rs)" using assms
    by (induction rs) (auto simp: ranges_apart_def dest: notin_set_remove1)
  assume "r \<in> set rs"
  then obtain ys zs where split: "rs = ys @ r # zs" "r \<notin> set ys" by (meson split_list_first)
  then have apart: "hi \<le> fst r \<or> snd r \<le> lo" if "(lo, hi) \<in> set (ys @ zs)" for lo hi
    using assms that by (auto simp: ranges_apart_def sorted_wrt_append case_prod_beta)
  have "x \<notin> range_ids (ys @ zs)" if "fst r \<le> x" "x < snd r" for x
  proof
    assume "x \<in> range_ids (ys @ zs)"
    then obtain lo hi where "(lo, hi) \<in> set (ys @ zs)" "lo \<le> x" "x < hi" by (auto simp: range_ids_def)
    with apart [OF this(1)] that show False by (meson leD order.strict_trans2 order_trans)
  qed
  moreover have "remove1 r rs = ys @ zs" using split by (simp add: remove1_append)
  ultimately show "range_ids (remove1 r rs) \<inter> {x. fst r \<le> x \<and> x < snd r} = {}" by auto
qed

text \<open>One client changes: its numbers come from what it held and one delivered range, or one of them is minted.\<close>

lemma mint_inv_client:
  assumes inv: "mint_inv segs w cs" and w': "mw_client w' = (mw_client w)(i := c)" "mw_minted w' = mw_minted w @ map MixID ms"
    and c: "client_inv c" "held_apart c" "held_ids c \<subseteq> (held_ids (mw_client w i) \<union> D) - set ms"
    and D: "D \<subseteq> range_ids (mw_replies w)" "D \<inter> range_ids (mw_replies w') = {}"
    and ms: "set ms \<subseteq> held_ids (mw_client w i)" "distinct ms"
    and replies: "ranges_apart (mw_replies w')" "set (mw_replies w') \<subseteq> set (mw_replies w)"
  shows "mint_inv segs w' (cs @ ms)"
proof -
  note i = inv [unfolded mint_inv_def]
  from i have old: "held_ids (mw_client w j) \<subseteq> range_ids segs" "held_ids (mw_client w j) \<inter> set cs = {}"
      "held_ids (mw_client w j) \<inter> range_ids (mw_replies w) = {}" "client_inv (mw_client w j)" "held_apart (mw_client w j)" for j
    by auto
  from i have other: "held_ids (mw_client w j) \<inter> held_ids (mw_client w k) = {}" if "j \<noteq> k" for j k using that by blast
  have less: "range_ids (mw_replies w') \<subseteq> range_ids (mw_replies w)" by (rule range_ids_mono [OF replies(2)])
  from i have reply: "range_ids (mw_replies w) \<subseteq> range_ids segs" "range_ids (mw_replies w) \<inter> set cs = {}"
    using range_ids_mono by auto
  have mine: "held_ids c \<inter> held_ids (mw_client w j) = {}" if "j \<noteq> i" for j
    using c(3) other [OF that] old(3) [of j] D(1) by blast
  have "client_inv (mw_client w' j) \<and> held_apart (mw_client w' j) \<and> held_ids (mw_client w' j) \<subseteq> range_ids segs
      \<and> held_ids (mw_client w' j) \<inter> set (cs @ ms) = {} \<and> held_ids (mw_client w' j) \<inter> range_ids (mw_replies w') = {}" for j
  proof (cases "j = i")
    case True
    have "held_ids c \<subseteq> range_ids segs" using c(3) old(1) [of i] D(1) reply(1) by blast
    moreover have "held_ids c \<inter> set (cs @ ms) = {}" using c(3) old(2) [of i] D(1) reply(2) by auto
    moreover have "held_ids c \<inter> range_ids (mw_replies w') = {}" using c(3) old(3) [of i] D(2) less by blast
    ultimately show ?thesis using True c(1,2) w'(1) by simp
  next
    case False
    then have "held_ids (mw_client w j) \<inter> set ms = {}" using other [OF False] ms(1) by blast
    with False old [of j] less w'(1) show ?thesis by auto
  qed
  moreover have "held_ids (mw_client w' j) \<inter> held_ids (mw_client w' k) = {}" if "j \<noteq> k" for j k
    using that mine [of j] mine [of k] other [OF that] w'(1) by (cases "j = i"; cases "k = i"; auto)
  moreover have "set ms \<inter> set cs = {}" "set ms \<subseteq> range_ids segs" "set ms \<inter> range_ids (mw_replies w') = {}"
    using ms(1) old(1,2,3) [of i] less by blast+
  then have "distinct (cs @ ms)" "set (cs @ ms) \<subseteq> range_ids segs" "range_ids (mw_replies w') \<inter> set (cs @ ms) = {}"
    using i ms(2) less reply by auto
  ultimately show ?thesis using i replies w'(2) unfolding mint_inv_def by auto
qed

lemma moves_buffers: "c \<in> client_moves d \<Longrightarrow> cn_cur c = cn_cur d \<and> cn_next c = cn_next d"
  by (auto simp: client_moves_def Warm_def Close_client_def DrainAndReport_begin_def unavailable_def)

lemma held_moves:
  "c \<in> client_moves d \<Longrightarrow> held_ids c = held_ids d \<and> held_apart c = held_apart d"
  using moves_buffers [of c d] by (simp add: held_ids_def next_ids_def held_apart_def)

lemma client_inv_moves: "c \<in> client_moves d \<Longrightarrow> client_inv d \<Longrightarrow> client_inv c"
  using client_inv_others [of d] by (auto simp: client_moves_def)

section \<open>The interface\<close>

text \<open>What clients rely on: segments of a source never overlap and keep inside the numbers.\<close>

locale segment_source =
  fixes source_step :: "'w \<Rightarrow> 'w \<Rightarrow> bool" and sound :: "'w \<Rightarrow> bool" and segments :: "'w \<Rightarrow> (u64 \<times> u64) list"
  assumes sound_step: "sound s \<Longrightarrow> source_step s s' \<Longrightarrow> sound s'"
    and segments_apart: "sound s \<Longrightarrow> ranges_apart (segments s)"
    and segments_bounds: "sound s \<Longrightarrow> (lo, hi) \<in> set (segments s) \<Longrightarrow> 0 < lo \<and> unat hi \<le> 2 ^ 63"
begin

lemma mint_inv_step:
  assumes step: "mint_step source_step segments ceil_at w w'" and sound: "sound (mw_source w)"
    and inv: "mint_inv (segments (mw_source w)) w cs"
  shows "sound (mw_source w') \<and> (\<exists>cs. mint_inv (segments (mw_source w')) w' cs)"
  using step
proof cases
  case (source s new)
  have sound': "sound s" by (rule sound_step [OF sound source(2)])
  note apart = ranges_apart_append [OF segments_apart [OF sound', unfolded source(3)]]
  have "set (mw_replies w) \<subseteq> set (segments (mw_source w))" "ranges_apart (mw_replies w)" using inv by (simp_all add: mint_inv_def)
  then have "ranges_apart (mw_replies w @ new)" using apart(2) by blast
  moreover have "set cs \<subseteq> range_ids (segments (mw_source w))" "held_ids (mw_client w i) \<subseteq> range_ids (segments (mw_source w))" for i
    using inv unfolding mint_inv_def by blast+
  then have "set cs \<inter> range_ids new = {}" "held_ids (mw_client w i) \<inter> range_ids new = {}" for i
    using apart(1) by blast+
  ultimately have "mint_inv (segments s) w' cs" using inv unfolding source(1,3) mint_inv_def by auto
  with sound' source(1) show ?thesis by auto
next
  case (reply lo hi i step allocate r now)
  let ?c = "mw_client w i" let ?D = "{x. lo \<le> x \<and> x < hi}"
  from inv have old: "client_inv ?c" "held_apart ?c" "ranges_apart (mw_replies w)" "held_ids ?c \<inter> range_ids (mw_replies w) = {}"
    by (auto simp: mint_inv_def)
  have D: "?D \<subseteq> range_ids (mw_replies w)" by (rule range_ids_member [OF reply(2)])
  with old(4) have free: "?D \<inter> held_ids ?c = {}" by blast
  from reply(4,5) have r: "r = Inr (lo, hi) \<or> (\<exists>e. r = Inl e)"
    by (cases "so_BizTag (cn_opt ?c) = []") (auto simp: request_granted Adapt_def AllocateIdSegment_server_def AllocateIdSegment_def)
  have "held_apart (finishFetch ceil_at now r ?c)" "held_ids (finishFetch ceil_at now r ?c) \<subseteq> held_ids ?c \<union> ?D"
    using finishFetch_held [OF old(2), of r ceil_at now] free r by auto
  moreover have "client_inv (finishFetch ceil_at now r ?c)" using client_inv_finish [OF old(1)] reply(3) by simp
  ultimately have "mint_inv (segments (mw_source w)) w' (cs @ [])"
    by (intro mint_inv_client [OF inv, of w' i _ "[]" ?D])
      (use reply(1) D ranges_apart_remove1 [OF old(3), of "(lo, hi)"] reply(2) set_remove1_subset in \<open>auto\<close>)
  with sound reply(1) show ?thesis by auto
next
  case (failed i step now e)
  let ?c = "mw_client w i"
  from inv have old: "client_inv ?c" "held_apart ?c" "ranges_apart (mw_replies w)" by (auto simp: mint_inv_def)
  have "mint_inv (segments (mw_source w)) w' (cs @ [])"
    by (rule mint_inv_client [OF inv, of w' i "finishFetch ceil_at now (Inl e) ?c" "[]" "{}"])
      (use failed old finishFetch_held [OF old(2), of "Inl e" ceil_at now] client_inv_finish [OF old(1)] in auto)
  with sound failed(1) show ?thesis by auto
next
  case (mint now i r c)
  let ?c = "mw_client w i"
  from inv have old: "client_inv ?c" "held_apart ?c" "ranges_apart (mw_replies w)" by (auto simp: mint_inv_def)
  from mint(2) have nx: "Next_locked now ?c = (r, c)" by (auto simp: Mint_def Let_def)
  note took = Next_took [OF nx old(2), unfolded took_def] and c = client_inv_Next [OF nx old(1)]
  obtain ms where ms: "(case r of Minted x \<Rightarrow> [x] | _ \<Rightarrow> []) = map MixID ms" "set ms \<subseteq> held_ids ?c" "distinct ms" "held_ids c = held_ids ?c - set ms"
  proof (cases r)
    case (Minted y)
    with took obtain x where "x \<in> held_ids ?c" "y = MixID x" "held_ids c = held_ids ?c - {x}" by auto
    with Minted show ?thesis by (intro that [of "[x]"]) auto
  qed (use took in \<open>intro that [of "[]"], auto\<close>)
  have "mint_inv (segments (mw_source w)) w' (cs @ ms)"
    by (rule mint_inv_client [OF inv, of w' i c ms "{}"]) (use mint(1) ms took c old in auto)
  with sound mint(1) show ?thesis by auto
next
  case (move c i)
  from inv have old: "client_inv (mw_client w i)" "held_apart (mw_client w i)" "ranges_apart (mw_replies w)" by (auto simp: mint_inv_def)
  have "mint_inv (segments (mw_source w)) w' (cs @ [])"
    by (rule mint_inv_client [OF inv, of w' i c "[]" "{}"])
      (use move old held_moves [OF move(2)] client_inv_moves [OF move(2)] in auto)
  with sound move(1) show ?thesis by auto
next
  case (restart opt c i)
  from inv have "ranges_apart (mw_replies w)" by (simp add: mint_inv_def)
  then have "mint_inv (segments (mw_source w)) w' (cs @ [])"
    by (intro mint_inv_client [OF inv, of w' i c "[]" "{}"]) (use restart client_inv_New [OF restart(2)] in auto)
  with sound restart(1) show ?thesis by auto
qed

lemma mint_inv_run:
  assumes "mint_start segments w0" and "sound (mw_source w0)" and "(mint_step source_step segments ceil_at)\<^sup>*\<^sup>* w0 w"
  shows "sound (mw_source w) \<and> (\<exists>cs. mint_inv (segments (mw_source w)) w cs)"
  using assms(3)
proof induction
  case base
  have "mint_inv (segments (mw_source w0)) w0 []" using assms(1) client_inv_New segments_apart [OF assms(2)]
    unfolding mint_inv_def mint_start_def by (metis Int_empty_left Int_empty_right distinct.simps(1) empty_subsetI list.set(1) list.simps(8) subset_refl)
  with assms(2) show ?case by blast
next
  case (step w w')
  then show ?case using mint_inv_step [OF step(2)] by blast
qed

lemma range_ids_bounds: "sound s \<Longrightarrow> x \<in> range_ids (segments s) \<Longrightarrow> x \<noteq> 0 \<and> narrow x"
  using segments_bounds by (fastforce simp: range_ids_def narrow_less word_less_nat_alt word_le_nat_alt)

lemma minted_distinct:
  assumes "mint_start segments w0" and "sound (mw_source w0)" and "(mint_step source_step segments ceil_at)\<^sup>*\<^sup>* w0 w"
  shows "distinct (mw_minted w) \<and> (\<forall>x \<in> set (mw_minted w). x \<noteq> 0 \<and> unat x < 2 ^ 63)"
proof -
  from mint_inv_run [OF assms] obtain cs where sound: "sound (mw_source w)" and cs: "mw_minted w = map MixID cs" "distinct cs"
    "set cs \<subseteq> range_ids (segments (mw_source w))" by (auto simp: mint_inv_def)
  note ok = range_ids_bounds [OF sound]
  have "inj_on MixID (set cs)" using cs(3) ok narrow_eq unfolding inj_on_def MixID_eq_iff by (metis subsetD)
  with cs(1,2) have "distinct (mw_minted w)" by (simp add: distinct_map)
  moreover have "x \<noteq> 0 \<and> unat x < 2 ^ 63" if "x \<in> set (mw_minted w)" for x
    using that cs ok MixID_nonzero narrow_MixID narrow_less by (metis (no_types, lifting) image_iff list.set_map subsetD)
  ultimately show ?thesis by blast
qed

end

section \<open>The issuers as the source\<close>

interpretation issuers: segment_source "issuer_step cfg" "\<lambda>s. issuer_reachable cfg s \<and> apart cfg \<and> (\<forall>i. built (pc_opt (cfg i)))" iw_segments for cfg
proof
  fix s s'
  assume "issuer_reachable cfg s \<and> apart cfg \<and> (\<forall>i. built (pc_opt (cfg i)))" "issuer_step cfg s s'"
  then show "issuer_reachable cfg s' \<and> apart cfg \<and> (\<forall>i. built (pc_opt (cfg i)))"
    by (auto simp: issuer_reachable_def intro: rtranclp.rtrancl_into_rtrancl)
next
  fix s
  assume "issuer_reachable cfg s \<and> apart cfg \<and> (\<forall>i. built (pc_opt (cfg i)))"
  then show "ranges_apart (iw_segments s)" using reachable_segments [of cfg s] by (simp add: ranges_apart_def)
next
  fix s lo hi
  assume "issuer_reachable cfg s \<and> apart cfg \<and> (\<forall>i. built (pc_opt (cfg i)))" "(lo, hi) \<in> set (iw_segments s)"
  then show "0 < lo \<and> unat hi \<le> 2 ^ 63" using reachable_segments [of cfg s] by auto
qed

text \<open>C8: All permanent ids ever given out, by any number of clients of the issuers of all regions, over crashes and restarts
  of both, lost answers, and faults that leave every region one intact store, are pairwise different, not 0 and
  fit in 63 bits.\<close>

theorem minted_ids_unique:
  assumes "issuer_start cfg (mw_source w0)" and "mint_start iw_segments w0" and "apart cfg" and "\<forall>i. built (pc_opt (cfg i))"
    and "(mint_step (issuer_step cfg) iw_segments ceil_at)\<^sup>*\<^sup>* w0 w"
  shows "distinct (mw_minted w) \<and> (\<forall>x \<in> set (mw_minted w). x \<noteq> 0 \<and> unat x < 2 ^ 63)"
proof (rule issuers.minted_distinct [OF assms(2) _ assms(5)])
  show "issuer_reachable cfg (mw_source w0) \<and> apart cfg \<and> (\<forall>i. built (pc_opt (cfg i)))"
    using assms(1,3,4) by (auto simp: issuer_reachable_def)
qed

text \<open>In every state of the system each client keeps its step between its limits, holds only validated numbers, has at most one
  fetch under way and none while a prefetched segment waits, and every fetch it started is settled, failed or in flight.\<close>

theorem clients_keep_limits:
  assumes "issuer_start cfg (mw_source w0)" and "mint_start iw_segments w0" and "apart cfg" and "\<forall>i. built (pc_opt (cfg i))"
    and "(mint_step (issuer_step cfg) iw_segments ceil_at)\<^sup>*\<^sup>* w0 w"
  shows "client_inv (mw_client w i)"
proof -
  have "issuer_reachable cfg (mw_source w0) \<and> apart cfg \<and> (\<forall>i. built (pc_opt (cfg i)))"
    using assms(1,3,4) by (auto simp: issuer_reachable_def)
  from issuers.mint_inv_run [OF assms(2) this assms(5)] show ?thesis by (auto simp: mint_inv_def)
qed

text \<open>A client of the sample issuer: it warms up, receives the first segment and mints twice.\<close>

lemma issuer_segments_grow: "issuer_step cfg s s' \<Longrightarrow> \<exists>new. iw_segments s' = iw_segments s @ new"
  by (cases rule: issuer_step.cases) (auto dest: perform_frame)

lemma issuer_runs:
  "(issuer_step cfg)\<^sup>*\<^sup>* s s' \<Longrightarrow> mw_source w = s \<Longrightarrow>
    \<exists>new. iw_segments s' = iw_segments s @ new
      \<and> (mint_step (issuer_step cfg) iw_segments ceil_at)\<^sup>*\<^sup>* w (w\<lparr>mw_source := s', mw_replies := mw_replies w @ new\<rparr>)"
proof (induction rule: rtranclp_induct)
  case base
  then have "w\<lparr>mw_source := s, mw_replies := mw_replies w @ []\<rparr> = w" by simp
  then show ?case by (intro exI [of _ "[]"]) (simp only: append_Nil2 rtranclp.rtrancl_refl simp_thms)
next
  case (step s1 s2)
  then obtain new more where new: "iw_segments s1 = iw_segments s @ new"
      "(mint_step (issuer_step cfg) iw_segments ceil_at)\<^sup>*\<^sup>* w (w\<lparr>mw_source := s1, mw_replies := mw_replies w @ new\<rparr>)"
    and more: "iw_segments s2 = iw_segments s1 @ more" using issuer_segments_grow by blast
  with mint_step.source [of "issuer_step cfg" "w\<lparr>mw_source := s1, mw_replies := mw_replies w @ new\<rparr>" s2 iw_segments more ceil_at] step(2)
  show ?case by (intro exI [of _ "new @ more"]) (auto intro: rtranclp.rtrancl_into_rtrancl)
qed

definition sample_options :: client_options where
  "sample_options = \<lparr>so_BizTag = ''player'', so_Step = 10, so_MinStep = 0, so_MaxStep = 0, so_PrefetchAt = Some 0, so_MaxIDExclusive = 0,
     so_RetryBackoff = 0, so_FetchTimeout = 0\<rparr>"

definition sample_client :: seg_client where
  "sample_client = (case New_client sample_options of Inr c \<Rightarrow> c | Inl _ \<Rightarrow> fresh_client sample_options)"

definition sample_fetched :: seg_client where
  "sample_fetched = finishFetch (\<lambda>_ _. 1) 0 (Inr (144115188092633088, 144115188092633098)) (snd (Warm sample_client))"

definition sample_mint :: "issuer_world mint_world" where
  "sample_mint = \<lparr>mw_source = sample_world, mw_replies = [], mw_client = (\<lambda>_. sample_client), mw_minted = []\<rparr>"

lemma sample_client_new: "New_client sample_options = Inr sample_client"
  by code_simp

lemma sample_client_warm: "cn_inflight (snd (Warm sample_client)) = Some 10" "so_BizTag (cn_opt (snd (Warm sample_client))) = ''player''"
  by code_simp+

lemma sample_client_next:
  "fst (Next_locked 0 sample_fetched) = Minted (MixID 144115188092633088)"
  "fst (Next_locked 0 (snd (Next_locked 0 sample_fetched))) = Minted (MixID 144115188092633089)"
  by code_simp+

lemma sample_mint_start: "mint_start iw_segments sample_mint"
  using sample_client_new by (auto simp: mint_start_def sample_mint_def sample_world_def)

lemma sample_mint_run:
  "\<exists>w. (mint_step (issuer_step (\<lambda>_. sample_config)) iw_segments (\<lambda>_ _. 1))\<^sup>*\<^sup>* sample_mint w
    \<and> mw_minted w = [MixID 144115188092633088, MixID 144115188092633089]"
proof -
  let ?step = "mint_step (issuer_step (\<lambda>_. sample_config)) iw_segments (\<lambda>_ _. 1)"
  let ?seg = "(144115188092633088, 144115188092633098) :: u64 \<times> u64"
  obtain s where s: "(issuer_step (\<lambda>_. sample_config))\<^sup>*\<^sup>* sample_world s" "?seg \<in> set (iw_segments s)" using sample_run by force
  obtain w1 where w1: "?step\<^sup>*\<^sup>* sample_mint w1" "?seg \<in> set (mw_replies w1)" "mw_client w1 0 = sample_client" "mw_minted w1 = []"
    using issuer_runs [OF s(1), of sample_mint "\<lambda>_ _. 1"] s(2) by (auto simp: sample_mint_def sample_world_def)
  let ?w2 = "w1\<lparr>mw_client := (mw_client w1)(0 := snd (Warm sample_client))\<rparr>"
  have w2: "?step w1 ?w2" by (rule mint_step.move) (simp add: client_moves_def w1(3))
  obtain w3 where w3: "?step ?w2 w3" "mw_client w3 0 = sample_fetched" "mw_minted w3 = []"
  proof -
    let ?allocate = "\<lambda>_ _. Inr ?seg :: issuer_error + u64 \<times> u64"
    have "Adapt (AllocateIdSegment_server (Some ?allocate) ''player'' 10) = Inr ?seg" by (rule request_granted) simp_all
    with mint_step.reply [of "144115188092633088" "144115188092633098" ?w2 0 10 ?allocate _ "issuer_step (\<lambda>_. sample_config)" iw_segments "\<lambda>_ _. 1" 0]
      w1(2,4) sample_client_warm show ?thesis
      by (intro that [of "?w2\<lparr>mw_client := (mw_client ?w2)(0 := sample_fetched), mw_replies := remove1 ?seg (mw_replies w1)\<rparr>"])
        (auto simp: sample_fetched_def)
  qed
  have mint: "\<exists>w'. ?step w w' \<and> mw_client w' 0 = snd (Next_locked 0 (mw_client w 0)) \<and> mw_minted w' = mw_minted w @ [x]"
    if "fst (Next_locked 0 (mw_client w 0)) = Minted x" for w x
    using mint_step.mint [of 0 w 0 "Minted x" "snd (Next_locked 0 (mw_client w 0))" "issuer_step (\<lambda>_. sample_config)" iw_segments "\<lambda>_ _. 1"] that
    by (force simp: Mint_def Let_def)
  obtain w4 where w4: "?step w3 w4" "mw_client w4 0 = snd (Next_locked 0 sample_fetched)" "mw_minted w4 = [MixID 144115188092633088]"
    using mint [of w3] w3(2,3) sample_client_next(1) by auto
  obtain w5 where w5: "?step w4 w5" "mw_minted w5 = [MixID 144115188092633088, MixID 144115188092633089]"
    using mint [of w4] w4(2,3) sample_client_next(2) by auto
  have "?step\<^sup>*\<^sup>* sample_mint w5"
    using w1(1) w2 w3(1) w4(1) w5(1) by (meson rtranclp.rtrancl_into_rtrancl)
  with w5(2) show ?thesis by blast
qed

lemma sample_mint_facts: "issuer_start (\<lambda>_. sample_config) (mw_source sample_mint)" "apart (\<lambda>_. sample_config)"
  using sample_start by (simp_all add: sample_mint_def apart_def)

theorem minted_ids_unique_witness:
  "\<exists>w. (mint_step (issuer_step (\<lambda>_. sample_config)) iw_segments (\<lambda>_ _. 1))\<^sup>*\<^sup>* sample_mint w
    \<and> length (mw_minted w) = 2 \<and> distinct (mw_minted w)"
  using sample_mint_run minted_ids_unique [OF sample_mint_facts(1) sample_mint_start sample_mint_facts(2)] sample_built by fastforce

theorem clients_keep_limits_witness:
  "\<exists>w. (mint_step (issuer_step (\<lambda>_. sample_config)) iw_segments (\<lambda>_ _. 1))\<^sup>*\<^sup>* sample_mint w
    \<and> length (mw_minted w) = 2 \<and> client_inv (mw_client w 0)"
  using sample_mint_run clients_keep_limits [OF sample_mint_facts(1) sample_mint_start sample_mint_facts(2)] sample_built by fastforce

section \<open>Without the issuer\<close>

text \<open>\<open>Next\<close> called so often, with nothing arriving in between.\<close>

primrec mint_run :: "(nat \<Rightarrow> int) \<Rightarrow> nat \<Rightarrow> seg_client \<Rightarrow> next_result list" where
  "mint_run now 0 c = []"
| "mint_run now (Suc n) c = fst (Next_locked (now n) c) # mint_run now n (snd (Next_locked (now n) c))"

lemma Next_open: "\<not> cn_closed c \<Longrightarrow> \<not> cn_closed (snd (Next_locked now c))"
  by (induction now c rule: Next_locked.induct)
    (subst Next_locked.simps, auto simp: Let_def startFetchLocked_def onRangeExhaustedLocked_def split: option.splits)

lemma Next_mints:
  assumes "\<not> cn_closed c" and "held_ids c \<noteq> {}"
  shows "\<exists>x. fst (Next_locked now c) = Minted x"
proof (cases "0 < seg_remaining (cn_cur c)")
  case True
  with assms(1) show ?thesis by (subst Next_locked.simps) (simp add: Let_def)
next
  case False
  then have "seg_ids (cn_cur c) = {}" by (auto simp: seg_ids_def seg_remaining_pos)
  with assms(2) obtain s where s: "cn_next c = Some s" "seg_ids s \<noteq> {}" by (auto simp: held_ids_def next_ids_def split: option.splits)
  then have "0 < seg_remaining s" by (auto simp: seg_ids_def seg_remaining_pos)
  with False assms(1) s show ?thesis by (subst Next_locked.simps, simp, subst Next_locked.simps) (simp add: Let_def)
qed

lemma mint_run_all:
  "\<not> cn_closed c \<Longrightarrow> held_apart c \<Longrightarrow> card (held_ids c) = n \<Longrightarrow>
    \<exists>xs. mint_run now n c = map (\<lambda>x. Minted (MixID x)) xs \<and> distinct xs \<and> set xs = held_ids c"
proof (induction n arbitrary: c)
  case 0
  then show ?case by simp
next
  case (Suc n)
  obtain r c' where step: "Next_locked (now n) c = (r, c')" by force
  from Suc.prems(3) have "held_ids c \<noteq> {}" by auto
  with Next_mints [OF Suc.prems(1) this, of "now n"] step obtain y where "r = Minted y" by auto
  with Next_took [OF step Suc.prems(2)] obtain x where x: "x \<in> held_ids c" "r = Minted (MixID x)" "held_ids c' = held_ids c - {x}" "held_apart c'"
    by (auto simp: took_def)
  have "card (held_ids c') = n" using Suc.prems(3) x(1,3) by simp
  moreover have "\<not> cn_closed c'" using Next_open [OF Suc.prems(1), of "now n"] step by simp
  ultimately obtain xs where "mint_run now n c' = map (\<lambda>x. Minted (MixID x)) xs" "distinct xs" "set xs = held_ids c'"
    using Suc.IH x(4) by blast
  with step x show ?case by (intro exI [of _ "x # xs"]) auto
qed


text \<open>A drain report is issued exactly when no fetch is in flight and none ever failed or brought an invalid range.\<close>

lemma drain_report_iff:
  assumes "client_inv c"
  shows "(\<exists>d. DrainAndReport_end sha256 c = Inr d) \<longleftrightarrow> cn_fetchesUnknown c = 0 \<and> cn_inflight c = None"
  using assms by (auto simp: DrainAndReport_end_def client_inv_def)

lemma sample_fetched_held: "held_apart sample_fetched" "held_ids sample_fetched = {144115188092633088..<144115188092633098}"
    "client_inv sample_fetched" "\<not> cn_closed sample_fetched"
proof -
  have cur: "cn_cur sample_fetched = \<lparr>sg_pos = 0, sg_hi = 0, sg_prefetchAt = 0\<rparr>"
    "cn_next sample_fetched = Some \<lparr>sg_pos = 144115188092633088, sg_hi = 144115188092633098, sg_prefetchAt = 1\<rparr>" by code_simp+
  then show "held_apart sample_fetched" "held_ids sample_fetched = {144115188092633088..<144115188092633098}"
    by (auto simp: held_apart_def held_ids_def next_ids_def seg_ids_def)
  have "client_inv (snd (Warm sample_client))" by (intro client_inv_others client_inv_New(1) [OF sample_client_new])
  then show "client_inv sample_fetched" unfolding sample_fetched_def by (rule client_inv_finish) (simp add: sample_client_warm)
  show "\<not> cn_closed sample_fetched" by code_simp
qed


end
