(* ===== verification/PoolScope.thy ===== *)
theory PoolScope
  imports Prelude
begin

text \<open>
  The tree of scopes a match may span (\<^verbatim>\<open>src/go/match/internal/scope/scope.go\<close>): a zone, a group of zones, the world.
  Waiting widens the scope of a unit, and a match may span a level only if all its units have come to accept it.
\<close>

section \<open>Levels\<close>

text \<open>The wider the larger.\<close>

type_synonym level = nat

abbreviation (input) LevelZone :: level where "LevelZone \<equiv> 0"
abbreviation (input) LevelGroup :: level where "LevelGroup \<equiv> 1"
abbreviation (input) LevelGlobal :: level where "LevelGlobal \<equiv> 2"

record scope_node =
  sn_Zone :: u32
  sn_Group :: u32

definition keyAt :: "scope_node \<Rightarrow> level \<Rightarrow> u32 option" where
  "keyAt n level =
     (if level = LevelZone then if sn_Zone n \<noteq> 0 then Some (sn_Zone n) else None
      else if level = LevelGroup then if sn_Group n \<noteq> 0 then Some (sn_Group n) else None
      else if level = LevelGlobal then Some 0
      else None)"

text \<open>Whether all nodes are in the subtree of the first.\<close>

definition shared_at :: "scope_node list \<Rightarrow> level \<Rightarrow> bool" where
  "shared_at nodes level = (case nodes of [] \<Rightarrow> False | n # ns \<Rightarrow> keyAt n level \<noteq> None \<and> list_all (\<lambda>m. keyAt m level = keyAt n level) ns)"

text \<open>\<open>None\<close> is \<open>ErrInvalidNode\<close>.\<close>

definition CommonLevel :: "scope_node list \<Rightarrow> level option" where
  "CommonLevel nodes =
     (if nodes = [] \<or> list_ex (\<lambda>n. sn_Zone n = 0) nodes then None
      else case find (shared_at nodes) [LevelZone..<LevelGlobal] of Some level \<Rightarrow> Some level | None \<Rightarrow> Some LevelGlobal)"

section \<open>Widening\<close>

record scope_schedule =
  sd_GroupAfterMs :: u64
  sd_GlobalAfterMs :: u64

definition Validate_schedule :: "scope_schedule \<Rightarrow> bool" where
  "Validate_schedule s = (\<not> sd_GroupAfterMs s > sd_GlobalAfterMs s)"

definition MinWaitMs :: "scope_schedule \<Rightarrow> level \<Rightarrow> u64" where
  "MinWaitMs s level = (if level = LevelZone then 0 else if level = LevelGroup then sd_GroupAfterMs s else sd_GlobalAfterMs s)"

definition AllowedByWait :: "scope_schedule \<Rightarrow> u64 \<Rightarrow> level" where
  "AllowedByWait s waitMs =
     (if waitMs \<ge> sd_GlobalAfterMs s then LevelGlobal else if waitMs \<ge> sd_GroupAfterMs s then LevelGroup else LevelZone)"

record scope_member =
  sm_Node :: scope_node
  sm_EnqueuedMs :: u64

definition WaitMs :: "u64 \<Rightarrow> u64 \<Rightarrow> u64" where
  "WaitMs enqueuedMs nowMs = (if enqueuedMs \<ge> nowMs then 0 else nowMs - enqueuedMs)"

definition min_wait :: "scope_member list \<Rightarrow> u64 \<Rightarrow> u64" where
  "min_wait members nowMs = fold (\<lambda>m w. if WaitMs (sm_EnqueuedMs m) nowMs < w then WaitMs (sm_EnqueuedMs m) nowMs else w) members (- 1)"

definition UnitAllowed :: "scope_schedule \<Rightarrow> scope_member list \<Rightarrow> u64 \<Rightarrow> level option" where
  "UnitAllowed s members nowMs =
     (if members = [] then None
      else case CommonLevel (map sm_Node members) of
        None \<Rightarrow> None
      | Some own \<Rightarrow> Some (max own (AllowedByWait s (min_wait members nowMs))))"

definition Admit :: "scope_schedule \<Rightarrow> scope_member list list \<Rightarrow> u64 \<Rightarrow> level option" where
  "Admit s units nowMs =
     (if units = [] \<or> list_ex (\<lambda>u. u = []) units then None
      else case CommonLevel (map sm_Node (concat units)) of
        None \<Rightarrow> None
      | Some level \<Rightarrow>
          if length units = 1 then Some level
          else if list_ex (\<lambda>u. case UnitAllowed s u nowMs of None \<Rightarrow> True | Some allowed \<Rightarrow> allowed < level) units then None
          else Some level)"

section \<open>The table of groups\<close>

record group_range =
  gr_GroupID :: u32
  gr_ZoneBegin :: u32
  gr_ZoneEnd :: u32

definition bad_range :: "group_range list \<Rightarrow> nat \<Rightarrow> bool" where
  "bad_range rows i = (let row = rows ! i in
     gr_GroupID row = 0 \<or> gr_ZoneBegin row = 0 \<or> gr_ZoneBegin row > gr_ZoneEnd row
       \<or> i > 0 \<and> gr_ZoneEnd (rows ! (i - 1)) \<ge> gr_ZoneBegin row)"

definition NewDirectory :: "group_range list \<Rightarrow> group_range list option" where
  "NewDirectory rows =
     (let sorted = sort_key gr_ZoneBegin rows in
      if list_ex (bad_range sorted) [0..<length sorted] then None else Some sorted)"

text \<open>\<open>sort.Search\<close>: the bisection of the standard library.\<close>

function Search_between :: "(nat \<Rightarrow> bool) \<Rightarrow> nat \<Rightarrow> nat \<Rightarrow> nat" where
  "Search_between f i j =
     (if i < j then let h = (i + j) div 2 in if \<not> f h then Search_between f (h + 1) j else Search_between f i h else i)"
  by auto
termination by (relation "measure (\<lambda>(f, i, j). j - i)") auto

declare Search_between.simps [simp del]

definition Search :: "nat \<Rightarrow> (nat \<Rightarrow> bool) \<Rightarrow> nat" where "Search n f = Search_between f 0 n"

definition GroupOf :: "group_range list option \<Rightarrow> u32 \<Rightarrow> u32" where
  "GroupOf d zone =
     (case d of
        None \<Rightarrow> 0
      | Some ranges \<Rightarrow>
          if zone = 0 then 0
          else let i = Search (length ranges) (\<lambda>i. gr_ZoneEnd (ranges ! i) \<ge> zone) in
            if i < length ranges \<and> gr_ZoneBegin (ranges ! i) \<le> zone then gr_GroupID (ranges ! i) else 0)"

definition NodeOf :: "group_range list option \<Rightarrow> u32 \<Rightarrow> scope_node" where
  "NodeOf d zone = \<lparr>sn_Zone = zone, sn_Group = GroupOf d zone\<rparr>"

section \<open>What the level means\<close>

lemma shared_at_iff:
  "shared_at nodes level \<longleftrightarrow> nodes \<noteq> [] \<and> (\<exists>k. \<forall>n \<in> set nodes. keyAt n level = Some k)"
  by (cases nodes) (auto simp: shared_at_def list_all_iff)

lemma shared_global: "shared_at nodes LevelGlobal \<longleftrightarrow> nodes \<noteq> []"
  by (auto simp: shared_at_iff keyAt_def)

text \<open>The lowest level at which all nodes share a subtree.\<close>

lemma CommonLevel_least:
  "CommonLevel nodes = Some level \<longleftrightarrow> nodes \<noteq> [] \<and> (\<forall>n \<in> set nodes. sn_Zone n \<noteq> 0) \<and> shared_at nodes level \<and> (\<forall>l < level. \<not> shared_at nodes l)"
proof -
  define L :: nat where "L = (if shared_at nodes 0 then 0 else if shared_at nodes 1 then 1 else 2)"
  have levels: "[0..<2] = [0, 1 :: nat]" by (simp add: numeral_2_eq_2)
  have code: "CommonLevel nodes = (if nodes = [] \<or> (\<exists>n \<in> set nodes. sn_Zone n = 0) then None else Some L)"
    by (simp add: CommonLevel_def levels L_def list_ex_iff)
  have "shared_at nodes L" "\<forall>l < L. \<not> shared_at nodes l" if "nodes \<noteq> []"
    using that shared_global [of nodes] by (auto simp: L_def less_2_cases_iff)
  then have "L = level \<longleftrightarrow> shared_at nodes level \<and> (\<forall>l < level. \<not> shared_at nodes l)" if "nodes \<noteq> []"
    using that by (metis nat_neq_iff)
  then show ?thesis by (auto simp: code)
qed

lemma CommonLevel_mono:
  assumes "CommonLevel xs = Some a" and "CommonLevel ys = Some b" and "set xs \<subseteq> set ys"
  shows "a \<le> b"
proof -
  from assms(2) have "shared_at ys b" by (simp add: CommonLevel_least)
  moreover from assms(1) have "xs \<noteq> []" by (simp add: CommonLevel_least)
  ultimately have "shared_at xs b" using assms(3) by (auto simp: shared_at_iff)
  with assms(1) show ?thesis by (metis CommonLevel_least not_le)
qed

text \<open>A match of several units spans the least common level of all members, and every unit has come to accept it.\<close>

lemma Admit_iff:
  "Admit s units nowMs = Some level \<longleftrightarrow>
     units \<noteq> [] \<and> [] \<notin> set units \<and> CommonLevel (map sm_Node (concat units)) = Some level
     \<and> (length units = 1 \<or> (\<forall>u \<in> set units. \<exists>a. UnitAllowed s u nowMs = Some a \<and> level \<le> a))"
  by (fastforce simp: Admit_def list_ex_iff not_less split: option.splits if_splits)

lemma min_wait_le: "m \<in> set members \<Longrightarrow> min_wait members nowMs \<le> WaitMs (sm_EnqueuedMs m) nowMs"
proof -
  have "fold (\<lambda>m w. if f m < w then f m else w) xs w \<le> w \<and> (\<forall>m \<in> set xs. fold (\<lambda>m w. if f m < w then f m else w) xs w \<le> f m)"
    for f :: "scope_member \<Rightarrow> u64" and xs w
    by (induction xs arbitrary: w) (auto, (meson order.trans order.strict_implies_order not_less)+)
  from this [of "\<lambda>m. WaitMs (sm_EnqueuedMs m) nowMs" members "- 1"]
  show "m \<in> set members \<Longrightarrow> ?thesis" unfolding min_wait_def by blast
qed

section \<open>The table\<close>

definition growing :: "nat \<Rightarrow> (nat \<Rightarrow> bool) \<Rightarrow> bool" where
  "growing n f \<longleftrightarrow> (\<forall>a b. a \<le> b \<longrightarrow> b < n \<longrightarrow> f a \<longrightarrow> f b)"

lemma Search_between_least:
  assumes mono: "growing n f"
  shows "i \<le> j \<Longrightarrow> j \<le> n \<Longrightarrow> \<forall>k < i. \<not> f k \<Longrightarrow> \<forall>k. j \<le> k \<longrightarrow> k < n \<longrightarrow> f k \<Longrightarrow>
    Search_between f i j \<le> n \<and> (\<forall>k < Search_between f i j. \<not> f k) \<and> (\<forall>k. Search_between f i j \<le> k \<longrightarrow> k < n \<longrightarrow> f k)"
proof (induction "j - i" arbitrary: i j rule: less_induct)
  case less
  show ?case
  proof (cases "i < j")
    case False
    then have "Search_between f i j = i" by (subst Search_between.simps) simp
    with less.prems False show ?thesis by simp
  next
    case True
    define h where "h = (i + j) div 2"
    have h: "i \<le> h" "h < j" using True by (auto simp: h_def)
    show ?thesis
    proof (cases "f h")
      case True
      have eq: "Search_between f i j = Search_between f i h" using True \<open>i < j\<close> by (subst Search_between.simps) (simp add: Let_def h_def)
      have "\<forall>k. h \<le> k \<longrightarrow> k < n \<longrightarrow> f k" using mono True by (auto simp: growing_def)
      then show ?thesis unfolding eq using less.prems h by (intro less.hyps) auto
    next
      case False
      have eq: "Search_between f i j = Search_between f (h + 1) j" using False \<open>i < j\<close> by (subst Search_between.simps) (simp add: Let_def h_def)
      have "\<not> f k" if "k < h + 1" for k using mono [unfolded growing_def, rule_format, of k h] False h(2) less.prems(2) that by auto
      then show ?thesis unfolding eq using less.prems h by (intro less.hyps) auto
    qed
  qed
qed

lemma Search_least:
  assumes "growing n f"
  shows "Search n f \<le> n" "k < Search n f \<Longrightarrow> \<not> f k" "Search n f < n \<Longrightarrow> f (Search n f)"
  using Search_between_least [OF assms, of 0 n] by (auto simp: Search_def)

text \<open>An accepted table: sorted, apart, no zero.\<close>

lemma NewDirectory_apart:
  assumes "NewDirectory rows = Some d"
  shows "set d = set rows" and "\<And>r. r \<in> set d \<Longrightarrow> gr_GroupID r \<noteq> 0 \<and> gr_ZoneBegin r \<le> gr_ZoneEnd r"
    and "i < j \<Longrightarrow> j < length d \<Longrightarrow> gr_ZoneEnd (d ! i) < gr_ZoneBegin (d ! j)"
proof -
  from assms have d: "d = sort_key gr_ZoneBegin rows" and ok: "\<And>i. i < length d \<Longrightarrow> \<not> bad_range d i"
    by (auto simp: NewDirectory_def Let_def list_ex_iff split: if_splits)
  show "set d = set rows" by (simp add: d)
  show row: "gr_GroupID r \<noteq> 0 \<and> gr_ZoneBegin r \<le> gr_ZoneEnd r" if "r \<in> set d" for r
    using that ok unfolding in_set_conv_nth by (auto simp: bad_range_def Let_def not_less)
  show "i < j \<Longrightarrow> j < length d \<Longrightarrow> gr_ZoneEnd (d ! i) < gr_ZoneBegin (d ! j)"
  proof (induction j)
    case (Suc j)
    have step: "gr_ZoneEnd (d ! j) < gr_ZoneBegin (d ! Suc j)" using ok [OF Suc.prems(2)] by (auto simp: bad_range_def Let_def not_le)
    show ?case
    proof (cases "i = j")
      case False
      with Suc have "gr_ZoneEnd (d ! i) < gr_ZoneBegin (d ! j)" by simp
      also have "\<dots> \<le> gr_ZoneEnd (d ! j)" using row Suc.prems(2) by simp
      finally show ?thesis using step by (rule less_trans)
    qed (use step in simp)
  qed simp
qed

lemma ends_grow:
  assumes "NewDirectory rows = Some d"
  shows "growing (length d) (\<lambda>i. zone \<le> gr_ZoneEnd (d ! i))"
  unfolding growing_def
proof (intro allI impI)
  fix a b
  assume ab: "a \<le> b" "b < length d" "zone \<le> gr_ZoneEnd (d ! a)"
  show "zone \<le> gr_ZoneEnd (d ! b)"
  proof (cases "a = b")
    case False
    with ab have "gr_ZoneEnd (d ! a) < gr_ZoneBegin (d ! b)" using NewDirectory_apart(3) [OF assms] by simp
    also have "\<dots> \<le> gr_ZoneEnd (d ! b)" using NewDirectory_apart(2) [OF assms] ab(2) by simp
    finally show ?thesis using ab(3) by simp
  qed (use ab in simp)
qed

text \<open>The bisection finds the row of the zone, whatever the order of the rows given.\<close>

lemma GroupOf_row:
  assumes "NewDirectory rows = Some d" and "r \<in> set rows" and "gr_ZoneBegin r \<le> zone" "zone \<le> gr_ZoneEnd r" and "zone \<noteq> 0"
  shows "GroupOf (Some d) zone = gr_GroupID r"
proof -
  note apart = NewDirectory_apart [OF assms(1)]
  let ?f = "\<lambda>i. gr_ZoneEnd (d ! i) \<ge> zone"
  obtain k where k: "k < length d" "d ! k = r" using assms(2) unfolding apart(1) [symmetric] in_set_conv_nth by blast
  note s = Search_least [OF ends_grow [OF assms(1), of zone]]
  have "Search (length d) ?f \<le> k" using s(2) [of k] k assms(4) by force
  moreover have "\<not> Search (length d) ?f < k"
  proof
    assume less: "Search (length d) ?f < k"
    then have "zone \<le> gr_ZoneEnd (d ! Search (length d) ?f)" using s(3) k(1) by simp
    also have "\<dots> < gr_ZoneBegin r" using apart(3) [OF less k(1)] k(2) by simp
    finally show False using assms(3) by simp
  qed
  ultimately show ?thesis using k assms(3,5) by (simp add: GroupOf_def)
qed

lemma GroupOf_none:
  assumes "NewDirectory rows = Some d" and "\<And>r. r \<in> set rows \<Longrightarrow> \<not> (gr_ZoneBegin r \<le> zone \<and> zone \<le> gr_ZoneEnd r)"
  shows "GroupOf (Some d) zone = 0"
proof -
  note apart = NewDirectory_apart [OF assms(1)]
  let ?f = "\<lambda>i. gr_ZoneEnd (d ! i) \<ge> zone"
  note s = Search_least(3) [OF ends_grow [OF assms(1), of zone]]
  have "\<not> gr_ZoneBegin (d ! Search (length d) ?f) \<le> zone" if "Search (length d) ?f < length d"
  proof -
    have "d ! Search (length d) ?f \<in> set rows" using nth_mem [OF that] unfolding apart(1) .
    with assms(2) s [OF that] show ?thesis by blast
  qed
  then show ?thesis by (auto simp: GroupOf_def Let_def)
qed

text \<open>An accepted table of groups answers for every zone the group of the one row that contains it, and 0 for a zone
  without a row.\<close>

theorem GroupOf_correct:
  assumes "NewDirectory rows = Some d" and "zone \<noteq> 0"
  shows "(\<exists>r \<in> set rows. gr_ZoneBegin r \<le> zone \<and> zone \<le> gr_ZoneEnd r \<and> GroupOf (Some d) zone = gr_GroupID r)
    \<or> ((\<forall>r \<in> set rows. \<not> (gr_ZoneBegin r \<le> zone \<and> zone \<le> gr_ZoneEnd r)) \<and> GroupOf (Some d) zone = 0)"
  using GroupOf_row [OF assms(1) _ _ _ assms(2)] GroupOf_none [OF assms(1), of zone] by blast

definition demo_rows :: "group_range list" where
  "demo_rows = [\<lparr>gr_GroupID = 5, gr_ZoneBegin = 10, gr_ZoneEnd = 19\<rparr>, \<lparr>gr_GroupID = 7, gr_ZoneBegin = 1, gr_ZoneEnd = 9\<rparr>]"

theorem GroupOf_correct_witness:
  "NewDirectory demo_rows = Some (rev demo_rows) \<and> GroupOf (Some (rev demo_rows)) 12 = 5"
proof -
  have d: "NewDirectory demo_rows = Some (rev demo_rows)" by code_simp
  from GroupOf_correct [OF d, of 12] d show ?thesis by (auto simp: demo_rows_def)
qed

end
