(* ===== verification/PoolSides.thy ===== *)
theory PoolSides
  imports Prelude Complex_Main "HOL-Library.List_Lexorder"
begin

text \<open>
  Choosing the units of a match with two equal sides and dividing them (\<^verbatim>\<open>src/go/match/internal/poolgroup/pvp_units.go\<close>).
  A unit is never split.  Ratings are integers and tolerances rationals: the float arithmetic of the code is taken
  to be exact, which it is for ratings and tolerances below 2 to the 53 in hundredths.
\<close>

section \<open>Units and rules\<close>

abbreviation (input) maxPerSide :: nat where "maxPerSide \<equiv> 5"
abbreviation (input) maxSideUnits :: nat where "maxSideUnits \<equiv> 10"

text \<open>The float values a tolerance can have; a negative infinity is refused like every negative one.\<close>

datatype tolerance = TolNaN | TolInf | Tol rat

record side_unit =
  su_Size :: nat
  su_RatingCenti :: int
  su_WaitMs :: u64

record side_rule =
  sr_PerSide :: nat
  sr_Rated :: bool
  sr_ToleranceCenti :: tolerance
  sr_GapStepMs :: u64

record selection =
  sl_members :: "nat list"
  sl_last :: nat
  sl_spread :: int

record side_choice =
  sc_members :: "nat list"
  sc_sides :: "nat list"
  sc_gap :: nat
  sc_imbalance :: int
  sc_spread :: int

definition side_better :: "side_choice \<Rightarrow> side_choice \<Rightarrow> bool" where
  "side_better c b =
     (if sc_gap c \<noteq> sc_gap b then sc_gap c < sc_gap b
      else if sc_imbalance c \<noteq> sc_imbalance b then sc_imbalance c < sc_imbalance b
      else sc_spread c < sc_spread b)"

section \<open>Choosing\<close>

text \<open>\<open>need ! k\<close> is the number of units of \<open>k\<close> people; sizes are tried from the largest down.\<close>

function compositions_fill :: "nat \<Rightarrow> nat \<Rightarrow> nat list \<Rightarrow> nat list list" where
  "compositions_fill remaining largest need =
     (if remaining = 0 then [need]
      else concat (map (\<lambda>k. compositions_fill (remaining - k) k (need[k := need ! k + 1]))
        (rev [1..<Suc (min largest remaining)])))"
  by auto
termination by (relation "measure (\<lambda>(remaining, largest, need). remaining)") auto

declare compositions_fill.simps [simp del]

definition compositionsFor :: "nat \<Rightarrow> nat \<Rightarrow> nat list list" where
  "compositionsFor n anchorSize = compositions_fill (2 * n - anchorSize) n (replicate (maxPerSide + 1) 0)"

datatype rating_window = Unlimited | Window rat rat

fun contains :: "rating_window \<Rightarrow> int \<Rightarrow> bool" where
  "contains Unlimited rating = True"
| "contains (Window low high) rating = (of_int rating \<ge> low \<and> of_int rating \<le> high)"

text \<open>Windows of the width of the tolerance around the anchor; each low end is a rating that occurs.\<close>

definition ratingWindows :: "side_unit list \<Rightarrow> bool \<Rightarrow> tolerance \<Rightarrow> rating_window list" where
  "ratingWindows units rated tol =
     (case tol of
        Tol t \<Rightarrow>
          if \<not> rated then [Unlimited]
          else
            let anchor = su_RatingCenti (hd units);
                lows = remdups (anchor # filter (\<lambda>r. r \<le> anchor \<and> of_int (anchor - r) \<le> t) (map su_RatingCenti (tl units))) in
            map (\<lambda>low. Window (of_int low) (of_int low + t)) (sort lows)
      | _ \<Rightarrow> [Unlimited])"

definition bucket :: "side_unit list \<Rightarrow> nat \<Rightarrow> nat \<Rightarrow> nat list" where
  "bucket units n k = filter (\<lambda>i. su_Size (units ! i) = k \<and> k \<ge> 1 \<and> k \<le> n) [1..<length units]"

definition eligible :: "side_unit list \<Rightarrow> nat \<Rightarrow> rating_window \<Rightarrow> nat list list" where
  "eligible units n window =
     map (\<lambda>k. if k \<ge> 1 \<and> k \<le> n then filter (\<lambda>i. contains window (su_RatingCenti (units ! i))) (bucket units n k) else [])
       [0..<maxPerSide + 1]"

definition takeEarliest :: "side_unit list \<Rightarrow> nat list list \<Rightarrow> nat list \<Rightarrow> selection option" where
  "takeEarliest units el need =
     (if list_ex (\<lambda>k. need ! k \<noteq> 0 \<and> length (el ! k) < need ! k) [0..<length need] then None
      else
        let others = sort (concat (map (\<lambda>k. take (need ! k) (el ! k)) [0..<length need]));
            lasts = map (\<lambda>k. el ! k ! (need ! k - 1)) (filter (\<lambda>k. need ! k \<noteq> 0) [0..<length need]);
            ratings = map (\<lambda>i. su_RatingCenti (units ! i)) others;
            low = fold min ratings (su_RatingCenti (hd units));
            high = fold max ratings (su_RatingCenti (hd units)) in
        Some \<lparr>sl_members = 0 # others, sl_last = fold max lasts 0, sl_spread = high - low\<rparr>)"

text \<open>The members, filled up to a fixed length.\<close>

definition selection_key :: "selection \<Rightarrow> int list" where
  "selection_key s = take maxSideUnits (map int (sl_members s) @ replicate maxSideUnits (- 1))"

fun keep_first :: "int list set \<Rightarrow> selection list \<Rightarrow> selection list" where
  "keep_first seen [] = []"
| "keep_first seen (s # ss) =
     (if selection_key s \<in> seen then keep_first seen ss else s # keep_first (insert (selection_key s) seen) ss)"

definition collectSelections :: "side_unit list \<Rightarrow> nat \<Rightarrow> bool \<Rightarrow> tolerance \<Rightarrow> selection list" where
  "collectSelections units n rated tol =
     (let found = concat (map (\<lambda>window. List.map_filter (takeEarliest units (eligible units n window)) (compositionsFor n (su_Size (hd units))))
        (ratingWindows units rated tol)) in
      sort_key (\<lambda>s. (sl_last s, sl_members s)) (keep_first {} found))"

section \<open>Dividing\<close>

definition sideOf :: "nat \<Rightarrow> nat \<Rightarrow> nat" where
  "sideOf i msk = (if i = 0 then 0 else msk div 2 ^ (i - 1) mod 2)"

definition acceptableGap :: "u64 \<Rightarrow> u64 \<Rightarrow> nat" where
  "acceptableGap waitMs stepMs = (let steps = waitMs div stepMs in if steps \<ge> of_nat maxPerSide then maxPerSide else 1 + unat steps)"

text \<open>The positions in a selection that a mask puts on a side.\<close>

definition on_side :: "nat list \<Rightarrow> nat \<Rightarrow> nat \<Rightarrow> nat list" where
  "on_side members msk side = map (\<lambda>i. members ! i) (filter (\<lambda>i. sideOf i msk = side) [0..<length members])"

definition premadeConsent :: "side_unit list \<Rightarrow> nat list \<Rightarrow> nat \<Rightarrow> nat \<Rightarrow> nat \<Rightarrow> nat \<Rightarrow> u64 \<Rightarrow> bool" where
  "premadeConsent units members msk largest0 largest1 gap stepMs =
     (if gap \<le> 1 \<or> stepMs = 0 then True
      else
        let weaker = (if largest1 < largest0 then 1 else 0) in
        list_all (\<lambda>i. \<not> acceptableGap (su_WaitMs (units ! i)) stepMs < gap) (on_side members msk weaker))"

definition side_people :: "side_unit list \<Rightarrow> nat list \<Rightarrow> nat" where "side_people units is = sum_list (map (\<lambda>i. su_Size (units ! i)) is)"
definition side_largest :: "side_unit list \<Rightarrow> nat list \<Rightarrow> nat" where "side_largest units is = fold max (map (\<lambda>i. su_Size (units ! i)) is) 0"
definition side_total :: "side_unit list \<Rightarrow> nat list \<Rightarrow> int" where
  "side_total units is = sum_list (map (\<lambda>i. su_RatingCenti (units ! i) * int (su_Size (units ! i))) is)"

definition absdiff :: "nat \<Rightarrow> nat \<Rightarrow> nat" where "absdiff a b = (if a < b then b - a else a - b)"

text \<open>What one mask gives, if it is a division at all.\<close>

definition split_choice :: "side_unit list \<Rightarrow> selection \<Rightarrow> side_rule \<Rightarrow> nat \<Rightarrow> side_choice option" where
  "split_choice units sel rule msk =
     (let s0 = on_side (sl_members sel) msk 0; s1 = on_side (sl_members sel) msk 1;
          largest0 = side_largest units s0; largest1 = side_largest units s1; gap = absdiff largest0 largest1 in
      if side_people units s0 \<noteq> sr_PerSide rule \<or> side_people units s1 \<noteq> sr_PerSide rule then None
      else if \<not> premadeConsent units (sl_members sel) msk largest0 largest1 gap (sr_GapStepMs rule) then None
      else Some \<lparr>sc_members = sl_members sel, sc_sides = map (\<lambda>i. sideOf i msk) [0..<length (sl_members sel)], sc_gap = gap,
        sc_imbalance = (if sr_Rated rule then \<bar>side_total units s0 - side_total units s1\<bar> else 0), sc_spread = sl_spread sel\<rparr>)"

definition keep_better :: "side_choice option \<Rightarrow> side_choice option \<Rightarrow> side_choice option" where
  "keep_better new best = (case new of None \<Rightarrow> best
     | Some c \<Rightarrow> (case best of None \<Rightarrow> Some c | Some b \<Rightarrow> if side_better c b then Some c else best))"

definition splitSides :: "side_unit list \<Rightarrow> selection \<Rightarrow> side_rule \<Rightarrow> side_choice option" where
  "splitSides units sel rule = fold (\<lambda>msk. keep_better (split_choice units sel rule msk)) [0..<2 ^ (length (sl_members sel) - 1)] None"

section \<open>A match for the anchor\<close>

text \<open>Batches of selections with the same last position, in order.\<close>

function pick_batches :: "side_unit list \<Rightarrow> side_rule \<Rightarrow> selection list \<Rightarrow> side_choice option" where
  "pick_batches units rule sels =
     (case sels of
        [] \<Rightarrow> None
      | s # _ \<Rightarrow>
          (case fold (\<lambda>sel. keep_better (splitSides units sel rule)) (takeWhile (\<lambda>x. sl_last x = sl_last s) sels) None of
             Some best \<Rightarrow> Some best
           | None \<Rightarrow> pick_batches units rule (dropWhile (\<lambda>x. sl_last x = sl_last s) sels)))"
  by auto
termination
  by (relation "measure (\<lambda>(units, rule, sels). length sels)") (auto simp: le_imp_less_Suc length_dropWhile_le)

declare pick_batches.simps [simp del]

definition pickSides :: "side_unit list \<Rightarrow> side_rule \<Rightarrow> (nat list \<times> nat list) option" where
  "pickSides units rule =
     (let n = sr_PerSide rule in
      if n < 1 \<or> n > maxPerSide \<or> units = [] \<or> su_Size (hd units) < 1 \<or> su_Size (hd units) > n then None
      else if sr_Rated rule \<and> (case sr_ToleranceCenti rule of TolNaN \<Rightarrow> True | TolInf \<Rightarrow> False | Tol t \<Rightarrow> t < 0) then None
      else
        let tol = (if sr_Rated rule then sr_ToleranceCenti rule else TolInf) in
        map_option (\<lambda>c. (sc_members c, sc_sides c)) (pick_batches units rule (collectSelections units n (sr_Rated rule) tol)))"

end
