(* ===== verification/PoolGroup.thy ===== *)
theory PoolGroup
  imports PoolScope PoolSides
begin

text \<open>
  Cutting a page of a matchmaking pool into groups (\<^verbatim>\<open>src/go/match/internal/poolgroup/poolgroup.go\<close>).  A Go map is the list
  of its entries, in the order in which a loop meets them: what is shown holds for every order.  Float arithmetic is exact,
  as in \<open>PoolSides\<close>.
\<close>

section \<open>Units, policy and groups\<close>

abbreviation (input) MaxTarget :: nat where "MaxTarget \<equiv> 10"
abbreviation (input) defaultMaxAnchorsPerPass :: int where "defaultMaxAnchorsPerPass \<equiv> 256"
abbreviation (input) defaultMaxCandidates :: int where "defaultMaxCandidates \<equiv> 64"
abbreviation (input) defaultMaxRatedCandidates :: int where "defaultMaxRatedCandidates \<equiv> 512"

record pool_unit =
  pu_ID :: u64
  pu_Players :: "u64 list"
  pu_Members :: "scope_member list"
  pu_EnqueuedMs :: u64
  pu_Preferred :: u32
  pu_RTT :: "(u32 \<times> u32) list"
  pu_RatingCenti :: int

text \<open>A \<open>Target\<close> below 1 is 0.\<close>

record pool_policy =
  po_Target :: nat
  po_Scope :: scope_schedule
  po_CrossRegionAfterMs :: u64
  po_Rated :: bool
  po_Sides :: bool
  po_PremadeGapStepMs :: u64
  po_ToleranceCenti :: "(u64 \<Rightarrow> tolerance) option"
  po_MaxAnchorsPerPass :: int
  po_MaxCandidates :: int

record pool_group =
  pg_Units :: "nat list"
  pg_Sides :: "nat list"
  pg_Region :: u32
  pg_Level :: level
  pg_Cross :: bool
  pg_MaxRTT :: u32

record unit_state =
  us_valid :: bool
  us_placeable :: bool
  us_allowed :: level
  us_waitMs :: u64
  us_keys :: "u32 list"

type_synonym regions = "(u32 \<times> bool) list"

record former =
  fm_units :: "pool_unit list"
  fm_regions :: regions
  fm_now :: u64
  fm_p :: pool_policy
  fm_order :: "nat list"
  fm_pos :: "nat list"
  fm_state :: "unit_state list"
  fm_used :: "bool list"

definition region_free :: "regions \<Rightarrow> u32 \<Rightarrow> bool" where
  "region_free regions r = (map_of regions r = Some True)"

definition pu_size :: "pool_unit \<Rightarrow> nat" where "pu_size u = length (pu_Players u)"

section \<open>Preparing\<close>

definition no_state :: unit_state where
  "no_state = \<lparr>us_valid = False, us_placeable = False, us_allowed = 0, us_waitMs = 0, us_keys = [0, 0, 0]\<rparr>"

definition sharedKey :: "scope_member list \<Rightarrow> (scope_node \<Rightarrow> u32) \<Rightarrow> u32" where
  "sharedKey members key =
     (let first = key (sm_Node (hd members)) in
      if list_ex (\<lambda>m. key (sm_Node m) \<noteq> first) (tl members) then 0 else first)"

definition unit_wait :: "u64 \<Rightarrow> pool_unit \<Rightarrow> u64" where
  "unit_wait now u = fold (\<lambda>m w. min w (WaitMs (sm_EnqueuedMs m) now)) (pu_Members u) (- 1)"

definition inspect :: "regions \<Rightarrow> u64 \<Rightarrow> pool_policy \<Rightarrow> pool_unit \<Rightarrow> unit_state" where
  "inspect regions now p u =
     (let sz = pu_size u in
      if sz = 0 \<or> sz > po_Target p \<or> length (pu_Members u) \<noteq> sz \<or> pu_RTT u = []
         \<or> (po_Rated p \<and> \<not> po_Sides p \<and> sz \<noteq> 1) \<or> (po_Sides p \<and> sz > po_Target p div 2) then no_state
      else if 0 \<in> set (pu_Players u) \<or> \<not> distinct (pu_Players u) then no_state
      else case UnitAllowed (po_Scope p) (pu_Members u) now of
        None \<Rightarrow> no_state
      | Some allowed \<Rightarrow>
          \<lparr>us_valid = True,
           us_placeable = list_ex (\<lambda>(r, _). region_free regions r) (pu_RTT u),
           us_allowed = allowed,
           us_waitMs = unit_wait now u,
           us_keys = [sharedKey (pu_Members u) sn_Zone, sharedKey (pu_Members u) sn_Group, 0]\<rparr>)"

definition owners :: "pool_unit list \<Rightarrow> u64 \<Rightarrow> nat" where
  "owners units player = length (filter (\<lambda>q. q = player) (concat (map pu_Players units)))"

definition shares_player :: "pool_unit list \<Rightarrow> pool_unit \<Rightarrow> bool" where
  "shares_player units u = list_ex (\<lambda>player. owners units player > 1) (pu_Players u)"

definition prepare :: "pool_unit list \<Rightarrow> regions \<Rightarrow> u64 \<Rightarrow> pool_policy \<Rightarrow> former" where
  "prepare units regions now p =
     (let n = length units;
          order = sort_key (\<lambda>i. (pu_EnqueuedMs (units ! i), pu_ID (units ! i))) [0..<n];
          pos = fold (\<lambda>k ps. ps[order ! k := k]) [0..<n] (replicate n 0);
          state = map (inspect regions now p) units;
          state2 = map2 (\<lambda>u st. if shares_player units u then st\<lparr>us_valid := False\<rparr> else st) units state in
      \<lparr>fm_units = units, fm_regions = regions, fm_now = now, fm_p = p, fm_order = order, fm_pos = pos, fm_state = state2,
       fm_used = replicate n False\<rparr>)"

abbreviation (input) unit_at :: "former \<Rightarrow> nat \<Rightarrow> pool_unit" where "unit_at f i \<equiv> fm_units f ! i"
abbreviation (input) state_at :: "former \<Rightarrow> nat \<Rightarrow> unit_state" where "state_at f i \<equiv> fm_state f ! i"

definition sameSubtree :: "former \<Rightarrow> nat \<Rightarrow> nat \<Rightarrow> level \<Rightarrow> bool" where
  "sameSubtree f a b level =
     (if level \<ge> LevelGlobal then True
      else let key = us_keys (state_at f a) ! level in key \<noteq> 0 \<and> key = us_keys (state_at f b) ! level)"

definition take_group :: "former \<Rightarrow> pool_group \<Rightarrow> former" where
  "take_group f g = f\<lparr>fm_used := fold (\<lambda>i used. used[i := True]) (pg_Units g) (fm_used f)\<rparr>"

definition free_unit :: "former \<Rightarrow> nat \<Rightarrow> bool" where
  "free_unit f i = (\<not> fm_used f ! i \<and> us_valid (state_at f i))"

definition canAnchor :: "former \<Rightarrow> nat \<Rightarrow> bool \<Rightarrow> bool" where
  "canAnchor f a cross =
     (let anchor = unit_at f a in
      if \<not> us_placeable (state_at f a) then False
      else if pu_size anchor = po_Target (fm_p f) then \<not> cross
      else if cross then us_waitMs (state_at f a) \<ge> po_CrossRegionAfterMs (fm_p f)
      else pu_Preferred anchor \<noteq> 0 \<and> map_of (pu_RTT anchor) (pu_Preferred anchor) \<noteq> None
        \<and> region_free (fm_regions f) (pu_Preferred anchor))"

section \<open>Places\<close>

definition alone_step :: "regions \<Rightarrow> u32 \<times> u32 \<Rightarrow> u32 \<times> u32 \<Rightarrow> u32 \<times> u32" where
  "alone_step regions = (\<lambda>(candidate, rtt) (region, best).
     if \<not> region_free regions candidate then (region, best)
     else if region = 0 \<or> rtt < best \<or> (rtt = best \<and> candidate < region) then (candidate, rtt)
     else (region, best))"

definition placeAlone :: "former \<Rightarrow> pool_unit \<Rightarrow> (u32 \<times> u32) option" where
  "placeAlone f u =
     (case map_of (pu_RTT u) (pu_Preferred u) of
        Some rtt \<Rightarrow>
          if region_free (fm_regions f) (pu_Preferred u) then Some (pu_Preferred u, rtt)
          else let (region, best) = fold (alone_step (fm_regions f)) (pu_RTT u) (0, 0) in if region \<noteq> 0 then Some (region, best) else None
      | None \<Rightarrow>
          let (region, best) = fold (alone_step (fm_regions f)) (pu_RTT u) (0, 0) in if region \<noteq> 0 then Some (region, best) else None)"

definition regionsFor :: "former \<Rightarrow> pool_unit \<Rightarrow> bool \<Rightarrow> u32 list" where
  "regionsFor f anchor cross =
     (if \<not> cross then [pu_Preferred anchor]
      else sort (filter (region_free (fm_regions f)) (map fst (pu_RTT anchor))))"

text \<open>A missing entry reads as 0.\<close>

definition rtt_to :: "pool_unit \<Rightarrow> u32 \<Rightarrow> u32" where
  "rtt_to u region = (case map_of (pu_RTT u) region of Some r \<Rightarrow> r | None \<Rightarrow> 0)"

definition maxRTT :: "former \<Rightarrow> nat list \<Rightarrow> u32 \<Rightarrow> u32" where
  "maxRTT f members region = fold (\<lambda>i worst. max worst (rtt_to (unit_at f i) region)) members 0"

definition sumRTT :: "pool_group \<Rightarrow> pool_unit list \<Rightarrow> u64" where
  "sumRTT g units = fold (\<lambda>i s. s + ucast (rtt_to (units ! i) (pg_Region g))) (pg_Units g) 0"

definition group_better :: "pool_group \<Rightarrow> pool_group \<Rightarrow> pool_unit list \<Rightarrow> bool" where
  "group_better g best units =
     (if pg_MaxRTT g \<noteq> pg_MaxRTT best then pg_MaxRTT g < pg_MaxRTT best
      else if sumRTT g units \<noteq> sumRTT best units then sumRTT g units < sumRTT best units
      else pg_Region g < pg_Region best)"

section \<open>Choosing\<close>

text \<open>Comparisons of an exact value with a float; with NaN they are false.\<close>

fun exceeds :: "int \<Rightarrow> tolerance \<Rightarrow> bool" where
  "exceeds x TolNaN = False"
| "exceeds x TolInf = False"
| "exceeds x (Tol t) = (of_int x > t)"

fun within_tol :: "int \<Rightarrow> tolerance \<Rightarrow> bool" where
  "within_tol x TolNaN = False"
| "within_tol x TolInf = True"
| "within_tol x (Tol t) = (of_int x \<le> t)"

definition candidate_limit :: "pool_policy \<Rightarrow> int" where
  "candidate_limit p =
     (if po_MaxCandidates p \<le> 0 then if po_Rated p \<and> \<not> po_Sides p then defaultMaxRatedCandidates else defaultMaxCandidates
      else po_MaxCandidates p)"

definition candidate_ok :: "former \<Rightarrow> nat \<Rightarrow> level \<Rightarrow> bool \<Rightarrow> tolerance \<Rightarrow> u32 \<Rightarrow> nat \<Rightarrow> bool" where
  "candidate_ok f a level cross tolerance region b =
     (let anchor = unit_at f a; peer = unit_at f b; st = state_at f b; p = fm_p f in
      \<not> (b = a \<or> \<not> free_unit f b \<or> pu_size peer > po_Target p - pu_size anchor)
      \<and> \<not> (us_allowed st < level \<or> \<not> sameSubtree f a b level)
      \<and> map_of (pu_RTT peer) region \<noteq> None
      \<and> (if cross then \<not> us_waitMs st < po_CrossRegionAfterMs p else \<not> pu_Preferred peer \<noteq> pu_Preferred anchor)
      \<and> \<not> (po_Rated p \<and> exceeds \<bar>pu_RatingCenti peer - pu_RatingCenti anchor\<bar> tolerance))"

text \<open>The first candidates in the order of the queue, up to the limit.\<close>

definition candidates :: "former \<Rightarrow> nat \<Rightarrow> level \<Rightarrow> bool \<Rightarrow> tolerance \<Rightarrow> u32 \<Rightarrow> nat list" where
  "candidates f a level cross tolerance region =
     take (nat (candidate_limit (fm_p f))) (filter (candidate_ok f a level cross tolerance region) (fm_order f))"

definition packSides :: "former \<Rightarrow> nat \<Rightarrow> nat list \<Rightarrow> tolerance \<Rightarrow> (nat list \<times> nat list) option" where
  "packSides f a peers tolerance =
     (let order = a # peers;
          units = map (\<lambda>u. \<lparr>su_Size = pu_size (unit_at f u), su_RatingCenti = pu_RatingCenti (unit_at f u), su_WaitMs = us_waitMs (state_at f u)\<rparr>) order in
      case pickSides units \<lparr>sr_PerSide = po_Target (fm_p f) div 2, sr_Rated = po_Rated (fm_p f), sr_ToleranceCenti = tolerance,
          sr_GapStepMs = po_PremadeGapStepMs (fm_p f)\<rparr> of
        None \<Rightarrow> None
      | Some (picked, sides) \<Rightarrow> Some (map (\<lambda>i. order ! i) picked, sides))"

text \<open>Exact packing: \<open>solutions ! count\<close> holds units of \<open>count\<close> people, if any were found so far.\<close>

definition fifo_unit :: "nat \<Rightarrow> nat \<Rightarrow> nat \<Rightarrow> nat \<Rightarrow> nat list option list \<Rightarrow> nat list option list" where
  "fifo_unit target start b sz solutions =
     fold (\<lambda>count sols. case (sols ! count, sols ! (count - sz)) of (None, Some s) \<Rightarrow> sols[count := Some (s @ [b])] | _ \<Rightarrow> sols)
       (rev [start + sz..<Suc target]) solutions"

fun fifo_loop :: "(nat \<Rightarrow> nat) \<Rightarrow> nat \<Rightarrow> nat \<Rightarrow> nat list \<Rightarrow> nat list option list \<Rightarrow> nat list option list" where
  "fifo_loop sz target start [] solutions = solutions"
| "fifo_loop sz target start (b # peers) solutions =
     (let solutions2 = fifo_unit target start b (sz b) solutions in
      if solutions2 ! target \<noteq> None then solutions2 else fifo_loop sz target start peers solutions2)"

definition fifo_init :: "nat \<Rightarrow> nat \<Rightarrow> nat \<Rightarrow> nat list option list" where
  "fifo_init target start a = (replicate (target + 1) None)[start := Some [a]]"

definition packFIFO :: "former \<Rightarrow> nat \<Rightarrow> nat list \<Rightarrow> nat list option" where
  "packFIFO f a peers =
     (let target = po_Target (fm_p f); start = pu_size (unit_at f a) in
      fifo_loop (\<lambda>b. pu_size (unit_at f b)) target start peers (fifo_init target start a) ! target)"

text \<open>Windows of \<open>target\<close> units in the order of the ratings that contain the anchor.\<close>

definition rated_spread :: "(nat \<Rightarrow> int) \<Rightarrow> nat list \<Rightarrow> nat \<Rightarrow> nat \<Rightarrow> int" where
  "rated_spread rating pool target start = rating (pool ! (start + target - 1)) - rating (pool ! start)"

definition rated_step :: "(nat \<Rightarrow> int) \<Rightarrow> nat list \<Rightarrow> nat \<Rightarrow> tolerance \<Rightarrow> nat \<Rightarrow> (nat \<times> int) option \<Rightarrow> (nat \<times> int) option" where
  "rated_step rating pool target tolerance start best =
     (let spread = rated_spread rating pool target start in
      if within_tol spread tolerance \<and> (case best of None \<Rightarrow> True | Some (_, b) \<Rightarrow> spread < b) then Some (start, spread) else best)"

definition packRated :: "former \<Rightarrow> nat \<Rightarrow> nat list \<Rightarrow> tolerance \<Rightarrow> nat list option" where
  "packRated f a peers tolerance =
     (let target = po_Target (fm_p f); rating = (\<lambda>i. pu_RatingCenti (unit_at f i)) in
      if length peers + 1 < target then None
      else
        let pool = sort_key rating (a # peers);
            pos = length (takeWhile (\<lambda>u. u \<noteq> a) pool);
            starts = filter (\<lambda>s. s + target \<le> length pool) [Suc pos - target..<Suc pos] in
        case fold (rated_step rating pool target tolerance) starts None of
          None \<Rightarrow> None
        | Some (start, _) \<Rightarrow> Some (a # sort_key (\<lambda>i. fm_pos f ! i) (filter (\<lambda>u. u \<noteq> a) (take target (drop start pool)))))"

definition pack :: "former \<Rightarrow> nat \<Rightarrow> nat list \<Rightarrow> tolerance \<Rightarrow> (nat list \<times> nat list) option" where
  "pack f a peers tolerance =
     (if po_Sides (fm_p f) then packSides f a peers tolerance
      else if po_Rated (fm_p f) then map_option (\<lambda>ms. (ms, [])) (packRated f a peers tolerance)
      else map_option (\<lambda>ms. (ms, [])) (packFIFO f a peers))"

section \<open>Groups\<close>

definition admit :: "former \<Rightarrow> nat list \<Rightarrow> level option" where
  "admit f members = Admit (po_Scope (fm_p f)) (map (\<lambda>i. pu_Members (unit_at f i)) members) (fm_now f)"

definition region_group :: "former \<Rightarrow> nat \<Rightarrow> level \<Rightarrow> bool \<Rightarrow> tolerance \<Rightarrow> u32 \<Rightarrow> pool_group option" where
  "region_group f a level cross tolerance region =
     (case pack f a (candidates f a level cross tolerance region) tolerance of
        None \<Rightarrow> None
      | Some (members, sides) \<Rightarrow>
          Some \<lparr>pg_Units = members, pg_Sides = sides, pg_Region = region, pg_Level = 0, pg_Cross = False, pg_MaxRTT = maxRTT f members region\<rparr>)"

definition best_region :: "former \<Rightarrow> nat \<Rightarrow> level \<Rightarrow> bool \<Rightarrow> tolerance \<Rightarrow> pool_group option" where
  "best_region f a level cross tolerance =
     fold (\<lambda>region best.
        case region_group f a level cross tolerance region of
          None \<Rightarrow> best
        | Some g \<Rightarrow> (case best of None \<Rightarrow> Some g | Some b \<Rightarrow> if group_better g b (fm_units f) then Some g else best))
       (regionsFor f (unit_at f a) cross) None"

fun try_levels :: "former \<Rightarrow> nat \<Rightarrow> bool \<Rightarrow> tolerance \<Rightarrow> level list \<Rightarrow> pool_group option" where
  "try_levels f a cross tolerance [] = None"
| "try_levels f a cross tolerance (level # levels) =
     (case best_region f a level cross tolerance of
        None \<Rightarrow> try_levels f a cross tolerance levels
      | Some best \<Rightarrow>
          (case admit f (pg_Units best) of
             None \<Rightarrow> try_levels f a cross tolerance levels
           | Some groupLevel \<Rightarrow>
               if groupLevel > level then try_levels f a cross tolerance levels
               else Some (best\<lparr>pg_Level := groupLevel,
                 pg_Cross := list_ex (\<lambda>i. pu_Preferred (unit_at f i) \<noteq> pg_Region best) (pg_Units best)\<rparr>)))"

definition anchor_tolerance :: "pool_policy \<Rightarrow> u64 \<Rightarrow> tolerance" where
  "anchor_tolerance p waitMs =
     (if po_Rated p then case po_ToleranceCenti p of None \<Rightarrow> TolInf | Some t \<Rightarrow> t waitMs else TolInf)"

definition formAround :: "former \<Rightarrow> nat \<Rightarrow> bool \<Rightarrow> pool_group option" where
  "formAround f a cross =
     (let anchor = unit_at f a in
      if pu_size anchor = po_Target (fm_p f) then
        (case placeAlone f anchor of
           None \<Rightarrow> None
         | Some (region, rtt) \<Rightarrow>
             (case admit f [a] of
                None \<Rightarrow> None
              | Some level \<Rightarrow>
                  Some \<lparr>pg_Units = [a], pg_Sides = [], pg_Region = region, pg_Level = level, pg_Cross = (region \<noteq> pu_Preferred anchor), pg_MaxRTT = rtt\<rparr>))
      else
        let tolerance = anchor_tolerance (fm_p f) (us_waitMs (state_at f a)) in
        if (case tolerance of TolNaN \<Rightarrow> True | TolInf \<Rightarrow> False | Tol t \<Rightarrow> t < 0) then None
        else try_levels f a cross tolerance [LevelZone..<Suc (us_allowed (state_at f a))])"

fun form_pass :: "bool \<Rightarrow> int \<Rightarrow> int \<Rightarrow> nat list \<Rightarrow> former \<times> pool_group list \<Rightarrow> former \<times> pool_group list" where
  "form_pass cross maxAnchors tried [] (f, out) = (f, out)"
| "form_pass cross maxAnchors tried (a # anchors) (f, out) =
     (if tried \<ge> maxAnchors then (f, out)
      else if \<not> free_unit f a \<or> \<not> canAnchor f a cross then form_pass cross maxAnchors tried anchors (f, out)
      else case formAround f a cross of
        None \<Rightarrow> form_pass cross maxAnchors (tried + 1) anchors (f, out)
      | Some g \<Rightarrow> form_pass cross maxAnchors (tried + 1) anchors (take_group f g, out @ [g]))"

definition Form :: "pool_unit list \<Rightarrow> regions \<Rightarrow> u64 \<Rightarrow> pool_policy \<Rightarrow> pool_group list" where
  "Form units regions now p =
     (if po_Target p < 1 \<or> po_Target p > MaxTarget \<or> units = [] \<or> regions = [] then []
      else if po_Sides p \<and> po_Target p mod 2 \<noteq> 0 then []
      else
        let f = prepare units regions now p;
            maxAnchors = (if po_MaxAnchorsPerPass p \<le> 0 then defaultMaxAnchorsPerPass else po_MaxAnchorsPerPass p) in
        snd (form_pass True maxAnchors 0 (fm_order f) (form_pass False maxAnchors 0 (fm_order f) (f, []))))"

end
