(* ===== verification/PoolPack.thy ===== *)
theory PoolPack
  imports PoolGroup "HOL-Library.Sublist"
begin

text \<open>
  The two ways of packing a group without sides: by the queue (\<^verbatim>\<open>packFIFO\<close>) and by the ratings (\<^verbatim>\<open>packRated\<close>), each
  compared with the choice it stands for.
\<close>

section \<open>By the queue\<close>

text \<open>Units out of a part of the queue that make \<open>c\<close> people together with the \<open>start\<close> people of the anchor.\<close>

definition fills :: "(nat \<Rightarrow> nat) \<Rightarrow> nat \<Rightarrow> nat list \<Rightarrow> nat \<Rightarrow> nat list \<Rightarrow> bool" where
  "fills sz start xs c ys \<longleftrightarrow> subseq ys xs \<and> start + sum_list (map sz ys) = c"

definition fifo_at :: "nat \<Rightarrow> nat \<Rightarrow> nat list option list \<Rightarrow> nat \<Rightarrow> nat list option" where
  "fifo_at b k sols c = (case (sols ! c, sols ! (c - k)) of (None, Some s) \<Rightarrow> Some (s @ [b]) | _ \<Rightarrow> sols ! c)"

lemma fifo_descend:
  assumes "1 \<le> k" "k \<le> lo"
  shows "hi \<le> length sols \<Longrightarrow>
    (let r = fold (\<lambda>c s. case (s ! c, s ! (c - k)) of (None, Some x) \<Rightarrow> s[c := Some (x @ [b])] | _ \<Rightarrow> s) (rev [lo..<hi]) sols in
     length r = length sols \<and> (\<forall>c < length sols. r ! c = (if lo \<le> c \<and> c < hi then fifo_at b k sols c else sols ! c)))"
proof (induction hi arbitrary: sols)
  case (Suc hi)
  show ?case
  proof (cases "lo \<le> hi")
    case True
    let ?f = "\<lambda>c s. case (s ! c, s ! (c - k)) of (None, Some x) \<Rightarrow> s[c := Some (x @ [b])] | _ \<Rightarrow> s"
    define s1 where "s1 = ?f hi sols"
    have s1: "s1 ! hi = fifo_at b k sols hi" "\<And>c. c \<noteq> hi \<Longrightarrow> s1 ! c = sols ! c" "length s1 = length sols"
      using Suc.prems by (auto simp: s1_def fifo_at_def split: option.splits)
    have same: "fifo_at b k s1 c = fifo_at b k sols c" if "c < hi" "lo \<le> c" for c
      using that s1(2) [of c] s1(2) [of "c - k"] by (simp add: fifo_at_def split: option.split)
    have "rev [lo..<Suc hi] = hi # rev [lo..<hi]" using True by simp
    then have "fold ?f (rev [lo..<Suc hi]) sols = fold ?f (rev [lo..<hi]) s1" by (simp add: s1_def)
    moreover note Suc.IH [of s1, unfolded Let_def s1(3)]
    ultimately show ?thesis unfolding Let_def using Suc.prems s1(1,2) same True by (auto simp: less_Suc_eq)
  qed auto
qed simp

lemma fifo_unit_at:
  assumes "1 \<le> k" "length sols = Suc target"
  shows "length (fifo_unit target start b k sols) = Suc target"
    and "c \<le> target \<Longrightarrow> fifo_unit target start b k sols ! c = (if start + k \<le> c then fifo_at b k sols c else sols ! c)"
  using fifo_descend [of k "start + k" "Suc target" sols b] assms by (auto simp: fifo_unit_def Let_def)

text \<open>After a part of the queue the table answers exactly the counts that its units make.\<close>

definition fifo_table :: "(nat \<Rightarrow> nat) \<Rightarrow> nat \<Rightarrow> nat \<Rightarrow> nat \<Rightarrow> nat list \<Rightarrow> nat list option list \<Rightarrow> bool" where
  "fifo_table sz target start a xs sols \<longleftrightarrow> length sols = Suc target
     \<and> (\<forall>c \<le> target. case sols ! c of None \<Rightarrow> \<nexists>ys. fills sz start xs c ys | Some s \<Rightarrow> \<exists>ys. s = a # ys \<and> fills sz start xs c ys)"

lemma subseq_snoc: "subseq ys (xs @ [b]) \<longleftrightarrow> subseq ys xs \<or> (\<exists>zs. ys = zs @ [b] \<and> subseq zs xs)"
proof -
  have "subseq zs [b] \<longleftrightarrow> zs = [] \<or> zs = [b]" for zs by (cases zs) (auto dest: list_emb_Nil2)
  then show ?thesis unfolding subseq_append_iff by (metis append_Nil2)
qed

lemma fills_snoc:
  assumes "fills sz start (xs @ [b]) c ys"
  shows "(\<exists>zs. fills sz start xs c zs) \<or> (start + sz b \<le> c \<and> (\<exists>zs. fills sz start xs (c - sz b) zs))"
proof -
  from assms consider "subseq ys xs" | zs where "ys = zs @ [b]" "subseq zs xs" by (auto simp: fills_def subseq_snoc)
  then show ?thesis
  proof cases
    case 1
    then show ?thesis using assms by (auto simp: fills_def)
  next
    case 2
    then have "fills sz start xs (c - sz b) zs" "start + sz b \<le> c" using assms by (auto simp: fills_def)
    then show ?thesis by blast
  qed
qed

lemma fills_more: "fills sz start xs c ys \<Longrightarrow> subseq xs zs \<Longrightarrow> fills sz start zs c ys"
  by (auto simp: fills_def dest: subseq_order.trans)

lemma fifo_table_at:
  assumes "fifo_table sz target start a xs sols" "c \<le> target"
  shows "sols ! c = None \<Longrightarrow> \<nexists>ys. fills sz start xs c ys" and "sols ! c = Some s \<Longrightarrow> \<exists>ys. s = a # ys \<and> fills sz start xs c ys"
proof -
  from assms have "case sols ! c of None \<Rightarrow> \<nexists>ys. fills sz start xs c ys | Some s \<Rightarrow> \<exists>ys. s = a # ys \<and> fills sz start xs c ys"
    by (simp add: fifo_table_def)
  then show "sols ! c = None \<Longrightarrow> \<nexists>ys. fills sz start xs c ys" and "sols ! c = Some s \<Longrightarrow> \<exists>ys. s = a # ys \<and> fills sz start xs c ys"
    by simp_all
qed

lemma fifo_unit_table:
  assumes tab: "fifo_table sz target start a xs sols" and k: "1 \<le> sz b"
  shows "fifo_table sz target start a (xs @ [b]) (fifo_unit target start b (sz b) sols)"
proof -
  let ?r = "fifo_unit target start b (sz b) sols"
  from tab have len: "length sols = Suc target" by (simp add: fifo_table_def)
  note r = fifo_unit_at(1) [OF k len, of start b] fifo_unit_at(2) [OF k len, where start = start and b = b]
  note none = fifo_table_at(1) [OF tab] and some = fifo_table_at(2) [OF tab]
  have "case ?r ! c of None \<Rightarrow> \<nexists>ys. fills sz start (xs @ [b]) c ys | Some s \<Rightarrow> \<exists>ys. s = a # ys \<and> fills sz start (xs @ [b]) c ys"
    if c: "c \<le> target" for c
  proof (cases "sols ! c")
    case (Some s)
    then have "?r ! c = Some s" using r(2) [OF c] by (simp add: fifo_at_def)
    moreover obtain ys where "s = a # ys" "fills sz start xs c ys" using some [OF c Some] by blast
    ultimately show ?thesis using fills_more [of sz start xs c _ "xs @ [b]"] by (auto simp: subseq_rev_drop_many)
  next
    case None
    show ?thesis
    proof (cases "start + sz b \<le> c \<and> sols ! (c - sz b) \<noteq> None")
      case True
      then obtain s where s: "sols ! (c - sz b) = Some s" by blast
      then obtain ys where ys: "s = a # ys" "fills sz start xs (c - sz b) ys" using some [of "c - sz b" s] c by force
      have "?r ! c = Some (s @ [b])" using r(2) [OF c] True None s by (simp add: fifo_at_def)
      moreover have "fills sz start (xs @ [b]) c (ys @ [b])" using ys(2) True by (auto simp: fills_def)
      ultimately show ?thesis using ys(1) by auto
    next
      case False
      then have "?r ! c = None" using r(2) [OF c] None by (auto simp: fifo_at_def)
      moreover have "\<not> (start + sz b \<le> c \<and> (\<exists>zs. fills sz start xs (c - sz b) zs))"
        using False none [of "c - sz b"] c by auto
      ultimately show ?thesis using none [OF c None] fills_snoc [of sz start xs b c] by auto
    qed
  qed
  then show ?thesis using r(1) by (simp add: fifo_table_def)
qed

lemma fifo_init_at:
  "length (fifo_init target start a) = Suc target"
  "start \<le> target \<Longrightarrow> c \<le> target \<Longrightarrow> fifo_init target start a ! c = (if c = start then Some [a] else None)"
  unfolding fifo_init_def by (simp_all add: nth_list_update del: replicate.simps replicate_Suc)

lemma fifo_table_init:
  assumes "start < target"
  shows "fifo_table sz target start a [] (fifo_init target start a)"
proof -
  have "fills sz start [] c ys \<longleftrightarrow> ys = [] \<and> c = start" for c ys by (auto simp: fills_def dest: list_emb_Nil2)
  then show ?thesis unfolding fifo_table_def using assms by (simp add: fifo_init_at)
qed

text \<open>The loop stops behind the first part of the queue that suffices.\<close>

lemma fifo_loop_first:
  assumes "fifo_table sz target start a xs sols" and "sols ! target = None" and "\<forall>b \<in> set peers. 1 \<le> sz b"
  shows "case fifo_loop sz target start peers sols ! target of
      None \<Rightarrow> \<nexists>ys. fills sz start (xs @ peers) target ys
    | Some s \<Rightarrow> \<exists>k ys. s = a # ys \<and> fills sz start (xs @ take (Suc k) peers) target ys \<and> (\<nexists>zs. fills sz start (xs @ take k peers) target zs)"
  using assms
proof (induction peers arbitrary: xs sols)
  case Nil
  then show ?case using fifo_table_at(1) [OF Nil.prems(1)] by simp
next
  case (Cons b peers)
  let ?r = "fifo_unit target start b (sz b) sols"
  have none: "\<nexists>ys. fills sz start xs target ys" using fifo_table_at(1) [OF Cons.prems(1)] Cons.prems(2) by simp
  have tab: "fifo_table sz target start a (xs @ [b]) ?r" using fifo_unit_table Cons.prems by simp
  show ?case
  proof (cases "?r ! target")
    case None
    have loop: "fifo_loop sz target start (b # peers) sols = fifo_loop sz target start peers ?r" using None by (simp add: Let_def)
    show ?thesis
    proof (cases "fifo_loop sz target start peers ?r ! target")
      case None
      then show ?thesis using Cons.IH [OF tab \<open>?r ! target = None\<close>] Cons.prems(3) unfolding loop by simp
    next
      case (Some s)
      then obtain k ys where "s = a # ys" "fills sz start ((xs @ [b]) @ take (Suc k) peers) target ys"
          "\<nexists>zs. fills sz start ((xs @ [b]) @ take k peers) target zs"
        using Cons.IH [OF tab \<open>?r ! target = None\<close>] Cons.prems(3) by auto
      then show ?thesis using Some unfolding loop by (auto intro!: exI [of _ "Suc k"])
    qed
  next
    case (Some s)
    then obtain ys where "s = a # ys" "fills sz start (xs @ [b]) target ys" using fifo_table_at(2) [OF tab] by blast
    then show ?thesis using Some none by (auto intro!: exI [of _ 0])
  qed
qed

definition fills_group :: "former \<Rightarrow> nat \<Rightarrow> nat list \<Rightarrow> nat list \<Rightarrow> bool" where
  "fills_group f a xs ys = fills (\<lambda>b. pu_size (unit_at f b)) (pu_size (unit_at f a)) xs (po_Target (fm_p f)) ys"

text \<open>What the packing by the queue answers.\<close>

lemma packFIFO_first:
  assumes "pu_size (unit_at f a) < po_Target (fm_p f)" and "\<forall>b \<in> set peers. 1 \<le> pu_size (unit_at f b)"
  shows "case packFIFO f a peers of
      None \<Rightarrow> \<nexists>ys. fills_group f a peers ys
    | Some ms \<Rightarrow> \<exists>ys. ms = a # ys \<and> fills_group f a peers ys
        \<and> (\<forall>k zs. fills_group f a (take k peers) zs \<longrightarrow> fills_group f a (take k peers) ys)"
proof -
  let ?enough = "fills_group f a"
  let ?sz = "\<lambda>b. pu_size (unit_at f b)" let ?start = "?sz a" let ?target = "po_Target (fm_p f)"
  from fifo_loop_first [OF fifo_table_init [of ?start ?target ?sz a] _ assms(2)] assms(1)
  have loop: "case packFIFO f a peers of None \<Rightarrow> \<nexists>ys. ?enough peers ys
    | Some s \<Rightarrow> \<exists>k ys. s = a # ys \<and> ?enough (take (Suc k) peers) ys \<and> (\<nexists>zs. ?enough (take k peers) zs)"
    by (simp add: packFIFO_def Let_def fills_group_def fifo_init_at split: option.splits)
  have more: "?enough ys zs" if "?enough xs zs" "subseq xs ys" for xs ys zs using that fills_more by (simp add: fills_group_def)
  have pre: "subseq (take i peers) (take j peers)" if "i \<le> j" for i j
    using that by (metis list_emb_refl min.absorb1 prefix_imp_subseq take_is_prefix take_take)
  show ?thesis
  proof (cases "packFIFO f a peers")
    case (Some ms)
    then obtain k ys where ys: "ms = a # ys" "?enough (take (Suc k) peers) ys" "\<nexists>zs. ?enough (take k peers) zs" using loop by auto
    have "?enough (take j peers) ys" if "?enough (take j peers) zs" for j zs
    proof -
      have "\<not> j \<le> k" using more [OF that pre] ys(3) by blast
      then show ?thesis using more [OF ys(2) pre] by simp
    qed
    moreover have "?enough peers ys" using more [OF ys(2), of peers] take_is_prefix prefix_imp_subseq by blast
    ultimately show ?thesis using Some ys(1) by auto
  qed (use loop in simp)
qed

text \<open>C15: Packing by the queue finds units that fill the group exactly when there are any, keeps every unit whole, and goes no deeper
  into the queue than any other choice has to.\<close>

theorem packFIFO_exact:
  assumes "pu_size (unit_at f a) < po_Target (fm_p f)" and "\<forall>b \<in> set peers. 1 \<le> pu_size (unit_at f b)"
  shows "(packFIFO f a peers = None \<longleftrightarrow> (\<nexists>ys. fills_group f a peers ys))
    \<and> (\<forall>ms. packFIFO f a peers = Some ms \<longrightarrow> ms = a # tl ms \<and> fills_group f a peers (tl ms)
        \<and> (\<forall>k zs. fills_group f a (take k peers) zs \<longrightarrow> fills_group f a (take k peers) (tl ms)))"
  using packFIFO_first [OF assms] by (auto split: option.splits)

section \<open>By the ratings\<close>

definition spread_of :: "(nat \<Rightarrow> int) \<Rightarrow> nat set \<Rightarrow> int" where
  "spread_of rating S = Max (rating ` S) - Min (rating ` S)"

lemma within_mono: "within_tol y tol \<Longrightarrow> x \<le> y \<Longrightarrow> within_tol x tol"
  by (cases tol) (auto intro: order_trans simp: of_int_le_iff)

text \<open>The fold keeps the first of the narrowest windows.\<close>

lemma rated_fold:
  "case fold (rated_step rating pool n tol) starts best of
     None \<Rightarrow> best = None \<and> (\<forall>s \<in> set starts. \<not> within_tol (rated_spread rating pool n s) tol)
   | Some (s, d) \<Rightarrow> (best = Some (s, d) \<or> s \<in> set starts \<and> d = rated_spread rating pool n s \<and> within_tol d tol)
       \<and> (\<forall>t \<in> set starts. within_tol (rated_spread rating pool n t) tol \<longrightarrow> d \<le> rated_spread rating pool n t)
       \<and> (\<forall>t e. best = Some (t, e) \<longrightarrow> d \<le> e)"
proof (induction starts arbitrary: best)
  case (Cons x xs)
  show ?case using Cons.IH [of "rated_step rating pool n tol x best"]
    by (auto simp: rated_step_def Let_def split: option.splits if_splits prod.splits)
qed (auto split: option.splits)

lemma sorted_pool_mono:
  assumes "sorted (map rating pool)" "i \<le> j" "j < length pool"
  shows "rating (pool ! i) \<le> rating (pool ! j)"
  using assms sorted_nth_mono [OF assms(1,2)] by simp

text \<open>Every choice with the anchor covers a window with the anchor.\<close>

lemma window_in_choice:
  assumes sorted: "sorted (map rating pool)" and "distinct pool" and S: "S \<subseteq> set pool" "card S = n" "1 \<le> n"
    and k: "k < length pool" "pool ! k \<in> S"
  shows "\<exists>s. Suc k - n \<le> s \<and> s \<le> k \<and> s + n \<le> length pool \<and> rated_spread rating pool n s \<le> spread_of rating S"
proof -
  define I where "I = {i. i < length pool \<and> pool ! i \<in> S}"
  have fin: "finite I" and kI: "k \<in> I" using k by (auto simp: I_def)
  have img: "(!) pool ` I = S"
  proof
    show "S \<subseteq> (!) pool ` I"
    proof
      fix x assume x: "x \<in> S"
      then obtain i where "i < length pool" "pool ! i = x" using S(1) in_set_conv_nth [of x pool] by blast
      with x show "x \<in> (!) pool ` I" by (auto simp: I_def)
    qed
  qed (auto simp: I_def)
  have "inj_on ((!) pool) I" using assms(2) by (auto simp: inj_on_def I_def nth_eq_iff_index_eq)
  then have card: "card I = n" using img S(2) card_image by metis
  define i j where "i = Min I" and "j = Max I"
  have "I \<noteq> {}" using kI by blast
  then have ij: "i \<in> I" "j \<in> I" "i \<le> k" "k \<le> j" using fin kI by (simp_all add: i_def j_def)
  have "I \<subseteq> {i..j}" using fin by (auto simp: i_def j_def)
  then have width: "i + n \<le> Suc j" using card card_mono [of "{i..j}" I] ij(3,4) by simp
  have jl: "j < length pool" "pool ! i \<in> S" "pool ! j \<in> S" using ij by (auto simp: I_def)
  define s where "s = max i (Suc k - n)"
  have s: "Suc k - n \<le> s" "s \<le> k" "i \<le> s" "s + n - 1 \<le> j" using ij(3,4) width S(3) by (auto simp: s_def)
  have finS: "finite S" using S(1) finite_subset by blast
  have "rating (pool ! j) \<le> Max (rating ` S)" "Min (rating ` S) \<le> rating (pool ! i)" using finS jl by auto
  moreover have "rating (pool ! i) \<le> rating (pool ! s)" using sorted_pool_mono [OF sorted s(3)] s(2) k(1) by simp
  moreover have "rating (pool ! (s + n - 1)) \<le> rating (pool ! j)" using sorted_pool_mono [OF sorted s(4) jl(1)] .
  ultimately have "rated_spread rating pool n s \<le> spread_of rating S" by (simp add: rated_spread_def spread_of_def)
  moreover have "s + n \<le> length pool" using s(4) jl(1) S(3) by simp
  ultimately show ?thesis using s by blast
qed

lemma window_spread:
  assumes sorted: "sorted (map rating pool)" and "s + n \<le> length pool" "1 \<le> n"
  shows "spread_of rating (set (take n (drop s pool))) = rated_spread rating pool n s"
proof -
  let ?W = "set (take n (drop s pool))"
  have W: "?W = (\<lambda>i. pool ! (s + i)) ` {..<n}" using assms(2) by (force simp: set_conv_nth image_iff)
  have "Max (rating ` ?W) = rating (pool ! (s + n - 1))"
  proof (rule Max_eqI)
    show "rating (pool ! (s + n - 1)) \<in> rating ` ?W" unfolding W using assms(3) by (auto intro!: image_eqI [of _ _ "n - 1"] simp: image_comp)
    show "y \<le> rating (pool ! (s + n - 1))" if "y \<in> rating ` ?W" for y
      using that unfolding W using assms(2,3) by (auto intro!: sorted_pool_mono [OF sorted])
  qed simp
  moreover have "Min (rating ` ?W) = rating (pool ! s)"
  proof (rule Min_eqI)
    show "rating (pool ! s) \<in> rating ` ?W" unfolding W using assms(3) by (auto intro!: image_eqI [of _ _ 0] simp: image_comp)
    show "rating (pool ! s) \<le> y" if "y \<in> rating ` ?W" for y
      using that unfolding W using assms(2,3) by (auto intro!: sorted_pool_mono [OF sorted])
  qed simp
  ultimately show ?thesis by (simp add: spread_of_def rated_spread_def)
qed

lemma takeWhile_position:
  assumes "a \<in> set xs"
  shows "length (takeWhile (\<lambda>u. u \<noteq> a) xs) < length xs" "xs ! length (takeWhile (\<lambda>u. u \<noteq> a) xs) = a"
  using assms by (induction xs) auto

text \<open>A group with the anchor, of the size asked for and within the tolerance.\<close>

definition rated_choice :: "former \<Rightarrow> nat \<Rightarrow> nat list \<Rightarrow> tolerance \<Rightarrow> nat set \<Rightarrow> bool" where
  "rated_choice f a peers tol S \<longleftrightarrow> a \<in> S \<and> S \<subseteq> set (a # peers) \<and> card S = po_Target (fm_p f)
     \<and> within_tol (spread_of (\<lambda>i. pu_RatingCenti (unit_at f i)) S) tol"

lemma packRated_best:
  assumes "distinct (a # peers)" and "1 \<le> po_Target (fm_p f)"
  shows "case packRated f a peers tol of
      None \<Rightarrow> \<nexists>S. rated_choice f a peers tol S
    | Some ms \<Rightarrow> hd ms = a \<and> distinct ms \<and> rated_choice f a peers tol (set ms)
        \<and> (\<forall>S. rated_choice f a peers tol S \<longrightarrow>
             spread_of (\<lambda>i. pu_RatingCenti (unit_at f i)) (set ms) \<le> spread_of (\<lambda>i. pu_RatingCenti (unit_at f i)) S)"
proof (cases "length peers + 1 < po_Target (fm_p f)")
  case True
  have small: "card S \<le> length peers + 1" if "S \<subseteq> set (a # peers)" for S
  proof -
    have "card S \<le> card (set (a # peers))" by (rule card_mono [OF _ that]) simp
    also have "\<dots> \<le> length (a # peers)" by (rule card_length)
    finally show ?thesis by simp
  qed
  have "\<not> rated_choice f a peers tol S" for S using True small [of S] by (auto simp: rated_choice_def)
  then show ?thesis using True by (simp add: packRated_def)
next
  case False
  let ?n = "po_Target (fm_p f)" let ?r = "\<lambda>i. pu_RatingCenti (unit_at f i)"
  define pool where "pool = sort_key ?r (a # peers)"
  define k where "k = length (takeWhile (\<lambda>u. u \<noteq> a) pool)"
  define starts where "starts = filter (\<lambda>s. s + ?n \<le> length pool) [Suc k - ?n..<Suc k]"
  have pool: "set pool = set (a # peers)" "distinct pool" "sorted (map ?r pool)" "length pool = Suc (length peers)"
    using assms(1) by (simp_all add: pool_def distinct_sort del: sort_key_simps)
  have k: "k < length pool" "pool ! k = a" using takeWhile_position [of a pool] pool(1) by (simp_all add: k_def)
  have code: "packRated f a peers tol = (case fold (rated_step ?r pool ?n tol) starts None of None \<Rightarrow> None
      | Some (start, _) \<Rightarrow> Some (a # sort_key (\<lambda>i. fm_pos f ! i) (filter (\<lambda>u. u \<noteq> a) (take ?n (drop start pool)))))"
    using False unfolding packRated_def Let_def pool_def [symmetric] k_def [symmetric] starts_def [symmetric] by simp
  have covers: "\<exists>s \<in> set starts. rated_spread ?r pool ?n s \<le> spread_of ?r S \<and> within_tol (rated_spread ?r pool ?n s) tol"
    if "rated_choice f a peers tol S" for S
  proof -
    note c = that [unfolded rated_choice_def]
    from c obtain s where "Suc k - ?n \<le> s" "s \<le> k" "s + ?n \<le> length pool" "rated_spread ?r pool ?n s \<le> spread_of ?r S"
      using window_in_choice [OF pool(3,2), of S ?n k] pool(1) k assms(2) by auto
    then have "s \<in> set starts \<and> rated_spread ?r pool ?n s \<le> spread_of ?r S \<and> within_tol (rated_spread ?r pool ?n s) tol"
      using c within_mono by (auto simp: starts_def)
    then show ?thesis by blast
  qed
  show ?thesis
  proof (cases "fold (rated_step ?r pool ?n tol) starts None")
    case None
    then show ?thesis using covers rated_fold [where best = None and rating = ?r and pool = pool and n = ?n and tol = tol and starts = starts] unfolding code by auto
  next
    case (Some best)
    obtain s d where best: "best = (s, d)" by fastforce
    from Some rated_fold [where best = None and rating = ?r and pool = pool and n = ?n and tol = tol and starts = starts]
    have s: "s \<in> set starts" "d = rated_spread ?r pool ?n s" "within_tol d tol"
      and least: "\<And>t. t \<in> set starts \<Longrightarrow> within_tol (rated_spread ?r pool ?n t) tol \<Longrightarrow> d \<le> rated_spread ?r pool ?n t"
      by (auto simp: best)
    let ?w = "take ?n (drop s pool)"
    define ms where "ms = a # sort_key (\<lambda>i. fm_pos f ! i) (filter (\<lambda>u. u \<noteq> a) ?w)"
    from s(1) have sk: "Suc k - ?n \<le> s" "s \<le> k" "s + ?n \<le> length pool" by (auto simp: starts_def)
    have "?w ! (k - s) = a" "k - s < length ?w" using sk k(2) assms(2) by auto
    then have "a \<in> set ?w" by (metis nth_mem)
    then have set: "set ms = set ?w" "distinct ms" using pool(2) by (auto simp: ms_def distinct_sort)
    have sub: "set ?w \<subseteq> set (a # peers)" unfolding pool(1) [symmetric] by (meson set_drop_subset set_take_subset subset_trans)
    have card: "card (set ?w) = ?n" using sk(3) pool(2) by (simp add: distinct_card)
    have spread: "spread_of ?r (set ms) = d" unfolding set(1) s(2) by (rule window_spread [OF pool(3) sk(3) assms(2)])
    have "rated_choice f a peers tol (set ms)" unfolding rated_choice_def spread using sub card s(3) by (simp add: set(1) \<open>a \<in> set ?w\<close>)
    moreover have "spread_of ?r (set ms) \<le> spread_of ?r S" if "rated_choice f a peers tol S" for S
      using covers [OF that] least unfolding spread by (meson order_trans)
    ultimately show ?thesis using set(2) Some unfolding code best by (simp add: ms_def)
  qed
qed

text \<open>C14: Packing by the ratings finds a group within the tolerance exactly when there is one, and then one of the smallest difference.\<close>

theorem packRated_closest:
  assumes "distinct (a # peers)" and "1 \<le> po_Target (fm_p f)"
  shows "(packRated f a peers tol = None \<longleftrightarrow> (\<nexists>S. rated_choice f a peers tol S))
    \<and> (\<forall>ms S. packRated f a peers tol = Some ms \<longrightarrow> rated_choice f a peers tol (set ms) \<and> length ms = po_Target (fm_p f)
        \<and> (rated_choice f a peers tol S \<longrightarrow>
             spread_of (\<lambda>i. pu_RatingCenti (unit_at f i)) (set ms) \<le> spread_of (\<lambda>i. pu_RatingCenti (unit_at f i)) S))"
  using packRated_best [OF assms, of tol] by (auto simp: rated_choice_def distinct_card split: option.splits)

section \<open>Witnesses\<close>

text \<open>A page with single players of zone 1 and a party of three; the player of the first unit is the anchor.\<close>

definition demo_unit :: "u64 \<Rightarrow> u64 list \<Rightarrow> int \<Rightarrow> pool_unit" where
  "demo_unit uid players rating = \<lparr>pu_ID = uid, pu_Players = players,
     pu_Members = map (\<lambda>_. \<lparr>sm_Node = \<lparr>sn_Zone = 1, sn_Group = 0\<rparr>, sm_EnqueuedMs = 10\<rparr>) players,
     pu_EnqueuedMs = 10, pu_Preferred = 3, pu_RTT = [(3, 20), (4, 60)], pu_RatingCenti = rating\<rparr>"

definition demo_page :: "pool_unit list" where
  "demo_page = [demo_unit 1 [101] 1000, demo_unit 2 [102, 103, 104] 1000, demo_unit 3 [105] 1300, demo_unit 4 [106] 1010]"

definition demo_policy :: "nat \<Rightarrow> bool \<Rightarrow> pool_policy" where
  "demo_policy target rated = \<lparr>po_Target = target, po_Scope = \<lparr>sd_GroupAfterMs = 100, sd_GlobalAfterMs = 200\<rparr>, po_CrossRegionAfterMs = 50,
     po_Rated = rated, po_Sides = False, po_PremadeGapStepMs = 0, po_ToleranceCenti = Some (\<lambda>_. Tol 400), po_MaxAnchorsPerPass = 0, po_MaxCandidates = 0\<rparr>"

definition demo_former :: "nat \<Rightarrow> bool \<Rightarrow> former" where
  "demo_former target rated = prepare demo_page [(3, True), (4, False)] 20 (demo_policy target rated)"

theorem packFIFO_exact_witness:
  "packFIFO (demo_former 4 False) 0 [1, 2, 3] = Some [0, 1] \<and> fills_group (demo_former 4 False) 0 [1, 2, 3] [1]"
proof -
  have "packFIFO (demo_former 4 False) 0 [1, 2, 3] = Some [0, 1]" by code_simp
  moreover have "pu_size (unit_at (demo_former 4 False) 0) < po_Target (fm_p (demo_former 4 False))"
    "\<forall>b \<in> set [1, 2, 3]. 1 \<le> pu_size (unit_at (demo_former 4 False) b)" by code_simp+
  ultimately show ?thesis using packFIFO_exact [of "demo_former 4 False" 0 "[1, 2, 3]"] by simp
qed

theorem packRated_closest_witness:
  "packRated (demo_former 2 True) 0 [2, 3] (Tol 400) = Some [0, 3] \<and> rated_choice (demo_former 2 True) 0 [2, 3] (Tol 400) (set [0, 3])"
proof -
  have "packRated (demo_former 2 True) 0 [2, 3] (Tol 400) = Some [0, 3]" "1 \<le> po_Target (fm_p (demo_former 2 True))" by code_simp+
  then show ?thesis using packRated_closest [of 0 "[2, 3]" "demo_former 2 True" "Tol 400"] by simp
qed

end
