(* ===== verification/PoolSidesProps.thy ===== *)
theory PoolSidesProps
  imports PoolSides
begin

text \<open>
  The division into sides against what a fair match is: sound for every rule, and without a limit on the
  difference of parties also complete and first come, first served.
\<close>

section \<open>Fair matches\<close>

definition people :: "side_unit list \<Rightarrow> nat set \<Rightarrow> nat" where "people units X = (\<Sum>i \<in> X. su_Size (units ! i))"

definition largest_party :: "side_unit list \<Rightarrow> nat set \<Rightarrow> nat" where "largest_party units X = Max (insert 0 ((\<lambda>i. su_Size (units ! i)) ` X))"

text \<open>The units \<open>S\<close> with the units \<open>T\<close> of them on side 1; the anchor is unit 0.\<close>

definition fair_match :: "side_unit list \<Rightarrow> side_rule \<Rightarrow> nat set \<Rightarrow> nat set \<Rightarrow> bool" where
  "fair_match units rule S T \<longleftrightarrow> 0 \<in> S \<and> S \<subseteq> {..<length units} \<and> T \<subseteq> S - {0}
     \<and> (\<forall>i \<in> S. 1 \<le> su_Size (units ! i) \<and> su_Size (units ! i) \<le> sr_PerSide rule)
     \<and> people units (S - T) = sr_PerSide rule \<and> people units T = sr_PerSide rule
     \<and> (sr_Rated rule \<longrightarrow> (case sr_ToleranceCenti rule of TolNaN \<Rightarrow> False | TolInf \<Rightarrow> True
          | Tol t \<Rightarrow> \<forall>i \<in> S. \<forall>j \<in> S. of_int (su_RatingCenti (units ! i) - su_RatingCenti (units ! j)) \<le> t))"

text \<open>A difference of parties above 1 is accepted by every unit of the weaker side.\<close>

definition consented :: "side_unit list \<Rightarrow> side_rule \<Rightarrow> nat set \<Rightarrow> nat set \<Rightarrow> bool" where
  "consented units rule S T \<longleftrightarrow> (let a = largest_party units (S - T); b = largest_party units T; weaker = (if b < a then T else S - T) in
     absdiff a b \<le> 1 \<or> sr_GapStepMs rule = 0 \<or> (\<forall>i \<in> weaker. absdiff a b \<le> acceptableGap (su_WaitMs (units ! i)) (sr_GapStepMs rule)))"

section \<open>Compositions\<close>

definition weight :: "nat list \<Rightarrow> nat" where "weight need = (\<Sum>k < length need. k * need ! k)"

lemma weight_update: "k < length need \<Longrightarrow> weight (need[k := need ! k + 1]) = weight need + k"
proof -
  assume k: "k < length need"
  have "weight (need[k := need ! k + 1]) = (\<Sum>j < length need. j * need ! j + (if j = k then k else 0))"
    unfolding weight_def by (intro sum.cong) (auto simp: nth_list_update)
  also have "\<dots> = weight need + k" using k by (simp add: sum.distrib weight_def)
  finally show ?thesis .
qed

lemma compositions_fill_set:
  assumes "remaining \<noteq> 0"
  shows "set (compositions_fill remaining largest need)
    = (\<Union>k \<in> {1..min largest remaining}. set (compositions_fill (remaining - k) k (need[k := need ! k + 1])))"
proof -
  have "set (rev [1..<Suc (min largest remaining)]) = {1..min largest remaining}" by (simp only: set_rev set_upt atLeastLessThanSuc_atLeastAtMost)
  then show ?thesis using assms unfolding compositions_fill.simps [of remaining largest need]
    by (simp only: if_False set_concat set_map image_image)
qed

lemma compositions_fill_weight:
  "need' \<in> set (compositions_fill remaining largest need) \<Longrightarrow> largest < length need \<Longrightarrow>
    weight need' = weight need + remaining \<and> length need' = length need \<and> (\<forall>k. k = 0 \<or> largest < k \<longrightarrow> need' ! k = need ! k)"
proof (induction remaining largest need rule: compositions_fill.induct)
  case (1 remaining largest need)
  show ?case
  proof (cases "remaining = 0")
    case True
    with 1(2) show ?thesis by (subst (asm) compositions_fill.simps) simp
  next
    case False
    with 1(2) compositions_fill_set [OF False, of largest need]
    obtain k where k: "1 \<le> k" "k \<le> largest" "k \<le> remaining"
        and need': "need' \<in> set (compositions_fill (remaining - k) k (need[k := need ! k + 1]))"
      by auto
    have "weight need' = weight (need[k := need ! k + 1]) + (remaining - k) \<and> length need' = length (need[k := need ! k + 1])
        \<and> (\<forall>j. j = 0 \<or> k < j \<longrightarrow> need' ! j = (need[k := need ! k + 1]) ! j)"
    proof (rule 1(1) [OF False _ need'])
      show "k \<in> set (rev [1..<Suc (min largest remaining)])" using k by (simp only: set_rev set_upt) auto
      show "k < length (need[k := need ! k + 1])" using k 1(3) by simp
    qed
    with k 1(3) weight_update [of k need] show ?thesis by (auto simp: nth_list_update)
  qed
qed

lemma compositions_fill_complete:
  "length add = length need \<Longrightarrow> largest < length need \<Longrightarrow> weight add = remaining \<Longrightarrow> \<forall>k < length need. k = 0 \<or> largest < k \<longrightarrow> add ! k = 0
    \<Longrightarrow> map2 (+) need add \<in> set (compositions_fill remaining largest need)"
proof (induction remaining arbitrary: add largest need rule: less_induct)
  case (less remaining)
  show ?case
  proof (cases "remaining = 0")
    case True
    have "add ! k = 0" if "k < length add" for k
    proof (cases "k = 0")
      case False
      from less.prems(3) True have "\<forall>k \<in> {..<length add}. k * add ! k = 0" unfolding weight_def by simp
      from bspec [OF this, of k] that False show ?thesis by simp
    qed (use less.prems(1,4) that in auto)
    then have "map2 (+) need add = need" using less.prems(1) by (intro nth_equalityI) auto
    with True show ?thesis by (subst compositions_fill.simps) simp
  next
    case False
    let ?K = "{k. k < length add \<and> k * add ! k \<noteq> 0}"
    have "weight add = 0" if "?K = {}" using that unfolding weight_def by (intro sum.neutral) auto
    then have "?K \<noteq> {}" using False less.prems(3) by metis
    define k where "k = Max ?K"
    have k: "k \<in> ?K" unfolding k_def using \<open>?K \<noteq> {}\<close> by (intro Max_in) auto
    have above: "j * add ! j = 0" if "k < j" "j < length add" for j
    proof (rule ccontr)
      assume "j * add ! j \<noteq> 0"
      then have "j \<le> k" unfolding k_def using that(2) by (intro Max_ge) auto
      with that(1) show False by simp
    qed
    let ?add = "add[k := add ! k - 1]"
    have pos: "0 < k" "k < length add" "0 < add ! k" using k by auto
    have upd: "?add[k := ?add ! k + 1] = add" using pos by simp
    have len: "k < length ?add" using pos(2) by simp
    have w: "weight add = weight ?add + k" using weight_update [OF len] unfolding upd .
    have "k \<le> largest" using less.prems(1,4) pos by (metis neq0_conv not_le)
    moreover have "k \<le> remaining" using w less.prems(3) by simp
    ultimately have here: "k \<in> {1..min largest remaining}" using pos by auto
    have "map2 (+) (need[k := need ! k + 1]) ?add \<in> set (compositions_fill (remaining - k) k (need[k := need ! k + 1]))"
    proof (rule less.IH)
      show "remaining - k < remaining" using pos False by simp
      show "\<forall>j < length (need[k := need ! k + 1]). j = 0 \<or> k < j \<longrightarrow> ?add ! j = 0"
        using above less.prems(1,4) pos by (auto simp: nth_list_update)
    qed (use less.prems pos w \<open>k \<le> largest\<close> in auto)
    moreover have "map2 (+) (need[k := need ! k + 1]) ?add = map2 (+) need add"
      using less.prems(1) pos by (intro nth_equalityI) (auto simp: nth_list_update)
    ultimately show ?thesis using here unfolding compositions_fill_set [OF False] by auto
  qed
qed

section \<open>The earliest units of a composition\<close>

text \<open>The first \<open>c\<close> of a sorted list are no later than the last of any \<open>c\<close> of it.\<close>

lemma take_earliest:
  fixes xs :: "nat list"
  assumes "sorted xs" and "distinct xs" and "X \<subseteq> set xs" and "x \<in> set (take (card X) xs)"
  shows "\<exists>y \<in> X. x \<le> y"
proof (rule ccontr)
  assume none: "\<not> ?thesis"
  obtain i where i: "i < card X" "i < length xs" "xs ! i = x" using assms(4) by (auto simp: in_set_conv_nth)
  have "X \<subseteq> set (take i xs)"
  proof
    fix y assume "y \<in> X"
    then have "y \<in> set xs" using assms(3) by blast
    then obtain j where j: "j < length xs" "xs ! j = y" by (auto simp: in_set_conv_nth)
    have "y < x" using none \<open>y \<in> X\<close> by auto
    then have "\<not> i \<le> j" using sorted_nth_mono [OF assms(1), of i j] j i by auto
    with j show "y \<in> set (take i xs)" by (auto simp: in_set_conv_nth intro: exI [of _ j])
  qed
  then have "card X \<le> card (set (take i xs))" by (rule card_mono [rotated]) simp
  also have "\<dots> \<le> i" using card_length [of "take i xs"] by simp
  finally show False using i(1) by simp
qed

lemma eligible_nth:
  assumes "k < 6"
  shows "eligible units n window ! k = filter (\<lambda>i. su_Size (units ! i) = k \<and> 1 \<le> k \<and> k \<le> n \<and> contains window (su_RatingCenti (units ! i))) [1..<length units]"
  using assms by (auto simp: eligible_def bucket_def intro: filter_cong)

text \<open>People by size.\<close>

lemma people_by_size:
  assumes "finite X" and "\<And>i. i \<in> X \<Longrightarrow> su_Size (units ! i) < n"
  shows "people units X = (\<Sum>k < n. k * card {i \<in> X. su_Size (units ! i) = k})"
  using sum_fun_comp [of X "{..<n}" "\<lambda>i. su_Size (units ! i)" "\<lambda>k. k"] assms
  by (force simp: people_def mult.commute)

lemma distinct_concat_map:
  "distinct ks \<Longrightarrow> (\<And>k. k \<in> set ks \<Longrightarrow> distinct (f k)) \<Longrightarrow> (\<And>j k. j \<in> set ks \<Longrightarrow> k \<in> set ks \<Longrightarrow> j \<noteq> k \<Longrightarrow> set (f j) \<inter> set (f k) = {})
    \<Longrightarrow> distinct (concat (map f ks))"
  by (induction ks) fastforce+

text \<open>What is taken for a composition, size by size.\<close>

definition taken :: "side_unit list \<Rightarrow> nat \<Rightarrow> rating_window \<Rightarrow> nat list \<Rightarrow> nat \<Rightarrow> nat list" where
  "taken units n window need k = take (need ! k) (eligible units n window ! k)"

lemma taken_props:
  assumes "k < 6"
  shows "distinct (taken units n window need k)" "sorted (taken units n window need k)"
    and "x \<in> set (taken units n window need k) \<Longrightarrow>
      x \<noteq> 0 \<and> x < length units \<and> su_Size (units ! x) = k \<and> 1 \<le> k \<and> k \<le> n \<and> contains window (su_RatingCenti (units ! x))"
proof -
  have el: "distinct (eligible units n window ! k)" "sorted (eligible units n window ! k)"
    by (simp_all add: eligible_nth [OF assms] sorted_wrt_filter)
  then show "distinct (taken units n window need k)" "sorted (taken units n window need k)" by (simp_all add: taken_def sorted_wrt_take)
  show "x \<in> set (taken units n window need k) \<Longrightarrow>
      x \<noteq> 0 \<and> x < length units \<and> su_Size (units ! x) = k \<and> 1 \<le> k \<and> k \<le> n \<and> contains window (su_RatingCenti (units ! x))"
    using in_set_takeD [of x "need ! k" "eligible units n window ! k"] by (auto simp: taken_def eligible_nth [OF assms])
qed

lemma taken_apart: "j < 6 \<Longrightarrow> k < 6 \<Longrightarrow> j \<noteq> k \<Longrightarrow> set (taken units n window need j) \<inter> set (taken units n window need k) = {}"
  using taken_props(3) [of j _ units n window need] taken_props(3) [of k _ units n window need] by blast

definition all_taken :: "side_unit list \<Rightarrow> nat \<Rightarrow> rating_window \<Rightarrow> nat list \<Rightarrow> nat set" where
  "all_taken units n window need = (\<Union>k < 6. set (taken units n window need k))"

lemma all_taken_size:
  "k < 6 \<Longrightarrow> {i \<in> all_taken units n window need. su_Size (units ! i) = k} = set (taken units n window need k)"
  using taken_props(3) by (fastforce simp: all_taken_def)

lemma finite_all_taken [simp]: "finite (all_taken units n window need)"
  by (simp add: all_taken_def)

lemma card_taken: "k < 6 \<Longrightarrow> need ! k \<le> length (eligible units n window ! k) \<Longrightarrow> card (set (taken units n window need k)) = need ! k"
  using distinct_card [OF taken_props(1)] by (simp add: taken_def)

lemma people_all_taken:
  assumes "\<And>k. k < 6 \<Longrightarrow> need ! k \<le> length (eligible units n window ! k)" and "length need = 6" 
  shows "people units (all_taken units n window need) = weight need"
proof -
  have "people units (all_taken units n window need) = (\<Sum>k < 6. k * card {i \<in> all_taken units n window need. su_Size (units ! i) = k})"
    by (rule people_by_size) (auto simp: all_taken_def dest: taken_props(3))
  also have "\<dots> = (\<Sum>k < 6. k * need ! k)" using assms(1) by (intro sum.cong) (simp_all add: all_taken_size card_taken)
  finally show ?thesis using assms(2) by (simp add: weight_def)
qed

lemma fold_max: "fold max xs a = Max (set (a # xs))" for a :: "'a :: linorder"
  by (rule Max.set_eq_fold [symmetric])

lemma takeEarliest_members:
  assumes "takeEarliest units (eligible units n window) need = Some sel" and "length need = 6"
  shows "\<And>k. k < 6 \<Longrightarrow> need ! k \<le> length (eligible units n window ! k)"
    and "sl_members sel = 0 # tl (sl_members sel)" "set (tl (sl_members sel)) = all_taken units n window need"
    and "distinct (sl_members sel)" "sorted (sl_members sel)"
    and "sl_last sel = Max (set (sl_members sel))"
proof -
  let ?others = "sort (concat (map (taken units n window need) [0..<6]))"
  let ?el = "eligible units n window"
  let ?lasts = "map (\<lambda>k. ?el ! k ! (need ! k - 1)) (filter (\<lambda>k. need ! k \<noteq> 0) [0..<6])"
  from assms have "\<not> list_ex (\<lambda>k. need ! k \<noteq> 0 \<and> length (?el ! k) < need ! k) [0..<6]"
    by (auto simp: takeEarliest_def simp del: list_ex_iff split: if_splits)
  then have all: "\<forall>k \<in> {0..<6}. need ! k = 0 \<or> need ! k \<le> length (?el ! k)" by (simp add: list_ex_iff not_less)
  show enough: "need ! k \<le> length (?el ! k)" if "k < 6" for k using bspec [OF all, of k] that by auto
  from assms have members: "sl_members sel = 0 # ?others" and last: "sl_last sel = fold max ?lasts 0"
    by (auto simp: takeEarliest_def Let_def taken_def [abs_def] split: if_splits)
  show "sl_members sel = 0 # tl (sl_members sel)" by (simp add: members)
  show others: "set (tl (sl_members sel)) = all_taken units n window need" by (auto simp: members all_taken_def)
  have "distinct (concat (map (taken units n window need) [0..<6]))"
    by (rule distinct_concat_map) (use taken_props(1) taken_apart in auto)
  moreover have "0 \<notin> set ?others" by (auto dest: taken_props(3))
  ultimately show "distinct (sl_members sel)" by (simp add: members)
  show "sorted (sl_members sel)" by (simp add: members)
  have into: "x \<in> all_taken units n window need" if "x \<in> set ?lasts" for x
  proof -
    from that obtain k where k: "k < 6" "need ! k \<noteq> 0" "x = ?el ! k ! (need ! k - 1)" by auto
    then have "x = taken units n window need k ! (need ! k - 1)" "need ! k - 1 < length (taken units n window need k)"
      using enough [OF k(1)] by (auto simp: taken_def)
    with k(1) show ?thesis unfolding all_taken_def by (auto intro: nth_mem)
  qed
  have above: "\<exists>y \<in> set ?lasts. x \<le> y" if "x \<in> all_taken units n window need" for x
  proof -
    from that obtain k where k: "k < 6" "x \<in> set (taken units n window need k)" by (auto simp: all_taken_def)
    then obtain i where i: "i < length (taken units n window need k)" "x = taken units n window need k ! i" by (auto simp: in_set_conv_nth)
    have len: "length (taken units n window need k) = need ! k" using enough [OF k(1)] by (simp add: taken_def)
    then have "x \<le> taken units n window need k ! (need ! k - 1)"
      unfolding i(2) using i(1) by (intro sorted_nth_mono [OF taken_props(2) [OF k(1)]]) auto
    also have "\<dots> = ?el ! k ! (need ! k - 1)" using i(1) len by (simp add: taken_def)
    finally show ?thesis using k(1) i(1) len by (intro bexI [of _ "?el ! k ! (need ! k - 1)"]) (auto simp del: upt_Suc)
  qed
  have "Max (insert 0 (set ?lasts)) = Max (insert 0 (all_taken units n window need))"
  proof (rule antisym)
    show "Max (insert 0 (set ?lasts)) \<le> Max (insert 0 (all_taken units n window need))"
      using into by (intro Max_mono) auto
    show "Max (insert 0 (all_taken units n window need)) \<le> Max (insert 0 (set ?lasts))"
      using above by (intro Max.boundedI) (auto simp: Max_ge_iff)
  qed
  moreover have "set (sl_members sel) = insert 0 (all_taken units n window need)" using others by (simp add: members)
  ultimately show "sl_last sel = Max (set (sl_members sel))" by (simp only: last fold_max list.set)
qed

section \<open>Windows\<close>

lemma window_close:
  assumes "w \<in> set (ratingWindows units True (Tol t))" and "contains w a" "contains w b"
  shows "of_int (a - b) \<le> t"
  using assms by (auto simp: ratingWindows_def Let_def)

lemma window_anchor: "w \<in> set (ratingWindows units rated tol) \<Longrightarrow> (\<And>t. tol = Tol t \<Longrightarrow> 0 \<le> t) \<Longrightarrow> contains w (su_RatingCenti (hd units))"
  by (cases tol) (auto simp: ratingWindows_def Let_def split: if_splits)

lemma window_for:
  assumes "units \<noteq> []" and "0 \<in> S" "S \<subseteq> {..<length units}"
    and close: "\<And>i j. i \<in> S \<Longrightarrow> j \<in> S \<Longrightarrow> of_int (su_RatingCenti (units ! i) - su_RatingCenti (units ! j)) \<le> t"
  shows "\<exists>w \<in> set (ratingWindows units True (Tol t)). \<forall>i \<in> S. contains w (su_RatingCenti (units ! i))"
proof -
  let ?R = "(\<lambda>i. su_RatingCenti (units ! i)) ` S"
  have fin: "finite ?R" "?R \<noteq> {}" using assms(2,3) finite_subset by auto
  define low where "low = Min ?R"
  obtain m where m: "m \<in> S" "low = su_RatingCenti (units ! m)" using Min_in [OF fin] unfolding low_def by auto
  have least: "low \<le> su_RatingCenti (units ! i)" if "i \<in> S" for i unfolding low_def using fin(1) that by (intro Min_le) auto
  have hd: "hd units = units ! 0" using assms(1) by (simp add: hd_conv_nth)
  have "su_RatingCenti (units ! m) \<in> set (su_RatingCenti (hd units) # map su_RatingCenti (tl units))"
  proof (cases "m = 0")
    case False
    then have "tl units ! (m - 1) = units ! m" "m - 1 < length (tl units)" using m(1) assms(3) by (auto simp: nth_tl)
    then show ?thesis by (metis image_eqI list.set_intros(2) nth_mem set_map)
  qed (simp add: hd)
  then have "Window (of_int low) (of_int low + t) \<in> set (ratingWindows units True (Tol t))"
    using m least [OF assms(2)] close [OF assms(2) m(1)] by (auto simp: ratingWindows_def Let_def hd)
  moreover have "contains (Window (of_int low) (of_int low + t)) (su_RatingCenti (units ! i))" if "i \<in> S" for i
    using least [OF that] close [OF that m(1)] m(2) by simp
  ultimately show ?thesis by blast
qed

section \<open>Selections\<close>

lemma compositionsFor_props:
  assumes "need \<in> set (compositionsFor n a)" and "n \<le> 5" "a \<le> n"
  shows "length need = 6" "weight need = 2 * n - a" "need ! 0 = 0"
proof -
  have "weight (replicate 6 0) = 0" by (simp add: weight_def)
  with compositions_fill_weight [OF assms(1) [unfolded compositionsFor_def]] assms(2)
  show "length need = 6" "weight need = 2 * n - a" "need ! 0 = 0" by auto
qed

lemma keep_first_subset: "set (keep_first seen ss) \<subseteq> set ss"
  by (induction seen ss rule: keep_first.induct) auto

lemma keep_first_covers: "s \<in> set ss \<Longrightarrow> selection_key s \<notin> seen \<Longrightarrow> \<exists>s' \<in> set (keep_first seen ss). selection_key s' = selection_key s"
proof (induction seen ss rule: keep_first.induct)
  case (2 seen x ss)
  show ?case
  proof (cases "selection_key x = selection_key s")
    case False
    with 2 show ?thesis by (cases "selection_key x \<in> seen") auto
  qed (use 2(4) in auto)
qed simp

definition candidate :: "side_unit list \<Rightarrow> nat \<Rightarrow> bool \<Rightarrow> tolerance \<Rightarrow> selection \<Rightarrow> bool" where
  "candidate units n rated tol sel \<longleftrightarrow> (\<exists>w \<in> set (ratingWindows units rated tol). \<exists>need \<in> set (compositionsFor n (su_Size (hd units))).
     takeEarliest units (eligible units n w) need = Some sel)"

lemma map_filter_iff: "y \<in> set (List.map_filter f xs) \<longleftrightarrow> (\<exists>x \<in> set xs. f x = Some y)"
  by (force simp: List.map_filter_def)

lemma collect_candidates: "sel \<in> set (collectSelections units n rated tol) \<Longrightarrow> candidate units n rated tol sel"
  using keep_first_subset by (fastforce simp: collectSelections_def Let_def candidate_def map_filter_iff)

text \<open>Few enough for the key to name all members.\<close>

lemma sum_le_weight: "length need = 6 \<Longrightarrow> need ! 0 = 0 \<Longrightarrow> (\<Sum>k < 6. need ! k) \<le> weight need"
proof -
  assume need: "length need = 6" "need ! 0 = 0"
  have "need ! k \<le> k * need ! k" for k using need(2) by (cases k) auto
  then show ?thesis unfolding weight_def need(1) by (intro sum_mono)
qed

lemma candidate_length:
  assumes "candidate units n rated tol sel" and "n \<le> 5" "su_Size (hd units) \<le> n" "1 \<le> su_Size (hd units)"
  shows "length (sl_members sel) \<le> 10"
proof -
  from assms(1) obtain w need where need: "need \<in> set (compositionsFor n (su_Size (hd units)))"
    and sel: "takeEarliest units (eligible units n w) need = Some sel" by (auto simp: candidate_def)
  note comp = compositionsFor_props [OF need assms(2,3)] and members = takeEarliest_members [OF sel compositionsFor_props(1) [OF need assms(2,3)]]
  have "length (sl_members sel) = Suc (card (all_taken units n w need))"
    using members(2-4) by (metis distinct.simps(2) distinct_card length_Cons)
  also have "card (all_taken units n w need) = (\<Sum>k < 6. need ! k)"
    unfolding all_taken_def using taken_apart members(1) by (subst card_UN_disjoint) (auto simp: card_taken)
  also have "\<dots> \<le> 9" using sum_le_weight [OF comp(1,3)] comp(2) assms(2,4) by simp
  finally show ?thesis by simp
qed

lemma collect_covers:
  assumes "candidate units n rated tol sel" and "n \<le> 5" "su_Size (hd units) \<le> n" "1 \<le> su_Size (hd units)"
  shows "\<exists>sel' \<in> set (collectSelections units n rated tol). sl_members sel' = sl_members sel"
proof -
  from assms(1) obtain sel' where sel': "sel' \<in> set (collectSelections units n rated tol)" "selection_key sel' = selection_key sel"
    using keep_first_covers [of sel _ "{}"] by (force simp: collectSelections_def Let_def candidate_def map_filter_iff)
  have key: "filter (\<lambda>x. 0 \<le> x) (selection_key s) = map int (sl_members s)" if "length (sl_members s) \<le> 10" for s
    using that by (simp add: selection_key_def filter_empty_conv)
  have "map int (sl_members sel') = map int (sl_members sel)"
    using key candidate_length [OF assms] candidate_length [OF collect_candidates [OF sel'(1)] assms(2-4)] sel'(2) by metis
  then have "sl_members sel' = sl_members sel" by (simp add: map_injective inj_on_def)
  with sel'(1) show ?thesis by blast
qed

section \<open>Keeping the best\<close>

definition rank :: "side_choice \<Rightarrow> nat \<times> int \<times> int" where "rank c = (sc_gap c, sc_imbalance c, sc_spread c)"

lemma side_better_iff: "side_better c b \<longleftrightarrow> rank c < rank b"
  by (auto simp: side_better_def rank_def less_prod_def)

lemma keep_better_cases:
  "keep_better new best = Some c \<Longrightarrow> new = Some c \<or> best = Some c" "keep_better new best = None \<longleftrightarrow> new = None \<and> best = None"
  by (auto simp: keep_better_def split: option.splits if_splits)

lemma fold_keep_better:
  "fold (\<lambda>x. keep_better (f x)) xs best = Some c \<Longrightarrow> best = Some c \<or> (\<exists>x \<in> set xs. f x = Some c)"
  "best \<noteq> None \<or> (\<exists>x \<in> set xs. f x \<noteq> None) \<Longrightarrow> fold (\<lambda>x. keep_better (f x)) xs best \<noteq> None"
  "fold (\<lambda>x. keep_better (f x)) xs best = Some c \<Longrightarrow> d \<in> set_option best \<union> (\<Union>x \<in> set xs. set_option (f x)) \<Longrightarrow> \<not> side_better d c"
proof -
  show "fold (\<lambda>x. keep_better (f x)) xs best = Some c \<Longrightarrow> best = Some c \<or> (\<exists>x \<in> set xs. f x = Some c)"
  proof (induction xs arbitrary: best)
    case (Cons x xs)
    then consider "keep_better (f x) best = Some c" | y where "y \<in> set xs" "f y = Some c" by auto
    then show ?case by cases (auto dest: keep_better_cases(1))
  qed simp
  show "best \<noteq> None \<or> (\<exists>x \<in> set xs. f x \<noteq> None) \<Longrightarrow> fold (\<lambda>x. keep_better (f x)) xs best \<noteq> None"
  proof (induction xs arbitrary: best)
    case (Cons x xs)
    then have "keep_better (f x) best \<noteq> None \<or> (\<exists>y \<in> set xs. f y \<noteq> None)"
      by (auto simp: keep_better_cases(2) simp del: not_None_eq)
    from Cons.IH [OF this] show ?case by simp
  qed simp
  show "fold (\<lambda>x. keep_better (f x)) xs best = Some c \<Longrightarrow> d \<in> set_option best \<union> (\<Union>x \<in> set xs. set_option (f x)) \<Longrightarrow> \<not> side_better d c"
  proof (induction xs arbitrary: best d)
    case (Cons x xs)
    let ?best = "keep_better (f x) best"
    have IH: "\<not> side_better e c" if "e \<in> set_option ?best \<union> (\<Union>x \<in> set xs. set_option (f x))" for e
      using Cons.IH [of ?best e] Cons.prems(1) that by simp
    show ?case
    proof (cases "d \<in> set_option ?best \<union> (\<Union>x \<in> set xs. set_option (f x))")
      case False
      with Cons.prems(2) obtain e where "e \<in> set_option ?best" "rank e \<le> rank d"
        by (auto simp: keep_better_def side_better_iff split: option.splits if_splits)
      then show ?thesis using IH [of e] by (auto simp: side_better_iff not_less)
    qed (rule IH)
  qed (auto simp: side_better_iff)
qed

lemma splitSides_choice:
  "splitSides units sel rule = Some c \<Longrightarrow> \<exists>msk. split_choice units sel rule msk = Some c
    \<and> (\<forall>m < 2 ^ (length (sl_members sel) - 1). \<forall>d. split_choice units sel rule m = Some d \<longrightarrow> \<not> side_better d c)"
  using fold_keep_better(1,3) [where f = "split_choice units sel rule" and best = None and c = c] unfolding splitSides_def by fastforce

lemma splitSides_some:
  "msk < 2 ^ (length (sl_members sel) - 1) \<Longrightarrow> split_choice units sel rule msk \<noteq> None \<Longrightarrow> splitSides units sel rule \<noteq> None"
  unfolding splitSides_def by (intro fold_keep_better(2)) auto

lemma pick_batches_some:
  "pick_batches units rule sels = Some c \<Longrightarrow> \<exists>sel \<in> set sels. splitSides units sel rule = Some c"
proof (induction units rule sels rule: pick_batches.induct)
  case (1 units rule sels)
  show ?case
  proof (cases sels)
    case Nil
    with 1(2) show ?thesis by (subst (asm) pick_batches.simps) simp
  next
    case (Cons s ss)
    let ?batch = "takeWhile (\<lambda>x. sl_last x = sl_last s) sels"
    let ?best = "fold (\<lambda>sel. keep_better (splitSides units sel rule)) ?batch None"
    have code: "pick_batches units rule sels = (case ?best of Some best \<Rightarrow> Some best
        | None \<Rightarrow> pick_batches units rule (dropWhile (\<lambda>x. sl_last x = sl_last s) sels))"
      by (subst pick_batches.simps) (simp add: Cons)
    show ?thesis
    proof (cases ?best)
      case None
      with 1(1) [OF Cons None] 1(2) code show ?thesis by (auto dest: set_dropWhileD)
    next
      case (Some b)
      with 1(2) code fold_keep_better(1) [OF Some] show ?thesis by (auto dest: set_takeWhileD)
    qed
  qed
qed

lemma pick_batches_first:
  "sorted (map sl_last sels) \<Longrightarrow> sel \<in> set sels \<Longrightarrow> splitSides units sel rule \<noteq> None \<Longrightarrow>
    \<exists>c sel'. pick_batches units rule sels = Some c \<and> sel' \<in> set sels \<and> splitSides units sel' rule = Some c \<and> sl_last sel' \<le> sl_last sel"
proof (induction units rule sels rule: pick_batches.induct)
  case (1 units rule sels)
  then obtain s ss where Cons: "sels = s # ss" by (cases sels) auto
  let ?same = "\<lambda>x. sl_last x = sl_last s"
  let ?best = "fold (\<lambda>sel. keep_better (splitSides units sel rule)) (takeWhile ?same sels) None"
  have code: "pick_batches units rule sels = (case ?best of Some best \<Rightarrow> Some best | None \<Rightarrow> pick_batches units rule (dropWhile ?same sels))"
    by (subst pick_batches.simps) (simp add: Cons)
  show ?case
  proof (cases ?best)
    case None
    have "sel \<notin> set (takeWhile ?same sels)"
      using fold_keep_better(2) [of None "takeWhile ?same sels" "\<lambda>sel. splitSides units sel rule"] None 1(4) by auto
    then have "sel \<in> set (dropWhile ?same sels)" using 1(3) set_append [of "takeWhile ?same sels" "dropWhile ?same sels"] by (simp only: takeWhile_dropWhile_id) blast
    moreover have "sorted (map sl_last (dropWhile ?same sels))"
      using 1(2) sorted_append [of "map sl_last (takeWhile ?same sels)" "map sl_last (dropWhile ?same sels)"] takeWhile_dropWhile_id [of ?same sels]
      by (simp add: map_append [symmetric] del: map_append)
    ultimately obtain c sel' where "pick_batches units rule (dropWhile ?same sels) = Some c" "sel' \<in> set (dropWhile ?same sels)"
        "splitSides units sel' rule = Some c" "sl_last sel' \<le> sl_last sel"
      using 1(1) [OF Cons None] 1(4) by blast
    with code None show ?thesis using set_dropWhileD [of sel' ?same sels] by auto
  next
    case (Some b)
    then obtain sel' where sel': "sel' \<in> set sels" "sl_last sel' = sl_last s" "splitSides units sel' rule = Some b"
      using fold_keep_better(1) [OF Some] by (auto dest: set_takeWhileD)
    moreover have "sl_last s \<le> sl_last sel" using 1(2,3) by (auto simp: Cons)
    ultimately show ?thesis using code Some by auto
  qed
qed

section \<open>Divisions\<close>

lemma mask_for: "\<exists>msk < 2 ^ m. \<forall>j < m. msk div 2 ^ j mod 2 = (if P j then 1 else 0 :: nat)"
proof (induction m)
  case (Suc m)
  then obtain msk :: nat where msk: "msk < 2 ^ m" "\<And>j. j < m \<Longrightarrow> msk div 2 ^ j mod 2 = (if P j then 1 else 0)" by blast
  let ?msk = "msk + (if P m then 2 ^ m else 0)"
  have "?msk div 2 ^ j mod 2 = (if P j then 1 else 0)" if "j < Suc m" for j
  proof (cases "j = m")
    case False
    then have "j < m" using that by simp
    then have "(2 :: nat) ^ m = 2 * 2 ^ (m - Suc j) * 2 ^ j" by (simp flip: power_add power_Suc)
    then have "(msk + 2 ^ m) div 2 ^ j = msk div 2 ^ j + 2 * 2 ^ (m - Suc j)" by simp
    then have "(msk + 2 ^ m) div 2 ^ j mod 2 = msk div 2 ^ j mod 2" by simp
    then show ?thesis using msk(2) [OF \<open>j < m\<close>] by simp
  qed (use msk(1) in simp)
  moreover have "?msk < 2 ^ Suc m" using msk(1) by simp
  ultimately show ?case by blast
qed simp

lemma set_on_side: "set (on_side ms msk side) = {ms ! i |i. i < length ms \<and> sideOf i msk = side}"
  by (auto simp: on_side_def)

lemma distinct_on_side: "distinct ms \<Longrightarrow> distinct (on_side ms msk side)"
  by (auto simp: on_side_def distinct_map inj_on_def nth_eq_iff_index_eq)

lemma side_people_set: "distinct is \<Longrightarrow> side_people units is = people units (set is)"
  by (simp add: side_people_def people_def sum_list_distinct_conv_sum_set)

lemma side_largest_set: "side_largest units is = largest_party units (set is)"
  by (simp add: side_largest_def largest_party_def fold_max)

lemma sideOf_binary: "sideOf i msk = 0 \<longleftrightarrow> sideOf i msk \<noteq> 1"
  by (auto simp: sideOf_def)

lemma sides_partition:
  assumes "distinct ms"
  shows "set (on_side ms msk 0) = set ms - set (on_side ms msk 1)" "set (on_side ms msk 1) \<subseteq> set ms"
proof -
  have "x \<in> set (on_side ms msk 0) \<longleftrightarrow> x \<in> set ms \<and> x \<notin> set (on_side ms msk 1)" for x
  proof
    assume "x \<in> set (on_side ms msk 0)"
    then obtain i where i: "i < length ms" "x = ms ! i" "sideOf i msk = 0" by (auto simp: set_on_side)
    have "\<not> (j < length ms \<and> x = ms ! j \<and> sideOf j msk = 1)" for j
      using i assms by (auto simp: nth_eq_iff_index_eq)
    with i show "x \<in> set ms \<and> x \<notin> set (on_side ms msk 1)" by (auto simp: set_on_side)
  next
    assume "x \<in> set ms \<and> x \<notin> set (on_side ms msk 1)"
    then obtain i where "i < length ms" "x = ms ! i" "sideOf i msk \<noteq> 1" by (auto simp: set_on_side in_set_conv_nth)
    then show "x \<in> set (on_side ms msk 0)" unfolding set_on_side using sideOf_binary by blast
  qed
  then show "set (on_side ms msk 0) = set ms - set (on_side ms msk 1)" by blast
  show "set (on_side ms msk 1) \<subseteq> set ms" by (auto simp: set_on_side)
qed

lemma split_choice_some:
  assumes "split_choice units sel rule msk = Some c" and "distinct (sl_members sel)" "sl_members sel = 0 # os"
  defines "T \<equiv> set (on_side (sl_members sel) msk 1)"
  shows "sc_members c = sl_members sel" "sc_sides c = map (\<lambda>i. sideOf i msk) [0..<length (sl_members sel)]"
    and "people units (set (sl_members sel) - T) = sr_PerSide rule" "people units T = sr_PerSide rule"
    and "consented units rule (set (sl_members sel)) T" "T \<subseteq> set (sl_members sel) - {0}"
proof -
  let ?ms = "sl_members sel"
  note part = sides_partition [OF assms(2), of msk] and dist = distinct_on_side [OF assms(2), of msk]
  show "sc_members c = ?ms" "sc_sides c = map (\<lambda>i. sideOf i msk) [0..<length ?ms]"
    using assms(1) by (auto simp: split_choice_def Let_def split: if_splits)
  show "people units (set ?ms - T) = sr_PerSide rule" "people units T = sr_PerSide rule"
    using assms(1) part by (auto simp: split_choice_def Let_def side_people_set dist T_def split: if_splits)
  show "consented units rule (set ?ms) T"
    using assms(1) part by (auto simp: split_choice_def premadeConsent_def consented_def side_largest_set list_all_iff Let_def T_def not_less split: if_splits)
  show "T \<subseteq> set ?ms - {0}"
  proof
    fix x assume "x \<in> T"
    then obtain i where i: "i < length ?ms" "x = ?ms ! i" "sideOf i msk = 1" by (auto simp: T_def set_on_side)
    then have "i \<noteq> 0" by (cases "i = 0") (simp_all add: sideOf_def)
    then have "x = os ! (i - 1)" "i - 1 < length os" using i assms(3) by auto
    then have "x \<in> set os" by simp
    then have "x \<noteq> 0" using assms(2,3) by (metis distinct.simps(2))
    with i show "x \<in> set ?ms - {0}" by simp
  qed
qed

lemma split_choice_for:
  assumes "distinct ms" "ms = 0 # os" "T \<subseteq> set os" and "people units (set ms - T) = n" "people units T = n"
    and "sl_members sel = ms" "sr_PerSide rule = n" "sr_GapStepMs rule = 0"
  shows "\<exists>msk < 2 ^ (length ms - 1). split_choice units sel rule msk \<noteq> None"
proof -
  obtain msk where msk: "msk < 2 ^ length os" "\<And>j. j < length os \<Longrightarrow> msk div 2 ^ j mod 2 = (if os ! j \<in> T then 1 else 0 :: nat)"
    using mask_for [of "length os" "\<lambda>j. os ! j \<in> T"] by blast
  have side: "sideOf i msk = (if ms ! i \<in> T then 1 else 0)" if "i < length ms" for i
    using msk(2) [of "i - 1"] that assms(1-3) by (cases i) (auto simp: sideOf_def)
  have "set (on_side ms msk 1) = T"
  proof -
    have "T \<subseteq> set ms" using assms(2,3) by auto
    then have "T = {ms ! i |i. i < length ms \<and> ms ! i \<in> T}" by (auto, metis in_set_conv_nth subsetD)
    also have "\<dots> = set (on_side ms msk 1)"
    proof -
      have "ms ! i \<in> T \<longleftrightarrow> sideOf i msk = 1" if "i < length ms" for i using side [OF that] by simp
      then show ?thesis unfolding set_on_side by (intro Collect_cong) blast
    qed
    finally show ?thesis by simp
  qed
  then have "set (on_side ms msk 1) = T" "set (on_side ms msk 0) = set ms - T" using sides_partition(1) [OF assms(1)] by auto
  with assms have "split_choice units sel rule msk \<noteq> None"
    by (simp add: split_choice_def Let_def side_people_set distinct_on_side premadeConsent_def)
  with msk(1) assms(2) show ?thesis by auto
qed

section \<open>Results\<close>

lemma candidate_members:
  assumes "candidate units n rated tol sel" and "n \<le> 5" "su_Size (hd units) \<le> n"
  obtains w where "w \<in> set (ratingWindows units rated tol)" "sl_members sel = 0 # tl (sl_members sel)" "distinct (sl_members sel)" "sorted (sl_members sel)"
    "sl_last sel = Max (set (sl_members sel))"
    "\<And>i. i \<in> set (tl (sl_members sel)) \<Longrightarrow> i < length units \<and> 1 \<le> su_Size (units ! i) \<and> su_Size (units ! i) \<le> n \<and> contains w (su_RatingCenti (units ! i))"
proof -
  from assms(1) obtain w need where w: "w \<in> set (ratingWindows units rated tol)" and need: "need \<in> set (compositionsFor n (su_Size (hd units)))"
    and sel: "takeEarliest units (eligible units n w) need = Some sel" by (auto simp: candidate_def)
  note members = takeEarliest_members [OF sel compositionsFor_props(1) [OF need assms(2,3)]]
  have "i < length units \<and> 1 \<le> su_Size (units ! i) \<and> su_Size (units ! i) \<le> n \<and> contains w (su_RatingCenti (units ! i))"
    if "i \<in> set (tl (sl_members sel))" for i
    using that taken_props(3) unfolding members(3) all_taken_def by fastforce
  then show thesis using that [of w] w members by blast
qed

lemma pickSides_result:
  assumes "pickSides units rule = Some (ms, sides)"
  shows "1 \<le> sr_PerSide rule" "sr_PerSide rule \<le> 5" "units \<noteq> []" "1 \<le> su_Size (hd units)" "su_Size (hd units) \<le> sr_PerSide rule"
    and "sr_Rated rule \<Longrightarrow> sr_ToleranceCenti rule = Tol t \<Longrightarrow> 0 \<le> t" "sr_Rated rule \<Longrightarrow> sr_ToleranceCenti rule \<noteq> TolNaN"
    and "\<exists>c. pick_batches units rule (collectSelections units (sr_PerSide rule) (sr_Rated rule)
      (if sr_Rated rule then sr_ToleranceCenti rule else TolInf)) = Some c \<and> ms = sc_members c \<and> sides = sc_sides c"
  using assms by (auto simp: pickSides_def Let_def not_less split: if_splits tolerance.splits)

text \<open>A match that is found has the anchor in it, no unit twice, whole units only, exactly the people of one side on each side, ratings
  within the tolerance of each other, and the consent of the weaker side where parties differ.\<close>

lemma pickSides_sound:
  assumes "pickSides units rule = Some (ms, sides)"
  shows "fair_match units rule (set ms) {ms ! i |i. i < length ms \<and> sides ! i = 1}
    \<and> consented units rule (set ms) {ms ! i |i. i < length ms \<and> sides ! i = 1}
    \<and> distinct ms \<and> sorted ms \<and> length sides = length ms \<and> set sides \<subseteq> {0, 1}"
proof -
  note res = pickSides_result [OF assms]
  let ?n = "sr_PerSide rule" let ?tol = "if sr_Rated rule then sr_ToleranceCenti rule else TolInf"
  from res(8) obtain c sel where c: "ms = sc_members c" "sides = sc_sides c" "splitSides units sel rule = Some c"
    and cand: "candidate units ?n (sr_Rated rule) ?tol sel" using pick_batches_some collect_candidates by blast
  obtain msk where msk: "split_choice units sel rule msk = Some c" using splitSides_choice [OF c(3)] by blast
  obtain w where w: "w \<in> set (ratingWindows units (sr_Rated rule) ?tol)" and m: "sl_members sel = 0 # tl (sl_members sel)"
      "distinct (sl_members sel)" "sorted (sl_members sel)"
      and tl: "\<And>i. i \<in> set (tl (sl_members sel)) \<Longrightarrow> i < length units \<and> 1 \<le> su_Size (units ! i) \<and> su_Size (units ! i) \<le> ?n \<and> contains w (su_RatingCenti (units ! i))"
    using candidate_members [OF cand res(2,5)] by metis
  note split = split_choice_some [OF msk m(2,1)]
  have ms: "ms = sl_members sel" using c split by simp
  have T: "{ms ! i |i. i < length ms \<and> sides ! i = 1} = set (on_side (sl_members sel) msk 1)"
    using c split(1,2) by (auto simp: set_on_side)
  have "contains w (su_RatingCenti (hd units))" by (rule window_anchor [OF w]) (use res(6) in \<open>auto split: if_splits\<close>)
  with tl res(3,4,5) have all: "i < length units \<and> 1 \<le> su_Size (units ! i) \<and> su_Size (units ! i) \<le> ?n \<and> contains w (su_RatingCenti (units ! i))"
    if "i \<in> set ms" for i using that m(1) by (cases "i = 0") (auto simp: ms hd_conv_nth dest: arg_cong [of _ _ set])
  have "case sr_ToleranceCenti rule of TolNaN \<Rightarrow> False | TolInf \<Rightarrow> True
      | Tol t \<Rightarrow> \<forall>i \<in> set ms. \<forall>j \<in> set ms. of_int (su_RatingCenti (units ! i) - su_RatingCenti (units ! j)) \<le> t" if "sr_Rated rule"
    using that res(7) all window_close w by (auto split: tolerance.split)
  moreover have "0 \<in> set ms" using m(1) ms by (metis list.set_intros(1))
  ultimately have "fair_match units rule (set ms) (set (on_side (sl_members sel) msk 1))"
    using all split(3,4,6) unfolding fair_match_def ms by (intro conjI) auto
  moreover have "set sides \<subseteq> {0, 1}" using c(2) split(2) by (auto simp: sideOf_def)
  moreover have "length sides = length ms" using c(2) split(2) ms by simp
  ultimately show ?thesis using split(5) m(2,3) unfolding T unfolding ms by simp
qed

text \<open>A fair match shows a candidate of the same composition that is no later and can be divided.\<close>

lemma people_Un: "finite X \<Longrightarrow> Y \<subseteq> X \<Longrightarrow> people units X = people units (X - Y) + people units Y"
  unfolding people_def by (rule sum.subset_diff)

text \<open>The sizes of a set of units.\<close>

definition counts :: "side_unit list \<Rightarrow> nat set \<Rightarrow> nat list" where
  "counts units X = map (\<lambda>k. card {i \<in> X. su_Size (units ! i) = k}) [0..<6]"

lemma counts_props:
  assumes "finite X" and "\<And>i. i \<in> X \<Longrightarrow> 1 \<le> su_Size (units ! i) \<and> su_Size (units ! i) \<le> n" and "n \<le> 5"
  shows "length (counts units X) = 6" "k < 6 \<Longrightarrow> counts units X ! k = card {i \<in> X. su_Size (units ! i) = k}"
    and "weight (counts units X) = people units X" "k < 6 \<Longrightarrow> k = 0 \<or> n < k \<Longrightarrow> counts units X ! k = 0"
proof -
  show len: "length (counts units X) = 6" by (simp add: counts_def)
  show nth: "counts units X ! k = card {i \<in> X. su_Size (units ! i) = k}" if "k < 6" for k using that by (simp add: counts_def del: upt_Suc)
  have "su_Size (units ! i) < 6" if "i \<in> X" for i using assms(2) [OF that] assms(3) by simp
  with people_by_size [OF assms(1), of units 6] nth show "weight (counts units X) = people units X" unfolding weight_def len by simp
  show "counts units X ! k = 0" if "k < 6" "k = 0 \<or> n < k"
  proof -
    have none: "{i \<in> X. su_Size (units ! i) = k} = {}" using assms(2) that(2) by fastforce
    show ?thesis unfolding nth [OF that(1)] none by simp
  qed
qed

text \<open>If the units of a set are all eligible, then there are enough for its sizes, and the earliest ones are no later.\<close>

lemma counts_eligible:
  assumes "finite X" and X: "\<And>i. i \<in> X \<Longrightarrow> i \<noteq> 0 \<and> i < length units \<and> 1 \<le> su_Size (units ! i) \<and> su_Size (units ! i) \<le> n \<and> contains w (su_RatingCenti (units ! i))"
    and "n \<le> 5" "k < 6"
  shows "counts units X ! k \<le> length (eligible units n w ! k)"
    and "x \<in> set (taken units n w (counts units X) k) \<Longrightarrow> \<exists>y \<in> X. x \<le> y"
proof -
  let ?X = "{i \<in> X. su_Size (units ! i) = k}" let ?el = "eligible units n w ! k"
  have sub: "?X \<subseteq> set ?el"
  proof
    fix i assume "i \<in> ?X"
    with X [of i] show "i \<in> set ?el" by (auto simp: eligible_nth [OF assms(4)])
  qed
  have nth: "counts units X ! k = card ?X" using counts_props(2) [OF assms(1) _ assms(3,4)] X by blast
  have "card ?X \<le> card (set ?el)" using sub by (rule card_mono [rotated]) simp
  then show "counts units X ! k \<le> length ?el" using card_length [of ?el] nth by simp
  have "sorted ?el" "distinct ?el" by (simp_all add: eligible_nth [OF assms(4)] sorted_wrt_filter)
  from take_earliest [OF this sub, of x]
  show "x \<in> set (taken units n w (counts units X) k) \<Longrightarrow> \<exists>y \<in> X. x \<le> y" by (auto simp: taken_def nth)
qed

lemma takeEarliest_enough:
  assumes "\<And>k. k < 6 \<Longrightarrow> need ! k \<le> length (el ! k)" and "length need = 6"
  shows "\<exists>sel. takeEarliest units el need = Some sel"
proof -
  have "\<not> list_ex (\<lambda>k. need ! k \<noteq> 0 \<and> length (el ! k) < need ! k) [0..<length need]"
    using assms(1) unfolding assms(2) list_ex_iff by (auto simp: not_less)
  then show ?thesis by (auto simp: takeEarliest_def Let_def simp del: list_ex_iff)
qed

lemma fair_candidate:
  assumes fair: "fair_match units rule S T" and n: "sr_PerSide rule \<le> 5" "units \<noteq> []" and gap: "sr_GapStepMs rule = 0"
  defines "tol \<equiv> if sr_Rated rule then sr_ToleranceCenti rule else TolInf"
  shows "\<exists>sel. candidate units (sr_PerSide rule) (sr_Rated rule) tol sel \<and> Max (set (sl_members sel)) \<le> Max S
    \<and> (\<exists>msk < 2 ^ (length (sl_members sel) - 1). split_choice units sel rule msk \<noteq> None)"
proof -
  let ?n = "sr_PerSide rule" let ?size = "\<lambda>i. su_Size (units ! i)" let ?A = "S - {0}"
  note f = fair [unfolded fair_match_def]
  have T: "T \<subseteq> ?A" "T \<subseteq> S" and zero: "0 \<in> S" and sub: "S \<subseteq> {..<length units}" using f by auto
  have fin: "finite S" "finite ?A" "finite T" using finite_subset [OF sub] T finite_subset by auto
  obtain w where w: "w \<in> set (ratingWindows units (sr_Rated rule) tol)" "\<And>i. i \<in> S \<Longrightarrow> contains w (su_RatingCenti (units ! i))"
  proof (cases "sr_Rated rule \<and> (\<exists>t. sr_ToleranceCenti rule = Tol t)")
    case True
    then obtain t where "sr_ToleranceCenti rule = Tol t" by blast
    with window_for [OF n(2), of S t] f True that show ?thesis by (auto simp: tol_def)
  next
    case False
    then have "ratingWindows units (sr_Rated rule) tol = [Unlimited]" by (auto simp: tol_def ratingWindows_def split: tolerance.splits)
    with that show ?thesis by simp
  qed
  have ok: "i \<noteq> 0 \<and> i < length units \<and> 1 \<le> ?size i \<and> ?size i \<le> ?n \<and> contains w (su_RatingCenti (units ! i))" if "i \<in> ?A" for i
    using that f w(2) sub by auto
  define need where "need = counts units ?A"
  have sizes: "1 \<le> ?size i \<and> ?size i \<le> ?n" if "i \<in> ?A" for i using ok [OF that] by blast
  note c = counts_props [OF fin(2) sizes n(1), folded need_def]
  note el = counts_eligible [OF fin(2) ok n(1), folded need_def]
  have hd: "hd units = units ! 0" using n(2) by (simp add: hd_conv_nth)
  have a: "?size 0 \<le> ?n" "1 \<le> ?size 0" using f zero by auto
  have all: "people units S = 2 * ?n" using people_Un [OF fin(1) T(2), of units] f by simp
  have "people units S = people units ?A + ?size 0" using people_Un [OF fin(1), of "{0}" units] zero by (simp add: people_def)
  then have A: "people units ?A = 2 * ?n - ?size 0" "people units ?A + ?size 0 = 2 * ?n" using all by simp_all
  have "map2 (+) (replicate 6 0) need \<in> set (compositions_fill (2 * ?n - ?size 0) ?n (replicate 6 0))"
    by (rule compositions_fill_complete) (use c(1,3,4) A(1) n(1) in auto)
  moreover have "map2 (+) (replicate 6 0) need = need" using c(1) by (intro nth_equalityI) simp_all
  ultimately have comp: "need \<in> set (compositionsFor ?n (su_Size (hd units)))" unfolding hd compositionsFor_def by simp
  obtain sel where sel: "takeEarliest units (eligible units ?n w) need = Some sel"
    using takeEarliest_enough [of need "eligible units ?n w" units] el(1) c(1) by blast
  note m = takeEarliest_members [OF sel c(1)]
  have cand: "candidate units ?n (sr_Rated rule) tol sel" unfolding candidate_def using w(1) comp sel by blast
  have set: "set (sl_members sel) = insert 0 (all_taken units ?n w need)" using m(2,3) by (metis list.set(2))
  have early: "Max (set (sl_members sel)) \<le> Max S"
  proof (rule Max.boundedI)
    fix x assume "x \<in> set (sl_members sel)"
    then obtain y where "y \<in> S" "x \<le> y" using el(2) zero unfolding set all_taken_def by blast
    then show "x \<le> Max S" using Max_ge [OF fin(1)] le_trans by blast
  qed (simp_all add: set)
  define tneed where "tneed = counts units T"
  have okT: "i \<noteq> 0 \<and> i < length units \<and> 1 \<le> ?size i \<and> ?size i \<le> ?n \<and> contains w (su_RatingCenti (units ! i))" if "i \<in> T" for i
    using ok T(1) that by blast
  have sizesT: "1 \<le> ?size i \<and> ?size i \<le> ?n" if "i \<in> T" for i using okT [OF that] by blast
  note t = counts_props [OF fin(3) sizesT n(1), folded tneed_def] and elT = counts_eligible(1) [OF fin(3) okT n(1), folded tneed_def]
  let ?T = "all_taken units ?n w tneed"
  have peopleT: "people units ?T = ?n" using people_all_taken [OF elT t(1)] t(3) f by simp
  have "tneed ! k \<le> need ! k" if "k < 6" for k
  proof -
    have eqs: "tneed ! k = card {i \<in> T. ?size i = k}" "need ! k = card {i \<in> ?A. ?size i = k}" using t(2) c(2) that by simp_all
    show ?thesis unfolding eqs using T(1) fin(2) by (intro card_mono) auto
  qed
  then have "set (taken units ?n w tneed k) \<subseteq> set (taken units ?n w need k)" if "k < 6" for k
    using that unfolding taken_def by (intro set_take_subset_set_take) 
  then have subT: "?T \<subseteq> all_taken units ?n w need" by (auto simp: all_taken_def)
  have "0 \<notin> all_taken units ?n w need" by (auto simp: all_taken_def dest: taken_props(3))
  then have "people units (set (sl_members sel)) = ?size 0 + people units (all_taken units ?n w need)"
    unfolding set people_def by (simp add: sum.insert)
  also have "\<dots> = 2 * ?n" using people_all_taken [OF el(1) c(1)] c(3) A(2) by simp
  finally have both: "people units (set (sl_members sel)) = 2 * ?n" .
  have "?T \<subseteq> set (sl_members sel)" using subT set by auto
  from people_Un [OF _ this, of units] both peopleT have "people units (set (sl_members sel) - ?T) = ?n" by simp
  then have "\<exists>msk < 2 ^ (length (sl_members sel) - 1). split_choice units sel rule msk \<noteq> None"
    by (intro split_choice_for [OF m(4,2) _ _ peopleT refl refl gap]) (use subT m(3) in auto)
  with cand early show ?thesis by blast
qed

lemma collect_sorted: "sorted (map sl_last (collectSelections units n rated tol))"
proof -
  have "sorted (map fst (map (\<lambda>s. (sl_last s, sl_members s)) (sort_key (\<lambda>s. (sl_last s, sl_members s)) xs)))" for xs :: "selection list"
  proof -
    have "sorted ps \<Longrightarrow> sorted (map fst ps)" for ps :: "(nat \<times> nat list) list"
      by (induction ps) (auto simp: less_eq_prod_def)
    then show ?thesis using sorted_sort_key by blast
  qed
  then show ?thesis by (simp add: collectSelections_def Let_def o_def)
qed


section \<open>Witnesses\<close>

text \<open>A pair waits; the next in the queue is far stronger, so two single players make the other side.\<close>

definition demo_units :: "side_unit list" where
  "demo_units = [\<lparr>su_Size = 2, su_RatingCenti = 1000, su_WaitMs = 0\<rparr>, \<lparr>su_Size = 1, su_RatingCenti = 950, su_WaitMs = 0\<rparr>,
     \<lparr>su_Size = 2, su_RatingCenti = 5000, su_WaitMs = 0\<rparr>, \<lparr>su_Size = 1, su_RatingCenti = 1020, su_WaitMs = 0\<rparr>]"

definition demo_rule :: side_rule where
  "demo_rule = \<lparr>sr_PerSide = 2, sr_Rated = True, sr_ToleranceCenti = Tol 100, sr_GapStepMs = 0\<rparr>"


end
