(* ===== verification/PoolForm.thy ===== *)
theory PoolForm
  imports PoolPack PoolSidesProps
begin

text \<open>
  What the groups cut from a page satisfy: the pass over the anchors keeps all groups apart, and every group is one that the point
  of commit accepts.
\<close>

section \<open>A sound group\<close>

definition people_on :: "pool_unit list \<Rightarrow> pool_group \<Rightarrow> nat \<Rightarrow> nat" where
  "people_on units g side = sum_list (map (\<lambda>k. pu_size (units ! (pg_Units g ! k))) (filter (\<lambda>k. pg_Sides g ! k = side) [0..<length (pg_Units g)]))"

text \<open>The group is full, all its members reach the region, which can take a battle, and they accept the span of the group; nobody leaves
  the preferred region before the time; ratings are within the tolerance of the anchor; both sides are equal.\<close>

definition placed_group :: "pool_unit list \<Rightarrow> regions \<Rightarrow> pool_policy \<Rightarrow> pool_group \<Rightarrow> bool" where
  "placed_group units regions p g \<longleftrightarrow> pg_Units g \<noteq> [] \<and> set (pg_Units g) \<subseteq> {..<length units}
     \<and> sum_list (map (\<lambda>i. pu_size (units ! i)) (pg_Units g)) = po_Target p
     \<and> region_free regions (pg_Region g) \<and> (\<forall>i \<in> set (pg_Units g). map_of (pu_RTT (units ! i)) (pg_Region g) \<noteq> None)
     \<and> pg_MaxRTT g = Max ((\<lambda>i. rtt_to (units ! i) (pg_Region g)) ` set (pg_Units g))"

definition agreed_group :: "pool_unit list \<Rightarrow> u64 \<Rightarrow> pool_policy \<Rightarrow> pool_group \<Rightarrow> bool" where
  "agreed_group units now p g \<longleftrightarrow> Admit (po_Scope p) (map (\<lambda>i. pu_Members (units ! i)) (pg_Units g)) now = Some (pg_Level g)
     \<and> (pg_Cross g \<longleftrightarrow> (\<exists>i \<in> set (pg_Units g). pu_Preferred (units ! i) \<noteq> pg_Region g))
     \<and> (pg_Cross g \<and> 1 < length (pg_Units g) \<longrightarrow> (\<forall>i \<in> set (pg_Units g). \<forall>m \<in> set (pu_Members (units ! i)).
        po_CrossRegionAfterMs p \<le> WaitMs (sm_EnqueuedMs m) now))"

definition balanced_group :: "pool_unit list \<Rightarrow> u64 \<Rightarrow> pool_policy \<Rightarrow> pool_group \<Rightarrow> bool" where
  "balanced_group units now p g \<longleftrightarrow>
     (po_Rated p \<and> 1 < length (pg_Units g) \<longrightarrow> (\<forall>i \<in> set (pg_Units g). \<forall>j \<in> set (pg_Units g).
        within_tol (pu_RatingCenti (units ! i) - pu_RatingCenti (units ! j)) (anchor_tolerance p (unit_wait now (units ! hd (pg_Units g))))))
     \<and> (po_Sides p \<longrightarrow> length (pg_Sides g) = length (pg_Units g) \<and> people_on units g 0 = po_Target p div 2 \<and> people_on units g 1 = po_Target p div 2)"

definition sound_group :: "pool_unit list \<Rightarrow> regions \<Rightarrow> u64 \<Rightarrow> pool_policy \<Rightarrow> pool_group \<Rightarrow> bool" where
  "sound_group units regions now p g \<longleftrightarrow> placed_group units regions p g \<and> agreed_group units now p g \<and> balanced_group units now p g"

section \<open>Units that take part\<close>

lemma unit_wait_le: "m \<in> set (pu_Members u) \<Longrightarrow> unit_wait now u \<le> WaitMs (sm_EnqueuedMs m) now"
proof -
  have "fold (\<lambda>m w. min w (h m)) xs w \<le> w \<and> (\<forall>m \<in> set xs. fold (\<lambda>m w. min w (h m)) xs w \<le> h m)"
    for h :: "scope_member \<Rightarrow> u64" and xs w
    by (induction xs arbitrary: w) (auto, (meson min.cobounded1 min.cobounded2 order.trans)+)
  from this [of "\<lambda>m. WaitMs (sm_EnqueuedMs m) now" "pu_Members u" "- 1"]
  show "m \<in> set (pu_Members u) \<Longrightarrow> ?thesis" unfolding unit_wait_def by blast
qed

lemma prepare_fields [simp]:
  "fm_units (prepare units regions now p) = units" "fm_regions (prepare units regions now p) = regions"
  "fm_now (prepare units regions now p) = now" "fm_p (prepare units regions now p) = p"
  "length (fm_used (prepare units regions now p)) = length units" "i < length units \<Longrightarrow> \<not> fm_used (prepare units regions now p) ! i"
  by (simp_all add: prepare_def Let_def)

lemma prepare_order:
  "set (fm_order (prepare units regions now p)) = {..<length units}" "distinct (fm_order (prepare units regions now p))"
  by (auto simp: prepare_def Let_def distinct_sort)

lemma prepare_valid:
  assumes "i < length units" and "us_valid (fm_state (prepare units regions now p) ! i)"
  shows "\<not> shares_player units (units ! i)" and "1 \<le> pu_size (units ! i)" "pu_size (units ! i) \<le> po_Target p" "distinct (pu_Players (units ! i))"
    and "po_Rated p \<Longrightarrow> \<not> po_Sides p \<Longrightarrow> pu_size (units ! i) = 1" "po_Sides p \<Longrightarrow> pu_size (units ! i) \<le> po_Target p div 2"
    and "us_waitMs (fm_state (prepare units regions now p) ! i) = unit_wait now (units ! i)"
  using assms by (auto simp: prepare_def Let_def inspect_def no_state_def split: if_splits option.splits)

text \<open>No player is in two units that take part.\<close>

lemma owners_two:
  assumes "i < length units" "j < length units" "i \<noteq> j" "x \<in> set (pu_Players (units ! i))" "x \<in> set (pu_Players (units ! j))"
  shows "1 < owners units x"
proof -
  let ?c = "\<lambda>k. length (filter (\<lambda>q. q = x) (pu_Players (units ! k)))"
  have one: "1 \<le> ?c k" if "x \<in> set (pu_Players (units ! k))" for k
    using that by (metis (mono_tags, lifting) filter_empty_conv length_0_conv less_one not_le)
  have "owners units x = (\<Sum>k < length units. ?c k)"
    by (simp add: owners_def filter_concat length_concat o_def sum_list_sum_nth atLeast0LessThan)
  also have "\<dots> \<ge> (\<Sum>k \<in> {i, j}. ?c k)" using assms(1,2) by (intro sum_mono2) auto
  finally show ?thesis using one [OF assms(4)] one [OF assms(5)] assms(3) by simp
qed

lemma players_apart:
  assumes "distinct is" "\<And>i. i \<in> set is \<Longrightarrow> i < length units \<and> \<not> shares_player units (units ! i) \<and> distinct (pu_Players (units ! i))"
  shows "distinct (concat (map (\<lambda>i. pu_Players (units ! i)) is))"
  using assms
proof (induction "is")
  case (Cons i js)
  have "set (pu_Players (units ! i)) \<inter> set (pu_Players (units ! j)) = {}" if "j \<in> set js" for j
  proof (rule ccontr)
    assume "\<not> ?thesis"
    then obtain x where x: "x \<in> set (pu_Players (units ! i))" "x \<in> set (pu_Players (units ! j))" by blast
    have "1 < owners units x" using owners_two [OF _ _ _ x] Cons.prems that by auto
    then show False using Cons.prems(2) [of i] x(1) by (auto simp: shares_player_def list_ex_iff)
  qed
  then show ?case using Cons by auto
qed simp

section \<open>Packing\<close>

text \<open>What every way of packing gives.\<close>

definition packed :: "former \<Rightarrow> nat \<Rightarrow> nat list \<Rightarrow> tolerance \<Rightarrow> nat list \<Rightarrow> nat list \<Rightarrow> bool" where
  "packed f a peers tol ms sides \<longleftrightarrow> ms \<noteq> [] \<and> hd ms = a \<and> distinct ms \<and> set ms \<subseteq> set (a # peers)
     \<and> sum_list (map (\<lambda>i. pu_size (unit_at f i)) ms) = po_Target (fm_p f)
     \<and> (po_Rated (fm_p f) \<longrightarrow> (\<forall>i \<in> set ms. \<forall>j \<in> set ms. within_tol (pu_RatingCenti (unit_at f i) - pu_RatingCenti (unit_at f j)) tol))
     \<and> (po_Sides (fm_p f) \<longrightarrow> length sides = length ms \<and> (\<forall>side \<in> {0, 1}.
          sum_list (map (\<lambda>k. pu_size (unit_at f (ms ! k))) (filter (\<lambda>k. sides ! k = side) [0..<length ms])) = po_Target (fm_p f) div 2))"

lemma packFIFO_packed:
  assumes "packFIFO f a peers = Some ms" "\<not> po_Sides (fm_p f)" "\<not> po_Rated (fm_p f)" "distinct (a # peers)"
    and "pu_size (unit_at f a) < po_Target (fm_p f)" "\<forall>b \<in> set peers. 1 \<le> pu_size (unit_at f b)"
  shows "packed f a peers tol ms sides"
proof -
  from packFIFO_first [OF assms(5,6)] assms(1) obtain ys where ys: "ms = a # ys" "fills_group f a peers ys" by auto
  then have sub: "subseq ys peers" "sum_list (map (\<lambda>i. pu_size (unit_at f i)) ms) = po_Target (fm_p f)"
    by (auto simp: fills_group_def fills_def)
  have "set ys \<subseteq> set peers" "distinct ys" using sub(1) assms(4) by (auto simp: subseq_conv_nths dest: in_set_nthsD)
  then show ?thesis using ys(1) sub(2) assms(2-4) by (auto simp: packed_def)
qed

lemma spread_bounds: "finite S \<Longrightarrow> i \<in> S \<Longrightarrow> j \<in> S \<Longrightarrow> r i - r j \<le> spread_of r S"
  unfolding spread_of_def by (intro diff_mono) auto

lemma packRated_packed:
  assumes "packRated f a peers tol = Some ms" "\<not> po_Sides (fm_p f)" "distinct (a # peers)" "1 \<le> po_Target (fm_p f)"
    and "\<forall>b \<in> set (a # peers). pu_size (unit_at f b) = 1"
  shows "packed f a peers tol ms sides"
proof -
  from packRated_best [OF assms(3,4), of tol] assms(1)
  have ms: "hd ms = a" "distinct ms" and c: "rated_choice f a peers tol (set ms)" by auto
  note c = c [unfolded rated_choice_def]
  have "sum_list (map (\<lambda>i. pu_size (unit_at f i)) ms) = sum_list (map (\<lambda>_. 1) ms)"
    using c assms(5) by (intro arg_cong [where f = sum_list] map_cong) auto
  also have "\<dots> = po_Target (fm_p f)" using c ms(2) by (simp add: sum_list_triv distinct_card)
  finally have full: "sum_list (map (\<lambda>i. pu_size (unit_at f i)) ms) = po_Target (fm_p f)" .
  have "within_tol (pu_RatingCenti (unit_at f i) - pu_RatingCenti (unit_at f j)) tol" if "i \<in> set ms" "j \<in> set ms" for i j
    using within_mono [OF _ spread_bounds [of "set ms" i j "\<lambda>i. pu_RatingCenti (unit_at f i)"]] c that by simp
  then show ?thesis using ms c full assms(2) by (auto simp: packed_def)
qed

text \<open>The people of a side, counted along the list and as a set.\<close>

lemma sum_side:
  assumes "distinct xs"
  shows "sum_list (map (\<lambda>k. h (xs ! k)) (filter P [0..<length xs])) = (\<Sum>x \<in> {xs ! k |k. k < length xs \<and> P k}. h x)"
proof -
  have "sum_list (map (\<lambda>k. h (xs ! k)) (filter P [0..<length xs])) = (\<Sum>k \<in> {k. k < length xs \<and> P k}. h (xs ! k))"
    by (subst sum_list_distinct_conv_sum_set) (auto intro: sum.cong)
  also have "\<dots> = (\<Sum>x \<in> (!) xs ` {k. k < length xs \<and> P k}. h x)"
    by (subst sum.reindex) (use assms in \<open>auto simp: inj_on_def nth_eq_iff_index_eq\<close>)
  also have "(!) xs ` {k. k < length xs \<and> P k} = {xs ! k |k. k < length xs \<and> P k}" by auto
  finally show ?thesis .
qed

lemma packSides_packed:
  assumes pack: "packSides f a peers tol = Some (ms, sides)" and "po_Sides (fm_p f)" "distinct (a # peers)" "po_Target (fm_p f) mod 2 = 0"
  shows "packed f a peers tol ms sides"
proof -
  let ?order = "a # peers" let ?n = "po_Target (fm_p f) div 2"
  define us where "us = map (\<lambda>u. \<lparr>su_Size = pu_size (unit_at f u), su_RatingCenti = pu_RatingCenti (unit_at f u), su_WaitMs = us_waitMs (state_at f u)\<rparr>) ?order"
  define rule where "rule = \<lparr>sr_PerSide = ?n, sr_Rated = po_Rated (fm_p f), sr_ToleranceCenti = tol, sr_GapStepMs = po_PremadeGapStepMs (fm_p f)\<rparr>"
  from pack obtain picked where pk: "pickSides us rule = Some (picked, sides)" "ms = map ((!) ?order) picked"
    unfolding packSides_def us_def rule_def Let_def by (auto split: option.splits prod.splits)
  define T where "T = {picked ! i |i. i < length picked \<and> sides ! i = 1}"
  from pickSides_sound [OF pk(1)] have fair: "fair_match us rule (set picked) T" and d: "distinct picked" "sorted picked"
    and len: "length sides = length picked" "set sides \<subseteq> {0, 1}" by (auto simp: T_def)
  note fm = fair [unfolded fair_match_def]
  have lt: "i < length ?order" if "i \<in> set picked" for i using that fm by (auto simp: us_def)
  have size: "su_Size (us ! i) = pu_size (unit_at f (?order ! i))" "su_RatingCenti (us ! i) = pu_RatingCenti (unit_at f (?order ! i))"
    if "i \<in> set picked" for i using lt [OF that] by (simp_all add: us_def del: list.map)
  have ones: "{picked ! k |k. k < length picked \<and> sides ! k = side} = (if side = 1 then T else set picked - T)" if "side \<in> {0, 1}" for side
    using that len d(1) by (auto simp: T_def in_set_conv_nth nth_eq_iff_index_eq) (metis One_nat_def insertE nth_mem singletonD subsetD)
  have "sum_list (map (\<lambda>k. pu_size (unit_at f (ms ! k))) (filter (\<lambda>k. sides ! k = side) [0..<length ms]))
      = sum_list (map (\<lambda>k. su_Size (us ! (picked ! k))) (filter (\<lambda>k. sides ! k = side) [0..<length picked]))" for side
    by (intro arg_cong [where f = sum_list] map_cong) (auto simp: pk(2) size)
  also have "\<dots> side = people us {picked ! k |k. k < length picked \<and> sides ! k = side}" for side
    unfolding people_def by (rule sum_side [OF d(1)])
  finally have side: "\<forall>side \<in> {0, 1}. sum_list (map (\<lambda>k. pu_size (unit_at f (ms ! k))) (filter (\<lambda>k. sides ! k = side) [0..<length ms])) = ?n"
    using ones fm by (simp add: rule_def)
  have "sum_list (map (\<lambda>i. pu_size (unit_at f i)) ms) = sum_list (map (\<lambda>i. su_Size (us ! i)) picked)"
    unfolding pk(2) map_map o_def by (intro arg_cong [where f = sum_list] map_cong) (auto simp: size)
  also have "\<dots> = people us (set picked)" unfolding people_def using d(1) by (simp add: sum_list_distinct_conv_sum_set)
  also have "\<dots> = people us (set picked - T) + people us T" using fm by (intro people_Un) auto
  also have "\<dots> = po_Target (fm_p f)" using fm assms(4) by (auto simp: rule_def)
  finally have full: "sum_list (map (\<lambda>i. pu_size (unit_at f i)) ms) = po_Target (fm_p f)" .
  have "0 \<in> set picked" using fm by blast
  then have "picked \<noteq> []" "hd picked = 0" using d(2) by (cases picked; auto)+
  then have hd: "ms \<noteq> []" "hd ms = a" by (auto simp: pk(2) hd_map)
  have inj: "distinct ms" unfolding pk(2) distinct_map
    using d(1) lt assms(3) by (auto simp: inj_on_def nth_eq_iff_index_eq simp del: nth_Cons_0 distinct.simps)
  have sub: "set ms \<subseteq> set ?order" unfolding pk(2) using lt nth_mem by (fastforce simp del: list.set)
  have rated: "within_tol (pu_RatingCenti (unit_at f i) - pu_RatingCenti (unit_at f j)) tol" if "po_Rated (fm_p f)" "i \<in> set ms" "j \<in> set ms" for i j
    using that fm size(2) by (cases tol) (auto simp: pk(2) rule_def)
  show ?thesis unfolding packed_def using hd inj sub full rated side len(1) by (simp add: pk(2))
qed

section \<open>A group around an anchor\<close>

text \<open>The state of a pass: the prepared page, with some units used.\<close>

definition page_state :: "pool_unit list \<Rightarrow> regions \<Rightarrow> u64 \<Rightarrow> pool_policy \<Rightarrow> former \<Rightarrow> bool" where
  "page_state units regions now p f \<longleftrightarrow> length (fm_used f) = length units \<and> f = (prepare units regions now p)\<lparr>fm_used := fm_used f\<rparr>"

lemma page_fields:
  assumes "page_state units regions now p f"
  shows "fm_units f = units" "fm_regions f = regions" "fm_now f = now" "fm_p f = p"
    "fm_order f = fm_order (prepare units regions now p)" "fm_state f = fm_state (prepare units regions now p)"
    "length (fm_used f) = length units"
proof -
  from assms have f: "f = (prepare units regions now p)\<lparr>fm_used := fm_used f\<rparr>" and len: "length (fm_used f) = length units"
    by (simp_all add: page_state_def)
  show "fm_units f = units" "fm_regions f = regions" "fm_now f = now" "fm_p f = p"
    "fm_order f = fm_order (prepare units regions now p)" "fm_state f = fm_state (prepare units regions now p)"
    by (subst f, simp)+
  show "length (fm_used f) = length units" by (rule len)
qed

lemma candidates_ok:
  assumes "page_state units regions now p f" "b \<in> set (candidates f a level cross tol region)"
  shows "b < length units" "b \<noteq> a" "free_unit f b" "map_of (pu_RTT (units ! b)) region \<noteq> None"
    "cross \<Longrightarrow> po_CrossRegionAfterMs p \<le> us_waitMs (fm_state f ! b)" "\<not> cross \<Longrightarrow> pu_Preferred (units ! b) = pu_Preferred (units ! a)"
proof -
  note fields = page_fields [OF assms(1)]
  have b: "b \<in> set (fm_order f)" "candidate_ok f a level cross tol region b"
    using in_set_takeD [OF assms(2) [unfolded candidates_def]] by simp_all
  from b(1) show "b < length units" unfolding fields prepare_order by simp
  from b(2) show "b \<noteq> a" "free_unit f b" "map_of (pu_RTT (units ! b)) region \<noteq> None"
    "cross \<Longrightarrow> po_CrossRegionAfterMs p \<le> us_waitMs (fm_state f ! b)" "\<not> cross \<Longrightarrow> pu_Preferred (units ! b) = pu_Preferred (units ! a)"
    unfolding candidate_ok_def Let_def fields(1,4) by (simp_all add: not_less)
qed

lemma candidates_distinct:
  assumes "page_state units regions now p f"
  shows "distinct (a # candidates f a level cross tol region)"
proof -
  have "distinct (candidates f a level cross tol region)"
    unfolding candidates_def by (intro distinct_take distinct_filter) (simp add: page_fields [OF assms] prepare_order)
  then show ?thesis using candidates_ok(2) [OF assms] by fastforce
qed

lemma page_valid:
  assumes "page_state units regions now p f" "i < length units" "free_unit f i"
  shows "us_valid (fm_state (prepare units regions now p) ! i)"
  using assms(3) by (simp add: free_unit_def page_fields [OF assms(1)])

lemma candidates_packed:
  assumes page: "page_state units regions now p f" and a: "a < length units" "free_unit f a"
    and small: "pu_size (units ! a) \<noteq> po_Target p" and even: "po_Sides p \<longrightarrow> po_Target p mod 2 = 0"
    and pack: "pack f a (candidates f a level cross tol region) tol = Some (ms, sides)"
  shows "packed f a (candidates f a level cross tol region) tol ms sides"
proof -
  let ?peers = "candidates f a level cross tol region"
  note fields = page_fields [OF page]
  note d = candidates_distinct [OF page, of a level cross tol region]
  have valid: "us_valid (fm_state (prepare units regions now p) ! b)" "b < length units" if "b \<in> set (a # ?peers)" for b
    using that a page_valid [OF page] candidates_ok [OF page] by auto
  have size: "1 \<le> pu_size (unit_at f b)" if "b \<in> set (a # ?peers)" for b
    using prepare_valid(2) [OF valid(2) [OF that] valid(1) [OF that]] by (simp add: fields)
  have below: "pu_size (unit_at f a) < po_Target (fm_p f)" using prepare_valid(3) [OF valid(2) [of a] valid(1) [of a]] small by (simp add: fields)
  consider "po_Sides p" | "\<not> po_Sides p" "po_Rated p" | "\<not> po_Sides p" "\<not> po_Rated p" by blast
  then show ?thesis
  proof cases
    case 1
    then show ?thesis using pack packSides_packed [OF _ _ d] even by (simp add: pack_def fields)
  next
    case 2
    have "\<forall>b \<in> set (a # ?peers). pu_size (unit_at f b) = 1"
      unfolding fields using prepare_valid(5) [OF valid(2) valid(1) 2(2,1)] by blast
    then show ?thesis using pack 2 packRated_packed [OF _ _ d] below by (auto simp: pack_def fields)
  next
    case 3
    then show ?thesis using pack packFIFO_packed [OF _ _ _ d below] size by (auto simp: pack_def fields)
  qed
qed

text \<open>A group of strangers comes from one level, one region and one packing.\<close>

definition made_group :: "former \<Rightarrow> nat \<Rightarrow> level \<Rightarrow> bool \<Rightarrow> tolerance \<Rightarrow> pool_group \<Rightarrow> bool" where
  "made_group f a level cross tol g \<longleftrightarrow> pg_Region g \<in> set (regionsFor f (unit_at f a) cross)
     \<and> pack f a (candidates f a level cross tol (pg_Region g)) tol = Some (pg_Units g, pg_Sides g)
     \<and> pg_MaxRTT g = maxRTT f (pg_Units g) (pg_Region g)"

lemma best_region_made:
  assumes "best_region f a level cross tol = Some g"
  shows "made_group f a level cross tol g"
proof -
  let ?step = "\<lambda>region best. case region_group f a level cross tol region of None \<Rightarrow> best
    | Some g \<Rightarrow> (case best of None \<Rightarrow> Some g | Some b \<Rightarrow> if group_better g b (fm_units f) then Some g else best)"
  have "fold ?step rs best = Some g \<Longrightarrow> best = Some g \<or> (\<exists>r \<in> set rs. region_group f a level cross tol r = Some g)" for rs best
  proof (induction rs arbitrary: best)
    case (Cons r rs)
    from Cons.IH [of "?step r best"] Cons.prems show ?case by (auto split: option.splits if_splits)
  qed simp
  from this [of "regionsFor f (unit_at f a) cross" None] assms
  obtain r where "r \<in> set (regionsFor f (unit_at f a) cross)" "region_group f a level cross tol r = Some g" by (auto simp: best_region_def)
  then show ?thesis by (auto simp: region_group_def made_group_def split: option.splits prod.splits)
qed

lemma try_levels_made:
  assumes "try_levels f a cross tol levels = Some g"
  shows "\<exists>level. made_group f a level cross tol g \<and> admit f (pg_Units g) = Some (pg_Level g)
    \<and> (pg_Cross g \<longleftrightarrow> (\<exists>i \<in> set (pg_Units g). pu_Preferred (unit_at f i) \<noteq> pg_Region g))"
  using assms
proof (induction levels)
  case (Cons level levels)
  show ?case
  proof (cases "try_levels f a cross tol levels = Some g")
    case False
    with Cons.prems obtain best l where best: "best_region f a level cross tol = Some best" "admit f (pg_Units best) = Some l"
      and g: "g = best\<lparr>pg_Level := l, pg_Cross := list_ex (\<lambda>i. pu_Preferred (unit_at f i) \<noteq> pg_Region best) (pg_Units best)\<rparr>"
      by (auto split: option.splits if_splits)
    then show ?thesis using best_region_made [OF best(1)] by (auto simp: made_group_def list_ex_iff)
  qed (rule Cons.IH)
qed simp

lemma maxRTT_Max:
  assumes "ms \<noteq> []"
  shows "maxRTT f ms region = Max ((\<lambda>i. rtt_to (unit_at f i) region) ` set ms)"
proof -
  have "fold (\<lambda>i w. max w (h i)) xs w = Max (insert w (h ` set xs))" for h :: "nat \<Rightarrow> u32" and xs w
  proof -
    have "(\<lambda>i w. max w (h i)) = max \<circ> h" by (auto simp: fun_eq_iff max.commute)
    then have "fold (\<lambda>i w. max w (h i)) xs w = fold max (map h xs) w" by (simp add: fold_map)
    also have "\<dots> = Max (set (w # map h xs))" by (simp only: Max.set_eq_fold)
    finally show ?thesis by simp
  qed
  then have "maxRTT f ms region = Max (insert 0 ((\<lambda>i. rtt_to (unit_at f i) region) ` set ms))" by (simp add: maxRTT_def)
  also have "\<dots> = Max ((\<lambda>i. rtt_to (unit_at f i) region) ` set ms)" using assms by (subst Max_insert) (auto simp: max_def)
  finally show ?thesis .
qed

lemma placeAlone_place:
  assumes "placeAlone f u = Some (region, rtt)" "distinct (map fst (pu_RTT u))"
  shows "region_free (fm_regions f) region \<and> map_of (pu_RTT u) region = Some rtt"
proof -
  define ok where "ok = (\<lambda>res :: u32 \<times> u32. fst res = 0 \<or> res \<in> set (pu_RTT u) \<and> region_free (fm_regions f) (fst res))"
  have step: "ok (alone_step (fm_regions f) x res)" if "ok res" "x \<in> set (pu_RTT u)" for x res
    using that by (cases x; cases res) (auto simp: ok_def alone_step_def)
  have "ok res \<Longrightarrow> set xs \<subseteq> set (pu_RTT u) \<Longrightarrow> ok (fold (alone_step (fm_regions f)) xs res)" for xs res
    by (induction xs arbitrary: res) (simp_all add: step)
  then have "ok (fold (alone_step (fm_regions f)) (pu_RTT u) (0, 0))" by (simp add: ok_def)
  with assms show ?thesis by (auto simp: ok_def placeAlone_def Let_def split: option.splits if_splits prod.splits)
qed

lemma regionsFor_place:
  assumes "region \<in> set (regionsFor f (unit_at f a) cross)" "canAnchor f a cross" "pu_size (unit_at f a) \<noteq> po_Target (fm_p f)"
  shows "region_free (fm_regions f) region" "map_of (pu_RTT (unit_at f a)) region \<noteq> None" "\<not> cross \<Longrightarrow> region = pu_Preferred (unit_at f a)"
  using assms by (auto simp: regionsFor_def canAnchor_def Let_def map_of_eq_None_iff split: if_splits)

text \<open>Who is in a group around an anchor: units that take part and were free.\<close>

lemma formAround_units:
  assumes page: "page_state units regions now p f" and a: "a < length units" "free_unit f a" and even: "po_Sides p \<longrightarrow> po_Target p mod 2 = 0"
    and form: "formAround f a cross = Some g"
  shows "distinct (pg_Units g)" "\<And>i. i \<in> set (pg_Units g) \<Longrightarrow> i < length units \<and> free_unit f i"
proof -
  note fields = page_fields [OF page]
  have "distinct (pg_Units g) \<and> (\<forall>i \<in> set (pg_Units g). i < length units \<and> free_unit f i)"
  proof (cases "pu_size (units ! a) = po_Target p")
    case True
    with form have "pg_Units g = [a]" by (auto simp: formAround_def fields Let_def split: option.splits)
    then show ?thesis using a by simp
  next
    case False
    with form obtain tol levels where "try_levels f a cross tol levels = Some g" by (auto simp: formAround_def fields Let_def split: if_splits)
    from try_levels_made [OF this] obtain level where made: "made_group f a level cross tol g" by blast
    then have "packed f a (candidates f a level cross tol (pg_Region g)) tol (pg_Units g) (pg_Sides g)"
      using candidates_packed [OF page a False even] by (auto simp: made_group_def)
    then show ?thesis using a candidates_ok(1,3) [OF page] by (auto simp: packed_def)
  qed
  then show "distinct (pg_Units g)" "\<And>i. i \<in> set (pg_Units g) \<Longrightarrow> i < length units \<and> free_unit f i" by auto
qed

lemma alone_sound:
  assumes page: "page_state units regions now p f" and a: "a < length units" "free_unit f a" and full: "pu_size (units ! a) = po_Target p"
    and form: "formAround f a cross = Some g" and keys: "distinct (map fst (pu_RTT (units ! a)))"
  shows "sound_group units regions now p g"
proof -
  note fields = page_fields [OF page] and v = prepare_valid [OF a(1) page_valid [OF page a]]
  from form full obtain region rtt level where place: "placeAlone f (units ! a) = Some (region, rtt)" and adm: "admit f [a] = Some level"
    and g: "g = \<lparr>pg_Units = [a], pg_Sides = [], pg_Region = region, pg_Level = level, pg_Cross = (region \<noteq> pu_Preferred (units ! a)), pg_MaxRTT = rtt\<rparr>"
    by (auto simp: formAround_def fields Let_def split: option.splits)
  from placeAlone_place [OF place keys] have "region_free regions region" "map_of (pu_RTT (units ! a)) region = Some rtt" by (simp_all add: fields)
  then have "placed_group units regions p g" using a(1) full by (simp add: placed_group_def g rtt_to_def)
  moreover have "agreed_group units now p g" using adm by (auto simp: agreed_group_def g admit_def fields)
  moreover have "balanced_group units now p g" using v(2,6) full by (auto simp: balanced_group_def g)
  ultimately show ?thesis by (simp add: sound_group_def)
qed

lemma strangers_sound:
  assumes page: "page_state units regions now p f" and a: "a < length units" "free_unit f a" and can: "canAnchor f a cross"
    and small: "pu_size (units ! a) \<noteq> po_Target p" and even: "po_Sides p \<longrightarrow> po_Target p mod 2 = 0"
    and tried: "try_levels f a cross (anchor_tolerance p (us_waitMs (fm_state f ! a))) levels = Some g"
  shows "sound_group units regions now p g"
proof -
  note fields = page_fields [OF page]
  let ?tol = "anchor_tolerance p (us_waitMs (fm_state f ! a))"
  from try_levels_made [OF tried] obtain level where made: "made_group f a level cross ?tol g" and adm: "admit f (pg_Units g) = Some (pg_Level g)"
    and crs: "pg_Cross g \<longleftrightarrow> (\<exists>i \<in> set (pg_Units g). pu_Preferred (units ! i) \<noteq> pg_Region g)" unfolding fields by blast
  let ?peers = "candidates f a level cross ?tol (pg_Region g)"
  note pk = candidates_packed [OF page a small even, of level cross ?tol "pg_Region g", unfolded packed_def fields(1,4)]
  from made have "pack f a ?peers ?tol = Some (pg_Units g, pg_Sides g)" by (simp add: made_group_def)
  note pk = pk [OF this]
  have member: "i = a \<or> i \<in> set ?peers" if "i \<in> set (pg_Units g)" for i using that pk by auto
  note region = regionsFor_place [OF _ can] and cand = candidates_ok [OF page, of _ a level cross ?tol "pg_Region g"]
  have "pg_Region g \<in> set (regionsFor f (unit_at f a) cross)" using made by (simp add: made_group_def)
  note region = region [OF this, unfolded fields(1,2,4), OF small]
  have reach: "map_of (pu_RTT (units ! i)) (pg_Region g) \<noteq> None" "i < length units" "free_unit f i" if "i \<in> set (pg_Units g)" for i
    using member [OF that] region(2) cand a by blast+
  have wait: "us_waitMs (fm_state f ! i) = unit_wait now (units ! i)" if "i \<in> set (pg_Units g)" for i
    using prepare_valid(7) [OF reach(2) [OF that] page_valid [OF page reach(2,3) [OF that]]] by (simp add: fields)
  have "placed_group units regions p g"
    using pk reach region(1) made maxRTT_Max [of "pg_Units g" f "pg_Region g"] by (auto simp: placed_group_def made_group_def fields)
  moreover have "agreed_group units now p g"
  proof -
    have "po_CrossRegionAfterMs p \<le> WaitMs (sm_EnqueuedMs m) now" if c: "pg_Cross g" "i \<in> set (pg_Units g)" "m \<in> set (pu_Members (units ! i))" for i m
    proof -
      have "cross" using c(1) crs member cand(6) region(3) by metis
      then have "po_CrossRegionAfterMs p \<le> us_waitMs (fm_state f ! i)"
        using member [OF c(2)] cand(5) can small by (auto simp: canAnchor_def Let_def fields split: if_splits)
      also have "\<dots> \<le> WaitMs (sm_EnqueuedMs m) now" unfolding wait [OF c(2)] by (rule unit_wait_le [OF c(3)])
      finally show ?thesis .
    qed
    then show ?thesis using adm crs by (simp add: agreed_group_def admit_def fields)
  qed
  moreover have "balanced_group units now p g"
    using pk wait [of a] by (auto simp: balanced_group_def people_on_def dest: hd_in_set)
  ultimately show ?thesis by (simp add: sound_group_def)
qed

lemma formAround_sound:
  assumes "page_state units regions now p f" "a < length units" "free_unit f a" "canAnchor f a cross" "po_Sides p \<longrightarrow> po_Target p mod 2 = 0"
    and "formAround f a cross = Some g" "distinct (map fst (pu_RTT (units ! a)))"
  shows "sound_group units regions now p g"
proof (cases "pu_size (units ! a) = po_Target p")
  case True
  then show ?thesis using alone_sound assms by blast
next
  case False
  with assms(6) have "try_levels f a cross (anchor_tolerance p (us_waitMs (fm_state f ! a))) [LevelZone..<Suc (us_allowed (state_at f a))] = Some g"
    by (auto simp: formAround_def page_fields [OF assms(1)] Let_def split: if_splits)
  then show ?thesis using strangers_sound [OF assms(1-4) False assms(5)] by blast
qed

section \<open>The passes\<close>

definition pass_inv :: "pool_unit list \<Rightarrow> regions \<Rightarrow> u64 \<Rightarrow> pool_policy \<Rightarrow> former \<times> pool_group list \<Rightarrow> bool" where
  "pass_inv units regions now p = (\<lambda>(f, out). page_state units regions now p f \<and> distinct (concat (map pg_Units out))
     \<and> (\<forall>i \<in> set (concat (map pg_Units out)). i < length units \<and> fm_used f ! i \<and> us_valid (fm_state (prepare units regions now p) ! i)))"

lemma take_group_used:
  assumes "page_state units regions now p f" "set (pg_Units g) \<subseteq> {..<length units}"
  shows "page_state units regions now p (take_group f g)" "i < length units \<Longrightarrow> fm_used (take_group f g) ! i \<longleftrightarrow> i \<in> set (pg_Units g) \<or> fm_used f ! i"
proof -
  have len: "length (fold (\<lambda>i used. used[i := True]) is used) = length used" for "is" and used :: "bool list"
    by (induction "is" arbitrary: used) simp_all
  have at: "k < length used \<Longrightarrow> fold (\<lambda>i used. used[i := True]) is used ! k \<longleftrightarrow> k \<in> set is \<or> used ! k" for k "is" and used :: "bool list"
  proof (induction "is" arbitrary: used)
    case (Cons i js)
    have "used[i := True] ! k \<longleftrightarrow> k = i \<or> used ! k" using Cons.prems by (cases "k = i") simp_all
    then show ?case using Cons by auto
  qed simp
  from assms(1) have f: "f = (prepare units regions now p)\<lparr>fm_used := fm_used f\<rparr>" by (simp add: page_state_def)
  show "page_state units regions now p (take_group f g)"
    unfolding page_state_def take_group_def using page_fields(7) [OF assms(1)] by (subst (3) f) (simp add: len)
  show "i < length units \<Longrightarrow> fm_used (take_group f g) ! i \<longleftrightarrow> i \<in> set (pg_Units g) \<or> fm_used f ! i"
    using page_fields(7) [OF assms(1)] by (simp add: take_group_def at)
qed

lemma pass_inv_take:
  assumes inv: "pass_inv units regions now p (f, out)" and "distinct (pg_Units g)" "\<And>i. i \<in> set (pg_Units g) \<Longrightarrow> i < length units \<and> free_unit f i"
  shows "pass_inv units regions now p (take_group f g, out @ [g])"
proof -
  from inv have page: "page_state units regions now p f" and d: "distinct (concat (map pg_Units out))"
    and out: "\<And>i. i \<in> set (concat (map pg_Units out)) \<Longrightarrow> i < length units \<and> fm_used f ! i \<and> us_valid (fm_state (prepare units regions now p) ! i)"
    by (auto simp: pass_inv_def)
  have "set (pg_Units g) \<subseteq> {..<length units}" using assms(3) by auto
  note used = take_group_used [OF page this]
  have "set (concat (map pg_Units out)) \<inter> set (pg_Units g) = {}" using out assms(3) by (fastforce simp: free_unit_def)
  then have "distinct (concat (map pg_Units (out @ [g])))" using d assms(2) by simp
  moreover have "i < length units \<and> fm_used (take_group f g) ! i \<and> us_valid (fm_state (prepare units regions now p) ! i)"
    if "i \<in> set (concat (map pg_Units (out @ [g])))" for i
  proof (cases "i \<in> set (pg_Units g)")
    case True
    then show ?thesis using assms(3) used(2) page_valid [OF page] by blast
  next
    case False
    then have "i \<in> set (concat (map pg_Units out))" using that by simp
    then show ?thesis using out used(2) by blast
  qed
  ultimately show ?thesis using used(1) unfolding pass_inv_def by blast
qed

lemma form_pass_inv:
  assumes "pass_inv units regions now p (f, out)" "set anchors \<subseteq> {..<length units}" and even: "po_Sides p \<longrightarrow> po_Target p mod 2 = 0"
  shows "pass_inv units regions now p (form_pass cross maxAnchors tried anchors (f, out))
    \<and> ((\<forall>u \<in> set units. distinct (map fst (pu_RTT u))) \<longrightarrow> (\<forall>g \<in> set out. sound_group units regions now p g) \<longrightarrow>
       (\<forall>g \<in> set (snd (form_pass cross maxAnchors tried anchors (f, out))). sound_group units regions now p g))"
  using assms(1,2)
proof (induction anchors arbitrary: f out tried)
  case (Cons a anchors)
  show ?case
  proof (cases "tried < maxAnchors \<and> free_unit f a \<and> canAnchor f a cross \<and> formAround f a cross \<noteq> None")
    case False
    then show ?thesis using Cons.prems Cons.IH [OF Cons.prems(1)] by (auto split: option.splits)
  next
    case True
    then obtain g where g: "formAround f a cross = Some g" and free: "free_unit f a" "canAnchor f a cross" by blast
    from Cons.prems have page: "page_state units regions now p f" and a: "a < length units" by (auto simp: pass_inv_def)
    note u = formAround_units [OF page a free(1) even g]
    note step = Cons.IH [OF pass_inv_take [OF Cons.prems(1) u], of "tried + 1"]
    have "sound_group units regions now p g" if "\<forall>u \<in> set units. distinct (map fst (pu_RTT u))"
      using formAround_sound [OF page a free even g] that a by simp
    then show ?thesis using True g step Cons.prems(2) by auto
  qed
qed simp

lemma Form_passes:
  assumes "Form units regions now p \<noteq> []"
  shows "po_Sides p \<longrightarrow> po_Target p mod 2 = 0"
    and "\<exists>m. Form units regions now p = snd (form_pass True m 0 (fm_order (prepare units regions now p))
       (form_pass False m 0 (fm_order (prepare units regions now p)) (prepare units regions now p, [])))"
  using assms by (auto simp: Form_def Let_def split: if_splits)

lemma Form_inv:
  assumes "Form units regions now p \<noteq> []"
  shows "\<exists>f. pass_inv units regions now p (f, Form units regions now p)"
    and "\<forall>u \<in> set units. distinct (map fst (pu_RTT u)) \<Longrightarrow> g \<in> set (Form units regions now p) \<Longrightarrow> sound_group units regions now p g"
proof -
  let ?f = "prepare units regions now p"
  obtain m where form: "Form units regions now p = snd (form_pass True m 0 (fm_order ?f) (form_pass False m 0 (fm_order ?f) (?f, [])))"
    using Form_passes(2) [OF assms] by blast
  obtain f1 out1 where one: "form_pass False m 0 (fm_order ?f) (?f, []) = (f1, out1)" by fastforce
  have "pass_inv units regions now p (?f, [])" by (simp add: pass_inv_def page_state_def)
  from form_pass_inv [OF this _ Form_passes(1) [OF assms], of "fm_order ?f" False m 0] one
  have inv1: "pass_inv units regions now p (f1, out1)"
    and sound1: "\<forall>u \<in> set units. distinct (map fst (pu_RTT u)) \<Longrightarrow> \<forall>g \<in> set out1. sound_group units regions now p g"
    by (simp_all add: prepare_order)
  note two = form_pass_inv [OF inv1 _ Form_passes(1) [OF assms], of "fm_order ?f" True m 0]
  show "\<exists>f. pass_inv units regions now p (f, Form units regions now p)"
    using two unfolding form one by (simp add: prepare_order) (metis prod.collapse)
  show "\<forall>u \<in> set units. distinct (map fst (pu_RTT u)) \<Longrightarrow> g \<in> set (Form units regions now p) \<Longrightarrow> sound_group units regions now p g"
    using two sound1 unfolding form one by (simp add: prepare_order)
qed

text \<open>C11: Whatever the page, no unit and no player is in two of the groups cut from it, nor twice in one.\<close>

theorem Form_disjoint:
  "distinct (concat (map pg_Units (Form units regions now p)))
   \<and> distinct (concat (map (\<lambda>i. pu_Players (units ! i)) (concat (map pg_Units (Form units regions now p)))))"
proof (cases "Form units regions now p = []")
  case False
  from Form_inv(1) [OF this] have d: "distinct (concat (map pg_Units (Form units regions now p)))"
    and ok: "\<And>i. i \<in> set (concat (map pg_Units (Form units regions now p))) \<Longrightarrow> i < length units \<and> us_valid (fm_state (prepare units regions now p) ! i)"
    by (auto simp: pass_inv_def)
  then show ?thesis using players_apart [OF d] prepare_valid(1,4) by blast
qed simp



end
