(* ===== verification/PoolCommit.thy ===== *)
theory PoolCommit
  imports PoolForm Placement "HOL-Library.AList"
begin

text \<open>
  From tickets to groups and from groups to the point of commit: the rules of ratings (\<^verbatim>\<open>src/go/match/internal/ratingrule\<close>), the
  probes of regions (\<^verbatim>\<open>authority/probe.go\<close>), the page of a pool (\<^verbatim>\<open>logic/global_pool_matcher.go\<close>) and the rules of the queue that
  the commit checks again on the locked tickets (\<^verbatim>\<open>authority/match_rules.go\<close>, \<^verbatim>\<open>rated_spread.go\<close> and \<^verbatim>\<open>claimTx\<close> of \<^verbatim>\<open>store.go\<close>).
  Ratings are integers and floats exact, as in \<open>PoolSides\<close>; the decoding of a network profile comes with the ticket.
\<close>

section \<open>Ratings\<close>

type_synonym match_mode = nat

abbreviation (input) MODE_5V5 :: match_mode where "MODE_5V5 \<equiv> 1"
abbreviation (input) MODE_1V1 :: match_mode where "MODE_1V1 \<equiv> 3"
abbreviation (input) MODE_PVE_TEAM :: match_mode where "MODE_PVE_TEAM \<equiv> 5"
abbreviation (input) MODE_PVP_TEAM :: match_mode where "MODE_PVP_TEAM \<equiv> 7"

definition Rated_mode :: "match_mode \<Rightarrow> bool" where
  "Rated_mode mode = (mode \<in> set [MODE_5V5, MODE_1V1, MODE_PVP_TEAM])"

record rating_curve =
  cv_Base :: int
  cv_StepSeconds :: int
  cv_StepDelta :: int
  cv_Max :: int
  cv_MaxWaitSeconds :: int

definition orDefault :: "int \<Rightarrow> int \<Rightarrow> int" where
  "orDefault v fallback = (if v \<le> 0 then fallback else v)"

definition Tolerance :: "rating_curve \<Rightarrow> int \<Rightarrow> rat" where
  "Tolerance c waitSeconds =
     (let base = orDefault (cv_Base c) 100; step = orDefault (cv_StepSeconds c) 5; delta = orDefault (cv_StepDelta c) 100;
          limit = orDefault (cv_Max c) 1000; w = (if waitSeconds < 0 then 0 else waitSeconds) in
      min (of_int limit) (of_int base + of_int (w div step) * of_int delta))"

definition MaxWait :: "rating_curve \<Rightarrow> int" where "MaxWait c = orDefault (cv_MaxWaitSeconds c) 90"

definition Anchor :: "rating_curve \<Rightarrow> int \<Rightarrow> tolerance" where
  "Anchor c waitSeconds = (if waitSeconds \<ge> MaxWait c then TolInf else Tol (Tolerance c waitSeconds))"

fun centi :: "tolerance \<Rightarrow> tolerance" where
  "centi (Tol t) = Tol (t * 100)"
| "centi TolInf = TolInf"
| "centi TolNaN = TolNaN"

definition AnchorCenti :: "rating_curve \<Rightarrow> u64 \<Rightarrow> tolerance" where
  "AnchorCenti c waitMs =
     (let seconds = waitMs div 1000 in if seconds > 2 ^ 63 - 1 then TolInf else centi (Anchor c (uint seconds)))"

text \<open>\<open>math.Round\<close>: halves away from zero.\<close>

definition Round :: "rat \<Rightarrow> int" where
  "Round q = (if q < 0 then - \<lfloor>- q + 1 / 2\<rfloor> else \<lfloor>q + 1 / 2\<rfloor>)"

definition UnitCenti :: "int list \<Rightarrow> int \<Rightarrow> int" where
  "UnitCenti members bonusPerMemberCenti =
     (if members = [] then 0
      else Round (of_int (sum_list members) / of_nat (length members)) + bonusPerMemberCenti * (int (length members) - 1))"

section \<open>Tickets and probes\<close>

record probe_grant =
  gt_PhysicalRegion :: u32
  gt_ExpiresAtMs :: u64

record probe_receipt =
  pr_Grant :: "probe_grant option"
  pr_ExpiresAtMs :: u64
  pr_MeasuredAtMs :: u64
  pr_SampleCount :: u32
  pr_RttMs :: u32

abbreviation (input) MaxProbeRegions :: nat where "MaxProbeRegions \<equiv> 16"

record ticket =
  tk_PlayerId :: u64
  tk_State :: u32
  tk_EnqueuedMs :: u64
  tk_NotBeforeMs :: u64
  tk_ExpiresMs :: u64
  tk_ZoneId :: u32
  tk_RatingCenti :: int
  tk_TeamId :: u64
  tk_Profile :: "probe_receipt list option"

definition receipt_latency :: "u64 \<Rightarrow> u32 \<Rightarrow> probe_receipt \<Rightarrow> (u32 \<times> u32) option" where
  "receipt_latency now hard r =
     (case pr_Grant r of
        None \<Rightarrow> None
      | Some g \<Rightarrow>
          if gt_PhysicalRegion g = 0 \<or> pr_ExpiresAtMs r \<le> now \<or> gt_ExpiresAtMs g < pr_MeasuredAtMs r \<or> pr_MeasuredAtMs r > now
             \<or> pr_SampleCount r < 3 \<or> pr_RttMs r = 0 \<or> pr_RttMs r > hard then None
          else Some (gt_PhysicalRegion g, pr_RttMs r))"

definition Latencies :: "probe_receipt list \<Rightarrow> u64 \<Rightarrow> u32 \<Rightarrow> (u32 \<times> u32) list" where
  "Latencies receipts now hard =
     fold (\<lambda>r out. case receipt_latency now hard r of None \<Rightarrow> out | Some (region, rtt) \<Rightarrow> AList.update region rtt out) receipts []"

definition PreferredRegion :: "probe_receipt list \<Rightarrow> u64 \<Rightarrow> u32" where
  "PreferredRegion receipts now =
     fst (fold (\<lambda>(region, rtt) (preferred, best).
        if preferred = 0 \<or> rtt < best \<or> (rtt = best \<and> region < preferred) then (region, rtt) else (preferred, best))
       (Latencies receipts now (- 1)) (0, 0))"

section \<open>A page of a pool\<close>

record match_conf =
  mc_Curve :: rating_curve
  mc_Schedule :: scope_schedule
  mc_CrossRegionWaitSeconds :: u32
  mc_HardLatencyMs :: u32
  mc_PartyRatingBonusPerMember :: u32
  mc_PremadeGapStepSeconds :: u32
  mc_Zones :: "merged_zones option"
  mc_Directory :: "group_range list option"

definition PartyBonusCenti :: "match_conf \<Rightarrow> int" where
  "PartyBonusCenti c = uint (mc_PartyRatingBonusPerMember c) * 100"

definition PremadeGapStepMs :: "match_conf \<Rightarrow> u64" where
  "PremadeGapStepMs c = ucast (mc_PremadeGapStepSeconds c) * 1000"

definition crossWaitMs :: "match_conf \<Rightarrow> u64" where
  "crossWaitMs c = ucast (mc_CrossRegionWaitSeconds c) * 1000"

record match_pool =
  pl_Mode :: match_mode
  pl_ConfigId :: u32
  pl_TeamSize :: u32

definition pool_Players :: "match_pool \<Rightarrow> nat" where
  "pool_Players p = (if pl_Mode p = MODE_PVP_TEAM then unat (pl_TeamSize p) * 2 else unat (pl_TeamSize p))"

record team_launch =
  la_ActorId :: u64
  la_TeamId :: u64
  la_EnqueuedMs :: u64
  la_MemberCount :: u32

record queue_unit =
  qu_tickets :: "ticket list"
  qu_launch :: "team_launch option"

definition anchorToleranceFor :: "match_conf \<Rightarrow> bool \<Rightarrow> int \<Rightarrow> tolerance" where
  "anchorToleranceFor conf rated waitSeconds = (if \<not> rated then TolInf else Anchor (mc_Curve conf) waitSeconds)"

definition poolPolicy :: "match_conf \<Rightarrow> match_pool \<Rightarrow> pool_policy" where
  "poolPolicy conf pool =
     (let rated = Rated_mode (pl_Mode pool) in
      \<lparr>po_Target = pool_Players pool, po_Scope = mc_Schedule conf, po_CrossRegionAfterMs = crossWaitMs conf, po_Rated = rated,
       po_Sides = (pl_Mode pool = MODE_PVP_TEAM), po_PremadeGapStepMs = PremadeGapStepMs conf,
       po_ToleranceCenti = Some (\<lambda>anchorWaitMs. centi (anchorToleranceFor conf rated (uint (anchorWaitMs div 1000)))),
       po_MaxAnchorsPerPass = 0, po_MaxCandidates = 0\<rparr>)"

definition ticket_member :: "match_conf \<Rightarrow> ticket \<Rightarrow> scope_member" where
  "ticket_member conf t = \<lparr>sm_Node = NodeOf (mc_Directory conf) (Final (mc_Zones conf) (tk_ZoneId t)), sm_EnqueuedMs = tk_EnqueuedMs t\<rparr>"

text \<open>Regions all members reach, with the worst latency, and the region all prefer.\<close>

definition merge_RTT :: "(u32 \<times> u32) list \<Rightarrow> (u32 \<times> u32) list \<Rightarrow> (u32 \<times> u32) list" where
  "merge_RTT acc latencies = List.map_filter (\<lambda>(region, worst). map_option (\<lambda>rtt. (region, max worst rtt)) (map_of latencies region)) acc"

fun unit_regions :: "u64 \<Rightarrow> u32 \<Rightarrow> ticket list \<Rightarrow> ((u32 \<times> u32) list \<times> u32) option \<Rightarrow> ((u32 \<times> u32) list \<times> u32) option" where
  "unit_regions now hard [] acc = acc"
| "unit_regions now hard (t # ts) acc =
     (case tk_Profile t of
        None \<Rightarrow> None
      | Some receipts \<Rightarrow>
          if length receipts > MaxProbeRegions then None
          else
            let latencies = Latencies receipts now hard; preferred = PreferredRegion receipts now in
            unit_regions now hard ts (case acc of
                None \<Rightarrow> Some (latencies, preferred)
              | Some (rtt, pref) \<Rightarrow> Some (merge_RTT rtt latencies, if preferred \<noteq> pref then 0 else pref)))"

definition poolUnitInput :: "match_conf \<Rightarrow> queue_unit \<Rightarrow> u64 \<Rightarrow> pool_unit option" where
  "poolUnitInput conf u now =
     (case unit_regions now (mc_HardLatencyMs conf) (qu_tickets u) None of
        None \<Rightarrow> None
      | Some (rtt, preferred) \<Rightarrow>
          if rtt = [] then None
          else Some
            \<lparr>pu_ID = (case qu_launch u of None \<Rightarrow> tk_PlayerId (hd (qu_tickets u)) | Some l \<Rightarrow> la_ActorId l),
             pu_Players = map tk_PlayerId (qu_tickets u),
             pu_Members = map (ticket_member conf) (qu_tickets u),
             pu_EnqueuedMs = (case qu_launch u of None \<Rightarrow> tk_EnqueuedMs (hd (qu_tickets u)) | Some l \<Rightarrow> la_EnqueuedMs l),
             pu_Preferred = preferred, pu_RTT = rtt,
             pu_RatingCenti = UnitCenti (map tk_RatingCenti (qu_tickets u)) (PartyBonusCenti conf)\<rparr>)"

definition ticketReady :: "ticket \<Rightarrow> u64 \<Rightarrow> bool" where
  "ticketReady t now = (tk_State t = 1 \<and> tk_NotBeforeMs t \<le> now \<and> tk_ExpiresMs t > now \<and> tk_TeamId t = 0)"

definition unitReady :: "queue_unit \<Rightarrow> u64 \<Rightarrow> bool" where
  "unitReady u now =
     (case qu_launch u of
        None \<Rightarrow> False
      | Some l \<Rightarrow> qu_tickets u \<noteq> [] \<and> word_of_nat (length (qu_tickets u)) = la_MemberCount l
          \<and> \<not> list_ex (\<lambda>t. tk_State t \<noteq> 1 \<or> tk_NotBeforeMs t > now \<or> tk_ExpiresMs t \<le> now) (qu_tickets u))"

text \<open>The units of a page in the order in which they are read: single tickets, then teams.  \<open>None\<close> stands for a team whose
  tickets could not be read.\<close>

definition launch_units :: "u64 \<Rightarrow> (team_launch \<times> ticket list option) list \<Rightarrow> queue_unit list" where
  "launch_units now launches =
     filter (\<lambda>u. unitReady u now) (List.map_filter (\<lambda>(l, ms). map_option (\<lambda>ts. \<lparr>qu_tickets = ts, qu_launch = Some l\<rparr>) ms) launches)"

definition ready_units :: "match_pool \<Rightarrow> u64 \<Rightarrow> ticket list \<Rightarrow> (team_launch \<times> ticket list option) list \<Rightarrow> queue_unit list" where
  "ready_units pool now tickets launches =
     map (\<lambda>t. \<lparr>qu_tickets = [t], qu_launch = None\<rparr>) (filter (\<lambda>t. \<not> tk_ExpiresMs t \<le> now \<and> ticketReady t now) tickets)
     @ launch_units now (if pl_Mode pool = MODE_PVE_TEAM \<or> pl_Mode pool = MODE_PVP_TEAM then launches else [])"

record pool_claim =
  pc_group :: pool_group
  pc_units :: "queue_unit list"

definition page_inputs ::
  "match_conf \<Rightarrow> match_pool \<Rightarrow> u64 \<Rightarrow> ticket list \<Rightarrow> (team_launch \<times> ticket list option) list \<Rightarrow> (queue_unit \<times> pool_unit) list" where
  "page_inputs conf pool now tickets launches =
     List.map_filter (\<lambda>u. map_option (\<lambda>i. (u, i)) (poolUnitInput conf u now)) (ready_units pool now tickets launches)"

definition formPool ::
  "match_conf \<Rightarrow> match_pool \<Rightarrow> u64 \<Rightarrow> regions \<Rightarrow> ticket list \<Rightarrow> (team_launch \<times> ticket list option) list \<Rightarrow> pool_claim list" where
  "formPool conf pool now regions tickets launches =
     (let pairs = page_inputs conf pool now tickets launches;
          groups = Form (map snd pairs) regions now (poolPolicy conf pool) in
      map (\<lambda>g. \<lparr>pc_group = g, pc_units = map (\<lambda>i. fst (pairs ! i)) (pg_Units g)\<rparr>) groups)"

text \<open>The tickets the same pass ends.\<close>

abbreviation (input) poolExpireLimit :: nat where "poolExpireLimit \<equiv> 64"

definition expired_tickets :: "u64 \<Rightarrow> ticket list \<Rightarrow> ticket list" where
  "expired_tickets now tickets = take poolExpireLimit (filter (\<lambda>t. tk_ExpiresMs t \<le> now) tickets)"

definition advanceCursor :: "ticket list \<Rightarrow> nat \<Rightarrow> nat \<Rightarrow> (u64 \<times> u64) option" where
  "advanceCursor tickets pageSize formed =
     (if length tickets < pageSize \<or> formed > 0 then None
      else Some (tk_EnqueuedMs (last tickets), tk_PlayerId (last tickets)))"

definition claim_tickets :: "pool_claim \<Rightarrow> ticket list" where
  "claim_tickets c = concat (map qu_tickets (pc_units c))"

section \<open>The rules at the point of commit\<close>

text \<open>Tickets of a team are one unit, a single ticket is one; units stand in the order of their first ticket.\<close>

fun queue_loop :: "ticket list \<Rightarrow> ticket list list \<Rightarrow> (u64 \<times> nat) list \<Rightarrow> ticket list list" where
  "queue_loop [] units team = units"
| "queue_loop (t # ts) units team =
     (if tk_TeamId t = 0 then queue_loop ts (units @ [[t]]) team
      else case map_of team (tk_TeamId t) of
        Some i \<Rightarrow> queue_loop ts (units[i := units ! i @ [t]]) team
      | None \<Rightarrow> queue_loop ts (units @ [[t]]) ((tk_TeamId t, length units) # team))"

definition queueUnits :: "ticket list \<Rightarrow> ticket list list" where "queueUnits grp = queue_loop grp [] []"

definition singleUnit :: "ticket list \<Rightarrow> bool" where "singleUnit grp = (length (queueUnits grp) = 1)"

definition admitScope :: "match_conf \<Rightarrow> ticket list \<Rightarrow> u64 \<Rightarrow> level option" where
  "admitScope conf grp nowMs = Admit (mc_Schedule conf) (map (map (ticket_member conf)) (queueUnits grp)) nowMs"

definition longest_wait :: "ticket list \<Rightarrow> u64 \<Rightarrow> u64" where
  "longest_wait tickets nowMs = fold (\<lambda>t w. max w (WaitMs (tk_EnqueuedMs t) nowMs)) tickets 0"

text \<open>\<open>False\<close> is \<open>ErrRatingSpread\<close>.\<close>

definition requireRatedSpread :: "match_conf \<Rightarrow> match_mode \<Rightarrow> ticket list \<Rightarrow> u64 \<Rightarrow> bool" where
  "requireRatedSpread conf mode grp nowMs =
     (if \<not> Rated_mode mode \<or> grp = [] then True
      else
        let units = queueUnits grp;
            ratings = map (\<lambda>u. UnitCenti (map tk_RatingCenti u) (PartyBonusCenti conf)) units;
            lowest = fold min (tl ratings) (hd ratings); highest = fold max (tl ratings) (hd ratings);
            longest = longest_wait (concat units) nowMs in
        \<not> exceeds (highest - lowest) (AnchorCenti (mc_Curve conf) longest))"

datatype claim_error = ErrCrossWait | ErrScopeWait | ErrRatingSpread

text \<open>What the commit checks of a group from the queue, on tickets locked in the order of the players.\<close>

definition queue_rules :: "match_conf \<Rightarrow> match_mode \<Rightarrow> u32 \<Rightarrow> ticket list \<Rightarrow> u64 \<Rightarrow> claim_error option" where
  "queue_rules conf mode region grp n =
     (let current = sort_key tk_PlayerId grp;
          allPreferred = list_all (\<lambda>t. case tk_Profile t of None \<Rightarrow> False | Some p \<Rightarrow> PreferredRegion p n = region) current;
          wait = crossWaitMs conf in
      if \<not> allPreferred \<and> \<not> singleUnit current \<and> list_ex (\<lambda>t. n < wait \<or> tk_EnqueuedMs t > n - wait) current then Some ErrCrossWait
      else if admitScope conf current n = None then Some ErrScopeWait
      else if \<not> requireRatedSpread conf mode current n then Some ErrRatingSpread
      else None)"

end
