(* ===== verification/PoolRules.thy ===== *)
theory PoolRules
  imports PoolCommit
begin

text \<open>
  The matcher and the point of commit agree: a group that is formed from a page passes the rules of the queue at every later time,
  as long as its tickets stay as they were.
\<close>

section \<open>Waiting only widens\<close>

lemma WaitMs_mono: "now \<le> n \<Longrightarrow> WaitMs e now \<le> WaitMs e n"
  by (auto simp: WaitMs_def word_le_nat_alt word_less_nat_alt unat_sub not_le)

lemma min_wait_greatest: "(\<And>m. m \<in> set ms \<Longrightarrow> x \<le> WaitMs (sm_EnqueuedMs m) now) \<Longrightarrow> x \<le> min_wait ms now"
proof -
  have "x \<le> w \<Longrightarrow> (\<And>m. m \<in> set xs \<Longrightarrow> x \<le> h m) \<Longrightarrow> x \<le> fold (\<lambda>m w. if h m < w then h m else w) xs w"
    for h :: "scope_member \<Rightarrow> u64" and xs w
    by (induction xs arbitrary: w) auto
  then show "(\<And>m. m \<in> set ms \<Longrightarrow> x \<le> WaitMs (sm_EnqueuedMs m) now) \<Longrightarrow> ?thesis" by (simp add: min_wait_def)
qed

lemma AllowedByWait_mono: "v \<le> w \<Longrightarrow> AllowedByWait s v \<le> AllowedByWait s w"
  by (auto simp: AllowedByWait_def)

lemma CommonLevel_cong: "set xs = set ys \<Longrightarrow> CommonLevel xs = CommonLevel ys"
proof -
  assume eq: "set xs = set ys"
  have shared: "shared_at xs l = shared_at ys l" for l using eq by (auto simp: shared_at_iff)
  have "CommonLevel xs = Some l \<longleftrightarrow> CommonLevel ys = Some l" for l
    unfolding CommonLevel_least shared using eq by auto
  then show ?thesis by (metis not_Some_eq)
qed

lemma UnitAllowed_later:
  assumes "UnitAllowed s ms now = Some a" "set ms' = set ms" "now \<le> n"
  shows "\<exists>b. UnitAllowed s ms' n = Some b \<and> a \<le> b"
proof -
  have "min_wait ms now \<le> min_wait ms' n"
    using min_wait_le [of _ ms now] WaitMs_mono [OF assms(3)] assms(2) by (intro min_wait_greatest) (blast intro: order_trans)
  then have wait: "AllowedByWait s (min_wait ms now) \<le> AllowedByWait s (min_wait ms' n)" by (rule AllowedByWait_mono)
  have "CommonLevel (map sm_Node ms') = CommonLevel (map sm_Node ms)" using assms(2) by (intro CommonLevel_cong) simp
  then show ?thesis using assms(1,2) wait by (auto simp: UnitAllowed_def split: if_splits option.splits intro: max.coboundedI2)
qed

lemma Admit_later:
  assumes admit: "Admit s us now = Some l" and len: "length vs = length us" and sets: "set ` set vs = set ` set us" and "now \<le> n"
  shows "Admit s vs n = Some l"
proof -
  note a = admit [unfolded Admit_iff]
  have "v \<noteq> []" if "v \<in> set vs" for v
  proof -
    have "set v \<in> set ` set us" using that sets by blast
    then show ?thesis using a by auto
  qed
  moreover have "vs \<noteq> []" using len a by auto
  moreover have "set (concat vs) = \<Union> (set ` set us)" unfolding sets [symmetric] by auto
  then have "CommonLevel (map sm_Node (concat vs)) = Some l" using a CommonLevel_cong [of "map sm_Node (concat vs)" "map sm_Node (concat us)"] by auto
  moreover have "length vs = 1 \<or> (\<forall>v \<in> set vs. \<exists>b. UnitAllowed s v n = Some b \<and> l \<le> b)"
  proof (cases "length us = 1")
    case False
    have "\<exists>b. UnitAllowed s v n = Some b \<and> l \<le> b" if "v \<in> set vs" for v
    proof -
      have "set v \<in> set ` set us" using that sets by blast
      then obtain u where u: "u \<in> set us" "set v = set u" by blast
      then obtain b where "UnitAllowed s u now = Some b" "l \<le> b" using a False by blast
      then show ?thesis using UnitAllowed_later [OF _ u(2) assms(4), of s b] by (meson le_trans)
    qed
    then show ?thesis by blast
  qed (simp add: len)
  ultimately show ?thesis unfolding Admit_iff by blast
qed

section \<open>The curve\<close>

lemma AnchorCenti_code: "AnchorCenti c waitMs = centi (Anchor c (uint (waitMs div 1000)))"
proof -
  have "unat (waitMs div 1000) \<le> 2 ^ 63 - 1" using unsigned_less [where w = waitMs and ?'a = nat] by (simp add: unat_div)
  then have "\<not> waitMs div 1000 > 2 ^ 63 - 1" by (simp add: word_less_nat_alt)
  then show ?thesis by (simp add: AnchorCenti_def Let_def)
qed

lemma orDefault_pos: "0 < d \<Longrightarrow> 0 < orDefault v d" by (simp add: orDefault_def)

lemma Tolerance_pos: "0 < Tolerance c w"
  using orDefault_pos [of 100 "cv_Base c"] orDefault_pos [of 5 "cv_StepSeconds c"] orDefault_pos [of 100 "cv_StepDelta c"] orDefault_pos [of 1000 "cv_Max c"]
  by (simp add: Tolerance_def Let_def add_pos_nonneg pos_imp_zdiv_nonneg_iff)

lemma Tolerance_mono: "0 \<le> v \<Longrightarrow> v \<le> w \<Longrightarrow> Tolerance c v \<le> Tolerance c w"
proof -
  assume vw: "0 \<le> v" "v \<le> w"
  have step: "v div orDefault (cv_StepSeconds c) 5 \<le> w div orDefault (cv_StepSeconds c) 5"
    using vw(2) orDefault_pos [of 5 "cv_StepSeconds c"] by (intro zdiv_mono1) simp_all
  have "(of_int (v div orDefault (cv_StepSeconds c) 5) :: rat) * of_int (orDefault (cv_StepDelta c) 100)
      \<le> of_int (w div orDefault (cv_StepSeconds c) 5) * of_int (orDefault (cv_StepDelta c) 100)"
    using step orDefault_pos [of 100 "cv_StepDelta c"] by (intro mult_right_mono) simp_all
  then show ?thesis using vw by (simp add: Tolerance_def Let_def min.coboundedI1 min.coboundedI2 min_le_iff_disj)
qed

text \<open>A longer wait never narrows the tolerance, and no difference is always within it.\<close>

lemma Anchor_widens:
  assumes "within_tol x (centi (Anchor c v))" "0 \<le> v" "v \<le> w"
  shows "within_tol x (centi (Anchor c w))"
proof (cases "w \<ge> MaxWait c")
  case False
  then have "of_int x \<le> Tolerance c v * 100" using assms by (simp add: Anchor_def)
  also have "\<dots> \<le> Tolerance c w * 100" using Tolerance_mono [OF assms(2,3)] by (simp add: mult_right_mono)
  finally show ?thesis using False by (simp add: Anchor_def)
qed (simp add: Anchor_def)

lemma Anchor_zero: "within_tol 0 (centi (Anchor c w))"
  using Tolerance_pos [of c w] by (simp add: Anchor_def)

lemma not_exceeds: "within_tol x tol \<Longrightarrow> \<not> exceeds x tol" by (cases tol) simp_all

section \<open>Units of a group of tickets\<close>

text \<open>Lists of units as the matcher and the commit have them: a single ticket, or all tickets of a team.\<close>

definition unit_team :: "ticket list \<Rightarrow> u64" where "unit_team u = tk_TeamId (hd u)"

definition unit_ok :: "ticket list \<Rightarrow> bool" where
  "unit_ok u \<longleftrightarrow> u \<noteq> [] \<and> (\<forall>t \<in> set u. tk_TeamId t = unit_team u) \<and> (unit_team u = 0 \<longrightarrow> length u = 1)"

definition grouped :: "ticket list list \<Rightarrow> bool" where
  "grouped us \<longleftrightarrow> (\<forall>u \<in> set us. unit_ok u) \<and> distinct (filter (\<lambda>k. k \<noteq> 0) (map unit_team us))"

lemma groupedD: "grouped us \<Longrightarrow> u \<in> set us \<Longrightarrow> unit_ok u" by (simp add: grouped_def)

lemma unit_okD:
  assumes "unit_ok u"
  shows "u \<noteq> []" "t \<in> set u \<Longrightarrow> tk_TeamId t = unit_team u" "unit_team u = 0 \<Longrightarrow> length u = 1"
  using assms by (simp_all add: unit_ok_def)

lemma unit_ok_single [simp]: "unit_ok [t]" by (simp add: unit_ok_def unit_team_def)

lemma unit_team_single [simp]: "unit_team [t] = tk_TeamId t" by (simp add: unit_team_def)

lemma unit_team_append: "u \<noteq> [] \<Longrightarrow> unit_team (u @ v) = unit_team u" by (simp add: unit_team_def)

lemma grouped_snoc:
  assumes "grouped us" "tk_TeamId t \<noteq> 0 \<Longrightarrow> tk_TeamId t \<notin> unit_team ` set us"
  shows "grouped (us @ [[t]])"
  using assms by (auto simp: grouped_def)

lemma grouped_add:
  assumes "grouped us" "i < length us" "tk_TeamId t \<noteq> 0" "unit_team (us ! i) = tk_TeamId t"
  shows "grouped (us[i := us ! i @ [t]])" "unit_team (us[i := us ! i @ [t]] ! j) = unit_team (us ! j)"
proof -
  have ok: "unit_ok (us ! i)" using groupedD [OF assms(1) nth_mem [OF assms(2)]] .
  note team = unit_team_append [OF unit_okD(1) [OF ok], of "[t]"]
  show same: "unit_team (us[i := us ! i @ [t]] ! j) = unit_team (us ! j)" for j
    using assms(2) team by (cases "j = i") simp_all
  have "map unit_team (us[i := us ! i @ [t]]) = map unit_team us" by (rule nth_equalityI) (simp_all add: same)
  moreover have "unit_ok (us ! i @ [t])" using unit_okD [OF ok] assms(3,4) team by (auto simp: unit_ok_def)
  then have "\<forall>u \<in> set (us[i := us ! i @ [t]]). unit_ok u" using groupedD [OF assms(1)] set_update_subset_insert [of us i "us ! i @ [t]"] by blast
  ultimately show "grouped (us[i := us ! i @ [t]])" using assms(1) by (simp add: grouped_def)
qed

lemma mset_concat_add: "i < length us \<Longrightarrow> mset (concat (us[i := us ! i @ [t]])) = add_mset t (mset (concat us))"
proof (induction us arbitrary: i)
  case (Cons u us)
  then show ?case by (cases i) simp_all
qed simp

lemma queue_loop_grouped:
  assumes "grouped us" "\<And>k i. map_of team k = Some i \<longleftrightarrow> k \<noteq> 0 \<and> i < length us \<and> unit_team (us ! i) = k"
  shows "grouped (queue_loop ts us team) \<and> mset (concat (queue_loop ts us team)) = mset (concat us) + mset ts"
  using assms
proof (induction ts arbitrary: us team)
  case (Cons t ts)
  consider "tk_TeamId t = 0" | i where "tk_TeamId t \<noteq> 0" "map_of team (tk_TeamId t) = Some i" | "tk_TeamId t \<noteq> 0" "map_of team (tk_TeamId t) = None" by blast
  then show ?case
  proof cases
    case 1
    have "map_of team k = Some i \<longleftrightarrow> k \<noteq> 0 \<and> i < length (us @ [[t]]) \<and> unit_team ((us @ [[t]]) ! i) = k" for k i
      using Cons.prems(2) [of k i] 1 by (auto simp: nth_append less_Suc_eq)
    from Cons.IH [OF grouped_snoc [OF Cons.prems(1)] this] 1 show ?thesis by simp
  next
    case (2 i)
    then have i: "i < length us" "unit_team (us ! i) = tk_TeamId t" using Cons.prems(2) by blast+
    note add = grouped_add [OF Cons.prems(1) i(1) 2(1) i(2)]
    have "map_of team k = Some j \<longleftrightarrow> k \<noteq> 0 \<and> j < length (us[i := us ! i @ [t]]) \<and> unit_team (us[i := us ! i @ [t]] ! j) = k" for k j
      unfolding add(2) using Cons.prems(2) [of k j] by simp
    from Cons.IH [OF add(1) this] have "grouped (queue_loop ts (us[i := us ! i @ [t]]) team)
      \<and> mset (concat (queue_loop ts (us[i := us ! i @ [t]]) team)) = mset (concat (us[i := us ! i @ [t]])) + mset ts" .
    moreover have "queue_loop (t # ts) us team = queue_loop ts (us[i := us ! i @ [t]]) team" using 2 by simp
    ultimately show ?thesis using mset_concat_add [OF i(1)] by simp
  next
    case 3
    have new: "tk_TeamId t \<notin> unit_team ` set us"
    proof
      assume "tk_TeamId t \<in> unit_team ` set us"
      then obtain i where "i < length us" "unit_team (us ! i) = tk_TeamId t" by (metis image_iff in_set_conv_nth)
      with Cons.prems(2) [of "tk_TeamId t" i] 3 show False by simp
    qed
    have "map_of ((tk_TeamId t, length us) # team) k = Some i \<longleftrightarrow> k \<noteq> 0 \<and> i < length (us @ [[t]]) \<and> unit_team ((us @ [[t]]) ! i) = k" for k i
      using Cons.prems(2) [of k i] 3 new by (auto simp: nth_append less_Suc_eq unit_team_def)
    from Cons.IH [OF grouped_snoc [OF Cons.prems(1) new] this] 3 show ?thesis by simp
  qed
qed simp

lemma queueUnits_grouped: "grouped (queueUnits ts)" "mset (concat (queueUnits ts)) = mset ts"
  using queue_loop_grouped [of "[]" "[]" ts] by (simp_all add: queueUnits_def grouped_def)

text \<open>The tickets alone say which units there are.\<close>

definition unit_class :: "ticket set \<Rightarrow> ticket \<Rightarrow> ticket set" where
  "unit_class M t = {s \<in> M. s = t \<or> tk_TeamId t \<noteq> 0 \<and> tk_TeamId s = tk_TeamId t}"

lemma filter_distinct_eq:
  assumes "distinct (filter (\<lambda>k. k \<noteq> 0) (map f xs))" "x \<in> set xs" "y \<in> set xs" "f x = f y" "f x \<noteq> (0 :: u64)"
  shows "x = y"
  using assms
proof (induction xs)
  case (Cons z xs)
  then show ?case by (cases "x = z"; cases "y = z") (auto split: if_splits simp: image_iff)
qed simp

lemma grouped_class:
  assumes "grouped us" "u \<in> set us" "t \<in> set u"
  shows "set u = unit_class (set (concat us)) t"
proof
  note u = unit_okD [OF groupedD [OF assms(1,2)]]
  show "set u \<subseteq> unit_class (set (concat us)) t"
  proof
    fix s assume s: "s \<in> set u"
    have "unit_team u = 0 \<Longrightarrow> s = t" using u(3) s assms(3) by (cases u) auto
    then show "s \<in> unit_class (set (concat us)) t" using s assms(2) u(2) [OF s] u(2) [OF assms(3)] by (auto simp: unit_class_def)
  qed
  show "unit_class (set (concat us)) t \<subseteq> set u"
  proof
    fix s assume s: "s \<in> unit_class (set (concat us)) t"
    show "s \<in> set u"
    proof (cases "s = t")
      case False
      then obtain v where v: "v \<in> set us" "s \<in> set v" and team: "tk_TeamId t \<noteq> 0" "tk_TeamId s = tk_TeamId t"
        using s by (auto simp: unit_class_def)
      have "unit_team v = tk_TeamId s" "unit_team u = tk_TeamId t" using unit_okD(2) [OF groupedD [OF assms(1) v(1)] v(2)] u(2) [OF assms(3)] by simp_all
      then have "u = v" using filter_distinct_eq [of unit_team us u v] assms(1,2) v(1) team by (simp add: grouped_def)
      then show ?thesis using v(2) by simp
    qed (use assms(3) in simp)
  qed
qed

lemma grouped_sets: "grouped us \<Longrightarrow> set ` set us = unit_class (set (concat us)) ` set (concat us)"
proof (intro equalityI subsetI)
  fix X assume g: "grouped us" and "X \<in> set ` set us"
  then obtain u where u: "u \<in> set us" "X = set u" by blast
  have "hd u \<in> set u" using unit_okD(1) [OF groupedD [OF g u(1)]] by simp
  then show "X \<in> unit_class (set (concat us)) ` set (concat us)" using grouped_class [OF g u(1)] u by auto
next
  fix X assume g: "grouped us" and "X \<in> unit_class (set (concat us)) ` set (concat us)"
  then obtain u t where "u \<in> set us" "t \<in> set u" "X = unit_class (set (concat us)) t" by auto
  then show "X \<in> set ` set us" using grouped_class [OF g] by blast
qed

lemma grouped_length: "grouped us \<Longrightarrow> distinct (concat us) \<Longrightarrow> length us = card (set ` set us)"
proof (induction us)
  case (Cons u us)
  have g: "grouped us" using Cons.prems(1) by (auto simp: grouped_def split: if_splits)
  have ne: "set u \<noteq> {}" using unit_okD(1) [OF groupedD [OF Cons.prems(1)], of u] by simp
  have "set u \<notin> set ` set us"
  proof
    assume "set u \<in> set ` set us"
    then have "set u \<subseteq> set (concat us)" by auto
    moreover have "set u \<inter> set (concat us) = {}" using Cons.prems(2) by simp
    ultimately show False using ne by (metis inf.absorb1)
  qed
  then show ?case using Cons.IH [OF g] Cons.prems(2) by simp
qed simp

text \<open>Any two ways of listing the same tickets by units agree up to order.\<close>

lemma grouped_agree:
  assumes "grouped us" "grouped vs" "distinct (concat us)" "mset (concat vs) = mset (concat us)"
  shows "length vs = length us" "set ` set vs = set ` set us" "mset ` set vs = mset ` set us"
proof -
  have sets: "set (concat vs) = set (concat us)" and d: "distinct (concat vs)"
    using assms(3,4) by (metis mset_eq_setD, metis mset_eq_imp_distinct_iff)
  show eq: "set ` set vs = set ` set us" using grouped_sets [OF assms(1)] grouped_sets [OF assms(2)] sets by simp
  show "length vs = length us" using grouped_length [OF assms(1,3)] grouped_length [OF assms(2) d] eq by simp
  have "mset u = mset_set (set u)" if "distinct (concat ws)" "u \<in> set ws" for u and ws :: "ticket list list"
  proof -
    have "distinct u" using that by (induction ws) auto
    then show ?thesis by (rule mset_set_set [symmetric])
  qed
  then have "mset ` set ws = mset_set ` (set ` set ws)" if "distinct (concat ws)" for ws :: "ticket list list"
    using that by (auto simp: image_image)
  then show "mset ` set vs = mset ` set us" using eq d assms(3) by simp
qed

section \<open>Inputs of the matcher\<close>

definition clean_keys :: "(u32 \<times> u32) list \<Rightarrow> bool" where
  "clean_keys xs \<longleftrightarrow> distinct (map fst xs) \<and> 0 \<notin> set (map fst xs)"

lemma clean_update: "clean_keys xs \<Longrightarrow> k \<noteq> 0 \<Longrightarrow> clean_keys (AList.update k v xs)"
proof -
  have "set (map fst (AList.update k v xs)) = insert k (set (map fst xs))" for xs :: "(u32 \<times> u32) list" by (induction xs) auto
  then show "clean_keys xs \<Longrightarrow> k \<noteq> 0 \<Longrightarrow> ?thesis" by (simp only: clean_keys_def distinct_update) auto
qed

lemma clean_Latencies: "clean_keys (Latencies receipts now hard)"
proof -
  let ?step = "\<lambda>r out. case receipt_latency now hard r of None \<Rightarrow> out | Some (region, rtt) \<Rightarrow> AList.update region rtt out"
  have "clean_keys out \<Longrightarrow> clean_keys (fold ?step rs out)" for rs out
  proof (induction rs arbitrary: out)
    case (Cons r rs)
    have "clean_keys (?step r out)" using Cons.prems by (auto simp: receipt_latency_def clean_update split: option.splits if_splits)
    from Cons.IH [OF this] show ?case by simp
  qed simp
  then show ?thesis by (simp add: Latencies_def clean_keys_def)
qed

lemma clean_merge: "clean_keys acc \<Longrightarrow> clean_keys (merge_RTT acc latencies)"
proof -
  have "map fst (merge_RTT acc latencies) = filter (\<lambda>r. map_of latencies r \<noteq> None) (map fst acc)" for acc
  proof (induction acc)
    case (Cons x acc)
    then show ?case by (cases x; cases "map_of latencies (fst x)") (simp_all add: merge_RTT_def)
  qed (simp add: merge_RTT_def)
  then show "clean_keys acc \<Longrightarrow> ?thesis" by (simp only: clean_keys_def distinct_filter set_filter) simp
qed

text \<open>Keys are distinct and no zero; a common preference is the preference of every member.\<close>

lemma unit_regions_sound:
  assumes "unit_regions now hard ts acc = Some (rtt, pref)" "\<And>r q. acc = Some (r, q) \<Longrightarrow> clean_keys r"
  shows "clean_keys rtt \<and> (pref \<noteq> 0 \<longrightarrow> (\<forall>t \<in> set ts. \<exists>p. tk_Profile t = Some p \<and> PreferredRegion p now = pref) \<and> (\<forall>r q. acc = Some (r, q) \<longrightarrow> q = pref))"
  using assms
proof (induction ts arbitrary: acc)
  case (Cons t ts)
  from Cons.prems(1) obtain rs where rs: "tk_Profile t = Some rs" by (auto split: option.splits)
  let ?lat = "Latencies rs now hard" let ?p = "PreferredRegion rs now"
  define r' q' where "r' = (case acc of None \<Rightarrow> ?lat | Some (r, q) \<Rightarrow> merge_RTT r ?lat)"
    and "q' = (case acc of None \<Rightarrow> ?p | Some (r, q) \<Rightarrow> if ?p \<noteq> q then 0 else q)"
  have rec: "unit_regions now hard ts (Some (r', q')) = Some (rtt, pref)"
    using Cons.prems(1) rs by (auto simp: Let_def r'_def q'_def split: option.splits if_splits prod.splits)
  have "clean_keys r'" using Cons.prems(2) clean_Latencies clean_merge by (auto simp: r'_def split: option.splits)
  with Cons.IH [OF rec] have ih: "clean_keys rtt" "pref \<noteq> 0 \<Longrightarrow> \<forall>t \<in> set ts. \<exists>p. tk_Profile t = Some p \<and> PreferredRegion p now = pref"
    "pref \<noteq> 0 \<Longrightarrow> q' = pref" by auto
  have "?p = pref \<and> (\<forall>r q. acc = Some (r, q) \<longrightarrow> q = pref)" if "pref \<noteq> 0"
    using ih(3) [OF that] that by (auto simp: q'_def split: option.splits if_splits prod.splits)
  then show ?case using ih rs by simp
qed simp

lemma poolUnitInput_sound:
  assumes "poolUnitInput conf u now = Some i"
  shows "pu_Players i = map tk_PlayerId (qu_tickets u)" "pu_Members i = map (ticket_member conf) (qu_tickets u)"
    and "pu_RatingCenti i = UnitCenti (map tk_RatingCenti (qu_tickets u)) (PartyBonusCenti conf)" "clean_keys (pu_RTT i)"
    and "pu_Preferred i \<noteq> 0 \<Longrightarrow> t \<in> set (qu_tickets u) \<Longrightarrow> \<exists>p. tk_Profile t = Some p \<and> PreferredRegion p now = pu_Preferred i"
proof -
  from assms obtain rtt pref where r: "unit_regions now (mc_HardLatencyMs conf) (qu_tickets u) None = Some (rtt, pref)"
    and i: "pu_RTT i = rtt" "pu_Preferred i = pref" "pu_Players i = map tk_PlayerId (qu_tickets u)"
      "pu_Members i = map (ticket_member conf) (qu_tickets u)" "pu_RatingCenti i = UnitCenti (map tk_RatingCenti (qu_tickets u)) (PartyBonusCenti conf)"
    by (auto simp: poolUnitInput_def split: option.splits if_splits prod.splits)
  note s = unit_regions_sound [OF r]
  show "pu_Players i = map tk_PlayerId (qu_tickets u)" "pu_Members i = map (ticket_member conf) (qu_tickets u)"
    "pu_RatingCenti i = UnitCenti (map tk_RatingCenti (qu_tickets u)) (PartyBonusCenti conf)" "clean_keys (pu_RTT i)" using i s by simp_all
  show "pu_Preferred i \<noteq> 0 \<Longrightarrow> t \<in> set (qu_tickets u) \<Longrightarrow> \<exists>p. tk_Profile t = Some p \<and> PreferredRegion p now = pu_Preferred i" using i s by simp
qed

section \<open>The units of a page\<close>

lemma distinct_filter_nth:
  "distinct (filter P (map f xs)) \<longleftrightarrow> (\<forall>i < length xs. \<forall>j < i. f (xs ! i) = f (xs ! j) \<longrightarrow> \<not> P (f (xs ! i)))"
proof (induction xs rule: rev_induct)
  case (snoc x xs)
  have "f x \<in> f ` set xs \<longleftrightarrow> (\<exists>j < length xs. f x = f (xs ! j))" by (metis image_iff in_set_conv_nth)
  then have "(\<forall>j < length xs. f x = f (xs ! j) \<longrightarrow> \<not> P (f x)) \<longleftrightarrow> (P (f x) \<longrightarrow> f x \<notin> f ` set xs)" by blast
  moreover have "distinct (filter P (map f (xs @ [x]))) \<longleftrightarrow> distinct (filter P (map f xs)) \<and> (P (f x) \<longrightarrow> f x \<notin> f ` set xs)" by auto
  ultimately show ?case using snoc by (auto simp: less_Suc_eq nth_append)
qed simp

lemma grouped_pick:
  assumes "grouped us" "distinct is" "set is \<subseteq> {..<length us}"
  shows "grouped (map ((!) us) is)"
proof -
  have teams: "unit_team (us ! i) = 0" if "i < length us" "j < length us" "i \<noteq> j" "unit_team (us ! i) = unit_team (us ! j)" for i j
    using assms(1) that unfolding grouped_def distinct_filter_nth by (metis nat_neq_iff)
  have "unit_team (us ! (is ! i)) = 0" if "i < length is" "j < i" "unit_team (us ! (is ! i)) = unit_team (us ! (is ! j))" for i j
  proof -
    have "is ! i \<in> set is" "is ! j \<in> set is" using that by simp_all
    then have "is ! i < length us" "is ! j < length us" using assms(3) by auto
    moreover have "is ! i \<noteq> is ! j" using that assms(2) by (simp add: nth_eq_iff_index_eq)
    ultimately show ?thesis using teams that(3) by blast
  qed
  moreover have "unit_ok (us ! i)" if "i \<in> set is" for i using groupedD [OF assms(1)] assms(3) that by (auto intro: nth_mem)
  ultimately show ?thesis unfolding grouped_def distinct_filter_nth by simp
qed

lemma grouped_filter: "grouped (map h xs) \<Longrightarrow> grouped (map h (filter Q xs))"
proof -
  have "distinct (filter P (map f xs)) \<Longrightarrow> distinct (filter P (map f (filter Q xs)))" for P f
    by (induction xs) (auto split: if_splits)
  from this [of "\<lambda>k. k \<noteq> 0" "unit_team \<circ> h"] show "grouped (map h xs) \<Longrightarrow> ?thesis" by (auto simp: grouped_def)
qed

text \<open>What the reads of a page guarantee: the tickets of a team name it, and a team is listed once.\<close>

definition page_ok :: "(team_launch \<times> ticket list option) list \<Rightarrow> bool" where
  "page_ok launches \<longleftrightarrow> distinct (map (la_TeamId \<circ> fst) launches)
     \<and> (\<forall>(l, ms) \<in> set launches. la_TeamId l \<noteq> 0 \<and> (\<forall>ts. ms = Some ts \<longrightarrow> (\<forall>t \<in> set ts. tk_TeamId t = la_TeamId l)))"

lemma launches_grouped:
  assumes "page_ok launches"
  shows "grouped (map qu_tickets (launch_units now launches)) \<and> unit_team ` qu_tickets ` set (launch_units now launches) \<subseteq> (la_TeamId \<circ> fst) ` set launches"
  using assms
proof (induction launches)
  case (Cons x launches)
  obtain l ms where x: "x = (l, ms)" by fastforce
  let ?rest = "launch_units now launches"
  have ih: "grouped (map qu_tickets ?rest)" "unit_team ` qu_tickets ` set ?rest \<subseteq> (la_TeamId \<circ> fst) ` set launches"
    using Cons.IH Cons.prems by (auto simp: page_ok_def)
  show ?case
  proof (cases "\<exists>ts. ms = Some ts \<and> unitReady \<lparr>qu_tickets = ts, qu_launch = Some l\<rparr> now")
    case True
    then obtain ts where ts: "ms = Some ts" "unitReady \<lparr>qu_tickets = ts, qu_launch = Some l\<rparr> now" by blast
    have ne: "ts \<noteq> []" using ts(2) by (simp add: unitReady_def)
    have all: "tk_TeamId t = la_TeamId l" if "t \<in> set ts" for t using Cons.prems ts(1) that by (auto simp: page_ok_def x)
    have team: "unit_team ts = la_TeamId l" "la_TeamId l \<noteq> 0" using all ne Cons.prems by (auto simp: unit_team_def page_ok_def x)
    have "unit_ok ts" using ne all team by (simp add: unit_ok_def)
    moreover have "la_TeamId l \<notin> unit_team ` qu_tickets ` set ?rest" using ih(2) Cons.prems by (auto simp: page_ok_def x)
    ultimately have "grouped (ts # map qu_tickets ?rest)" using ih(1) team by (auto simp: grouped_def image_image)
    moreover have "launch_units now (x # launches) = \<lparr>qu_tickets = ts, qu_launch = Some l\<rparr> # ?rest" using ts by (simp add: launch_units_def x)
    ultimately show ?thesis using ih(2) team(1) by (auto simp: x)
  next
    case False
    then have "launch_units now (x # launches) = ?rest" by (cases ms) (simp_all add: launch_units_def x)
    then show ?thesis using ih by auto
  qed
qed (simp add: grouped_def launch_units_def)

lemma grouped_solos: "grouped us \<Longrightarrow> (\<And>t. t \<in> set ts \<Longrightarrow> tk_TeamId t = 0) \<Longrightarrow> grouped (map (\<lambda>t. [t]) ts @ us)"
  by (induction ts) (simp_all add: grouped_def)

lemma ready_grouped:
  assumes "page_ok launches"
  shows "grouped (map qu_tickets (ready_units pool now tickets launches))"
proof -
  have "grouped (map qu_tickets (launch_units now (if pl_Mode pool = MODE_PVE_TEAM \<or> pl_Mode pool = MODE_PVP_TEAM then launches else [])))"
    using launches_grouped [OF assms, of now] by (simp add: launch_units_def grouped_def)
  from grouped_solos [OF this, of "filter (\<lambda>t. \<not> tk_ExpiresMs t \<le> now \<and> ticketReady t now) tickets"]
  show ?thesis by (simp add: ready_units_def ticketReady_def o_def)
qed

lemma page_inputs_units:
  "map fst (page_inputs conf pool now tickets launches) = filter (\<lambda>u. poolUnitInput conf u now \<noteq> None) (ready_units pool now tickets launches)"
proof -
  have "map fst (List.map_filter (\<lambda>u. map_option (\<lambda>i. (u, i)) (h u)) us) = filter (\<lambda>u. h u \<noteq> None) us" for h :: "queue_unit \<Rightarrow> pool_unit option" and us
    by (induction us) (auto split: option.splits)
  then show ?thesis by (simp add: page_inputs_def)
qed

lemma page_inputs_pair: "(u, i) \<in> set (page_inputs conf pool now tickets launches) \<Longrightarrow> poolUnitInput conf u now = Some i"
  by (auto simp: page_inputs_def List.map_filter_def)

section \<open>The agreement\<close>

lemma Form_member:
  assumes "g \<in> set (Form units regions now p)"
  shows "distinct (pg_Units g)" "set (pg_Units g) \<subseteq> {..<length units}" "distinct (concat (map (\<lambda>i. pu_Players (units ! i)) (pg_Units g)))"
proof -
  have "Form units regions now p \<noteq> []" using assms by auto
  from Form_inv(1) [OF this] have d: "distinct (concat (map pg_Units (Form units regions now p)))"
    and ok: "\<And>i. i \<in> set (pg_Units g) \<Longrightarrow> i < length units \<and> us_valid (fm_state (prepare units regions now p) ! i)"
    using assms by (auto simp: pass_inv_def)
  show "distinct (pg_Units g)" using d assms by (induction "Form units regions now p" rule: list.induct) (auto dest: split_list)
  then show "distinct (concat (map (\<lambda>i. pu_Players (units ! i)) (pg_Units g)))"
    by (rule players_apart) (use ok prepare_valid(1,4) in blast)
  show "set (pg_Units g) \<subseteq> {..<length units}" using ok by blast
qed

lemma fold_min_max:
  assumes "xs \<noteq> []"
  shows "fold min (tl xs) (hd xs) = Min (set xs)" "fold max (tl xs) (hd xs) = Max (set xs)"
  using assms Min.set_eq_fold [of "hd xs" "tl xs"] Max.set_eq_fold [of "hd xs" "tl xs"] by simp_all

lemma longest_wait_ge: "t \<in> set ts \<Longrightarrow> WaitMs (tk_EnqueuedMs t) n \<le> longest_wait ts n"
proof -
  have "w \<le> fold (\<lambda>t w. max w (h t)) xs w \<and> (\<forall>t \<in> set xs. h t \<le> fold (\<lambda>t w. max w (h t)) xs w)" for h :: "ticket \<Rightarrow> u64" and xs w
    by (induction xs arbitrary: w) (auto, (meson max.cobounded1 max.cobounded2 order.trans)+)
  from this [of 0 "\<lambda>t. WaitMs (tk_EnqueuedMs t) n" ts] show "t \<in> set ts \<Longrightarrow> ?thesis" unfolding longest_wait_def by blast
qed

lemma UnitCenti_cong: "mset u = mset v \<Longrightarrow> UnitCenti (map r u) b = UnitCenti (map r v) b"
proof -
  assume "mset u = mset v"
  then have "mset (map r u) = mset (map r v)" by simp
  then have "sum_list (map r u) = sum_list (map r v)" "length (map r u) = length (map r v)" "map r u = [] \<longleftrightarrow> map r v = []"
    by (metis sum_mset_sum_list, metis size_mset, metis mset_zero_iff)
  then show ?thesis by (simp add: UnitCenti_def)
qed

lemma UnitCenti_image:
  assumes "mset ` A = mset ` B"
  shows "(\<lambda>u. UnitCenti (map r u) b) ` A = (\<lambda>u. UnitCenti (map r u) b) ` B"
proof -
  have "(\<lambda>u. UnitCenti (map r u) b) ` X \<subseteq> (\<lambda>u. UnitCenti (map r u) b) ` Y" if "mset ` X = mset ` Y" for X Y
  proof
    fix v assume "v \<in> (\<lambda>u. UnitCenti (map r u) b) ` X"
    then obtain x where x: "x \<in> X" "v = UnitCenti (map r x) b" by blast
    have "mset x \<in> mset ` Y" using x(1) that by blast
    then obtain y where "y \<in> Y" "mset x = mset y" by blast
    then show "v \<in> (\<lambda>u. UnitCenti (map r u) b) ` Y" using x(2) UnitCenti_cong by blast
  qed
  from this [OF assms] this [OF assms [symmetric]] show ?thesis by (rule equalityI)
qed

lemma waited_long_enough:
  assumes "e \<le> now" "now \<le> n" "wait \<le> WaitMs e now"
  shows "\<not> (n < wait \<or> e > n - wait)"
proof -
  have "WaitMs e now = now - e" using assms(1) by (auto simp: WaitMs_def)
  then have "unat wait \<le> unat now - unat e" "unat e \<le> unat now" "unat now \<le> unat n"
    using assms by (simp_all add: word_le_nat_alt unat_sub)
  then show ?thesis by (auto simp: word_less_nat_alt word_le_nat_alt unat_sub)
qed

text \<open>What a claim of a page is: a sound group, and its units listed as the commit will list them.\<close>

lemma formPool_claim:
  assumes "c \<in> set (formPool conf pool now regions tickets launches)" "page_ok launches"
  defines "pairs \<equiv> page_inputs conf pool now tickets launches" and "us \<equiv> map qu_tickets (pc_units c)"
  shows "sound_group (map snd pairs) regions now (poolPolicy conf pool) (pc_group c)"
    and "us = map (\<lambda>i. qu_tickets (fst (pairs ! i))) (pg_Units (pc_group c))" "set (pg_Units (pc_group c)) \<subseteq> {..<length pairs}"
    and "grouped us" "distinct (concat us)" "claim_tickets c = concat us"
    and "i \<in> set (pg_Units (pc_group c)) \<Longrightarrow> poolUnitInput conf (fst (pairs ! i)) now = Some (snd (pairs ! i))"
proof -
  let ?g = "pc_group c" let ?in = "map snd pairs"
  from assms(1) have g: "?g \<in> set (Form ?in regions now (poolPolicy conf pool))" and units: "pc_units c = map (\<lambda>i. fst (pairs ! i)) (pg_Units ?g)"
    by (auto simp: formPool_def Let_def pairs_def)
  have pair: "poolUnitInput conf (fst x) now = Some (snd x)" if "x \<in> set pairs" for x
    using page_inputs_pair that unfolding pairs_def by (metis prod.collapse)
  have keys: "\<forall>u \<in> set ?in. distinct (map fst (pu_RTT u))" using pair poolUnitInput_sound(4) by (fastforce simp: clean_keys_def)
  have ne: "Form ?in regions now (poolPolicy conf pool) \<noteq> []" using g by auto
  show "sound_group ?in regions now (poolPolicy conf pool) ?g" by (rule Form_inv(2) [OF ne keys g])
  show us: "us = map (\<lambda>i. qu_tickets (fst (pairs ! i))) (pg_Units ?g)" by (simp add: us_def units)
  note mem = Form_member [OF g]
  show sub: "set (pg_Units ?g) \<subseteq> {..<length pairs}" using mem(2) by simp
  have "grouped (map qu_tickets (map fst pairs))"
    unfolding pairs_def page_inputs_units by (rule grouped_filter [OF ready_grouped [OF assms(2)]])
  from grouped_pick [OF this mem(1)] sub have "grouped (map ((!) (map qu_tickets (map fst pairs))) (pg_Units ?g))" by simp
  moreover have "map ((!) (map qu_tickets (map fst pairs))) (pg_Units ?g) = us" unfolding us using sub by (intro map_cong) auto
  ultimately show "grouped us" by simp
  have at: "poolUnitInput conf (fst (pairs ! i)) now = Some (snd (pairs ! i))" if "i \<in> set (pg_Units ?g)" for i
    using that sub by (intro pair nth_mem) auto
  then show "i \<in> set (pg_Units ?g) \<Longrightarrow> poolUnitInput conf (fst (pairs ! i)) now = Some (snd (pairs ! i))" .
  have "pu_Players (?in ! i) = map tk_PlayerId (qu_tickets (fst (pairs ! i)))" if "i \<in> set (pg_Units ?g)" for i
    using poolUnitInput_sound(1) [OF at [OF that]] sub that by auto
  then have "map (\<lambda>i. pu_Players (?in ! i)) (pg_Units ?g) = map (map tk_PlayerId) us" by (simp add: us)
  then have "distinct (map tk_PlayerId (concat us))" using mem(3) by (simp add: map_concat)
  then show "distinct (concat us)" by (simp add: distinct_map)
  show "claim_tickets c = concat us" by (simp add: claim_tickets_def us_def)
qed

lemma queueUnits_agree:
  assumes "grouped us" "distinct (concat us)"
  shows "length (queueUnits (sort_key tk_PlayerId (concat us))) = length us"
    "set ` set (queueUnits (sort_key tk_PlayerId (concat us))) = set ` set us"
    "mset ` set (queueUnits (sort_key tk_PlayerId (concat us))) = mset ` set us"
  using grouped_agree [OF assms(1) queueUnits_grouped(1) assms(2), of "sort_key tk_PlayerId (concat us)"] queueUnits_grouped(2) by simp_all

lemma claim_scope:
  assumes "c \<in> set (formPool conf pool now regions tickets launches)" "page_ok launches" "now \<le> n"
  shows "admitScope conf (sort_key tk_PlayerId (claim_tickets c)) n = Some (pg_Level (pc_group c))"
proof -
  let ?pairs = "page_inputs conf pool now tickets launches" let ?g = "pc_group c" let ?us = "map qu_tickets (pc_units c)"
  note cl = formPool_claim [OF assms(1,2)] and q = queueUnits_agree [OF formPool_claim(4,5) [OF assms(1,2)]]
  have "pu_Members (map snd ?pairs ! i) = map (ticket_member conf) (qu_tickets (fst (?pairs ! i)))" if "i \<in> set (pg_Units ?g)" for i
    using poolUnitInput_sound(2) [OF cl(7) [OF that]] cl(3) that by auto
  then have "map (\<lambda>i. pu_Members (map snd ?pairs ! i)) (pg_Units ?g) = map (map (ticket_member conf)) ?us" by (simp add: cl(2))
  then have adm: "Admit (mc_Schedule conf) (map (map (ticket_member conf)) ?us) now = Some (pg_Level ?g)"
    using cl(1) by (simp add: sound_group_def agreed_group_def poolPolicy_def Let_def)
  have img: "set ` set (map (map (ticket_member conf)) vs) = (\<lambda>X. ticket_member conf ` X) ` (set ` set vs)" for vs
    by (simp add: image_image)
  have len: "length (map (map (ticket_member conf)) (queueUnits (sort_key tk_PlayerId (concat ?us)))) = length (map (map (ticket_member conf)) ?us)"
    using q(1) by simp
  have sets: "set ` set (map (map (ticket_member conf)) (queueUnits (sort_key tk_PlayerId (concat ?us)))) = set ` set (map (map (ticket_member conf)) ?us)"
    unfolding img q(2) ..
  show ?thesis unfolding admitScope_def cl(6) by (rule Admit_later [OF adm len sets assms(3)])
qed

lemma claim_cross:
  assumes "c \<in> set (formPool conf pool now regions tickets launches)" "page_ok launches" "now \<le> n"
    and t: "t \<in> set (claim_tickets c)" and "tk_EnqueuedMs t \<le> now" and "1 < length (pg_Units (pc_group c))"
    and s: "s \<in> set (claim_tickets c)" "\<And>p. tk_Profile s = Some p \<Longrightarrow> PreferredRegion p now \<noteq> pg_Region (pc_group c)"
  shows "\<not> (n < crossWaitMs conf \<or> tk_EnqueuedMs t > n - crossWaitMs conf)"
proof (rule waited_long_enough [OF assms(5,3)])
  let ?pairs = "page_inputs conf pool now tickets launches" let ?g = "pc_group c"
  note cl = formPool_claim [OF assms(1,2)] and snd = formPool_claim(1) [OF assms(1,2), unfolded sound_group_def placed_group_def agreed_group_def]
  have unit: "\<exists>i \<in> set (pg_Units ?g). x \<in> set (qu_tickets (fst (?pairs ! i)))" if "x \<in> set (claim_tickets c)" for x
    using that unfolding cl(6,2) by auto
  obtain i where i: "i \<in> set (pg_Units ?g)" "s \<in> set (qu_tickets (fst (?pairs ! i)))" using unit [OF s(1)] by blast
  note inp = poolUnitInput_sound [OF cl(7) [OF i(1)]]
  have at: "map snd ?pairs ! k = snd (?pairs ! k)" if "k \<in> set (pg_Units ?g)" for k using cl(3) that by auto
  have "map_of (pu_RTT (snd (?pairs ! i))) (pg_Region ?g) \<noteq> None" using snd i(1) at by auto
  then have "pg_Region ?g \<in> set (map fst (pu_RTT (snd (?pairs ! i))))" by (simp add: map_of_eq_None_iff)
  then have "pg_Region ?g \<noteq> 0" using inp(4) unfolding clean_keys_def by metis
  then have "pu_Preferred (snd (?pairs ! i)) \<noteq> pg_Region ?g" using inp(5) [OF _ i(2)] s(2) by auto
  then have "pg_Cross ?g" using snd i(1) at by metis
  obtain k where k: "k \<in> set (pg_Units ?g)" "t \<in> set (qu_tickets (fst (?pairs ! k)))" using unit [OF t] by blast
  have "ticket_member conf t \<in> set (pu_Members (map snd ?pairs ! k))"
    using poolUnitInput_sound(2) [OF cl(7) [OF k(1)]] at [OF k(1)] k(2) by simp
  then have "po_CrossRegionAfterMs (poolPolicy conf pool) \<le> WaitMs (sm_EnqueuedMs (ticket_member conf t)) now"
    using snd \<open>pg_Cross ?g\<close> assms(6) k(1) by blast
  then show "crossWaitMs conf \<le> WaitMs (tk_EnqueuedMs t) now" by (simp add: poolPolicy_def Let_def ticket_member_def)
qed

lemma anchor_policy:
  "po_Rated (poolPolicy conf pool) = Rated_mode (pl_Mode pool)"
  "Rated_mode (pl_Mode pool) \<Longrightarrow> anchor_tolerance (poolPolicy conf pool) w = AnchorCenti (mc_Curve conf) w"
  by (simp_all add: poolPolicy_def Let_def anchor_tolerance_def anchorToleranceFor_def AnchorCenti_code)

lemma AnchorCenti_widens: "within_tol x (AnchorCenti c v) \<Longrightarrow> v \<le> w \<Longrightarrow> within_tol x (AnchorCenti c w)"
proof -
  assume x: "within_tol x (AnchorCenti c v)" and vw: "v \<le> w"
  have "uint (v div 1000) \<le> uint (w div 1000)" using vw by (simp add: uint_div word_le_def zdiv_mono1)
  then show ?thesis using Anchor_widens x unfolding AnchorCenti_code by (metis uint_nonnegative)
qed

lemma claim_longest:
  assumes "c \<in> set (formPool conf pool now regions tickets launches)" "page_ok launches" "now \<le> n" "pg_Units (pc_group c) \<noteq> []"
  shows "\<exists>t \<in> set (concat (map qu_tickets (pc_units c))).
    unit_wait now (map snd (page_inputs conf pool now tickets launches) ! hd (pg_Units (pc_group c))) \<le> WaitMs (tk_EnqueuedMs t) n"
proof -
  let ?pairs = "page_inputs conf pool now tickets launches" let ?k = "hd (pg_Units (pc_group c))"
  let ?t = "hd (qu_tickets (fst (?pairs ! ?k)))"
  note cl = formPool_claim [OF assms(1,2)]
  have k: "?k \<in> set (pg_Units (pc_group c))" using assms(4) by simp
  then have u: "qu_tickets (fst (?pairs ! ?k)) \<in> set (map qu_tickets (pc_units c))" unfolding cl(2) by auto
  have t: "?t \<in> set (qu_tickets (fst (?pairs ! ?k)))" using unit_okD(1) [OF groupedD [OF cl(4) u]] by simp
  then have mem: "?t \<in> set (concat (map qu_tickets (pc_units c)))" using u unfolding set_concat by blast
  have "ticket_member conf ?t \<in> set (pu_Members (map snd ?pairs ! ?k))"
    using poolUnitInput_sound(2) [OF cl(7) [OF k]] cl(3) k t by auto
  from unit_wait_le [OF this, of now] have "unit_wait now (map snd ?pairs ! ?k) \<le> WaitMs (tk_EnqueuedMs ?t) now" by (simp add: ticket_member_def)
  also have "\<dots> \<le> WaitMs (tk_EnqueuedMs ?t) n" by (rule WaitMs_mono [OF assms(3)])
  finally show ?thesis using mem by blast
qed

lemma claim_rated:
  assumes "c \<in> set (formPool conf pool now regions tickets launches)" "page_ok launches" "now \<le> n"
  shows "requireRatedSpread conf (pl_Mode pool) (sort_key tk_PlayerId (claim_tickets c)) n"
proof (cases "Rated_mode (pl_Mode pool)")
  case True
  let ?pairs = "page_inputs conf pool now tickets launches" let ?g = "pc_group c" let ?us = "map qu_tickets (pc_units c)"
  let ?rate = "\<lambda>u. UnitCenti (map tk_RatingCenti u) (PartyBonusCenti conf)" let ?in = "map snd ?pairs"
  note cl = formPool_claim [OF assms(1,2)] and q = queueUnits_agree [OF formPool_claim(4,5) [OF assms(1,2)]]
  define vs where "vs = queueUnits (sort_key tk_PlayerId (concat ?us))"
  have snd: "pg_Units ?g \<noteq> []" "1 < length (pg_Units ?g) \<Longrightarrow> i \<in> set (pg_Units ?g) \<Longrightarrow> j \<in> set (pg_Units ?g) \<Longrightarrow>
      within_tol (pu_RatingCenti (?in ! i) - pu_RatingCenti (?in ! j)) (AnchorCenti (mc_Curve conf) (unit_wait now (?in ! hd (pg_Units ?g))))" for i j
    using cl(1) True anchor_policy by (simp_all add: sound_group_def placed_group_def balanced_group_def)
  have ne: "vs \<noteq> []" using q(1) cl(2) snd(1) by (auto simp: vs_def)
  have rate: "?rate (qu_tickets (fst (?pairs ! i))) = pu_RatingCenti (?in ! i)" if "i \<in> set (pg_Units ?g)" for i
    using poolUnitInput_sound(3) [OF cl(7) [OF that]] cl(3) that by auto
  have "?rate ` set vs = ?rate ` set ?us" unfolding vs_def by (rule UnitCenti_image [OF q(3)])
  also have "\<dots> = (\<lambda>i. pu_RatingCenti (?in ! i)) ` set (pg_Units ?g)" unfolding cl(2) set_map image_image using rate by (intro image_cong) simp_all
  finally have ratings: "set (map ?rate vs) = (\<lambda>i. pu_RatingCenti (?in ! i)) ` set (pg_Units ?g)" by simp
  have "Max (set (map ?rate vs)) \<in> set (map ?rate vs)" "Min (set (map ?rate vs)) \<in> set (map ?rate vs)"
    using ne by (intro Max_in Min_in; simp)+
  then obtain i j where ij: "i \<in> set (pg_Units ?g)" "j \<in> set (pg_Units ?g)"
      "Max (set (map ?rate vs)) = pu_RatingCenti (?in ! i)" "Min (set (map ?rate vs)) = pu_RatingCenti (?in ! j)"
    unfolding ratings by blast
  define longest where "longest = longest_wait (concat vs) n"
  have "set (concat vs) = set (concat ?us)" using mset_eq_setD [OF queueUnits_grouped(2), of "sort_key tk_PlayerId (concat ?us)"] by (simp add: vs_def)
  then have wait: "unit_wait now (?in ! hd (pg_Units ?g)) \<le> longest"
  proof -
    assume eq: "set (concat vs) = set (concat ?us)"
    obtain t where t: "t \<in> set (concat ?us)" "unit_wait now (?in ! hd (pg_Units ?g)) \<le> WaitMs (tk_EnqueuedMs t) n"
      using claim_longest [OF assms snd(1)] by blast
    have "WaitMs (tk_EnqueuedMs t) n \<le> longest" unfolding longest_def by (rule longest_wait_ge) (use t(1) eq in blast)
    with t(2) show ?thesis by (rule order_trans)
  qed
  have "within_tol (pu_RatingCenti (?in ! i) - pu_RatingCenti (?in ! j)) (AnchorCenti (mc_Curve conf) longest)"
  proof (cases "1 < length (pg_Units ?g)")
    case True
    then show ?thesis using AnchorCenti_widens [OF snd(2) [OF True ij(1,2)] wait] by simp
  next
    case False
    then have "i = j" using ij(1,2) by (cases "pg_Units ?g") auto
    then show ?thesis using Anchor_zero by (simp add: AnchorCenti_code)
  qed
  then have "\<not> exceeds (fold max (tl (map ?rate vs)) (hd (map ?rate vs)) - fold min (tl (map ?rate vs)) (hd (map ?rate vs))) (AnchorCenti (mc_Curve conf) longest)"
    using fold_min_max [of "map ?rate vs"] ne ij(3,4) by (intro not_exceeds) simp
  then show ?thesis unfolding requireRatedSpread_def cl(6) Let_def vs_def [symmetric] longest_def [symmetric] by simp
qed (simp add: requireRatedSpread_def)

text \<open>C10: The matcher and the commit agree: a group formed from a page is never refused at the commit for its waiting, its reach across
  zones or its ratings, however much later the commit comes, as long as the tickets and their preferred regions stay as they were;
  and it spans the level the matcher saw.\<close>

theorem claims_pass_the_rules:
  assumes "c \<in> set (formPool conf pool now regions tickets launches)" and "page_ok launches" and "now \<le> n"
    and "\<forall>t \<in> set (claim_tickets c). tk_EnqueuedMs t \<le> now \<and> (\<forall>p. tk_Profile t = Some p \<longrightarrow> PreferredRegion p n = PreferredRegion p now)"
  shows "queue_rules conf (pl_Mode pool) (pg_Region (pc_group c)) (claim_tickets c) n = None
    \<and> admitScope conf (sort_key tk_PlayerId (claim_tickets c)) n = Some (pg_Level (pc_group c))"
proof -
  let ?cur = "sort_key tk_PlayerId (claim_tickets c)" let ?g = "pc_group c"
  note cl = formPool_claim [OF assms(1,2)]
  have "length (queueUnits ?cur) = length (pg_Units ?g)"
    using queueUnits_agree(1) [OF cl(4,5)] unfolding cl(6) by (simp add: cl(2))
  moreover have "pg_Units ?g \<noteq> []" using cl(1) by (simp add: sound_group_def placed_group_def)
  ultimately have several: "1 < length (pg_Units ?g)" if "\<not> singleUnit ?cur" using that by (cases "pg_Units ?g") (auto simp: singleUnit_def)
  have "\<not> (n < crossWaitMs conf \<or> tk_EnqueuedMs t > n - crossWaitMs conf)"
    if bad: "\<not> list_all (\<lambda>t. case tk_Profile t of None \<Rightarrow> False | Some p \<Rightarrow> PreferredRegion p n = pg_Region ?g) ?cur" "\<not> singleUnit ?cur"
      and t: "t \<in> set ?cur" for t
  proof -
    from bad(1) obtain s where "s \<in> set (claim_tickets c)" "\<And>p. tk_Profile s = Some p \<Longrightarrow> PreferredRegion p n \<noteq> pg_Region ?g"
      by (auto simp: list_all_iff split: option.splits)
    then show ?thesis using claim_cross [OF assms(1-3) _ _ several [OF bad(2)]] assms(4) t by simp
  qed
  then have "\<not> (\<not> list_all (\<lambda>t. case tk_Profile t of None \<Rightarrow> False | Some p \<Rightarrow> PreferredRegion p n = pg_Region ?g) ?cur \<and> \<not> singleUnit ?cur
      \<and> list_ex (\<lambda>t. n < crossWaitMs conf \<or> tk_EnqueuedMs t > n - crossWaitMs conf) ?cur)" unfolding list_ex_iff by blast
  then show ?thesis using claim_scope [OF assms(1-3)] claim_rated [OF assms(1-3)] unfolding queue_rules_def Let_def by simp
qed

section \<open>Witness\<close>

text \<open>Two players of a 1V1 pool, 50 points apart, after 25 seconds; the commit comes 15 seconds later.\<close>

definition demo_ticket :: "u64 \<Rightarrow> u64 \<Rightarrow> int \<Rightarrow> ticket" where
  "demo_ticket player enqueued rating = \<lparr>tk_PlayerId = player, tk_State = 1, tk_EnqueuedMs = enqueued, tk_NotBeforeMs = 0, tk_ExpiresMs = 100000,
     tk_ZoneId = 1, tk_RatingCenti = rating, tk_TeamId = 0,
     tk_Profile = Some [\<lparr>pr_Grant = Some \<lparr>gt_PhysicalRegion = 3, gt_ExpiresAtMs = 90000\<rparr>, pr_ExpiresAtMs = 90000, pr_MeasuredAtMs = 5, pr_SampleCount = 3, pr_RttMs = 20\<rparr>]\<rparr>"

definition demo_tickets :: "ticket list" where
  "demo_tickets = [demo_ticket 12 100 150000, demo_ticket 11 200 155000]"

definition demo_conf :: match_conf where
  "demo_conf = \<lparr>mc_Curve = \<lparr>cv_Base = 0, cv_StepSeconds = 0, cv_StepDelta = 0, cv_Max = 0, cv_MaxWaitSeconds = 0\<rparr>,
     mc_Schedule = \<lparr>sd_GroupAfterMs = 0, sd_GlobalAfterMs = 0\<rparr>, mc_CrossRegionWaitSeconds = 30, mc_HardLatencyMs = 180,
     mc_PartyRatingBonusPerMember = 25, mc_PremadeGapStepSeconds = 10, mc_Zones = None, mc_Directory = None\<rparr>"

definition demo_pool :: match_pool where "demo_pool = \<lparr>pl_Mode = 3, pl_ConfigId = 7, pl_TeamSize = 2\<rparr>"

theorem claims_pass_the_rules_witness:
  "\<exists>c. formPool demo_conf demo_pool 25300 [(3, True)] demo_tickets [] = [c] \<and> claim_tickets c = demo_tickets
     \<and> queue_rules demo_conf 3 (pg_Region (pc_group c)) (claim_tickets c) 40000 = None"
proof -
  let ?F = "formPool demo_conf demo_pool 25300 [(3, True)] demo_tickets []"
  have "map claim_tickets ?F = [demo_tickets]" by code_simp
  then obtain c where c: "?F = [c]" "claim_tickets c = demo_tickets" by (cases ?F) auto
  have "\<forall>t \<in> set demo_tickets. tk_EnqueuedMs t \<le> 25300 \<and> (\<forall>p \<in> set_option (tk_Profile t). PreferredRegion p 40000 = PreferredRegion p 25300)"
    by code_simp
  then have "\<forall>t \<in> set (claim_tickets c). tk_EnqueuedMs t \<le> 25300 \<and> (\<forall>p. tk_Profile t = Some p \<longrightarrow> PreferredRegion p 40000 = PreferredRegion p 25300)"
    by (simp add: c(2))
  moreover have "page_ok []" by (simp add: page_ok_def)
  ultimately show ?thesis using claims_pass_the_rules [of c demo_conf demo_pool 25300 "[(3, True)]" demo_tickets "[]" 40000] c by (simp add: demo_pool_def)
qed

end
